(* ===== verification/Kernel_Prelude.thy ===== *)
theory Kernel_Prelude
  imports Main "HOL-Library.Word" "HOL-Library.AList" "HOL-Library.Multiset"
begin

unbundle bit_operations_syntax

text \<open>
  Shared vocabulary of the development: the machine integers of the sources, the outcome of a
  fallible operation, the kernel's error numbers, and the library lemmas on lists, words and
  association lists that the component theories use.

  Rust's \<open>Result\<close> and its panics are one type here: \<open>Ok\<close> is a normal return, \<open>Err\<close> an
  \<open>Errno\<close> handed to the caller (the operator \<^verbatim>\<open>?\<close> returns it unchanged), and \<open>Panic\<close> a failed
  \<^verbatim>\<open>assert!\<close>, \<^verbatim>\<open>expect\<close> or index check.  Arithmetic is that of the release profile, the one the
  kernel's Makefile builds by default: it wraps, and \<^verbatim>\<open>debug_assert!\<close> is not compiled.
\<close>

section \<open>Machine integers and outcomes\<close>

type_synonym u8 = "8 word"
type_synonym u16 = "16 word"
type_synonym u32 = "32 word"
type_synonym u64 = "64 word"

datatype Errno = Errno (code: u32)

definition Errno_PERM :: Errno where "Errno_PERM = Errno 1"
definition Errno_NOENT :: Errno where "Errno_NOENT = Errno 2"
definition Errno_SRCH :: Errno where "Errno_SRCH = Errno 3"
definition Errno_INTR :: Errno where "Errno_INTR = Errno 4"
definition Errno_IO :: Errno where "Errno_IO = Errno 5"
definition Errno_NXIO :: Errno where "Errno_NXIO = Errno 6"
definition Errno_TOOBIG :: Errno where "Errno_TOOBIG = Errno 7"
definition Errno_NOEXEC :: Errno where "Errno_NOEXEC = Errno 8"
definition Errno_BADF :: Errno where "Errno_BADF = Errno 9"
definition Errno_CHILD :: Errno where "Errno_CHILD = Errno 10"
definition Errno_AGAIN :: Errno where "Errno_AGAIN = Errno 11"
definition Errno_NOMEM :: Errno where "Errno_NOMEM = Errno 12"
definition Errno_ACCESS :: Errno where "Errno_ACCESS = Errno 13"
definition Errno_FAULT :: Errno where "Errno_FAULT = Errno 14"
definition Errno_NOTBLK :: Errno where "Errno_NOTBLK = Errno 15"
definition Errno_BUSY :: Errno where "Errno_BUSY = Errno 16"
definition Errno_EXIST :: Errno where "Errno_EXIST = Errno 17"
definition Errno_XDEV :: Errno where "Errno_XDEV = Errno 18"
definition Errno_NODEV :: Errno where "Errno_NODEV = Errno 19"
definition Errno_NOTDIR :: Errno where "Errno_NOTDIR = Errno 20"
definition Errno_ISDIR :: Errno where "Errno_ISDIR = Errno 21"
definition Errno_INVAL :: Errno where "Errno_INVAL = Errno 22"
definition Errno_NFILE :: Errno where "Errno_NFILE = Errno 23"
definition Errno_MFILE :: Errno where "Errno_MFILE = Errno 24"
definition Errno_NOTTY :: Errno where "Errno_NOTTY = Errno 25"
definition Errno_TXTBSY :: Errno where "Errno_TXTBSY = Errno 26"
definition Errno_FBIG :: Errno where "Errno_FBIG = Errno 27"
definition Errno_NOSPC :: Errno where "Errno_NOSPC = Errno 28"
definition Errno_SPIPE :: Errno where "Errno_SPIPE = Errno 29"
definition Errno_ROFS :: Errno where "Errno_ROFS = Errno 30"
definition Errno_MLINK :: Errno where "Errno_MLINK = Errno 31"
definition Errno_PIPE :: Errno where "Errno_PIPE = Errno 32"
definition Errno_DOM :: Errno where "Errno_DOM = Errno 33"
definition Errno_RANGE :: Errno where "Errno_RANGE = Errno 34"
definition Errno_DEADLK :: Errno where "Errno_DEADLK = Errno 35"
definition Errno_NAMETOOLONG :: Errno where "Errno_NAMETOOLONG = Errno 36"
definition Errno_NOLCK :: Errno where "Errno_NOLCK = Errno 37"
definition Errno_NOSYS :: Errno where "Errno_NOSYS = Errno 38"
definition Errno_NOTEMPTY :: Errno where "Errno_NOTEMPTY = Errno 39"
definition Errno_ERROR :: Errno where "Errno_ERROR = Errno 99"

datatype 'a outcome = Ok 'a | Err Errno | Panic

text \<open>
  Stateful code: an operation takes the state it mutates and returns the outcome with the state
  it leaves behind (an \<open>Err\<close> return may leave a changed state).  \<open>bind_op\<close> sequences two operations
  the way \<^verbatim>\<open>?\<close> and panics do.
\<close>

type_synonym ('s, 'a) op = "'s \<Rightarrow> 'a outcome \<times> 's"

definition bind_op :: "('s, 'a) op \<Rightarrow> ('a \<Rightarrow> ('s, 'b) op) \<Rightarrow> ('s, 'b) op" where
  "bind_op m f s =
     (case m s of
        (Ok a, s') \<Rightarrow> f a s'
      | (Err e, s') \<Rightarrow> (Err e, s')
      | (Panic, s') \<Rightarrow> (Panic, s'))"

lemma bind_op_Ok_iff:
  "bind_op m f s = (Ok b, s'') \<longleftrightarrow> (\<exists>a s'. m s = (Ok a, s') \<and> f a s' = (Ok b, s''))"
  by (auto simp: bind_op_def split: outcome.splits prod.splits)

lemma bind_op_Err_iff:
  "bind_op m f s = (Err e, s'') \<longleftrightarrow>
     m s = (Err e, s'') \<or> (\<exists>a s'. m s = (Ok a, s') \<and> f a s' = (Err e, s''))"
  by (auto simp: bind_op_def split: outcome.splits prod.splits)

lemma bind_op_run [simp]:
  "m s = (Ok a, s') \<Longrightarrow> bind_op m f s = f a s'"
  "m s = (Err e, s') \<Longrightarrow> bind_op m f s = (Err e, s')"
  "m s = (Panic, s') \<Longrightarrow> bind_op m f s = (Panic, s')"
  by (simp_all add: bind_op_def)

lemma bind_op_assoc: "bind_op (bind_op m g) h = bind_op m (\<lambda>a. bind_op (g a) h)"
  by (rule ext) (simp add: bind_op_def split: outcome.splits prod.splits)

text \<open>A sequence of operations over a list, as a \<^verbatim>\<open>for\<close> loop runs them.\<close>

fun for_op :: "('a \<Rightarrow> ('s, unit) op) \<Rightarrow> 'a list \<Rightarrow> ('s, unit) op" where
  "for_op f [] s = (Ok (), s)"
| "for_op f (x # xs) s = bind_op (f x) (\<lambda>_. for_op f xs) s"

named_theorems mm_defs \<open>definitions of the address and page-entry accessors\<close>

section \<open>Lists\<close>

text \<open>\<open>Iterator::rposition\<close> of a slice: the last index whose element satisfies the predicate.\<close>

fun rposition :: "('a \<Rightarrow> bool) \<Rightarrow> 'a list \<Rightarrow> nat option" where
  "rposition p [] = None"
| "rposition p (x # xs) =
     (case rposition p xs of
        Some i \<Rightarrow> Some (Suc i)
      | None \<Rightarrow> if p x then Some 0 else None)"

lemma rposition_None_iff: "rposition p xs = None \<longleftrightarrow> (\<forall>x\<in>set xs. \<not> p x)"
  by (induction xs) (auto split: option.splits)

lemma rposition_Some_iff:
  "rposition p xs = Some i \<longleftrightarrow>
     i < length xs \<and> p (xs ! i) \<and> (\<forall>j. i < j \<longrightarrow> j < length xs \<longrightarrow> \<not> p (xs ! j))"
proof (induction xs arbitrary: i)
  case Nil
  then show ?case by simp
next
  case (Cons x xs)
  show ?case
  proof (cases "rposition p xs")
    case None
    then have none: "\<And>k. k < length xs \<Longrightarrow> \<not> p (xs ! k)"
      by (auto simp: rposition_None_iff)
    show ?thesis
    proof (cases i)
      case 0
      then show ?thesis using None none by (auto simp: nth_Cons split: nat.splits)
    next
      case (Suc k)
      then show ?thesis using None none by auto
    qed
  next
    case (Some k)
    with Cons.IH have k: "k < length xs" "p (xs ! k)"
      "\<And>j. k < j \<Longrightarrow> j < length xs \<Longrightarrow> \<not> p (xs ! j)" by blast+
    show ?thesis
    proof
      assume "rposition p (x # xs) = Some i"
      with Some have "i = Suc k" by simp
      with k show "i < length (x # xs) \<and> p ((x # xs) ! i) \<and>
          (\<forall>j. i < j \<longrightarrow> j < length (x # xs) \<longrightarrow> \<not> p ((x # xs) ! j))"
        by (auto simp: nth_Cons split: nat.splits)
    next
      assume r: "i < length (x # xs) \<and> p ((x # xs) ! i) \<and>
          (\<forall>j. i < j \<longrightarrow> j < length (x # xs) \<longrightarrow> \<not> p ((x # xs) ! j))"
      have "\<not> i < Suc k"
      proof
        assume "i < Suc k"
        then have "\<not> p ((x # xs) ! Suc k)" using r k(1) by (metis Suc_less_eq length_Cons)
        with k(2) show False by simp
      qed
      moreover have "\<not> Suc k < i"
      proof
        assume "Suc k < i"
        then obtain m where "i = Suc m" "k < m" by (cases i) auto
        with r k(3) show False by auto
      qed
      ultimately have "i = Suc k" by simp
      with Some show "rposition p (x # xs) = Some i" by simp
    qed
  qed
qed

lemma list_update_same_conv_nth:
  "i < length xs \<Longrightarrow> xs[i := v] ! j = (if j = i then v else xs ! j)"
  by simp

section \<open>Words\<close>

lemma unat_less_exp: "unat (w :: 'a::len word) < 2 ^ LENGTH('a)"
  by (rule unsigned_less)

lemma unat_u8: "unat (w :: u8) < 256"
  using unat_less_exp [of w] by simp

lemma unat_u32: "unat (w :: u32) < 4294967296"
  using unat_less_exp [of w] by simp

lemma unat_word_of_nat: "n < 2 ^ LENGTH('a) \<Longrightarrow> unat (word_of_nat n :: 'a::len word) = n"
  by (simp only: unsigned_of_nat take_bit_nat_eq_self of_nat_id)

lemma ucast_u16_u32:
  "(ucast (z :: u16) :: u32) = 0 \<longleftrightarrow> z = 0" "unat (ucast (z :: u16) :: u32) = unat z"
proof -
  show u: "unat (ucast z :: u32) = unat z"
    using unat_less_exp [of z] by (simp add: unsigned_ucast_eq take_bit_eq_mod)
  then show "(ucast z :: u32) = 0 \<longleftrightarrow> z = 0" by (metis unsigned_0 word_unat_eq_iff)
qed

lemma unat_take_bit: "unat (take_bit n w) = unat w mod 2 ^ n"
proof -
  have "unat (take_bit n w) = take_bit n (unat w)" by (rule unsigned_take_bit_eq)
  then show ?thesis by (simp only: take_bit_eq_mod)
qed

lemma unat_and_mask: "unat (w AND mask n) = unat w mod 2 ^ n"
  by (simp only: unat_take_bit flip: take_bit_eq_mask)

lemma take_bit_word_id: "unat w < 2 ^ n \<Longrightarrow> take_bit n w = w"
  by (rule word_unat_eq_iff [THEN iffD2]) (simp only: unat_take_bit mod_less)

lemma not_bit_nat: "n < 2 ^ m \<Longrightarrow> m \<le> k \<Longrightarrow> \<not> bit (n :: nat) k"
proof -
  assume "n < 2 ^ m" "m \<le> k"
  then have "n < 2 ^ k" by (meson order_less_le_trans one_le_numeral power_increasing)
  then show ?thesis by (simp add: bit_iff_odd)
qed

lemma and_exp_eq_exp_iff:
  fixes w :: "'a::len word"
  assumes n: "n < LENGTH('a)"
  shows "w AND 2 ^ n = 2 ^ n \<longleftrightarrow> bit w n"
proof
  assume "w AND 2 ^ n = 2 ^ n"
  then have "bit (w AND 2 ^ n) n = bit (2 ^ n :: 'a word) n" by simp
  with n show "bit w n" by (simp add: bit_and_iff bit_exp_iff)
next
  assume "bit w n"
  then show "w AND 2 ^ n = 2 ^ n"
    by (intro bit_eqI) (auto simp: bit_and_iff bit_exp_iff)
qed

section \<open>Association lists: a \<open>HashMap\<close>\<close>

text \<open>
  A hash map is an association list with distinct keys: \<open>AList.update\<close> is \<open>insert\<close>, \<open>map_of\<close> is
  \<open>get\<close>.  Its iteration order is not specified by the library; the operations that iterate a map
  here (dropping every value) have results that do not depend on it.
\<close>

lemma set_alist_update: "set (AList.update k v m) \<subseteq> insert (k, v) (set m)"
  by (induction m) auto

lemma mset_snd_update_new:
  "map_of m k = None \<Longrightarrow> mset (map snd (AList.update k v m)) = add_mset v (mset (map snd m))"
  by (induction m) (auto split: if_splits)

lemma mset_snd_update_old:
  "map_of m k = Some w \<Longrightarrow>
     add_mset w (mset (map snd (AList.update k v m))) = add_mset v (mset (map snd m))"
proof (induction m)
  case Nil
  then show ?case by simp
next
  case (Cons p m)
  then show ?case by (cases p) (auto split: if_splits)
qed

lemma mod_add_cancel:
  fixes t a b c :: nat
  assumes "a < c" "b < c" "(t + a) mod c = (t + b) mod c"
  shows "a = b"
proof -
  have "a mod c = b mod c" using assms(3) by (simp add: mod_add_cong nat_mod_eq_iff)
  with assms(1,2) show ?thesis by simp
qed

end
