(* ===== verification/Mm_Address.thy ===== *)
theory Mm_Address
  imports Kernel_Prelude
begin

text \<open>
  \<open>kernel/src/mm/address.rs\<close>: linear and physical addresses and page numbers.  The four newtypes
  over \<open>u32\<close> are 32-bit words; the conversions keep the source's shifts and masks.
\<close>

section \<open>Model\<close>

type_synonym LinAddr = u32
type_synonym PhysAddr = u32
type_synonym PhysPageNum = u32
type_synonym LinPageNum = u32

definition PAGE_SHIFT :: nat where "PAGE_SHIFT = 12"

definition PAGE_OFFSET_MASK :: u32 where
  [mm_defs]: "PAGE_OFFSET_MASK = push_bit PAGE_SHIFT 1 - 1"

definition PhysPageNum_from_u32 :: "u32 \<Rightarrow> PhysPageNum" where
  [mm_defs]: "PhysPageNum_from_u32 value = value AND (push_bit 20 1 - 1)"

definition LinPageNum_from_u32 :: "u32 \<Rightarrow> LinPageNum" where
  [mm_defs]: "LinPageNum_from_u32 value = value AND (push_bit 20 1 - 1)"

definition LinAddr_align_down :: "LinAddr \<Rightarrow> LinAddr" where
  [mm_defs]: "LinAddr_align_down a = a AND NOT PAGE_OFFSET_MASK"

definition LinAddr_floor :: "LinAddr \<Rightarrow> LinPageNum" where
  [mm_defs]: "LinAddr_floor a = drop_bit PAGE_SHIFT a"

definition LinAddr_page_offset :: "LinAddr \<Rightarrow> u32" where
  [mm_defs]: "LinAddr_page_offset a = a AND PAGE_OFFSET_MASK"

definition PhysAddr_floor :: "PhysAddr \<Rightarrow> PhysPageNum" where
  [mm_defs]: "PhysAddr_floor a = drop_bit PAGE_SHIFT a"

definition PhysAddr_page_offset :: "PhysAddr \<Rightarrow> u32" where
  [mm_defs]: "PhysAddr_page_offset a = a AND PAGE_OFFSET_MASK"

text \<open>\<open>impl From<PhysAddr> for PhysPageNum\<close>: asserts that the address is page aligned.\<close>

definition PhysPageNum_from_PhysAddr :: "PhysAddr \<Rightarrow> PhysPageNum outcome" where
  "PhysPageNum_from_PhysAddr a =
     (if PhysAddr_page_offset a \<noteq> 0 then Panic else Ok (PhysAddr_floor a))"

definition PhysPageNum_addr :: "PhysPageNum \<Rightarrow> PhysAddr" where
  [mm_defs]: "PhysPageNum_addr p = push_bit PAGE_SHIFT p"

definition LinPageNum_from_indices :: "nat \<Rightarrow> nat \<Rightarrow> LinPageNum" where
  [mm_defs]: "LinPageNum_from_indices pde_index pte_index =
     push_bit 10 (word_of_nat pde_index) OR word_of_nat pte_index"

definition LinPageNum_pde_index :: "LinPageNum \<Rightarrow> nat" where
  [mm_defs]: "LinPageNum_pde_index p = unat (drop_bit 10 p)"

definition LinPageNum_pte_index :: "LinPageNum \<Rightarrow> nat" where
  [mm_defs]: "LinPageNum_pte_index p = unat (p AND 0x3FF)"

definition LinPageNum_addr :: "LinPageNum \<Rightarrow> LinAddr" where
  [mm_defs]: "LinPageNum_addr p = push_bit PAGE_SHIFT p"

section \<open>Facts\<close>

lemma PAGE_OFFSET_MASK_mask: "PAGE_OFFSET_MASK = mask 12"
  by (simp add: PAGE_OFFSET_MASK_def PAGE_SHIFT_def mask_eq_decr_exp push_bit_eq_mult)

lemma word_0x3FF_mask: "(0x3FF :: u32) = mask 10"
  by (simp add: mask_eq_decr_exp)

lemma pte_index_bound [simp]: "LinPageNum_pte_index p < 1024"
  by (simp only: LinPageNum_pte_index_def word_0x3FF_mask unat_and_mask) simp

lemma align_down_eq_addr_floor: "LinAddr_align_down a = LinPageNum_addr (LinAddr_floor a)"
  unfolding LinAddr_align_down_def LinPageNum_addr_def LinAddr_floor_def PAGE_OFFSET_MASK_mask
    PAGE_SHIFT_def
  by (rule bit_eqI) (auto simp: bit_simps)

lemma addr_split: "a = LinPageNum_addr (LinAddr_floor a) OR LinAddr_page_offset a"
  unfolding LinAddr_page_offset_def LinPageNum_addr_def LinAddr_floor_def PAGE_OFFSET_MASK_mask
    PAGE_SHIFT_def
  by (rule bit_eqI) (auto simp: bit_simps)

lemma page_offset_bound: "unat (LinAddr_page_offset a) < 4096"
  by (simp only: LinAddr_page_offset_def PAGE_OFFSET_MASK_mask unat_and_mask) simp

text \<open>The page number of a page-aligned physical address of a 20-bit page.\<close>

lemma floor_addr:
  assumes "unat p < 2 ^ 20"
  shows "PhysPageNum_from_PhysAddr (PhysPageNum_addr p) = Ok p"
proof -
  have p: "take_bit 20 p = p"
    using assms by (rule take_bit_word_id)
  have off: "push_bit 12 p AND mask 12 = 0"
    by (rule bit_eqI) (auto simp: bit_simps)
  have "drop_bit 12 (push_bit 12 p) = take_bit 20 p"
    by (rule bit_eqI) (auto simp: bit_simps)
  then show ?thesis
    by (simp add: PhysPageNum_from_PhysAddr_def PhysAddr_page_offset_def PhysPageNum_addr_def
        PhysAddr_floor_def PAGE_OFFSET_MASK_mask PAGE_SHIFT_def off p)
qed

text \<open>Splitting a linear page number into its directory and table index, and back.\<close>

lemma from_indices_split:
  "LinPageNum_from_indices (LinPageNum_pde_index p) (LinPageNum_pte_index p) = p"
  unfolding LinPageNum_from_indices_def LinPageNum_pde_index_def LinPageNum_pte_index_def
    word_0x3FF_mask
  by (rule bit_eqI) (auto simp: bit_simps)

lemma pte_index_from_indices [simp]:
  assumes "j < 1024"
  shows "LinPageNum_pte_index (LinPageNum_from_indices i j) = j"
proof -
  have "(push_bit 10 (word_of_nat i) OR word_of_nat j) AND mask 10 = (word_of_nat j :: u32)"
  proof (rule bit_eqI)
    fix n
    show "bit ((push_bit 10 (word_of_nat i) OR word_of_nat j) AND mask 10 :: u32) n =
        bit (word_of_nat j :: u32) n"
      using not_bit_nat [of j 10 n] assms by (cases "n < 10") (auto simp: bit_simps)
  qed
  then show ?thesis
    using assms by (simp add: LinPageNum_pte_index_def LinPageNum_from_indices_def
        word_0x3FF_mask unat_of_nat)
qed

lemma pde_index_from_indices [simp]:
  assumes "i < 1024" "j < 1024"
  shows "LinPageNum_pde_index (LinPageNum_from_indices i j) = i"
proof -
  have "drop_bit 10 (push_bit 10 (word_of_nat i) OR word_of_nat j) = (word_of_nat i :: u32)"
    using not_bit_nat [of j 10] not_bit_nat [of i 10] assms
    by (intro bit_eqI) (fastforce simp: bit_simps)
  then show ?thesis
    using assms by (simp add: LinPageNum_pde_index_def LinPageNum_from_indices_def unat_of_nat)
qed

lemma from_indices_eq_iff:
  assumes "i < 1024" "j < 1024" "i' < 1024" "j' < 1024"
  shows "LinPageNum_from_indices i j = LinPageNum_from_indices i' j' \<longleftrightarrow> i = i' \<and> j = j'"
  using assms by (metis pde_index_from_indices pte_index_from_indices)

lemma page_eq_iff:
  "p = q \<longleftrightarrow> LinPageNum_pde_index p = LinPageNum_pde_index q \<and>
    LinPageNum_pte_index p = LinPageNum_pte_index q"
  by (metis from_indices_split)

end
