(* ===== verification/Mm_Page.thy ===== *)
theory Mm_Page
  imports Mm_Address
begin

text \<open>
  \<open>kernel/src/mm/page.rs\<close>: page table and page directory entries.  \<open>PageTableEntry\<close> and
  \<open>PageDirectoryEntry\<close> are newtypes over \<open>u32\<close>; the trait \<open>PageEntry\<close> gives both the same
  accessors, so one definition per trait method serves both.  \<open>PageFlags\<close> is the bit set the
  \<^verbatim>\<open>bitflags!\<close> block declares: \<open>from_bits_truncate\<close> keeps exactly the declared bits, \<open>union\<close> and
  \<open>contains\<close> are bitwise.
\<close>

section \<open>Model\<close>

type_synonym PageTableEntry = u32
type_synonym PageDirectoryEntry = u32
type_synonym PageFlags = u32

definition ENTRIES_PER_TABLE :: nat where "ENTRIES_PER_TABLE = 1024"

definition PRESENT :: PageFlags where "PRESENT = 1"
definition WRITABLE :: PageFlags where "WRITABLE = 2"
definition USER :: PageFlags where "USER = 4"
definition DIRTY :: PageFlags where "DIRTY = 0x40"
definition PageFlags_all :: PageFlags where "PageFlags_all = 0x1FF"
definition USER_RW :: PageFlags where "USER_RW = PRESENT OR WRITABLE OR USER"

definition PageEntry_new :: "PhysPageNum \<Rightarrow> PageFlags \<Rightarrow> u32" where
  "PageEntry_new ppn flags = push_bit 12 ppn OR flags"

definition is_present :: "u32 \<Rightarrow> bool" where
  "is_present raw \<longleftrightarrow> raw AND PRESENT \<noteq> 0"

definition PageEntry_ppn :: "u32 \<Rightarrow> PhysPageNum" where
  "PageEntry_ppn raw = drop_bit 12 raw"

definition PageEntry_phys_addr :: "u32 \<Rightarrow> PhysAddr" where
  "PageEntry_phys_addr raw = raw AND 0xFFFFF000"

definition PageEntry_flags :: "u32 \<Rightarrow> PageFlags" where
  "PageEntry_flags raw = raw AND PageFlags_all"

definition flags_contains :: "PageFlags \<Rightarrow> PageFlags \<Rightarrow> bool" where
  "flags_contains flags f \<longleftrightarrow> flags AND f = f"

definition without_writable :: "u32 \<Rightarrow> u32" where
  "without_writable raw = raw AND NOT WRITABLE"

definition PageDirectoryEntry_user_page_table :: "PhysAddr \<Rightarrow> PageDirectoryEntry" where
  "PageDirectoryEntry_user_page_table addr = addr OR USER_RW"

definition PageDirectoryEntry_empty :: PageDirectoryEntry where
  "PageDirectoryEntry_empty = 0"

text \<open>A present entry that user code may write through.\<close>

definition is_writable :: "u32 \<Rightarrow> bool" where
  "is_writable raw \<longleftrightarrow> flags_contains (PageEntry_flags raw) WRITABLE"

section \<open>Facts: entries as bits\<close>

lemma is_present_bit: "is_present raw \<longleftrightarrow> bit raw 0"
  by (simp add: is_present_def PRESENT_def and_one_eq mod_2_eq_odd bit_0)

lemma flag_bits: "WRITABLE = 2 ^ 1" "DIRTY = 2 ^ 6" "PageFlags_all = mask 9"
  by (simp_all add: WRITABLE_def DIRTY_def PageFlags_all_def mask_eq_decr_exp)

lemma USER_RW_mask: "USER_RW = mask 3"
  by (simp add: USER_RW_def PRESENT_def WRITABLE_def USER_def mask_eq_decr_exp)

lemma is_writable_bit: "is_writable raw \<longleftrightarrow> bit raw 1"
proof -
  have "is_writable raw \<longleftrightarrow> bit (raw AND PageFlags_all) 1"
    unfolding is_writable_def flags_contains_def PageEntry_flags_def flag_bits(1)
    by (rule and_exp_eq_exp_iff) simp
  then show ?thesis by (simp add: flag_bits bit_simps)
qed

lemma present_new [simp]: "is_present (PageEntry_new ppn fl) \<longleftrightarrow> bit fl 0"
  by (simp add: is_present_bit PageEntry_new_def bit_simps)

lemma writable_new [simp]: "is_writable (PageEntry_new ppn fl) \<longleftrightarrow> bit fl 1"
  by (simp add: is_writable_bit PageEntry_new_def bit_simps)

lemma USER_RW_bits [simp]: "bit USER_RW 0" "bit USER_RW (Suc 0)"
  by (simp_all add: USER_RW_mask bit_simps)

lemma bit_without_writable: "bit (without_writable raw) n \<longleftrightarrow> bit raw n \<and> n \<noteq> 1"
  unfolding without_writable_def flag_bits
  by (auto simp only: bit_and_iff bit_not_iff bit_exp_iff dest: bit_imp_possible_bit)

lemma present_without_writable [simp]: "is_present (without_writable raw) = is_present raw"
  by (simp add: is_present_bit bit_without_writable)

lemma writable_without_writable [simp]: "\<not> is_writable (without_writable raw)"
  by (simp add: is_writable_bit bit_without_writable)

lemma ppn_without_writable [simp]: "PageEntry_ppn (without_writable raw) = PageEntry_ppn raw"
  unfolding PageEntry_ppn_def
  by (rule bit_eqI) (simp add: bit_drop_bit_eq bit_without_writable)

lemma ppn_new:
  assumes "unat ppn < 2 ^ 20" "unat fl < 2 ^ 12"
  shows "PageEntry_ppn (PageEntry_new ppn fl) = ppn"
proof -
  have p: "take_bit 20 ppn = ppn" and f: "take_bit 12 fl = fl"
    using assms by (auto intro: take_bit_word_id)
  have "PageEntry_ppn (PageEntry_new (take_bit 20 ppn) (take_bit 12 fl)) = take_bit 20 ppn"
    unfolding PageEntry_ppn_def PageEntry_new_def by (rule bit_eqI) (auto simp: bit_simps)
  then show ?thesis by (simp only: p f)
qed

lemma word_0xFFFFF000: "(0xFFFFF000 :: u32) = push_bit 12 (mask 20)"
  by (simp add: mask_eq_decr_exp push_bit_eq_mult)

lemma phys_addr_eq: "PageEntry_phys_addr raw = PhysPageNum_addr (PageEntry_ppn raw)"
  unfolding PageEntry_phys_addr_def PhysPageNum_addr_def PageEntry_ppn_def word_0xFFFFF000
    PAGE_SHIFT_def
  by (rule bit_eqI) (auto simp: bit_simps)

lemma ppn_bound: "unat (PageEntry_ppn raw) < 2 ^ 20"
  proof -
  have "unat (drop_bit 12 raw) = drop_bit 12 (unat raw)" by (rule unat_drop_bit_eq)
  then show ?thesis
    using less_mult_imp_div_less [of "unat raw" 1048576 4096] unat_u32 [of raw]
    by (simp add: PageEntry_ppn_def drop_bit_eq_div)
qed

lemma ppn_phys_addr [simp]: "PhysPageNum_from_PhysAddr (PageEntry_phys_addr raw) = Ok (PageEntry_ppn raw)"
  by (simp only: phys_addr_eq floor_addr ppn_bound)

lemma user_page_table_entry:
  "PageDirectoryEntry_user_page_table (PhysPageNum_addr p) = PageEntry_new p USER_RW"
  by (simp add: PageDirectoryEntry_user_page_table_def PhysPageNum_addr_def PageEntry_new_def
      PAGE_SHIFT_def)

lemma not_present_empty [simp]: "\<not> is_present PageDirectoryEntry_empty" "\<not> is_present 0"
  by (simp_all add: is_present_bit PageDirectoryEntry_empty_def)

end
