(* ===== verification/Mm_Frame.thy ===== *)
theory Mm_Frame
  imports Mm_Page
begin

text \<open>
  \<open>kernel/src/mm/frame.rs\<close>: the reference-counted physical frame allocator.

  The state \<open>mm\<close> is what the memory subsystem mutates: the allocator's table \<open>mem_map\<close>, the
  physical memory, and whether a translation entry was written since the last TLB flush.
  Physical memory is a map from frame number and slot to the 32-bit word stored there (1024
  little-endian words per 4 KB frame), so the page directory, which lives at physical address 0,
  is frame 0, and a page table is the frame its directory entry points to.

  A \<open>PhysFrame\<close> handle is the page number it owns; its \<open>Drop\<close> is the explicit operation
  \<open>PhysFrame_drop\<close>, called where Rust drops the handle.
\<close>

section \<open>Model\<close>

definition PAGE_SIZE :: nat where "PAGE_SIZE = 4096"
definition LOW_MEM :: u32 where "LOW_MEM = 0x200000"
definition PAGING_PAGES :: nat where "PAGING_PAGES = 3584"
definition HIGH_MEMORY :: u32 where "HIGH_MEMORY = LOW_MEM + 0xE00000"
definition UNPAGED_PAGES :: u32 where "UNPAGED_PAGES = 512"

record mm =
  mem_map :: "u8 list"
  pmem :: "PhysPageNum \<Rightarrow> nat \<Rightarrow> u32"
  tlb_stale :: bool

definition page_addr_from_index :: "nat \<Rightarrow> PhysAddr" where
  "page_addr_from_index frame_index =
     LOW_MEM + push_bit PAGE_SHIFT (word_of_nat frame_index)"

definition index_for_ppn :: "PhysPageNum \<Rightarrow> nat" where
  "index_for_ppn ppn = unat (ppn - UNPAGED_PAGES)"

text \<open>\<open>ptr::write_bytes(addr, 0, PAGE_SIZE)\<close> on a page-aligned address.\<close>

definition zero_frame :: "PhysAddr \<Rightarrow> mm \<Rightarrow> mm" where
  "zero_frame addr s = s\<lparr>pmem := (pmem s)(PhysAddr_floor addr := (\<lambda>_. 0))\<rparr>"

definition FrameAllocator_init :: "u32 \<Rightarrow> u32 \<Rightarrow> (mm, unit) op" where
  "FrameAllocator_init start_mem end_mem s =
     (if start_mem < LOW_MEM then (Panic, s)
      else if end_mem < start_mem then (Panic, s)
      else if HIGH_MEMORY < end_mem then (Panic, s)
      else
        let start_no = unat (PhysAddr_floor start_mem - UNPAGED_PAGES);
            end_no = unat (PhysAddr_floor end_mem - UNPAGED_PAGES)
        in (Ok (), s\<lparr>mem_map := map (\<lambda>i. if start_no \<le> i \<and> i < end_no then 0 else 100)
                              [0..<length (mem_map s)]\<rparr>))"

definition FrameAllocator_alloc :: "(mm, PhysPageNum option) op" where
  "FrameAllocator_alloc s =
     (case rposition (\<lambda>count. count = 0) (mem_map s) of
        None \<Rightarrow> (Ok None, s)
      | Some frame_index \<Rightarrow>
          let page_addr = page_addr_from_index frame_index;
              s1 = zero_frame page_addr s;
              s2 = s1\<lparr>mem_map := (mem_map s1)[frame_index := 1]\<rparr>
          in case PhysPageNum_from_PhysAddr page_addr of
               Ok ppn \<Rightarrow> (Ok (Some ppn), s2)
             | Err e \<Rightarrow> (Err e, s2)
             | Panic \<Rightarrow> (Panic, s2))"

text \<open>\<open>slice::windows(n)\<close> and the runs of free frames \<open>alloc_contiguous\<close> looks for.\<close>

definition windows :: "nat \<Rightarrow> 'a list \<Rightarrow> 'a list list" where
  "windows n xs = map (\<lambda>i. take n (drop i xs)) [0..<length xs + 1 - n]"

fun claim_frames :: "nat list \<Rightarrow> mm \<Rightarrow> mm" where
  "claim_frames [] s = s"
| "claim_frames (frame_index # rest) s =
     (let s1 = zero_frame (page_addr_from_index frame_index) s
      in claim_frames rest (s1\<lparr>mem_map := (mem_map s1)[frame_index := 1]\<rparr>))"

definition FrameAllocator_alloc_contiguous :: "nat \<Rightarrow> (mm, (PhysPageNum \<times> nat) option) op" where
  "FrameAllocator_alloc_contiguous page_count s =
     (if page_count = 0 then (Ok None, s)
      else
        case rposition (list_all (\<lambda>count. count = 0)) (windows page_count (mem_map s)) of
          None \<Rightarrow> (Ok None, s)
        | Some start_index \<Rightarrow>
            let s1 = claim_frames [start_index..<start_index + page_count] s
            in case PhysPageNum_from_PhysAddr (page_addr_from_index start_index) of
                 Ok start_ppn \<Rightarrow> (Ok (Some (start_ppn, page_count)), s1)
               | Err e \<Rightarrow> (Err e, s1)
               | Panic \<Rightarrow> (Panic, s1))"

text \<open>Every access to \<open>mem_map\<close> by page number is bounds checked.\<close>

definition FrameAllocator_dealloc :: "PhysPageNum \<Rightarrow> (mm, unit) op" where
  "FrameAllocator_dealloc ppn s =
     (if ppn < UNPAGED_PAGES then (Ok (), s)
      else
        let frame_index = index_for_ppn ppn
        in if length (mem_map s) \<le> frame_index then (Panic, s)
           else if mem_map s ! frame_index = 0 then (Panic, s)
           else (Ok (), s\<lparr>mem_map := (mem_map s)[frame_index := mem_map s ! frame_index - 1]\<rparr>))"

definition FrameAllocator_dealloc_range :: "PhysPageNum \<Rightarrow> nat \<Rightarrow> (mm, unit) op" where
  "FrameAllocator_dealloc_range start_ppn page_count =
     for_op FrameAllocator_dealloc
       (map word_of_nat [unat start_ppn..<unat (start_ppn + word_of_nat page_count)])"

definition FrameAllocator_share :: "PhysPageNum \<Rightarrow> (mm, PhysPageNum) op" where
  "FrameAllocator_share ppn s =
     (let frame_index = index_for_ppn ppn
      in if length (mem_map s) \<le> frame_index then (Panic, s)
         else if mem_map s ! frame_index = 0 then (Panic, s)
         else (Ok ppn, s\<lparr>mem_map := (mem_map s)[frame_index := mem_map s ! frame_index + 1]\<rparr>))"

definition FrameAllocator_ref_count :: "PhysPageNum \<Rightarrow> (mm, u8) op" where
  "FrameAllocator_ref_count ppn s =
     (if ppn < UNPAGED_PAGES then (Ok (-1), s)
      else if length (mem_map s) \<le> index_for_ppn ppn then (Panic, s)
      else (Ok (mem_map s ! index_for_ppn ppn), s))"

definition PhysFrame_drop :: "PhysPageNum \<Rightarrow> (mm, unit) op" where
  "PhysFrame_drop ppn = FrameAllocator_dealloc ppn"

definition PhysFrameRange_drop :: "PhysPageNum \<times> nat \<Rightarrow> (mm, unit) op" where
  "PhysFrameRange_drop r = FrameAllocator_dealloc_range (fst r) (snd r)"

section \<open>The interface of a reference-counted pool\<close>

text \<open>
  What the owners of frames rely on: \<open>alloc\<close> hands out a frame nobody holds, \<open>share\<close> and \<open>release\<close>
  move its count by one, and nothing else changes.  The lemmas proved from these laws keep the
  pool \<^emph>\<open>accounted\<close>: every count is the number of outstanding handles (\<open>H\<close>) plus the handles held
  by the rest of the kernel (\<open>E\<close>).
\<close>

locale frame_pool =
  fixes invar :: "'s \<Rightarrow> bool"
    and tracked :: "'f \<Rightarrow> bool"
    and rc :: "'s \<Rightarrow> 'f \<Rightarrow> nat"
    and alloc :: "('s, 'f option) op"
    and share :: "'f \<Rightarrow> ('s, 'f) op"
    and release :: "'f \<Rightarrow> ('s, unit) op"
    and cap :: nat
  assumes alloc_total: "invar s \<Longrightarrow> \<exists>r s'. alloc s = (Ok r, s')"
    and alloc_none: "invar s \<Longrightarrow> alloc s = (Ok None, s') \<Longrightarrow> s' = s \<and> (\<forall>f. tracked f \<longrightarrow> 0 < rc s f)"
    and alloc_some: "invar s \<Longrightarrow> alloc s = (Ok (Some f), s') \<Longrightarrow>
      invar s' \<and> tracked f \<and> rc s f = 0 \<and> rc s' = (rc s)(f := 1)"
    and share_ok: "invar s \<Longrightarrow> tracked f \<Longrightarrow> 0 < rc s f \<Longrightarrow> rc s f < cap \<Longrightarrow>
      \<exists>s'. share f s = (Ok f, s') \<and> invar s' \<and> rc s' = (rc s)(f := rc s f + 1)"
    and release_ok: "invar s \<Longrightarrow> tracked f \<Longrightarrow> 0 < rc s f \<Longrightarrow>
      \<exists>s'. release f s = (Ok (), s') \<and> invar s' \<and> rc s' = (rc s)(f := rc s f - 1)"
begin

definition accounted :: "'s \<Rightarrow> 'f multiset \<Rightarrow> ('f \<Rightarrow> nat) \<Rightarrow> bool" where
  "accounted s H E \<longleftrightarrow> invar s \<and> (\<forall>f. f \<in># H \<longrightarrow> tracked f) \<and>
     (\<forall>f. tracked f \<longrightarrow> rc s f = count H f + E f)"

lemma accounted_alloc:
  "accounted s H E \<Longrightarrow> alloc s = (Ok (Some f), s') \<Longrightarrow>
     accounted s' (add_mset f H) E \<and> tracked f \<and> f \<notin># H \<and> E f = 0"
  using alloc_some [of s f s'] by (auto simp: accounted_def not_in_iff)

lemma accounted_share:
  assumes "accounted s H E" "f \<in># H" "rc s f < cap"
  shows "\<exists>s'. share f s = (Ok f, s') \<and> accounted s' (add_mset f H) E"
proof -
  from assms have "tracked f" "0 < rc s f" "invar s" by (auto simp: accounted_def)
  with share_ok [of s f] assms obtain s' where
    "share f s = (Ok f, s')" "invar s'" "rc s' = (rc s)(f := rc s f + 1)" by blast
  with assms show ?thesis by (auto simp: accounted_def)
qed

lemma accounted_release:
  assumes "accounted s (add_mset f H) E"
  shows "\<exists>s'. release f s = (Ok (), s') \<and> accounted s' H E"
proof -
  from assms have "tracked f" "0 < rc s f" "invar s" by (auto simp: accounted_def)
  with release_ok [of s f] obtain s' where
    "release f s = (Ok (), s')" "invar s'" "rc s' = (rc s)(f := rc s f - 1)" by blast
  with assms show ?thesis by (auto simp: accounted_def)
qed

lemma accounted_release_all:
  "accounted s (mset fs + H) E \<Longrightarrow> \<exists>s'. for_op release fs s = (Ok (), s') \<and> accounted s' H E"
proof (induction fs arbitrary: s)
  case Nil
  then show ?case by simp
next
  case (Cons f fs)
  then obtain s1 where "release f s = (Ok (), s1)" "accounted s1 (mset fs + H) E"
    using accounted_release [of s f "mset fs + H" E] by auto
  with Cons.IH [of s1] show ?case by auto
qed

text \<open>Allocating and then dropping every handle leaves each count as it was.\<close>

lemma alloc_release:
  assumes "accounted s H E" "alloc s = (Ok (Some f), s1)"
  shows "\<exists>s2. release f s1 = (Ok (), s2) \<and> accounted s2 H E"
  using accounted_alloc [OF assms] accounted_release by blast

end

section \<open>The allocator implements the interface\<close>

definition frame_ok :: "mm \<Rightarrow> bool" where
  "frame_ok s \<longleftrightarrow> length (mem_map s) = PAGING_PAGES"

definition tracked_frame :: "PhysPageNum \<Rightarrow> bool" where
  "tracked_frame p \<longleftrightarrow> 512 \<le> unat p \<and> unat p < 512 + PAGING_PAGES"

definition frame_rc :: "mm \<Rightarrow> PhysPageNum \<Rightarrow> nat" where
  "frame_rc s p = (if tracked_frame p then unat (mem_map s ! (unat p - 512)) else 0)"

definition frame_of_index :: "nat \<Rightarrow> PhysPageNum" where
  "frame_of_index i = word_of_nat (512 + i)"

lemma unat_frame_of_index [simp]: "i < PAGING_PAGES \<Longrightarrow> unat (frame_of_index i) = 512 + i"
  by (simp only: frame_of_index_def PAGING_PAGES_def) (rule unat_word_of_nat, simp)

lemma tracked_frame_of_index [simp]: "i < PAGING_PAGES \<Longrightarrow> tracked_frame (frame_of_index i)"
  by (simp add: tracked_frame_def)

lemma frame_of_index_inverse: "tracked_frame p \<Longrightarrow> frame_of_index (unat p - 512) = p"
  by (simp add: tracked_frame_def frame_of_index_def)

lemma index_for_ppn_tracked [simp]: "tracked_frame p \<Longrightarrow> index_for_ppn p = unat p - 512"
  by (simp add: index_for_ppn_def UNPAGED_PAGES_def tracked_frame_def unat_sub word_le_nat_alt)

lemma index_for_frame_of_index [simp]:
  "i < PAGING_PAGES \<Longrightarrow> index_for_ppn (frame_of_index i) = i"
  by simp

lemma UNPAGED_le_tracked [simp]: "tracked_frame p \<Longrightarrow> \<not> p < UNPAGED_PAGES"
  by (simp add: tracked_frame_def UNPAGED_PAGES_def word_less_nat_alt)

lemma frame_addr_of_index:
  assumes "i < PAGING_PAGES"
  shows "page_addr_from_index i = PhysPageNum_addr (frame_of_index i)"
proof -
  have "PhysPageNum_addr (frame_of_index i) = push_bit 12 (word_of_nat (512 + i))"
    by (simp add: PhysPageNum_addr_def PAGE_SHIFT_def frame_of_index_def)
  also have "\<dots> = LOW_MEM + push_bit 12 (word_of_nat i)"
    by (simp add: push_bit_eq_mult LOW_MEM_def algebra_simps)
  finally show ?thesis by (simp add: page_addr_from_index_def PAGE_SHIFT_def)
qed

lemma ppn_of_index [simp]:
  "i < PAGING_PAGES \<Longrightarrow> PhysPageNum_from_PhysAddr (page_addr_from_index i) = Ok (frame_of_index i)"
  by (simp add: frame_addr_of_index floor_addr PAGING_PAGES_def)

lemma floor_of_index [simp]:
  "i < PAGING_PAGES \<Longrightarrow> PhysAddr_floor (page_addr_from_index i) = frame_of_index i"
  using ppn_of_index [of i] by (simp add: PhysPageNum_from_PhysAddr_def split: if_splits)

lemma frame_rc_update:
  assumes "frame_ok s" "tracked_frame p" "mem_map s' = (mem_map s)[unat p - 512 := v]"
  shows "frame_rc s' = (frame_rc s)(p := unat v)"
proof
  fix q
  show "frame_rc s' q = ((frame_rc s)(p := unat v)) q"
  proof (cases "q = p")
    case True
    moreover have "unat p - 512 < length (mem_map s)"
      using assms by (auto simp: tracked_frame_def frame_ok_def)
    ultimately show ?thesis
      using assms by (simp add: frame_rc_def)
  next
    case False
    then have "tracked_frame q \<Longrightarrow> unat q - 512 \<noteq> unat p - 512"
      using assms(2) by (metis frame_of_index_inverse)
    with False show ?thesis
      using assms by (auto simp: frame_rc_def)
  qed
qed


lemma alloc_result:
  assumes "frame_ok s"
  shows "FrameAllocator_alloc s =
    (case rposition (\<lambda>count. count = 0) (mem_map s) of
       None \<Rightarrow> (Ok None, s)
     | Some i \<Rightarrow> (Ok (Some (frame_of_index i)),
         s\<lparr>pmem := (pmem s)(frame_of_index i := (\<lambda>_. 0)), mem_map := (mem_map s)[i := 1]\<rparr>))"
proof (cases "rposition (\<lambda>count. count = 0) (mem_map s)")
  case None
  then show ?thesis by (simp add: FrameAllocator_alloc_def)
next
  case (Some i)
  then have "i < PAGING_PAGES"
    using assms by (simp add: rposition_Some_iff frame_ok_def)
  with Some show ?thesis by (simp add: FrameAllocator_alloc_def zero_frame_def Let_def)
qed

lemma alloc_SomeE:
  assumes "frame_ok s" "FrameAllocator_alloc s = (Ok (Some p), s')"
  obtains i where "i < PAGING_PAGES" "p = frame_of_index i" "mem_map s ! i = 0"
    "\<And>j. i < j \<Longrightarrow> j < PAGING_PAGES \<Longrightarrow> mem_map s ! j \<noteq> 0"
    "s' = s\<lparr>pmem := (pmem s)(p := (\<lambda>_. 0)), mem_map := (mem_map s)[i := 1]\<rparr>"
  using assms by (auto simp: alloc_result rposition_Some_iff frame_ok_def split: option.splits)

interpretation frames: frame_pool frame_ok tracked_frame frame_rc FrameAllocator_alloc
    FrameAllocator_share PhysFrame_drop 255
proof (unfold_locales, goal_cases)
  case (1 s)
  then show ?case by (auto simp: alloc_result split: option.splits)
next
  case (2 s s')
  then have "s' = s" "\<forall>c\<in>set (mem_map s). c \<noteq> 0"
    by (auto simp: alloc_result rposition_None_iff split: option.splits)
  moreover have "\<And>f. tracked_frame f \<Longrightarrow> unat f - 512 < length (mem_map s)"
    using 2(1) by (auto simp: tracked_frame_def frame_ok_def)
  ultimately show ?case by (auto simp: frame_rc_def unat_gt_0)
next
  case (3 s f s')
  then obtain i where i: "i < PAGING_PAGES" "f = frame_of_index i" "mem_map s ! i = 0"
    "s' = s\<lparr>pmem := (pmem s)(f := (\<lambda>_. 0)), mem_map := (mem_map s)[i := 1]\<rparr>"
    by (elim alloc_SomeE) blast
  then have "frame_rc s' = (frame_rc s)(f := unat (1 :: u8))"
    by (intro frame_rc_update) (use 3 in \<open>auto\<close>)
  with i 3(1) show ?case by (auto simp: frame_ok_def frame_rc_def)
next
  case (4 s f)
  let ?i = "unat f - 512"
  let ?s' = "s\<lparr>mem_map := (mem_map s)[?i := mem_map s ! ?i + 1]\<rparr>"
  have i: "?i < length (mem_map s)" using 4 by (auto simp: frame_ok_def tracked_frame_def)
  have nz: "mem_map s ! ?i \<noteq> 0" using 4 by (auto simp: frame_rc_def)
  have "unat (mem_map s ! ?i) < 255" using 4 by (auto simp: frame_rc_def)
  then have "unat (mem_map s ! ?i + 1) = unat (mem_map s ! ?i) + 1"
    by (simp add: unat_word_ariths)
  moreover have "FrameAllocator_share f s = (Ok f, ?s')"
    using 4 i nz by (simp add: FrameAllocator_share_def Let_def)
  moreover have "frame_rc ?s' = (frame_rc s)(f := unat (mem_map s ! ?i + 1))"
    by (rule frame_rc_update) (use 4 in auto)
  ultimately show ?case using 4 by (auto simp: frame_ok_def frame_rc_def)
next
  case (5 s f)
  let ?i = "unat f - 512"
  let ?s' = "s\<lparr>mem_map := (mem_map s)[?i := mem_map s ! ?i - 1]\<rparr>"
  have i: "?i < length (mem_map s)" using 5 by (auto simp: frame_ok_def tracked_frame_def)
  have nz: "mem_map s ! ?i \<noteq> 0" using 5 by (auto simp: frame_rc_def)
  then have "unat (mem_map s ! ?i - 1) = unat (mem_map s ! ?i) - 1"
    by (simp add: unat_minus_one)
  moreover have "PhysFrame_drop f s = (Ok (), ?s')"
    using 5 i nz by (simp add: PhysFrame_drop_def FrameAllocator_dealloc_def Let_def)
  moreover have "frame_rc ?s' = (frame_rc s)(f := unat (mem_map s ! ?i - 1))"
    by (rule frame_rc_update) (use 5 in auto)
  ultimately show ?case using 5 by (auto simp: frame_ok_def frame_rc_def)
qed

section \<open>What the operations leave alone\<close>

lemma drop_pmem: "PhysFrame_drop p s = (r, s') \<Longrightarrow> pmem s' = pmem s \<and> tlb_stale s' = tlb_stale s"
  by (auto simp: PhysFrame_drop_def FrameAllocator_dealloc_def Let_def split: if_splits)

lemma share_pmem:
  "FrameAllocator_share p s = (r, s') \<Longrightarrow> pmem s' = pmem s \<and> tlb_stale s' = tlb_stale s"
  by (auto simp: FrameAllocator_share_def Let_def split: if_splits)

lemma alloc_pmem:
  assumes "frame_ok s" "FrameAllocator_alloc s = (Ok (Some p), s')"
  shows "pmem s' = (pmem s)(p := (\<lambda>_. 0)) \<and> tlb_stale s' = tlb_stale s"
proof -
  from assms obtain i where
    "s' = s\<lparr>pmem := (pmem s)(p := (\<lambda>_. 0)), mem_map := (mem_map s)[i := 1]\<rparr>"
    by (elim alloc_SomeE) blast
  then show ?thesis by simp
qed

lemma drop_all_pmem:
  "for_op PhysFrame_drop ps s = (r, s') \<Longrightarrow> pmem s' = pmem s \<and> tlb_stale s' = tlb_stale s"
proof (induction ps arbitrary: s)
  case Nil
  then show ?case by simp
next
  case (Cons p ps)
  show ?case
  proof (cases "PhysFrame_drop p s")
    case (Pair o1 s1)
    with Cons drop_pmem [OF Pair] show ?thesis by (cases o1) auto
  qed
qed

lemma drop_untracked_low: "p < UNPAGED_PAGES \<Longrightarrow> PhysFrame_drop p s = (Ok (), s)"
  by (simp add: PhysFrame_drop_def FrameAllocator_dealloc_def)

lemma ref_count_tracked:
  assumes "frame_ok s" "tracked_frame p"
  shows "FrameAllocator_ref_count p s = (Ok (mem_map s ! (unat p - 512)), s)"
    "frame_rc s p = unat (mem_map s ! (unat p - 512))"
  using assms
  by (auto simp: FrameAllocator_ref_count_def frame_rc_def frame_ok_def tracked_frame_def)

section \<open>Contiguous runs\<close>

definition free_run :: "mm \<Rightarrow> nat \<Rightarrow> nat \<Rightarrow> bool" where
  "free_run s i n \<longleftrightarrow> i + n \<le> length (mem_map s) \<and> (\<forall>k. i \<le> k \<longrightarrow> k < i + n \<longrightarrow> mem_map s ! k = 0)"

lemma free_window:
  assumes "0 < n" "i < length (windows n (mem_map s))"
  shows "list_all (\<lambda>c. c = 0) (windows n (mem_map s) ! i) \<longleftrightarrow> free_run s i n"
proof -
  have le: "i + n \<le> length (mem_map s)" using assms by (simp add: windows_def)
  then have "windows n (mem_map s) ! i = take n (drop i (mem_map s))" using assms by (simp add: windows_def)
  also have "list_all (\<lambda>c. c = 0) \<dots> \<longleftrightarrow> (\<forall>k<n. mem_map s ! (i + k) = 0)"
    using le by (simp add: list_all_length)
  also have "\<dots> \<longleftrightarrow> free_run s i n"
    using le by (auto simp: free_run_def) (metis add_less_cancel_left le_Suc_ex)
  finally show ?thesis .
qed

lemma claim_frames_fields:
  "\<forall>i\<in>set is. i < PAGING_PAGES \<Longrightarrow>
   length (mem_map (claim_frames is s)) = length (mem_map s) \<and>
   (\<forall>k<length (mem_map s). mem_map (claim_frames is s) ! k = (if k \<in> set is then 1 else mem_map s ! k)) \<and>
   pmem (claim_frames is s) = (\<lambda>f. if f \<in> frame_of_index ` set is then (\<lambda>_. 0) else pmem s f) \<and>
   tlb_stale (claim_frames is s) = tlb_stale s"
proof (induction "is" arbitrary: s)
  case Nil
  then show ?case by simp
next
  case (Cons i "is")
  let ?s1 = "zero_frame (page_addr_from_index i) s"
  note IH = Cons.IH [of "?s1\<lparr>mem_map := (mem_map ?s1)[i := 1]\<rparr>"]
  from Cons.prems IH show ?case
    by (auto simp: zero_frame_def Let_def nth_list_update fun_eq_iff)
qed

lemma alloc_contiguous_result:
  assumes ok: "frame_ok s" and run: "FrameAllocator_alloc_contiguous n s = (r, s')"
  shows "r = Ok None \<and> s' = s \<and> (n = 0 \<or> (\<forall>i. \<not> free_run s i n)) \<or>
    (\<exists>i. r = Ok (Some (frame_of_index i, n)) \<and> 0 < n \<and> free_run s i n \<and> (\<forall>j>i. \<not> free_run s j n) \<and>
      s' = claim_frames [i..<i + n] s)"
proof (cases "n = 0")
  case True
  then show ?thesis using run by (simp add: FrameAllocator_alloc_contiguous_def)
next
  case False
  let ?w = "windows n (mem_map s)"
  have win: "i < length ?w" if "free_run s i n" for i
    using that by (auto simp: free_run_def windows_def)
  show ?thesis
  proof (cases "rposition (list_all (\<lambda>count. count = 0)) ?w")
    case None
    then have "\<not> free_run s i n" for i
      using free_window [of n i s] win [of i] False by (auto simp: rposition_None_iff)
    with None False run show ?thesis by (simp add: FrameAllocator_alloc_contiguous_def)
  next
    case (Some i)
    then have i: "i < length ?w" "free_run s i n" "\<forall>j. i < j \<longrightarrow> j < length ?w \<longrightarrow> \<not> free_run s j n"
      using False free_window [of n _ s] by (auto simp: rposition_Some_iff)
    moreover have "\<forall>j>i. \<not> free_run s j n" using i(3) win by blast
    moreover have "i < PAGING_PAGES" using i(2) False ok by (auto simp: free_run_def frame_ok_def)
    moreover have "Ok (Some (frame_of_index i, n)) = r" "claim_frames [i..<i + n] s = s'"
      using Some False run calculation by (auto simp: FrameAllocator_alloc_contiguous_def Let_def)
    ultimately show ?thesis using False by blast
  qed
qed

text \<open>Dropping a run gives back exactly its frames.\<close>

lemma dealloc_run:
  assumes "frame_ok s" "i + n \<le> PAGING_PAGES" "\<forall>k. i \<le> k \<longrightarrow> k < i + n \<longrightarrow> mem_map s ! k = 1"
  shows "\<exists>s'. for_op FrameAllocator_dealloc (map frame_of_index [i..<i + n]) s = (Ok (), s') \<and>
    mem_map s' = map (\<lambda>k. if i \<le> k \<and> k < i + n then 0 else mem_map s ! k) [0..<length (mem_map s)] \<and>
    pmem s' = pmem s"
  using assms
proof (induction n arbitrary: i s)
  case 0
  have "mem_map s = map (\<lambda>k. if i \<le> k \<and> k < i + 0 then 0 else mem_map s ! k) [0..<length (mem_map s)]"
    by (rule nth_equalityI) auto
  then show ?case by auto
next
  case (Suc n)
  let ?s1 = "s\<lparr>mem_map := (mem_map s)[i := 0]\<rparr>"
  have i: "i < PAGING_PAGES" "mem_map s ! i = 1" "length (mem_map s) = PAGING_PAGES"
    using Suc.prems by (auto simp: frame_ok_def)
  have step: "FrameAllocator_dealloc (frame_of_index i) s = (Ok (), ?s1)"
    using i by (simp add: FrameAllocator_dealloc_def Let_def)
  have "\<exists>s'. for_op FrameAllocator_dealloc (map frame_of_index [Suc i..<Suc i + n]) ?s1 = (Ok (), s') \<and>
      mem_map s' = map (\<lambda>k. if Suc i \<le> k \<and> k < Suc i + n then 0 else mem_map ?s1 ! k) [0..<length (mem_map ?s1)] \<and>
      pmem s' = pmem ?s1"
    by (rule Suc.IH) (use Suc.prems in \<open>auto simp: frame_ok_def\<close>)
  then obtain s' where s': "for_op FrameAllocator_dealloc (map frame_of_index [Suc i..<Suc i + n]) ?s1 = (Ok (), s')"
    "mem_map s' = map (\<lambda>k. if Suc i \<le> k \<and> k < Suc i + n then 0 else mem_map ?s1 ! k) [0..<length (mem_map s)]"
    "pmem s' = pmem s" by auto
  have "[i..<i + Suc n] = i # [Suc i..<Suc i + n]" by (simp add: upt_rec)
  then have run: "for_op FrameAllocator_dealloc (map frame_of_index [i..<i + Suc n]) s = (Ok (), s')"
    using step s'(1) by simp
  have "mem_map s' = map (\<lambda>k. if i \<le> k \<and> k < i + Suc n then 0 else mem_map s ! k) [0..<length (mem_map s)]"
    unfolding s'(2) using i by (intro map_cong) (auto simp: nth_list_update)
  with run s'(3) show ?case by blast
qed

lemma dealloc_range_run:
  assumes "i + n \<le> PAGING_PAGES" "0 < n"
  shows "FrameAllocator_dealloc_range (frame_of_index i) n =
    for_op FrameAllocator_dealloc (map frame_of_index [i..<i + n])"
proof -
  have "unat (frame_of_index i + word_of_nat n) = 512 + i + n"
  proof -
    have "frame_of_index i + word_of_nat n = word_of_nat (512 + i + n)" by (simp add: frame_of_index_def)
    also have "unat \<dots> = 512 + i + n" by (rule unat_word_of_nat) (use assms in \<open>simp add: PAGING_PAGES_def\<close>)
    finally show ?thesis .
  qed
  moreover have "map word_of_nat [512 + i..<512 + i + n] = map frame_of_index [i..<i + n]"
    by (rule nth_equalityI) (simp_all add: frame_of_index_def)
  ultimately show ?thesis using assms by (simp add: FrameAllocator_dealloc_range_def)
qed

end
