(* ===== verification/Mm_Space.thy ===== *)
theory Mm_Space
  imports Mm_Frame
begin

text \<open>
  \<open>kernel/src/mm/space.rs\<close>, with the page-directory accessors of \<open>kernel/src/mm/page.rs\<close>: the
  per-process address space, demand mapping, copy-on-write and its release.

  An operation of a \<open>MemorySpace\<close> mutates the space and the memory subsystem, so its state is the
  pair of both.  \<open>data_frames\<close> is the hash map from linear pages to owned frames.  Where Rust drops a
  handle (a replaced map value, a rejected argument, the fields of a dropped space) the model calls
  \<open>PhysFrame_drop\<close>.
\<close>

section \<open>Page directory and page tables\<close>

definition read_pde :: "nat \<Rightarrow> mm \<Rightarrow> PageDirectoryEntry" where
  "read_pde index s = pmem s 0 index"

definition write_pde :: "nat \<Rightarrow> PageDirectoryEntry \<Rightarrow> mm \<Rightarrow> mm" where
  "write_pde index pde s =
     s\<lparr>pmem := (pmem s)(0 := (pmem s 0)(index := pde)), tlb_stale := True\<rparr>"

definition invalidate_tlb :: "mm \<Rightarrow> mm" where
  "invalidate_tlb s = s\<lparr>tlb_stale := False\<rparr>"

text \<open>A \<open>PageTable\<close> is the frame it owns.\<close>

definition PageTable_new :: "(mm, PhysPageNum option) op" where
  "PageTable_new = FrameAllocator_alloc"

definition PageTable_phys_addr :: "PhysPageNum \<Rightarrow> PhysAddr" where
  "PageTable_phys_addr frame = PhysPageNum_addr frame"

section \<open>Memory spaces\<close>

definition PDES_PER_PROCESS :: nat where "PDES_PER_PROCESS = 16"
definition TASK0_PAGE_COUNT :: nat where "TASK0_PAGE_COUNT = 160"

record MemorySpace =
  page_tables :: "PhysPageNum option list"
  data_frames :: "(LinPageNum \<times> PhysPageNum) list"
  pde_base :: nat

type_synonym vm = "MemorySpace \<times> mm"

definition MemorySpace_new :: "nat \<Rightarrow> MemorySpace" where
  "MemorySpace_new task_index =
     \<lparr>page_tables = replicate PDES_PER_PROCESS None, data_frames = [],
      pde_base = task_index * PDES_PER_PROCESS\<rparr>"

text \<open>The raw pointer to a page table entry is the frame of its table and the slot in it.\<close>

definition find_pte :: "MemorySpace \<Rightarrow> LinPageNum \<Rightarrow> mm \<Rightarrow> (PhysPageNum \<times> nat) option" where
  "find_pte ms page s =
     (let pde_index = LinPageNum_pde_index page
      in if \<not> (pde_base ms \<le> pde_index \<and> pde_index < pde_base ms + PDES_PER_PROCESS) then None
         else
           let pde = read_pde pde_index s
           in if \<not> is_present pde then None
              else Some (PageEntry_ppn pde, LinPageNum_pte_index page))"

definition pte :: "MemorySpace \<Rightarrow> LinPageNum \<Rightarrow> mm \<Rightarrow> PageTableEntry option" where
  "pte ms page s = map_option (\<lambda>(frame, slot). pmem s frame slot) (find_pte ms page s)"

definition to_local :: "MemorySpace \<Rightarrow> LinPageNum \<Rightarrow> (nat \<times> nat) option" where
  "to_local ms page =
     (let pde_index = LinPageNum_pde_index page
      in if pde_index < pde_base ms then None
         else if PDES_PER_PROCESS \<le> pde_index - pde_base ms then None
         else Some (pde_index - pde_base ms, LinPageNum_pte_index page))"

definition store_word :: "PhysPageNum \<Rightarrow> nat \<Rightarrow> u32 \<Rightarrow> mm \<Rightarrow> mm" where
  "store_word frame slot w s =
     s\<lparr>pmem := (pmem s)(frame := (pmem s frame)(slot := w)), tlb_stale := True\<rparr>"

definition set_pte :: "LinPageNum \<Rightarrow> PageTableEntry \<Rightarrow> (vm, unit) op" where
  "set_pte page entry v =
     (case v of (ms, s) \<Rightarrow>
       case find_pte ms page s of
         None \<Rightarrow> (Panic, v)
       | Some (frame, slot) \<Rightarrow> (Ok (), (ms, store_word frame slot entry s)))"

text \<open>An operation of the memory subsystem alone, run inside an operation on a space.\<close>

definition lift_mm :: "(mm, 'a) op \<Rightarrow> (vm, 'a) op" where
  "lift_mm m v = (case v of (ms, s) \<Rightarrow> case m s of (r, s') \<Rightarrow> (r, (ms, s')))"

definition drop_opt :: "PhysPageNum option \<Rightarrow> (mm, unit) op" where
  "drop_opt f = (case f of None \<Rightarrow> (\<lambda>s. (Ok (), s)) | Some p \<Rightarrow> PhysFrame_drop p)"

definition ensure_page_table :: "nat \<Rightarrow> (vm, unit) op" where
  "ensure_page_table pde_index v =
     (case v of (ms, s) \<Rightarrow>
       if is_present (read_pde pde_index s) then (Ok (), v)
       else if pde_index < pde_base ms \<or> PDES_PER_PROCESS \<le> pde_index - pde_base ms
       then (Err Errno_NOMEM, v)
       else
         let local = pde_index - pde_base ms
         in case PageTable_new s of
              (Ok None, s1) \<Rightarrow> (Err Errno_NOMEM, (ms, s1))
            | (Ok (Some page_table), s1) \<Rightarrow>
                let s2 = write_pde pde_index
                           (PageDirectoryEntry_user_page_table (PageTable_phys_addr page_table)) s1;
                    old = page_tables ms ! local;
                    ms' = ms\<lparr>page_tables := (page_tables ms)[local := Some page_table]\<rparr>
                in lift_mm (drop_opt old) (ms', s2)
            | (Err e, s1) \<Rightarrow> (Err e, (ms, s1))
            | (Panic, s1) \<Rightarrow> (Panic, (ms, s1)))"

text \<open>\<open>data_frames.insert(page, frame)\<close>: the replaced handle, if any, is dropped.\<close>

definition insert_frame :: "LinPageNum \<Rightarrow> PhysPageNum \<Rightarrow> (vm, unit) op" where
  "insert_frame page frame v =
     (case v of (ms, s) \<Rightarrow>
       lift_mm (drop_opt (map_of (data_frames ms) page))
         (ms\<lparr>data_frames := AList.update page frame (data_frames ms)\<rparr>, s))"

definition flush_vm :: "(vm, unit) op" where
  "flush_vm v = (case v of (ms, s) \<Rightarrow> (Ok (), (ms, invalidate_tlb s)))"

text \<open>An error return that drops the frame it was given.\<close>

definition fail_dropping :: "PhysPageNum option \<Rightarrow> Errno \<Rightarrow> (vm, 'a) op" where
  "fail_dropping frame e = bind_op (lift_mm (drop_opt frame)) (\<lambda>_ v. (Err e, v))"

definition page_is_present :: "MemorySpace \<Rightarrow> LinPageNum \<Rightarrow> mm \<Rightarrow> bool" where
  "page_is_present ms page s =
     (case pte ms page s of None \<Rightarrow> False | Some entry \<Rightarrow> is_present entry)"

definition install_page :: "LinPageNum \<Rightarrow> PhysPageNum \<Rightarrow> (vm, unit) op" where
  "install_page page frame =
     bind_op (set_pte page (PageEntry_new frame USER_RW))
       (\<lambda>_. bind_op (insert_frame page frame) (\<lambda>_. flush_vm))"

definition map_page :: "LinPageNum \<Rightarrow> PhysPageNum option \<Rightarrow> (vm, unit) op" where
  "map_page page frame v =
     (case ensure_page_table (LinPageNum_pde_index page) v of
        (Err e, v1) \<Rightarrow> fail_dropping frame e v1
      | (Panic, v1) \<Rightarrow> (Panic, v1)
      | (Ok _, v1) \<Rightarrow>
          let already_present = page_is_present (fst v1) page (snd v1)
          in case frame of
               None \<Rightarrow>
                 if already_present then (Ok (), v1)
                 else bind_op (lift_mm FrameAllocator_alloc)
                        (\<lambda>f. case f of
                              None \<Rightarrow> (\<lambda>v2. (Err Errno_NOMEM, v2))
                            | Some p \<Rightarrow> install_page page p) v1
             | Some p \<Rightarrow>
                 if already_present then fail_dropping (Some p) Errno_EXIST v1
                 else install_page page p v1)"

definition copy_frame :: "PhysPageNum \<Rightarrow> PhysPageNum \<Rightarrow> mm \<Rightarrow> mm" where
  "copy_frame src dst s = s\<lparr>pmem := (pmem s)(dst := pmem s src)\<rparr>"

definition ensure_page_writable :: "LinPageNum \<Rightarrow> (vm, unit) op" where
  "ensure_page_writable page v =
     (case v of (ms, s) \<Rightarrow>
       case pte ms page s of
         None \<Rightarrow> (Panic, v)
       | Some entry \<Rightarrow>
           let old_phys_addr = PageEntry_phys_addr entry
           in case PhysPageNum_from_PhysAddr old_phys_addr of
                Ok old_ppn \<Rightarrow>
                  let replace =
                        bind_op (lift_mm FrameAllocator_alloc)
                          (\<lambda>f. case f of
                                None \<Rightarrow> (\<lambda>v1. (Err Errno_NOMEM, v1))
                              | Some new_ppn \<Rightarrow>
                                  bind_op (install_page page new_ppn)
                                    (\<lambda>_ v1. (Ok (), (fst v1, copy_frame old_ppn new_ppn (snd v1)))))
                  in if LOW_MEM \<le> old_phys_addr
                     then bind_op (lift_mm (FrameAllocator_ref_count old_ppn))
                            (\<lambda>count. if count = 1
                              then bind_op
                                     (set_pte page (PageEntry_new old_ppn
                                        (PageEntry_flags entry OR WRITABLE)))
                                     (\<lambda>_. flush_vm)
                              else replace) v
                     else replace v
              | Err e \<Rightarrow> (Err e, v)
              | Panic \<Rightarrow> (Panic, v))"

text \<open>
  \<open>try_share_local_page_from\<close>: the state is the target space, the source space and the memory
  subsystem; the source space's own fields are not changed.
\<close>

definition try_share_local_page_from ::
    "MemorySpace \<Rightarrow> nat \<times> nat \<Rightarrow> (vm, bool) op" where
  "try_share_local_page_from source_space off v =
     (case v of (ms, s) \<Rightarrow>
      case off of (local_pde_offset, pte_index) \<Rightarrow>
      let source_page = LinPageNum_from_indices (pde_base source_space + local_pde_offset) pte_index;
          target_page = LinPageNum_from_indices (pde_base ms + local_pde_offset) pte_index
      in case pte source_space source_page s of
           None \<Rightarrow> (Ok False, v)
         | Some source_pte \<Rightarrow>
             if \<not> is_present source_pte \<or> flags_contains (PageEntry_flags source_pte) DIRTY
             then (Ok False, v)
             else
               let phys_addr = PageEntry_phys_addr source_pte
               in if phys_addr < LOW_MEM then (Ok False, v)
                  else bind_op (ensure_page_table (LinPageNum_pde_index target_page))
                    (\<lambda>_ v1.
                      if page_is_present (fst v1) target_page (snd v1) then (Ok False, v1)
                      else
                        let cow_pte = without_writable source_pte
                        in case set_pte source_page cow_pte (source_space, snd v1) of
                             (Ok _, v2) \<Rightarrow>
                               bind_op (set_pte target_page cow_pte)
                                 (\<lambda>_. case PhysPageNum_from_PhysAddr phys_addr of
                                    Ok ppn \<Rightarrow>
                                      bind_op (lift_mm (FrameAllocator_share ppn))
                                        (\<lambda>frame. bind_op (insert_frame target_page frame)
                                          (\<lambda>_. bind_op flush_vm (\<lambda>_ v3. (Ok True, v3))))
                                  | Err e \<Rightarrow> (\<lambda>v3. (Err e, v3))
                                  | Panic \<Rightarrow> (\<lambda>v3. (Panic, v3)))
                                 (fst v1, snd v2)
                           | (Err e, v2) \<Rightarrow> (Err e, (fst v1, snd v2))
                           | (Panic, v2) \<Rightarrow> (Panic, (fst v1, snd v2))) v)"

text \<open>
  \<open>impl Drop for MemorySpace\<close>, followed by the drop of the fields in declaration order.
\<close>

definition table_frames :: "MemorySpace \<Rightarrow> PhysPageNum list" where
  "table_frames ms = List.map_filter (\<lambda>pt. pt) (page_tables ms)"

definition clear_pdes :: "MemorySpace \<Rightarrow> mm \<Rightarrow> mm" where
  "clear_pdes ms s =
     fold (\<lambda>i s'. if page_tables ms ! i \<noteq> None
                   then write_pde (pde_base ms + i) PageDirectoryEntry_empty s' else s')
       [0..<PDES_PER_PROCESS] s"

definition drop_fields :: "MemorySpace \<Rightarrow> (mm, unit) op" where
  "drop_fields ms = for_op PhysFrame_drop (table_frames ms @ map snd (data_frames ms))"

definition MemorySpace_drop :: "MemorySpace \<Rightarrow> (mm, unit) op" where
  "MemorySpace_drop ms s =
     (if \<not> list_ex (\<lambda>pt. pt \<noteq> None) (page_tables ms) then drop_fields ms s
      else if pde_base ms = 0 then (Panic, s)
      else drop_fields ms (invalidate_tlb (clear_pdes ms s)))"

section \<open>Copy-on-write fork\<close>

text \<open>
  The inner loop of \<open>cow_copy\<close>: the present entries of one parent table (\<open>pf\<close>) are copied write
  protected into the child's table (\<open>cf\<close>), and every page at or above \<open>LOW_MEM\<close> is also protected in
  the parent and shared.  The state is the child space under construction and the memory.
\<close>

definition cow_entry :: "PhysPageNum \<Rightarrow> PhysPageNum \<Rightarrow> nat \<Rightarrow> nat \<Rightarrow> (vm, unit) op" where
  "cow_entry pf cf child_pde j v =
     (case v of (child, s) \<Rightarrow>
       let parent_pte = pmem s pf j
       in if \<not> is_present parent_pte then (Ok (), v)
          else
            let cow_pte = without_writable parent_pte;
                s1 = store_word cf j cow_pte s;
                parent_ppn = PageEntry_ppn parent_pte
            in if LOW_MEM \<le> PhysPageNum_addr parent_ppn
               then bind_op (lift_mm (FrameAllocator_share parent_ppn))
                      (\<lambda>frame. insert_frame (LinPageNum_from_indices child_pde j) frame)
                      (child, store_word pf j cow_pte s1)
               else (Ok (), (child, s1)))"

definition cow_block :: "nat \<Rightarrow> nat \<Rightarrow> nat \<Rightarrow> nat \<Rightarrow> (vm, unit) op" where
  "cow_block parent_pde_start child_pde_start entry_count i v =
     (case v of (child, s) \<Rightarrow>
       let parent_pde = read_pde (parent_pde_start + i) s
       in if \<not> is_present parent_pde then (Ok (), v)
          else
            case PageTable_new s of
              (Ok None, s1) \<Rightarrow> (Err Errno_NOMEM, (child, s1))
            | (Ok (Some child_pt), s1) \<Rightarrow>
                bind_op
                  (for_op (cow_entry (PhysAddr_floor (PageEntry_phys_addr parent_pde)) child_pt
                             (child_pde_start + i))
                    [0..<entry_count])
                  (\<lambda>_ v2. (Ok (),
                     ((fst v2)\<lparr>page_tables := (page_tables (fst v2))[i := Some child_pt]\<rparr>,
                      write_pde (child_pde_start + i)
                        (PageDirectoryEntry_user_page_table (PageTable_phys_addr child_pt)) (snd v2))))
                  (child, s1)
            | (Err e, s1) \<Rightarrow> (Err e, (child, s1))
            | (Panic, s1) \<Rightarrow> (Panic, (child, s1)))"

definition cow_pde_count :: "u32 \<Rightarrow> nat" where
  "cow_pde_count data_limit =
     min ((unat data_limit + (ENTRIES_PER_TABLE * PAGE_SIZE - 1)) div (ENTRIES_PER_TABLE * PAGE_SIZE))
       PDES_PER_PROCESS"

definition cow_copy :: "MemorySpace \<Rightarrow> nat \<Rightarrow> u32 \<Rightarrow> (mm, MemorySpace) op" where
  "cow_copy parent child_index data_limit s =
     (let parent_pde_start = pde_base parent;
          child_pde_start = child_index * PDES_PER_PROCESS;
          entry_count = (if parent_pde_start = 0 then TASK0_PAGE_COUNT else ENTRIES_PER_TABLE)
      in case for_op (cow_block parent_pde_start child_pde_start entry_count)
                [0..<cow_pde_count data_limit] (MemorySpace_new child_index, s) of
           (Ok _, (child, s1)) \<Rightarrow> (Ok child, invalidate_tlb s1)
         | (Err e, (child, s1)) \<Rightarrow>
             (case MemorySpace_drop child s1 of
                (Ok _, s2) \<Rightarrow> (Err e, s2)
              | (Err e', s2) \<Rightarrow> (Err e', s2)
              | (Panic, s2) \<Rightarrow> (Panic, s2))
         | (Panic, (child, s1)) \<Rightarrow> (Panic, s1))"

end
