(* ===== verification/Mm_Invariant.thy ===== *)
theory Mm_Invariant
  imports Mm_Space
begin

text \<open>
  The invariant of the memory subsystem and its preservation by the building blocks of the
  address-space operations.

  \<open>vm_inv s Ws E\<close> relates the physical memory and \<open>mem_map\<close> (\<open>s\<close>) to the live address spaces of the
  processes (\<open>Ws\<close>, every space but task 0's, whose tables are set up by the boot code) and to the
  handles held elsewhere (\<open>E\<close>: kernel stacks, reserved frames, a handle in a local variable):
  \<^item> every reference count is the number of handles;
  \<^item> page tables are not shared, and the page directory points to exactly the tables a space owns;
  \<^item> \<open>data_frames\<close> holds a handle for exactly the present entries at or above \<open>LOW_MEM\<close>;
  \<^item> copy-on-write: a present entry is writable only if its frame has reference count 1;
  \<^item> a frame is mapped at the same offset in every space that maps it.
\<close>

section \<open>Definitions\<close>

definition in_space :: "MemorySpace \<Rightarrow> LinPageNum \<Rightarrow> bool" where
  "in_space ms lp \<longleftrightarrow>
     pde_base ms \<le> LinPageNum_pde_index lp \<and> LinPageNum_pde_index lp < pde_base ms + 16"

definition maps_frame :: "u32 \<Rightarrow> PhysPageNum \<Rightarrow> bool" where
  "maps_frame e p \<longleftrightarrow> is_present e \<and> PageEntry_ppn e = p \<and> \<not> p < UNPAGED_PAGES"

definition entry_safe :: "mm \<Rightarrow> u32 \<Rightarrow> bool" where
  "entry_safe s e \<longleftrightarrow>
     (is_present e \<and> is_writable e \<longrightarrow>
        \<not> PageEntry_ppn e < UNPAGED_PAGES \<and> frame_rc s (PageEntry_ppn e) = 1)"

definition space_shape :: "MemorySpace \<Rightarrow> bool" where
  "space_shape ms \<longleftrightarrow>
     length (page_tables ms) = 16 \<and> 16 dvd pde_base ms \<and> 16 \<le> pde_base ms \<and> pde_base ms < 1024 \<and>
     distinct (map fst (data_frames ms)) \<and> (\<forall>pt\<in>set (table_frames ms). tracked_frame pt)"

definition pdes_ok :: "mm \<Rightarrow> MemorySpace \<Rightarrow> bool" where
  "pdes_ok s ms \<longleftrightarrow>
     (\<forall>i<16. case page_tables ms ! i of
        Some pt \<Rightarrow> read_pde (pde_base ms + i) s = PageEntry_new pt USER_RW
      | None \<Rightarrow> \<not> is_present (read_pde (pde_base ms + i) s))"

definition space_ok :: "mm \<Rightarrow> MemorySpace \<Rightarrow> bool" where
  "space_ok s ms \<longleftrightarrow>
     space_shape ms \<and> pdes_ok s ms \<and>
     (\<forall>lp p. map_of (data_frames ms) lp = Some p \<longleftrightarrow> (\<exists>e. pte ms lp s = Some e \<and> maps_frame e p)) \<and>
     (\<forall>lp e. pte ms lp s = Some e \<longrightarrow> entry_safe s e)"

definition all_tables :: "MemorySpace list \<Rightarrow> PhysPageNum list" where
  "all_tables Ws = concat (map table_frames Ws)"

definition all_frames :: "MemorySpace list \<Rightarrow> (LinPageNum \<times> PhysPageNum) list" where
  "all_frames Ws = concat (map data_frames Ws)"

definition all_handles :: "MemorySpace list \<Rightarrow> PhysPageNum multiset" where
  "all_handles Ws = mset (all_tables Ws) + mset (map snd (all_frames Ws))"

definition local_page :: "LinPageNum \<Rightarrow> nat \<times> nat" where
  "local_page lp = (LinPageNum_pde_index lp mod 16, LinPageNum_pte_index lp)"

definition placed :: "MemorySpace list \<Rightarrow> bool" where
  "placed Ws \<longleftrightarrow>
     (\<forall>lp lp' f. (lp, f) \<in> set (all_frames Ws) \<longrightarrow> (lp', f) \<in> set (all_frames Ws) \<longrightarrow>
        local_page lp = local_page lp')"

definition vm_inv :: "mm \<Rightarrow> MemorySpace list \<Rightarrow> (PhysPageNum \<Rightarrow> nat) \<Rightarrow> bool" where
  "vm_inv s Ws E \<longleftrightarrow>
     frames.accounted s (all_handles Ws) E \<and>
     (\<forall>ms\<in>set Ws. space_ok s ms) \<and>
     distinct (map pde_base Ws) \<and>
     (\<forall>pt\<in>set (all_tables Ws). frame_rc s pt = 1) \<and>
     (\<forall>f. f \<in># all_handles Ws \<longrightarrow> E f \<le> 1) \<and>
     placed Ws"

lemma vm_invI:
  "frames.accounted s (all_handles Ws) E \<Longrightarrow> (\<And>ms. ms \<in> set Ws \<Longrightarrow> space_ok s ms) \<Longrightarrow>
   distinct (map pde_base Ws) \<Longrightarrow> (\<And>pt. pt \<in> set (all_tables Ws) \<Longrightarrow> frame_rc s pt = 1) \<Longrightarrow>
   (\<And>f. f \<in># all_handles Ws \<Longrightarrow> E f \<le> 1) \<Longrightarrow> placed Ws \<Longrightarrow> vm_inv s Ws E"
  by (simp add: vm_inv_def)

lemma vm_invD:
  assumes "vm_inv s Ws E"
  shows "frames.accounted s (all_handles Ws) E" "ms \<in> set Ws \<Longrightarrow> space_ok s ms"
    "distinct (map pde_base Ws)" "pt \<in> set (all_tables Ws) \<Longrightarrow> frame_rc s pt = 1"
    "f \<in># all_handles Ws \<Longrightarrow> E f \<le> 1" "placed Ws"
  using assms by (simp_all add: vm_inv_def)

section \<open>Lookup through the invariant\<close>

lemma set_table_frames: "set (table_frames ms) = {pt. Some pt \<in> set (page_tables ms)}"
  by (auto simp: table_frames_def List.map_filter_def image_iff)
    (metis option.sel option.distinct(1))

lemma tracked_small: "tracked_frame p \<Longrightarrow> unat p < 2 ^ 20"
  by (auto simp: tracked_frame_def PAGING_PAGES_def)

lemma ppn_new_tracked [simp]: "tracked_frame p \<Longrightarrow> PageEntry_ppn (PageEntry_new p USER_RW) = p"
  by (rule ppn_new, erule tracked_small) (simp add: USER_RW_def PRESENT_def WRITABLE_def USER_def)

lemma tracked_not_zero [simp]: "tracked_frame 0 = False"
  by (simp add: tracked_frame_def)

lemma table_tracked:
  assumes "space_shape ms" "i < 16" "page_tables ms ! i = Some pt"
  shows "tracked_frame pt" "pt \<in> set (table_frames ms)"
  using assms by (auto simp: space_shape_def set_table_frames) (metis nth_mem)+

lemma find_pte_eq:
  assumes "space_shape ms" "pdes_ok s ms"
  shows "find_pte ms lp s =
    (if in_space ms lp
     then map_option (\<lambda>pt. (pt, LinPageNum_pte_index lp))
            (page_tables ms ! (LinPageNum_pde_index lp - pde_base ms))
     else None)"
proof (cases "in_space ms lp")
  case False
  then show ?thesis by (auto simp: find_pte_def in_space_def PDES_PER_PROCESS_def)
next
  case True
  let ?i = "LinPageNum_pde_index lp - pde_base ms"
  have i: "?i < 16" "pde_base ms + ?i = LinPageNum_pde_index lp"
    using True by (auto simp: in_space_def)
  show ?thesis
  proof (cases "page_tables ms ! ?i")
    case None
    then have "\<not> is_present (read_pde (LinPageNum_pde_index lp) s)"
      using assms i by (force simp: pdes_ok_def)
    with None True show ?thesis
      by (auto simp: find_pte_def in_space_def PDES_PER_PROCESS_def Let_def)
  next
    case (Some pt)
    then have "read_pde (LinPageNum_pde_index lp) s = PageEntry_new pt USER_RW"
      using assms i by (force simp: pdes_ok_def)
    moreover have "tracked_frame pt" using table_tracked [OF assms(1) i(1) Some] by simp
    ultimately show ?thesis using Some True
      by (auto simp: find_pte_def in_space_def PDES_PER_PROCESS_def Let_def)
  qed
qed

lemma find_pte_SomeD:
  assumes "space_shape ms" "pdes_ok s ms" "find_pte ms lp s = Some (pt, j)"
  shows "in_space ms lp" "j = LinPageNum_pte_index lp"
    "page_tables ms ! (LinPageNum_pde_index lp - pde_base ms) = Some pt"
    "tracked_frame pt" "pt \<in> set (table_frames ms)"
proof -
  show *: "in_space ms lp" "j = LinPageNum_pte_index lp"
    "page_tables ms ! (LinPageNum_pde_index lp - pde_base ms) = Some pt"
    using assms by (auto simp: find_pte_eq split: if_splits)
  have "LinPageNum_pde_index lp - pde_base ms < 16" using *(1) by (auto simp: in_space_def)
  from table_tracked [OF assms(1) this *(3)]
  show "tracked_frame pt" "pt \<in> set (table_frames ms)" by auto
qed

lemma pte_SomeD: "pte ms lp s = Some e \<Longrightarrow> \<exists>pt j. find_pte ms lp s = Some (pt, j) \<and> pmem s pt j = e"
  by (auto simp: pte_def)


lemma map_filter_id_inj:
  "distinct (List.map_filter (\<lambda>pt. pt) xs) \<Longrightarrow> i < length xs \<Longrightarrow> j < length xs \<Longrightarrow>
     xs ! i = Some a \<Longrightarrow> xs ! j = Some a \<Longrightarrow> i = j"
proof (induction xs arbitrary: i j)
  case Nil
  then show ?case by simp
next
  case (Cons x xs)
  have mem: "k < length xs \<Longrightarrow> xs ! k = Some a \<Longrightarrow> a \<in> set (List.map_filter (\<lambda>pt. pt) xs)" for k
    by (auto simp: List.map_filter_def image_iff) (metis nth_mem option.sel option.distinct(1))
  show ?case
  proof (cases x)
    case None
    with Cons show ?thesis
      by (cases i; cases j) (auto simp: List.map_filter_simps)
  next
    case (Some b)
    with Cons mem show ?thesis
      by (cases i; cases j) (auto simp: List.map_filter_simps)
  qed
qed

section \<open>Consequences of the accounting\<close>

lemma vm_inv_frame_ok: "vm_inv s Ws E \<Longrightarrow> frame_ok s"
  by (simp add: vm_inv_def frames.accounted_def)

lemma vm_inv_rc:
  "vm_inv s Ws E \<Longrightarrow> tracked_frame f \<Longrightarrow> frame_rc s f = count (all_handles Ws) f + E f"
  by (simp add: vm_inv_def frames.accounted_def)

lemma vm_inv_tracked: "vm_inv s Ws E \<Longrightarrow> f \<in># all_handles Ws \<Longrightarrow> tracked_frame f"
  by (auto simp: vm_inv_def frames.accounted_def)

lemma all_lists_Cons [simp]:
  "all_tables (ms # R) = table_frames ms @ all_tables R"
  "all_frames (ms # R) = data_frames ms @ all_frames R"
  by (simp_all add: all_tables_def all_frames_def)

lemma all_lists_Nil [simp]: "all_tables [] = []" "all_frames [] = []"
  by (simp_all add: all_tables_def all_frames_def)

lemma vm_inv_perm:
  assumes "vm_inv s Ws E" "mset Ws = mset Ws'"
  shows "vm_inv s Ws' E"
proof -
  have mc: "mset (concat (map f A)) = (\<Sum>x\<in>#mset A. mset (f x))" for f :: "MemorySpace \<Rightarrow> 'b list" and A
    by (induction A) auto
  have t: "mset (all_tables Ws) = mset (all_tables Ws')"
    and f: "mset (all_frames Ws) = mset (all_frames Ws')"
    by (simp_all add: all_tables_def all_frames_def mc assms(2))
  have ws: "set Ws = set Ws'" using assms(2) by (rule mset_eq_setD)
  have "mset (map pde_base Ws) = mset (map pde_base Ws')" using assms(2) by simp
  then have d: "distinct (map pde_base Ws) = distinct (map pde_base Ws')"
    by (metis mset_eq_imp_distinct_iff)
  have h: "all_handles Ws = all_handles Ws'" using t f by (simp add: all_handles_def)
  show ?thesis
    using assms(1)
    unfolding vm_inv_def placed_def ws d h mset_eq_setD [OF t] mset_eq_setD [OF f] .
qed

lemma table_count:
  assumes "vm_inv s Ws E" "pt \<in> set (all_tables Ws)"
  shows "count (mset (all_tables Ws)) pt = 1" "pt \<notin> snd ` set (all_frames Ws)" "E pt = 0"
proof -
  have tr: "tracked_frame pt" by (rule vm_inv_tracked [OF assms(1)]) (simp add: all_handles_def assms(2))
  have "frame_rc s pt = 1" using assms by (auto simp: vm_inv_def)
  with vm_inv_rc [OF assms(1) tr] have
    sum: "count (mset (all_tables Ws)) pt + count (mset (map snd (all_frames Ws))) pt + E pt = 1"
    by (simp add: all_handles_def)
  moreover have pos: "0 < count (mset (all_tables Ws)) pt" using assms(2) by simp
  ultimately show "count (mset (all_tables Ws)) pt = 1" "E pt = 0" by linarith+
  from sum pos have "count (mset (map snd (all_frames Ws))) pt = 0" by linarith
  then show "pt \<notin> snd ` set (all_frames Ws)"
    by (metis count_eq_zero_iff list.set_map set_mset_mset)
qed

lemma distinct_tables: "vm_inv s Ws E \<Longrightarrow> distinct (all_tables Ws)"
  using table_count(1) by (metis count_mset_0_iff distinct_count_atmost_1)

lemma data_frame_handle:
  "(lp, f) \<in> set (all_frames Ws) \<Longrightarrow> f \<in># all_handles Ws"
  by (force simp: all_handles_def)

lemma data_frame_handle':
  "f \<in> snd ` set (all_frames Ws) \<Longrightarrow> f \<in># all_handles Ws"
  by (auto simp: all_handles_def)

lemma space_okD:
  assumes "space_ok s ms"
  shows "space_shape ms" "pdes_ok s ms"
    "map_of (data_frames ms) lp = Some p \<longleftrightarrow> (\<exists>e. pte ms lp s = Some e \<and> maps_frame e p)"
    "pte ms lp s = Some e \<Longrightarrow> entry_safe s e"
  using assms by (auto simp: space_ok_def)

lemma data_frame_in_space:
  assumes "space_ok s ms" "(lp, f) \<in> set (data_frames ms)"
  shows "in_space ms lp"
proof -
  note d = space_okD [OF assms(1)]
  have "map_of (data_frames ms) lp = Some f"
    using assms(2) d(1) by (auto simp: space_shape_def intro: map_of_is_SomeI)
  then obtain e where "pte ms lp s = Some e" using d(3) by blast
  then show ?thesis using find_pte_SomeD [OF d(1,2)] by (auto dest!: pte_SomeD)
qed

lemma in_space_unique:
  assumes "16 dvd pde_base a" "16 dvd pde_base b" "in_space a lp" "in_space b lp"
  shows "pde_base a = pde_base b"
proof -
  obtain m n where "pde_base a = 16 * m" "pde_base b = 16 * n" using assms(1,2) by (auto elim!: dvdE)
  with assms(3,4) show ?thesis by (simp add: in_space_def)
qed

lemma distinct_pages:
  assumes "\<forall>ms\<in>set Ws. space_ok s ms" "distinct (map pde_base Ws)"
  shows "distinct (map fst (all_frames Ws))"
  using assms
proof (induction Ws)
  case Nil
  then show ?case by simp
next
  case (Cons ms R)
  have disj: "lp \<notin> fst ` set (all_frames R)" if lp: "(lp, f) \<in> set (data_frames ms)" for lp f
  proof
    assume "lp \<in> fst ` set (all_frames R)"
    then obtain ms' g where ms': "ms' \<in> set R" "(lp, g) \<in> set (data_frames ms')"
      by (auto simp: all_frames_def)
    then have "in_space ms lp" "in_space ms' lp"
      using Cons.prems(1) lp data_frame_in_space by auto
    then have "pde_base ms = pde_base ms'"
      using Cons.prems(1) ms'(1) by (intro in_space_unique) (auto simp: space_ok_def space_shape_def)
    with ms'(1) Cons.prems(2) show False by auto
  qed
  have "distinct (map fst (data_frames ms))"
    using Cons.prems(1) by (auto simp: space_ok_def space_shape_def)
  moreover have "distinct (map fst (all_frames R))" using Cons by simp
  ultimately show ?case using disj by force
qed

lemma two_pages_count:
  "distinct (map fst xs) \<Longrightarrow> (a, f) \<in> set xs \<Longrightarrow> (b, f) \<in> set xs \<Longrightarrow> a \<noteq> b \<Longrightarrow>
     2 \<le> count (mset (map snd xs)) f"
proof (induction xs)
  case Nil
  then show ?case by simp
next
  case (Cons x xs)
  have mem: "(c, f) \<in> set xs \<Longrightarrow> 0 < count (mset (map snd xs)) f" for c
    by (force simp: count_greater_zero_iff)
  from Cons show ?case using mem by (cases x) (auto simp: Suc_le_eq)
qed


section \<open>Frame rules\<close>

lemma find_pte_cong: "pmem s' 0 = pmem s 0 \<Longrightarrow> find_pte ms lp s' = find_pte ms lp s"
  by (simp add: find_pte_def read_pde_def Let_def)

lemma pte_cong: "pmem s' = pmem s \<Longrightarrow> pte ms lp s' = pte ms lp s"
  using find_pte_cong [of s' s ms lp] by (simp add: pte_def)

text \<open>A space is untouched by a change outside its directory entries, tables and writable frames.\<close>

lemma pdes_ok_cong:
  "(\<And>i. i < 16 \<Longrightarrow> pmem s' 0 (pde_base ms + i) = pmem s 0 (pde_base ms + i)) \<Longrightarrow>
     pdes_ok s' ms = pdes_ok s ms"
  by (auto simp: pdes_ok_def read_pde_def split: option.splits)

lemma pte_same:
  assumes "space_shape ms" "pdes_ok s ms"
    and "\<forall>i<16. pmem s' 0 (pde_base ms + i) = pmem s 0 (pde_base ms + i)"
    and "\<forall>pt\<in>set (table_frames ms). pmem s' pt = pmem s pt"
  shows "pdes_ok s' ms" "find_pte ms lp s' = find_pte ms lp s" "pte ms lp s' = pte ms lp s"
proof -
  show p': "pdes_ok s' ms" using assms(2,3) pdes_ok_cong [of s' ms s] by simp
  show f: "find_pte ms lp s' = find_pte ms lp s"
    using find_pte_eq [OF assms(1) p'] find_pte_eq [OF assms(1,2)] by simp
  show "pte ms lp s' = pte ms lp s"
  proof (cases "find_pte ms lp s")
    case None
    then show ?thesis by (simp add: pte_def f)
  next
    case (Some x)
    then show ?thesis
      using find_pte_SomeD(5) [OF assms(1,2)] assms(4) by (cases x) (simp add: pte_def f)
  qed
qed

lemma space_ok_same:
  assumes "space_ok s ms"
    and "\<forall>i<16. pmem s' 0 (pde_base ms + i) = pmem s 0 (pde_base ms + i)"
    and "\<forall>pt\<in>set (table_frames ms). pmem s' pt = pmem s pt"
    and "\<And>lp e. pte ms lp s = Some e \<Longrightarrow> is_present e \<Longrightarrow> is_writable e \<Longrightarrow>
      frame_rc s' (PageEntry_ppn e) = frame_rc s (PageEntry_ppn e)"
  shows "space_ok s' ms"
proof -
  note d = space_okD [OF assms(1)]
  note p = pte_same [OF d(1,2) assms(2,3)]
  show ?thesis
    using assms(1,4) p(1) by (auto simp: space_ok_def p(3) entry_safe_def)
qed

lemma writable_rc:
  assumes "vm_inv s Ws E" "ms \<in> set Ws" "pte ms lp s = Some e" "is_present e" "is_writable e"
  shows "frame_rc s (PageEntry_ppn e) = 1" "(lp, PageEntry_ppn e) \<in> set (all_frames Ws)"
proof -
  have ok: "space_ok s ms" using assms(1,2) by (auto simp: vm_inv_def)
  have safe: "entry_safe s e" by (rule space_okD(4) [OF ok assms(3)])
  then show "frame_rc s (PageEntry_ppn e) = 1" using assms(4,5) by (simp add: entry_safe_def)
  have "map_of (data_frames ms) lp = Some (PageEntry_ppn e)"
    using safe assms(3-5) by (auto simp: space_okD(3) [OF ok] maps_frame_def entry_safe_def)
  then show "(lp, PageEntry_ppn e) \<in> set (all_frames Ws)"
    using assms(2) by (auto simp: all_frames_def dest: map_of_SomeD)
qed

lemma table_not_zero: "vm_inv s Ws E \<Longrightarrow> pt \<in> set (all_tables Ws) \<Longrightarrow> pt \<noteq> 0"
  using vm_inv_tracked [of s Ws E pt] by (auto simp: all_handles_def)

lemma table_frames_subset: "ms \<in> set Ws \<Longrightarrow> set (table_frames ms) \<subseteq> set (all_tables Ws)"
  by (auto simp: all_tables_def)

subsection \<open>Handles held outside the spaces\<close>

lemma vm_inv_alloc:
  assumes inv: "vm_inv s Ws E" and al: "FrameAllocator_alloc s = (Ok (Some p), s')"
  shows "vm_inv s' Ws (E(p := 1)) \<and> tracked_frame p \<and> p \<notin># all_handles Ws \<and> E p = 0 \<and>
    pmem s' = (pmem s)(p := (\<lambda>_. 0))"
proof -
  note acc = inv [unfolded vm_inv_def, THEN conjunct1]
  note a = frames.accounted_alloc [OF acc al]
  note m = alloc_pmem [OF vm_inv_frame_ok [OF inv] al]
  have rc: "frame_rc s' = (frame_rc s)(p := 1)" "frame_rc s p = 0"
    using frames.alloc_some [OF vm_inv_frame_ok [OF inv] al] by auto
  have pt: "p \<notin> set (all_tables Ws)" using a by (auto simp: all_handles_def)
  have "space_ok s' ms" if ms: "ms \<in> set Ws" for ms
  proof (rule space_ok_same)
    show "space_ok s ms" using inv ms by (auto simp: vm_inv_def)
    show "\<forall>i<16. pmem s' 0 (pde_base ms + i) = pmem s 0 (pde_base ms + i)"
      using m a by auto
    show "\<forall>pt\<in>set (table_frames ms). pmem s' pt = pmem s pt"
      using m pt table_frames_subset [OF ms] by auto
    fix lp e
    assume "pte ms lp s = Some e" "is_present e" "is_writable e"
    then show "frame_rc s' (PageEntry_ppn e) = frame_rc s (PageEntry_ppn e)"
      using writable_rc(1) [OF inv ms] rc by auto
  qed
  moreover have "frames.accounted s' (all_handles Ws) (E(p := 1))"
    using a by (auto simp: frames.accounted_def not_in_iff)
  ultimately show ?thesis
    using a m inv rc pt by (auto simp: vm_inv_def)
qed

lemma vm_inv_drop:
  assumes inv: "vm_inv s Ws E" and tr: "tracked_frame p" and Ep: "0 < E p"
  shows "\<exists>s'. PhysFrame_drop p s = (Ok (), s') \<and> vm_inv s' Ws (E(p := E p - 1)) \<and>
    pmem s' = pmem s \<and> tlb_stale s' = tlb_stale s"
proof -
  have rcp: "0 < frame_rc s p" using vm_inv_rc [OF inv tr] Ep by simp
  from frames.release_ok [OF vm_inv_frame_ok [OF inv] tr this] obtain s' where
    s': "PhysFrame_drop p s = (Ok (), s')" "frame_ok s'"
      "frame_rc s' = (frame_rc s)(p := frame_rc s p - 1)" by blast
  note m = drop_pmem [OF s'(1)]
  have nw: "frame_rc s f \<noteq> 1 \<or> f \<noteq> p" if "f \<in># all_handles Ws" for f
  proof -
    have "0 < count (all_handles Ws) f" using that by (simp only: count_greater_zero_iff)
    then have "frame_rc s p \<noteq> 1" if "f = p"
      using vm_inv_rc [OF inv tr] Ep unfolding that by linarith
    then show ?thesis by blast
  qed
  have "space_ok s' ms" if ms: "ms \<in> set Ws" for ms
  proof (rule space_ok_same)
    show "space_ok s ms" using inv ms by (auto simp: vm_inv_def)
    fix lp e
    assume "pte ms lp s = Some e" "is_present e" "is_writable e"
    note w = writable_rc [OF inv ms this]
    then show "frame_rc s' (PageEntry_ppn e) = frame_rc s (PageEntry_ppn e)"
      using s'(3) nw [OF data_frame_handle [OF w(2)]] by auto
  qed (use m in auto)
  moreover have "frame_rc s' pt = 1" if "pt \<in> set (all_tables Ws)" for pt
    using s'(3) inv that table_count(3) [OF inv that] Ep by (auto simp: vm_inv_def)
  moreover have "frames.accounted s' (all_handles Ws) (E(p := E p - 1))"
    using inv s' Ep by (auto simp: frames.accounted_def vm_inv_def)
  moreover have "\<forall>f. f \<in># all_handles Ws \<longrightarrow> (E(p := E p - 1)) f \<le> 1"
    using inv by (auto simp: vm_inv_def intro: order_trans [OF diff_le_self])
  ultimately show ?thesis
    using s' m inv by (auto simp: vm_inv_def)
qed


lemma vm_inv_share:
  assumes inv: "vm_inv s Ws E" and f: "f \<in> snd ` set (all_frames Ws)" and Ef: "E f = 0"
    and cap: "frame_rc s f < 255"
    and ro: "\<And>ms lp e. ms \<in> set Ws \<Longrightarrow> pte ms lp s = Some e \<Longrightarrow> is_present e \<Longrightarrow>
      is_writable e \<Longrightarrow> PageEntry_ppn e \<noteq> f"
  shows "\<exists>s'. FrameAllocator_share f s = (Ok f, s') \<and> vm_inv s' Ws (E(f := 1)) \<and>
    pmem s' = pmem s \<and> tlb_stale s' = tlb_stale s \<and> frame_rc s' = (frame_rc s)(f := frame_rc s f + 1)"
proof -
  have h: "f \<in># all_handles Ws" using f by (auto dest: data_frame_handle)
  have tr: "tracked_frame f" by (rule vm_inv_tracked [OF inv h])
  have "0 < count (all_handles Ws) f" using h by (simp only: count_greater_zero_iff)
  then have "0 < frame_rc s f" using vm_inv_rc [OF inv tr] by simp
  from frames.share_ok [OF vm_inv_frame_ok [OF inv] tr this cap] obtain s' where
    s': "FrameAllocator_share f s = (Ok f, s')" "frame_ok s'"
      "frame_rc s' = (frame_rc s)(f := frame_rc s f + 1)" by blast
  note m = share_pmem [OF s'(1)]
  have "space_ok s' ms" if ms: "ms \<in> set Ws" for ms
  proof (rule space_ok_same)
    show "space_ok s ms" using inv ms by (auto simp: vm_inv_def)
    fix lp e
    assume "pte ms lp s = Some e" "is_present e" "is_writable e"
    then show "frame_rc s' (PageEntry_ppn e) = frame_rc s (PageEntry_ppn e)"
      using s'(3) ro [OF ms] by auto
  qed (use m in auto)
  moreover have "frame_rc s' pt = 1" if "pt \<in> set (all_tables Ws)" for pt
    using s'(3) inv that table_count(2) [OF inv that] f by (auto simp: vm_inv_def)
  moreover have "frames.accounted s' (all_handles Ws) (E(f := 1))"
    using inv s' Ef by (auto simp: frames.accounted_def vm_inv_def)
  ultimately show ?thesis
    using s' m inv by (auto simp: vm_inv_def)
qed

subsection \<open>Writing one page table entry\<close>

lemma pte_store:
  assumes inv: "vm_inv s (ms # R) E" and fp: "find_pte ms lp s = Some (pt, j)"
    and s1: "s1 = store_word pt j e s"
  shows "pte ms lp' s1 = (if lp' = lp then Some e else pte ms lp' s)"
    and "find_pte ms lp' s1 = find_pte ms lp' s" and "pdes_ok s1 ms"
    and "ms2 \<in> set R \<Longrightarrow> space_ok s1 ms2" and "ms2 \<in> set R \<Longrightarrow> pte ms2 lp' s1 = pte ms2 lp' s"
proof -
  have ok: "space_ok s ms" using inv by (simp add: vm_inv_def)
  note d = space_okD(1,2) [OF ok]
  note f = find_pte_SomeD [OF d fp]
  have mine: "pt \<in> set (all_tables (ms # R))" using f(5) by simp
  have nz: "pt \<noteq> 0" by (rule table_not_zero [OF inv mine])
  have same: "frame_rc s1 = frame_rc s" by (simp add: s1 store_word_def frame_rc_def fun_eq_iff)
  show pd: "pdes_ok s1 ms"
    using d(2) nz pdes_ok_cong [of s1 ms s] by (simp add: s1 store_word_def)
  show fp1: "find_pte ms lp' s1 = find_pte ms lp' s" for lp'
    by (simp only: find_pte_eq [OF d(1) pd] find_pte_eq [OF d])
  have dist: "distinct (List.map_filter (\<lambda>pt. pt) (page_tables ms))"
    using distinct_tables [OF inv] by (simp add: table_frames_def)
  show "pte ms lp' s1 = (if lp' = lp then Some e else pte ms lp' s)"
  proof (cases "lp' = lp")
    case True
    moreover have "pmem s1 pt j = e" by (simp add: s1 store_word_def)
    ultimately show ?thesis by (simp add: pte_def fp1 fp)
  next
    case False
    show ?thesis
    proof (cases "find_pte ms lp' s")
      case None
      with False show ?thesis by (simp add: pte_def fp1)
    next
      case (Some x)
      obtain pt' j' where x: "x = (pt', j')" by (cases x)
      note f' = find_pte_SomeD [OF d Some [unfolded x]]
      have "(pt', j') \<noteq> (pt, j)"
      proof
        assume eq: "(pt', j') = (pt, j)"
        have "LinPageNum_pde_index lp - pde_base ms = LinPageNum_pde_index lp' - pde_base ms"
          by (rule map_filter_id_inj [OF dist, of _ _ pt])
            (use f f' eq d(1) in \<open>auto simp: in_space_def space_shape_def\<close>)
        then have "lp = lp'"
          using f(1,2) f'(1,2) eq by (auto simp: page_eq_iff in_space_def)
        with False show False by simp
      qed
      then have "pmem s1 pt' j' = pmem s pt' j'" by (auto simp: s1 store_word_def)
      with False Some x show ?thesis by (simp add: pte_def fp1)
    qed
  qed
  have other: "pt \<notin> set (table_frames ms2)" if "ms2 \<in> set R" for ms2
    using distinct_tables [OF inv] f(5) table_frames_subset [OF that] by auto
  show "space_ok s1 ms2" if r: "ms2 \<in> set R"
    by (rule space_ok_same [of s])
      (use inv r nz other [OF r] same in \<open>auto simp: vm_inv_def s1 store_word_def\<close>)
  show "pte ms2 lp' s1 = pte ms2 lp' s" if r: "ms2 \<in> set R"
  proof -
    have ok2: "space_ok s ms2" using inv r by (auto simp: vm_inv_def)
    show ?thesis
      by (rule pte_same [OF space_okD(1,2) [OF ok2]])
        (use nz other [OF r] in \<open>auto simp: s1 store_word_def\<close>)
  qed
qed


lemma store_word_fields [simp]:
  "mem_map (store_word f j e s) = mem_map s" "frame_rc (store_word f j e s) = frame_rc s"
  "frame_ok (store_word f j e s) = frame_ok s" "entry_safe (store_word f j e s) = entry_safe s"
  "tlb_stale (store_word f j e s)"
  by (simp_all add: store_word_def frame_rc_def frame_ok_def entry_safe_def fun_eq_iff)

lemma write_pde_fields [simp]:
  "mem_map (write_pde k e s) = mem_map s" "frame_rc (write_pde k e s) = frame_rc s"
  "frame_ok (write_pde k e s) = frame_ok s" "entry_safe (write_pde k e s) = entry_safe s"
  by (simp_all add: write_pde_def frame_rc_def frame_ok_def entry_safe_def fun_eq_iff)

lemma data_frames_update [simp]:
  "pdes_ok s (ms\<lparr>data_frames := d\<rparr>) = pdes_ok s ms"
  "find_pte (ms\<lparr>data_frames := d\<rparr>) lp s = find_pte ms lp s"
  "pte (ms\<lparr>data_frames := d\<rparr>) lp s = pte ms lp s"
  "table_frames (ms\<lparr>data_frames := d\<rparr>) = table_frames ms"
  "in_space (ms\<lparr>data_frames := d\<rparr>) lp = in_space ms lp"
  by (simp_all add: pdes_ok_def find_pte_def pte_def table_frames_def in_space_def
      cong: option.case_cong)

lemma accounted_cong:
  "frame_ok s' = frame_ok s \<Longrightarrow> frame_rc s' = frame_rc s \<Longrightarrow>
     frames.accounted s' H E = frames.accounted s H E"
  by (simp add: frames.accounted_def)

lemma vm_inv_set_entry:
  assumes inv: "vm_inv s (ms # R) E" and fp: "find_pte ms lp s = Some (pt, j)"
    and same: "\<And>p. map_of (data_frames ms) lp = Some p \<longleftrightarrow> maps_frame e p"
    and safe: "entry_safe s e"
  shows "vm_inv (store_word pt j e s) (ms # R) E"
proof -
  let ?s1 = "store_word pt j e s"
  note p = pte_store [OF inv fp refl [of ?s1]]
  have ok: "space_ok s ms" using inv by (simp add: vm_inv_def)
  have "space_ok ?s1 ms"
    using ok same safe p(3) by (auto simp: space_ok_def p(1))
  then show ?thesis
    using inv p(4) accounted_cong [of ?s1 s] by (auto simp: vm_inv_def)
qed

definition detach_old :: "MemorySpace \<Rightarrow> LinPageNum \<Rightarrow> (PhysPageNum \<Rightarrow> nat) \<Rightarrow> PhysPageNum \<Rightarrow> nat" where
  "detach_old ms lp E =
     (case map_of (data_frames ms) lp of None \<Rightarrow> E | Some old \<Rightarrow> E(old := E old + 1))"

lemma handles_update:
  assumes "ms' = ms\<lparr>data_frames := AList.update lp p (data_frames ms)\<rparr>"
  shows "count (all_handles (ms' # R)) f + (case map_of (data_frames ms) lp of
      None \<Rightarrow> 0 | Some old \<Rightarrow> if f = old then 1 else 0)
    = count (all_handles (ms # R)) f + (if f = p then 1 else 0)"
proof (cases "map_of (data_frames ms) lp")
  case None
  have "mset (map snd (data_frames ms')) = add_mset p (mset (map snd (data_frames ms)))"
    using mset_snd_update_new [OF None] by (simp add: assms)
  with None show ?thesis by (simp add: assms all_handles_def table_frames_def)
next
  case (Some old)
  have "add_mset old (mset (map snd (data_frames ms'))) = add_mset p (mset (map snd (data_frames ms)))"
    using mset_snd_update_old [OF Some] by (simp add: assms)
  then have "count (add_mset old (mset (map snd (data_frames ms')))) f =
      count (add_mset p (mset (map snd (data_frames ms)))) f" by simp
  with Some show ?thesis
    by (auto simp: assms all_handles_def table_frames_def split: if_splits)
qed

lemma handles_update_subset:
  assumes "f \<in># all_handles (ms\<lparr>data_frames := AList.update lp p (data_frames ms)\<rparr> # R)"
  shows "f \<in># all_handles (ms # R) \<or> f = p"
  using set_alist_update [of lp p "data_frames ms"] assms
  by (fastforce simp: all_handles_def table_frames_def)

lemma vm_inv_attach_page:
  assumes inv: "vm_inv s (ms # R) E" and fp: "find_pte ms lp s = Some (pt, j)"
    and e: "maps_frame e p" "entry_safe s e" and tr: "tracked_frame p" and Ep: "E p = 1"
    and E0: "\<And>f. f \<in># all_handles (ms # R) \<Longrightarrow> f \<noteq> p \<Longrightarrow> E f = 0"
    and pl: "\<And>lp'. (lp', p) \<in> set (all_frames (ms # R)) \<Longrightarrow> local_page lp' = local_page lp"
    and ms': "ms' = ms\<lparr>data_frames := AList.update lp p (data_frames ms)\<rparr>"
  shows "vm_inv (store_word pt j e s) (ms' # R) (detach_old ms lp (E(p := 0)))"
proof -
  let ?s1 = "store_word pt j e s"
  let ?E = "detach_old ms lp (E(p := 0))"
  note st = pte_store [OF inv fp refl [of ?s1]]
  have ok: "space_ok s ms" using inv by (simp add: vm_inv_def)
  have fst_eq: "space_shape ms'" "pdes_ok ?s1 ms'" "table_frames ms' = table_frames ms"
    "pde_base ms' = pde_base ms" "\<And>lp. pte ms' lp ?s1 = pte ms lp ?s1"
    using st(3) space_okD(1) [OF ok] by (simp_all add: ms' space_shape_def distinct_update)
  have "maps_frame e q \<longleftrightarrow> q = p" for q using e(1) by (auto simp: maps_frame_def)
  then have ok': "space_ok ?s1 ms'"
    using ok e(2) by (auto simp: space_ok_def fst_eq st(1)) (auto simp: ms' update_conv)
  have cnt: "count (all_handles (ms' # R)) f + ?E f = count (all_handles (ms # R)) f + E f" for f
    using handles_update [OF ms', of R f] Ep by (auto simp: detach_old_def split: option.splits if_splits)
  have sub: "f \<in># all_handles (ms # R) \<or> f = p" if "f \<in># all_handles (ms' # R)" for f
    using handles_update_subset that unfolding ms' .
  have old: "old \<in># all_handles (ms # R)" if "map_of (data_frames ms) lp = Some old" for old
    using that by (auto dest!: map_of_SomeD intro!: data_frame_handle)
  have acc: "frames.accounted ?s1 (all_handles (ms' # R)) ?E"
    using inv sub tr cnt by (auto simp: vm_inv_def frames.accounted_def)
  have le: "?E f \<le> 1" if "f \<in># all_handles (ms' # R)" for f
    using sub [OF that] E0 Ep old by (auto simp: detach_old_def split: option.splits)
  have "(lp', f) \<in> set (all_frames (ms' # R)) \<Longrightarrow>
      (lp', f) \<in> set (all_frames (ms # R)) \<or> (lp', f) = (lp, p)" for lp' f
    using set_alist_update [of lp p "data_frames ms"] by (auto simp: ms')
  then have "placed (ms' # R)"
    using inv pl unfolding placed_def vm_inv_def by (metis prod.inject)
  with acc le ok' st(4) inv show ?thesis
    by (auto simp: vm_inv_def fst_eq)
qed

end
