(* ===== verification/Mm_Cow.thy ===== *)
theory Mm_Cow
  imports Mm_Invariant
begin

text \<open>
  Preservation of the memory invariant by the operations of \<open>kernel/src/mm/space.rs\<close>, and what
  each operation does to the pages of every process: demand mapping, the copy-on-write fault, page
  sharing, fork and exit.
\<close>

section \<open>Installing a page table\<close>

lemma mset_map_filter_update:
  "i < length xs \<Longrightarrow> xs ! i = None \<Longrightarrow>
     mset (List.map_filter (\<lambda>x. x) (xs[i := Some p])) = add_mset p (mset (List.map_filter (\<lambda>x. x) xs))"
proof (induction xs arbitrary: i)
  case Nil
  then show ?case by simp
next
  case (Cons x xs)
  then show ?case by (cases i; cases x) (auto simp: List.map_filter_simps)
qed

lemma other_base:
  assumes "space_shape a" "space_shape b" "pde_base a \<noteq> pde_base b" "i < 16" "j < 16"
  shows "pde_base a + i \<noteq> pde_base b + j"
proof -
  obtain m n where "pde_base a = 16 * m" "pde_base b = 16 * n"
    using assms(1,2) by (auto simp: space_shape_def elim!: dvdE)
  with assms(3-5) show ?thesis by auto
qed

lemma vm_inv_attach_table:
  assumes inv: "vm_inv s (ms # R) E" and Ep: "E p = 1" and fresh: "p \<notin># all_handles (ms # R)"
    and tr: "tracked_frame p" and zero: "pmem s p = (\<lambda>_. 0)"
    and i: "i < 16" and none: "page_tables ms ! i = None"
    and ms': "ms' = ms\<lparr>page_tables := (page_tables ms)[i := Some p]\<rparr>"
    and s1: "s1 = write_pde (pde_base ms + i) (PageEntry_new p USER_RW) s"
  shows "vm_inv s1 (ms' # R) (E(p := 0))"
    and "pte ms' lp s1 = (if in_space ms lp \<and> LinPageNum_pde_index lp = pde_base ms + i
      then Some 0 else pte ms lp s)"
    and "ms2 \<in> set R \<Longrightarrow> pte ms2 lp s1 = pte ms2 lp s"
proof -
  have ok: "space_ok s ms" using inv by (simp add: vm_inv_def)
  note d = space_okD(1,2) [OF ok]
  have len: "length (page_tables ms) = 16" using d(1) by (simp add: space_shape_def)
  have tf: "mset (table_frames ms') = add_mset p (mset (table_frames ms))"
    using mset_map_filter_update [of i "page_tables ms" p] i none len
    by (simp add: ms' table_frames_def)
  then have set_tf: "set (table_frames ms') = insert p (set (table_frames ms))"
    by (metis set_mset_add_mset_insert set_mset_mset)
  have shape: "space_shape ms'" using d(1) tr set_tf by (auto simp: space_shape_def ms')
  have pd: "pdes_ok s1 ms'"
    unfolding pdes_ok_def
  proof (intro allI impI)
    fix k :: nat
    assume k: "k < 16"
    then have "case page_tables ms ! k of
        Some pt \<Rightarrow> read_pde (pde_base ms + k) s = PageEntry_new pt USER_RW
      | None \<Rightarrow> \<not> is_present (read_pde (pde_base ms + k) s)"
      using d(2) by (simp add: pdes_ok_def)
    then show "case page_tables ms' ! k of
        Some pt \<Rightarrow> read_pde (pde_base ms' + k) s1 = PageEntry_new pt USER_RW
      | None \<Rightarrow> \<not> is_present (read_pde (pde_base ms' + k) s1)"
      using i len by (cases "k = i") (auto simp: ms' s1 write_pde_def read_pde_def split: option.splits)
  qed
  have pm: "pmem s1 q = pmem s q" if "q \<noteq> 0" for q using that by (simp add: s1 write_pde_def)
  have pz: "p \<noteq> 0" using tr by auto
  have tz: "pt \<noteq> 0" if "pt \<in> set (table_frames ms)" for pt
    using that d(1) by (auto simp: space_shape_def)
  show pte: "pte ms' lp s1 = (if in_space ms lp \<and> LinPageNum_pde_index lp = pde_base ms + i
      then Some 0 else pte ms lp s)" for lp
  proof -
    have ins: "in_space ms' lp = in_space ms lp" "pde_base ms' = pde_base ms"
      "page_tables ms' = (page_tables ms)[i := Some p]" by (simp_all add: in_space_def ms')
    let ?k = "LinPageNum_pde_index lp - pde_base ms"
    have k: "?k < 16" if "in_space ms lp" using that by (auto simp: in_space_def)
    have "?k = i \<longleftrightarrow> LinPageNum_pde_index lp = pde_base ms + i" if "in_space ms lp"
      using that by (auto simp: in_space_def)
    then show ?thesis
      using i len zero pz k pm tz table_tracked(2) [OF d(1) k]
      by (auto simp: pte_def find_pte_eq [OF shape pd] find_pte_eq [OF d] ins option.map_comp o_def
          intro!: option.map_cong)
  qed
  have unreach: "pte ms lp s = None" if "LinPageNum_pde_index lp = pde_base ms + i" for lp
    using that none by (auto simp: pte_def find_pte_eq [OF d])
  have ok': "space_ok s1 ms'"
  proof -
    have "map_of (data_frames ms) lp = None" if "LinPageNum_pde_index lp = pde_base ms + i" for lp
      using space_okD(3) [OF ok, of lp] unreach [OF that] by (cases "map_of (data_frames ms) lp") auto
    then show ?thesis
      using ok shape pd
      by (auto simp: space_ok_def pte) (auto simp: s1 ms' maps_frame_def entry_safe_def split: if_splits)
  qed
  have pdes2: "pmem s1 0 (pde_base ms2 + k) = pmem s 0 (pde_base ms2 + k)"
    if "ms2 \<in> set R" "k < 16" for ms2 k
  proof -
    have "space_shape ms2" using inv that(1) by (auto simp: vm_inv_def space_ok_def)
    moreover have "distinct (map pde_base (ms # R))" using inv unfolding vm_inv_def by blast
    then have "pde_base ms2 \<noteq> pde_base ms"
      using imageI [OF that(1), of pde_base] by auto
    ultimately show ?thesis
      using other_base [OF _ d(1) _ that(2) i] by (simp add: s1 write_pde_def)
  qed
  have tz2: "pt \<noteq> 0" if "ms2 \<in> set R" "pt \<in> set (table_frames ms2)" for ms2 pt
    using that table_not_zero [OF inv, of pt] table_frames_subset [OF that(1)] by auto
  have ok2: "space_ok s ms2" if "ms2 \<in> set R" for ms2 using inv that by (simp add: vm_inv_def)
  have okR: "space_ok s1 ms2" if "ms2 \<in> set R" for ms2
    by (rule space_ok_same [OF ok2 [OF that]])
      (use that pdes2 pm tz2 in \<open>auto simp: s1\<close>)
  show "pte ms2 lp s1 = pte ms2 lp s" if "ms2 \<in> set R"
    by (rule pte_same [OF space_okD(1,2) [OF ok2 [OF that]]])
      (use that pdes2 pm tz2 in auto)
  have h: "all_handles (ms' # R) = add_mset p (all_handles (ms # R))"
    using tf by (simp add: all_handles_def ms')
  have rc: "frame_rc s p = 1" using vm_inv_rc [OF inv tr] Ep fresh by (simp add: not_in_iff)
  show "vm_inv s1 (ms' # R) (E(p := 0))"
  proof (rule vm_invI)
    show "frames.accounted s1 (all_handles (ms' # R)) (E(p := 0))"
      using vm_invD(1) [OF inv] tr Ep fresh unfolding frames.accounted_def h s1 by auto
    show "distinct (map pde_base (ms' # R))" using vm_invD(3) [OF inv] by (simp add: ms')
    show "frame_rc s1 pt = 1" if "pt \<in> set (all_tables (ms' # R))" for pt
      using that vm_invD(4) [OF inv, of pt] rc by (auto simp: set_tf s1)
    show "(E(p := 0)) f \<le> 1" if "f \<in># all_handles (ms' # R)" for f
      using that vm_invD(5) [OF inv, of f] by (auto simp: h)
    have "all_frames (ms' # R) = all_frames (ms # R)" by (simp add: ms')
    then have "placed (ms' # R) = placed (ms # R)" by (simp only: placed_def)
    then show "placed (ms' # R)" using vm_invD(6) [OF inv] by simp
  qed (use ok' okR in auto)
qed


text \<open>The bytes a process sees in a page it owns (none where the page is not present, or is one of
  the kernel's frames below \<open>LOW_MEM\<close>).\<close>

definition view :: "mm \<Rightarrow> MemorySpace \<Rightarrow> LinPageNum \<Rightarrow> (nat \<Rightarrow> u32) option" where
  "view s ms lp =
     (case pte ms lp s of
        None \<Rightarrow> None
      | Some e \<Rightarrow> if is_present e \<and> \<not> PageEntry_ppn e < UNPAGED_PAGES
                   then Some (pmem s (PageEntry_ppn e)) else None)"

lemma view_eq:
  assumes "space_ok s ms"
  shows "view s ms lp = map_option (pmem s) (map_of (data_frames ms) lp)"
proof (cases "map_of (data_frames ms) lp")
  case None
  then have "\<not> maps_frame e p" if "pte ms lp s = Some e" for e p
    using space_okD(3) [OF assms, of lp p] that by auto
  with None show ?thesis by (auto simp: view_def maps_frame_def split: option.splits)
next
  case (Some p)
  then obtain e where "pte ms lp s = Some e" "maps_frame e p"
    using space_okD(3) [OF assms, of lp p] by auto
  with Some show ?thesis by (auto simp: view_def maps_frame_def)
qed

lemma vm_inv_space_ok: "vm_inv s Ws E \<Longrightarrow> ms \<in> set Ws \<Longrightarrow> space_ok s ms"
  by (simp add: vm_inv_def)

definition kept :: "MemorySpace list \<Rightarrow> mm \<Rightarrow> mm \<Rightarrow> bool" where
  "kept Ws s s' \<longleftrightarrow> (\<forall>f \<in> snd ` set (all_frames Ws). pmem s' f = pmem s f)"

lemma kept_view:
  assumes "kept Ws s s'" "ms \<in> set Ws" "space_ok s ms" "space_ok s' ms'"
    "map_of (data_frames ms') lp = map_of (data_frames ms) lp"
  shows "view s' ms' lp = view s ms lp"
proof (cases "map_of (data_frames ms) lp")
  case None
  then show ?thesis using assms(5) by (simp add: view_eq [OF assms(3)] view_eq [OF assms(4)])
next
  case (Some f)
  then have "f \<in> snd ` set (all_frames Ws)"
    using assms(2) by (force simp: all_frames_def dest: map_of_SomeD)
  then show ?thesis
    using assms(1,5) Some by (auto simp: view_eq [OF assms(3)] view_eq [OF assms(4)] kept_def)
qed

lemma data_frame_tracked:
  "vm_inv s Ws E \<Longrightarrow> f \<in> snd ` set (all_frames Ws) \<Longrightarrow> tracked_frame f \<and> f \<noteq> 0"
  using vm_inv_tracked [of s Ws E f] by (auto dest!: data_frame_handle)

lemma kept_refl [simp]: "kept Ws s s"
  by (simp add: kept_def)

lemma kept_alloc:
  assumes "vm_inv s Ws E" "FrameAllocator_alloc s = (Ok (Some p), s')"
  shows "kept Ws s s'"
  using vm_inv_alloc [OF assms] by (auto simp: kept_def dest: data_frame_handle)

section \<open>Ensuring a page table\<close>

lemma ensure_page_table_ok:
  assumes inv: "vm_inv s (ms # R) E" and E0: "\<forall>f. f \<in># all_handles (ms # R) \<longrightarrow> E f = 0"
    and k: "pde_base ms \<le> k" "k < pde_base ms + 16"
    and run: "ensure_page_table k (ms, s) = (r, (ms', s'))"
  shows "vm_inv s' (ms' # R) E" and "data_frames ms' = data_frames ms" and "pde_base ms' = pde_base ms"
    and "kept (ms # R) s s'" and "r = Ok () \<or> r = Err Errno_NOMEM"
    and "r = Ok () \<Longrightarrow> page_tables ms' ! (k - pde_base ms) \<noteq> None"
    and "\<And>ms2 lp. ms2 \<in> set R \<Longrightarrow> pte ms2 lp s' = pte ms2 lp s"
    and "\<And>lp. pte ms' lp s' = pte ms lp s \<or> pte ms lp s = None \<and> pte ms' lp s' = Some 0"
    and "\<And>f. f \<in># all_handles (ms' # R) \<Longrightarrow> E f = 0"
    and "r = Ok () \<Longrightarrow> tlb_stale s' \<longrightarrow> tlb_stale s \<or> page_tables ms ! (k - pde_base ms) = None"
    and "\<And>f. frame_rc s f \<noteq> 0 \<Longrightarrow> frame_rc s' f = frame_rc s f \<and> pmem s' f = pmem s f"
proof -
  let ?i = "k - pde_base ms"
  let ?G = "vm_inv s' (ms' # R) E \<and> data_frames ms' = data_frames ms \<and> pde_base ms' = pde_base ms \<and>
    kept (ms # R) s s' \<and> (r = Ok () \<or> r = Err Errno_NOMEM) \<and>
    (r = Ok () \<longrightarrow> page_tables ms' ! ?i \<noteq> None) \<and>
    (\<forall>ms2 lp. ms2 \<in> set R \<longrightarrow> pte ms2 lp s' = pte ms2 lp s) \<and>
    (\<forall>lp. pte ms' lp s' = pte ms lp s \<or> pte ms lp s = None \<and> pte ms' lp s' = Some 0) \<and>
    (\<forall>f. f \<in># all_handles (ms' # R) \<longrightarrow> E f = 0) \<and>
    (r = Ok () \<longrightarrow> tlb_stale s' \<longrightarrow> tlb_stale s \<or> page_tables ms ! ?i = None) \<and>
    (\<forall>f. frame_rc s f \<noteq> 0 \<longrightarrow> frame_rc s' f = frame_rc s f \<and> pmem s' f = pmem s f)"
  have ok: "space_ok s ms" using inv by (simp add: vm_inv_def)
  note d = space_okD(1,2) [OF ok]
  have i: "?i < 16" "pde_base ms + ?i = k" using k by auto
  have pres: "is_present (read_pde k s) \<longleftrightarrow> page_tables ms ! ?i \<noteq> None"
    using d(2) i by (auto simp: pdes_ok_def split: option.splits)
  have ?G
  proof (cases "page_tables ms ! ?i")
    case (Some pt)
    then have "r = Ok () \<and> ms' = ms \<and> s' = s" using run pres by (simp add: ensure_page_table_def)
    then show ?thesis using inv E0 Some by auto
  next
    case None
    have ok_al: "frame_ok s" by (rule vm_inv_frame_ok [OF inv])
    obtain q s1 where al: "FrameAllocator_alloc s = (Ok q, s1)" using frames.alloc_total [OF ok_al] by blast
    show ?thesis
    proof (cases q)
      case None
      then have "s1 = s" using frames.alloc_none [OF ok_al] al by auto
      then have "r = Err Errno_NOMEM \<and> ms' = ms \<and> s' = s"
        using run pres \<open>page_tables ms ! ?i = None\<close> al None k i(1)
        by (auto simp: ensure_page_table_def PDES_PER_PROCESS_def PageTable_new_def Let_def)
      then show ?thesis using inv E0 by auto
    next
      case (Some p)
      note a = vm_inv_alloc [OF inv al [unfolded Some]]
      define m1 where "m1 = ms\<lparr>page_tables := (page_tables ms)[?i := Some p]\<rparr>"
      define s2 where "s2 = write_pde (pde_base ms + ?i) (PageEntry_new p USER_RW) s1"
      have pt: "PageDirectoryEntry_user_page_table (PageTable_phys_addr p) = PageEntry_new p USER_RW"
        by (simp add: PageTable_phys_addr_def user_page_table_entry)
      have res: "r = Ok () \<and> ms' = m1 \<and> s' = s2"
        using run pres None al Some k i
        by (auto simp: ensure_page_table_def PDES_PER_PROCESS_def PageTable_new_def Let_def
            drop_opt_def lift_mm_def m1_def s2_def pt)
      have zero: "pmem s1 p = (\<lambda>_. 0)" using a by simp
      note at = vm_inv_attach_table [of s1 ms R "E(p := 1)" p, OF a [THEN conjunct1] _ _ _ zero i(1) None
          m1_def s2_def]
      have fr: "(E(p := 1)) p = 1" "p \<notin># all_handles (ms # R)" "tracked_frame p" using a by auto
      have none: "pte ms lp s = None" if "in_space ms lp" "LinPageNum_pde_index lp = pde_base ms + ?i" for lp
        using that None by (auto simp: pte_def find_pte_eq [OF d])
      have p_same: "pte ms2 lp s1 = pte ms2 lp s" if "ms2 \<in> set (ms # R)" for ms2 lp
      proof (rule pte_same)
        show "space_shape ms2" "pdes_ok s ms2"
          using vm_inv_space_ok [OF inv that] by (auto dest: space_okD)
        show "\<forall>pt\<in>set (table_frames ms2). pmem s1 pt = pmem s pt"
          using a table_frames_subset [OF that] by (auto simp: all_handles_def)
      qed (use a in auto)
      have h: "all_handles (m1 # R) = add_mset p (all_handles (ms # R))"
        using mset_map_filter_update [of ?i "page_tables ms" p] None i(1) d(1)
        by (simp add: all_handles_def m1_def table_frames_def space_shape_def)
      have z: "E p = 0" using a by simp
      then have E: "(E(p := 1))(p := 0) = E" by auto
      have kp: "kept (ms # R) s s2"
        using kept_alloc [OF inv al [unfolded Some]] data_frame_tracked [OF inv]
        by (simp add: kept_def s2_def write_pde_def del: all_lists_Cons)
      have rc: "frame_rc s1 = (frame_rc s)(p := 1)" "frame_rc s p = 0"
        using frames.alloc_some [OF ok_al al [unfolded Some]] by auto
      note at' = at [OF fr, unfolded E]
      have m1: "data_frames m1 = data_frames ms" "pde_base m1 = pde_base ms"
        "page_tables m1 ! ?i = Some p"
        using i(1) d(1) by (simp_all add: m1_def space_shape_def)
      have "pte m1 lp s2 = pte ms lp s \<or> pte ms lp s = None \<and> pte m1 lp s2 = Some 0" for lp
        using at'(2) [of lp] none [of lp] p_same [of ms lp] by (auto split: if_splits)
      moreover have "pte ms2 lp s2 = pte ms2 lp s" if "ms2 \<in> set R" for ms2 lp
        using at'(3) [OF that] p_same [of ms2 lp] that by simp
      moreover have "E f = 0" if "f \<in># all_handles (m1 # R)" for f
        using that E0 z by (auto simp: h)
      moreover have "frame_rc s2 f = frame_rc s f \<and> pmem s2 f = pmem s f" if "frame_rc s f \<noteq> 0" for f
      proof -
        have "f \<noteq> 0" using that by (auto simp: frame_rc_def split: if_splits)
        with that rc a have "pmem s2 f = pmem s f" by (auto simp: s2_def write_pde_def)
        with that rc show ?thesis by (auto simp: s2_def)
      qed
      ultimately show ?thesis
        using res at'(1) kp m1 None by simp
    qed
  qed
  then have G: ?G .
  show "vm_inv s' (ms' # R) E" using G by (elim conjE)
  show "data_frames ms' = data_frames ms" using G by (elim conjE)
  show "pde_base ms' = pde_base ms" using G by (elim conjE)
  show "kept (ms # R) s s'" using G by (elim conjE)
  show "r = Ok () \<or> r = Err Errno_NOMEM" using G by (elim conjE)
  show "page_tables ms' ! (k - pde_base ms) \<noteq> None" if "r = Ok ()"
    using G that by (elim conjE) (erule (1) mp)
  show "pte ms2 lp s' = pte ms2 lp s" if "ms2 \<in> set R" for ms2 lp
    using G that by (elim conjE) iprover
  show "pte ms' lp s' = pte ms lp s \<or> pte ms lp s = None \<and> pte ms' lp s' = Some 0" for lp
    using G by (elim conjE) (erule spec)
  show "E f = 0" if "f \<in># all_handles (ms' # R)" for f
    using G that by (elim conjE) iprover
  show "tlb_stale s' \<longrightarrow> tlb_stale s \<or> page_tables ms ! (k - pde_base ms) = None" if "r = Ok ()"
    using G that by (elim conjE) (erule (1) mp)
  show "frame_rc s' f = frame_rc s f \<and> pmem s' f = pmem s f" if "frame_rc s f \<noteq> 0" for f
    using G that by (elim conjE) iprover
qed


section \<open>Installing a page\<close>

lemma tlb_only [simp]:
  "pte ms lp (s\<lparr>tlb_stale := b\<rparr>) = pte ms lp s" "find_pte ms lp (s\<lparr>tlb_stale := b\<rparr>) = find_pte ms lp s"
  "frame_rc (s\<lparr>tlb_stale := b\<rparr>) = frame_rc s" "frame_ok (s\<lparr>tlb_stale := b\<rparr>) = frame_ok s"
  by (simp_all add: pte_def find_pte_def read_pde_def frame_rc_def frame_ok_def fun_eq_iff Let_def)

lemma vm_inv_tlb [simp]: "vm_inv (s\<lparr>tlb_stale := b\<rparr>) Ws E = vm_inv s Ws E"
proof -
  have "space_ok (s\<lparr>tlb_stale := b\<rparr>) ms = space_ok s ms" for ms
    using pdes_ok_cong [of "s\<lparr>tlb_stale := b\<rparr>" ms s] by (simp add: space_ok_def entry_safe_def)
  then show ?thesis by (simp add: vm_inv_def frames.accounted_def)
qed

lemma vm_inv_pages:
  assumes "vm_inv s (ms # R) E" "in_space ms lp"
    "page_tables ms ! (LinPageNum_pde_index lp - pde_base ms) = Some pt"
  shows "find_pte ms lp s = Some (pt, LinPageNum_pte_index lp)"
proof -
  have "space_ok s ms" using assms(1) by (simp add: vm_invD(2))
  from find_pte_eq [OF space_okD(1,2) [OF this]] assms(2,3) show ?thesis by simp
qed

lemma new_entry:
  assumes "tracked_frame p" "frame_rc s p = 1"
  shows "maps_frame (PageEntry_new p USER_RW) p" "entry_safe s (PageEntry_new p USER_RW)"
  using assms by (auto simp: maps_frame_def entry_safe_def)

text \<open>Replacing the frame behind a page: the entry, the handle, the drop of the old handle.\<close>

lemma replace_frame:
  assumes inv: "vm_inv s (ms # R) E" and fp: "find_pte ms lp s = Some (pt, j)"
    and e: "maps_frame e p" "entry_safe s e" and tr: "tracked_frame p" and Ep: "E p = 1"
    and E0: "\<And>f. f \<in># all_handles (ms # R) \<Longrightarrow> f \<noteq> p \<Longrightarrow> E f = 0"
    and old: "map_of (data_frames ms) lp \<noteq> Some p"
    and pl: "\<And>lp'. (lp', p) \<in> set (all_frames (ms # R)) \<Longrightarrow> local_page lp' = local_page lp"
    and run: "insert_frame lp p (ms, store_word pt j e s) = (r, (ms', s'))"
  shows "r = Ok ()" and "ms' = ms\<lparr>data_frames := AList.update lp p (data_frames ms)\<rparr>"
    and "vm_inv s' (ms' # R) (E(p := 0))" and "pmem s' = pmem (store_word pt j e s)"
    and "tlb_stale s'"
proof -
  let ?s1 = "store_word pt j e s"
  let ?ms = "ms\<lparr>data_frames := AList.update lp p (data_frames ms)\<rparr>"
  have at: "vm_inv ?s1 (?ms # R) (detach_old ms lp (E(p := 0)))"
    by (rule vm_inv_attach_page [OF inv fp e tr Ep E0 pl refl])
  have "r = Ok () \<and> ms' = ?ms \<and> vm_inv s' (?ms # R) (E(p := 0)) \<and> pmem s' = pmem ?s1 \<and> tlb_stale s'"
  proof (cases "map_of (data_frames ms) lp")
    case None
    with run at show ?thesis
      by (auto simp: insert_frame_def lift_mm_def drop_opt_def detach_old_def)
  next
    case (Some q)
    then have q: "q \<in># all_handles (ms # R)" "q \<noteq> p"
      using old by (auto dest!: map_of_SomeD intro!: data_frame_handle)
    have Eq: "detach_old ms lp (E(p := 0)) = (E(p := 0))(q := 1)"
      using E0 [OF q] q(2) Some by (simp add: detach_old_def)
    have trq: "tracked_frame q" by (rule vm_inv_tracked [OF inv q(1)])
    from vm_inv_drop [OF at [unfolded Eq] trq] obtain s2 where
      s2: "PhysFrame_drop q ?s1 = (Ok (), s2)" "vm_inv s2 (?ms # R) ((E(p := 0))(q := 0))"
        "pmem s2 = pmem ?s1" "tlb_stale s2 = tlb_stale ?s1" by auto
    have "(E(p := 0))(q := 0) = E(p := 0)" using E0 [OF q] q(2) by auto
    with run s2 Some show ?thesis
      by (simp add: insert_frame_def lift_mm_def drop_opt_def)
  qed
  then show "r = Ok ()" "ms' = ?ms" "vm_inv s' (ms' # R) (E(p := 0))" "pmem s' = pmem ?s1" "tlb_stale s'"
    by auto
qed

lemma install_page_ok:
  assumes inv: "vm_inv s (ms # R) E" and fp: "find_pte ms lp s = Some (pt, j)"
    and tr: "tracked_frame p" and Ep: "E p = 1" and fresh: "p \<notin># all_handles (ms # R)"
    and E0: "\<And>f. f \<in># all_handles (ms # R) \<Longrightarrow> E f = 0"
    and run: "install_page lp p (ms, s) = (r, (ms', s'))"
  shows "r = Ok ()" and "ms' = ms\<lparr>data_frames := AList.update lp p (data_frames ms)\<rparr>"
    and "vm_inv s' (ms' # R) (E(p := 0))" and "pmem s' = (pmem s)(pt := (pmem s pt)(j := PageEntry_new p USER_RW))"
    and "\<not> tlb_stale s'"
proof -
  let ?e = "PageEntry_new p USER_RW"
  have rc: "frame_rc s p = 1" using vm_inv_rc [OF inv tr] Ep fresh by (simp add: not_in_iff)
  note e = new_entry [OF tr rc]
  obtain r1 m1 s1 where ins: "insert_frame lp p (ms, store_word pt j ?e s) = (r1, (m1, s1))"
    by (metis surj_pair)
  have old: "map_of (data_frames ms) lp \<noteq> Some p"
    using fresh by (auto dest!: map_of_SomeD intro!: data_frame_handle)
  have pl: "(lp', p) \<in> set (all_frames (ms # R)) \<Longrightarrow> local_page lp' = local_page lp" for lp'
    using fresh data_frame_handle by blast
  note rf = replace_frame [OF inv fp e tr Ep E0 old pl ins]
  have res: "r = Ok () \<and> ms' = m1 \<and> s' = s1\<lparr>tlb_stale := False\<rparr>"
    using run fp rf(1) ins by (auto simp: install_page_def set_pte_def flush_vm_def invalidate_tlb_def)
  then show "r = Ok ()" "ms' = ms\<lparr>data_frames := AList.update lp p (data_frames ms)\<rparr>" "\<not> tlb_stale s'"
    "vm_inv s' (ms' # R) (E(p := 0))" "pmem s' = (pmem s)(pt := (pmem s pt)(j := ?e))"
    using rf by (simp_all add: store_word_def)
qed


section \<open>Demand mapping\<close>

text \<open>The invariant between operations: no space's frame is also held elsewhere.\<close>

definition vm_ok :: "mm \<Rightarrow> MemorySpace list \<Rightarrow> (PhysPageNum \<Rightarrow> nat) \<Rightarrow> bool" where
  "vm_ok s Ws E \<longleftrightarrow> vm_inv s Ws E \<and> (\<forall>f. f \<in># all_handles Ws \<longrightarrow> E f = 0)"

text \<open>A frame passed by value is a handle of the caller's; it must be nobody else's.\<close>

definition arg_ok :: "PhysPageNum option \<Rightarrow> MemorySpace list \<Rightarrow> (PhysPageNum \<Rightarrow> nat) \<Rightarrow> bool" where
  "arg_ok frame Ws E \<longleftrightarrow>
     (\<forall>p. frame = Some p \<longrightarrow> tracked_frame p \<and> p \<notin># all_handles Ws \<and> E p = 0)"

definition held :: "(PhysPageNum \<Rightarrow> nat) \<Rightarrow> PhysPageNum option \<Rightarrow> PhysPageNum \<Rightarrow> nat" where
  "held E frame = (case frame of None \<Rightarrow> E | Some p \<Rightarrow> E(p := 1))"

lemma kept_trans: "kept Ws s s1 \<Longrightarrow> kept Ws s1 s2 \<Longrightarrow> kept Ws s s2"
  by (simp add: kept_def)

lemma kept_views:
  assumes "vm_inv s (ms # R) E" "vm_inv s' (ms' # R) E'" "kept (ms # R) s s'"
  shows "ms2 \<in> set R \<Longrightarrow> view s' ms2 lp = view s ms2 lp"
    and "map_of (data_frames ms') lp = map_of (data_frames ms) lp \<Longrightarrow> view s' ms' lp = view s ms lp"
  by (rule kept_view [OF assms(3)]; simp add: vm_invD(2) [OF assms(1)] vm_invD(2) [OF assms(2)])+

lemma install_kept:
  assumes "vm_inv s (ms # R) E" "find_pte ms lp s = Some (pt, j)"
    "pmem s' = (pmem s)(pt := (pmem s pt)(j := e))"
  shows "kept (ms # R) s s'"
proof -
  have "space_ok s ms" using assms(1) by (simp add: vm_invD(2))
  then have "pt \<in> set (all_tables (ms # R))"
    using find_pte_SomeD(5) [OF space_okD(1,2) assms(2)] by auto
  then have "pt \<notin> snd ` set (all_frames (ms # R))" by (rule table_count(2) [OF assms(1)])
  then show ?thesis using assms(3) by (auto simp: kept_def simp del: all_lists_Cons)
qed

lemma vm_inv_fail_dropping:
  assumes "vm_ok s Ws (held E frame)" "arg_ok frame Ws E" "Ws = ms # R"
  shows "\<exists>s'. fail_dropping frame e (ms, s) = (Err e, (ms, s')) \<and> vm_ok s' Ws E \<and> pmem s' = pmem s"
proof (cases frame)
  case None
  then show ?thesis
    using assms by (simp add: fail_dropping_def bind_op_def lift_mm_def drop_opt_def held_def)
next
  case (Some p)
  then have p: "tracked_frame p" "p \<notin># all_handles Ws" "E p = 0" using assms(2) by (auto simp: arg_ok_def)
  have inv: "vm_inv s Ws (E(p := 1))" using assms(1) Some by (simp add: vm_ok_def held_def)
  have "(E(p := 1))(p := 0) = E" using p(3) by auto
  with vm_inv_drop [OF inv p(1)] obtain s' where
    "PhysFrame_drop p s = (Ok (), s')" "vm_inv s' Ws E" "pmem s' = pmem s" by auto
  moreover have "\<forall>f. f \<in># all_handles Ws \<longrightarrow> E f = 0"
    using assms(1) p(3) Some by (auto simp: vm_ok_def held_def split: if_splits)
  ultimately show ?thesis
    using Some by (simp add: fail_dropping_def bind_op_def lift_mm_def drop_opt_def vm_ok_def)
qed

text \<open>Installing a frame the operation holds, seen from every process.\<close>

lemma install_effect:
  assumes inv: "vm_inv s (ms # R) (E(p := 1))" and in_s: "in_space ms lp"
    and tab: "page_tables ms ! (LinPageNum_pde_index lp - pde_base ms) \<noteq> None"
    and p: "tracked_frame p" "p \<notin># all_handles (ms # R)" "E p = 0"
    and E0: "\<forall>f. f \<in># all_handles (ms # R) \<longrightarrow> E f = 0"
    and run: "install_page lp p (ms, s) = (r, (ms', s'))"
  shows "r = Ok ()" "vm_ok s' (ms' # R) E" "pte ms' lp s' = Some (PageEntry_new p USER_RW)"
    "view s' ms' lp = Some (pmem s p)" "\<not> tlb_stale s'"
    "\<And>lp'. lp' \<noteq> lp \<Longrightarrow> view s' ms' lp' = view s ms lp'"
    "\<And>ms2 lp'. ms2 \<in> set R \<Longrightarrow> view s' ms2 lp' = view s ms2 lp'"
    "pde_base ms' = pde_base ms" "kept (ms # R) s s'" "pmem s' p = pmem s p"
    "\<And>f. f < UNPAGED_PAGES \<Longrightarrow> pmem s' f = pmem s f"
    "map_of (data_frames ms') = (map_of (data_frames ms))(lp \<mapsto> p)"
    "\<And>lp'. lp' \<noteq> lp \<Longrightarrow> pte ms' lp' s' = pte ms lp' s"
proof -
  obtain pt where pt: "page_tables ms ! (LinPageNum_pde_index lp - pde_base ms) = Some pt"
    using tab by auto
  note fp = vm_inv_pages [OF inv in_s pt]
  have E1: "(E(p := 1)) p = 1" by simp
  have E0': "f \<in># all_handles (ms # R) \<Longrightarrow> (E(p := 1)) f = 0" for f using E0 p(2) by auto
  note ins = install_page_ok [OF inv fp p(1) E1 p(2) E0' run]
  have Eq: "(E(p := 1))(p := 0) = E" using p(3) by auto
  show "r = Ok ()" by (rule ins(1))
  have inv': "vm_inv s' (ms' # R) E" using ins(3) by (simp only: Eq)
  have "f \<in># all_handles (ms' # R) \<Longrightarrow> f \<in># all_handles (ms # R) \<or> f = p" for f
    using handles_update_subset [of f lp p ms R] by (simp only: ins(2))
  then show "vm_ok s' (ms' # R) E" using inv' E0 p(3) by (auto simp: vm_ok_def)
  have ok: "space_ok s ms" using inv by (simp add: vm_invD(2))
  note f = find_pte_SomeD [OF space_okD(1,2) [OF ok] fp]
  have "p \<noteq> pt" using p(2) f(5) by (auto simp: all_handles_def)
  then show pp: "pmem s' p = pmem s p" by (simp add: ins(4))
  show kp: "kept (ms # R) s s'" by (rule install_kept [OF inv fp ins(4)])
  show mp: "map_of (data_frames ms') = (map_of (data_frames ms))(lp \<mapsto> p)"
    by (simp add: ins(2) update_conv')
  have ok': "space_ok s' ms'" using inv' by (simp add: vm_invD(2))
  show "view s' ms' lp = Some (pmem s p)" using pp by (simp add: view_eq [OF ok'] mp)
  have "pmem s' pt (LinPageNum_pte_index lp) = PageEntry_new p USER_RW" by (simp add: ins(4))
  moreover have "find_pte ms' lp s' = Some (pt, LinPageNum_pte_index lp)"
    by (rule vm_inv_pages [OF inv']) (use in_s pt in \<open>simp_all add: ins(2)\<close>)
  ultimately show "pte ms' lp s' = Some (PageEntry_new p USER_RW)" by (simp add: pte_def)
  show "view s' ms' lp' = view s ms lp'" if "lp' \<noteq> lp" for lp'
    by (rule kept_views(2) [OF inv inv' kp]) (simp add: mp that)
  show "view s' ms2 lp' = view s ms2 lp'" if "ms2 \<in> set R" for ms2 lp'
    by (rule kept_views(1) [OF inv inv' kp that])
  show "pde_base ms' = pde_base ms" "\<not> tlb_stale s'" using ins by simp_all
  show "pmem s' q = pmem s q" if "q < UNPAGED_PAGES" for q
    using f(4) that by (auto simp: ins(4))
  show "pte ms' lp' s' = pte ms lp' s" if "lp' \<noteq> lp" for lp'
  proof -
    have "pmem s' = pmem (store_word pt (LinPageNum_pte_index lp) (PageEntry_new p USER_RW) s)"
      by (simp add: ins(4) store_word_def)
    from pte_cong [OF this, of ms lp'] pte_store(1) [OF inv fp refl] that show ?thesis by (simp add: ins(2))
  qed
qed


lemma alloc_cases:
  assumes "vm_ok s Ws E"
  obtains (none) "FrameAllocator_alloc s = (Ok None, s)"
  | (some) p s1 where "FrameAllocator_alloc s = (Ok (Some p), s1)" "vm_inv s1 Ws (E(p := 1))"
      "tracked_frame p" "p \<notin># all_handles Ws" "E p = 0" "pmem s1 = (pmem s)(p := (\<lambda>_. 0))"
      "kept Ws s s1" "\<And>ms lp. ms \<in> set Ws \<Longrightarrow> pte ms lp s1 = pte ms lp s"
proof -
  have inv: "vm_inv s Ws E" using assms by (simp add: vm_ok_def)
  have ok: "frame_ok s" by (rule vm_inv_frame_ok [OF inv])
  then obtain q s1 where al: "FrameAllocator_alloc s = (Ok q, s1)" using frames.alloc_total by blast
  show ?thesis
  proof (cases q)
    case None
    with al frames.alloc_none [OF ok] show ?thesis by (intro none) auto
  next
    case (Some p)
    note a = vm_inv_alloc [OF inv al [unfolded Some]]
    have "pte ms lp s1 = pte ms lp s" if ms: "ms \<in> set Ws" for ms lp
    proof (rule pte_same)
      show "space_shape ms" "pdes_ok s ms" using vm_invD(2) [OF inv ms] by (auto dest: space_okD)
      show "\<forall>pt\<in>set (table_frames ms). pmem s1 pt = pmem s pt"
        using a table_frames_subset [OF ms] by (auto simp: all_handles_def)
    qed (use a in auto)
    with a kept_alloc [OF inv al [unfolded Some]] al Some
    show ?thesis by (intro some [of p s1]) auto
  qed
qed

definition map_page_post ::
  "vm \<Rightarrow> MemorySpace list \<Rightarrow> (PhysPageNum \<Rightarrow> nat) \<Rightarrow> LinPageNum \<Rightarrow> (nat \<Rightarrow> u32) \<Rightarrow> unit outcome \<Rightarrow> vm \<Rightarrow> bool"
where
  "map_page_post v R E lp content r v' \<longleftrightarrow>
     (case v of (ms, s) \<Rightarrow> case v' of (ms', s') \<Rightarrow>
       vm_ok s' (ms' # R) E \<and> (r = Ok () \<longrightarrow> page_is_present ms' lp s') \<and>
       (\<forall>lp'. lp' \<noteq> lp \<or> page_is_present ms lp s \<or> r \<noteq> Ok () \<longrightarrow> view s' ms' lp' = view s ms lp') \<and>
       (\<forall>ms2\<in>set R. \<forall>lp'. view s' ms2 lp' = view s ms2 lp') \<and>
       (r = Ok () \<longrightarrow> \<not> page_is_present ms lp s \<longrightarrow> view s' ms' lp = Some content))"

lemma map_page_post_trans:
  assumes "\<forall>lp'. view s1 m1 lp' = view s ms lp'" "\<forall>ms2\<in>set R. \<forall>lp'. view s1 ms2 lp' = view s ms2 lp'"
    "page_is_present m1 lp s1 = page_is_present ms lp s"
    "map_page_post (m1, s1) R E lp content r v'"
  shows "map_page_post (ms, s) R E lp content r v'"
  using assms by (cases v') (simp add: map_page_post_def)

lemma map_page_post_same:
  assumes "vm_ok s' (ms # R) E" "vm_inv s (ms # R) E'" "pmem s' = pmem s"
    "r = Ok () \<Longrightarrow> page_is_present ms lp s"
  shows "map_page_post (ms, s) R E lp content r (ms, s')"
proof -
  have inv: "vm_inv s' (ms # R) E" using assms(1) by (simp add: vm_ok_def)
  have kp: "kept (ms # R) s s'" using assms(3) by (simp add: kept_def)
  note v = kept_views [OF assms(2) inv kp]
  have "pte ms lp s' = pte ms lp s" by (simp add: pte_def find_pte_def read_pde_def assms(3) Let_def)
  then have "page_is_present ms lp s' = page_is_present ms lp s" by (simp add: page_is_present_def)
  with v assms(1,4) show ?thesis unfolding map_page_post_def by simp
qed

lemma map_page_post_install:
  assumes inv: "vm_inv s (ms # R) (E(p := 1))" and in_s: "in_space ms lp"
    and tab: "page_tables ms ! (LinPageNum_pde_index lp - pde_base ms) \<noteq> None"
    and p: "tracked_frame p" "p \<notin># all_handles (ms # R)" "E p = 0"
    and E0: "\<forall>f. f \<in># all_handles (ms # R) \<longrightarrow> E f = 0"
    and np: "\<not> page_is_present ms lp s"
    and run: "install_page lp p (ms, s) = (r, v')"
  shows "r = Ok ()" "map_page_post (ms, s) R E lp (pmem s p) r v'"
proof -
  obtain ms' s' where v': "v' = (ms', s')" by (cases v')
  note i = install_effect [OF inv in_s tab p E0 run [unfolded v']]
  show "r = Ok ()" by (rule i(1))
  have "page_is_present ms' lp s'" using i(3) by (simp add: page_is_present_def)
  then show "map_page_post (ms, s) R E lp (pmem s p) r v'"
    using i(1,2,4,6,7) np unfolding map_page_post_def v' by simp
qed

lemma map_page_effect:
  assumes ok: "vm_ok s (ms # R) (held E frame)" and arg: "arg_ok frame (ms # R) E"
    and in_s: "in_space ms lp" and run: "map_page lp frame (ms, s) = (r, v')"
  shows "map_page_post (ms, s) R E lp (case frame of None \<Rightarrow> (\<lambda>_. 0) | Some p \<Rightarrow> pmem s p) r v'"
    and "r = Ok () \<or> r = Err Errno_NOMEM \<or> r = Err Errno_EXIST \<and> frame \<noteq> None \<and> page_is_present ms lp s"
proof -
  let ?H = "held E frame"
  let ?k = "LinPageNum_pde_index lp"
  let ?P = "page_is_present ms lp s"
  let ?c = "case frame of None \<Rightarrow> (\<lambda>_. 0) | Some p \<Rightarrow> pmem s p"
  have inv: "vm_inv s (ms # R) ?H" and E0: "\<forall>f. f \<in># all_handles (ms # R) \<longrightarrow> ?H f = 0"
    using ok by (auto simp: vm_ok_def)
  obtain r1 m1 s1 where et: "ensure_page_table ?k (ms, s) = (r1, (m1, s1))" by (metis surj_pair)
  have k: "pde_base ms \<le> ?k" "?k < pde_base ms + 16" using in_s by (auto simp: in_space_def)
  note e = ensure_page_table_ok [OF inv E0 k et]
  have ok1: "vm_ok s1 (m1 # R) ?H" using e(1,9) by (simp add: vm_ok_def)
  have in1: "in_space m1 lp" using in_s e(3) by (simp add: in_space_def)
  have P1: "page_is_present m1 lp s1 = ?P"
    using e(8) [of lp] by (auto simp: page_is_present_def split: option.splits)
  note v1 = kept_views [OF inv e(1) e(4)]
  have w1: "view s1 m1 lp' = view s ms lp'" for lp' using v1(2) e(2) by simp
  have lift: "map_page_post (ms, s) R E lp c r v'" if "map_page_post (m1, s1) R E lp c r v'" for c
    by (rule map_page_post_trans [OF _ _ P1 that]) (use w1 v1(1) in auto)
  have arg1: "arg_ok frame (m1 # R) E"
    using arg e(9) [of "the frame"] by (auto simp: arg_ok_def held_def)
  have tab: "page_tables m1 ! (?k - pde_base m1) \<noteq> None" if "r1 = Ok ()" using e(3) e(6) [OF that] by simp
  have "E f = 0" if f: "f \<in># all_handles (m1 # R)" for f
    using e(9) [OF f] arg1 f by (cases frame) (auto simp: held_def arg_ok_def split: if_splits)
  then have E1: "\<forall>f. f \<in># all_handles (m1 # R) \<longrightarrow> E f = 0" by blast
  have fail: "map_page_post (ms, s) R E lp ?c r v' \<and> r = Err x" if "fail_dropping frame x (m1, s1) = (r, v')" for x
  proof -
    have "\<exists>s'. (fail_dropping frame x (m1, s1) :: unit outcome \<times> vm) = (Err x, (m1, s')) \<and>
        vm_ok s' (m1 # R) E \<and> pmem s' = pmem s1"
      by (rule vm_inv_fail_dropping [OF ok1 arg1 refl])
    with that obtain s' where
      "r = Err x" "v' = (m1, s')" "vm_ok s' (m1 # R) E" "pmem s' = pmem s1" by auto
    then have "map_page_post (m1, s1) R E lp ?c r v'"
      using map_page_post_same [OF _ e(1), of s' E r lp ?c] by simp
    from lift [OF this] \<open>r = Err x\<close> show ?thesis by simp
  qed
  have "map_page_post (ms, s) R E lp ?c r v' \<and>
    (r = Ok () \<or> r = Err Errno_NOMEM \<or> r = Err Errno_EXIST \<and> frame \<noteq> None \<and> ?P)"
  proof (cases "r1 = Ok ()")
    case False
    then have "fail_dropping frame Errno_NOMEM (m1, s1) = (r, v')"
      using run et e(5) by (auto simp: map_page_def)
    from fail [OF this] show ?thesis by blast
  next
    case True
    note tab = tab [OF True]
    show ?thesis
    proof (cases frame)
      case (Some p)
      then have p: "tracked_frame p" "p \<notin># all_handles (m1 # R)" "E p = 0"
        using arg1 by (auto simp: arg_ok_def)
      show ?thesis
      proof (cases ?P)
        case True
        then have "fail_dropping frame Errno_EXIST (m1, s1) = (r, v')"
          using run et \<open>r1 = Ok ()\<close> Some P1 by (simp add: map_page_def)
        from fail [OF this] True Some show ?thesis by blast
      next
        case False
        then have run': "install_page lp p (m1, s1) = (r, v')"
          using run et \<open>r1 = Ok ()\<close> Some P1 by (simp add: map_page_def)
        have "?H = E(p := 1)" using Some by (simp add: held_def)
        then have inv1: "vm_inv s1 (m1 # R) (E(p := 1))" using e(1) by (simp only:)
        have "\<not> page_is_present m1 lp s1" using False P1 by simp
        note i = map_page_post_install [OF inv1 in1 tab p E1 this run']
        have np: "p \<notin># all_handles (ms # R)" using arg Some by (auto simp: arg_ok_def)
        have "frame_rc s p = 1"
          using vm_inv_rc [OF inv p(1)] np Some by (simp add: held_def not_in_iff)
        then have "pmem s1 p = pmem s p" using e(11) [of p] by simp
        with lift [OF i(2)] i(1) Some show ?thesis by simp
      qed
    next
      case None
      show ?thesis
      proof (cases ?P)
        case True
        then have "r = Ok () \<and> v' = (m1, s1)"
          using run et \<open>r1 = Ok ()\<close> None P1 by (simp add: map_page_def)
        moreover have "vm_ok s1 (m1 # R) E" using ok1 None by (simp add: held_def)
        ultimately have "map_page_post (m1, s1) R E lp ?c r v'" "r = Ok ()"
          using map_page_post_same [OF _ e(1), of s1 E r lp ?c] True P1 by simp_all
        with lift show ?thesis by simp
      next
        case False
        have ok1': "vm_ok s1 (m1 # R) E" using ok1 None by (simp add: held_def)
        then show ?thesis
        proof (cases rule: alloc_cases)
          case none
          then have "r = Err Errno_NOMEM \<and> v' = (m1, s1)"
            using run et \<open>r1 = Ok ()\<close> None P1 False by (simp add: map_page_def lift_mm_def bind_op_def)
          then have "map_page_post (m1, s1) R E lp ?c r v'" "r = Err Errno_NOMEM"
            using map_page_post_same [OF ok1' e(1), of r lp ?c] by simp_all
          with lift show ?thesis by simp
        next
          case (some p s2)
          then have run': "install_page lp p (m1, s2) = (r, v')"
            using run et \<open>r1 = Ok ()\<close> None P1 False by (simp add: map_page_def lift_mm_def bind_op_def)
          have "page_is_present m1 lp s2 = page_is_present m1 lp s1"
            using some(8) by (simp add: page_is_present_def)
          then have "\<not> page_is_present m1 lp s2" using False P1 by simp
          note i = map_page_post_install [OF some(2) in1 tab some(3-5) E1 this run']
          have inv1: "vm_inv s1 (m1 # R) E" using ok1' by (simp add: vm_ok_def)
          note v2 = kept_views [OF inv1 some(2) some(7)]
          have "map_page_post (m1, s1) R E lp (pmem s2 p) r v'"
            by (rule map_page_post_trans [OF _ _ _ i(2)])
              (use v2 some(8) in \<open>simp_all add: page_is_present_def\<close>)
          from lift [OF this] i(1) None some(6) show ?thesis by simp
        qed
      qed
    qed
  qed
  then show "map_page_post (ms, s) R E lp ?c r v'"
    "r = Ok () \<or> r = Err Errno_NOMEM \<or> r = Err Errno_EXIST \<and> frame \<noteq> None \<and> ?P" by auto
qed


section \<open>The copy-on-write fault\<close>

lemma vm_inv_copy_frame:
  assumes inv: "vm_inv s Ws E" and f: "f \<in> snd ` set (all_frames Ws)"
  shows "vm_inv (copy_frame src f s) Ws E"
    and "ms \<in> set Ws \<Longrightarrow> pte ms lp (copy_frame src f s) = pte ms lp s"
proof -
  let ?s' = "copy_frame src f s"
  have rc: "frame_rc ?s' = frame_rc s" "frame_ok ?s' = frame_ok s"
    by (simp_all add: copy_frame_def frame_rc_def frame_ok_def fun_eq_iff)
  have nt: "f \<notin> set (all_tables Ws)" using table_count(2) [OF inv] f by blast
  have nz: "f \<noteq> 0" using data_frame_tracked [OF inv f] by blast
  have pde: "\<forall>i<16. pmem ?s' 0 (pde_base ms + i) = pmem s 0 (pde_base ms + i)" for ms
    using nz by (simp add: copy_frame_def)
  have tab: "\<forall>pt\<in>set (table_frames ms). pmem ?s' pt = pmem s pt" if "ms \<in> set Ws" for ms
    using nt table_frames_subset [OF that] by (auto simp: copy_frame_def)
  show "pte ms lp ?s' = pte ms lp s" if "ms \<in> set Ws"
    using pte_same(3) [OF space_okD(1,2) [OF vm_invD(2) [OF inv that]] pde tab [OF that]] .
  have "space_ok ?s' ms" if "ms \<in> set Ws" for ms
    by (rule space_ok_same [OF vm_invD(2) [OF inv that] pde tab [OF that]]) (simp add: rc)
  then show "vm_inv ?s' Ws E"
    using vm_invD(1,3,4,5,6) [OF inv] accounted_cong [OF rc(2,1)] by (intro vm_invI) (simp_all add: rc)
qed

lemma LOW_MEM_ppn:
  assumes "unat p < 2 ^ 20"
  shows "LOW_MEM \<le> PhysPageNum_addr p \<longleftrightarrow> \<not> p < UNPAGED_PAGES"
proof -
  have "unat (PhysPageNum_addr p) = unat p * 4096"
    using assms by (simp add: PhysPageNum_addr_def PAGE_SHIFT_def push_bit_eq_mult unat_word_ariths)
  then show ?thesis
    by (auto simp: LOW_MEM_def UNPAGED_PAGES_def word_le_nat_alt word_less_nat_alt)
qed

lemma LOW_MEM_phys_addr: "LOW_MEM \<le> PageEntry_phys_addr e \<longleftrightarrow> \<not> PageEntry_ppn e < UNPAGED_PAGES"
  by (simp only: phys_addr_eq LOW_MEM_ppn ppn_bound)

lemma make_writable_entry:
  assumes "is_present e"
  defines "e' \<equiv> PageEntry_new (PageEntry_ppn e) (PageEntry_flags e OR WRITABLE)"
  shows "is_present e'" "is_writable e'" "PageEntry_ppn e' = PageEntry_ppn e"
proof -
  have "bit (PageEntry_flags e OR WRITABLE) 0"
    using assms(1) by (simp add: is_present_bit PageEntry_flags_def flag_bits bit_or_iff bit_and_iff bit_mask_iff)
  then show "is_present e'" by (simp add: e'_def)
  have "bit (PageEntry_flags e OR WRITABLE) 1" by (simp add: flag_bits bit_or_iff bit_exp_iff)
  then show "is_writable e'" by (simp add: e'_def)
  have "take_bit 12 (PageEntry_flags e OR WRITABLE) = PageEntry_flags e OR WRITABLE"
    unfolding PageEntry_flags_def flag_bits by (rule bit_eqI) (auto simp: bit_simps)
  then have "unat (PageEntry_flags e OR WRITABLE) < 2 ^ 12"
    by (metis unat_take_bit mod_less_divisor zero_less_numeral zero_less_power)
  then show "PageEntry_ppn e' = PageEntry_ppn e" unfolding e'_def by (intro ppn_new ppn_bound)
qed

lemma present_frame:
  assumes "vm_inv s Ws E" "ms \<in> set Ws" "pte ms lp s = Some e" "is_present e"
    "\<not> PageEntry_ppn e < UNPAGED_PAGES"
  shows "map_of (data_frames ms) lp = Some (PageEntry_ppn e)"
    "PageEntry_ppn e \<in> snd ` set (all_frames Ws)" "tracked_frame (PageEntry_ppn e)"
proof -
  note ok = vm_invD(2) [OF assms(1,2)]
  show m: "map_of (data_frames ms) lp = Some (PageEntry_ppn e)"
    using space_okD(3) [OF ok] assms(3-5) by (auto simp: maps_frame_def)
  then show d: "PageEntry_ppn e \<in> snd ` set (all_frames Ws)"
    using assms(2) by (force simp: all_frames_def dest: map_of_SomeD)
  show "tracked_frame (PageEntry_ppn e)" using data_frame_tracked [OF assms(1) d] by simp
qed


text \<open>What a resolved write fault leaves: the page is writable, with the same bytes, and no other
  page of any process changes.\<close>

definition cow_post ::
  "vm \<Rightarrow> MemorySpace list \<Rightarrow> (PhysPageNum \<Rightarrow> nat) \<Rightarrow> LinPageNum \<Rightarrow> u32 \<Rightarrow> vm \<Rightarrow> bool" where
  "cow_post v R E lp e v' \<longleftrightarrow>
     (case v of (ms, s) \<Rightarrow> case v' of (ms', s') \<Rightarrow>
       vm_ok s' (ms' # R) E \<and>
       (\<exists>e'. pte ms' lp s' = Some e' \<and> is_present e' \<and> is_writable e') \<and>
       (\<forall>lp'. lp' \<noteq> lp \<longrightarrow> view s' ms' lp' = view s ms lp' \<and> pte ms' lp' s' = pte ms lp' s) \<and>
       (\<forall>ms2\<in>set R. \<forall>lp'. view s' ms2 lp' = view s ms2 lp') \<and>
       view s' ms' lp = Some (pmem s (PageEntry_ppn e)) \<and> \<not> tlb_stale s')"

lemma cow_unique:
  assumes ok: "vm_ok s (ms # R) E" and fp: "find_pte ms lp s = Some (pt, j)" "pmem s pt j = e"
    and pr: "is_present e" "\<not> PageEntry_ppn e < UNPAGED_PAGES"
    and rc: "frame_rc s (PageEntry_ppn e) = 1"
    and s': "s' = (store_word pt j (PageEntry_new (PageEntry_ppn e) (PageEntry_flags e OR WRITABLE)) s)
      \<lparr>tlb_stale := False\<rparr>"
  shows "cow_post (ms, s) R E lp e (ms, s')"
proof -
  let ?e = "PageEntry_new (PageEntry_ppn e) (PageEntry_flags e OR WRITABLE)"
  let ?s1 = "store_word pt j ?e s"
  note w = make_writable_entry [OF pr(1)]
  have inv: "vm_inv s (ms # R) E" using ok by (simp add: vm_ok_def)
  have pe: "pte ms lp s = Some e" using fp by (simp add: pte_def)
  note pf = present_frame [OF inv _ pe pr]
  have inv1: "vm_inv ?s1 (ms # R) E"
    by (rule vm_inv_set_entry [OF inv fp(1)])
      (use pf w pr rc in \<open>auto simp: maps_frame_def entry_safe_def\<close>)
  then have ok': "vm_ok s' (ms # R) E" using ok by (simp add: vm_ok_def s')
  have inv': "vm_inv s' (ms # R) E" using inv1 by (simp add: s')
  have kp: "kept (ms # R) s s'" by (rule install_kept [OF inv fp(1)]) (simp add: s' store_word_def)
  note v = kept_views [OF inv inv' kp]
  have "pte ms lp s' = Some ?e" using pte_store(1) [OF inv fp(1) refl] by (simp add: s')
  moreover have "view s ms lp = Some (pmem s (PageEntry_ppn e))" using pe pr by (simp add: view_def)
  moreover have "pte ms lp' s' = pte ms lp' s" if "lp' \<noteq> lp" for lp'
    using pte_store(1) [OF inv fp(1) refl] that by (simp add: s')
  ultimately show ?thesis
    using ok' v w by (simp add: cow_post_def s')
qed

lemma cow_replace:
  assumes ok: "vm_ok s (ms # R) E" and pe: "pte ms lp s = Some e" and pr: "is_present e"
    and al: "FrameAllocator_alloc s = (Ok (Some p), s1)"
    and ins: "install_page lp p (ms, s1) = (r, (ms', s2))"
  shows "r = Ok ()" "cow_post (ms, s) R E lp e (ms', copy_frame (PageEntry_ppn e) p s2)"
proof -
  let ?old = "PageEntry_ppn e"
  let ?s' = "copy_frame ?old p s2"
  have inv: "vm_inv s (ms # R) E" and E0: "\<forall>f. f \<in># all_handles (ms # R) \<longrightarrow> E f = 0"
    using ok by (auto simp: vm_ok_def)
  have sok: "space_ok s ms" using inv by (simp add: vm_invD(2))
  obtain pt j where fp: "find_pte ms lp s = Some (pt, j)" using pte_SomeD [OF pe] by auto
  note f = find_pte_SomeD [OF space_okD(1,2) [OF sok] fp]
  have tab: "page_tables ms ! (LinPageNum_pde_index lp - pde_base ms) \<noteq> None" using f(3) by simp
  have a: "vm_inv s1 (ms # R) (E(p := 1))" "tracked_frame p" "p \<notin># all_handles (ms # R)" "E p = 0"
    "pmem s1 = (pmem s)(p := (\<lambda>_. 0))"
    using vm_inv_alloc [OF inv al] by auto
  note i = install_effect [OF a(1) f(1) tab a(2-4) E0 ins]
  show "r = Ok ()" by (rule i(1))
  have inv2: "vm_inv s2 (ms' # R) E" using i(2) by (simp add: vm_ok_def)
  have sok2: "space_ok s2 ms'" using inv2 by (simp add: vm_invD(2))
  have pp: "map_of (data_frames ms') lp = Some p"
    using space_okD(3) [OF sok2] i(3) a(2) by (auto simp: maps_frame_def)
  then have pd: "p \<in> snd ` set (all_frames (ms' # R))" by (force dest: map_of_SomeD)
  note c = vm_inv_copy_frame [OF inv2 pd, where src = ?old]
  have old: "?old \<noteq> p \<and> pmem s2 ?old = pmem s ?old"
  proof (cases "?old < UNPAGED_PAGES")
    case True
    then show ?thesis using i(11) a(2,5) by auto
  next
    case False
    note pf = present_frame [OF inv list.set_intros(1) pe pr False]
    have "?old \<noteq> p" using data_frame_handle' [OF pf(2)] a(3) by auto
    moreover have "pmem s2 ?old = pmem s1 ?old" using i(9) pf(2) unfolding kept_def by blast
    ultimately show ?thesis using a(5) by simp
  qed
  have "kept (ms # R) s1 s2" by (rule i(9))
  then have kp: "kept (ms # R) s ?s'"
    using a(3,5) unfolding kept_def copy_frame_def by (auto dest: data_frame_handle simp del: all_lists_Cons)
  note v = kept_views [OF inv c(1) kp]
  have ok': "vm_ok ?s' (ms' # R) E" using c(1) i(2) by (simp add: vm_ok_def)
  have sok': "space_ok ?s' ms'" using c(1) by (simp add: vm_invD(2))
  have lpv: "view ?s' ms' lp = Some (pmem s ?old)"
    unfolding view_eq [OF sok'] using pp old by (simp add: copy_frame_def)
  have other: "view ?s' ms' lp' = view s ms lp'" if "lp' \<noteq> lp" for lp'
  proof -
    have "map_of (data_frames ms') lp' = map_of (data_frames ms) lp'" using i(12) that by simp
    then show ?thesis by (rule v(2))
  qed
  have "pte ms' lp ?s' = Some (PageEntry_new p USER_RW)" using c(2) i(3) by simp
  moreover have "pte ms' lp' ?s' = pte ms lp' s" if "lp' \<noteq> lp" for lp'
  proof -
    have "pte ms lp' s1 = pte ms lp' s"
    proof (rule pte_same(3) [OF space_okD(1,2) [OF sok]])
      show "\<forall>pt\<in>set (table_frames ms). pmem s1 pt = pmem s pt" using a(3,5) by (auto simp: all_handles_def)
    qed (use a(2,5) in auto)
    with c(2) [of ms' lp'] i(13) [OF that] show ?thesis by simp
  qed
  ultimately show "cow_post (ms, s) R E lp e (ms', ?s')"
    using ok' lpv other v(1) i(5) by (simp add: cow_post_def) (simp add: copy_frame_def)
qed

lemma ensure_page_writable_effect:
  assumes ok: "vm_ok s (ms # R) E" and pe: "pte ms lp s = Some e" and pr: "is_present e"
    and run: "ensure_page_writable lp (ms, s) = (r, v')"
  shows "r = Ok () \<and> cow_post (ms, s) R E lp e v' \<or> r = Err Errno_NOMEM \<and> v' = (ms, s)"
proof -
  let ?old = "PageEntry_ppn e"
  have inv: "vm_inv s (ms # R) E" using ok by (simp add: vm_ok_def)
  obtain pt j where fp: "find_pte ms lp s = Some (pt, j)" "pmem s pt j = e" using pte_SomeD [OF pe] by auto
  note f = find_pte_SomeD [OF space_okD(1,2) [OF vm_invD(2) [OF inv, of ms]] fp(1)]
  define rep where "rep = bind_op (lift_mm FrameAllocator_alloc)
    (\<lambda>f. case f of
       None \<Rightarrow> (\<lambda>v1. (Err Errno_NOMEM, v1))
     | Some new_ppn \<Rightarrow> bind_op (install_page lp new_ppn)
         (\<lambda>_ v1. (Ok (), (fst v1, copy_frame ?old new_ppn (snd v1)))))"
  have rep: "r = Ok () \<and> cow_post (ms, s) R E lp e v' \<or> r = Err Errno_NOMEM \<and> v' = (ms, s)"
    if r: "rep (ms, s) = (r, v')"
    using ok
  proof (cases rule: alloc_cases)
    case none
    then show ?thesis using r by (simp add: rep_def bind_op_def lift_mm_def)
  next
    case (some p s1)
    obtain r2 m2 s2 where ins: "install_page lp p (ms, s1) = (r2, (m2, s2))" by (metis surj_pair)
    note c = cow_replace [OF ok pe pr some(1) ins]
    have "r = Ok () \<and> v' = (m2, copy_frame ?old p s2)"
      using r some(1) ins c(1) by (simp add: rep_def bind_op_def lift_mm_def)
    with c(2) show ?thesis by simp
  qed
  show ?thesis
  proof (cases "\<not> ?old < UNPAGED_PAGES \<and> frame_rc s ?old = 1")
    case True
    then have tr: "tracked_frame ?old" using present_frame(3) [OF inv _ pe pr] by simp
    note rc = ref_count_tracked [OF vm_inv_frame_ok [OF inv] tr]
    have "mem_map s ! (unat ?old - 512) = 1" using True rc(2) by (metis unat_1 word_unat_eq_iff)
    then have "r = Ok () \<and> v' = (ms, (store_word pt j
        (PageEntry_new ?old (PageEntry_flags e OR WRITABLE)) s)\<lparr>tlb_stale := False\<rparr>)"
      using run pe True rc(1) fp(1)
      by (auto simp: ensure_page_writable_def LOW_MEM_phys_addr lift_mm_def bind_op_def set_pte_def
          flush_vm_def invalidate_tlb_def Let_def)
    with cow_unique [OF ok fp pr] True show ?thesis by auto
  next
    case False
    have "rep (ms, s) = (r, v')"
    proof (cases "?old < UNPAGED_PAGES")
      case True
      with run pe show ?thesis
        by (simp add: ensure_page_writable_def LOW_MEM_phys_addr Let_def rep_def)
    next
      case nl: False
      then have tr: "tracked_frame ?old" using present_frame(3) [OF inv _ pe pr] by simp
      note rc = ref_count_tracked [OF vm_inv_frame_ok [OF inv] tr]
      have "mem_map s ! (unat ?old - 512) \<noteq> 1" using False nl rc(2) by auto
      with nl run pe rc(1) show ?thesis
        by (simp add: ensure_page_writable_def LOW_MEM_phys_addr Let_def rep_def lift_mm_def
            bind_op_def [of "\<lambda>v. case v of (ms, s) \<Rightarrow> case FrameAllocator_ref_count ?old s of (r, s') \<Rightarrow> (r, ms, s')"])
    qed
    then show ?thesis by (rule rep)
  qed
qed

end
