(* ===== verification/Mm_Fork.thy ===== *)
theory Mm_Fork
  imports Mm_Cow
begin

text \<open>
  Sharing a frame between two address spaces (\<open>try_share_local_page_from\<close>, \<open>cow_copy\<close>) and the
  release of an address space, over the invariant of \<open>Mm_Invariant\<close>.
\<close>

section \<open>Reference counts do not overflow\<close>

lemma count_one_page:
  "distinct (map fst xs) \<Longrightarrow> (\<And>a b. (a, f) \<in> set xs \<Longrightarrow> (b, f) \<in> set xs \<Longrightarrow> a = b) \<Longrightarrow>
     count (mset (map snd xs)) f \<le> 1"
proof (induction xs)
  case Nil
  then show ?case by simp
next
  case (Cons x xs)
  obtain a g where x: "x = (a, g)" by (cases x)
  show ?case
  proof (cases "g = f")
    case True
    have "f \<notin> snd ` set xs"
    proof
      assume "f \<in> snd ` set xs"
      then obtain b where b: "(b, f) \<in> set xs" by auto
      then have "a = b" using Cons.prems(2) [of a b] x True by simp
      with b Cons.prems(1) x show False by force
    qed
    then have "count (mset (map snd xs)) f = 0" by (simp add: count_eq_zero_iff)
    with x True show ?thesis by simp
  next
    case False
    with Cons x show ?thesis by simp
  qed
qed

lemma local_page_inj:
  assumes "16 dvd pde_base ms" "in_space ms a" "in_space ms b" "local_page a = local_page b"
  shows "a = b"
proof -
  obtain m where m: "pde_base ms = 16 * m" using assms(1) by (auto elim!: dvdE)
  let ?a = "LinPageNum_pde_index a" and ?b = "LinPageNum_pde_index b"
  obtain x y where "?a = 16 * m + x" "x < 16" "?b = 16 * m + y" "y < 16"
    using assms(2,3) m by (auto simp: in_space_def le_iff_add)
  moreover have "?a mod 16 = ?b mod 16" using assms(4) by (simp add: local_page_def)
  ultimately have "?a = ?b" by simp
  with assms(4) show ?thesis by (simp add: page_eq_iff local_page_def)
qed

lemma space_count:
  assumes "space_ok s ms" "placed Ws" "ms \<in> set Ws"
  shows "count (mset (map snd (data_frames ms))) f \<le> 1"
proof (rule count_one_page)
  show "distinct (map fst (data_frames ms))" using assms(1) by (simp add: space_ok_def space_shape_def)
  fix a b
  assume ab: "(a, f) \<in> set (data_frames ms)" "(b, f) \<in> set (data_frames ms)"
  then have "(a, f) \<in> set (all_frames Ws)" "(b, f) \<in> set (all_frames Ws)"
    using assms(3) by (auto simp: all_frames_def)
  then have "local_page a = local_page b" using assms(2) unfolding placed_def by blast
  then show "a = b"
    using data_frame_in_space [OF assms(1)] ab assms(1)
    by (intro local_page_inj) (auto simp: space_ok_def space_shape_def)
qed

lemma count_concat_le:
  "(\<And>x. x \<in> set xs \<Longrightarrow> count (mset (g x)) f \<le> 1) \<Longrightarrow> count (mset (concat (map g xs))) f \<le> length xs"
proof (induction xs)
  case Nil
  then show ?case by simp
next
  case (Cons x xs)
  then have "count (mset (g x)) f \<le> 1" "count (mset (concat (map g xs))) f \<le> length xs" by auto
  then show ?case by simp
qed

lemma number_of_spaces: "vm_inv s Ws E \<Longrightarrow> length Ws \<le> 63"
proof -
  assume inv: "vm_inv s Ws E"
  have "pde_base ms \<in> (\<lambda>k. 16 * k) ` {1..<64}" if ms: "ms \<in> set Ws" for ms
  proof -
    have "16 dvd pde_base ms" "16 \<le> pde_base ms" "pde_base ms < 1024"
      using vm_invD(2) [OF inv ms] by (simp_all add: space_ok_def space_shape_def)
    then show ?thesis by (auto elim!: dvdE)
  qed
  then have "set (map pde_base Ws) \<subseteq> (\<lambda>k. 16 * k) ` {1..<64}" by auto
  then have "card (set (map pde_base Ws)) \<le> card ((\<lambda>k. 16 * k) ` {1..<64 :: nat})"
    by (rule card_mono [rotated]) simp
  also have "\<dots> \<le> card {1..<64 :: nat}" by (rule card_image_le) simp
  finally show ?thesis using distinct_card [OF vm_invD(3) [OF inv]] by simp
qed

lemma data_frame_rc:
  assumes inv: "vm_inv s Ws E" and f: "f \<in> snd ` set (all_frames Ws)"
  shows "frame_rc s f < 255"
proof -
  have h: "f \<in># all_handles Ws" by (rule data_frame_handle' [OF f])
  have "f \<notin> set (all_tables Ws)" using table_count(2) [OF inv] f by blast
  then have "count (mset (all_tables Ws)) f = 0" by (simp add: count_eq_zero_iff)
  moreover have "count (mset (map snd (all_frames Ws))) f \<le> length Ws"
  proof -
    have "map snd (all_frames Ws) = concat (map (\<lambda>ms. map snd (data_frames ms)) Ws)"
      by (simp add: all_frames_def map_concat o_def)
    moreover have "count (mset (concat (map (\<lambda>ms. map snd (data_frames ms)) Ws))) f \<le> length Ws"
      by (rule count_concat_le) (rule space_count [OF vm_invD(2) [OF inv] vm_invD(6) [OF inv]])
    ultimately show ?thesis by simp
  qed
  moreover have "E f \<le> 1" by (rule vm_invD(5) [OF inv h])
  moreover note vm_inv_rc [OF inv vm_inv_tracked [OF inv h], unfolded all_handles_def count_union]
    number_of_spaces [OF inv]
  ultimately show ?thesis by linarith
qed

section \<open>Sharing one page\<close>

lemma shared_not_writable:
  assumes inv: "vm_inv s Ws E" and S: "S \<in> set Ws" and m: "map_of (data_frames S) lp = Some f"
    and pe: "pte S lp s = Some e" "\<not> is_writable e"
    and x: "ms \<in> set Ws" "pte ms lp' s = Some e'" "is_present e'" "is_writable e'"
  shows "PageEntry_ppn e' \<noteq> f"
proof
  assume eq: "PageEntry_ppn e' = f"
  note w = writable_rc [OF inv x, unfolded eq]
  have lp: "(lp, f) \<in> set (all_frames Ws)" using m S by (auto simp: all_frames_def dest: map_of_SomeD)
  have "lp \<noteq> lp'"
  proof
    assume l: "lp = lp'"
    have "in_space S lp" "in_space ms lp"
      using find_pte_SomeD(1) [OF space_okD(1,2) [OF vm_invD(2) [OF inv]]] S x(1,2) pe(1) l
      by (auto dest!: pte_SomeD)
    then have "pde_base S = pde_base ms"
      using vm_invD(2) [OF inv] S x(1) by (intro in_space_unique) (auto simp: space_ok_def space_shape_def)
    then have "S = ms" using vm_invD(3) [OF inv] S x(1) by (auto simp: distinct_map inj_on_def)
    with pe x l show False by simp
  qed
  have "distinct (map fst (all_frames Ws))"
    by (rule distinct_pages [of Ws s]) (use vm_invD(2,3) [OF inv] in auto)
  from two_pages_count [OF this lp w(2) \<open>lp \<noteq> lp'\<close>]
  have "2 \<le> count (all_handles Ws) f" unfolding all_handles_def count_union by linarith
  moreover have "tracked_frame f" by (rule vm_inv_tracked [OF inv data_frame_handle [OF lp]])
  ultimately show False using vm_inv_rc [OF inv, of f] w(1) by linarith
qed

lemma store_word_commute:
  "f \<noteq> g \<Longrightarrow> store_word f i a (store_word g j b s) = store_word g j b (store_word f i a s)"
  by (simp add: store_word_def fun_upd_twist)

lemma share_store_word:
  "FrameAllocator_share p (store_word f j e s) =
     (case FrameAllocator_share p s of (r, s') \<Rightarrow> (r, store_word f j e s'))"
  by (simp add: FrameAllocator_share_def store_word_def Let_def)


text \<open>
  The heart of both sharing paths.  \<open>S\<close> maps \<open>lps\<close> to a frame; the target \<open>T\<close> has a table slot but no
  page at \<open>lpt\<close>.  Writing the protected entry to both slots, taking one more reference and
  recording it in \<open>T\<close> keeps the invariant.
\<close>

lemma share_page:
  assumes ok: "vm_ok s (T # S # R) E"
    and fs: "find_pte S lps s = Some (spt, sj)" and pe: "pmem s spt sj = e"
    and pr: "is_present e" "\<not> PageEntry_ppn e < UNPAGED_PAGES"
    and ft: "find_pte T lpt s = Some (pt, j)" and none: "map_of (data_frames T) lpt = None"
    and lcl: "local_page lpt = local_page lps"
  defines "e' \<equiv> without_writable e" and "f \<equiv> PageEntry_ppn e"
    and "T' \<equiv> T\<lparr>data_frames := AList.update lpt (PageEntry_ppn e) (data_frames T)\<rparr>"
  shows "\<exists>s'. FrameAllocator_share f (store_word spt sj e' (store_word pt j e' s)) = (Ok f, s') \<and>
    insert_frame lpt f (T, s') = (Ok (), (T', s')) \<and> vm_ok s' (T' # S # R) E \<and>
    kept (T # S # R) s s' \<and> pt \<noteq> spt \<and>
    (\<forall>lp. pte T' lp s' = (if lp = lpt then Some e' else pte T lp s)) \<and>
    (\<forall>lp. pte S lp s' = (if lp = lps then Some e' else pte S lp s))"
proof -
  have inv: "vm_inv s (T # S # R) E" and E0: "\<forall>f. f \<in># all_handles (T # S # R) \<longrightarrow> E f = 0"
    using ok by (auto simp: vm_ok_def)
  have invS: "vm_inv s (S # T # R) E" by (rule vm_inv_perm [OF inv]) simp
  have sS: "space_ok s S" and sT: "space_ok s T" using vm_invD(2) [OF inv] by auto
  note fS = find_pte_SomeD [OF space_okD(1,2) [OF sS] fs]
  note fT = find_pte_SomeD [OF space_okD(1,2) [OF sT] ft]
  have ptes: "pte S lps s = Some e" using fs pe by (simp add: pte_def)
  note pf = present_frame [OF invS list.set_intros(1) ptes pr]
  have ne: "pt \<noteq> spt" using distinct_tables [OF inv] fS(5) fT(5) by auto
  have e': "maps_frame e' q \<longleftrightarrow> q = f" "\<not> is_writable e'" for q
    using pr by (auto simp: e'_def f_def maps_frame_def)
  let ?s1 = "store_word spt sj e' s"
  have inv1S: "vm_inv ?s1 (S # T # R) E"
    by (rule vm_inv_set_entry [OF invS fs]) (use pf(1) e' in \<open>auto simp: entry_safe_def f_def\<close>)
  have inv1: "vm_inv ?s1 (T # S # R) E" by (rule vm_inv_perm [OF inv1S]) simp
  have fr: "f \<in> snd ` set (all_frames (T # S # R))" using pf(2) by (auto simp: f_def)
  have fh: "f \<in># all_handles (T # S # R)" by (rule data_frame_handle' [OF fr])
  have Ef: "E f = 0" using E0 fh by blast
  have ptS1: "pte S lps ?s1 = Some e'" using pte_store(1) [OF invS fs refl] by simp
  have mS: "map_of (data_frames S) lps = Some f" using pf(1) by (simp add: f_def)
  have "\<exists>s2. FrameAllocator_share f ?s1 = (Ok f, s2) \<and> vm_inv s2 (T # S # R) (E(f := 1)) \<and>
      pmem s2 = pmem ?s1 \<and> tlb_stale s2 = tlb_stale ?s1 \<and>
      frame_rc s2 = (frame_rc ?s1)(f := frame_rc ?s1 f + 1)"
  proof (rule vm_inv_share [OF inv1 fr Ef data_frame_rc [OF inv1 fr]])
    fix ms lp x
    assume "ms \<in> set (T # S # R)" "pte ms lp ?s1 = Some x" "is_present x" "is_writable x"
    then show "PageEntry_ppn x \<noteq> f"
      using shared_not_writable [OF inv1 _ mS ptS1 e'(2)] by simp
  qed
  then obtain s2 where s2: "FrameAllocator_share f ?s1 = (Ok f, s2)"
    "vm_inv s2 (T # S # R) (E(f := 1))" "pmem s2 = pmem ?s1" "tlb_stale s2" by auto
  have "spt \<noteq> 0" using fS(4) by auto
  then have "pmem s2 0 = pmem s 0" by (simp add: s2(3) store_word_def)
  from find_pte_cong [OF this] have ft2: "find_pte T lpt s2 = Some (pt, j)" using ft by simp
  let ?s' = "store_word pt j e' s2"
  have "vm_inv ?s' (T' # S # R) (detach_old T lpt ((E(f := 1))(f := 0)))"
  proof (rule vm_inv_attach_page [OF s2(2) ft2])
    show "maps_frame e' f" "entry_safe s2 e'" using e' by (auto simp: entry_safe_def)
    show "tracked_frame f" using pf(3) by (simp add: f_def)
    show "local_page lp' = local_page lpt" if "(lp', f) \<in> set (all_frames (T # S # R))" for lp'
    proof -
      have "(lps, f) \<in> set (all_frames (T # S # R))" using mS by (auto dest: map_of_SomeD)
      with that vm_invD(6) [OF inv] show ?thesis unfolding placed_def lcl by blast
    qed
  qed (use E0 in \<open>auto simp: T'_def f_def\<close>)
  moreover have "detach_old T lpt ((E(f := 1))(f := 0)) = E" using none Ef by (auto simp: detach_old_def)
  ultimately have inv': "vm_inv ?s' (T' # S # R) E" by simp
  have "E g = 0" if "g \<in># all_handles (T' # S # R)" for g
    using handles_update_subset that E0 Ef unfolding T'_def f_def by blast
  then have ok': "vm_ok ?s' (T' # S # R) E" using inv' by (simp add: vm_ok_def)
  have "FrameAllocator_share f (store_word spt sj e' (store_word pt j e' s)) = (Ok f, ?s')"
    using s2(1) ne by (simp add: store_word_commute [of spt pt] share_store_word)
  moreover have "insert_frame lpt f (T, ?s') = (Ok (), (T', ?s'))"
    using none by (simp add: insert_frame_def lift_mm_def drop_opt_def T'_def f_def)
  moreover have pm: "pmem ?s' = pmem (store_word spt sj e' (store_word pt j e' s))"
    using s2(3) ne by (simp add: store_word_def fun_upd_twist)
  moreover have "kept (T # S # R) s ?s'"
  proof -
    have "pt \<notin> snd ` set (all_frames (T # S # R))" "spt \<notin> snd ` set (all_frames (T # S # R))"
      using table_count(2) [OF inv] fS(5) fT(5) by auto
    then show ?thesis unfolding kept_def pm by (auto simp: store_word_def simp del: all_lists_Cons)
  qed
  moreover have "pte T' lp ?s' = (if lp = lpt then Some e' else pte T lp s)" for lp
    using pte_store(1) [OF s2(2) ft2 refl, of lp] pte_store(5) [OF invS fs refl, of T lp]
      pte_cong [OF s2(3), of T lp] by (simp add: T'_def)
  moreover have "pte S lp ?s' = (if lp = lps then Some e' else pte S lp s)" for lp
    using pte_store(5) [OF s2(2) ft2 refl, of S lp] pte_store(1) [OF invS fs refl, of lp]
      pte_cong [OF s2(3), of S lp] by simp
  ultimately show ?thesis using ok' ne by auto
qed


lemma view_tlb [simp]: "view (s\<lparr>tlb_stale := b\<rparr>) ms lp = view s ms lp"
  by (simp add: view_def split: option.splits)

lemma absent_no_frame:
  assumes "space_ok s ms" "\<not> page_is_present ms lp s"
  shows "map_of (data_frames ms) lp = None"
proof (cases "map_of (data_frames ms) lp")
  case (Some p)
  then obtain e where "pte ms lp s = Some e" "is_present e"
    using space_okD(3) [OF assms(1), of lp p] by (auto simp: maps_frame_def)
  with assms(2) show ?thesis by (simp add: page_is_present_def)
qed

section \<open>Releasing an address space\<close>

lemma clear_pdes_pmem:
  "mem_map (clear_pdes ms s) = mem_map s" "q \<noteq> 0 \<Longrightarrow> pmem (clear_pdes ms s) q = pmem s q"
  "pmem (clear_pdes ms s) 0 k =
     (if \<exists>i<16. k = pde_base ms + i \<and> page_tables ms ! i \<noteq> None then 0 else pmem s 0 k)"
proof -
  define body where "body = (\<lambda>i s'. if page_tables ms ! i \<noteq> None
    then write_pde (pde_base ms + i) PageDirectoryEntry_empty s' else s')"
  have b: "mem_map (body i t) = mem_map t" "q \<noteq> 0 \<Longrightarrow> pmem (body i t) q = pmem t q"
    "pmem (body i t) 0 k = (if k = pde_base ms + i \<and> page_tables ms ! i \<noteq> None then 0 else pmem t 0 k)"
    for i t q k
    by (auto simp: body_def write_pde_def PageDirectoryEntry_empty_def)
  define D where "D = (\<lambda>n k. \<exists>i<n. k = pde_base ms + i \<and> page_tables ms ! i \<noteq> None)"
  have D: "D (Suc n) k \<longleftrightarrow> k = pde_base ms + n \<and> page_tables ms ! n \<noteq> None \<or> D n k" for n k
    unfolding D_def using less_Suc_eq by blast
  have "mem_map (fold body [0..<n] s) = mem_map s \<and>
      (\<forall>q. q \<noteq> 0 \<longrightarrow> pmem (fold body [0..<n] s) q = pmem s q) \<and>
      (\<forall>k. pmem (fold body [0..<n] s) 0 k = (if D n k then 0 else pmem s 0 k))" for n
  proof (induction n)
    case 0
    then show ?case by (simp add: D_def)
  next
    case (Suc n)
    then show ?case by (auto simp: b D)
  qed
  from this [of 16]
  show "mem_map (clear_pdes ms s) = mem_map s" "q \<noteq> 0 \<Longrightarrow> pmem (clear_pdes ms s) q = pmem s q"
    "pmem (clear_pdes ms s) 0 k =
     (if \<exists>i<16. k = pde_base ms + i \<and> page_tables ms ! i \<noteq> None then 0 else pmem s 0 k)"
    by (simp_all add: clear_pdes_def body_def D_def PDES_PER_PROCESS_def)
qed

lemma release_space:
  assumes ok: "vm_ok s (ms # R) E"
    and pm: "\<And>q. q \<noteq> 0 \<Longrightarrow> pmem s1 q = pmem s q" and mm: "mem_map s1 = mem_map s"
    and pd: "\<And>k. \<not> (pde_base ms \<le> k \<and> k < pde_base ms + 16) \<Longrightarrow> pmem s1 0 k = pmem s 0 k"
  shows "\<exists>s'. drop_fields ms s1 = (Ok (), s') \<and> vm_ok s' R E \<and> pmem s' = pmem s1 \<and>
    (\<forall>ms2\<in>set R. \<forall>lp. view s' ms2 lp = view s ms2 lp)"
proof -
  let ?fs = "table_frames ms @ map snd (data_frames ms)"
  have inv: "vm_inv s (ms # R) E" and E0: "\<forall>f. f \<in># all_handles (ms # R) \<longrightarrow> E f = 0"
    using ok by (auto simp: vm_ok_def)
  have rc1: "frame_rc s1 = frame_rc s" "frame_ok s1 = frame_ok s"
    using mm by (simp_all add: frame_rc_def frame_ok_def fun_eq_iff)
  have h: "all_handles (ms # R) = mset ?fs + all_handles R" by (simp add: all_handles_def)
  have "frames.accounted s1 (mset ?fs + all_handles R) E"
    using vm_invD(1) [OF inv] unfolding h accounted_cong [OF rc1(2,1)] .
  from frames.accounted_release_all [OF this] obtain s' where
    s': "for_op PhysFrame_drop ?fs s1 = (Ok (), s')" "frames.accounted s' (all_handles R) E" by blast
  note m = drop_all_pmem [OF s'(1)]
  have rc: "frame_rc s' f = 1" if "f \<in># all_handles R" "frame_rc s f = 1" for f
  proof -
    have tr: "tracked_frame f" using vm_inv_tracked [OF inv, of f] that(1) by (simp add: h)
    have "frame_rc s f = count (mset ?fs) f + count (all_handles R) f + E f"
      using vm_inv_rc [OF inv tr] by (simp only: h count_union)
    moreover have "frame_rc s' f = count (all_handles R) f + E f"
      using s'(2) tr by (simp add: frames.accounted_def)
    moreover have "0 < count (all_handles R) f" using that(1) by (simp only: count_greater_zero_iff)
    ultimately show ?thesis using that(2) by linarith
  qed
  have okms: "space_ok s ms" by (rule vm_invD(2) [OF inv]) simp
  have dist: "distinct (map pde_base (ms # R))" by (rule vm_invD(3) [OF inv])
  have pdes: "\<forall>i<16. pmem s' 0 (pde_base ms2 + i) = pmem s 0 (pde_base ms2 + i)" if r: "ms2 \<in> set R" for ms2
  proof (intro allI impI)
    fix i :: nat assume i: "i < 16"
    have "pde_base ms2 \<noteq> pde_base ms" using imageI [OF r, of pde_base] dist by auto
    then have "pde_base ms2 + i \<noteq> pde_base ms + j" if "j < 16" for j
      using other_base [OF space_okD(1) space_okD(1) [OF okms] _ i that] vm_invD(2) [OF inv, of ms2] r by auto
    from this [of "pde_base ms2 + i - pde_base ms"]
    have "\<not> (pde_base ms \<le> pde_base ms2 + i \<and> pde_base ms2 + i < pde_base ms + 16)" by linarith
    then show "pmem s' 0 (pde_base ms2 + i) = pmem s 0 (pde_base ms2 + i)" using m pd by simp
  qed
  have ok2: "space_ok s' ms2" if r: "ms2 \<in> set R" for ms2
  proof (rule space_ok_same [OF _ pdes [OF r]])
    show "space_ok s ms2" by (rule vm_invD(2) [OF inv]) (simp add: r)
    show "\<forall>pt\<in>set (table_frames ms2). pmem s' pt = pmem s pt"
      using table_not_zero [OF inv] table_frames_subset [OF r] m pm by auto
    fix lp e
    assume pe: "pte ms2 lp s = Some e" and pr: "is_present e" "is_writable e"
    have okr: "space_ok s ms2" by (rule vm_invD(2) [OF inv]) (simp add: r)
    have safe: "entry_safe s e" by (rule space_okD(4) [OF okr pe])
    then have "map_of (data_frames ms2) lp = Some (PageEntry_ppn e)"
      using space_okD(3) [OF okr] pe pr by (auto simp: maps_frame_def entry_safe_def)
    then have "PageEntry_ppn e \<in># all_handles R"
      using r by (intro data_frame_handle) (auto simp: all_frames_def dest: map_of_SomeD)
    with safe pr rc show "frame_rc s' (PageEntry_ppn e) = frame_rc s (PageEntry_ppn e)"
      by (auto simp: entry_safe_def)
  qed
  have inv': "vm_inv s' R E"
  proof (rule vm_invI [OF s'(2) ok2])
    show "frame_rc s' pt = 1" if "pt \<in> set (all_tables R)" for pt
      using that vm_invD(4) [OF inv, of pt] by (intro rc) (auto simp: all_handles_def)
    show "placed R" using vm_invD(6) [OF inv] unfolding placed_def all_lists_Cons set_append by blast
  qed (use dist E0 in \<open>auto simp: h\<close>)
  have "view s' ms2 lp = view s ms2 lp" if r: "ms2 \<in> set R" for ms2 lp
  proof (rule kept_view [of "ms # R"])
    show "kept (ms # R) s s'"
      using data_frame_tracked [OF inv] m pm unfolding kept_def by auto
  qed (use r ok2 vm_invD(2) [OF inv, of ms2] in auto)
  with inv' E0 s'(1) m show ?thesis by (auto simp: vm_ok_def h drop_fields_def)
qed

lemma MemorySpace_drop_effect:
  assumes ok: "vm_ok s (ms # R) E"
  shows "\<exists>s'. MemorySpace_drop ms s = (Ok (), s') \<and> vm_ok s' R E \<and>
    (\<forall>i<16. \<not> is_present (read_pde (pde_base ms + i) s')) \<and>
    (\<forall>ms2\<in>set R. \<forall>lp. view s' ms2 lp = view s ms2 lp) \<and> (tlb_stale s' \<longrightarrow> tlb_stale s)"
proof -
  have okms: "space_ok s ms" using ok by (auto simp: vm_ok_def vm_inv_def)
  have sh: "16 \<le> pde_base ms" "length (page_tables ms) = 16"
    using space_okD(1) [OF okms] by (auto simp: space_shape_def)
  have none: "\<not> is_present (read_pde (pde_base ms + i) s)" if "i < 16" "page_tables ms ! i = None" for i
    using space_okD(2) [OF okms] that by (force simp: pdes_ok_def)
  show ?thesis
  proof (cases "list_ex (\<lambda>pt. pt \<noteq> None) (page_tables ms)")
    case False
    have "page_tables ms ! i = None" if "i < 16" for i
      using False that sh(2) by (auto simp: list_ex_iff)
    moreover from release_space [OF ok refl refl refl] obtain s' where
      "drop_fields ms s = (Ok (), s')" "vm_ok s' R E" "pmem s' = pmem s"
      "\<forall>ms2\<in>set R. \<forall>lp. view s' ms2 lp = view s ms2 lp" by auto
    moreover have "tlb_stale s' = tlb_stale s"
      using drop_all_pmem [of _ s] \<open>drop_fields ms s = (Ok (), s')\<close> by (auto simp: drop_fields_def)
    ultimately show ?thesis using none False by (simp add: MemorySpace_drop_def read_pde_def)
  next
    case True
    let ?s1 = "invalidate_tlb (clear_pdes ms s)"
    have s1: "pmem ?s1 = pmem (clear_pdes ms s)" "mem_map ?s1 = mem_map s" "\<not> tlb_stale ?s1"
      by (simp_all add: invalidate_tlb_def clear_pdes_pmem)
    have "\<exists>s'. drop_fields ms ?s1 = (Ok (), s') \<and> vm_ok s' R E \<and> pmem s' = pmem ?s1 \<and>
        (\<forall>ms2\<in>set R. \<forall>lp. view s' ms2 lp = view s ms2 lp)"
      by (rule release_space [OF ok]) (use s1 clear_pdes_pmem in auto)
    then obtain s' where s': "drop_fields ms ?s1 = (Ok (), s')" "vm_ok s' R E" "pmem s' = pmem ?s1"
      "\<forall>ms2\<in>set R. \<forall>lp. view s' ms2 lp = view s ms2 lp" by blast
    have "tlb_stale s' = tlb_stale ?s1"
      using drop_all_pmem s'(1) unfolding drop_fields_def by blast
    moreover have "\<not> is_present (read_pde (pde_base ms + i) s')" if "i < 16" for i
      using none [OF that] that
      by (auto simp: read_pde_def s'(3) s1(1) clear_pdes_pmem(3) is_present_bit)
    ultimately show ?thesis using s' s1 True sh(1) by (auto simp: MemorySpace_drop_def)
  qed
qed

section \<open>Sharing a page of another process\<close>

text \<open>What \<open>try_share_local_page_from\<close> promises: the target sees the source's bytes, no process sees
  anything else change, and on every path the invariant holds.\<close>

definition share_post ::
  "vm \<Rightarrow> MemorySpace \<Rightarrow> MemorySpace list \<Rightarrow> (PhysPageNum \<Rightarrow> nat) \<Rightarrow> LinPageNum \<Rightarrow> LinPageNum \<Rightarrow>
   bool outcome \<Rightarrow> vm \<Rightarrow> bool" where
  "share_post v S R E lpt lps r v' \<longleftrightarrow>
     (case v of (T, s) \<Rightarrow> case v' of (T', s') \<Rightarrow>
       vm_ok s' (T' # S # R) E \<and>
       (\<forall>ms2\<in>set (S # R). \<forall>lp. view s' ms2 lp = view s ms2 lp) \<and>
       (\<forall>lp. lp \<noteq> lpt \<longrightarrow> view s' T' lp = view s T lp) \<and>
       (r = Ok True \<and> view s' T' lpt = view s S lps \<and> view s S lps \<noteq> None \<and> \<not> tlb_stale s' \<or>
        r = Ok False \<and> view s' T' lpt = view s T lpt \<or>
        r = Err Errno_NOMEM \<and> v' = v))"

lemma vm_okD:
  assumes "vm_ok s Ws E"
  shows "vm_inv s Ws E" "\<forall>f. f \<in># all_handles Ws \<longrightarrow> E f = 0" "ms \<in> set Ws \<Longrightarrow> space_ok s ms"
  using assms by (auto simp: vm_ok_def vm_inv_def)

lemma ensure_page_table_effect:
  assumes ok: "vm_ok s (ms # R) E" and k: "pde_base ms \<le> k" "k < pde_base ms + 16"
    and run: "ensure_page_table k (ms, s) = (r, (ms', s'))"
  shows "vm_ok s' (ms' # R) E" "\<And>ms2 lp. ms2 \<in> set R \<Longrightarrow> view s' ms2 lp = view s ms2 lp"
    "\<And>lp. view s' ms' lp = view s ms lp" "r = Ok () \<or> r = Err Errno_NOMEM \<and> (ms', s') = (ms, s)"
proof -
  note e = ensure_page_table_ok [OF vm_okD(1,2) [OF ok] k run]
  show "vm_ok s' (ms' # R) E" using e(1,9) by (simp add: vm_ok_def)
  note kv = kept_views [OF vm_okD(1) [OF ok] e(1,4)]
  show "view s' ms2 lp = view s ms2 lp" if "ms2 \<in> set R" for ms2 lp by (rule kv(1) [OF that])
  show "view s' ms' lp = view s ms lp" for lp by (rule kv(2)) (simp add: e(2))
  show "r = Ok () \<or> r = Err Errno_NOMEM \<and> (ms', s') = (ms, s)"
  proof (cases "is_present (read_pde k s) \<or> \<not> (\<exists>p s1. FrameAllocator_alloc s = (Ok (Some p), s1))")
    case True
    have "frame_ok s" by (rule vm_inv_frame_ok [OF vm_okD(1) [OF ok]])
    then obtain q s1 where al: "FrameAllocator_alloc s = (Ok q, s1)" using frames.alloc_total by blast
    then show ?thesis
      using True run k frames.alloc_none [OF \<open>frame_ok s\<close>]
      by (cases q) (auto simp: ensure_page_table_def PDES_PER_PROCESS_def PageTable_new_def Let_def
          split: if_splits)
  next
    case False
    then obtain p s1 where "FrameAllocator_alloc s = (Ok (Some p), s1)" by blast
    moreover have "page_tables ms ! (k - pde_base ms) = None"
    proof (rule ccontr)
      assume "\<not> ?thesis"
      moreover have "k - pde_base ms < 16" "pde_base ms + (k - pde_base ms) = k" using k by auto
      ultimately show False
        using False space_okD(2) [OF vm_okD(3) [OF ok list.set_intros(1)]]
        by (fastforce simp: pdes_ok_def)
    qed
    ultimately show ?thesis
      using run False k
      by (auto simp: ensure_page_table_def PDES_PER_PROCESS_def PageTable_new_def Let_def
          lift_mm_def drop_opt_def split: if_splits)
  qed
qed

lemma try_share_effect:
  assumes ok: "vm_ok s (T # S # R) E" and off: "lo < 16" "j < 1024"
    and lps: "lps = LinPageNum_from_indices (pde_base S + lo) j"
    and lpt: "lpt = LinPageNum_from_indices (pde_base T + lo) j"
    and run: "try_share_local_page_from S (lo, j) (T, s) = (r, v')"
  shows "share_post (T, s) S R E lpt lps r v'"
proof -
  have bases: "16 dvd pde_base S" "16 dvd pde_base T" "pde_base S < 1024" "pde_base T < 1024"
    using vm_okD(3) [OF ok, of S] vm_okD(3) [OF ok, of T] by (auto simp: space_ok_def space_shape_def)
  then have small: "pde_base S + lo < 1024" "pde_base T + lo < 1024" using off by (auto elim!: dvdE)
  have idx: "LinPageNum_pde_index lps = pde_base S + lo" "LinPageNum_pte_index lps = j"
    "LinPageNum_pde_index lpt = pde_base T + lo" "LinPageNum_pte_index lpt = j"
    using small off(2) by (simp_all add: lps lpt pde_index_from_indices pte_index_from_indices)
  have lcl: "local_page lpt = local_page lps"
    using bases off by (auto simp: local_page_def idx elim!: dvdE)
  have same: "share_post (T, s) S R E lpt lps (Ok False) (T, s)" using ok by (simp add: share_post_def)
  show ?thesis
  proof (cases "\<exists>e. pte S lps s = Some e \<and> is_present e \<and> \<not> flags_contains (PageEntry_flags e) DIRTY \<and>
      \<not> PageEntry_phys_addr e < LOW_MEM")
    case False
    then have "r = Ok False \<and> v' = (T, s)"
      using run by (auto simp: try_share_local_page_from_def lps [symmetric] Let_def split: option.splits if_splits)
    with same show ?thesis by simp
  next
    case True
    then obtain e where e: "pte S lps s = Some e" "is_present e" "\<not> flags_contains (PageEntry_flags e) DIRTY"
      "\<not> PageEntry_phys_addr e < LOW_MEM" by blast
    have high: "\<not> PageEntry_ppn e < UNPAGED_PAGES"
      using e(4) LOW_MEM_phys_addr by (simp add: linorder_not_less)
    obtain r1 T1 s1 where et: "ensure_page_table (pde_base T + lo) (T, s) = (r1, (T1, s1))"
      by (metis surj_pair)
    have k: "pde_base T \<le> pde_base T + lo" "pde_base T + lo < pde_base T + 16" using off by auto
    note a = ensure_page_table_effect [OF ok k et]
    note a2 = ensure_page_table_ok [OF vm_okD(1,2) [OF ok] k et]
    have e1: "pte S lps s1 = Some e" using a2(7) [of S lps] e(1) by simp
    consider "r1 = Err Errno_NOMEM" | "r1 = Ok ()" "page_is_present T1 lpt s1"
      | "r1 = Ok ()" "\<not> page_is_present T1 lpt s1" using a(4) by blast
    then show ?thesis
    proof cases
      case 1
      then have "r = Err Errno_NOMEM \<and> v' = (T, s)"
        using run e et a(4) idx
        by (auto simp: try_share_local_page_from_def lps [symmetric] lpt [symmetric] Let_def bind_op_def)
      with ok show ?thesis by (simp add: share_post_def)
    next
      case 2
      then have "r = Ok False \<and> v' = (T1, s1)"
        using run e et idx
        by (auto simp: try_share_local_page_from_def lps [symmetric] lpt [symmetric] Let_def bind_op_def)
      with a show ?thesis by (simp add: share_post_def)
    next
      case 3
      have in_t: "in_space T1 lpt" using idx off a2(3) by (simp add: in_space_def)
      obtain pt where pt: "page_tables T1 ! lo = Some pt" using a2(6) 3 by auto
      have ft: "find_pte T1 lpt s1 = Some (pt, j)"
        using vm_inv_pages [OF a2(1) in_t, of pt] pt idx a2(3) by simp
      obtain spt sj where fs: "find_pte S lps s1 = Some (spt, sj)" "pmem s1 spt sj = e"
        using pte_SomeD [OF e1] by blast
      have none: "map_of (data_frames T1) lpt = None"
        by (rule absent_no_frame [OF vm_okD(3) [OF a(1) list.set_intros(1)] 3(2)])
      note sp = share_page [OF a(1) fs e(2) high ft none lcl]
      let ?e = "without_writable e" and ?f = "PageEntry_ppn e"
      let ?T = "T1\<lparr>data_frames := AList.update lpt ?f (data_frames T1)\<rparr>"
      obtain s2 where s2: "FrameAllocator_share ?f (store_word spt sj ?e (store_word pt j ?e s1)) = (Ok ?f, s2)"
        "insert_frame lpt ?f (T1, s2) = (Ok (), (?T, s2))" "vm_ok s2 (?T # S # R) E" "kept (T1 # S # R) s1 s2"
        "pt \<noteq> spt" using sp by blast
      have nz: "spt \<noteq> 0"
        using find_pte_SomeD(4) [OF space_okD(1,2) [OF vm_okD(3) [OF a(1)]] fs(1)] by auto
      have ft': "find_pte T1 lpt (store_word spt sj ?e s1) = Some (pt, j)"
        using ft find_pte_cong [of "store_word spt sj ?e s1" s1] nz by (simp add: store_word_def)
      have res: "r = Ok True \<and> v' = (?T, s2\<lparr>tlb_stale := False\<rparr>)"
        using run e et idx 3 fs(1) ft' s2(1,2) store_word_commute [OF s2(5) [symmetric], of sj ?e j ?e s1]
        by (auto simp: try_share_local_page_from_def lps [symmetric] lpt [symmetric] Let_def bind_op_def
            set_pte_def lift_mm_def flush_vm_def invalidate_tlb_def)
      have inv2: "vm_inv s2 (?T # S # R) E" by (rule vm_okD(1) [OF s2(3)])
      note kv = kept_views [OF vm_okD(1) [OF a(1)] inv2 s2(4)]
      have v1: "view s1 S lps = Some (pmem s1 ?f)" using e1 e(2) high by (simp add: view_def)
      have mS: "map_of (data_frames S) lps = Some ?f"
        using present_frame(1) [OF vm_okD(1) [OF a(1)] _ e1 e(2) high] by simp
      have "view s2 S lps = Some (pmem s2 ?f)"
        using view_eq [OF vm_okD(3) [OF s2(3)], of S lps] mS by simp
      moreover have "view s2 ?T lpt = Some (pmem s2 ?f)"
        using view_eq [OF vm_okD(3) [OF s2(3) list.set_intros(1)], of lpt] by (simp add: update_conv)
      ultimately have "view s2 ?T lpt = view s S lps" "view s S lps \<noteq> None"
        using kv(1) [of S lps] v1 a(2) [of S lps] by auto
      moreover have "view s2 ?T lp = view s T lp" if "lp \<noteq> lpt" for lp
        using kv(2) [of lp] a(3) [of lp] that by (simp add: update_conv)
      moreover have "vm_ok (s2\<lparr>tlb_stale := False\<rparr>) (?T # S # R) E" using s2(3) by (simp add: vm_ok_def)
      ultimately show ?thesis using res kv(1) a(2) by (simp add: share_post_def)
    qed
  qed
qed

section \<open>Copying the entries of one table\<close>

text \<open>The entry the child gets for an entry of the parent.\<close>

definition cow_child :: "PageTableEntry \<Rightarrow> PageTableEntry" where
  "cow_child e = (if is_present e then without_writable e else 0)"

text \<open>After the entries \<open>js\<close> of table \<open>i\<close> are copied.\<close>

definition cow_step_post ::
  "nat \<Rightarrow> vm \<Rightarrow> MemorySpace \<Rightarrow> MemorySpace list \<Rightarrow> (PhysPageNum \<Rightarrow> nat) \<Rightarrow> nat set \<Rightarrow> vm \<Rightarrow> bool" where
  "cow_step_post i v P R E js v' \<longleftrightarrow>
     (case v of (T, s) \<Rightarrow> case v' of (T', s') \<Rightarrow>
       vm_ok s' (T' # P # R) E \<and> kept (P # R) s s' \<and>
       page_tables T' = page_tables T \<and> pde_base T' = pde_base T \<and>
       (\<forall>lp. \<not> (LinPageNum_pde_index lp = pde_base P + i \<and> LinPageNum_pte_index lp \<in> js) \<longrightarrow>
          pte P lp s' = pte P lp s) \<and>
       (\<forall>lp. \<not> (LinPageNum_pde_index lp = pde_base T + i \<and> LinPageNum_pte_index lp \<in> js) \<longrightarrow>
          pte T' lp s' = pte T lp s) \<and>
       (\<forall>j\<in>js. pte T' (LinPageNum_from_indices (pde_base T + i) j) s' =
          map_option cow_child (pte P (LinPageNum_from_indices (pde_base P + i) j) s)))"

lemma cow_step_trans:
  assumes "cow_step_post i v P R E {j} v1" "cow_step_post i v1 P R E js v2" "j \<notin> js"
    "pde_base P + i < 1024" "pde_base (fst v) + i < 1024" "j < 1024" "\<forall>k\<in>js. k < 1024"
  shows "cow_step_post i v P R E (insert j js) v2"
proof -
  obtain T s T1 s1 T2 s2 where v: "v = (T, s)" "v1 = (T1, s1)" "v2 = (T2, s2)" by (metis surj_pair)
  have b: "pde_base T + i < 1024" using assms(5) v by simp
  note a = assms(1,2) [unfolded v cow_step_post_def prod.case]
  have kp: "kept (P # R) s s2" using a kept_trans by blast
  have old: "pte P (LinPageNum_from_indices (pde_base P + i) k) s1 =
      pte P (LinPageNum_from_indices (pde_base P + i) k) s" if "k \<in> js" for k
  proof -
    have "k \<noteq> j" "k < 1024" using that assms(3,7) by auto
    then show ?thesis using a(1) assms(4) by simp
  qed
  have new: "pte T2 (LinPageNum_from_indices (pde_base T + i) j) s2 =
      pte T1 (LinPageNum_from_indices (pde_base T + i) j) s1"
    using a assms(3,6) b by simp
  show ?thesis
    unfolding v cow_step_post_def prod.case
    using a kp old new by (intro conjI allI impI ballI) (auto 0 3)
qed

lemma cow_entry_effect:
  assumes ok: "vm_ok s (T # P # R) E" and i: "i < 16" and j: "j < 1024"
    and pf: "page_tables P ! i = Some pf" and cf: "page_tables T ! i = Some cf"
    and z: "pte T (LinPageNum_from_indices (pde_base T + i) j) s = Some 0"
  shows "\<exists>v'. cow_entry pf cf (pde_base T + i) j (T, s) = (Ok (), v') \<and> cow_step_post i (T, s) P R E {j} v'"
proof -
  let ?lpt = "LinPageNum_from_indices (pde_base T + i) j"
  let ?lps = "LinPageNum_from_indices (pde_base P + i) j"
  have inv: "vm_inv s (T # P # R) E" by (rule vm_okD(1) [OF ok])
  have invP: "vm_inv s (P # T # R) E" by (rule vm_inv_perm [OF inv]) simp
  have bases: "16 dvd pde_base P" "16 dvd pde_base T" "pde_base P < 1024" "pde_base T < 1024"
    using vm_okD(3) [OF ok, of P] vm_okD(3) [OF ok, of T] by (auto simp: space_ok_def space_shape_def)
  then have small: "pde_base P + i < 1024" "pde_base T + i < 1024" using i by (auto elim!: dvdE)
  have lcl: "local_page ?lpt = local_page ?lps"
    using bases i j small by (auto simp: local_page_def elim!: dvdE)
  have fs: "find_pte P ?lps s = Some (pf, j)"
    using vm_inv_pages [OF invP, of ?lps pf] small i j pf by (simp add: in_space_def)
  have ft: "find_pte T ?lpt s = Some (cf, j)"
    using vm_inv_pages [OF inv, of ?lpt cf] small i j cf by (simp add: in_space_def)
  have one: "lp = ?lpt \<longleftrightarrow> LinPageNum_pde_index lp = pde_base T + i \<and> LinPageNum_pte_index lp = j"
    "lp = ?lps \<longleftrightarrow> LinPageNum_pde_index lp = pde_base P + i \<and> LinPageNum_pte_index lp = j" for lp
    using small j by (auto simp: page_eq_iff)
  let ?e = "pmem s pf j"
  have pteP: "pte P ?lps s = Some ?e" using fs by (simp add: pte_def)
  have none: "map_of (data_frames T) ?lpt = None"
    by (rule absent_no_frame [OF vm_okD(3) [OF ok list.set_intros(1)]]) (simp add: page_is_present_def z)
  show ?thesis
  proof (cases "is_present ?e")
    case False
    then have "cow_entry pf cf (pde_base T + i) j (T, s) = (Ok (), (T, s))" by (simp add: cow_entry_def)
    moreover have "cow_step_post i (T, s) P R E {j} (T, s)"
      using ok z pteP False by (simp add: cow_step_post_def cow_child_def)
    ultimately show ?thesis by blast
  next
    case pr: True
    let ?c = "without_writable ?e" and ?f = "PageEntry_ppn ?e"
    show ?thesis
    proof (cases "?f < UNPAGED_PAGES")
      case True
      let ?s' = "store_word cf j ?c s"
      have "cow_entry pf cf (pde_base T + i) j (T, s) = (Ok (), (T, ?s'))"
        using pr True LOW_MEM_ppn [OF ppn_bound, of ?e] by (simp add: cow_entry_def Let_def)
      moreover have inv': "vm_inv ?s' (T # P # R) E"
        by (rule vm_inv_set_entry [OF inv ft]) (use none True in \<open>auto simp: maps_frame_def entry_safe_def\<close>)
      moreover have "kept (P # R) s ?s'"
        using install_kept [OF inv ft, of ?s' ?c] by (auto simp: kept_def store_word_def)
      moreover note pte_store(1) [OF inv ft refl, of _ ?c] pte_store(5) [OF inv ft refl, of P _ ?c]
      ultimately show ?thesis
        using vm_okD(2) [OF ok] pteP pr small j
        by (intro exI [of _ "(T, ?s')"]) (simp add: cow_step_post_def vm_ok_def cow_child_def one)
    next
      case False
      let ?T = "T\<lparr>data_frames := AList.update ?lpt ?f (data_frames T)\<rparr>"
      from share_page [OF ok fs refl pr False ft none lcl] obtain s' where
        s': "FrameAllocator_share ?f (store_word pf j ?c (store_word cf j ?c s)) = (Ok ?f, s')"
          "insert_frame ?lpt ?f (T, s') = (Ok (), (?T, s'))" "vm_ok s' (?T # P # R) E"
          "kept (T # P # R) s s'"
          "\<forall>lp. pte ?T lp s' = (if lp = ?lpt then Some ?c else pte T lp s)"
          "\<forall>lp. pte P lp s' = (if lp = ?lps then Some ?c else pte P lp s)" by blast
      have "cow_entry pf cf (pde_base T + i) j (T, s) = (Ok (), (?T, s'))"
        using pr False LOW_MEM_ppn [OF ppn_bound, of ?e] s'(1,2)
        by (simp add: cow_entry_def Let_def bind_op_def lift_mm_def)
      moreover have "kept (P # R) s s'" using s'(4) by (auto simp: kept_def)
      ultimately show ?thesis
        using s'(3,5,6) pteP pr small j
        by (intro exI [of _ "(?T, s')"]) (simp add: cow_step_post_def cow_child_def one)
    qed
  qed
qed

lemma cow_step_refl: "vm_ok s (T # P # R) E \<Longrightarrow> cow_step_post i (T, s) P R E {} (T, s)"
  by (simp add: cow_step_post_def)

lemma cow_entries_effect:
  assumes "vm_ok s (T # P # R) E" "i < 16" "distinct js" "\<forall>j\<in>set js. j < 1024"
    "page_tables P ! i = Some pf" "page_tables T ! i = Some cf"
    "\<forall>j\<in>set js. pte T (LinPageNum_from_indices (pde_base T + i) j) s = Some 0"
  shows "\<exists>v'. for_op (cow_entry pf cf (pde_base T + i)) js (T, s) = (Ok (), v') \<and>
    cow_step_post i (T, s) P R E (set js) v'"
  using assms
proof (induction js arbitrary: T s)
  case Nil
  then show ?case by (simp add: cow_step_refl)
next
  case (Cons j js)
  have bases: "pde_base P + i < 1024" "pde_base T + i < 1024"
    using vm_okD(3) [OF Cons.prems(1), of P] vm_okD(3) [OF Cons.prems(1), of T] Cons.prems(2)
    by (auto simp: space_ok_def space_shape_def elim!: dvdE)
  from cow_entry_effect [OF Cons.prems(1,2) _ Cons.prems(5,6), of j] Cons.prems(4,7)
  obtain v1 where v1: "cow_entry pf cf (pde_base T + i) j (T, s) = (Ok (), v1)"
    "cow_step_post i (T, s) P R E {j} v1" by auto
  obtain T1 s1 where v1': "v1 = (T1, s1)" by (cases v1)
  note a = v1(2) [unfolded v1' cow_step_post_def prod.case]
  have "\<exists>v'. for_op (cow_entry pf cf (pde_base T1 + i)) js (T1, s1) = (Ok (), v') \<and>
      cow_step_post i (T1, s1) P R E (set js) v'"
  proof (rule Cons.IH)
    show "vm_ok s1 (T1 # P # R) E" "page_tables T1 ! i = Some cf" using a Cons.prems(6) by auto
    show "\<forall>k\<in>set js. pte T1 (LinPageNum_from_indices (pde_base T1 + i) k) s1 = Some 0"
    proof
      fix k assume k: "k \<in> set js"
      then have "k \<noteq> j" "k < 1024" using Cons.prems(3,4) by auto
      then have "pte T1 (LinPageNum_from_indices (pde_base T + i) k) s1 =
          pte T (LinPageNum_from_indices (pde_base T + i) k) s"
        using a bases by simp
      then show "pte T1 (LinPageNum_from_indices (pde_base T1 + i) k) s1 = Some 0"
        using a Cons.prems(7) k by simp
    qed
  qed (use Cons.prems in auto)
  then obtain v' where v': "for_op (cow_entry pf cf (pde_base T + i)) js (T1, s1) = (Ok (), v')"
    "cow_step_post i v1 P R E (set js) v'" using a v1' by auto
  have "cow_step_post i (T, s) P R E (insert j (set js)) v'"
    by (rule cow_step_trans [OF v1(2) v'(2)]) (use Cons.prems bases in auto)
  with v1(1) v1' v'(1) show ?case by auto
qed

section \<open>Copying the tables\<close>

text \<open>Attaching the child's table before its entries are copied gives the same result.\<close>

definition attach_table :: "nat \<Rightarrow> nat \<Rightarrow> PhysPageNum \<Rightarrow> vm \<Rightarrow> vm" where
  "attach_table start i pt v =
     ((fst v)\<lparr>page_tables := (page_tables (fst v))[i := Some pt]\<rparr>,
      write_pde (start + i) (PageDirectoryEntry_user_page_table (PageTable_phys_addr pt)) (snd v))"

lemma store_write_commute:
  "f \<noteq> 0 \<Longrightarrow> store_word f j e (write_pde k d s) = write_pde k d (store_word f j e s)"
  by (simp add: store_word_def write_pde_def fun_upd_twist)

lemma share_write_pde:
  "FrameAllocator_share p (write_pde k d s) = apsnd (write_pde k d) (FrameAllocator_share p s)"
  by (simp add: FrameAllocator_share_def write_pde_def Let_def)

lemma drop_write_pde:
  "PhysFrame_drop p (write_pde k d s) = apsnd (write_pde k d) (PhysFrame_drop p s)"
  by (simp add: PhysFrame_drop_def FrameAllocator_dealloc_def write_pde_def Let_def)

lemma insert_frame_attach:
  "insert_frame lp f (attach_table st i pt v) = apsnd (attach_table st i pt) (insert_frame lp f v)"
  by (cases v) (auto simp: insert_frame_def attach_table_def lift_mm_def drop_opt_def drop_write_pde
      split: option.splits prod.splits)

lemma cow_entry_attach:
  assumes "pf \<noteq> 0" "cf \<noteq> 0"
  shows "cow_entry pf cf c j (attach_table st i pt v) = apsnd (attach_table st i pt) (cow_entry pf cf c j v)"
proof -
  obtain T s where v: "v = (T, s)" by (cases v)
  have rd: "pmem (write_pde k d s) pf j = pmem s pf j" for k d using assms(1) by (simp add: write_pde_def)
  show ?thesis
  proof (cases "is_present (pmem s pf j) \<and> LOW_MEM \<le> PhysPageNum_addr (PageEntry_ppn (pmem s pf j))")
    case False
    then show ?thesis
      using store_write_commute [OF assms(2)]
      by (auto simp: v cow_entry_def attach_table_def rd Let_def)
  next
    case True
    let ?s = "store_word pf j (without_writable (pmem s pf j)) (store_word cf j (without_writable (pmem s pf j)) s)"
    obtain r s1 where sh: "FrameAllocator_share (PageEntry_ppn (pmem s pf j)) ?s = (r, s1)" by (metis surj_pair)
    have at: "(T\<lparr>page_tables := (page_tables T)[i := Some pt]\<rparr>,
        write_pde (st + i) (PageDirectoryEntry_user_page_table (PageTable_phys_addr pt)) s1)
        = attach_table st i pt (T, s1)" by (simp add: attach_table_def)
    show ?thesis
      using True sh
      by (cases r) (simp_all add: v cow_entry_def attach_table_def [of _ _ _ "(T, s)"] rd Let_def
          store_write_commute assms share_write_pde bind_op_def lift_mm_def insert_frame_attach at)
  qed
qed

lemma for_op_commute:
  assumes "\<And>x v. f x (g v) = apsnd g (f x v)"
  shows "for_op f xs (g v) = apsnd g (for_op f xs v)"
proof (induction xs arbitrary: v)
  case Nil
  then show ?case by simp
next
  case (Cons x xs)
  obtain r v1 where "f x v = (r, v1)" by (metis surj_pair)
  then show ?case using Cons [of v1] assms [of x v] by (cases r) simp_all
qed

text \<open>After the tables \<open>is\<close> are copied.\<close>

definition cow_block_post ::
  "vm \<Rightarrow> MemorySpace \<Rightarrow> MemorySpace list \<Rightarrow> (PhysPageNum \<Rightarrow> nat) \<Rightarrow> nat set \<Rightarrow> vm \<Rightarrow> bool" where
  "cow_block_post v P R E is v' \<longleftrightarrow>
     (case v of (T, s) \<Rightarrow> case v' of (T', s') \<Rightarrow>
       vm_ok s' (T' # P # R) E \<and> kept (P # R) s s' \<and> pde_base T' = pde_base T \<and>
       (\<forall>k. k \<notin> is \<longrightarrow> page_tables T' ! k = page_tables T ! k) \<and>
       (\<forall>lp. (\<forall>i\<in>is. LinPageNum_pde_index lp \<noteq> pde_base P + i) \<longrightarrow> pte P lp s' = pte P lp s) \<and>
       (\<forall>lp. (\<forall>i\<in>is. LinPageNum_pde_index lp \<noteq> pde_base T + i) \<longrightarrow> pte T' lp s' = pte T lp s) \<and>
       (\<forall>i\<in>is. \<forall>j<1024. pte T' (LinPageNum_from_indices (pde_base T + i) j) s' =
          map_option cow_child (pte P (LinPageNum_from_indices (pde_base P + i) j) s)))"

lemma floor_new_entry: "tracked_frame p \<Longrightarrow> PhysAddr_floor (PageEntry_phys_addr (PageEntry_new p USER_RW)) = p"
  using ppn_phys_addr [of "PageEntry_new p USER_RW"]
  by (simp add: PhysPageNum_from_PhysAddr_def split: if_splits)

lemma cow_block_effect:
  assumes ok: "vm_ok s (T # P # R) E" and i: "i < 16" and none: "page_tables T ! i = None"
  shows "(\<exists>v'. cow_block (pde_base P) (pde_base T) 1024 i (T, s) = (Ok (), v') \<and>
      cow_block_post (T, s) P R E {i} v') \<or>
    cow_block (pde_base P) (pde_base T) 1024 i (T, s) = (Err Errno_NOMEM, (T, s))"
proof -
  have inv: "vm_inv s (T # P # R) E" by (rule vm_okD(1) [OF ok])
  have okT: "space_ok s T" and okP: "space_ok s P" using vm_okD(3) [OF ok] by auto
  note dT = space_okD(1,2) [OF okT] and dP = space_okD(1,2) [OF okP]
  have bases: "pde_base P + i < 1024" "pde_base T + i < 1024"
    using dT dP i by (auto simp: space_shape_def elim!: dvdE)
  show ?thesis
  proof (cases "page_tables P ! i")
    case None
    have "\<not> is_present (read_pde (pde_base P + i) s)" using dP(2) i None by (force simp: pdes_ok_def)
    then have "cow_block (pde_base P) (pde_base T) 1024 i (T, s) = (Ok (), (T, s))"
      by (simp add: cow_block_def)
    moreover have "pte P (LinPageNum_from_indices (pde_base P + i) j) s = None"
      "pte T (LinPageNum_from_indices (pde_base T + i) j) s = None" if "j < 1024" for j
      using that None none bases by (simp_all add: pte_def find_pte_eq [OF dP] find_pte_eq [OF dT])
    ultimately show ?thesis using ok by (auto simp: cow_block_post_def)
  next
    case (Some pf)
    then have pde: "read_pde (pde_base P + i) s = PageEntry_new pf USER_RW"
      using dP(2) i by (force simp: pdes_ok_def)
    have trf: "tracked_frame pf" by (rule table_tracked [OF dP(1) i Some])
    have fok: "frame_ok s" by (rule vm_inv_frame_ok [OF inv])
    obtain q s1 where al: "FrameAllocator_alloc s = (Ok q, s1)" using frames.alloc_total [OF fok] by blast
    show ?thesis
    proof (cases q)
      case None
      then have "s1 = s" using frames.alloc_none [OF fok] al by auto
      then show ?thesis using al None pde by (simp add: cow_block_def PageTable_new_def Let_def)
    next
      case q: (Some cf)
      note a = vm_inv_alloc [OF inv al [unfolded q]]
      have a': "vm_inv s1 (T # P # R) (E(cf := 1))" "tracked_frame cf" "cf \<notin># all_handles (T # P # R)"
        "E cf = 0" "pmem s1 = (pmem s)(cf := (\<lambda>_. 0))" using a by auto
      define T1 where "T1 = T\<lparr>page_tables := (page_tables T)[i := Some cf]\<rparr>"
      define s2 where "s2 = write_pde (pde_base T + i) (PageEntry_new cf USER_RW) s1"
      have at: "attach_table (pde_base T) i cf (T, s1) = (T1, s2)"
        by (simp add: attach_table_def T1_def s2_def PageTable_phys_addr_def user_page_table_entry)
      note vt = vm_inv_attach_table [OF a'(1) _ a'(3,2) _ i none T1_def s2_def]
      have "(E(cf := 1)) cf = 1" "pmem s1 cf = (\<lambda>_. 0)" "(E(cf := 1))(cf := 0) = E"
        using a'(4,5) by auto
      note vt = vt [OF this(1,2), unfolded this(3)]
      have same: "pte m lp s1 = pte m lp s" if "m \<in> set (T # P # R)" for m lp
      proof (rule pte_same)
        show "space_shape m" "pdes_ok s m" using vm_okD(3) [OF ok that] by (auto dest: space_okD)
        show "\<forall>pt\<in>set (table_frames m). pmem s1 pt = pmem s pt"
          using a'(3,5) table_frames_subset [OF that] by (auto simp: all_handles_def)
      qed (use a' in auto)
      have tabs: "mset (table_frames T1) = add_mset cf (mset (table_frames T))"
        using mset_map_filter_update [of i "page_tables T" cf] none i dT(1)
        by (simp add: T1_def table_frames_def space_shape_def)
      have "all_handles (T1 # P # R) = add_mset cf (all_handles (T # P # R))"
        using tabs by (simp add: all_handles_def T1_def)
      then have ok2: "vm_ok s2 (T1 # P # R) E" using vt(1) vm_okD(2) [OF ok] a'(4) by (auto simp: vm_ok_def)
      have kp: "kept (P # R) s s2"
        using a'(3,5) data_frame_tracked [OF inv] data_frame_handle' [of _ "T # P # R"]
        by (force simp: kept_def s2_def write_pde_def)
      have T1: "page_tables T1 ! i = Some cf" "pde_base T1 = pde_base T"
        using i dT(1) by (simp_all add: T1_def space_shape_def)
      have zero: "\<forall>j\<in>set [0..<1024]. pte T1 (LinPageNum_from_indices (pde_base T1 + i) j) s2 = Some 0"
        using bases i by (simp add: vt(2) T1(2) in_space_def)
      from cow_entries_effect [OF ok2 i distinct_upt _ Some T1(1) zero] obtain v' where
        v': "for_op (cow_entry pf cf (pde_base T + i)) [0..<1024] (T1, s2) = (Ok (), v')"
          "cow_step_post i (T1, s2) P R E (set [0..<1024]) v'" by (auto simp: T1(2))
      obtain r v0 where v0: "for_op (cow_entry pf cf (pde_base T + i)) [0..<1024] (T, s1) = (r, v0)"
        by (metis surj_pair)
      have "pf \<noteq> 0" "cf \<noteq> 0" using trf a'(2) by auto
      from for_op_commute [of "cow_entry pf cf (pde_base T + i)" "attach_table (pde_base T) i cf"
          "[0..<1024]" "(T, s1)", OF cow_entry_attach [OF this]]
      have r: "r = Ok ()" "attach_table (pde_base T) i cf v0 = v'" using v' v0 at by auto
      have "cow_block (pde_base P) (pde_base T) 1024 i (T, s) = (Ok (), v')"
        using pde al q trf v0 r
        by (simp add: cow_block_def PageTable_new_def Let_def floor_new_entry bind_op_def attach_table_def)
      moreover have "cow_block_post (T, s) P R E {i} v'"
      proof -
        obtain T' s' where v: "v' = (T', s')" by (cases v')
        note b = v'(2) [unfolded v cow_step_post_def prod.case T1(2)]
        have P: "pte P lp s2 = pte P lp s" for lp using vt(3) same [of P] by simp
        have T: "pte T1 lp s2 = pte T lp s" if "LinPageNum_pde_index lp \<noteq> pde_base T + i" for lp
          using vt(2) same [of T] that by simp
        show ?thesis
          unfolding v cow_block_post_def prod.case
          using b kp kept_trans P T i by (auto simp: T1_def)
      qed
      ultimately show ?thesis by blast
    qed
  qed
qed

lemma cow_block_trans:
  assumes "cow_block_post v P R E {i} v1" "cow_block_post v1 P R E is v2" "i \<notin> is"
    "\<forall>k\<in>insert i is. pde_base P + k < 1024 \<and> pde_base (fst v) + k < 1024"
  shows "cow_block_post v P R E (insert i is) v2"
proof -
  obtain T s T1 s1 T2 s2 where v: "v = (T, s)" "v1 = (T1, s1)" "v2 = (T2, s2)" by (metis surj_pair)
  have b: "pde_base T + k < 1024" "pde_base P + k < 1024" if "k \<in> insert i is" for k
    using assms(4) that v by auto
  note a = assms(1,2) [unfolded v cow_block_post_def prod.case]
  have kp: "kept (P # R) s s2" using a kept_trans by blast
  have old: "pte P (LinPageNum_from_indices (pde_base P + k) j) s1 =
      pte P (LinPageNum_from_indices (pde_base P + k) j) s" if "k \<in> is" "j < 1024" for k j
  proof -
    have "k \<noteq> i" using that assms(3) by auto
    then show ?thesis using a(1) b(2) [of k] that by simp
  qed
  have new: "pte T2 (LinPageNum_from_indices (pde_base T + i) j) s2 =
      pte T1 (LinPageNum_from_indices (pde_base T + i) j) s1" if "j < 1024" for j
  proof -
    have "\<forall>k\<in>is. LinPageNum_pde_index (LinPageNum_from_indices (pde_base T + i) j) \<noteq> pde_base T1 + k"
      using b(1) [of i] that assms(3) a(1) by auto
    then show ?thesis using a(2) by blast
  qed
  show ?thesis
    unfolding v cow_block_post_def prod.case
    using a kp old new by (intro conjI allI impI ballI) (auto 0 3)
qed

lemma cow_blocks_effect:
  assumes "vm_ok s (T # P # R) E" "distinct is" "\<forall>i\<in>set is. i < 16 \<and> page_tables T ! i = None"
    "for_op (cow_block (pde_base P) (pde_base T) 1024) is (T, s) = (r, v')"
  shows "r = Ok () \<and> cow_block_post (T, s) P R E (set is) v' \<or>
    r = Err Errno_NOMEM \<and> vm_ok (snd v') (fst v' # P # R) E \<and> kept (P # R) s (snd v') \<and>
      pde_base (fst v') = pde_base T"
  using assms
proof (induction "is" arbitrary: T s)
  case Nil
  then show ?case by (auto simp: cow_block_post_def)
next
  case (Cons i "is")
  have bases: "pde_base P + k < 1024" "pde_base T + k < 1024" if "k \<in> set (i # is)" for k
  proof -
    have "k < 16" using that Cons.prems(3) by auto
    then show "pde_base P + k < 1024" "pde_base T + k < 1024"
      using vm_okD(3) [OF Cons.prems(1), of P] vm_okD(3) [OF Cons.prems(1), of T]
      by (auto simp: space_ok_def space_shape_def elim!: dvdE)
  qed
  have i: "i < 16" "page_tables T ! i = None" using Cons.prems(3) by auto
  from cow_block_effect [OF Cons.prems(1) i] consider
    v1 where "cow_block (pde_base P) (pde_base T) 1024 i (T, s) = (Ok (), v1)"
      "cow_block_post (T, s) P R E {i} v1"
  | "cow_block (pde_base P) (pde_base T) 1024 i (T, s) = (Err Errno_NOMEM, (T, s))" by blast
  then show ?case
  proof cases
    case 2
    then show ?thesis using Cons.prems(1,4) by auto
  next
    case (1 v1)
    obtain T1 s1 where v1: "v1 = (T1, s1)" by (cases v1)
    note a = 1(2) [unfolded v1 cow_block_post_def prod.case]
    have tabs: "\<forall>k\<in>set is. k < 16 \<and> page_tables T1 ! k = None"
    proof
      fix k assume k: "k \<in> set is"
      then have "k \<noteq> i" using Cons.prems(2) by auto
      then show "k < 16 \<and> page_tables T1 ! k = None" using a Cons.prems(3) k by auto
    qed
    have base: "pde_base T1 = pde_base T" and ok1: "vm_ok s1 (T1 # P # R) E" and k1: "kept (P # R) s s1"
      using a by auto
    have dist: "distinct is" using Cons.prems(2) by simp
    have "for_op (cow_block (pde_base P) (pde_base T1) 1024) is (T1, s1) = (r, v')"
      using Cons.prems(4) 1(1) v1 base by simp
    from Cons.IH [OF ok1 dist tabs this] show ?thesis
    proof (elim disjE conjE)
      assume r: "r = Ok ()" and post: "cow_block_post (T1, s1) P R E (set is) v'"
      have "cow_block_post (T, s) P R E (insert i (set is)) v'"
        by (rule cow_block_trans [OF 1(2)]) (use post v1 Cons.prems(2) bases in auto)
      with r show ?thesis by simp
    qed (use base k1 kept_trans in auto)
  qed
qed

section \<open>Fork\<close>

lemma vm_ok_new_space:
  assumes ok: "vm_ok s Ws E" and ci: "0 < ci" "ci < 64" and fresh: "ci * 16 \<notin> pde_base ` set Ws"
    and pdes: "\<forall>i<16. \<not> is_present (read_pde (ci * 16 + i) s)"
  shows "vm_ok s (MemorySpace_new ci # Ws) E"
proof -
  let ?n = "MemorySpace_new ci"
  have n: "page_tables ?n = replicate 16 None" "data_frames ?n = []" "pde_base ?n = ci * 16"
    "table_frames ?n = []"
    by (simp_all add: MemorySpace_new_def PDES_PER_PROCESS_def table_frames_def
        numeral_eq_Suc List.map_filter_simps)
  have sh: "space_shape ?n" using ci by (simp add: space_shape_def n)
  have pd: "pdes_ok s ?n" using pdes by (simp add: pdes_ok_def n)
  have "pte ?n lp s = None" for lp
    by (auto simp: pte_def find_pte_eq [OF sh pd] n in_space_def)
  then have "space_ok s ?n" using sh pd by (simp add: space_ok_def n)
  moreover have "all_handles (?n # Ws) = all_handles Ws" "all_frames (?n # Ws) = all_frames Ws"
    by (simp_all add: all_handles_def n)
  moreover from this(2) have "placed (?n # Ws) = placed Ws" by (simp only: placed_def)
  ultimately show ?thesis
    using ok fresh by (auto simp: vm_ok_def vm_inv_def n)
qed

definition fork_post ::
  "MemorySpace \<Rightarrow> MemorySpace list \<Rightarrow> (PhysPageNum \<Rightarrow> nat) \<Rightarrow> nat \<Rightarrow> nat \<Rightarrow> mm \<Rightarrow> MemorySpace outcome \<Rightarrow> mm \<Rightarrow> bool" where
  "fork_post P R E ci n s r s' \<longleftrightarrow>
     (\<forall>ms\<in>set (P # R). \<forall>lp. view s' ms lp = view s ms lp) \<and>
     (case r of
        Ok C \<Rightarrow>
          vm_ok s' (C # P # R) E \<and> pde_base C = ci * 16 \<and> \<not> tlb_stale s' \<and>
          (\<forall>i<n. \<forall>j<1024.
             view s' C (LinPageNum_from_indices (ci * 16 + i) j) =
               view s P (LinPageNum_from_indices (pde_base P + i) j) \<and>
             pte C (LinPageNum_from_indices (ci * 16 + i) j) s' =
               map_option cow_child (pte P (LinPageNum_from_indices (pde_base P + i) j) s)) \<and>
          (\<forall>lp. (\<forall>i<n. LinPageNum_pde_index lp \<noteq> ci * 16 + i) \<longrightarrow> pte C lp s' = None)
      | Err e \<Rightarrow>
          e = Errno_NOMEM \<and> vm_ok s' (P # R) E \<and>
          (\<forall>i<16. \<not> is_present (read_pde (ci * 16 + i) s'))
      | Panic \<Rightarrow> False)"

lemma cow_copy_effect:
  assumes ok: "vm_ok s (P # R) E" and ci: "0 < ci" "ci < 64" and fresh: "ci * 16 \<notin> pde_base ` set (P # R)"
    and pdes: "\<forall>i<16. \<not> is_present (read_pde (ci * 16 + i) s)"
    and run: "cow_copy P ci data_limit s = (r, s')"
  shows "fork_post P R E ci (cow_pde_count data_limit) s r s'"
proof -
  let ?n = "MemorySpace_new ci" and ?c = "cow_pde_count data_limit"
  have n: "pde_base ?n = ci * 16" "page_tables ?n = replicate 16 None" "data_frames ?n = []"
    by (simp_all add: MemorySpace_new_def PDES_PER_PROCESS_def)
  have c: "?c \<le> 16" by (simp add: cow_pde_count_def PDES_PER_PROCESS_def)
  have ok0: "vm_ok s (?n # P # R) E" by (rule vm_ok_new_space [OF ok ci fresh pdes])
  have pb: "pde_base P \<noteq> 0" "pde_base P + 15 < 1024"
    using vm_okD(3) [OF ok, of P] by (auto simp: space_ok_def space_shape_def elim!: dvdE)
  obtain r1 C s1 where loop:
    "for_op (cow_block (pde_base P) (ci * 16) 1024) [0..<?c] (?n, s) = (r1, (C, s1))" by (metis surj_pair)
  have "\<forall>i\<in>set [0..<?c]. i < 16 \<and> page_tables ?n ! i = None" using c by (auto simp: n)
  from cow_blocks_effect [OF ok0 distinct_upt this, unfolded n, OF loop]
  consider "r1 = Ok ()" "cow_block_post (?n, s) P R E {0..<?c} (C, s1)"
    | "r1 = Err Errno_NOMEM" "vm_ok s1 (C # P # R) E" "kept (P # R) s s1" "pde_base C = ci * 16"
    by auto
  then show ?thesis
  proof cases
    case 1
    note a = 1(2) [unfolded cow_block_post_def prod.case n(1)]
    have ok1: "vm_ok s1 (C # P # R) E" using a by auto
    have views: "view s1 ms lp = view s ms lp" if "ms \<in> set (P # R)" for ms lp
      by (rule kept_view [of "P # R"]) (use a that vm_okD(3) [OF ok] vm_okD(3) [OF ok1] in auto)
    have ptes: "pte C (LinPageNum_from_indices (ci * 16 + i) j) s1 =
        map_option cow_child (pte P (LinPageNum_from_indices (pde_base P + i) j) s)" if "i < ?c" "j < 1024" for i j
      using a that by auto
    have "view s1 C (LinPageNum_from_indices (ci * 16 + i) j) =
        view s P (LinPageNum_from_indices (pde_base P + i) j)" if "i < ?c" "j < 1024" for i j
    proof (cases "pte P (LinPageNum_from_indices (pde_base P + i) j) s")
      case None
      then show ?thesis by (simp add: view_def ptes [OF that])
    next
      case (Some e)
      then have "pmem s1 (PageEntry_ppn e) = pmem s (PageEntry_ppn e)"
        if "is_present e" "\<not> PageEntry_ppn e < UNPAGED_PAGES"
        using present_frame(2) [OF vm_okD(1) [OF ok] list.set_intros(1) Some that] a unfolding kept_def
        by blast
      with Some show ?thesis by (simp add: view_def ptes [OF that] cow_child_def)
    qed
    moreover have "pte C lp s1 = None" if "\<forall>i<?c. LinPageNum_pde_index lp \<noteq> ci * 16 + i" for lp
    proof -
      have "pte C lp s1 = pte ?n lp s" using a that by auto
      also have "\<dots> = None"
        using find_pte_eq [OF space_okD(1,2) [OF vm_okD(3) [OF ok0 list.set_intros(1)]], of lp]
        by (auto simp: pte_def n in_space_def)
      finally show ?thesis .
    qed
    moreover have "r = Ok C \<and> s' = s1\<lparr>tlb_stale := False\<rparr>"
      using run loop 1(1) pb(1)
      by (simp add: cow_copy_def PDES_PER_PROCESS_def ENTRIES_PER_TABLE_def invalidate_tlb_def Let_def)
    moreover have "pde_base C = ci * 16" using a by auto
    ultimately show ?thesis using ok1 views ptes by (simp add: fork_post_def vm_ok_def)
  next
    case 2
    from MemorySpace_drop_effect [OF 2(2)] obtain s2 where
      s2: "MemorySpace_drop C s1 = (Ok (), s2)" "vm_ok s2 (P # R) E"
        "\<forall>i<16. \<not> is_present (read_pde (ci * 16 + i) s2)"
        "\<forall>ms2\<in>set (P # R). \<forall>lp. view s2 ms2 lp = view s1 ms2 lp" using 2(4) by auto
    have "view s1 ms lp = view s ms lp" if "ms \<in> set (P # R)" for ms lp
      by (rule kept_view [OF 2(3)]) (use that vm_okD(3) [OF ok] vm_okD(3) [OF 2(2)] in auto)
    moreover have "r = Err Errno_NOMEM \<and> s' = s2"
      using run loop 2(1) pb(1) s2(1)
      by (simp add: cow_copy_def PDES_PER_PROCESS_def ENTRIES_PER_TABLE_def Let_def)
    ultimately show ?thesis using s2 by (simp add: fork_post_def)
  qed
qed

end
