(* ===== verification/Mm_Fault.thy ===== *)
theory Mm_Fault
  imports Mm_Fork
begin

text \<open>
  \<open>kernel/src/mm/page_fault.rs\<close> and the write preparation of \<open>kernel/src/mm/mod.rs\<close>: the
  write-protect fault, the classification of a not-present fault, sharing with a process that runs
  the same executable, the zero page, and \<open>ensure_user_area_writable\<close>.

  Where the code calls \<open>oom\<close>, which ends the process and does not return, the model returns
  \<open>OutOfMemory\<close>.  Loading a page from the executable (\<open>load_exe_page\<close>) reads the file system and is
  not modelled here.
\<close>

section \<open>Operations\<close>

datatype fault_result = Resolved | OutOfMemory

definition handle_wp_page :: "u32 \<Rightarrow> (vm, fault_result) op" where
  "handle_wp_page address v =
     (case ensure_page_writable (LinAddr_floor address) v of
        (Ok _, v') \<Rightarrow> (Ok Resolved, v')
      | (Err _, v') \<Rightarrow> (Ok OutOfMemory, v')
      | (Panic, v') \<Rightarrow> (Panic, v'))"

text \<open>The parts of a task that the fault handlers read; an inode is identified by its \<open>Arc\<close>.\<close>

record FaultTask =
  segment_base :: u32
  end_data :: u32
  executable_inode :: "nat option"
  memory_space :: "MemorySpace option"

datatype FaultKind = Executable nat u32 u32 "(nat \<times> nat) option" | Anonymous

definition classify :: "FaultTask \<Rightarrow> u32 \<Rightarrow> LinPageNum \<Rightarrow> FaultKind" where
  "classify inner address fault_page =
     (let base = segment_base inner;
          addr_offset = (address AND NOT 0xFFF) - base
      in case executable_inode inner of
           Some inode \<Rightarrow>
             if addr_offset < end_data inner
             then Executable inode addr_offset (end_data inner)
                    (case memory_space inner of
                       None \<Rightarrow> None | Some ms \<Rightarrow> to_local ms fault_page)
             else Anonymous
         | None \<Rightarrow> Anonymous)"

text \<open>
  \<open>try_share_page\<close>: the scan of the task table.  \<open>others\<close> are the slots other than the current one,
  in slot order; the state is the current task's space and the memory.
\<close>

fun try_share_page ::
    "nat \<Rightarrow> (nat \<times> nat) option \<Rightarrow> FaultTask option list \<Rightarrow> (vm, bool) op" where
  "try_share_page exe_inode None others v = (Ok False, v)"
| "try_share_page exe_inode (Some local_offset) [] v = (Ok False, v)"
| "try_share_page exe_inode (Some local_offset) (task_opt # others) v =
     (case task_opt of
        None \<Rightarrow> try_share_page exe_inode (Some local_offset) others v
      | Some source \<Rightarrow>
          if executable_inode source \<noteq> Some exe_inode
          then try_share_page exe_inode (Some local_offset) others v
          else case memory_space source of
                 None \<Rightarrow> try_share_page exe_inode (Some local_offset) others v
               | Some src_ms \<Rightarrow>
                   bind_op (try_share_local_page_from src_ms local_offset)
                     (\<lambda>shared. if shared then (\<lambda>v1. (Ok True, v1))
                        else try_share_page exe_inode (Some local_offset) others) v)"

definition map_zero_page :: "LinPageNum \<Rightarrow> (vm, bool) op" where
  "map_zero_page fault_page v =
     (case map_page fault_page None v of
        (Ok _, v') \<Rightarrow> (Ok True, v')
      | (Err _, v') \<Rightarrow> (Ok False, v')
      | (Panic, v') \<Rightarrow> (Panic, v'))"

definition saturating_add_u32 :: "u32 \<Rightarrow> u32 \<Rightarrow> u32" where
  "saturating_add_u32 a b = (if unat a + unat b < 2 ^ 32 then a + b else 0xFFFFFFFF)"

definition saturating_sub_u32 :: "u32 \<Rightarrow> u32 \<Rightarrow> u32" where
  "saturating_sub_u32 a b = (if b \<le> a then a - b else 0)"

lemma saturating_sub_less: "r \<noteq> 0 \<Longrightarrow> unat (saturating_sub_u32 r 4096) < unat r"
  by (auto simp: saturating_sub_u32_def unat_sub unat_gt_0)

text \<open>The loop of \<open>ensure_user_area_writable\<close>; the result says whether a page could not be copied.\<close>

function writable_loop :: "u32 \<Rightarrow> u32 \<Rightarrow> (vm, bool) op" where
  "writable_loop remaining linear_addr v =
     (if remaining = 0 then (Ok False, v)
      else
        let lin_page = LinAddr_floor linear_addr;
            next = writable_loop (saturating_sub_u32 remaining 4096) (linear_addr + 4096);
            needs_cow = (case pte (fst v) lin_page (snd v) of
                           None \<Rightarrow> False
                         | Some entry \<Rightarrow> is_present entry \<and> \<not> flags_contains (PageEntry_flags entry) WRITABLE)
        in if needs_cow
           then case ensure_page_writable lin_page v of
                  (Ok _, v') \<Rightarrow> next v'
                | (Err _, v') \<Rightarrow> (Ok True, v')
                | (Panic, v') \<Rightarrow> (Panic, v')
           else next v)"
  by pat_completeness auto

termination by (relation "measure (\<lambda>(r, _). unat r)") (auto simp: saturating_sub_less)

declare writable_loop.simps [simp del]

definition ensure_user_area_writable :: "u32 \<Rightarrow> u32 \<Rightarrow> u32 \<Rightarrow> (vm, fault_result) op" where
  "ensure_user_area_writable base addr sz v =
     (let remaining = saturating_add_u32 sz (LinAddr_page_offset addr);
          linear_addr = LinAddr_align_down addr + base
      in case writable_loop remaining linear_addr v of
           (Ok failed, v') \<Rightarrow> (Ok (if failed then OutOfMemory else Resolved), v')
         | (Err e, v') \<Rightarrow> (Err e, v')
         | (Panic, v') \<Rightarrow> (Panic, v'))"

section \<open>Preparing a write into user memory\<close>

text \<open>A write to the page does not fault on a shared frame.\<close>

definition write_safe :: "MemorySpace \<Rightarrow> LinPageNum \<Rightarrow> mm \<Rightarrow> bool" where
  "write_safe ms lp s \<longleftrightarrow> (\<forall>e. pte ms lp s = Some e \<longrightarrow> is_present e \<longrightarrow> is_writable e)"

definition prepared ::
  "MemorySpace list \<Rightarrow> (PhysPageNum \<Rightarrow> nat) \<Rightarrow> vm \<Rightarrow> vm \<Rightarrow> bool" where
  "prepared R E v v' \<longleftrightarrow>
     (case v of (ms, s) \<Rightarrow> case v' of (ms', s') \<Rightarrow>
       vm_ok s' (ms' # R) E \<and>
       (\<forall>lp. view s ms lp \<noteq> None \<longrightarrow> view s' ms' lp = view s ms lp) \<and>
       (\<forall>ms2\<in>set R. \<forall>lp. view s' ms2 lp = view s ms2 lp) \<and>
       (\<forall>lp. page_is_present ms' lp s' = page_is_present ms lp s) \<and>
       (\<forall>lp. write_safe ms lp s \<longrightarrow> write_safe ms' lp s'))"

lemma prepared_refl: "vm_ok s (ms # R) E \<Longrightarrow> prepared R E (ms, s) (ms, s)"
  by (simp add: prepared_def)

lemma prepared_trans: "prepared R E v v1 \<Longrightarrow> prepared R E v1 v2 \<Longrightarrow> prepared R E v v2"
  by (cases v; cases v1; cases v2) (auto simp: prepared_def)

lemma cow_post_prepared:
  assumes "cow_post (ms, s) R E lp e v'" "pte ms lp s = Some e" "is_present e"
  shows "prepared R E (ms, s) v'" "write_safe (fst v') lp (snd v')"
proof -
  obtain ms' s' where v: "v' = (ms', s')" by (cases v')
  note c = assms(1) [unfolded v cow_post_def prod.case]
  obtain e' where e': "pte ms' lp s' = Some e'" "is_present e'" "is_writable e'" using c by blast
  have "view s' ms' lp' = view s ms lp'" if "view s ms lp' \<noteq> None" for lp'
    using c that assms(2,3) by (cases "lp' = lp") (auto simp: view_def split: if_splits)
  moreover have "page_is_present ms' lp' s' = page_is_present ms lp' s" for lp'
    using c e' assms(2,3) by (cases "lp' = lp") (auto simp: page_is_present_def)
  moreover have "write_safe ms' lp' s'" if "write_safe ms lp' s" for lp'
    using c e' that by (cases "lp' = lp") (auto simp: write_safe_def)
  ultimately show "prepared R E (ms, s) v'" using c v by (auto simp: prepared_def)
  show "write_safe (fst v') lp (snd v')" using e' v by (simp add: write_safe_def)
qed

lemma writable_loop_effect:
  assumes "vm_ok s (ms # R) E"
  shows "\<exists>failed v'. writable_loop remaining linear_addr (ms, s) = (Ok failed, v') \<and>
    prepared R E (ms, s) v' \<and>
    (\<not> failed \<longrightarrow> (\<forall>k. k * 4096 < unat remaining \<longrightarrow>
       write_safe (fst v') (LinAddr_floor (linear_addr + word_of_nat (k * 4096))) (snd v')))"
  using assms
proof (induction "unat remaining" arbitrary: remaining linear_addr ms s rule: less_induct)
  case less
  show ?case
  proof (cases "remaining = 0")
    case True
    then show ?thesis using less.prems by (auto simp: writable_loop.simps prepared_refl)
  next
    case False
    let ?r = "saturating_sub_u32 remaining 4096" and ?l = "linear_addr + 4096"
    let ?lp = "LinAddr_floor linear_addr"
    have rest: "\<exists>failed v'. writable_loop ?r ?l v1 = (Ok failed, v') \<and> prepared R E (ms, s) v' \<and>
        (\<not> failed \<longrightarrow> (\<forall>k. k * 4096 < unat remaining \<longrightarrow>
          write_safe (fst v') (LinAddr_floor (linear_addr + word_of_nat (k * 4096))) (snd v')))"
      if v1: "prepared R E (ms, s) v1" "write_safe (fst v1) ?lp (snd v1)" for v1
    proof -
      have "vm_ok (snd v1) (fst v1 # R) E" using v1(1) by (cases v1) (simp add: prepared_def)
      from less.hyps [OF saturating_sub_less [OF False] this, of ?l] obtain failed v' where
        v': "writable_loop ?r ?l v1 = (Ok failed, v')" "prepared R E v1 v'"
          "\<not> failed \<longrightarrow> (\<forall>k. k * 4096 < unat ?r \<longrightarrow>
             write_safe (fst v') (LinAddr_floor (?l + word_of_nat (k * 4096))) (snd v'))" by auto
      have "write_safe (fst v') (LinAddr_floor (linear_addr + word_of_nat (k * 4096))) (snd v')"
        if "\<not> failed" "k * 4096 < unat remaining" for k
      proof (cases k)
        case 0
        then show ?thesis using v1(2) v'(2) by (cases v1; cases v') (simp add: prepared_def)
      next
        case (Suc k')
        then have "k' * 4096 < unat ?r"
          using that(2) by (auto simp: saturating_sub_u32_def unat_sub word_le_nat_alt)
        with v'(3) that(1) have "write_safe (fst v') (LinAddr_floor (?l + word_of_nat (k' * 4096))) (snd v')"
          by blast
        then show ?thesis by (simp add: Suc algebra_simps)
      qed
      with v'(1) prepared_trans [OF v1(1) v'(2)] show ?thesis by blast
    qed
    show ?thesis
    proof (cases "\<exists>e. pte ms ?lp s = Some e \<and> is_present e \<and> \<not> is_writable e")
      case True
      then obtain e where e: "pte ms ?lp s = Some e" "is_present e" "\<not> is_writable e" by blast
      obtain r v1 where w: "ensure_page_writable ?lp (ms, s) = (r, v1)" by (metis surj_pair)
      have step: "writable_loop remaining linear_addr (ms, s) =
          (case (r, v1) of (Ok _, v') \<Rightarrow> writable_loop ?r ?l v' | (Err _, v') \<Rightarrow> (Ok True, v')
            | (Panic, v') \<Rightarrow> (Panic, v'))"
        using False e w by (subst writable_loop.simps) (simp add: Let_def is_writable_def)
      from ensure_page_writable_effect [OF less.prems e(1,2) w] show ?thesis
      proof (elim disjE conjE)
        assume r: "r = Ok ()" and c: "cow_post (ms, s) R E ?lp e v1"
        from rest [OF cow_post_prepared [OF c e(1,2)]] r show ?thesis by (simp add: step)
      next
        assume "r = Err Errno_NOMEM" "v1 = (ms, s)"
        then show ?thesis using prepared_refl [OF less.prems] by (auto simp: step)
      qed
    next
      case nc: False
      then have "writable_loop remaining linear_addr (ms, s) = writable_loop ?r ?l (ms, s)"
        using False by (subst writable_loop.simps) (auto simp: Let_def is_writable_def split: option.splits)
      moreover have "write_safe ms ?lp s" using nc by (auto simp: write_safe_def)
      ultimately show ?thesis using rest [OF prepared_refl [OF less.prems]] by simp
    qed
  qed
qed

lemma unat_floor: "unat (LinAddr_floor a) = unat a div 4096"
  by (simp only: LinAddr_floor_def PAGE_SHIFT_def unat_drop_bit_eq) (simp add: drop_bit_eq_div)

lemma floor_add:
  assumes "4096 dvd unat x" "r < 4096"
  shows "LinAddr_floor (x + word_of_nat r) = LinAddr_floor x"
proof -
  obtain m where m: "unat x = 4096 * m" using assms(1) by (auto elim!: dvdE)
  have "unat x < 2 ^ 32" using unat_u32 [of x] by simp
  then have b: "unat x + r < 2 ^ 32" using m assms(2) by simp
  have "unat (word_of_nat r :: u32) = r" using assms(2) by (intro unat_word_of_nat) simp
  then have "unat (x + word_of_nat r) = 4096 * m + r" using b m by (simp add: unat_word_ariths)
  then have "unat (LinAddr_floor (x + word_of_nat r)) = unat (LinAddr_floor x)"
    using m assms(2) by (simp add: unat_floor)
  then show ?thesis by (simp add: word_unat_eq_iff)
qed

lemma dvd_unat_add: "4096 dvd unat a \<Longrightarrow> 4096 dvd unat b \<Longrightarrow> 4096 dvd unat (a + b :: u32)"
  by (simp add: unat_word_ariths dvd_mod)

text \<open>Every byte of the user range lies in a page the loop visits.\<close>

lemma byte_page:
  assumes base: "4096 dvd unat base" and i: "i < unat sz"
  shows "\<exists>k. k * 4096 < unat (saturating_add_u32 sz (LinAddr_page_offset addr)) \<and>
    LinAddr_floor (LinAddr_align_down addr + base + word_of_nat (k * 4096)) =
      LinAddr_floor (addr + word_of_nat i + base)"
proof -
  let ?off = "unat addr mod 4096"
  let ?q = "(?off + i) div 4096" and ?r = "(?off + i) mod 4096"
  let ?k = "?q mod 2 ^ 20"
  have off: "unat (LinAddr_page_offset addr) = ?off"
    by (simp only: LinAddr_page_offset_def PAGE_OFFSET_MASK_mask unat_and_mask) simp
  have al: "LinAddr_align_down addr = word_of_nat (unat addr div 4096 * 4096)"
  proof -
    have "LinAddr_align_down addr = word_of_nat (unat (LinAddr_floor addr)) * 4096"
      by (simp add: align_down_eq_addr_floor LinPageNum_addr_def PAGE_SHIFT_def push_bit_eq_mult)
    then show ?thesis by (simp only: unat_floor of_nat_mult of_nat_numeral)
  qed
  have q: "?off + i = ?q * 4096 + ?r" by simp
  have k: "word_of_nat (?k * 4096) = (word_of_nat (?q * 4096) :: u32)"
  proof -
    have "?q * 4096 mod 2 ^ 32 = ?k * 4096"
      using mult_mod_right [of 4096 ?q "2 ^ 20"] by (simp add: mult.commute)
    then have "?k * 4096 mod 2 ^ 32 = ?q * 4096 mod 2 ^ 32" by (metis mod_mod_trivial)
    then show ?thesis by (simp only: word_of_nat_eq_iff take_bit_eq_mod) simp
  qed
  have "?k * 4096 < unat (saturating_add_u32 sz (LinAddr_page_offset addr))"
  proof (cases "unat sz + ?off < 2 ^ 32")
    case True
    then have "unat (saturating_add_u32 sz (LinAddr_page_offset addr)) = unat sz + ?off"
      using off by (simp add: saturating_add_u32_def unat_word_ariths)
    moreover have "?k \<le> ?q" by (rule mod_less_eq_dividend)
    ultimately show ?thesis using i q by linarith
  next
    case False
    then have "unat (saturating_add_u32 sz (LinAddr_page_offset addr)) = 4294967295"
      using off by (simp add: saturating_add_u32_def)
    moreover have "?k < 2 ^ 20" by simp
    ultimately show ?thesis by simp
  qed
  moreover have "LinAddr_floor (LinAddr_align_down addr + base + word_of_nat (?k * 4096)) =
      LinAddr_floor (addr + word_of_nat i + base)"
  proof -
    let ?x = "LinAddr_align_down addr + base + word_of_nat (?k * 4096)"
    have "unat addr + i = unat addr div 4096 * 4096 + (?q * 4096 + ?r)" using q by simp
    then have "word_of_nat (unat addr + i) =
        (word_of_nat (unat addr div 4096 * 4096 + (?q * 4096 + ?r)) :: u32)" by (rule arg_cong)
    then have "addr + word_of_nat i = word_of_nat (unat addr div 4096 * 4096) +
        (word_of_nat (?q * 4096) + word_of_nat ?r)" by (simp only: of_nat_add of_nat_unat ucast_id)
    then have eq: "addr + word_of_nat i + base = ?x + word_of_nat ?r" by (simp only: al k) simp
    have "4096 dvd unat (word_of_nat (n * 4096) :: u32)" for n
      unfolding unat_of_nat by (rule dvd_mod) simp_all
    then have "4096 dvd unat ?x" unfolding al using base by (intro dvd_unat_add)
    then show ?thesis unfolding eq by (rule floor_add [symmetric]) simp
  qed
  ultimately show ?thesis by blast
qed

lemma ensure_user_area_writable_effect:
  assumes ok: "vm_ok s (ms # R) E" and base: "4096 dvd unat base"
    and run: "ensure_user_area_writable base addr sz (ms, s) = (r, v')"
  shows "prepared R E (ms, s) v' \<and> (r = Ok OutOfMemory \<or> r = Ok Resolved \<and>
    (\<forall>i < unat sz. write_safe (fst v') (LinAddr_floor (addr + word_of_nat i + base)) (snd v')))"
proof -
  let ?rem = "saturating_add_u32 sz (LinAddr_page_offset addr)"
  let ?lin = "LinAddr_align_down addr + base"
  from writable_loop_effect [OF ok, of ?rem ?lin] obtain failed v1 where
    v1: "writable_loop ?rem ?lin (ms, s) = (Ok failed, v1)" "prepared R E (ms, s) v1"
      "\<not> failed \<longrightarrow> (\<forall>k. k * 4096 < unat ?rem \<longrightarrow>
         write_safe (fst v1) (LinAddr_floor (?lin + word_of_nat (k * 4096))) (snd v1))" by blast
  have res: "r = Ok (if failed then OutOfMemory else Resolved)" "v' = v1"
    using run v1(1) by (simp_all add: ensure_user_area_writable_def Let_def)
  have "write_safe (fst v1) (LinAddr_floor (addr + word_of_nat i + base)) (snd v1)"
    if "\<not> failed" "i < unat sz" for i
    using byte_page [OF base that(2), of addr] v1(3) that(1) by metis
  with res v1(2) show ?thesis by auto
qed

end
