(* ===== verification/Mm_Properties.thy ===== *)
theory Mm_Properties
  imports Mm_Fault
begin

text \<open>
  The properties of the memory subsystem, over the invariant \<open>vm_ok\<close> of \<open>Mm_Invariant\<close> and \<open>Mm_Cow\<close>,
  and a concrete system on which they are exercised: one process with one mapped page.
\<close>

section \<open>Two free frames are enough to map a page\<close>

definition free_frames :: "mm \<Rightarrow> nat set" where
  "free_frames s = {i. i < length (mem_map s) \<and> mem_map s ! i = 0}"

lemma finite_free_frames [simp]: "finite (free_frames s)"
  by (simp add: free_frames_def)

lemma alloc_free:
  assumes "frame_ok s" "free_frames s \<noteq> {}"
  shows "\<exists>p s'. FrameAllocator_alloc s = (Ok (Some p), s') \<and> card (free_frames s) \<le> card (free_frames s') + 1"
proof -
  obtain i where i: "rposition (\<lambda>c. c = 0) (mem_map s) = Some i"
    using assms(2) by (cases "rposition (\<lambda>c. c = 0) (mem_map s)") (auto simp: rposition_None_iff free_frames_def)
  let ?s' = "s\<lparr>pmem := (pmem s)(frame_of_index i := (\<lambda>_. 0)), mem_map := (mem_map s)[i := 1]\<rparr>"
  have "free_frames s \<subseteq> insert i (free_frames ?s')"
    by (auto simp: free_frames_def nth_list_update)
  then have "card (free_frames s) \<le> card (insert i (free_frames ?s'))" by (rule card_mono [rotated]) simp
  also have "\<dots> \<le> card (free_frames ?s') + 1" by (simp add: card_insert_le_m1)
  finally show ?thesis using i assms(1) by (auto simp: alloc_result)
qed

lemma ensure_page_table_free:
  assumes ok: "vm_ok s (ms # R) E" and k: "pde_base ms \<le> k" "k < pde_base ms + 16"
    and free: "free_frames s \<noteq> {}" and run: "ensure_page_table k (ms, s) = (r, (ms', s'))"
  shows "r = Ok () \<and> card (free_frames s) \<le> card (free_frames s') + 1"
proof (cases "is_present (read_pde k s)")
  case True
  then show ?thesis using run by (auto simp: ensure_page_table_def)
next
  case False
  obtain p s1 where al: "FrameAllocator_alloc s = (Ok (Some p), s1)"
    "card (free_frames s) \<le> card (free_frames s1) + 1"
    using alloc_free [OF vm_inv_frame_ok [OF vm_okD(1) [OF ok]] free] by blast
  have none: "page_tables ms ! (k - pde_base ms) = None"
  proof -
    have "k - pde_base ms < 16" "pde_base ms + (k - pde_base ms) = k" using k by auto
    then show ?thesis
      using False space_okD(2) [OF vm_okD(3) [OF ok list.set_intros(1)]]
      by (cases "page_tables ms ! (k - pde_base ms)") (force simp: pdes_ok_def)+
  qed
  then show ?thesis
    using False al run k
    by (auto simp: ensure_page_table_def PDES_PER_PROCESS_def PageTable_new_def Let_def lift_mm_def
        drop_opt_def free_frames_def split: if_splits)
qed

lemma install_page_no_err: "install_page lp p v \<noteq> (Err e, v')"
  by (cases v) (auto simp: install_page_def bind_op_def set_pte_def insert_frame_def lift_mm_def drop_opt_def
      flush_vm_def PhysFrame_drop_def FrameAllocator_dealloc_def Let_def
      split: outcome.splits prod.splits option.splits if_splits)

lemma map_page_live:
  assumes ok: "vm_ok s (ms # R) E" and in_s: "in_space ms lp" and free: "2 \<le> card (free_frames s)"
    and run: "map_page lp None (ms, s) = (r, v')"
  shows "r = Ok ()"
proof -
  let ?k = "LinPageNum_pde_index lp"
  obtain r1 m1 s1 where et: "ensure_page_table ?k (ms, s) = (r1, (m1, s1))" by (metis surj_pair)
  have k: "pde_base ms \<le> ?k" "?k < pde_base ms + 16" using in_s by (auto simp: in_space_def)
  have "free_frames s \<noteq> {}" using free by auto
  note e = ensure_page_table_free [OF ok k this et]
  have ne: "free_frames s1 \<noteq> {}" using e free by auto
  have "frame_ok s1"
    by (rule vm_inv_frame_ok [OF vm_okD(1) [OF ensure_page_table_effect(1) [OF ok k et]]])
  then obtain p s2 where al: "FrameAllocator_alloc s1 = (Ok (Some p), s2)" using alloc_free [OF _ ne] by blast
  have "r = Ok () \<or> r = Err Errno_NOMEM"
    using map_page_effect(2) [of s ms R E None lp r v'] ok in_s run by (auto simp: held_def arg_ok_def)
  moreover have "map_page lp None (ms, s) =
      (if page_is_present m1 lp s1 then (Ok (), (m1, s1)) else install_page lp p (m1, s2))"
    using et e al by (simp add: map_page_def lift_mm_def bind_op_def)
  ultimately show ?thesis
    using run install_page_no_err [of lp p "(m1, s2)" Errno_NOMEM v'] by (auto split: if_splits)
qed

lemma bind_op_keeps:
  assumes "\<And>w. g (snd (m w)) = g w" "\<And>a w. g (snd (f a w)) = g w"
  shows "g (snd (bind_op m f v)) = g v"
proof (cases "m v")
  case (Pair r w)
  then have "g w = g v" using assms(1) [of v] by simp
  with Pair assms(2) show ?thesis by (cases r) (simp_all add: bind_op_def)
qed

lemma pde_base_kept:
  "pde_base (fst (snd (lift_mm m v))) = pde_base (fst v)"
  "pde_base (fst (snd (set_pte lp e v))) = pde_base (fst v)"
  "pde_base (fst (snd (insert_frame lp p v))) = pde_base (fst v)"
  "pde_base (fst (snd (flush_vm v))) = pde_base (fst v)"
  "pde_base (fst (snd (ensure_page_table k v))) = pde_base (fst v)"
  by (cases v; auto simp: lift_mm_def set_pte_def insert_frame_def flush_vm_def ensure_page_table_def Let_def
      split: outcome.splits prod.splits option.splits)+

lemma map_page_pde_base: "pde_base (fst (snd (map_page lp frame v))) = pde_base (fst v)"
proof -
  let ?g = "\<lambda>w :: vm. pde_base (fst w)"
  have ins: "?g (snd (install_page lp p w)) = ?g w" for p w
    unfolding install_page_def by (intro bind_op_keeps [where g = ?g] pde_base_kept)
  have fd: "?g (snd (fail_dropping f e w :: unit outcome \<times> vm)) = ?g w" for f e w
    unfolding fail_dropping_def by (intro bind_op_keeps [where g = ?g] pde_base_kept) simp
  have al: "?g (snd (bind_op (lift_mm FrameAllocator_alloc)
      (\<lambda>f. case f of None \<Rightarrow> (\<lambda>v2. (Err Errno_NOMEM, v2)) | Some p \<Rightarrow> install_page lp p) w)) = ?g w" for w
    by (intro bind_op_keeps [where g = ?g] pde_base_kept) (simp add: ins split: option.splits)
  obtain r1 v1 where e: "ensure_page_table (LinPageNum_pde_index lp) v = (r1, v1)" by (metis surj_pair)
  have b: "?g v1 = ?g v" using pde_base_kept(5) [of "LinPageNum_pde_index lp" v] e by simp
  show ?thesis
    using e b by (cases r1; cases frame) (simp_all add: map_page_def fd ins al)
qed

section \<open>A concrete system\<close>

definition boot_mm :: mm where
  "boot_mm = \<lparr>mem_map = replicate 3584 0, pmem = (\<lambda>_ _. 0), tlb_stale = False\<rparr>"

definition no_handles :: "PhysPageNum \<Rightarrow> nat" where
  "no_handles f = 0"

definition demo_page :: LinPageNum where
  "demo_page = LinPageNum_from_indices 16 3"

definition demo_vm :: vm where
  "demo_vm = snd (map_page demo_page None (MemorySpace_new 1, boot_mm))"

lemma vm_ok_empty: "vm_ok boot_mm [] no_handles"
proof -
  have "frame_rc boot_mm f = 0" for f
    by (auto simp: frame_rc_def boot_mm_def tracked_frame_def PAGING_PAGES_def)
  then show ?thesis
    by (simp add: vm_ok_def vm_inv_def frames.accounted_def all_handles_def placed_def no_handles_def)
      (simp add: frame_ok_def boot_mm_def PAGING_PAGES_def)
qed

lemma vm_ok_one: "vm_ok boot_mm [MemorySpace_new 1] no_handles"
  by (rule vm_ok_new_space [OF vm_ok_empty]) (simp_all add: read_pde_def boot_mm_def)

lemma demo_in_space: "in_space (MemorySpace_new 1) demo_page"
  by (simp add: in_space_def demo_page_def MemorySpace_new_def PDES_PER_PROCESS_def)

lemma boot_free: "2 \<le> card (free_frames boot_mm)"
proof -
  have "free_frames boot_mm = {..<3584}" by (auto simp: free_frames_def boot_mm_def)
  then show ?thesis by simp
qed

lemma demo_runs: "map_page demo_page None (MemorySpace_new 1, boot_mm) = (Ok (), demo_vm)"
  using map_page_live [OF vm_ok_one demo_in_space boot_free, of _ demo_vm]
  by (cases "map_page demo_page None (MemorySpace_new 1, boot_mm)") (auto simp: demo_vm_def)

lemma demo_absent: "\<not> page_is_present (MemorySpace_new 1) lp boot_mm"
  by (simp add: page_is_present_def pte_def find_pte_def read_pde_def boot_mm_def Let_def)

lemma demo_post:
  assumes "vm_ok boot_mm (MemorySpace_new 1 # R) no_handles"
  shows "vm_ok (snd demo_vm) (fst demo_vm # R) no_handles"
    "page_is_present (fst demo_vm) demo_page (snd demo_vm)"
    "view (snd demo_vm) (fst demo_vm) demo_page = Some (\<lambda>_. 0)"
proof -
  have "map_page_post (MemorySpace_new 1, boot_mm) R no_handles demo_page (\<lambda>_. 0) (Ok ()) (fst demo_vm, snd demo_vm)"
    using map_page_effect(1) [of boot_mm "MemorySpace_new 1" R no_handles None] assms demo_in_space
      demo_runs by (simp add: held_def arg_ok_def)
  note p = this [unfolded map_page_post_def prod.case]
  show "vm_ok (snd demo_vm) (fst demo_vm # R) no_handles" using p by (elim conjE)
  show "page_is_present (fst demo_vm) demo_page (snd demo_vm)" using p by (elim conjE) (erule mp, rule refl)
  show "view (snd demo_vm) (fst demo_vm) demo_page = Some (\<lambda>_. 0)" using p demo_absent by blast
qed

lemma vm_ok_two: "i \<in> {2, 3} \<Longrightarrow> vm_ok boot_mm [MemorySpace_new 1, MemorySpace_new i] no_handles"
  by (intro vm_ok_new_space vm_ok_empty)
    (auto simp: read_pde_def boot_mm_def MemorySpace_new_def PDES_PER_PROCESS_def)

lemmas demo_ok = demo_post [OF vm_ok_two [OF insertI1]]

lemma demo_base: "pde_base (fst demo_vm) = 16"
  using map_page_pde_base [of demo_page None "(MemorySpace_new 1, boot_mm)"]
  by (simp add: demo_vm_def MemorySpace_new_def PDES_PER_PROCESS_def)

lemma demo_slot3_free: "\<forall>i<16. \<not> is_present (read_pde (3 * 16 + i) (snd demo_vm))"
proof -
  have "vm_ok (snd demo_vm) [fst demo_vm, MemorySpace_new 3] no_handles"
    by (rule demo_post(1), rule vm_ok_two) simp
  then have "pdes_ok (snd demo_vm) (MemorySpace_new 3)" using vm_okD(3) space_okD(2) by auto
  then show ?thesis by (simp add: pdes_ok_def MemorySpace_new_def PDES_PER_PROCESS_def)
qed

section \<open>Properties\<close>

text \<open>
  (C1) Fork.  \<open>cow_copy\<close> never panics.  When it succeeds, every page of the child up to the data
  limit shows the bytes of the parent's page, its entries are the parent's with the write permission
  removed, nothing else is mapped in the child, and no process, the parent included, sees a page
  change; the invariant holds for the child too, so no frame is writable from two processes and
  every reference count is the number of holders.  When memory runs out it reports \<open>ENOMEM\<close>, and
  everything taken for the child is given back.
\<close>

theorem cow_copy_forks:
  assumes "vm_ok s (P # R) E" "0 < ci" "ci < 64" "ci * 16 \<notin> pde_base ` set (P # R)"
    "\<forall>i<16. \<not> is_present (read_pde (ci * 16 + i) s)" "cow_copy P ci data_limit s = (r, s')"
  shows "fork_post P R E ci (cow_pde_count data_limit) s r s'"
  by (rule cow_copy_effect [OF assms])

theorem cow_copy_forks_witness:
  "view (snd demo_vm) (fst demo_vm) demo_page = Some (\<lambda>_. 0) \<and>
   (case cow_copy (fst demo_vm) 3 4096 (snd demo_vm) of
      (r, s') \<Rightarrow> fork_post (fst demo_vm) [MemorySpace_new 2] no_handles 3 1 (snd demo_vm) r s')"
proof -
  have "3 * 16 \<notin> pde_base ` set [fst demo_vm, MemorySpace_new 2]"
    by (simp add: demo_base MemorySpace_new_def PDES_PER_PROCESS_def)
  moreover have "cow_pde_count 4096 = 1"
    by (simp add: cow_pde_count_def ENTRIES_PER_TABLE_def PAGE_SIZE_def PDES_PER_PROCESS_def)
  ultimately show ?thesis
    using cow_copy_forks [OF demo_ok(1) _ _ _ demo_slot3_free, of 4096] demo_ok(3) by (auto split: prod.splits)
qed

text \<open>
  (C2) The write-protect fault.  For a present page \<open>handle_wp_page\<close> either leaves the page writable
  with the same bytes, and no other page of any process changed, or reports that memory is
  exhausted and changes nothing.
\<close>

theorem handle_wp_page_isolates:
  assumes "vm_ok s (ms # R) E" "pte ms (LinAddr_floor address) s = Some e" "is_present e"
    "handle_wp_page address (ms, s) = (r, v')"
  shows "r = Ok Resolved \<and> cow_post (ms, s) R E (LinAddr_floor address) e v' \<or>
    r = Ok OutOfMemory \<and> v' = (ms, s)"
proof -
  obtain r1 v1 where w: "ensure_page_writable (LinAddr_floor address) (ms, s) = (r1, v1)" by (metis surj_pair)
  from ensure_page_writable_effect [OF assms(1-3) w] assms(4) w show ?thesis
    by (auto simp: handle_wp_page_def)
qed

definition demo_address :: u32 where
  "demo_address = LinPageNum_addr demo_page"

lemma demo_address_page: "LinAddr_floor demo_address = demo_page"
  by (simp add: demo_address_def demo_page_def LinPageNum_addr_def LinAddr_floor_def PAGE_SHIFT_def
      LinPageNum_from_indices_def push_bit_eq_mult)

theorem handle_wp_page_isolates_witness:
  "\<exists>e. pte (fst demo_vm) demo_page (snd demo_vm) = Some e \<and> is_present e \<and>
     (case handle_wp_page demo_address demo_vm of
        (r, v') \<Rightarrow> r = Ok Resolved \<and> cow_post demo_vm [MemorySpace_new 2] no_handles demo_page e v' \<or>
                  r = Ok OutOfMemory \<and> v' = demo_vm)"
proof -
  from demo_ok(2) obtain e where e: "pte (fst demo_vm) demo_page (snd demo_vm) = Some e" "is_present e"
    by (auto simp: page_is_present_def split: option.splits)
  then show ?thesis
    using handle_wp_page_isolates [OF demo_ok(1), of demo_address e]
    by (auto simp: demo_address_page split: prod.splits)
qed

text \<open>
  (C3) Exit.  Dropping an address space never panics, removes every directory entry of its window,
  gives back exactly its own references, and leaves every page of every other process as it was.
\<close>

theorem MemorySpace_drop_releases:
  assumes "vm_ok s (ms # R) E"
  shows "\<exists>s'. MemorySpace_drop ms s = (Ok (), s') \<and> vm_ok s' R E \<and>
    (\<forall>i<16. \<not> is_present (read_pde (pde_base ms + i) s')) \<and>
    (\<forall>ms2\<in>set R. \<forall>lp. view s' ms2 lp = view s ms2 lp)"
  using MemorySpace_drop_effect [OF assms] by blast

theorem MemorySpace_drop_releases_witness:
  "view (snd demo_vm) (fst demo_vm) demo_page = Some (\<lambda>_. 0) \<and>
   (\<exists>s'. MemorySpace_drop (fst demo_vm) (snd demo_vm) = (Ok (), s') \<and> vm_ok s' [MemorySpace_new 2] no_handles \<and>
     (\<forall>i<16. \<not> is_present (read_pde (16 + i) s')))"
  using MemorySpace_drop_releases [OF demo_ok(1)] demo_ok(3) unfolding demo_base by blast

text \<open>
  (C4) Demand mapping.  \<open>map_page\<close> keeps the invariant on every path, the error paths included (a
  frame passed in and not used is released); on success the page is present and shows the zero page,
  or the bytes of the frame passed in, unless it was present already; nothing else changes.  It
  fails only with \<open>ENOMEM\<close>, or with \<open>EEXIST\<close> when a frame is passed for a page already present.
\<close>

theorem map_page_maps:
  assumes "vm_ok s (ms # R) (held E frame)" "arg_ok frame (ms # R) E" "in_space ms lp"
    "map_page lp frame (ms, s) = (r, v')"
  shows "map_page_post (ms, s) R E lp (case frame of None \<Rightarrow> (\<lambda>_. 0) | Some p \<Rightarrow> pmem s p) r v' \<and>
    (r = Ok () \<or> r = Err Errno_NOMEM \<or> r = Err Errno_EXIST \<and> frame \<noteq> None \<and> page_is_present ms lp s)"
  using map_page_effect [OF assms] by blast

theorem map_page_maps_witness:
  "map_page_post (MemorySpace_new 1, boot_mm) [MemorySpace_new 2] no_handles demo_page (\<lambda>_. 0) (Ok ()) demo_vm"
  using map_page_maps [of boot_mm "MemorySpace_new 1" "[MemorySpace_new 2]" no_handles None demo_page "Ok ()" demo_vm]
    vm_ok_two [OF insertI1] demo_in_space demo_runs by (simp add: held_def arg_ok_def)

text \<open>
  With two free frames a demand mapping succeeds: one for the page table, one for the page.
\<close>

theorem map_page_two_frames:
  assumes "vm_ok s (ms # R) E" "in_space ms lp" "2 \<le> card (free_frames s)"
  shows "\<exists>v'. map_page lp None (ms, s) = (Ok (), v') \<and> page_is_present (fst v') lp (snd v')"
proof -
  obtain r v' where run: "map_page lp None (ms, s) = (r, v')" by (metis surj_pair)
  have r: "r = Ok ()" by (rule map_page_live [OF assms run])
  have "map_page_post (ms, s) R E lp (\<lambda>_. 0) r v'"
    using map_page_effect(1) [of s ms R E None lp r v'] assms run by (simp add: held_def arg_ok_def)
  then have "page_is_present (fst v') lp (snd v')" using r by (cases v') (simp add: map_page_post_def)
  with run r show ?thesis by blast
qed

theorem map_page_two_frames_witness:
  "2 \<le> card (free_frames boot_mm) \<and>
   (\<exists>v'. map_page demo_page None (MemorySpace_new 1, boot_mm) = (Ok (), v') \<and>
     page_is_present (fst v') demo_page (snd v'))"
  using map_page_two_frames [OF vm_ok_one demo_in_space boot_free] boot_free by blast

text \<open>
  (C5) Preparing a user buffer.  \<open>ensure_user_area_writable\<close> keeps every page's bytes and every other
  process's memory; when it does not report that memory is exhausted, every byte of the range lies
  in a page that is absent or privately writable, wrap-around of the address included.
\<close>

theorem ensure_user_area_writable_covers:
  assumes "vm_ok s (ms # R) E" "4096 dvd unat base"
    "ensure_user_area_writable base addr sz (ms, s) = (r, v')"
  shows "prepared R E (ms, s) v' \<and> (r = Ok OutOfMemory \<or> r = Ok Resolved \<and>
    (\<forall>i < unat sz. write_safe (fst v') (LinAddr_floor (addr + word_of_nat i + base)) (snd v')))"
  by (rule ensure_user_area_writable_effect [OF assms])

theorem ensure_user_area_writable_covers_witness:
  "case ensure_user_area_writable 0x4000000 0x3FF0 100 demo_vm of
     (r, v') \<Rightarrow> prepared [MemorySpace_new 2] no_handles demo_vm v' \<and> (r = Ok OutOfMemory \<or> r = Ok Resolved \<and>
       (\<forall>i<100. write_safe (fst v') (LinAddr_floor (0x3FF0 + word_of_nat i + 0x4000000)) (snd v')))"
proof -
  have "4096 dvd unat (0x4000000 :: u32)" by simp
  from ensure_user_area_writable_covers [OF demo_ok(1) this, of "0x3FF0" 100] show ?thesis
    by (auto split: prod.splits)
qed

text \<open>
  (C6) Reference counts never overflow: a frame that some address space maps has a count below 255,
  so one more \<open>share\<close> does not wrap the 8-bit counter.
\<close>

theorem share_count_bound:
  assumes "vm_ok s Ws E" "(lp, f) \<in> set (all_frames Ws)"
  shows "frame_rc s f < 255 \<and> fst (FrameAllocator_share f s) = Ok f"
proof -
  have inv: "vm_inv s Ws E" by (rule vm_okD(1) [OF assms(1)])
  have rc: "frame_rc s f < 255" by (rule data_frame_rc [OF inv]) (use assms(2) in force)
  have h: "f \<in># all_handles Ws" by (rule data_frame_handle [OF assms(2)])
  have tr: "tracked_frame f" by (rule vm_inv_tracked [OF inv h])
  have "0 < count (all_handles Ws) f" using h by (simp only: count_greater_zero_iff)
  then have "0 < frame_rc s f" using vm_inv_rc [OF inv tr] by simp
  from frames.share_ok [OF vm_inv_frame_ok [OF inv] tr this rc] rc show ?thesis by auto
qed

theorem share_count_bound_witness:
  "\<exists>f. (demo_page, f) \<in> set (all_frames [fst demo_vm, MemorySpace_new 2]) \<and> frame_rc (snd demo_vm) f < 255"
proof -
  have "map_option (pmem (snd demo_vm)) (map_of (data_frames (fst demo_vm)) demo_page) = Some (\<lambda>_. 0)"
    using view_eq [OF vm_okD(3) [OF demo_ok(1) list.set_intros(1)], of demo_page] demo_ok(3) by simp
  then obtain f where "map_of (data_frames (fst demo_vm)) demo_page = Some f" by auto
  then have "(demo_page, f) \<in> set (all_frames [fst demo_vm, MemorySpace_new 2])" by (auto dest: map_of_SomeD)
  with share_count_bound [OF demo_ok(1)] show ?thesis by blast
qed

text \<open>
  (C7) Contiguous allocation.  \<open>alloc_contiguous\<close> returns the highest run of free frames, zeroed and
  with count 1, and fails only when there is none (or for an empty request); dropping the run gives
  back the allocator's table exactly as it was.
\<close>

theorem alloc_contiguous_roundtrip:
  assumes "frame_ok s" "FrameAllocator_alloc_contiguous n s = (r, s')"
  shows "r = Ok None \<and> s' = s \<and> (n = 0 \<or> (\<forall>i. \<not> free_run s i n)) \<or>
    (\<exists>i s''. r = Ok (Some (frame_of_index i, n)) \<and> free_run s i n \<and> (\<forall>j>i. \<not> free_run s j n) \<and>
      (\<forall>k. i \<le> k \<longrightarrow> k < i + n \<longrightarrow> frame_rc s' (frame_of_index k) = 1 \<and> pmem s' (frame_of_index k) = (\<lambda>_. 0)) \<and>
      PhysFrameRange_drop (frame_of_index i, n) s' = (Ok (), s'') \<and> mem_map s'' = mem_map s)"
proof -
  from alloc_contiguous_result [OF assms] show ?thesis
  proof (elim disjE exE conjE)
    fix i assume r: "r = Ok (Some (frame_of_index i, n))" and n: "0 < n" and free: "free_run s i n"
      and top: "\<forall>j>i. \<not> free_run s j n" and s': "s' = claim_frames [i..<i + n] s"
    have le: "i + n \<le> PAGING_PAGES" and len: "length (mem_map s) = PAGING_PAGES"
      using free assms(1) by (auto simp: free_run_def frame_ok_def)
    then have "\<forall>k\<in>set [i..<i + n]. k < PAGING_PAGES" by auto
    note c = claim_frames_fields [OF this, of s]
    have one: "\<forall>k. i \<le> k \<longrightarrow> k < i + n \<longrightarrow> mem_map s' ! k = 1" using c s' le len by auto
    have ok': "frame_ok s'" using c s' len by (simp add: frame_ok_def)
    from dealloc_run [OF ok' le one] obtain s'' where
      d: "for_op FrameAllocator_dealloc (map frame_of_index [i..<i + n]) s' = (Ok (), s'')"
        "mem_map s'' = map (\<lambda>k. if i \<le> k \<and> k < i + n then 0 else mem_map s' ! k) [0..<length (mem_map s')]" by blast
    have "mem_map s'' = mem_map s"
    proof (rule nth_equalityI)
      show "length (mem_map s'') = length (mem_map s)" using d(2) c s' by simp
      fix k assume "k < length (mem_map s'')"
      then show "mem_map s'' ! k = mem_map s ! k" using d(2) c s' free by (auto simp: free_run_def)
    qed
    moreover have "frame_rc s' (frame_of_index k) = 1 \<and> pmem s' (frame_of_index k) = (\<lambda>_. 0)"
      if "i \<le> k" "k < i + n" for k
      using that one le c s' by (auto simp: frame_rc_def)
    moreover have "PhysFrameRange_drop (frame_of_index i, n) s' = (Ok (), s'')"
      using d(1) dealloc_range_run [OF le n] by (simp add: PhysFrameRange_drop_def)
    ultimately show ?thesis using r free top by blast
  qed blast+
qed

theorem alloc_contiguous_roundtrip_witness:
  "free_run boot_mm 3582 2 \<and> (\<exists>r s'. FrameAllocator_alloc_contiguous 2 boot_mm = (r, s') \<and> r \<noteq> Ok None \<and>
     (\<exists>i s''. PhysFrameRange_drop (frame_of_index i, 2) s' = (Ok (), s'') \<and> mem_map s'' = mem_map boot_mm))"
proof -
  have free: "free_run boot_mm 3582 2" by (simp add: free_run_def boot_mm_def)
  have ok: "frame_ok boot_mm" by (simp add: frame_ok_def boot_mm_def PAGING_PAGES_def)
  obtain r s' where run: "FrameAllocator_alloc_contiguous 2 boot_mm = (r, s')" by (metis surj_pair)
  from alloc_contiguous_roundtrip [OF ok run] free show ?thesis
    using run by (elim disjE exE conjE) auto
qed

end
