(* ===== verification/Ring_Buffer.thy ===== *)
theory Ring_Buffer
  imports Kernel_Prelude
begin

text \<open>
  Circular buffers with masked indices.  The first part is the arithmetic shared by the TTY queues
  (\<open>kernel/src/driver/character/tty/ring_buffer.rs\<close>, 1024 bytes) and the pipe
  (\<open>kernel/src/fs/file/pipe.rs\<close>, 4096 bytes): \<open>usize\<close> indices are 32-bit words, and an index
  difference is a wrapping subtraction followed by a mask.  The second part models the TTY ring
  buffer and shows that it implements a bounded double-ended queue of bytes.
\<close>

section \<open>Masked index arithmetic\<close>

definition ring_len :: "nat \<Rightarrow> u32 \<Rightarrow> u32 \<Rightarrow> nat" where
  "ring_len k head tail = unat ((head - tail) AND mask k)"

definition ring_contents :: "nat \<Rightarrow> 'a list \<Rightarrow> u32 \<Rightarrow> u32 \<Rightarrow> 'a list" where
  "ring_contents k buf head tail =
     map (\<lambda>i. buf ! ((unat tail + i) mod 2 ^ k)) [0..<ring_len k head tail]"

definition ring_wf :: "nat \<Rightarrow> 'a list \<Rightarrow> u32 \<Rightarrow> u32 \<Rightarrow> bool" where
  "ring_wf k buf head tail \<longleftrightarrow>
     0 < k \<and> k < 32 \<and> length buf = 2 ^ k \<and> unat head < 2 ^ k \<and> unat tail < 2 ^ k"

lemma length_ring_contents [simp]: "length (ring_contents k buf head tail) = ring_len k head tail"
  by (simp add: ring_contents_def)

lemma nth_ring_contents:
  "i < ring_len k head tail \<Longrightarrow> ring_contents k buf head tail ! i = buf ! ((unat tail + i) mod 2 ^ k)"
  by (simp add: ring_contents_def)

lemma unat_mask_index: "unat (x AND mask k :: u32) = unat x mod 2 ^ k"
  by (rule unat_and_mask)

lemma ring_len_eq:
  assumes "k < 32" "unat head < 2 ^ k" "unat tail < 2 ^ k"
  shows "ring_len k head tail = (unat head + 2 ^ k - unat tail) mod 2 ^ k"
proof -
  have k: "(2 :: nat) ^ k dvd 2 ^ 32" using assms(1) by (intro le_imp_power_dvd) simp
  have t: "unat tail < 2 ^ 32" using unat_u32 [of tail] by simp
  have "unat (head - tail) = (unat head + (2 ^ 32 - unat tail)) mod 2 ^ 32"
    using t unat_u32 [of head] by (auto simp: unat_sub_if_size word_size mod_if)
  then have "ring_len k head tail = (unat head + (2 ^ 32 - unat tail)) mod 2 ^ k"
    using k by (simp add: ring_len_def unat_mask_index mod_mod_cancel)
  also obtain m where m: "(2 :: nat) ^ 32 = 2 ^ k + m * 2 ^ k"
  proof -
    have "(2 :: nat) ^ 32 = 2 ^ k * 2 ^ (32 - k)" using assms(1) by (simp flip: power_add)
    also have "(2 :: nat) ^ (32 - k) = Suc (2 ^ (32 - k) - 1)" by simp
    finally have "(2 :: nat) ^ 32 = 2 ^ k + (2 ^ (32 - k) - 1) * 2 ^ k"
      by (metis mult.commute mult_Suc)
    then show ?thesis by (rule that)
  qed
  have "unat head + (2 ^ 32 - unat tail) = unat head + 2 ^ k - unat tail + m * 2 ^ k"
    using assms(3) m by simp
  finally show ?thesis by (simp only: mod_mult_self1)
qed

text \<open>The length is the one \<open>n < 2 ^ k\<close> with \<open>head = tail + n\<close> modulo the capacity.\<close>

lemma ring_len_iff:
  assumes "k < 32" "unat head < 2 ^ k" "unat tail < 2 ^ k"
  shows "ring_len k head tail = n \<longleftrightarrow> n < 2 ^ k \<and> unat head = (unat tail + n) mod 2 ^ k"
proof -
  let ?c = "2 ^ k :: nat"
  have L: "ring_len k head tail = (unat head + ?c - unat tail) mod ?c" by (rule ring_len_eq [OF assms])
  have "(unat tail + (unat head + ?c - unat tail) mod ?c) mod ?c = unat head"
  proof -
    have "(unat tail + (unat head + ?c - unat tail) mod ?c) mod ?c = (unat tail + (unat head + ?c - unat tail)) mod ?c"
      by (simp only: mod_add_right_eq)
    also have "unat tail + (unat head + ?c - unat tail) = unat head + ?c" using assms(3) by simp
    also have "(unat head + ?c) mod ?c = unat head" using assms(2) by simp
    finally show ?thesis .
  qed
  moreover have "((unat tail + n) mod ?c + ?c - unat tail) mod ?c = n" if "n < ?c"
  proof (cases "unat tail + n < ?c")
    case True
    then show ?thesis using that by simp
  next
    case False
    then have "(unat tail + n) mod ?c = unat tail + n - ?c"
      using that assms(3) by (simp add: mod_if)
    with False that assms(3) show ?thesis by simp
  qed
  ultimately show ?thesis using L by auto
qed

lemma ring_len_bound: "k < 32 \<Longrightarrow> ring_len k head tail < 2 ^ k"
  by (simp add: ring_len_def unat_mask_index)

lemma unat_advance:
  fixes i :: u32
  assumes "k < 32" "unat i < 2 ^ k" "n < 2 ^ k"
  shows "unat ((i + word_of_nat n) AND mask k) = (unat i + n) mod 2 ^ k"
proof -
  have le: "(2 :: nat) ^ k \<le> 2 ^ 31" using assms(1) by (intro power_increasing) auto
  then have n: "unat (word_of_nat n :: u32) = n" using assms(3) by (intro unat_word_of_nat) simp
  have "unat i + n < 2 ^ 32" using le assms(2,3) by simp
  then have "unat (i + word_of_nat n) = unat i + n" by (simp add: unat_word_ariths n)
  then show ?thesis by (simp add: unat_mask_index)
qed

lemma unat_retreat:
  fixes i :: u32
  assumes "k < 32" "unat i < 2 ^ k"
  shows "unat ((i - 1) AND mask k) = (unat i + 2 ^ k - 1) mod 2 ^ k"
proof (cases "k = 0")
  case True
  then show ?thesis by simp
next
  case False
  have "unat (1 :: u32) < 2 ^ k" using False one_less_power [of "2 :: nat" k] by simp
  from ring_len_eq [OF assms this] show ?thesis by (simp add: ring_len_def)
qed

text \<open>Overwriting a contiguous part of the storage.\<close>

definition overwrite :: "nat \<Rightarrow> 'a list \<Rightarrow> 'a list \<Rightarrow> 'a list" where
  "overwrite i xs buf = take i buf @ xs @ drop (i + length xs) buf"

lemma length_overwrite [simp]: "i + length xs \<le> length buf \<Longrightarrow> length (overwrite i xs buf) = length buf"
  by (simp add: overwrite_def)

lemma nth_overwrite:
  "i + length xs \<le> length buf \<Longrightarrow> j < length buf \<Longrightarrow>
     overwrite i xs buf ! j = (if i \<le> j \<and> j < i + length xs then xs ! (j - i) else buf ! j)"
  by (auto simp: overwrite_def nth_append)

lemma overwrite_one: "i < length buf \<Longrightarrow> overwrite i [x] buf = buf[i := x]"
  by (rule nth_equalityI) (auto simp: nth_overwrite nth_list_update)

lemma ring_push:
  assumes wf: "ring_wf k buf head tail" and fit: "unat head + length xs \<le> 2 ^ k"
    and room: "ring_len k head tail + length xs < 2 ^ k"
  defines "head' \<equiv> (head + word_of_nat (length xs)) AND mask k"
  shows "ring_wf k (overwrite (unat head) xs buf) head' tail"
    and "ring_len k head' tail = ring_len k head tail + length xs"
    and "ring_contents k (overwrite (unat head) xs buf) head' tail = ring_contents k buf head tail @ xs"
proof -
  let ?n = "ring_len k head tail" and ?c = "2 ^ k :: nat"
  have w: "k < 32" "0 < k" "length buf = ?c" "unat head < ?c" "unat tail < ?c"
    using wf by (auto simp: ring_wf_def)
  have len: "length xs < ?c" using room by simp
  have h': "unat head' = (unat head + length xs) mod ?c"
    unfolding head'_def by (rule unat_advance [OF w(1,4) len])
  have hd: "unat head = (unat tail + ?n) mod ?c" using ring_len_iff [OF w(1,4,5)] by blast
  show n': "ring_len k head' tail = ?n + length xs"
  proof (subst ring_len_iff)
    show "?n + length xs < ?c \<and> unat head' = (unat tail + (?n + length xs)) mod ?c"
      using room h' hd by (simp add: mod_simps add.assoc)
  qed (use w h' in auto)
  have sp: "length (overwrite (unat head) xs buf) = ?c" using fit w(3) by simp
  show "ring_wf k (overwrite (unat head) xs buf) head' tail"
    using w h' sp by (simp add: ring_wf_def)
  show "ring_contents k (overwrite (unat head) xs buf) head' tail = ring_contents k buf head tail @ xs"
  proof (rule nth_equalityI)
    show "length (ring_contents k (overwrite (unat head) xs buf) head' tail) =
        length (ring_contents k buf head tail @ xs)" by (simp add: ring_contents_def n')
    fix i assume "i < length (ring_contents k (overwrite (unat head) xs buf) head' tail)"
    then have i: "i < ?n + length xs" by (simp add: ring_contents_def n')
    let ?p = "(unat tail + i) mod ?c"
    have p: "?p < ?c" by simp
    have at: "overwrite (unat head) xs buf ! ?p =
        (if unat head \<le> ?p \<and> ?p < unat head + length xs then xs ! (?p - unat head) else buf ! ?p)"
      using nth_overwrite [of "unat head" xs buf ?p] fit w(3) by simp
    have pos: "(unat tail + (?n + j)) mod ?c = unat head + j" if "j < length xs" for j
    proof -
      have "(unat tail + (?n + j)) mod ?c = (unat head + j) mod ?c"
        by (metis hd add.assoc mod_add_left_eq)
      also have "\<dots> = unat head + j" using that fit by simp
      finally show ?thesis .
    qed
    show "ring_contents k (overwrite (unat head) xs buf) head' tail ! i =
        (ring_contents k buf head tail @ xs) ! i"
    proof (cases "i < ?n")
      case True
      have "\<not> (unat head \<le> ?p \<and> ?p < unat head + length xs)"
      proof
        assume a: "unat head \<le> ?p \<and> ?p < unat head + length xs"
        then have "(unat tail + (?n + (?p - unat head))) mod ?c = unat head + (?p - unat head)"
          by (intro pos) linarith
        then have "?p = (unat tail + (?n + (?p - unat head))) mod ?c" using a by simp
        moreover have "?n + (?p - unat head) < ?c" using a room by linarith
        ultimately have "i = ?n + (?p - unat head)"
          using mod_add_cancel [of i ?c "?n + (?p - unat head)" "unat tail"] True room by simp
        with True show False by simp
      qed
      then show ?thesis using True i at by (auto simp: ring_contents_def n' nth_append)
    next
      case False
      then obtain j where j: "i = ?n + j" "j < length xs" using i by (metis add_less_cancel_left le_Suc_ex not_less)
      then have "?p = unat head + j" using pos [of j] by simp
      with j at have "overwrite (unat head) xs buf ! ?p = xs ! j" by simp
      then show ?thesis using j by (simp add: ring_contents_def n' nth_append)
    qed
  qed
qed

lemma ring_pop:
  assumes wf: "ring_wf k buf head tail" and n: "n \<le> ring_len k head tail"
  defines "tail' \<equiv> (tail + word_of_nat n) AND mask k"
  shows "ring_wf k buf head tail'"
    and "ring_len k head tail' = ring_len k head tail - n"
    and "ring_contents k buf head tail' = drop n (ring_contents k buf head tail)"
    and "unat tail + n \<le> 2 ^ k \<Longrightarrow> take n (drop (unat tail) buf) = take n (ring_contents k buf head tail)"
proof -
  let ?n = "ring_len k head tail" and ?c = "2 ^ k :: nat"
  have w: "k < 32" "0 < k" "length buf = ?c" "unat head < ?c" "unat tail < ?c"
    using wf by (auto simp: ring_wf_def)
  have nc: "n < ?c" using n ring_len_bound [OF w(1), of head tail] by simp
  have t': "unat tail' = (unat tail + n) mod ?c"
    unfolding tail'_def by (rule unat_advance [OF w(1,5) nc])
  have hd: "unat head = (unat tail + ?n) mod ?c" "?n < ?c" using ring_len_iff [OF w(1,4,5)] by blast+
  show n': "ring_len k head tail' = ?n - n"
  proof (subst ring_len_iff)
    have "(unat tail' + (?n - n)) mod ?c = (unat tail + n + (?n - n)) mod ?c"
      by (simp only: t' mod_add_left_eq)
    then show "?n - n < ?c \<and> unat head = (unat tail' + (?n - n)) mod ?c" using hd n by simp
  qed (use w t' in auto)
  show "ring_wf k buf head tail'" using w t' by (simp add: ring_wf_def)
  show "ring_contents k buf head tail' = drop n (ring_contents k buf head tail)"
  proof (rule nth_equalityI)
    fix i assume "i < length (ring_contents k buf head tail')"
    then have "i < ?n - n" by (simp add: ring_contents_def n')
    moreover from this have "n + i < ?n" by simp
    ultimately show "ring_contents k buf head tail' ! i = drop n (ring_contents k buf head tail) ! i"
      using n by (simp add: nth_ring_contents n' t' mod_simps add.assoc)
  qed (simp add: ring_contents_def n')
  show "take n (drop (unat tail) buf) = take n (ring_contents k buf head tail)" if "unat tail + n \<le> ?c"
    using that n w(3) by (intro nth_equalityI) (auto simp: ring_contents_def)
qed

lemma ring_empty: "ring_wf k buf head tail \<Longrightarrow> ring_len k head tail = 0 \<longleftrightarrow> head = tail"
  using ring_len_iff [of k head tail 0] by (auto simp: ring_wf_def word_unat_eq_iff)

lemma ring_pop_last:
  assumes wf: "ring_wf k buf head tail" and ne: "head \<noteq> tail"
  defines "head' \<equiv> (head - 1) AND mask k"
  shows "ring_wf k buf head' tail"
    and "ring_contents k buf head' tail = butlast (ring_contents k buf head tail)"
    and "buf ! unat head' = last (ring_contents k buf head tail)"
proof -
  let ?n = "ring_len k head tail" and ?c = "2 ^ k :: nat"
  have w: "k < 32" "0 < k" "length buf = ?c" "unat head < ?c" "unat tail < ?c"
    using wf by (auto simp: ring_wf_def)
  have pos: "0 < ?n" using ring_empty [OF wf] ne by simp
  have h': "unat head' = (unat head + ?c - 1) mod ?c"
    unfolding head'_def by (rule unat_retreat [OF w(1,4)])
  have hd: "unat head = (unat tail + ?n) mod ?c" "?n < ?c" using ring_len_iff [OF w(1,4,5)] by blast+
  have at: "unat head' = (unat tail + (?n - 1)) mod ?c"
  proof -
    have "(unat head + (?c - 1)) mod ?c = (unat tail + ?n + (?c - 1)) mod ?c"
      by (simp only: hd(1) mod_add_left_eq)
    also have "unat tail + ?n + (?c - 1) = unat tail + (?n - 1) + ?c" using pos by simp
    finally show ?thesis using h' by simp
  qed
  have n': "ring_len k head' tail = ?n - 1"
    by (subst ring_len_iff) (use at hd w h' in auto)
  show "ring_wf k buf head' tail" using w h' by (simp add: ring_wf_def)
  show "ring_contents k buf head' tail = butlast (ring_contents k buf head tail)"
  proof (rule nth_equalityI)
    fix i assume "i < length (ring_contents k buf head' tail)"
    then have "i < ?n - 1" by (simp add: ring_contents_def n')
    moreover from this have "i < ?n" by simp
    ultimately show "ring_contents k buf head' tail ! i = butlast (ring_contents k buf head tail) ! i"
      by (simp add: nth_ring_contents n' nth_butlast)
  qed (simp add: ring_contents_def n')
  have "last (ring_contents k buf head tail) = ring_contents k buf head tail ! (?n - 1)"
    using pos by (subst last_conv_nth) (auto simp flip: length_0_conv)
  then show "buf ! unat head' = last (ring_contents k buf head tail)"
    using pos by (simp add: ring_contents_def at)
qed

section \<open>A bounded double-ended queue\<close>

text \<open>
  What the line discipline relies on: a queue of at most \<open>cap\<close> bytes, filled at the back, read at the
  front by \<open>read\<close>, and edited at the back by the ERASE and KILL characters.
\<close>

locale bounded_queue =
  fixes invar :: "'q \<Rightarrow> bool"
    and items :: "'q \<Rightarrow> 'a list"
    and cap :: nat
    and new :: 'q
    and push :: "'a \<Rightarrow> 'q \<Rightarrow> bool \<times> 'q"
    and pop :: "'q \<Rightarrow> 'a option \<times> 'q"
    and peek_last :: "'q \<Rightarrow> 'a option"
    and pop_last :: "'q \<Rightarrow> 'a option \<times> 'q"
    and clear :: "'q \<Rightarrow> 'q"
  assumes new_ok: "invar new" "items new = []"
    and bound: "invar q \<Longrightarrow> length (items q) \<le> cap"
    and push_room: "invar q \<Longrightarrow> length (items q) < cap \<Longrightarrow>
      \<exists>q'. push x q = (True, q') \<and> invar q' \<and> items q' = items q @ [x]"
    and push_full: "invar q \<Longrightarrow> length (items q) = cap \<Longrightarrow> push x q = (False, q)"
    and pop_empty: "invar q \<Longrightarrow> items q = [] \<Longrightarrow> pop q = (None, q)"
    and pop_cons: "invar q \<Longrightarrow> items q = x # xs \<Longrightarrow>
      \<exists>q'. pop q = (Some x, q') \<and> invar q' \<and> items q' = xs"
    and peek_last: "invar q \<Longrightarrow> peek_last q = (if items q = [] then None else Some (last (items q)))"
    and pop_last_empty: "invar q \<Longrightarrow> items q = [] \<Longrightarrow> pop_last q = (None, q)"
    and pop_last_snoc: "invar q \<Longrightarrow> items q \<noteq> [] \<Longrightarrow>
      \<exists>q'. pop_last q = (Some (last (items q)), q') \<and> invar q' \<and> items q' = butlast (items q)"
    and clear_ok: "invar q \<Longrightarrow> invar (clear q)" "invar q \<Longrightarrow> items (clear q) = []"
begin

lemma push_invar: "invar q \<Longrightarrow> invar (snd (push x q))"
  using push_room [of q x] push_full [of q x] bound [of q] by fastforce

lemma push_items:
  "invar q \<Longrightarrow> items (snd (push x q)) = (if length (items q) < cap then items q @ [x] else items q)"
  using push_room [of q x] push_full [of q x] bound [of q] by fastforce

lemma pop_invar: "invar q \<Longrightarrow> invar (snd (pop q))"
  using pop_empty [of q] pop_cons [of q] by (cases "items q") fastforce+

lemma pop_items: "invar q \<Longrightarrow> items (snd (pop q)) = tl (items q)"
  using pop_empty [of q] pop_cons [of q] by (cases "items q") fastforce+

lemma pop_value: "invar q \<Longrightarrow> fst (pop q) = (case items q of [] \<Rightarrow> None | x # _ \<Rightarrow> Some x)"
  using pop_empty [of q] pop_cons [of q] by (cases "items q") fastforce+

text \<open>Pushing a list: what fits is appended in order, the rest is dropped.\<close>

fun push_all :: "'a list \<Rightarrow> 'q \<Rightarrow> 'q" where
  "push_all [] q = q"
| "push_all (x # xs) q = push_all xs (snd (push x q))"

lemma push_all_items:
  "invar q \<Longrightarrow> invar (push_all xs q) \<and> items (push_all xs q) = take cap (items q @ xs)"
proof (induction xs arbitrary: q)
  case Nil
  then show ?case using bound [of q] by simp
next
  case (Cons x xs)
  have "length (items q) = cap" if "\<not> length (items q) < cap" using that bound [OF Cons.prems] by simp
  then show ?case
    using Cons.IH [OF push_invar [OF Cons.prems, of x]] push_items [OF Cons.prems, of x]
    by (cases "length (items q) < cap") auto
qed

end

section \<open>The TTY ring buffer\<close>

record RingBuffer =
  buf :: "u8 list"
  head :: u32
  tail :: u32

definition CAPACITY :: nat where "CAPACITY = 1024"
definition MASK :: u32 where "MASK = 1023"

definition RingBuffer_new :: RingBuffer where
  "RingBuffer_new = \<lparr>buf = replicate CAPACITY 0, head = 0, tail = 0\<rparr>"

definition RingBuffer_len :: "RingBuffer \<Rightarrow> nat" where
  "RingBuffer_len q = unat ((head q - tail q) AND MASK)"

definition RingBuffer_remaining :: "RingBuffer \<Rightarrow> nat" where
  "RingBuffer_remaining q = unat MASK - RingBuffer_len q"

definition RingBuffer_is_empty :: "RingBuffer \<Rightarrow> bool" where
  "RingBuffer_is_empty q \<longleftrightarrow> head q = tail q"

definition RingBuffer_is_full :: "RingBuffer \<Rightarrow> bool" where
  "RingBuffer_is_full q \<longleftrightarrow> RingBuffer_remaining q = 0"

definition RingBuffer_push :: "u8 \<Rightarrow> RingBuffer \<Rightarrow> bool \<times> RingBuffer" where
  "RingBuffer_push byte q =
     (if RingBuffer_is_full q then (False, q)
      else (True, q\<lparr>buf := (buf q)[unat (head q) := byte], head := (head q + 1) AND MASK\<rparr>))"

definition RingBuffer_pop :: "RingBuffer \<Rightarrow> u8 option \<times> RingBuffer" where
  "RingBuffer_pop q =
     (if RingBuffer_is_empty q then (None, q)
      else (Some (buf q ! unat (tail q)), q\<lparr>tail := (tail q + 1) AND MASK\<rparr>))"

definition RingBuffer_last :: "RingBuffer \<Rightarrow> u8 option" where
  "RingBuffer_last q =
     (if RingBuffer_is_empty q then None
      else Some (buf q ! unat ((head q - 1) AND MASK)))"

definition RingBuffer_pop_last :: "RingBuffer \<Rightarrow> u8 option \<times> RingBuffer" where
  "RingBuffer_pop_last q =
     (if RingBuffer_is_empty q then (None, q)
      else
        let q' = q\<lparr>head := (head q - 1) AND MASK\<rparr>
        in (Some (buf q' ! unat (head q')), q'))"

definition RingBuffer_clear :: "RingBuffer \<Rightarrow> RingBuffer" where
  "RingBuffer_clear q = q\<lparr>tail := head q\<rparr>"

text \<open>The abstraction: the bytes in the order they will be popped.\<close>

definition ring_ok :: "RingBuffer \<Rightarrow> bool" where
  "ring_ok q \<longleftrightarrow> ring_wf 10 (buf q) (head q) (tail q)"

definition ring_items :: "RingBuffer \<Rightarrow> u8 list" where
  "ring_items q = ring_contents 10 (buf q) (head q) (tail q)"

lemma MASK_mask: "MASK = mask 10"
  by (simp add: MASK_def mask_eq_decr_exp)

lemma len_items: "RingBuffer_len q = length (ring_items q)"
  by (simp add: RingBuffer_len_def ring_items_def ring_len_def MASK_mask)

lemma remaining_items: "RingBuffer_remaining q = 1023 - length (ring_items q)"
  by (simp add: RingBuffer_remaining_def len_items MASK_def)

lemma ring_items_bound: "ring_ok q \<Longrightarrow> length (ring_items q) \<le> 1023"
  using ring_len_bound [of 10 "head q" "tail q"] by (simp add: ring_ok_def ring_items_def)

lemma full_items: "ring_ok q \<Longrightarrow> RingBuffer_is_full q \<longleftrightarrow> length (ring_items q) = 1023"
  using ring_items_bound [of q] by (auto simp: RingBuffer_is_full_def remaining_items)

lemma empty_items: "ring_ok q \<Longrightarrow> RingBuffer_is_empty q \<longleftrightarrow> ring_items q = []"
  using ring_empty [of 10 "buf q" "head q" "tail q"]
  by (simp add: ring_ok_def RingBuffer_is_empty_def ring_items_def flip: length_0_conv)

interpretation tty_queue: bounded_queue ring_ok ring_items 1023 RingBuffer_new RingBuffer_push
    RingBuffer_pop RingBuffer_last RingBuffer_pop_last RingBuffer_clear
proof (unfold_locales, goal_cases)
  case 1
  then show ?case by (simp add: ring_ok_def ring_wf_def RingBuffer_new_def CAPACITY_def)
next
  case 2
  then show ?case by (simp add: ring_items_def ring_contents_def ring_len_def RingBuffer_new_def)
next
  case (3 q)
  then show ?case by (rule ring_items_bound)
next
  case (4 q x)
  have wf: "ring_wf 10 (buf q) (head q) (tail q)" using 4(1) by (simp add: ring_ok_def)
  have h: "unat (head q) < length (buf q)" using wf by (simp add: ring_wf_def)
  have room: "ring_len 10 (head q) (tail q) + length [x] < 2 ^ 10" using 4(2) by (simp add: ring_items_def)
  have fit: "unat (head q) + length [x] \<le> 2 ^ 10" using wf by (simp add: ring_wf_def)
  from ring_push [OF wf fit room] 4 h show ?case
    by (simp add: RingBuffer_push_def full_items ring_ok_def ring_items_def overwrite_one MASK_mask)
next
  case (5 q x)
  then show ?case by (simp add: RingBuffer_push_def full_items)
next
  case (6 q)
  then show ?case by (simp add: RingBuffer_pop_def empty_items)
next
  case (7 q x xs)
  have wf: "ring_wf 10 (buf q) (head q) (tail q)" using 7(1) by (simp add: ring_ok_def)
  have n: "1 \<le> ring_len 10 (head q) (tail q)"
    using 7(2) by (metis One_nat_def Suc_leI length_Cons length_ring_contents ring_items_def zero_less_Suc)
  have t: "unat (tail q) < 1024" "length (buf q) = 1024" using wf by (simp_all add: ring_wf_def)
  note p = ring_pop [OF wf n]
  have "take 1 (drop (unat (tail q)) (buf q)) = take 1 (x # xs)"
    using p(4) 7(2) t(1) by (simp add: ring_items_def)
  then have "buf q ! unat (tail q) = x" using t by (simp add: take_Suc hd_drop_conv_nth)
  with p 7 show ?case
    by (simp add: RingBuffer_pop_def empty_items ring_ok_def ring_items_def MASK_mask)
next
  case (8 q)
  have wf: "ring_wf 10 (buf q) (head q) (tail q)" using 8 by (simp add: ring_ok_def)
  show ?case
  proof (cases "head q = tail q")
    case True
    then show ?thesis using 8 empty_items [OF 8] by (simp add: RingBuffer_last_def RingBuffer_is_empty_def)
  next
    case False
    from ring_pop_last(3) [OF wf this] False empty_items [OF 8] show ?thesis
      by (simp add: RingBuffer_last_def RingBuffer_is_empty_def ring_items_def MASK_mask)
  qed
next
  case (9 q)
  then show ?case by (simp add: RingBuffer_pop_last_def empty_items)
next
  case (10 q)
  have wf: "ring_wf 10 (buf q) (head q) (tail q)" using 10(1) by (simp add: ring_ok_def)
  have "head q \<noteq> tail q" using 10 empty_items by (auto simp: RingBuffer_is_empty_def)
  from ring_pop_last [OF wf this] 10 show ?case
    by (simp add: RingBuffer_pop_last_def empty_items ring_ok_def ring_items_def MASK_mask Let_def)
next
  case (11 q)
  then show ?case by (simp add: ring_ok_def RingBuffer_clear_def ring_wf_def)
next
  case (12 q)
  then show ?case by (simp add: ring_items_def RingBuffer_clear_def ring_contents_def ring_len_def)
qed

end
