(* ===== verification/Tty.thy ===== *)
theory Tty
  imports Ring_Buffer
begin

text \<open>
  The TTY core: \<open>kernel/src/driver/character/tty/mod.rs\<close>, \<open>line_discipline.rs\<close>, the state changes of
  \<open>ioctl.rs\<close>, and the terminal settings of \<open>user_lib/src/syscall/tty.rs\<close>.

  \<open>TtyState\<close> has the fields of the source (\<open>output\<close> is \<open>output_queue\<close> here) plus \<open>posted\<close>, the signals the line discipline has sent to
  the foreground group (process group and signal number, newest last): delivery to the tasks is the
  task manager's business.  Bytes dropped by a full queue are dropped here too.
\<close>

section \<open>Terminal settings\<close>

record Termios =
  input_mode :: u32
  output_mode :: u32
  control_mode :: u32
  local_mode :: u32
  line_discipline :: u8
  control_chars :: "u8 list"

definition contains :: "u32 \<Rightarrow> u32 \<Rightarrow> bool" where
  "contains bits flag \<longleftrightarrow> bits AND flag = flag"

definition ISTRIP :: u32 where "ISTRIP = 0x20"
definition INLCR :: u32 where "INLCR = 0x40"
definition IGNCR :: u32 where "IGNCR = 0x80"
definition ICRNL :: u32 where "ICRNL = 0x100"
definition IUCLC :: u32 where "IUCLC = 0x200"

definition OPOST :: u32 where "OPOST = 1"
definition OLCUC :: u32 where "OLCUC = 2"
definition ONLCR :: u32 where "ONLCR = 4"
definition OCRNL :: u32 where "OCRNL = 8"
definition ONLRET :: u32 where "ONLRET = 0x20"

definition ISIG :: u32 where "ISIG = 1"
definition ICANON :: u32 where "ICANON = 2"
definition ECHO :: u32 where "ECHO = 8"
definition ECHOE :: u32 where "ECHOE = 0x10"
definition ECHOCTL :: u32 where "ECHOCTL = 0x200"
definition ECHOKE :: u32 where "ECHOKE = 0x800"

datatype ControlChar =
    Intr | Quit | Erase | Kill | Eof | Time | MinBytes | Swtc | Start
  | Stop | Susp | Eol | Reprint | Discard | WordErase | LiteralNext | Eol2

fun ControlChar_index :: "ControlChar \<Rightarrow> nat" where
  "ControlChar_index Intr = 0"
| "ControlChar_index Quit = 1"
| "ControlChar_index Erase = 2"
| "ControlChar_index Kill = 3"
| "ControlChar_index Eof = 4"
| "ControlChar_index Time = 5"
| "ControlChar_index MinBytes = 6"
| "ControlChar_index Swtc = 7"
| "ControlChar_index Start = 8"
| "ControlChar_index Stop = 9"
| "ControlChar_index Susp = 10"
| "ControlChar_index Eol = 11"
| "ControlChar_index Reprint = 12"
| "ControlChar_index Discard = 13"
| "ControlChar_index WordErase = 14"
| "ControlChar_index LiteralNext = 15"
| "ControlChar_index Eol2 = 16"

definition control_char :: "Termios \<Rightarrow> ControlChar \<Rightarrow> u8" where
  "control_char t cc = control_chars t ! ControlChar_index cc"

definition set_control_char :: "ControlChar \<Rightarrow> u8 \<Rightarrow> Termios \<Rightarrow> Termios" where
  "set_control_char cc v t = t\<lparr>control_chars := (control_chars t)[ControlChar_index cc := v]\<rparr>"

definition INIT_CONTROL_CHARS :: "u8 list" where
  "INIT_CONTROL_CHARS =
     [0x03, 0x1c, 0x7f, 0x15, 0x04, 0x00, 0x01, 0x00, 0x11, 0x13, 0x1a, 0x00, 0x12, 0x0f, 0x17, 0x16, 0x00]"

definition Termios_console_default :: Termios where
  "Termios_console_default =
     \<lparr>input_mode = ICRNL, output_mode = OPOST OR ONLCR, control_mode = 0,
      local_mode = ISIG OR ICANON OR ECHO OR ECHOCTL OR ECHOKE,
      line_discipline = 0, control_chars = INIT_CONTROL_CHARS\<rparr>"

definition Termios_serial_default :: Termios where
  "Termios_serial_default =
     \<lparr>input_mode = 0, output_mode = 0, control_mode = 0x3B, local_mode = 0,
      line_discipline = 0, control_chars = INIT_CONTROL_CHARS\<rparr>"

record Termio =
  io_input_mode :: u16
  io_output_mode :: u16
  io_control_mode :: u16
  io_local_mode :: u16
  io_line_discipline :: u8
  io_control_chars :: "u8 list"

definition NCC :: nat where "NCC = 8"

definition to_termio :: "Termios \<Rightarrow> Termio" where
  "to_termio t =
     \<lparr>io_input_mode = ucast (input_mode t), io_output_mode = ucast (output_mode t),
      io_control_mode = ucast (control_mode t), io_local_mode = ucast (local_mode t),
      io_line_discipline = line_discipline t, io_control_chars = take NCC (control_chars t)\<rparr>"

definition merge16 :: "u32 \<Rightarrow> u16 \<Rightarrow> u32" where
  "merge16 old new = (old AND NOT 0xffff) OR ucast new"

definition apply_termio :: "Termio \<Rightarrow> Termios \<Rightarrow> Termios" where
  "apply_termio io t =
     t\<lparr>input_mode := merge16 (input_mode t) (io_input_mode io),
       output_mode := merge16 (output_mode t) (io_output_mode io),
       control_mode := merge16 (control_mode t) (io_control_mode io),
       local_mode := merge16 (local_mode t) (io_local_mode io),
       line_discipline := io_line_discipline io,
       control_chars := io_control_chars io @ drop NCC (control_chars t)\<rparr>"

section \<open>TTY state\<close>

definition NO_FOREGROUND_GROUP :: int where "NO_FOREGROUND_GROUP = 0"
definition WRITE_WAKE_THRESHOLD :: nat where "WRITE_WAKE_THRESHOLD = 128"
definition READ_CANONICAL_LOW_WATER :: nat where "READ_CANONICAL_LOW_WATER = 20"

record TtyState =
  termios :: Termios
  foreground_group :: int
  stopped :: bool
  raw_input :: RingBuffer
  cooked_input :: RingBuffer
  output_queue :: RingBuffer
  pending_lines :: nat
  output_cr_pending :: bool
  posted :: "(int \<times> nat) list"

definition TtyState_new :: "Termios \<Rightarrow> TtyState" where
  "TtyState_new t =
     \<lparr>termios = t, foreground_group = NO_FOREGROUND_GROUP, stopped = False,
      raw_input = RingBuffer_new, cooked_input = RingBuffer_new, output_queue = RingBuffer_new,
      pending_lines = 0, output_cr_pending = False, posted = []\<rparr>"

definition is_canonical :: "TtyState \<Rightarrow> bool" where
  "is_canonical st = contains (local_mode (termios st)) ICANON"

definition has_readable_data :: "TtyState \<Rightarrow> bool" where
  "has_readable_data st =
     (if is_canonical st
      then pending_lines st > 0 \<or> RingBuffer_remaining (cooked_input st) \<le> READ_CANONICAL_LOW_WATER
      else \<not> RingBuffer_is_empty (cooked_input st))"

definition is_line_boundary :: "TtyState \<Rightarrow> u8 \<Rightarrow> bool" where
  "is_line_boundary st byte \<longleftrightarrow> byte = 0x0A \<or> byte = control_char (termios st) Eof"

section \<open>Line discipline\<close>

definition to_ascii_lowercase :: "u8 \<Rightarrow> u8" where
  "to_ascii_lowercase b = (if 0x41 \<le> b \<and> b \<le> 0x5A then b + 0x20 else b)"

definition to_ascii_uppercase :: "u8 \<Rightarrow> u8" where
  "to_ascii_uppercase b = (if 0x61 \<le> b \<and> b \<le> 0x7A then b - 0x20 else b)"

definition map_input :: "TtyState \<Rightarrow> u8 \<Rightarrow> u8 option" where
  "map_input st byte0 =
     (let mode = input_mode (termios st);
          byte = (if contains mode ISTRIP then byte0 AND 0x7f else byte0);
          lower = (\<lambda>b. if contains mode IUCLC then to_ascii_lowercase b else b)
      in if byte = 0x0D \<and> contains mode IGNCR then None
         else if byte = 0x0D \<and> contains mode ICRNL then Some (lower 0x0A)
         else if byte = 0x0A \<and> contains mode INLCR then Some (lower 0x0D)
         else Some (lower byte))"

text \<open>Each handler returns whether it consumed the byte, and the flush request it leaves.\<close>

definition handle_flow_control :: "u8 \<Rightarrow> bool \<Rightarrow> TtyState \<Rightarrow> bool \<times> bool \<times> TtyState" where
  "handle_flow_control byte needs_flush st =
     (if byte = control_char (termios st) Stop then (True, needs_flush, st\<lparr>stopped := True\<rparr>)
      else if byte = control_char (termios st) Start then (True, True, st\<lparr>stopped := False\<rparr>)
      else (False, needs_flush, st))"

definition SIGINT :: nat where "SIGINT = 2"
definition SIGQUIT :: nat where "SIGQUIT = 3"

definition signal_foreground_group :: "nat \<Rightarrow> TtyState \<Rightarrow> TtyState" where
  "signal_foreground_group sig st =
     (if foreground_group st < 0 \<or> foreground_group st = NO_FOREGROUND_GROUP then st
      else st\<lparr>posted := posted st @ [(foreground_group st, sig)]\<rparr>)"

definition handle_signal :: "u8 \<Rightarrow> TtyState \<Rightarrow> bool \<times> TtyState" where
  "handle_signal byte st =
     (if byte = control_char (termios st) Intr then (True, signal_foreground_group SIGINT st)
      else if byte = control_char (termios st) Quit then (True, signal_foreground_group SIGQUIT st)
      else (False, st))"

definition is_control :: "u8 \<Rightarrow> bool" where
  "is_control byte \<longleftrightarrow> byte < 0x20"

definition echoed_as_caret :: "u8 \<Rightarrow> bool" where
  "echoed_as_caret byte \<longleftrightarrow> is_control byte \<or> byte = 0x7f"

definition push_output :: "u8 \<Rightarrow> TtyState \<Rightarrow> TtyState" where
  "push_output byte st = st\<lparr>output_queue := snd (RingBuffer_push byte (output_queue st))\<rparr>"

definition push_erase_sequence :: "TtyState \<Rightarrow> TtyState" where
  "push_erase_sequence st = push_output 0x08 (push_output 0x20 (push_output 0x08 st))"

definition echo_erase :: "u8 \<Rightarrow> bool \<Rightarrow> TtyState \<Rightarrow> bool \<times> TtyState" where
  "echo_erase erased echoed st =
     (if \<not> contains (local_mode (termios st)) ECHO then (echoed, st)
      else if contains (local_mode (termios st)) ECHOE
      then (True, if echoed_as_caret erased then push_erase_sequence (push_erase_sequence st)
                  else push_erase_sequence st)
      else (True, push_output 0x08 st))"

definition echo :: "u8 \<Rightarrow> TtyState \<Rightarrow> bool \<times> TtyState" where
  "echo byte st =
     (if byte = 0x0A then (True, push_output 0x0D (push_output 0x0A st))
      else if is_control byte
      then if contains (local_mode (termios st)) ECHOCTL
           then (True, push_output (byte + 64) (push_output 0x5E st))
           else (False, st)
      else (True, push_output byte st))"

definition erase_last :: "bool \<Rightarrow> TtyState \<Rightarrow> bool \<times> bool \<times> TtyState" where
  "erase_last echoed st =
     (case RingBuffer_last (cooked_input st) of
        Some last_byte \<Rightarrow>
          if is_line_boundary st last_byte then (False, echoed, st)
          else
            let (echoed', st1) = echo_erase last_byte echoed st
            in (True, echoed', st1\<lparr>cooked_input := snd (RingBuffer_pop_last (cooked_input st1))\<rparr>)
      | None \<Rightarrow> (False, echoed, st))"

text \<open>\<open>while erase_last(...) {}\<close>; each iteration removes one byte, so the queue's length bounds it.\<close>

fun erase_line :: "nat \<Rightarrow> bool \<Rightarrow> TtyState \<Rightarrow> bool \<times> TtyState" where
  "erase_line 0 echoed st = (echoed, st)"
| "erase_line (Suc fuel) echoed st =
     (let (more, echoed', st') = erase_last echoed st
      in if more then erase_line fuel echoed' st' else (echoed', st'))"

definition is_backspace_alias :: "u8 \<Rightarrow> u8 \<Rightarrow> bool" where
  "is_backspace_alias byte erase \<longleftrightarrow> erase = 0x7f \<and> byte = 0x08 \<or> erase = 0x08 \<and> byte = 0x7f"

definition handle_editing :: "u8 \<Rightarrow> bool \<Rightarrow> TtyState \<Rightarrow> bool \<times> bool \<times> TtyState" where
  "handle_editing byte echoed st =
     (let erase = control_char (termios st) Erase; kill = control_char (termios st) Kill
      in if byte = kill
         then let (echoed', st') = erase_line (Suc (RingBuffer_len (cooked_input st))) echoed st
              in (True, echoed', st')
         else if byte = erase \<or> is_backspace_alias byte erase
         then let (_, echoed', st') = erase_last echoed st in (True, echoed', st')
         else (False, echoed, st))"

text \<open>One byte taken from the raw queue.\<close>

definition process_byte :: "u8 \<Rightarrow> bool \<Rightarrow> TtyState \<Rightarrow> bool \<times> TtyState" where
  "process_byte raw needs_flush st =
     (case map_input st raw of
        None \<Rightarrow> (needs_flush, st)
      | Some byte \<Rightarrow>
          let canonical = is_canonical st;
              (flow, nf1, st1) = (if canonical then handle_flow_control byte needs_flush st
                                  else (False, needs_flush, st))
          in if flow then (nf1, st1)
             else
               let (sig, st2) = (if contains (local_mode (termios st1)) ISIG then handle_signal byte st1
                                 else (False, st1))
               in if sig then (nf1, st2)
                  else
                    let (edit, nf2, st3) = (if canonical then handle_editing byte nf1 st2
                                            else (False, nf1, st2))
                    in if edit then (nf2, st3)
                       else
                         let st4 = (if is_line_boundary st3 byte
                                    then st3\<lparr>pending_lines := pending_lines st3 + 1\<rparr> else st3);
                             (nf3, st5) = (if contains (local_mode (termios st4)) ECHO
                                           then let (e, st') = echo byte st4 in (nf2 \<or> e, st')
                                           else (nf2, st4))
                         in (nf3, st5\<lparr>cooked_input := snd (RingBuffer_push byte (cooked_input st5))\<rparr>))"

fun process_loop :: "nat \<Rightarrow> bool \<Rightarrow> TtyState \<Rightarrow> bool \<times> TtyState" where
  "process_loop 0 needs_flush st = (needs_flush, st)"
| "process_loop (Suc fuel) needs_flush st =
     (if RingBuffer_is_empty (raw_input st) \<or> RingBuffer_is_full (cooked_input st) then (needs_flush, st)
      else
        case RingBuffer_pop (raw_input st) of
          (None, q) \<Rightarrow> (needs_flush, st\<lparr>raw_input := q\<rparr>)
        | (Some raw, q) \<Rightarrow>
            let (nf, st') = process_byte raw needs_flush (st\<lparr>raw_input := q\<rparr>)
            in process_loop fuel nf st')"

text \<open>Every iteration takes one raw byte, so the length of the raw queue is enough fuel.\<close>

definition process_raw_input :: "TtyState \<Rightarrow> bool \<times> TtyState" where
  "process_raw_input st = process_loop (RingBuffer_len (raw_input st)) False st"

section \<open>Reading, writing, flushing\<close>

fun push_raw :: "u8 list \<Rightarrow> TtyState \<Rightarrow> TtyState" where
  "push_raw [] st = st"
| "push_raw (b # bs) st = push_raw bs (st\<lparr>raw_input := snd (RingBuffer_push b (raw_input st))\<rparr>)"

definition receive_input :: "u8 list \<Rightarrow> TtyState \<Rightarrow> bool \<times> TtyState" where
  "receive_input bytes st = process_raw_input (push_raw bytes st)"

fun drain_cooked :: "nat \<Rightarrow> TtyState \<Rightarrow> u8 list \<times> TtyState" where
  "drain_cooked 0 st = ([], st)"
| "drain_cooked (Suc n) st =
     (case RingBuffer_pop (cooked_input st) of
        (None, q) \<Rightarrow> ([], st\<lparr>cooked_input := q\<rparr>)
      | (Some byte, q) \<Rightarrow>
          let st1 = st\<lparr>cooked_input := q\<rparr>;
              st2 = (if is_line_boundary st1 byte \<and> pending_lines st1 > 0
                     then st1\<lparr>pending_lines := pending_lines st1 - 1\<rparr> else st1)
          in if is_canonical st2 \<and> byte = control_char (termios st2) Eof then ([], st2)
             else let (bs, st3) = drain_cooked n st2 in (byte # bs, st3))"

fun take_output :: "nat \<Rightarrow> TtyState \<Rightarrow> u8 list \<times> TtyState" where
  "take_output 0 st = ([], st)"
| "take_output (Suc n) st =
     (if stopped st then ([], st)
      else case RingBuffer_pop (output_queue st) of
             (None, q) \<Rightarrow> ([], st\<lparr>output_queue := q\<rparr>)
           | (Some byte, q) \<Rightarrow> let (bs, st') = take_output n (st\<lparr>output_queue := q\<rparr>) in (byte # bs, st'))"

definition map_output_byte :: "TtyState \<Rightarrow> u8 \<Rightarrow> u8" where
  "map_output_byte st byte =
     (let mode = output_mode (termios st)
      in if byte = 0x0D \<and> contains mode OCRNL then 0x0A
         else if byte = 0x0A \<and> contains mode ONLRET then 0x0D
         else if contains mode OLCUC then to_ascii_uppercase byte
         else byte)"

definition should_insert_output_cr :: "TtyState \<Rightarrow> u8 \<Rightarrow> bool" where
  "should_insert_output_cr st byte \<longleftrightarrow>
     byte = 0x0A \<and> contains (output_mode (termios st)) ONLCR \<and> \<not> output_cr_pending st"

text \<open>The result is the number of input bytes consumed.\<close>

function fill_output :: "u8 list \<Rightarrow> TtyState \<Rightarrow> nat \<times> TtyState" where
  "fill_output [] st = (0, st)"
| "fill_output (b # rest) st =
     (if RingBuffer_is_full (output_queue st) then (0, st)
      else
        let post = contains (output_mode (termios st)) OPOST;
            byte = (if post then map_output_byte st b else b)
        in if post \<and> should_insert_output_cr st byte
           then fill_output (b # rest) (push_output 0x0D (st\<lparr>output_cr_pending := True\<rparr>))
           else let (n, st') = fill_output rest (push_output byte (st\<lparr>output_cr_pending := False\<rparr>))
                in (Suc n, st'))"
  by pat_completeness auto
termination
  by (relation "measure (\<lambda>(bs, st). 2 * length bs + (if output_cr_pending st then 0 else 1))")
    (auto simp: should_insert_output_cr_def push_output_def)

declare fill_output.simps(2) [simp del]

definition flush_input :: "TtyState \<Rightarrow> TtyState" where
  "flush_input st =
     st\<lparr>raw_input := RingBuffer_clear (raw_input st), cooked_input := RingBuffer_clear (cooked_input st),
        pending_lines := 0\<rparr>"

definition flush_output :: "TtyState \<Rightarrow> TtyState" where
  "flush_output st = st\<lparr>output_queue := RingBuffer_clear (output_queue st), output_cr_pending := False\<rparr>"

datatype FlushSelector = FlushInput | FlushOutput | FlushBoth

definition tty_flush :: "FlushSelector \<Rightarrow> TtyState \<Rightarrow> TtyState" where
  "tty_flush selector st =
     (case selector of
        FlushInput \<Rightarrow> flush_input st
      | FlushOutput \<Rightarrow> flush_output st
      | FlushBoth \<Rightarrow> flush_output (flush_input st))"

definition has_pending_output :: "TtyState \<Rightarrow> bool" where
  "has_pending_output st \<longleftrightarrow> \<not> stopped st \<and> \<not> RingBuffer_is_empty (output_queue st)"

end
