(* ===== verification/Tty_Line.thy ===== *)
theory Tty_Line
  imports Tty
begin

text \<open>
  What the line discipline computes.  \<open>cook_byte\<close> is the specification: a pure function on the list of
  cooked bytes, in which ERASE removes the last character of the unfinished line, KILL the whole
  unfinished line, flow-control and signal characters nothing, and every other byte is appended.
  The queue-based code refines it, keeps the count of complete lines exact, and the output
  post-processing emits exactly the expansion of the bytes it consumed.
\<close>

abbreviation cooked :: "TtyState \<Rightarrow> u8 list" where
  "cooked st \<equiv> ring_items (cooked_input st)"

abbreviation raw_bytes :: "TtyState \<Rightarrow> u8 list" where
  "raw_bytes st \<equiv> ring_items (raw_input st)"

abbreviation out_bytes :: "TtyState \<Rightarrow> u8 list" where
  "out_bytes st \<equiv> ring_items (output_queue st)"

definition boundary :: "Termios \<Rightarrow> u8 \<Rightarrow> bool" where
  "boundary t b \<longleftrightarrow> b = 0x0A \<or> b = control_char t Eof"

lemma is_line_boundary_eq: "is_line_boundary st = boundary (termios st)"
  by (simp add: fun_eq_iff is_line_boundary_def boundary_def)

definition tty_ok :: "TtyState \<Rightarrow> bool" where
  "tty_ok st \<longleftrightarrow>
     ring_ok (raw_input st) \<and> ring_ok (cooked_input st) \<and> ring_ok (output_queue st) \<and>
     pending_lines st = length (filter (boundary (termios st)) (cooked st))"

section \<open>The specification of the line editor\<close>

definition erase_char :: "Termios \<Rightarrow> u8 list \<Rightarrow> u8 list" where
  "erase_char t xs = (if xs = [] \<or> boundary t (last xs) then xs else butlast xs)"

definition kill_line :: "Termios \<Rightarrow> u8 list \<Rightarrow> u8 list" where
  "kill_line t xs = rev (dropWhile (\<lambda>x. \<not> boundary t x) (rev xs))"

definition is_flow :: "Termios \<Rightarrow> u8 \<Rightarrow> bool" where
  "is_flow t b \<longleftrightarrow> b = control_char t Stop \<or> b = control_char t Start"

definition is_sig :: "Termios \<Rightarrow> u8 \<Rightarrow> bool" where
  "is_sig t b \<longleftrightarrow> b = control_char t Intr \<or> b = control_char t Quit"

definition is_erase :: "Termios \<Rightarrow> u8 \<Rightarrow> bool" where
  "is_erase t b \<longleftrightarrow> b = control_char t Erase \<or> is_backspace_alias b (control_char t Erase)"

definition cook_mapped :: "Termios \<Rightarrow> u8 \<Rightarrow> u8 list \<Rightarrow> u8 list" where
  "cook_mapped t b xs =
     (let canonical = contains (local_mode t) ICANON
      in if canonical \<and> is_flow t b then xs
         else if contains (local_mode t) ISIG \<and> is_sig t b then xs
         else if canonical \<and> b = control_char t Kill then kill_line t xs
         else if canonical \<and> is_erase t b then erase_char t xs
         else xs @ [b])"

definition map_termios_input :: "Termios \<Rightarrow> u8 \<Rightarrow> u8 option" where
  "map_termios_input t b = map_input (TtyState_new t) b"

definition cook_byte :: "Termios \<Rightarrow> u8 \<Rightarrow> u8 list \<Rightarrow> u8 list" where
  "cook_byte t raw xs =
     (case map_termios_input t raw of None \<Rightarrow> xs | Some b \<Rightarrow> cook_mapped t b xs)"

lemma map_input_eq: "map_input st = map_termios_input (termios st)"
  by (simp add: fun_eq_iff map_input_def map_termios_input_def TtyState_new_def Let_def)

section \<open>Steps of the line discipline\<close>

text \<open>What echoing may change: the output queue only.\<close>

definition only_output :: "TtyState \<Rightarrow> TtyState \<Rightarrow> bool" where
  "only_output st st' \<longleftrightarrow> (\<exists>q. ring_ok q \<and> st' = st\<lparr>output_queue := q\<rparr>)"

text \<open>What editing leaves alone.\<close>

definition same_control :: "TtyState \<Rightarrow> TtyState \<Rightarrow> bool" where
  "same_control st st' \<longleftrightarrow>
     termios st' = termios st \<and> foreground_group st' = foreground_group st \<and>
     raw_input st' = raw_input st \<and> stopped st' = stopped st \<and> posted st' = posted st"

lemma same_control_trans: "same_control st st1 \<Longrightarrow> same_control st1 st2 \<Longrightarrow> same_control st st2"
  by (simp add: same_control_def)

lemma only_output_refl: "ring_ok (output_queue st) \<Longrightarrow> only_output st st"
  by (auto simp: only_output_def intro!: exI [of _ "output_queue st"])

lemma push_output_only: "ring_ok (output_queue st) \<Longrightarrow> only_output st (push_output b st)"
  using tty_queue.push_invar by (auto simp: only_output_def push_output_def)

lemma only_output_trans: "only_output st st1 \<Longrightarrow> only_output st1 st2 \<Longrightarrow> only_output st st2"
  by (auto simp: only_output_def)

lemma only_output_ring: "only_output st st' \<Longrightarrow> ring_ok (output_queue st')"
  by (auto simp: only_output_def)

lemma push_output_twice:
  "ring_ok (output_queue st) \<Longrightarrow> only_output st (push_output b (push_output a st))"
  by (meson push_output_only only_output_trans only_output_ring)

lemma echo_only: "ring_ok (output_queue st) \<Longrightarrow> only_output st (snd (echo b st))"
  by (auto simp: echo_def intro: push_output_only push_output_twice only_output_refl)

lemma push_erase_only: "ring_ok (output_queue st) \<Longrightarrow> only_output st (push_erase_sequence st)"
  unfolding push_erase_sequence_def by (meson push_output_only only_output_trans only_output_ring)

lemma echo_erase_only: "ring_ok (output_queue st) \<Longrightarrow> only_output st (snd (echo_erase b e st))"
  by (auto simp: echo_erase_def intro: only_output_refl push_output_only push_erase_only)
    (meson push_erase_only only_output_trans only_output_ring)+

lemma tty_okD:
  assumes "tty_ok st"
  shows "ring_ok (raw_input st)" "ring_ok (cooked_input st)" "ring_ok (output_queue st)"
    "pending_lines st = length (filter (boundary (termios st)) (cooked st))"
  using assms by (simp_all add: tty_ok_def)

lemma only_output_ok: "tty_ok st \<Longrightarrow> only_output st st' \<Longrightarrow> tty_ok st'"
  by (auto simp: tty_ok_def only_output_def)

lemma erase_last_effect:
  assumes ok: "tty_ok st"
  obtains (stop) e where "erase_last echoed st = (False, e, st)" "cooked st = [] \<or> boundary (termios st) (last (cooked st))"
  | (erase) e st' where "erase_last echoed st = (True, e, st')" "tty_ok st'" "cooked st' = butlast (cooked st)"
      "cooked st \<noteq> []" "\<not> boundary (termios st) (last (cooked st))" "same_control st st'"
proof (cases "cooked st = [] \<or> boundary (termios st) (last (cooked st))")
  case True
  then have "erase_last echoed st = (False, echoed, st)"
    using tty_queue.peek_last [OF tty_okD(2) [OF ok]]
    by (auto simp: erase_last_def is_line_boundary_eq)
  with True show ?thesis by (intro stop)
next
  case False
  obtain e st1 where e: "echo_erase (last (cooked st)) echoed st = (e, st1)" by (metis surj_pair)
  have oo: "only_output st st1" using echo_erase_only [OF tty_okD(3) [OF ok], of "last (cooked st)" echoed] e by simp
  let ?st' = "st1\<lparr>cooked_input := snd (RingBuffer_pop_last (cooked_input st1))\<rparr>"
  have c: "cooked_input st1 = cooked_input st" "same_control st st1" "pending_lines st1 = pending_lines st"
    using oo by (auto simp: only_output_def same_control_def)
  have run: "erase_last echoed st = (True, e, ?st')"
    using tty_queue.peek_last [OF tty_okD(2) [OF ok]] False e
    by (simp add: erase_last_def is_line_boundary_eq)
  obtain q where q: "RingBuffer_pop_last (cooked_input st) = (Some (last (cooked st)), q)" "ring_ok q"
    "ring_items q = butlast (cooked st)"
    using tty_queue.pop_last_snoc [OF tty_okD(2) [OF ok]] False by blast
  have "cooked st = butlast (cooked st) @ [last (cooked st)]" using False by simp
  then have "filter (boundary (termios st)) (cooked st) = filter (boundary (termios st)) (butlast (cooked st))"
    using False by (metis append_Nil2 filter.simps filter_append)
  then have "tty_ok ?st'" using ok oo q c by (simp add: tty_ok_def only_output_ring same_control_def)
  moreover have "same_control st ?st'" using c by (simp add: same_control_def)
  ultimately show ?thesis using run q c False by (intro erase [of e ?st']) auto
qed

lemma erase_line_effect:
  assumes "tty_ok st" "length (cooked st) \<le> fuel"
  shows "\<exists>e st'. erase_line (Suc fuel) echoed st = (e, st') \<and> tty_ok st' \<and> cooked st' = kill_line (termios st) (cooked st) \<and>
    same_control st st'"
  using assms
proof (induction fuel arbitrary: st echoed)
  case 0
  then show ?case
    by (cases rule: erase_last_effect [OF 0(1), of echoed]) (auto simp: kill_line_def same_control_def)
next
  case (Suc fuel)
  show ?case
  proof (cases rule: erase_last_effect [OF Suc.prems(1), of echoed])
    case (1 e)
    then have "kill_line (termios st) (cooked st) = cooked st"
      by (cases "cooked st" rule: rev_cases) (auto simp: kill_line_def)
    with 1 Suc.prems show ?thesis by (simp add: same_control_def)
  next
    case (2 e st')
    then have "kill_line (termios st) (cooked st) = kill_line (termios st) (cooked st')"
      by (cases "cooked st" rule: rev_cases) (auto simp: kill_line_def)
    moreover have "length (cooked st') \<le> fuel" using 2 Suc.prems(2) by simp
    ultimately show ?thesis
      using Suc.IH [OF 2(2), of e] 2 same_control_trans [OF 2(6)] by (auto simp: same_control_def)
  qed
qed


text \<open>The signals one input byte posts.\<close>

definition posts :: "Termios \<Rightarrow> int \<Rightarrow> u8 \<Rightarrow> (int \<times> nat) list" where
  "posts t pgrp raw =
     (case map_termios_input t raw of
        None \<Rightarrow> []
      | Some b \<Rightarrow>
          if contains (local_mode t) ISIG \<and> is_sig t b \<and> 0 < pgrp \<and>
             \<not> (contains (local_mode t) ICANON \<and> is_flow t b)
          then [(pgrp, if b = control_char t Intr then SIGINT else SIGQUIT)] else [])"

definition byte_post :: "u8 \<Rightarrow> TtyState \<Rightarrow> TtyState \<Rightarrow> bool" where
  "byte_post raw st st' \<longleftrightarrow>
     tty_ok st' \<and> cooked st' = cook_byte (termios st) raw (cooked st) \<and>
     termios st' = termios st \<and> foreground_group st' = foreground_group st \<and> raw_input st' = raw_input st \<and>
     posted st' = posted st @ posts (termios st) (foreground_group st) raw"

lemma handle_flow_eq:
  "handle_flow_control b nf st =
     (if is_flow (termios st) b
      then (True, if b = control_char (termios st) Stop then nf else True,
            st\<lparr>stopped := (b = control_char (termios st) Stop)\<rparr>)
      else (False, nf, st))"
  by (simp add: handle_flow_control_def is_flow_def)

lemma handle_signal_eq:
  "handle_signal b st =
     (if is_sig (termios st) b
      then (True, signal_foreground_group (if b = control_char (termios st) Intr then SIGINT else SIGQUIT) st)
      else (False, st))"
  by (simp add: handle_signal_def is_sig_def)

text \<open>Editing and appending, the part of a byte's processing that touches the cooked queue.\<close>

lemma handle_editing_effect:
  assumes ok: "tty_ok st"
  shows "\<exists>nf' st'. handle_editing b nf st = (b = control_char (termios st) Kill \<or> is_erase (termios st) b, nf', st') \<and>
    tty_ok st' \<and> same_control st st' \<and>
    cooked st' = (if b = control_char (termios st) Kill then kill_line (termios st) (cooked st)
      else if is_erase (termios st) b then erase_char (termios st) (cooked st) else cooked st)"
proof (cases "b = control_char (termios st) Kill")
  case True
  obtain e st' where "erase_line (Suc (RingBuffer_len (cooked_input st))) nf st = (e, st')" "tty_ok st'"
    "cooked st' = kill_line (termios st) (cooked st)" "same_control st st'"
    using erase_line_effect [OF ok, of "RingBuffer_len (cooked_input st)" nf] by (auto simp: len_items)
  with True show ?thesis by (simp add: handle_editing_def Let_def)
next
  case nk: False
  show ?thesis
  proof (cases "is_erase (termios st) b")
    case False
    with nk ok show ?thesis by (simp add: handle_editing_def is_erase_def same_control_def Let_def)
  next
    case True
    then show ?thesis
      using nk ok
      by (cases rule: erase_last_effect [OF ok, of nf])
        (auto simp: handle_editing_def is_erase_def same_control_def erase_char_def Let_def)
  qed
qed

definition append_byte :: "u8 \<Rightarrow> bool \<Rightarrow> TtyState \<Rightarrow> bool \<times> TtyState" where
  "append_byte b nf st =
     (let st4 = (if is_line_boundary st b then st\<lparr>pending_lines := pending_lines st + 1\<rparr> else st);
          (nf3, st5) = (if contains (local_mode (termios st4)) ECHO
                        then let (e, st') = echo b st4 in (nf \<or> e, st') else (nf, st4))
      in (nf3, st5\<lparr>cooked_input := snd (RingBuffer_push b (cooked_input st5))\<rparr>))"

lemma append_byte_effect:
  assumes ok: "tty_ok st" and room: "length (cooked st) < 1023"
  shows "\<exists>nf' st'. append_byte b nf st = (nf', st') \<and> tty_ok st' \<and> same_control st st' \<and> cooked st' = cooked st @ [b]"
proof -
  let ?st4 = "if is_line_boundary st b then st\<lparr>pending_lines := pending_lines st + 1\<rparr> else st"
  obtain nf3 st5 where e: "(if contains (local_mode (termios ?st4)) ECHO
      then let (e, st') = echo b ?st4 in (nf \<or> e, st') else (nf, ?st4)) = (nf3, st5)" by (metis surj_pair)
  have out4: "ring_ok (output_queue ?st4)" using tty_okD(3) [OF ok] by simp
  have oo: "only_output ?st4 st5"
    using e echo_only [OF out4, of b] only_output_refl [OF out4] by (auto split: if_splits prod.splits)
  have f: "cooked_input st5 = cooked_input st" "same_control st st5" "pending_lines st5 = pending_lines ?st4"
    using oo by (auto simp: only_output_def same_control_def split: if_splits)
  let ?st' = "st5\<lparr>cooked_input := snd (RingBuffer_push b (cooked_input st5))\<rparr>"
  have c: "cooked ?st' = cooked st @ [b]" "ring_ok (cooked_input ?st')"
    using tty_queue.push_items [OF tty_okD(2) [OF ok], of b] tty_queue.push_invar [OF tty_okD(2) [OF ok], of b] room
    by (simp_all add: f(1))
  have run: "append_byte b nf st = (nf3, ?st')" using e by (simp add: append_byte_def Let_def split: prod.splits)
  have "tty_ok ?st'"
    using ok oo c f by (auto simp: tty_ok_def same_control_def is_line_boundary_eq dest: only_output_ring)
  moreover have "same_control st ?st'" using f(2) by (simp add: same_control_def)
  ultimately show ?thesis using run c(1) by blast
qed


lemma process_byte_eq:
  "process_byte raw nf st =
     (case map_input st raw of
        None \<Rightarrow> (nf, st)
      | Some b \<Rightarrow>
          if is_canonical st \<and> is_flow (termios st) b
          then (if b = control_char (termios st) Stop then nf else True,
                st\<lparr>stopped := (b = control_char (termios st) Stop)\<rparr>)
          else if contains (local_mode (termios st)) ISIG \<and> is_sig (termios st) b
          then (nf, signal_foreground_group (if b = control_char (termios st) Intr then SIGINT else SIGQUIT) st)
          else if is_canonical st
          then let (edit, nf2, st3) = handle_editing b nf st
               in if edit then (nf2, st3) else append_byte b nf2 st3
          else append_byte b nf st)"
  by (auto simp: process_byte_def handle_flow_eq handle_signal_eq append_byte_def Let_def split: option.splits prod.splits)

lemma process_byte_effect:
  assumes ok: "tty_ok st" and room: "length (cooked st) < 1023"
  shows "\<exists>nf' st'. process_byte raw nf st = (nf', st') \<and> byte_post raw st st'"
proof (cases "map_input st raw")
  case None
  then show ?thesis
    using ok by (simp add: process_byte_eq byte_post_def cook_byte_def posts_def map_input_eq)
next
  case (Some b)
  note m = Some [unfolded map_input_eq]
  let ?t = "termios st"
  consider (flow) "is_canonical st" "is_flow ?t b"
    | (sig) "\<not> (is_canonical st \<and> is_flow ?t b)" "contains (local_mode ?t) ISIG" "is_sig ?t b"
    | (plain) "\<not> (is_canonical st \<and> is_flow ?t b)" "\<not> (contains (local_mode ?t) ISIG \<and> is_sig ?t b)" by blast
  then show ?thesis
  proof cases
    case flow
    then show ?thesis
      using ok m Some
      by (auto simp: process_byte_eq byte_post_def cook_byte_def cook_mapped_def posts_def is_canonical_def tty_ok_def)
  next
    case sig
    then show ?thesis
      using ok m Some
      by (auto simp: process_byte_eq byte_post_def cook_byte_def cook_mapped_def posts_def is_canonical_def tty_ok_def
          signal_foreground_group_def NO_FOREGROUND_GROUP_def Let_def)
  next
    case plain
    have post: "byte_post raw st st'" if "tty_ok st'" "same_control st st'" "cooked st' = cook_mapped ?t b (cooked st)" for st'
      using that m plain by (auto simp: byte_post_def cook_byte_def same_control_def posts_def is_canonical_def)
    show ?thesis
    proof (cases "is_canonical st")
      case False
      obtain nf' st' where "append_byte b nf st = (nf', st')" "tty_ok st'" "same_control st st'"
        "cooked st' = cooked st @ [b]" using append_byte_effect [OF ok room] by blast
      then show ?thesis
        using plain False Some post [of st']
        by (auto simp: process_byte_eq cook_mapped_def is_canonical_def)
    next
      case True
      obtain nf2 st3 where e: "handle_editing b nf st = (b = control_char ?t Kill \<or> is_erase ?t b, nf2, st3)"
        "tty_ok st3" "same_control st st3"
        "cooked st3 = (if b = control_char ?t Kill then kill_line ?t (cooked st)
          else if is_erase ?t b then erase_char ?t (cooked st) else cooked st)"
        using handle_editing_effect [OF ok] by blast
      show ?thesis
      proof (cases "b = control_char ?t Kill \<or> is_erase ?t b")
        case edit: True
        then have "process_byte raw nf st = (nf2, st3)"
          using True plain Some e(1) by (auto simp: process_byte_eq)
        moreover have "byte_post raw st st3"
          by (rule post) (use e edit True plain in \<open>auto simp: cook_mapped_def is_canonical_def Let_def\<close>)
        ultimately show ?thesis by blast
      next
        case ne: False
        have "length (cooked st3) < 1023" using e(4) ne room by simp
        then obtain nf' st' where a: "append_byte b nf2 st3 = (nf', st')" "tty_ok st'" "same_control st3 st'"
          "cooked st' = cooked st3 @ [b]" using append_byte_effect [OF e(2)] by blast
        then have "process_byte raw nf st = (nf', st')"
          using True plain Some e(1) ne by (auto simp: process_byte_eq)
        moreover have "byte_post raw st st'"
          by (rule post)
            (use a e ne True plain same_control_trans [OF e(3) a(3)] in \<open>auto simp: cook_mapped_def is_canonical_def Let_def\<close>)
        ultimately show ?thesis by blast
      qed
    qed
  qed
qed

section \<open>Processing the raw queue\<close>

definition raw_post :: "TtyState \<Rightarrow> nat \<Rightarrow> TtyState \<Rightarrow> bool" where
  "raw_post st n st' \<longleftrightarrow>
     tty_ok st' \<and> termios st' = termios st \<and> foreground_group st' = foreground_group st \<and>
     n \<le> length (raw_bytes st) \<and> raw_bytes st' = drop n (raw_bytes st) \<and>
     cooked st' = fold (cook_byte (termios st)) (take n (raw_bytes st)) (cooked st) \<and>
     posted st' = posted st @ concat (map (posts (termios st) (foreground_group st)) (take n (raw_bytes st)))"

lemma process_loop_effect:
  assumes "tty_ok st" "length (raw_bytes st) \<le> fuel"
  shows "\<exists>n nf' st'. process_loop fuel nf st = (nf', st') \<and> raw_post st n st' \<and>
    (raw_bytes st' = [] \<or> length (cooked st') = 1023)"
  using assms
proof (induction fuel arbitrary: st nf)
  case 0
  then show ?case by (auto simp: raw_post_def)
next
  case (Suc fuel)
  note r = tty_okD [OF Suc.prems(1)]
  show ?case
  proof (cases "raw_bytes st = [] \<or> length (cooked st) = 1023")
    case True
    then have "process_loop (Suc fuel) nf st = (nf, st)"
      using r(1,2) by (auto simp: empty_items full_items)
    with True Suc.prems(1) show ?thesis by (intro exI [of _ 0]) (auto simp: raw_post_def)
  next
    case False
    then obtain x xs where x: "raw_bytes st = x # xs" by (cases "raw_bytes st") auto
    obtain q where q: "RingBuffer_pop (raw_input st) = (Some x, q)" "ring_ok q" "ring_items q = xs"
      using tty_queue.pop_cons [OF r(1) x] by blast
    let ?st1 = "st\<lparr>raw_input := q\<rparr>"
    have ok1: "tty_ok ?st1" using Suc.prems(1) q(2) by (simp add: tty_ok_def)
    have "length (cooked ?st1) < 1023" using False ring_items_bound [OF r(2)] by simp
    from process_byte_effect [OF ok1 this, of x nf] obtain nf1 st2 where
      st2: "process_byte x nf ?st1 = (nf1, st2)" "byte_post x ?st1 st2" by blast
    have ok2: "tty_ok st2" and raw2: "raw_bytes st2 = xs" using st2(2) q(3) by (auto simp: byte_post_def)
    have "length (raw_bytes st2) \<le> fuel" using Suc.prems(2) raw2 x by simp
    from Suc.IH [OF ok2 this, of nf1] obtain n nf' st' where
      st': "process_loop fuel nf1 st2 = (nf', st')" "raw_post st2 n st'" "raw_bytes st' = [] \<or> length (cooked st') = 1023"
      by blast
    have "process_loop (Suc fuel) nf st = (nf', st')"
      using False r(1,2) q(1) st2(1) st'(1) by (simp add: empty_items full_items)
    moreover have "raw_post st (Suc n) st'"
      using st'(2) st2(2) raw2 x by (simp add: raw_post_def byte_post_def)
    ultimately show ?thesis using st'(3) by blast
  qed
qed

end
