(* ===== verification/Tty_Properties.thy ===== *)
theory Tty_Properties
  imports Tty_Line
begin

text \<open>
  The read and write sides of the TTY, and the properties of the component.
\<close>

section \<open>Receiving and reading\<close>

lemma push_raw_eq: "push_raw bs st = st\<lparr>raw_input := tty_queue.push_all bs (raw_input st)\<rparr>"
  by (induction bs arbitrary: st) simp_all

definition receive_post :: "u8 list \<Rightarrow> TtyState \<Rightarrow> TtyState \<Rightarrow> bool" where
  "receive_post bytes st st' \<longleftrightarrow>
     (let raw = take 1023 (raw_bytes st @ bytes)
      in \<exists>n \<le> length raw.
           tty_ok st' \<and> raw_bytes st' = drop n raw \<and>
           cooked st' = fold (cook_byte (termios st)) (take n raw) (cooked st) \<and>
           posted st' = posted st @ concat (map (posts (termios st) (foreground_group st)) (take n raw)) \<and>
           (n = length raw \<or> length (cooked st') = 1023))"

lemma receive_input_effect:
  assumes ok: "tty_ok st"
  shows "receive_post bytes st (snd (receive_input bytes st))"
proof -
  let ?st1 = "push_raw bytes st"
  have p: "ring_ok (raw_input ?st1)" "raw_bytes ?st1 = take 1023 (raw_bytes st @ bytes)"
    using tty_queue.push_all_items [OF tty_okD(1) [OF ok], of bytes] by (simp_all add: push_raw_eq)
  have ok1: "tty_ok ?st1" using ok p(1) by (simp add: tty_ok_def push_raw_eq)
  have same: "cooked ?st1 = cooked st" "posted ?st1 = posted st" "termios ?st1 = termios st"
    "foreground_group ?st1 = foreground_group st" by (simp_all add: push_raw_eq)
  from process_loop_effect [OF ok1, of "RingBuffer_len (raw_input ?st1)" False] obtain n nf' st' where
    r: "process_loop (RingBuffer_len (raw_input ?st1)) False ?st1 = (nf', st')" "raw_post ?st1 n st'"
      "raw_bytes st' = [] \<or> length (cooked st') = 1023" by (auto simp: len_items)
  note post = r(2) [unfolded raw_post_def same p(2)]
  have "n = length (take 1023 (raw_bytes st @ bytes)) \<or> length (cooked st') = 1023"
    using r(3) post by (metis diff_is_0_eq length_0_conv length_drop order_antisym)
  moreover have "snd (receive_input bytes st) = st'"
    using r(1) by (simp add: receive_input_def process_raw_input_def)
  ultimately show ?thesis
    unfolding receive_post_def Let_def using post by blast
qed

definition drain_post :: "nat \<Rightarrow> TtyState \<Rightarrow> u8 list \<Rightarrow> TtyState \<Rightarrow> bool" where
  "drain_post n st bs st' \<longleftrightarrow>
     tty_ok st' \<and> termios st' = termios st \<and>
     (let eof = control_char (termios st) Eof
      in cooked st = bs @ cooked st' \<and> (is_canonical st \<longrightarrow> eof \<notin> set bs) \<and> length bs \<le> n \<and>
           (length bs = n \<or> cooked st' = []) \<or>
         is_canonical st \<and> cooked st = bs @ eof # cooked st' \<and> eof \<notin> set bs \<and> length bs < n)"

lemma drain_cooked_effect:
  "tty_ok st \<Longrightarrow> drain_post n st (fst (drain_cooked n st)) (snd (drain_cooked n st))"
proof (induction n arbitrary: st)
  case 0
  then show ?case by (simp add: drain_post_def Let_def)
next
  case (Suc n)
  note r = tty_okD [OF Suc.prems]
  show ?case
  proof (cases "cooked st")
    case Nil
    then show ?thesis using Suc.prems tty_queue.pop_empty [OF r(2)] by (simp add: drain_post_def Let_def)
  next
    case (Cons x xs)
    obtain q where q: "RingBuffer_pop (cooked_input st) = (Some x, q)" "ring_ok q" "ring_items q = xs"
      using tty_queue.pop_cons [OF r(2) Cons] by blast
    let ?st1 = "st\<lparr>cooked_input := q\<rparr>"
    define st2 where "st2 = (if is_line_boundary ?st1 x \<and> pending_lines ?st1 > 0
      then ?st1\<lparr>pending_lines := pending_lines ?st1 - 1\<rparr> else ?st1)"
    have t2: "termios st2 = termios st" "cooked st2 = xs" "is_canonical st2 = is_canonical st"
      using q(3) by (simp_all add: st2_def is_canonical_def)
    have ok2: "tty_ok st2"
      using Suc.prems q Cons by (auto simp: st2_def tty_ok_def is_line_boundary_eq)
    have step: "drain_cooked (Suc n) st =
        (if is_canonical st \<and> x = control_char (termios st) Eof then ([], st2)
         else let (bs, st3) = drain_cooked n st2 in (x # bs, st3))"
      using q(1) t2(1,3) by (simp add: st2_def Let_def)
    show ?thesis
    proof (cases "is_canonical st \<and> x = control_char (termios st) Eof")
      case True
      then have "drain_cooked (Suc n) st = ([], st2)" using step by simp
      with ok2 t2 True Cons show ?thesis by (simp add: drain_post_def Let_def)
    next
      case False
      obtain bs st' where d: "drain_cooked n st2 = (bs, st')" by (metis surj_pair)
      then have "drain_cooked (Suc n) st = (x # bs, st')" using step False by auto
      moreover have "drain_post n st2 bs st'" using Suc.IH [OF ok2] d by simp
      ultimately show ?thesis using False Cons t2 by (auto simp: drain_post_def Let_def)
    qed
  qed
qed

section \<open>Writing\<close>










section \<open>All operations keep the invariant\<close>

lemma tty_ok_new: "tty_ok (TtyState_new t)"
  using tty_queue.new_ok by (simp add: tty_ok_def TtyState_new_def)

lemma take_output_effect:
  "tty_ok st \<Longrightarrow> take_output n st = (bs, st') \<Longrightarrow>
     tty_ok st' \<and> termios st' = termios st \<and> out_bytes st = bs @ out_bytes st' \<and>
     bs = (if stopped st then [] else take n (out_bytes st))"
proof (induction n arbitrary: st bs st')
  case 0
  then show ?case by simp
next
  case (Suc n)
  note r = tty_okD [OF Suc.prems(1)]
  show ?case
  proof (cases "stopped st \<or> out_bytes st = []")
    case True
    then show ?thesis using Suc.prems tty_queue.pop_empty [OF r(3)] by auto
  next
    case False
    then obtain x xs where x: "out_bytes st = x # xs" by (cases "out_bytes st") auto
    obtain q where q: "RingBuffer_pop (output_queue st) = (Some x, q)" "ring_ok q" "ring_items q = xs"
      using tty_queue.pop_cons [OF r(3) x] by blast
    let ?st1 = "st\<lparr>output_queue := q\<rparr>"
    have ok1: "tty_ok ?st1" using Suc.prems(1) q(2) by (simp add: tty_ok_def)
    obtain bs' st2 where d: "take_output n ?st1 = (bs', st2)" by (metis surj_pair)
    then have eq: "bs = x # bs'" "st' = st2" using Suc.prems(2) False q(1) by auto
    have IH: "tty_ok st2" "termios st2 = termios st" "xs = bs' @ out_bytes st2" "bs' = take n xs"
      using Suc.IH [OF ok1 d] False q(3) by simp_all
    show ?thesis unfolding eq using IH False by (simp add: x del: append_take_drop_id)
  qed
qed

lemma flush_ok: "tty_ok st \<Longrightarrow> tty_ok (flush_input st)" "tty_ok st \<Longrightarrow> tty_ok (flush_output st)"
  using tty_queue.clear_ok by (simp_all add: tty_ok_def flush_input_def flush_output_def)

lemma tty_flush_ok: "tty_ok st \<Longrightarrow> tty_ok (tty_flush sel st)"
  by (cases sel) (simp_all add: tty_flush_def flush_ok)

lemma fill_output_ok:
  "tty_ok st \<Longrightarrow> tty_ok (snd (fill_output bs st)) \<and> termios (snd (fill_output bs st)) = termios st"
proof (induction bs st rule: fill_output.induct)
  case (1 st)
  then show ?case by simp
next
  case (2 b rest st)
  note r = tty_okD [OF 2(3)]
  have push: "tty_ok (push_output x (st\<lparr>output_cr_pending := p\<rparr>))"
    "termios (push_output x (st\<lparr>output_cr_pending := p\<rparr>)) = termios st" for x p
    using 2(3) tty_queue.push_invar [OF r(3), of x] by (simp_all add: push_output_def tty_ok_def)
  show ?case
    using 2 push by (subst fill_output.simps, subst (2) fill_output.simps) (auto simp: Let_def split: prod.splits)
qed

lemma receive_termios: "tty_ok st \<Longrightarrow> termios (snd (receive_input bytes st)) = termios st"
proof -
  assume ok: "tty_ok st"
  let ?st1 = "push_raw bytes st"
  have "ring_ok (raw_input ?st1)"
    using tty_queue.push_all_items [OF tty_okD(1) [OF ok], of bytes] by (simp add: push_raw_eq)
  then have "tty_ok ?st1" using ok by (simp add: tty_ok_def push_raw_eq)
  from process_loop_effect [OF this, of "RingBuffer_len (raw_input ?st1)" False] show ?thesis
    by (auto simp: receive_input_def process_raw_input_def raw_post_def len_items push_raw_eq)
qed

text \<open>Every operation on a device keeps its queues and its line count in order.\<close>

lemma operations_ok:
  assumes "tty_ok st"
  shows "tty_ok (snd (receive_input bytes st))" "tty_ok (snd (drain_cooked n st))" "tty_ok (snd (fill_output bytes st))"
    "tty_ok (snd (take_output n st))" "tty_ok (tty_flush sel st)" "tty_ok (st\<lparr>foreground_group := g\<rparr>)"
proof -
  show "tty_ok (snd (receive_input bytes st))"
    using receive_input_effect [OF assms, of bytes] by (auto simp: receive_post_def Let_def)
  show "tty_ok (snd (drain_cooked n st))" using drain_cooked_effect [OF assms, of n] by (simp add: drain_post_def)
  show "tty_ok (snd (fill_output bytes st))" using fill_output_ok [OF assms] by simp
  show "tty_ok (snd (take_output n st))"
    using take_output_effect [OF assms, of n "fst (take_output n st)" "snd (take_output n st)"] by simp
  show "tty_ok (tty_flush sel st)" by (rule tty_flush_ok [OF assms])
  show "tty_ok (st\<lparr>foreground_group := g\<rparr>)" using assms by (simp add: tty_ok_def)
qed

section \<open>Properties\<close>

text \<open>
  (C8) The line discipline refines its specification.  Feeding bytes to a terminal processes them in
  order: the cooked queue becomes what the line editor makes of it (mapping, ERASE, KILL, flow
  control and signals included), the foreground group gets exactly the signals typed, the count of
  complete lines stays exact, and processing stops only when the raw queue is empty or the cooked
  queue is full.
\<close>

theorem receive_input_refines:
  assumes "tty_ok st"
  shows "receive_post bytes st (snd (receive_input bytes st))"
  by (rule receive_input_effect [OF assms])

theorem receive_input_refines_witness:
  "tty_ok (TtyState_new Termios_console_default) \<and>
   receive_post [0x61, 0x62, 0x08, 0x63, 0x0D] (TtyState_new Termios_console_default)
     (snd (receive_input [0x61, 0x62, 0x08, 0x63, 0x0D] (TtyState_new Termios_console_default))) \<and>
   fold (cook_byte Termios_console_default) [0x61, 0x62, 0x08, 0x63, 0x0D] [] = [0x61, 0x63, 0x0A]"
proof -
  have "fold (cook_byte Termios_console_default) [0x61, 0x62, 0x08, 0x63, 0x0D] [] = [0x61, 0x63, 0x0A]" by code_simp
  with receive_input_refines [OF tty_ok_new] show ?thesis using tty_ok_new by blast
qed

text \<open>
  (C9) Reading.  A read returns the oldest cooked bytes in order and removes exactly those (and, in
  canonical mode, the end-of-file character that ends it, which is never returned); it returns less
  than asked only when the queue is empty or at end of file, and the count of complete lines stays
  exact.
\<close>

theorem drain_cooked_fifo:
  assumes "tty_ok st" "drain_cooked n st = (bs, st')"
  shows "drain_post n st bs st'"
  using drain_cooked_effect [OF assms(1), of n] assms(2) by simp

theorem drain_cooked_fifo_witness:
  "let st = snd (receive_input [0x61, 0x04, 0x62] (TtyState_new Termios_console_default))
   in tty_ok st \<and> drain_post 5 st (fst (drain_cooked 5 st)) (snd (drain_cooked 5 st))"
proof -
  let ?st = "snd (receive_input [0x61, 0x04, 0x62] (TtyState_new Termios_console_default))"
  have ok: "tty_ok ?st" by (rule operations_ok(1) [OF tty_ok_new])
  then show ?thesis using drain_cooked_fifo [OF ok, of 5] by (simp add: Let_def)
qed



end
