(* ===== verification/Le_Bytes.thy ===== *)
theory Le_Bytes
  imports Kernel_Prelude
begin

text \<open>
  Little-endian byte images of machine words, the form in which an i386 \<^verbatim>\<open>repr(C)\<close> structure is
  stored on disk and copied to and from user space.
\<close>

definition u16_bytes :: "u16 \<Rightarrow> u8 list" where
  "u16_bytes w = [ucast w, ucast (drop_bit 8 w)]"

definition u32_bytes :: "u32 \<Rightarrow> u8 list" where
  "u32_bytes w = [ucast w, ucast (drop_bit 8 w), ucast (drop_bit 16 w), ucast (drop_bit 24 w)]"

definition u16_of :: "u8 list \<Rightarrow> u16" where
  "u16_of bs = ucast (bs ! 0) OR push_bit 8 (ucast (bs ! 1))"

definition u32_of :: "u8 list \<Rightarrow> u32" where
  "u32_of bs = ucast (bs ! 0) OR push_bit 8 (ucast (bs ! 1)) OR push_bit 16 (ucast (bs ! 2))
     OR push_bit 24 (ucast (bs ! 3))"

lemma length_u16_bytes [simp]: "length (u16_bytes w) = 2"
  by (simp add: u16_bytes_def)

lemma length_u32_bytes [simp]: "length (u32_bytes w) = 4"
  by (simp add: u32_bytes_def)

lemma u16_of_bytes [simp]: "u16_of (u16_bytes w) = w"
  unfolding u16_of_def u16_bytes_def
  by (rule bit_word_eqI) (auto simp: bit_or_iff bit_push_bit_iff bit_drop_bit_eq bit_ucast_iff)

lemma u32_of_bytes [simp]: "u32_of (u32_bytes w) = w"
proof (rule bit_word_eqI)
  fix n assume "n < LENGTH(32)"
  then consider "n < 8" | "8 \<le> n" "n < 16" | "16 \<le> n" "n < 24" | "24 \<le> n" "n < 32" by fastforce
  then show "bit (u32_of (u32_bytes w)) n = bit w n"
    by cases (auto simp: u32_of_def u32_bytes_def bit_or_iff bit_push_bit_iff bit_drop_bit_eq bit_ucast_iff)
qed

lemma u16_bytes_of [simp]:
  assumes "length bs = 2"
  shows "u16_bytes (u16_of bs) = bs"
proof -
  obtain a b where bs: "bs = [a, b]"
    using assms by (auto simp: length_Suc_conv eval_nat_numeral)
  have "ucast (ucast a OR push_bit 8 (ucast b) :: u16) = a"
    by (rule bit_word_eqI) (auto simp: bit_or_iff bit_push_bit_iff bit_ucast_iff)
  moreover have "ucast (drop_bit 8 (ucast a OR push_bit 8 (ucast b) :: u16)) = b"
    by (rule bit_word_eqI)
      (auto simp: bit_or_iff bit_push_bit_iff bit_ucast_iff bit_drop_bit_eq dest: bit_imp_le_length)
  ultimately show ?thesis by (simp add: bs u16_of_def u16_bytes_def)
qed

lemma u32_bytes_of [simp]:
  assumes "length bs = 4"
  shows "u32_bytes (u32_of bs) = bs"
proof -
  obtain a b c d where bs: "bs = [a, b, c, d]"
    using assms by (auto simp: length_Suc_conv eval_nat_numeral)
  let ?w = "ucast a OR push_bit 8 (ucast b) OR push_bit 16 (ucast c) OR push_bit 24 (ucast d) :: u32"
  have "ucast ?w = a"
    by (rule bit_word_eqI) (auto simp: bit_or_iff bit_push_bit_iff bit_ucast_iff)
  moreover have "ucast (drop_bit 8 ?w) = b" "ucast (drop_bit 16 ?w) = c" "ucast (drop_bit 24 ?w) = d"
    by (rule bit_word_eqI;
        auto simp: bit_or_iff bit_push_bit_iff bit_ucast_iff bit_drop_bit_eq dest: bit_imp_le_length)+
  ultimately show ?thesis by (simp add: bs u32_of_def u32_bytes_def)
qed

text \<open>Cutting a field out of a structure's image.\<close>

definition field :: "nat \<Rightarrow> nat \<Rightarrow> 'a list \<Rightarrow> 'a list" where
  "field off len bs = take len (drop off bs)"

lemma length_field [simp]: "off + len \<le> length bs \<Longrightarrow> length (field off len bs) = len"
  by (simp add: field_def)

lemma field_here [simp]: "length xs = len \<Longrightarrow> field 0 len (xs @ ys) = xs"
  by (simp add: field_def)

lemma field_exact [simp]: "length xs = len \<Longrightarrow> field 0 len xs = xs"
  by (simp add: field_def)

lemma field_skip [simp]:
  "length xs \<le> off \<Longrightarrow> field off len (xs @ ys) = field (off - length xs) len ys"
  by (simp add: field_def)

lemma field_Suc [simp]: "field (Suc off) len (x # xs) = field off len xs"
  by (simp add: field_def)

lemma field_numeral [simp]:
  "field (numeral n) len (x # xs) = field (pred_numeral n) len xs"
  by (simp add: numeral_eq_Suc)

lemma field_append: "field off len bs @ drop (off + len) bs = drop off bs"
  unfolding field_def by (metis append_take_drop_id drop_drop add.commute)

end
