(* ===== verification/User_Access.thy ===== *)
theory User_Access
  imports Le_Bytes
begin

text \<open>
  Kernel access to user memory (\<^verbatim>\<open>kernel/src/segment/uaccess.rs\<close>).  The FS segment is the map from
  32-bit segment offsets to bytes of the current task; an offset past the end of the address space
  wraps, as the pointer arithmetic of the sources does.  The pages behind it are the subject of
  the memory theories, which show that preparing them changes no byte.
\<close>

type_synonym user_mem = "u32 \<Rightarrow> u8"

definition MAX_PATH_LEN :: nat where "MAX_PATH_LEN = 256"

definition read_u8 :: "user_mem \<Rightarrow> u32 \<Rightarrow> u8" where
  "read_u8 m addr = m addr"

fun read_bytes :: "user_mem \<Rightarrow> u32 \<Rightarrow> nat \<Rightarrow> u8 list" where
  "read_bytes m addr 0 = []"
| "read_bytes m addr (Suc n) = read_u8 m addr # read_bytes m (addr + 1) n"

definition read_u16 :: "user_mem \<Rightarrow> u32 \<Rightarrow> u16" where
  "read_u16 m addr = u16_of (read_bytes m addr 2)"

definition read_u32 :: "user_mem \<Rightarrow> u32 \<Rightarrow> u32" where
  "read_u32 m addr = u32_of (read_bytes m addr 4)"

definition write_u8 :: "u8 \<Rightarrow> u32 \<Rightarrow> user_mem \<Rightarrow> user_mem" where
  "write_u8 v addr m = m(addr := v)"

fun write_bytes :: "u8 list \<Rightarrow> u32 \<Rightarrow> user_mem \<Rightarrow> user_mem" where
  "write_bytes [] addr m = m"
| "write_bytes (b # bs) addr m = write_bytes bs (addr + 1) (write_u8 b addr m)"

definition write_u32 :: "u32 \<Rightarrow> u32 \<Rightarrow> user_mem \<Rightarrow> user_mem" where
  "write_u32 v addr m = write_bytes (u32_bytes v) addr m"

text \<open>A C string: bytes up to the first NUL, at most \<open>max_len\<close> of them.\<close>

fun read_string :: "user_mem \<Rightarrow> u32 \<Rightarrow> nat \<Rightarrow> u8 list" where
  "read_string m addr 0 = []"
| "read_string m addr (Suc n) =
     (let b = read_u8 m addr in if b = 0 then [] else b # read_string m (addr + 1) n)"

definition read_pathname :: "user_mem \<Rightarrow> u32 \<Rightarrow> u8 list" where
  "read_pathname m addr = read_string m addr MAX_PATH_LEN"

section \<open>What was written is what is read\<close>

lemma length_read_bytes [simp]: "length (read_bytes m a n) = n"
  by (induction n arbitrary: a) auto

lemma write_bytes_other:
  assumes "\<forall>i < length bs. a + of_nat i \<noteq> x"
  shows "write_bytes bs a m x = m x"
  using assms
proof (induction bs arbitrary: a m)
  case (Cons b bs)
  have "\<forall>i < length bs. (a + 1) + of_nat i \<noteq> x"
  proof (intro allI impI)
    fix i assume "i < length bs"
    then have "Suc i < length (b # bs)" by simp
    with Cons.prems have "a + of_nat (Suc i) \<noteq> x" by blast
    then show "(a + 1) + of_nat i \<noteq> x" by (simp add: add.assoc)
  qed
  moreover have "a \<noteq> x" using Cons.prems [rule_format, of 0] by simp
  ultimately show ?case using Cons.IH by (simp add: write_u8_def)
qed simp

lemma read_write_bytes [simp]:
  assumes "length bs < 2 ^ 32"
  shows "read_bytes (write_bytes bs a m) a (length bs) = bs"
  using assms
proof (induction bs arbitrary: a m)
  case (Cons b bs)
  have "\<forall>i < length bs. (a + 1) + of_nat i \<noteq> a"
  proof (intro allI impI notI)
    fix i assume i: "i < length bs" and "(a + 1) + of_nat i = a"
    then have "(of_nat (Suc i) :: u32) = 0" by (simp add: add.assoc)
    moreover have "unat (of_nat (Suc i) :: u32) = Suc i"
      using i Cons.prems by (intro unat_word_of_nat) simp
    ultimately show False by simp
  qed
  then have "write_bytes bs (a + 1) (write_u8 b a m) a = b"
    by (subst write_bytes_other) (simp_all add: write_u8_def)
  with Cons show ?case by (simp add: read_u8_def)
qed simp

lemma read_write_u32 [simp]: "read_u32 (write_u32 v a m) a = v"
  using read_write_bytes [of "u32_bytes v" a m] by (simp add: read_u32_def write_u32_def)

end
