(* ===== verification/Tty_Ioctl.thy ===== *)
theory Tty_Ioctl
  imports Tty_Properties User_Access
begin

text \<open>
  Terminal control requests (\<^verbatim>\<open>kernel/src/driver/character/tty/ioctl.rs\<close>) over the C images of the
  settings in user memory.  A device is its state, the calls made to its hardware backend (newest
  last) and the user memory of the caller.  \<open>pad\<close> stands for the padding bytes of the copied
  structures, whose values Rust leaves open.
\<close>

section \<open>Requests\<close>

datatype TtyRequest =
    GetTermios | SetTermios | SetTermiosWait | SetTermiosFlush
  | GetTermio | SetTermio | SetTermioWait | SetTermioFlush
  | Flush | GetPgrp | SetPgrp | OutputQueueBytes | InputQueueBytes

fun TtyRequest_code :: "TtyRequest \<Rightarrow> u32" where
  "TtyRequest_code GetTermios = 0x5401"
| "TtyRequest_code SetTermios = 0x5402"
| "TtyRequest_code SetTermiosWait = 0x5403"
| "TtyRequest_code SetTermiosFlush = 0x5404"
| "TtyRequest_code GetTermio = 0x5405"
| "TtyRequest_code SetTermio = 0x5406"
| "TtyRequest_code SetTermioWait = 0x5407"
| "TtyRequest_code SetTermioFlush = 0x5408"
| "TtyRequest_code Flush = 0x540B"
| "TtyRequest_code GetPgrp = 0x540F"
| "TtyRequest_code SetPgrp = 0x5410"
| "TtyRequest_code OutputQueueBytes = 0x5411"
| "TtyRequest_code InputQueueBytes = 0x541B"

definition TtyRequest_try_from :: "u32 \<Rightarrow> TtyRequest option" where
  "TtyRequest_try_from v =
     (if v = 0x5401 then Some GetTermios else if v = 0x5402 then Some SetTermios
      else if v = 0x5403 then Some SetTermiosWait else if v = 0x5404 then Some SetTermiosFlush
      else if v = 0x5405 then Some GetTermio else if v = 0x5406 then Some SetTermio
      else if v = 0x5407 then Some SetTermioWait else if v = 0x5408 then Some SetTermioFlush
      else if v = 0x540B then Some Flush else if v = 0x540F then Some GetPgrp
      else if v = 0x5410 then Some SetPgrp else if v = 0x5411 then Some OutputQueueBytes
      else if v = 0x541B then Some InputQueueBytes else None)"

definition FlushSelector_try_from :: "u32 \<Rightarrow> FlushSelector option" where
  "FlushSelector_try_from v =
     (if v = 0 then Some FlushInput else if v = 1 then Some FlushOutput
      else if v = 2 then Some FlushBoth else None)"

lemma TtyRequest_code_iff: "TtyRequest_try_from v = Some r \<longleftrightarrow> v = TtyRequest_code r"
  by (cases r) (auto simp: TtyRequest_try_from_def)

declare TtyRequest_code.simps [simp del]

section \<open>C images of the settings\<close>

definition NCCS :: nat where "NCCS = 17"
definition SIZE_OF_TERMIOS :: nat where "SIZE_OF_TERMIOS = 36"
definition SIZE_OF_TERMIO :: nat where "SIZE_OF_TERMIO = 18"

definition Termios_bytes :: "u8 list \<Rightarrow> Termios \<Rightarrow> u8 list" where
  "Termios_bytes pad t =
     u32_bytes (input_mode t) @ u32_bytes (output_mode t) @ u32_bytes (control_mode t)
     @ u32_bytes (local_mode t) @ [line_discipline t] @ control_chars t @ take 2 pad"

definition Termios_of :: "u8 list \<Rightarrow> Termios" where
  "Termios_of bs =
     \<lparr>input_mode = u32_of (field 0 4 bs), output_mode = u32_of (field 4 4 bs),
      control_mode = u32_of (field 8 4 bs), local_mode = u32_of (field 12 4 bs),
      line_discipline = bs ! 16, control_chars = field 17 NCCS bs\<rparr>"

definition Termio_bytes :: "u8 list \<Rightarrow> Termio \<Rightarrow> u8 list" where
  "Termio_bytes pad t =
     u16_bytes (io_input_mode t) @ u16_bytes (io_output_mode t) @ u16_bytes (io_control_mode t)
     @ u16_bytes (io_local_mode t) @ [io_line_discipline t] @ io_control_chars t @ take 1 pad"

definition Termio_of :: "u8 list \<Rightarrow> Termio" where
  "Termio_of bs =
     \<lparr>io_input_mode = u16_of (field 0 2 bs), io_output_mode = u16_of (field 2 2 bs),
      io_control_mode = u16_of (field 4 2 bs), io_local_mode = u16_of (field 6 2 bs),
      io_line_discipline = bs ! 8, io_control_chars = field 9 NCC bs\<rparr>"

section \<open>Handlers\<close>

datatype BackendCall = StartOutput | Configure Termios

record TtyDevice =
  state :: TtyState
  backend :: "BackendCall list"
  user :: user_mem

definition start_output :: "TtyDevice \<Rightarrow> TtyDevice" where
  "start_output d = d\<lparr>backend := backend d @ [StartOutput]\<rparr>"

definition reconfigure :: "TtyDevice \<Rightarrow> TtyDevice" where
  "reconfigure d = d\<lparr>backend := backend d @ [Configure (termios (state d))]\<rparr>"

definition get_termios :: "u8 list \<Rightarrow> u32 \<Rightarrow> (TtyDevice, u32) op" where
  "get_termios pad ptr d =
     (Ok 0, d\<lparr>user := write_bytes (Termios_bytes pad (termios (state d))) ptr (user d)\<rparr>)"

definition set_termios :: "u32 \<Rightarrow> (TtyDevice, u32) op" where
  "set_termios ptr d =
     (let t = Termios_of (read_bytes (user d) ptr SIZE_OF_TERMIOS)
      in (Ok 0, reconfigure (d\<lparr>state := (state d)\<lparr>termios := t\<rparr>\<rparr>)))"

definition get_termio :: "u8 list \<Rightarrow> u32 \<Rightarrow> (TtyDevice, u32) op" where
  "get_termio pad ptr d =
     (Ok 0, d\<lparr>user := write_bytes (Termio_bytes pad (to_termio (termios (state d)))) ptr (user d)\<rparr>)"

definition set_termio :: "u32 \<Rightarrow> (TtyDevice, u32) op" where
  "set_termio ptr d =
     (let io = Termio_of (read_bytes (user d) ptr SIZE_OF_TERMIO)
      in (Ok 0, reconfigure (d\<lparr>state := (state d)\<lparr>termios := apply_termio io (termios (state d))\<rparr>\<rparr>)))"

definition write_user_u32 :: "u32 \<Rightarrow> u32 \<Rightarrow> (TtyDevice, u32) op" where
  "write_user_u32 ptr v d = (Ok 0, d\<lparr>user := write_u32 v ptr (user d)\<rparr>)"

definition ioctl_flush :: "u32 \<Rightarrow> (TtyDevice, u32) op" where
  "ioctl_flush arg d =
     (case FlushSelector_try_from arg of
        None \<Rightarrow> (Err Errno_INVAL, d)
      | Some sel \<Rightarrow> (Ok 0, d\<lparr>state := tty_flush sel (state d)\<rparr>))"

definition ioctl_flush_input :: "TtyDevice \<Rightarrow> TtyDevice" where
  "ioctl_flush_input d = d\<lparr>state := flush_input (state d)\<rparr>"

definition dispatch :: "u8 list \<Rightarrow> u32 \<Rightarrow> u32 \<Rightarrow> (TtyDevice, u32) op" where
  "dispatch pad request arg d =
     (case TtyRequest_try_from request of
        None \<Rightarrow> (Err Errno_INVAL, d)
      | Some r \<Rightarrow>
          case r of
            GetTermios \<Rightarrow> get_termios pad arg d
          | SetTermios \<Rightarrow> set_termios arg d
          | SetTermiosWait \<Rightarrow> set_termios arg (start_output d)
          | SetTermiosFlush \<Rightarrow> set_termios arg (start_output (ioctl_flush_input d))
          | GetTermio \<Rightarrow> get_termio pad arg d
          | SetTermio \<Rightarrow> set_termio arg d
          | SetTermioWait \<Rightarrow> set_termio arg (start_output d)
          | SetTermioFlush \<Rightarrow> set_termio arg (start_output (ioctl_flush_input d))
          | GetPgrp \<Rightarrow> write_user_u32 arg (word_of_int (foreground_group (state d))) d
          | SetPgrp \<Rightarrow>
              (Ok 0, d\<lparr>state := (state d)\<lparr>foreground_group := sint (read_u32 (user d) arg)\<rparr>\<rparr>)
          | Flush \<Rightarrow> ioctl_flush arg d
          | OutputQueueBytes \<Rightarrow> write_user_u32 arg (of_nat (RingBuffer_len (output_queue (state d)))) d
          | InputQueueBytes \<Rightarrow> write_user_u32 arg (of_nat (RingBuffer_len (cooked_input (state d)))) d)"

lemma dispatch_code [simp]:
  "TtyRequest_try_from (TtyRequest_code r) = Some r"
  by (simp add: TtyRequest_code_iff)

lemma TtyRequest_code_inj [simp]: "TtyRequest_code r = TtyRequest_code r' \<longleftrightarrow> r = r'"
  by (metis dispatch_code option.inject)

section \<open>Round trips of the settings\<close>

lemma Termios_image:
  assumes "length (control_chars t) = NCCS" and "2 \<le> length pad"
  shows "length (Termios_bytes pad t) = SIZE_OF_TERMIOS" and "Termios_of (Termios_bytes pad t) = t"
  using assms
  by (simp_all add: Termios_bytes_def Termios_of_def NCCS_def SIZE_OF_TERMIOS_def nth_append)

lemma Termio_image:
  assumes "length (io_control_chars t) = NCC" and "1 \<le> length pad"
  shows "length (Termio_bytes pad t) = SIZE_OF_TERMIO" and "Termio_of (Termio_bytes pad t) = t"
  using assms
  by (simp_all add: Termio_bytes_def Termio_of_def NCC_def SIZE_OF_TERMIO_def nth_append)

lemma merge16_self: "merge16 w (ucast w) = w"
proof -
  have m: "(0xffff :: u32) = mask 16" by (simp add: mask_eq_exp_minus_1)
  show ?thesis
    unfolding merge16_def m
    by (intro bit_word_eqI) (auto simp: bit_or_iff bit_and_iff bit_not_iff bit_ucast_iff bit_mask_iff)
qed

lemma termios_unchanged [simp]: "st\<lparr>termios := termios st\<rparr> = st"
  by (cases st) simp

lemma state_unchanged [simp]: "d\<lparr>state := state d, backend := b\<rparr> = d\<lparr>backend := b\<rparr>"
  "d\<lparr>user := u, state := state d, backend := b\<rparr> = d\<lparr>user := u, backend := b\<rparr>"
  by (cases d, simp)+

lemma apply_to_termio: "apply_termio (to_termio t) t = t"
  by (simp add: apply_termio_def to_termio_def merge16_self)

text \<open>What a program that saves the settings and restores them sees.\<close>

lemma save_restore_termios:
  assumes "length (control_chars (termios (state d))) = NCCS" and "2 \<le> length pad"
  shows "bind_op (dispatch pad (TtyRequest_code GetTermios) ptr)
           (\<lambda>_. dispatch pad (TtyRequest_code SetTermios) ptr) d =
         (Ok 0, d\<lparr>user := write_bytes (Termios_bytes pad (termios (state d))) ptr (user d),
                  backend := backend d @ [Configure (termios (state d))]\<rparr>)"
proof -
  let ?bs = "Termios_bytes pad (termios (state d))"
  have "read_bytes (write_bytes ?bs ptr (user d)) ptr SIZE_OF_TERMIOS = ?bs"
    using read_write_bytes [of ?bs ptr "user d"] Termios_image(1) [OF assms]
    by (simp add: SIZE_OF_TERMIOS_def)
  then show ?thesis
    using Termios_image(2) [OF assms]
    by (simp add: bind_op_def dispatch_def get_termios_def set_termios_def reconfigure_def Let_def)
qed

lemma save_restore_termio:
  assumes "NCC \<le> length (control_chars (termios (state d)))" and "1 \<le> length pad"
  shows "bind_op (dispatch pad (TtyRequest_code GetTermio) ptr)
           (\<lambda>_. dispatch pad (TtyRequest_code SetTermio) ptr) d =
         (Ok 0, d\<lparr>user := write_bytes (Termio_bytes pad (to_termio (termios (state d)))) ptr (user d),
                  backend := backend d @ [Configure (termios (state d))]\<rparr>)"
proof -
  let ?bs = "Termio_bytes pad (to_termio (termios (state d)))"
  have len: "length (io_control_chars (to_termio (termios (state d)))) = NCC"
    using assms(1) by (simp add: to_termio_def)
  have "read_bytes (write_bytes ?bs ptr (user d)) ptr SIZE_OF_TERMIO = ?bs"
    using read_write_bytes [of ?bs ptr "user d"] Termio_image(1) [OF len assms(2)]
    by (simp add: SIZE_OF_TERMIO_def)
  then show ?thesis
    using Termio_image(2) [OF len assms(2)]
    by (simp add: bind_op_def dispatch_def get_termio_def set_termio_def reconfigure_def apply_to_termio
        Let_def)
qed

section \<open>Properties\<close>

text \<open>
  (C11) Saving and restoring terminal settings is transparent: a program that reads the settings
  into a buffer and writes the buffer back leaves the device's state as it was, with the modern
  and with the legacy request pair, wherever the buffer lies and whatever the padding holds.  The
  legacy structure carries 16 bits of each mode and 8 control characters; the rest is kept.
\<close>

theorem settings_save_restore:
  assumes "length (control_chars (termios (state d))) = NCCS" and "2 \<le> length pad"
    and "(getter, setter) \<in> {(GetTermios, SetTermios), (GetTermio, SetTermio)}"
  shows "\<exists>d'. bind_op (dispatch pad (TtyRequest_code getter) ptr)
                (\<lambda>_. dispatch pad (TtyRequest_code setter) ptr) d = (Ok 0, d')
          \<and> state d' = state d \<and> backend d' = backend d @ [Configure (termios (state d))]"
  using assms(3) save_restore_termios [OF assms(1,2)] save_restore_termio [of d pad] assms(1,2)
  by (auto simp: NCC_def NCCS_def)

theorem settings_save_restore_witness:
  "\<exists>d'. bind_op (dispatch [7, 7] (TtyRequest_code GetTermio) 0xFFFFFFF8)
         (\<lambda>_. dispatch [7, 7] (TtyRequest_code SetTermio) 0xFFFFFFF8)
         \<lparr>state = TtyState_new Termios_console_default, backend = [], user = \<lambda>_. 0\<rparr> = (Ok 0, d')
      \<and> state d' = TtyState_new Termios_console_default
      \<and> backend d' = [Configure Termios_console_default]"
  using settings_save_restore [of "\<lparr>state = TtyState_new Termios_console_default, backend = [], user = \<lambda>_. 0\<rparr>"
      "[7, 7]" GetTermio SetTermio "0xFFFFFFF8"]
  by (simp add: TtyState_new_def Termios_console_default_def INIT_CONTROL_CHARS_def NCCS_def)

section \<open>The history of a device\<close>

text \<open>
  What can happen to a device: bytes arrive, tasks read and write, the backend takes output, the
  foreground group is cleared, user memory changes, and control requests of every kind are made.  A
  request that replaces the end-of-file character is admitted when neither the old nor the new one is
  among the cooked bytes that it leaves queued; those that flush the input first always are.
\<close>

definition eof_of :: "TtyDevice \<Rightarrow> u8" where
  "eof_of d = control_char (termios (state d)) Eof"

definition eof_settled :: "TtyDevice \<Rightarrow> TtyDevice \<Rightarrow> bool" where
  "eof_settled d d' \<longleftrightarrow> eof_of d' = eof_of d
     \<or> eof_of d \<notin> set (cooked (state d')) \<and> eof_of d' \<notin> set (cooked (state d'))"

inductive tty_run :: "TtyDevice \<Rightarrow> bool" where
  new: "tty_run \<lparr>state = TtyState_new t, backend = [], user = m\<rparr>"
| receive: "tty_run d \<Longrightarrow> tty_run (d\<lparr>state := snd (receive_input bytes (state d))\<rparr>)"
| drain: "tty_run d \<Longrightarrow> tty_run (d\<lparr>state := snd (drain_cooked n (state d))\<rparr>)"
| fill: "tty_run d \<Longrightarrow> tty_run (d\<lparr>state := snd (fill_output bytes (state d))\<rparr>)"
| take: "tty_run d \<Longrightarrow> tty_run (d\<lparr>state := snd (take_output n (state d))\<rparr>)"
| clear_group: "tty_run d \<Longrightarrow> tty_run (d\<lparr>state := (state d)\<lparr>foreground_group := NO_FOREGROUND_GROUP\<rparr>\<rparr>)"
| memory: "tty_run d \<Longrightarrow> tty_run (d\<lparr>user := m\<rparr>)"
| request: "tty_run d \<Longrightarrow> dispatch pad req arg d = (r, d') \<Longrightarrow> eof_settled d d' \<Longrightarrow> tty_run d'"

lemma tty_ok_termios:
  assumes "tty_ok st" "control_char t Eof = control_char (termios st) Eof
      \<or> control_char (termios st) Eof \<notin> set (cooked st) \<and> control_char t Eof \<notin> set (cooked st)"
  shows "tty_ok (st\<lparr>termios := t\<rparr>)"
proof -
  have "filter (boundary t) (cooked st) = filter (boundary (termios st)) (cooked st)"
    using assms(2) by (intro filter_cong) (auto simp: boundary_def)
  then show ?thesis using assms(1) by (simp add: tty_ok_def)
qed

text \<open>The state a request leaves is the old one, flushed or not or with another group, with new settings or not.\<close>

definition touched :: "TtyState \<Rightarrow> TtyState \<Rightarrow> bool" where
  "touched st st' \<longleftrightarrow> (\<exists>s t. (s = st \<or> (\<exists>sel. s = tty_flush sel st) \<or> (\<exists>g. s = st\<lparr>foreground_group := g\<rparr>)) \<and> st' = s\<lparr>termios := t\<rparr>)"

lemma termios_flush [simp]: "termios (tty_flush sel st) = termios st" "termios (flush_input st) = termios st"
  by (cases sel) (simp_all add: tty_flush_def flush_input_def flush_output_def)

lemma touchedI:
  "touched st (st\<lparr>termios := t\<rparr>)" "touched st st" "touched st ((flush_input st)\<lparr>termios := t\<rparr>)" "touched st (tty_flush sel st)"
  "touched st (st\<lparr>foreground_group := g\<rparr>)"
proof -
  show 1: "touched st (st\<lparr>termios := t\<rparr>)" for t by (auto simp: touched_def)
  show "touched st st" using 1 [of "termios st"] by simp
  have 2: "touched st ((tty_flush sel st)\<lparr>termios := t\<rparr>)" for sel t by (auto simp: touched_def)
  from 2 [where sel = FlushInput] show "touched st ((flush_input st)\<lparr>termios := t\<rparr>)" by (simp add: tty_flush_def)
  from 2 [where sel = sel and t = "termios (tty_flush sel st)"] show "touched st (tty_flush sel st)" by (simp del: termios_flush)
  have "touched st (st\<lparr>foreground_group := g\<rparr>\<lparr>termios := t\<rparr>)" for t unfolding touched_def by blast
  from this [of "termios (st\<lparr>foreground_group := g\<rparr>)"] show "touched st (st\<lparr>foreground_group := g\<rparr>)"
    by (simp only: termios_unchanged)
qed

lemma dispatch_touched: "dispatch pad req arg d = (r, d') \<Longrightarrow> touched (state d) (state d')"
proof (cases "TtyRequest_try_from req")
  case None
  then show "dispatch pad req arg d = (r, d') \<Longrightarrow> ?thesis" by (auto simp: dispatch_def touchedI)
next
  case (Some q)
  then show "dispatch pad req arg d = (r, d') \<Longrightarrow> ?thesis"
    by (cases q) (auto simp: dispatch_def get_termios_def set_termios_def get_termio_def set_termio_def write_user_u32_def
        ioctl_flush_def ioctl_flush_input_def start_output_def reconfigure_def Let_def touchedI split: option.splits)
qed

lemma dispatch_ok:
  assumes ok: "tty_ok (state d)" and run: "dispatch pad req arg d = (r, d')" and eof: "eof_settled d d'"
  shows "tty_ok (state d')"
proof -
  obtain st t where st: "st = state d \<or> (\<exists>sel. st = tty_flush sel (state d)) \<or> (\<exists>g. st = (state d)\<lparr>foreground_group := g\<rparr>)"
    and d': "state d' = st\<lparr>termios := t\<rparr>" using dispatch_touched [OF run] by (auto simp: touched_def)
  have "tty_ok st" using st operations_ok(5,6) [OF ok] ok by auto
  moreover have "termios st = termios (state d)" using st by auto
  ultimately show ?thesis
    unfolding d' using eof by (intro tty_ok_termios) (auto simp: eof_settled_def eof_of_def d')
qed

lemma tty_run_ok: "tty_run d \<Longrightarrow> tty_ok (state d)"
proof (induction rule: tty_run.induct)
  case (request d pad req arg r d')
  then show ?case using dispatch_ok by blast
qed (simp_all add: tty_ok_new operations_ok)

text \<open>
  (C12) Line accounting.  Whatever sequence of input, reads, writes, output draining, flushes and other
  control requests a terminal goes through, the number of pending lines is the number of line ends in
  the cooked queue under the settings in force, and all three queues stay well formed; provided that a
  request that replaces the end-of-file character without flushing the input finds neither the old nor
  the new one among the cooked bytes.
\<close>

theorem pending_lines_exact:
  assumes "tty_run d"
  shows "pending_lines (state d) = length (filter (boundary (termios (state d))) (cooked (state d))) \<and>
    ring_ok (raw_input (state d)) \<and> ring_ok (cooked_input (state d)) \<and> ring_ok (output_queue (state d))"
  using tty_run_ok [OF assms] tty_okD by blast

text \<open>Input on the console, then legacy settings of all zeros with the input flushed, then a read.\<close>

definition demo_device :: TtyDevice where
  "demo_device = \<lparr>state = TtyState_new Termios_console_default, backend = [], user = \<lambda>_. 0\<rparr>"

lemma zero_bytes: "read_bytes (\<lambda>_. 0) ptr n = replicate n 0"
  by (induction n arbitrary: ptr) (simp_all add: read_u8_def)

theorem pending_lines_exact_witness:
  "\<exists>r d'. dispatch [7, 7] (TtyRequest_code SetTermioFlush) 64
       (demo_device\<lparr>state := snd (receive_input [0x61, 0x04, 0x62] (state demo_device))\<rparr>) = (r, d')
     \<and> eof_of d' = 0 \<and> pending_lines (state d') = length (filter (boundary (termios (state d'))) (cooked (state d')))"
proof -
  let ?d = "demo_device\<lparr>state := snd (receive_input [0x61, 0x04, 0x62] (state demo_device))\<rparr>"
  obtain r d' where run: "dispatch [7, 7] (TtyRequest_code SetTermioFlush) 64 ?d = (r, d')" by fastforce
  have d: "tty_run ?d" unfolding demo_device_def by (intro tty_run.receive tty_run.new)
  have ok: "tty_ok (state ?d)" by (rule tty_run_ok [OF d])
  have d': "state d' = (flush_input (state ?d))\<lparr>termios := apply_termio (Termio_of (replicate 18 0)) (termios (state ?d))\<rparr>"
    using run by (auto simp: dispatch_def set_termio_def reconfigure_def start_output_def ioctl_flush_input_def Let_def
        zero_bytes demo_device_def SIZE_OF_TERMIO_def flush_input_def)
  have "cooked (state d') = []" using tty_queue.clear_ok(2) [OF tty_okD(2) [OF ok]] by (simp add: d' flush_input_def)
  then have "eof_settled ?d d'" by (simp add: eof_settled_def)
  from pending_lines_exact [OF tty_run.request [OF d run this]]
  have "pending_lines (state d') = length (filter (boundary (termios (state d'))) (cooked (state d')))" by blast
  moreover have "eof_of d' = 0"
    by (simp add: eof_of_def d' apply_termio_def control_char_def Termio_of_def NCC_def nth_append field_def)
  ultimately show ?thesis using run by blast
qed

text \<open>
  Without the proviso the count goes wrong.  An end-of-file character is typed and counted as a line;
  the program changes the character and reads the byte, which no longer ends a line.  The queue is
  empty and one line is still pending, so that every further read returns at once with no bytes.
\<close>

theorem stale_line_after_eof_change:
  "\<exists>d st. dispatch [] (TtyRequest_code SetTermios) 64
        (demo_device\<lparr>state := snd (receive_input [0x04] (state demo_device)),
           user := write_bytes (Termios_bytes [0, 0] (set_control_char Eof 1 Termios_console_default)) 64 (\<lambda>_. 0)\<rparr>) = (Ok 0, d)
      \<and> drain_cooked 10 (state d) = ([0x04], st) \<and> cooked st = [] \<and> pending_lines st = 1
      \<and> has_readable_data st \<and> fst (drain_cooked n st) = []"
proof -
  let ?new = "TtyState_new Termios_console_default" and ?t = "set_control_char Eof 1 Termios_console_default"
  let ?st = "snd (receive_input [0x04] ?new)"
  let ?m = "write_bytes (Termios_bytes [0, 0] ?t) 64 (\<lambda>_. 0)"
  have cook: "fold (cook_byte Termios_console_default) [0x04] [] = [0x04]" by code_simp
  have post: "receive_post [0x04] ?new ?st" by (rule receive_input_effect [OF tty_ok_new])
  then have ok: "tty_ok ?st" by (auto simp: receive_post_def Let_def)
  have new: "raw_bytes ?new = []" "cooked ?new = []" "termios ?new = Termios_console_default"
    by (simp_all add: TtyState_new_def tty_queue.new_ok)
  obtain n where n: "n \<le> 1" "cooked ?st = fold (cook_byte Termios_console_default) (take n [0x04]) []"
    "n = 1 \<or> length (cooked ?st) = 1023"
    using post by (auto simp: receive_post_def Let_def new)
  then have "n = 1" by (cases "n = 0") auto
  with n(2) cook have 1: "cooked ?st = [0x04]" by simp
  have 2: "termios ?st = Termios_console_default" using receive_termios [OF tty_ok_new] by (simp add: TtyState_new_def)
  have "boundary Termios_console_default 0x04" by code_simp
  with tty_okD(4) [OF ok] 1 2 have 3: "pending_lines ?st = 1" by simp
  note st = 1 2 3
  let ?st1 = "?st\<lparr>termios := ?t\<rparr>"
  obtain q where q: "RingBuffer_pop (cooked_input ?st) = (Some 0x04, q)" "ring_ok q" "ring_items q = []"
    using tty_queue.pop_cons [OF tty_okD(2) [OF ok] st(1)] by blast
  let ?st2 = "?st1\<lparr>cooked_input := q\<rparr>"
  have t: "control_char ?t Eof = 1" "contains (local_mode ?t) ICANON" "length (control_chars ?t) = NCCS" by code_simp+
  then have nb: "\<not> is_line_boundary ?st2 0x04" "control_char ?t Eof = 1" "is_canonical ?st2"
    by (simp_all add: is_line_boundary_def is_canonical_def)
  have empty: "RingBuffer_pop q = (None, q)" by (rule tty_queue.pop_empty [OF q(2,3)])
  have rest: "drain_cooked n ?st2 = ([], ?st2)" for n using empty by (cases n) simp_all
  have "drain_cooked (Suc k) ?st1 = ([0x04], ?st2)" for k using q(1) nb rest [of k] by (simp add: Let_def)
  from this [of 9] have "drain_cooked 10 ?st1 = ([0x04], ?st2)" by simp
  moreover have "has_readable_data ?st2" using nb(3) st(3) by (simp add: has_readable_data_def)
  moreover have "read_bytes ?m 64 SIZE_OF_TERMIOS = Termios_bytes [0, 0] ?t"
    using read_write_bytes [of "Termios_bytes [0, 0] ?t"] Termios_image(1) [OF t(3), of "[0, 0]"] by (simp add: SIZE_OF_TERMIOS_def)
  moreover have "Termios_of (Termios_bytes [0, 0] ?t) = ?t" using Termios_image(2) [OF t(3), of "[0, 0]"] by simp
  ultimately show ?thesis
    using q(3) st(3) rest by (auto simp: dispatch_def set_termios_def reconfigure_def demo_device_def Let_def)
qed

text \<open>
  A terminal request fails in exactly two cases, both with \<^verbatim>\<open>EINVAL\<close> and with no effect on
  the device, its backend or user memory: a request code outside the thirteen known ones, and a
  flush whose selector is not 0, 1 or 2.  It never panics.
\<close>

theorem dispatch_rejects:
  "(\<exists>d'. dispatch pad request arg d = (Ok 0, d'))
     \<and> request \<in> range TtyRequest_code \<and> (request = TtyRequest_code Flush \<longrightarrow> unat arg < 3)
   \<or> dispatch pad request arg d = (Err Errno_INVAL, d)
     \<and> (request \<notin> range TtyRequest_code \<or> request = TtyRequest_code Flush \<and> 3 \<le> unat arg)"
proof (cases "TtyRequest_try_from request")
  case None
  then have "request \<notin> range TtyRequest_code" by auto
  with None show ?thesis by (simp add: dispatch_def)
next
  case (Some r)
  then have req: "request = TtyRequest_code r" by (simp add: TtyRequest_code_iff)
  have sel: "FlushSelector_try_from arg = None \<longleftrightarrow> 3 \<le> unat arg"
  proof -
    have "arg = 0 \<or> arg = 1 \<or> arg = 2 \<longleftrightarrow> unat arg = 0 \<or> unat arg = 1 \<or> unat arg = 2"
      by (simp add: word_unat_eq_iff)
    then show ?thesis by (auto simp: FlushSelector_try_from_def)
  qed
  show ?thesis
    using sel
    by (cases r) (auto simp: req dispatch_def get_termios_def set_termios_def get_termio_def
        set_termio_def write_user_u32_def ioctl_flush_def Let_def split: option.splits)
qed

theorem dispatch_rejects_witness:
  "dispatch [] (TtyRequest_code Flush) 3
     \<lparr>state = TtyState_new Termios_console_default, backend = [], user = \<lambda>_. 0\<rparr> =
   (Err Errno_INVAL, \<lparr>state = TtyState_new Termios_console_default, backend = [], user = \<lambda>_. 0\<rparr>)"
  using dispatch_rejects [of "[]" "TtyRequest_code Flush" 3
      "\<lparr>state = TtyState_new Termios_console_default, backend = [], user = \<lambda>_. 0\<rparr>"]
  by simp

end
