(* ===== verification/Task.thy ===== *)
theory Task
  imports Kernel_Prelude
begin

text \<open>
  The process control block (\<^verbatim>\<open>kernel/src/task/task_struct.rs\<close>) and the task table
  (\<^verbatim>\<open>kernel/src/task/manager.rs\<close>).  The kernel is not preempted in kernel mode and has one CPU, so
  the interior mutability of the sources is explicit state passing here: \<open>kernel\<close> holds the task
  table, the slot of the current task, the tick counter and the terminals whose foreground group
  was cleared.  The parts of a control block that the scheduler, the signal code and the process
  calls never read (segment descriptors, saved registers, open files, memory) are not fields here;
  releasing them on exit is the business of the memory and file theories.
\<close>

section \<open>Control blocks\<close>

datatype TaskState = Running | Interruptible | Uninterruptible | Zombie | Stopped

record TaskSchedInfo =
  state :: TaskState
  counter :: u32
  priority :: u32

record TaskRelationInfo =
  father :: u32
  pgrp :: u32
  session :: u32
  leader :: bool

record TaskIdentityInfo =
  uid :: u16
  euid :: u16
  suid :: u16
  gid :: u16
  egid :: u16
  sgid :: u16

record TaskAcctInfo =
  utime :: u32
  stime :: u32
  cutime :: u32
  cstime :: u32

record SigAction =
  sa_handler :: u32
  sa_mask :: u32
  sa_flags :: u32
  sa_restorer :: u32

definition NSIG :: nat where "NSIG = 32"

record TaskSignalInfo =
  signal :: u32
  blocked :: u32
  sigaction :: "SigAction list"
  alarm :: u32

record TaskControlBlockInner =
  sched :: TaskSchedInfo
  relation :: TaskRelationInfo
  identity :: TaskIdentityInfo
  acct :: TaskAcctInfo
  exit_code :: u32
  tty :: int
  signal_info :: TaskSignalInfo

record TaskControlBlock =
  slot :: nat
  pid :: u32
  inner :: TaskControlBlockInner

text \<open>Signal numbers start at 1; the shift distance of an x86 32-bit shift is taken modulo 32.\<close>

definition sigbit :: "nat \<Rightarrow> u32" where
  "sigbit n = push_bit ((n + 31) mod 32) 1"

definition raise :: "nat \<Rightarrow> TaskSignalInfo \<Rightarrow> TaskSignalInfo" where
  "raise n si = si\<lparr>signal := signal si OR sigbit n\<rparr>"

definition clear :: "nat \<Rightarrow> TaskSignalInfo \<Rightarrow> TaskSignalInfo" where
  "clear n si = si\<lparr>signal := signal si AND NOT (sigbit n)\<rparr>"

definition wake_if_interruptible :: "TaskSchedInfo \<Rightarrow> TaskSchedInfo" where
  "wake_if_interruptible sc = (if state sc = Interruptible then sc\<lparr>state := Running\<rparr> else sc)"

definition SIGHUP :: nat where "SIGHUP = 1"
definition SIGKILL :: nat where "SIGKILL = 9"
definition SIGALRM :: nat where "SIGALRM = 14"
definition SIGCHLD :: nat where "SIGCHLD = 17"
definition SIGSTOP :: nat where "SIGSTOP = 19"
definition SIGTSTP :: nat where "SIGTSTP = 20"

definition raise_and_wake :: "nat \<Rightarrow> TaskControlBlockInner \<Rightarrow> TaskControlBlockInner" where
  "raise_and_wake n p =
     p\<lparr>signal_info := raise n (signal_info p), sched := wake_if_interruptible (sched p)\<rparr>"

definition SigAction_default :: SigAction where
  "SigAction_default = \<lparr>sa_handler = 0, sa_mask = 0, sa_flags = 0, sa_restorer = 0\<rparr>"

definition TaskSignalInfo_default :: TaskSignalInfo where
  "TaskSignalInfo_default =
     \<lparr>signal = 0, blocked = 0, sigaction = replicate NSIG SigAction_default, alarm = 0\<rparr>"

definition TaskAcctInfo_default :: TaskAcctInfo where
  "TaskAcctInfo_default = \<lparr>utime = 0, stime = 0, cutime = 0, cstime = 0\<rparr>"

definition TaskControlBlock_new_kernel :: TaskControlBlock where
  "TaskControlBlock_new_kernel =
     \<lparr>slot = 0, pid = 0,
      inner =
        \<lparr>sched = \<lparr>state = Running, counter = 15, priority = 15\<rparr>,
         relation = \<lparr>father = - 1, pgrp = 0, session = 0, leader = False\<rparr>,
         identity = \<lparr>uid = 0, euid = 0, suid = 0, gid = 0, egid = 0, sgid = 0\<rparr>,
         acct = TaskAcctInfo_default, exit_code = 0, tty = - 1,
         signal_info = TaskSignalInfo_default\<rparr>\<rparr>"

section \<open>The task table\<close>

definition TASK_NUM :: nat where "TASK_NUM = 64"

record kernel =
  tasks :: "TaskControlBlock option list"
  last_pid :: u32
  current :: nat
  jiffies :: u32
  cleared_ttys :: "nat list"

definition TaskManager_new :: kernel where
  "TaskManager_new =
     \<lparr>tasks = Some TaskControlBlock_new_kernel # replicate (TASK_NUM - 1) None, last_pid = 0,
      current = 0, jiffies = 0, cleared_ttys = []\<rparr>"

text \<open>
  A well-formed table: 64 entries, each task in the slot it records, the idle task in slot 0, a
  current task, and no process identifier used twice.
\<close>

definition task_at :: "kernel \<Rightarrow> nat \<Rightarrow> TaskControlBlock option" where
  "task_at k i = (if i < length (tasks k) then tasks k ! i else None)"

definition table_ok :: "kernel \<Rightarrow> bool" where
  "table_ok k \<longleftrightarrow>
     length (tasks k) = TASK_NUM
     \<and> (\<forall>i t. task_at k i = Some t \<longrightarrow> slot t = i)
     \<and> task_at k 0 \<noteq> None
     \<and> task_at k (current k) \<noteq> None
     \<and> (\<forall>i j t u. task_at k i = Some t \<and> task_at k j = Some u \<and> pid t = pid u \<longrightarrow> i = j)"

text \<open>Changing the mutable part of tasks in place, the way \<^verbatim>\<open>pcb.inner.exclusive\<close> does.\<close>

definition exclusive :: "(TaskControlBlockInner \<Rightarrow> TaskControlBlockInner) \<Rightarrow> TaskControlBlock \<Rightarrow> TaskControlBlock" where
  "exclusive f t = t\<lparr>inner := f (inner t)\<rparr>"

definition update_task :: "nat \<Rightarrow> (TaskControlBlockInner \<Rightarrow> TaskControlBlockInner) \<Rightarrow> kernel \<Rightarrow> kernel" where
  "update_task i f k =
     (case task_at k i of
        None \<Rightarrow> k
      | Some t \<Rightarrow> k\<lparr>tasks := (tasks k)[i := Some (exclusive f t)]\<rparr>)"

definition update_where :: "(TaskControlBlock \<Rightarrow> bool) \<Rightarrow> (TaskControlBlockInner \<Rightarrow> TaskControlBlockInner)
    \<Rightarrow> kernel \<Rightarrow> kernel" where
  "update_where P f k =
     k\<lparr>tasks := map (map_option (\<lambda>t. if P t then exclusive f t else t)) (tasks k)\<rparr>"

definition with_current :: "(TaskControlBlockInner \<Rightarrow> TaskControlBlockInner) \<Rightarrow> kernel \<Rightarrow> kernel" where
  "with_current f k = update_task (current k) f k"

definition find_task :: "(TaskControlBlock \<Rightarrow> bool) \<Rightarrow> kernel \<Rightarrow> TaskControlBlock option" where
  "find_task P k = List.find P (List.map_filter id (tasks k))"

text \<open>The current task's control block; a kernel without one panics in the sources.\<close>

definition current_task :: "kernel \<Rightarrow> TaskControlBlock option" where
  "current_task k = task_at k (current k)"

lemma exclusive_simps [simp]:
  "slot (exclusive f t) = slot t" "pid (exclusive f t) = pid t" "inner (exclusive f t) = f (inner t)"
  by (simp_all add: exclusive_def)

lemma length_update [simp]:
  "length (tasks (update_task i f k)) = length (tasks k)"
  "length (tasks (update_where P f k)) = length (tasks k)"
  by (simp_all add: update_task_def update_where_def split: option.splits)

lemma task_at_update_task:
  "task_at (update_task i f k) j = (if i = j then map_option (exclusive f) (task_at k j) else task_at k j)"
  by (auto simp: update_task_def task_at_def split: option.splits)

lemma task_at_update_where:
  "task_at (update_where P f k) j = map_option (\<lambda>t. if P t then exclusive f t else t) (task_at k j)"
  by (simp add: update_where_def task_at_def)

lemma update_other_fields [simp]:
  "last_pid (update_task i f k) = last_pid k" "current (update_task i f k) = current k"
  "jiffies (update_task i f k) = jiffies k" "cleared_ttys (update_task i f k) = cleared_ttys k"
  "last_pid (update_where P f k) = last_pid k" "current (update_where P f k) = current k"
  "jiffies (update_where P f k) = jiffies k" "cleared_ttys (update_where P f k) = cleared_ttys k"
  by (simp_all add: update_task_def update_where_def split: option.splits)

text \<open>Well-formedness only concerns slots, identifiers and the current slot.\<close>

definition same_ids :: "kernel \<Rightarrow> kernel \<Rightarrow> bool" where
  "same_ids k k' \<longleftrightarrow>
     length (tasks k') = length (tasks k) \<and> current k' = current k
     \<and> (\<forall>i. map_option (\<lambda>t. (slot t, pid t)) (task_at k' i) = map_option (\<lambda>t. (slot t, pid t)) (task_at k i))"

lemma same_ids_refl [simp]: "same_ids k k"
  by (simp add: same_ids_def)

lemma same_ids_trans: "same_ids k k' \<Longrightarrow> same_ids k' k'' \<Longrightarrow> same_ids k k''"
  by (simp add: same_ids_def)

lemma same_ids_update_task [simp]: "same_ids k (update_task i f k)"
  by (auto simp: same_ids_def task_at_update_task option.map_comp comp_def intro: option.map_cong0)

lemma same_ids_update_where [simp]: "same_ids k (update_where P f k)"
  by (auto simp: same_ids_def task_at_update_where option.map_comp comp_def intro: option.map_cong0)

lemma same_ids_table_ok:
  assumes "same_ids k k'" and "table_ok k"
  shows "table_ok k'"
proof -
  have ids: "map_option (\<lambda>t. (slot t, pid t)) (task_at k' i) = map_option (\<lambda>t. (slot t, pid t)) (task_at k i)" for i
    using assms(1) by (simp add: same_ids_def)
  have orig: "\<exists>u. task_at k i = Some u \<and> slot u = slot t \<and> pid u = pid t" if "task_at k' i = Some t" for i t
    using ids [of i] that by (cases "task_at k i") auto
  have "task_at k' i \<noteq> None \<longleftrightarrow> task_at k i \<noteq> None" for i
    using ids [of i] by (cases "task_at k i"; cases "task_at k' i") auto
  moreover have "current k' = current k" "length (tasks k') = length (tasks k)"
    using assms(1) by (simp_all add: same_ids_def)
  moreover have "slot t = i" if "task_at k' i = Some t" for i t
    using orig [OF that] assms(2) by (auto simp: table_ok_def)
  moreover have "i = j" if t: "task_at k' i = Some t" and u: "task_at k' j = Some u" and p: "pid t = pid u"
    for i j t u
  proof -
    obtain t0 u0 where "task_at k i = Some t0" "task_at k j = Some u0" "pid t0 = pid u0"
      using orig [OF t] orig [OF u] p by auto
    then show ?thesis using assms(2) unfolding table_ok_def by blast
  qed
  ultimately show ?thesis
    using assms(2) unfolding table_ok_def by simp
qed

lemma table_ok_new: "table_ok TaskManager_new"
  by (auto simp: table_ok_def TaskManager_new_def task_at_def TaskControlBlock_new_kernel_def TASK_NUM_def
      nth_Cons split: nat.splits if_splits)

end
