(* ===== verification/Scheduler.thy ===== *)
theory Scheduler
  imports Task
begin

text \<open>
  Choosing the next task (\<^verbatim>\<open>select_next_task\<close> and \<^verbatim>\<open>schedule\<close>), the timer tick and the search for a
  process identifier.  \<open>select_next_task\<close> is a loop that the sources do not bound: it is a partial
  function here, and its return is a theorem.
\<close>

section \<open>Definitions\<close>

definition candidate :: "TaskControlBlock option list \<Rightarrow> nat \<Rightarrow> (nat \<times> u32) option" where
  "candidate ts i =
     (case ts ! i of
        None \<Rightarrow> None
      | Some t \<Rightarrow> if state (sched (inner t)) = Running then Some (i, counter (sched (inner t))) else None)"

definition candidates :: "kernel \<Rightarrow> (nat \<times> u32) list" where
  "candidates k = List.map_filter (candidate (tasks k)) [1..<length (tasks k)]"

text \<open>\<^verbatim>\<open>max_by_key(|(slot, counter)| (counter, slot))\<close>: the last of the maximal elements.\<close>

fun better :: "nat \<times> u32 \<Rightarrow> nat \<times> u32 \<Rightarrow> bool" where
  "better (s, c) (s', c') \<longleftrightarrow> c' < c \<or> c' = c \<and> s' \<le> s"

fun best :: "(nat \<times> u32) list \<Rightarrow> (nat \<times> u32) option" where
  "best [] = None"
| "best (x # xs) =
     (case best xs of
        None \<Rightarrow> Some x
      | Some y \<Rightarrow> if better y x then Some y else Some x)"

definition refill :: "kernel \<Rightarrow> kernel" where
  "refill k =
     update_where (\<lambda>t. slot t \<noteq> 0)
       (\<lambda>p. p\<lparr>sched := (sched p)\<lparr>counter := drop_bit 1 (counter (sched p)) + priority (sched p)\<rparr>\<rparr>) k"

partial_function (option) select_next_task :: "kernel \<Rightarrow> (nat option \<times> kernel) option" where
  "select_next_task k =
     (case best (candidates k) of
        Some (next, c) \<Rightarrow>
          if 0 < c then Some (if current k \<noteq> next then Some next else None, k)
          else select_next_task (refill k)
      | None \<Rightarrow> Some (if current k \<noteq> 0 then Some 0 else None, k))"

definition BLOCKABLE :: u32 where
  "BLOCKABLE = NOT (sigbit SIGKILL OR sigbit SIGSTOP)"

definition check_signals :: "u32 \<Rightarrow> TaskControlBlockInner \<Rightarrow> TaskControlBlockInner" where
  "check_signals j p =
     (let p1 = (if 0 < alarm (signal_info p) \<and> alarm (signal_info p) < j
                then p\<lparr>signal_info := (raise SIGALRM (signal_info p))\<lparr>alarm := 0\<rparr>\<rparr> else p);
          unblocked = signal (signal_info p1) AND NOT (BLOCKABLE AND blocked (signal_info p1))
      in if unblocked \<noteq> 0 then p1\<lparr>sched := wake_if_interruptible (sched p1)\<rparr> else p1)"

definition schedule :: "kernel \<Rightarrow> kernel option" where
  "schedule k =
     (case select_next_task (update_where (\<lambda>_. True) (check_signals (jiffies k)) k) of
        None \<Rightarrow> None
      | Some (None, k') \<Rightarrow> Some k'
      | Some (Some next, k') \<Rightarrow> Some (k'\<lparr>current := next\<rparr>))"

definition tick :: "bool \<Rightarrow> TaskControlBlockInner \<Rightarrow> TaskControlBlockInner" where
  "tick user p =
     (let p1 = (if user then p\<lparr>acct := (acct p)\<lparr>utime := utime (acct p) + 1\<rparr>\<rparr>
                else p\<lparr>acct := (acct p)\<lparr>stime := stime (acct p) + 1\<rparr>\<rparr>)
      in if 0 < counter (sched p1)
         then p1\<lparr>sched := (sched p1)\<lparr>counter := counter (sched p1) - 1\<rparr>\<rparr> else p1)"

definition handle_timer_tick :: "bool \<Rightarrow> kernel \<Rightarrow> kernel option" where
  "handle_timer_tick user k =
     (let k1 = with_current (tick user) (k\<lparr>jiffies := jiffies k + 1\<rparr>)
      in if (case current_task k1 of None \<Rightarrow> False | Some t \<Rightarrow> counter (sched (inner t)) = 0 \<and> user)
         then schedule k1 else Some k1)"

text \<open>The first loop of \<^verbatim>\<open>alloc_process\<close>: identifiers after \<open>last\<close>, skipping 0, until one is unused.\<close>

definition next_pid :: "u32 \<Rightarrow> u32" where
  "next_pid lst = max (lst + 1) 1"

partial_function (option) find_pid :: "u32 set \<Rightarrow> u32 \<Rightarrow> u32 option" where
  "find_pid used lst =
     (let n = next_pid lst in if n \<in> used then find_pid used n else Some n)"

definition used_pids :: "kernel \<Rightarrow> u32 set" where
  "used_pids k = set (map pid (List.map_filter id (tasks k)))"

definition alloc_process :: "kernel \<Rightarrow> ((nat \<times> u32) option \<times> kernel) option" where
  "alloc_process k =
     (case find_pid (used_pids k) (last_pid k) of
        None \<Rightarrow> None
      | Some p \<Rightarrow>
          let k1 = k\<lparr>last_pid := p\<rparr>
          in Some (map_option (\<lambda>s. (s, p)) (List.find (\<lambda>i. tasks k1 ! i = None) [1..<TASK_NUM]), k1))"

section \<open>The best candidate\<close>

definition runnable :: "kernel \<Rightarrow> nat \<Rightarrow> bool" where
  "runnable k i \<longleftrightarrow> 0 < i \<and> (\<exists>t. task_at k i = Some t \<and> state (sched (inner t)) = Running)"

definition ticks :: "kernel \<Rightarrow> nat \<Rightarrow> u32" where
  "ticks k i = (case task_at k i of None \<Rightarrow> 0 | Some t \<Rightarrow> counter (sched (inner t)))"

lemma set_map_filter_eq: "set (List.map_filter f xs) = {y. \<exists>x \<in> set xs. f x = Some y}"
  by (induction xs) (auto simp: List.map_filter_simps split: option.splits)

lemma candidate_iff:
  "i < length (tasks k) \<Longrightarrow> 0 < i \<Longrightarrow>
     candidate (tasks k) i = Some (j, c) \<longleftrightarrow> j = i \<and> runnable k i \<and> c = ticks k i"
  by (cases "tasks k ! i") (auto simp: candidate_def runnable_def ticks_def task_at_def)

lemma candidates_iff: "(i, c) \<in> set (candidates k) \<longleftrightarrow> runnable k i \<and> c = ticks k i"
proof -
  have "runnable k i \<Longrightarrow> 0 < i \<and> i < length (tasks k)"
    by (auto simp: runnable_def task_at_def split: if_splits)
  then show ?thesis
    unfolding candidates_def set_map_filter_eq using candidate_iff [of _ k i c] by fastforce
qed

lemma better_total: "better x y \<or> better y x"
  by (cases x; cases y) auto

lemma better_trans: "better x y \<Longrightarrow> better y z \<Longrightarrow> better x z"
  by (cases x; cases y; cases z) auto

lemma best_None: "best xs = None \<longleftrightarrow> xs = []"
  by (cases xs) (auto split: option.splits)

lemma best_Some: "best xs = Some x \<Longrightarrow> x \<in> set xs \<and> (\<forall>y \<in> set xs. better x y)"
proof (induction xs arbitrary: x)
  case (Cons a xs)
  have refl: "better a a" for a using better_total [of a a] by simp
  show ?case
  proof (cases "best xs")
    case None
    then show ?thesis using Cons.prems refl by (auto simp: best_None)
  next
    case (Some y)
    with Cons.IH have "y \<in> set xs" "\<forall>z \<in> set xs. better y z" by blast+
    then show ?thesis
      using Cons.prems Some refl better_total [of a y] better_trans [of a y]
      by (auto split: if_splits)
  qed
qed simp

section \<open>The scheduler returns\<close>

text \<open>What the scheduler chooses, as a slot: the current task when no switch is needed.\<close>

definition chosen :: "kernel \<Rightarrow> nat option \<Rightarrow> nat" where
  "chosen k r = (case r of None \<Rightarrow> current k | Some n \<Rightarrow> n)"

lemma task_at_refill:
  assumes "table_ok k" and "0 < i"
  shows "task_at (refill k) i = map_option (exclusive (\<lambda>p. p\<lparr>sched := (sched p)\<lparr>counter :=
           drop_bit 1 (counter (sched p)) + priority (sched p)\<rparr>\<rparr>)) (task_at k i)"
  using assms by (cases "task_at k i") (auto simp: refill_def task_at_update_where table_ok_def)

lemma runnable_refill: "table_ok k \<Longrightarrow> runnable (refill k) i \<longleftrightarrow> runnable k i"
  by (cases "task_at k i") (auto simp: runnable_def task_at_refill)

lemma ticks_refill:
  assumes "table_ok k" "0 < i" "task_at k i = Some t"
  shows "ticks (refill k) i = drop_bit 1 (ticks k i) + priority (sched (inner t))"
  using assms by (simp add: ticks_def task_at_refill)

lemma same_ids_refill [simp]: "same_ids k (refill k)"
  by (simp add: refill_def)

lemma current_refill [simp]: "current (refill k) = current k"
  by (simp add: refill_def)

definition picks :: "kernel \<Rightarrow> nat \<Rightarrow> bool" where
  "picks k n \<longleftrightarrow> runnable k n \<and> 0 < ticks k n
     \<and> (\<forall>i. runnable k i \<longrightarrow> ticks k i < ticks k n \<or> ticks k i = ticks k n \<and> i \<le> n)"

lemma select_ready:
  assumes "runnable k i" "0 < ticks k i"
  shows "\<exists>r. select_next_task k = Some (r, k) \<and> picks k (chosen k r)"
proof -
  have mem: "(i, ticks k i) \<in> set (candidates k)" using assms(1) by (simp add: candidates_iff)
  then obtain n c where b: "best (candidates k) = Some (n, c)"
    using best_None [of "candidates k"] by (cases "best (candidates k)") (auto simp: in_set_conv_decomp)
  then have "(n, c) \<in> set (candidates k)" and max: "\<forall>y \<in> set (candidates k). better (n, c) y"
    using best_Some by blast+
  then have n: "runnable k n" "c = ticks k n" by (simp_all add: candidates_iff)
  have "0 < c" using max mem assms(2) by fastforce
  moreover have "ticks k j < ticks k n \<or> ticks k j = ticks k n \<and> j \<le> n" if "runnable k j" for j
    using max that n(2) candidates_iff [of j "ticks k j" k] by fastforce
  ultimately show ?thesis
    using b n by (subst select_next_task.simps) (auto simp: picks_def chosen_def)
qed

lemma select_idle:
  assumes "\<forall>i. \<not> runnable k i"
  shows "\<exists>r. select_next_task k = Some (r, k) \<and> chosen k r = 0"
proof -
  have "candidates k = []"
    using assms candidates_iff [of _ _ k] by (metis list.set_intros(1) neq_Nil_conv surj_pair)
  then show ?thesis by (subst select_next_task.simps) (auto simp: chosen_def)
qed

lemma select_refill:
  assumes "runnable k i" "\<forall>j. runnable k j \<longrightarrow> ticks k j = 0"
  shows "select_next_task k = select_next_task (refill k)"
proof -
  have "(i, ticks k i) \<in> set (candidates k)" using assms(1) by (simp add: candidates_iff)
  then obtain n c where b: "best (candidates k) = Some (n, c)"
    using best_None [of "candidates k"] by (cases "best (candidates k)") (auto simp: in_set_conv_decomp)
  then have "c = 0" using best_Some [OF b] assms(2) by (auto simp: candidates_iff)
  with b show ?thesis by (subst select_next_task.simps) simp
qed

definition priorities_positive :: "kernel \<Rightarrow> bool" where
  "priorities_positive k \<longleftrightarrow> (\<forall>i t. task_at k i = Some t \<longrightarrow> 0 < priority (sched (inner t)))"

definition select_post :: "kernel \<Rightarrow> nat \<Rightarrow> kernel \<Rightarrow> bool" where
  "select_post k n k' \<longleftrightarrow>
     (if \<exists>i. runnable k i
      then picks k' n \<and> (k' = k \<or> k' = refill k \<and> (\<forall>i. runnable k i \<longrightarrow> ticks k i = 0))
      else n = 0 \<and> k' = k)"

lemma select_returns:
  assumes ok: "table_ok k" and pr: "priorities_positive k"
  shows "\<exists>r k'. select_next_task k = Some (r, k') \<and> select_post k (chosen k r) k'"
proof (cases "\<exists>i. runnable k i")
  case False
  then show ?thesis using select_idle [of k] by (auto simp: select_post_def)
next
  case True
  show ?thesis
  proof (cases "\<exists>i. runnable k i \<and> 0 < ticks k i")
    case True
    then obtain i where i: "runnable k i" "0 < ticks k i" by blast
    from select_ready [OF this] i(1) show ?thesis unfolding select_post_def by metis
  next
    case False
    then have zero: "\<forall>j. runnable k j \<longrightarrow> ticks k j = 0" by (metis word_gt_0)
    obtain i where i: "runnable k i" using True by blast
    then obtain t where t: "task_at k i = Some t" "0 < i" by (auto simp: runnable_def)
    have "0 < ticks (refill k) i"
      using ticks_refill [OF ok t(2,1)] zero i pr t(1) by (auto simp: priorities_positive_def)
    moreover have "runnable (refill k) i" using runnable_refill [OF ok] i by simp
    ultimately obtain r where r: "select_next_task (refill k) = Some (r, refill k)"
      "picks (refill k) (chosen (refill k) r)" using select_ready by blast
    then show ?thesis
      using select_refill [OF i zero] zero i
      by (auto simp: select_post_def chosen_def split: option.splits)
  qed
qed

section \<open>Time slices stay bounded\<close>

text \<open>
  Refilling halves what is left of a slice and adds the priority.  With priorities below \<open>2 ^ 30\<close>
  (every task inherits 15, and \<^verbatim>\<open>nice\<close> only lowers it) a slice stays below \<open>2 ^ 31\<close> and the sum does not wrap.
\<close>

definition slice_ok :: "TaskSchedInfo \<Rightarrow> bool" where
  "slice_ok sc \<longleftrightarrow> 0 < priority sc \<and> unat (priority sc) < 2 ^ 30
     \<and> unat (counter sc) < 2 ^ 31"

definition slices_ok :: "kernel \<Rightarrow> bool" where
  "slices_ok k \<longleftrightarrow> (\<forall>i t. task_at k i = Some t \<longrightarrow> slice_ok (sched (inner t)))"

lemma slice_ok_refill:
  assumes "slice_ok sc"
  shows "slice_ok (sc\<lparr>counter := drop_bit 1 (counter sc) + priority sc\<rparr>)"
    and "unat (drop_bit 1 (counter sc) + priority sc) = unat (counter sc) div 2 + unat (priority sc)"
proof -
  have half: "unat (drop_bit 1 (counter sc)) = unat (counter sc) div 2"
    by (simp add: drop_bit_eq_div unat_div)
  have le: "unat (counter sc) div 2 < 2 ^ 30" "unat (priority sc) < 2 ^ 30"
    using assms by (auto simp: slice_ok_def)
  then have "unat (drop_bit 1 (counter sc)) + unat (priority sc) < 2 ^ LENGTH(32)"
    unfolding half by simp
  then have "unat (drop_bit 1 (counter sc) + priority sc) = unat (drop_bit 1 (counter sc)) + unat (priority sc)"
    by (rule unat_add_lem [THEN iffD1])
  then show sum: "unat (drop_bit 1 (counter sc) + priority sc) = unat (counter sc) div 2 + unat (priority sc)"
    unfolding half .
  show "slice_ok (sc\<lparr>counter := drop_bit 1 (counter sc) + priority sc\<rparr>)"
    using assms le sum by (simp add: slice_ok_def)
qed

lemma slices_ok_refill: "slices_ok k \<Longrightarrow> slices_ok (refill k)"
  by (auto simp: slices_ok_def refill_def task_at_update_where slice_ok_refill(1) [simplified])

lemma slices_ok_wake: "slices_ok k \<Longrightarrow> slices_ok (update_where P (check_signals j) k)"
  by (auto simp: slices_ok_def task_at_update_where check_signals_def Let_def wake_if_interruptible_def
      slice_ok_def)

lemma slice_ok_tick: "slice_ok (sched p) \<Longrightarrow> slice_ok (sched (tick user p))"
  by (auto simp: tick_def Let_def slice_ok_def unat_minus_one word_gt_0)

lemma slices_ok_tick: "slices_ok k \<Longrightarrow> slices_ok (with_current (tick user) k)"
  by (auto simp: slices_ok_def with_current_def task_at_update_task slice_ok_tick)

lemma slices_priorities: "slices_ok k \<Longrightarrow> priorities_positive k"
  by (auto simp: slices_ok_def priorities_positive_def slice_ok_def)

lemma task_at_other_fields [simp]:
  "task_at (k\<lparr>current := c\<rparr>) i = task_at k i" "task_at (k\<lparr>jiffies := j\<rparr>) i = task_at k i"
  "task_at (k\<lparr>last_pid := p\<rparr>) i = task_at k i" "task_at (k\<lparr>cleared_ttys := l\<rparr>) i = task_at k i"
  by (simp_all add: task_at_def)

definition woken :: "kernel \<Rightarrow> kernel" where
  "woken k = update_where (\<lambda>_. True) (check_signals (jiffies k)) k"

lemma schedule_effect:
  assumes ok: "table_ok k" and sl: "slices_ok k"
  shows "\<exists>n k1. schedule k = Some (k1\<lparr>current := n\<rparr>) \<and> select_post (woken k) n k1
           \<and> table_ok (k1\<lparr>current := n\<rparr>) \<and> slices_ok (k1\<lparr>current := n\<rparr>)"
proof -
  have w: "same_ids k (woken k)" "current (woken k) = current k" by (simp_all add: woken_def)
  have okw: "table_ok (woken k)" using same_ids_table_ok [OF w(1) ok] .
  have slw: "slices_ok (woken k)" using slices_ok_wake [OF sl] by (simp add: woken_def)
  obtain r k1 where r: "select_next_task (woken k) = Some (r, k1)" "select_post (woken k) (chosen (woken k) r) k1"
    using select_returns [OF okw slices_priorities [OF slw]] by blast
  have k1: "k1 = woken k \<or> k1 = refill (woken k)" using r(2) by (auto simp: select_post_def split: if_splits)
  have ok1: "table_ok k1" using k1 okw same_ids_table_ok [OF same_ids_refill okw] by auto
  have sl1: "slices_ok k1" using k1 slw slices_ok_refill [OF slw] by auto
  let ?n = "chosen (woken k) r"
  have cur: "current k1 = current k" using k1 w(2) by auto
  have stay: "k1\<lparr>current := current k\<rparr> = k1" using cur by (cases k1) simp
  have "schedule k = (case r of None \<Rightarrow> Some k1 | Some next \<Rightarrow> Some (k1\<lparr>current := next\<rparr>))"
    using r(1) unfolding schedule_def woken_def by (cases r) simp_all
  then have "schedule k = Some (k1\<lparr>current := ?n\<rparr>)"
    using w(2) stay by (cases r) (simp_all add: chosen_def)
  moreover have "task_at k1 ?n \<noteq> None"
  proof (cases "\<exists>i. runnable (woken k) i")
    case True
    then have "runnable k1 ?n" using r(2) by (simp add: select_post_def picks_def)
    then show ?thesis by (auto simp: runnable_def)
  next
    case False
    then have "?n = 0" using r(2) by (simp add: select_post_def)
    then show ?thesis using ok1 by (simp add: table_ok_def)
  qed
  then have "table_ok (k1\<lparr>current := ?n\<rparr>)" using ok1 by (simp add: table_ok_def)
  moreover have "slices_ok (k1\<lparr>current := ?n\<rparr>)" using sl1 by (simp add: slices_ok_def)
  ultimately show ?thesis using r(2) by blast
qed

section \<open>A free process identifier is found\<close>

lemma next_pid_unat: "unat (next_pid w) = unat w mod (2 ^ 32 - 1) + 1"
proof (cases "w = - 1")
  case True
  then show ?thesis by (simp add: next_pid_def unsigned_minus_1_eq_mask mask_eq_exp_minus_1)
next
  case False
  then have "unat w \<noteq> 2 ^ 32 - 1"
    by (auto simp: word_unat_eq_iff unsigned_minus_1_eq_mask mask_eq_exp_minus_1)
  then have u: "unat w < 2 ^ 32 - 1" using unat_u32 [of w] by simp
  then have "unat w + unat (1 :: u32) < 2 ^ LENGTH(32)" by simp
  then have "unat (w + 1) = unat w + 1" unfolding unat_add_lem by simp
  then show ?thesis using u by (simp add: next_pid_def max_def word_le_nat_alt)
qed

text \<open>The identifiers tried are distinct for \<open>2 ^ 32 - 1\<close> steps, and there are 64 tasks at most.\<close>

lemma next_pid_iterate:
  "unat ((next_pid ^^ Suc i) w) = (unat w mod (2 ^ 32 - 1) + i) mod (2 ^ 32 - 1) + 1"
proof (induction i)
  case 0
  then show ?case by (simp add: next_pid_unat)
next
  case (Suc i)
  have "unat ((next_pid ^^ Suc (Suc i)) w) = unat ((next_pid ^^ Suc i) w) mod (2 ^ 32 - 1) + 1"
    by (simp add: next_pid_unat)
  also have "\<dots> = ((unat w mod (2 ^ 32 - 1) + i) mod (2 ^ 32 - 1) + 1) mod (2 ^ 32 - 1) + 1"
    by (simp only: Suc.IH)
  also have "\<dots> = (unat w mod (2 ^ 32 - 1) + Suc i) mod (2 ^ 32 - 1) + 1"
    by (simp only: mod_add_left_eq) (simp only: add.assoc Suc_eq_plus1)
  finally show ?case .
qed

lemma find_pid_skip: "next_pid w \<in> used \<Longrightarrow> find_pid used w = find_pid used (next_pid w)"
  by (subst find_pid.simps) simp

lemma find_pid_found: "next_pid w \<notin> used \<Longrightarrow> find_pid used w = Some (next_pid w)"
  by (subst find_pid.simps) simp

lemma find_pid_iterate:
  "(next_pid ^^ Suc n) w \<notin> used \<Longrightarrow> \<exists>i \<le> n. find_pid used w = Some ((next_pid ^^ Suc i) w)
     \<and> (next_pid ^^ Suc i) w \<notin> used"
proof (induction n arbitrary: w)
  case 0
  then show ?case by (simp add: find_pid_found)
next
  case (Suc n)
  show ?case
  proof (cases "next_pid w \<in> used")
    case False
    then show ?thesis by (intro exI [of _ 0]) (simp add: find_pid_found)
  next
    case True
    have "(next_pid ^^ Suc n) (next_pid w) \<notin> used"
      using Suc.prems by (simp only: funpow_Suc_right comp_def) simp
    then obtain i where "i \<le> n" "find_pid used (next_pid w) = Some ((next_pid ^^ Suc i) (next_pid w))"
      "(next_pid ^^ Suc i) (next_pid w) \<notin> used" using Suc.IH by blast
    then show ?thesis
      using find_pid_skip [OF True]
      by (intro exI [of _ "Suc i"]) (simp only: funpow_Suc_right comp_def, simp)
  qed
qed

lemma find_pid_returns:
  assumes "finite used" and "card used < 2 ^ 32 - 1"
  shows "\<exists>p. find_pid used w = Some p \<and> p \<notin> used \<and> p \<noteq> 0"
proof -
  let ?f = "\<lambda>i. (next_pid ^^ Suc i) w" and ?m = "2 ^ 32 - 1 :: nat"
  have inj: "inj_on ?f {..< ?m}"
  proof (rule inj_onI)
    fix i j assume ij: "i \<in> {..< ?m}" "j \<in> {..< ?m}" and "?f i = ?f j"
    then have "(unat w mod ?m + i) mod ?m = (unat w mod ?m + j) mod ?m"
      using next_pid_iterate [of i w] next_pid_iterate [of j w] by simp
    then show "i = j" using mod_add_cancel [of i ?m j "unat w mod ?m"] ij by simp
  qed
  have "\<not> ?f ` {..< ?m} \<subseteq> used"
  proof
    assume "?f ` {..< ?m} \<subseteq> used"
    then have "card (?f ` {..< ?m}) \<le> card used" using assms(1) by (rule card_mono [rotated])
    then show False using assms(2) card_image [OF inj] by simp
  qed
  then obtain n where "?f n \<notin> used" by blast
  then obtain i where i: "find_pid used w = Some (?f i)" "?f i \<notin> used"
    using find_pid_iterate by blast
  moreover have "?f i \<noteq> 0" using next_pid_iterate [of i w] by (metis Suc_eq_plus1 nat.distinct(1) unsigned_0)
  ultimately show ?thesis by blast
qed

end
