(* ===== verification/Process.thy ===== *)
theory Process
  imports Scheduler
begin

text \<open>
  Process life cycle and signals: \<^verbatim>\<open>exit_process\<close> (\<^verbatim>\<open>task/mod.rs\<close>), \<^verbatim>\<open>waitpid\<close>, \<^verbatim>\<open>kill\<close>, \<^verbatim>\<open>signal\<close>,
  \<^verbatim>\<open>sigaction\<close>, \<^verbatim>\<open>alarm\<close> and the signal masks (\<^verbatim>\<open>syscall/handler/process\<close>), and the choice of the
  signal to deliver on the way back to user mode (\<^verbatim>\<open>signal.rs\<close>).  A call that sleeps is split at the
  point where it gives up the CPU: \<open>waitpid_pass\<close> is one scan, \<open>waitpid_resume\<close> what runs after it.
\<close>

section \<open>Ending a process\<close>

definition session_hangup :: "kernel \<Rightarrow> TaskControlBlock \<Rightarrow> kernel" where
  "session_hangup k me =
     (let r = relation (inner me);
          k1 = (if leader r \<and> 0 \<le> tty (inner me)
                then k\<lparr>cleared_ttys := cleared_ttys k @ [nat (tty (inner me))]\<rparr> else k)
      in if leader r
         then update_where (\<lambda>t. slot t \<noteq> slot me \<and> session (relation (inner t)) = session r)
                (raise_and_wake SIGHUP) k1
         else k1)"

definition is_child_of :: "TaskControlBlock \<Rightarrow> TaskControlBlock \<Rightarrow> bool" where
  "is_child_of me t \<longleftrightarrow> slot t \<noteq> slot me \<and> father (relation (inner t)) = pid me"

definition reparent :: "kernel \<Rightarrow> TaskControlBlock \<Rightarrow> kernel" where
  "reparent k me =
     (let notify_init = (find_task (\<lambda>t. is_child_of me t \<and> state (sched (inner t)) = Zombie) k \<noteq> None);
          init_task = find_task (\<lambda>t. pid t = 1) k;
          k1 = update_where (is_child_of me)
                 (\<lambda>p. p\<lparr>relation := (relation p)\<lparr>father := 1\<rparr>\<rparr>) k
      in if notify_init
         then (case init_task of
                 None \<Rightarrow> k1
               | Some t \<Rightarrow> update_task (slot t) (raise_and_wake SIGCHLD) k1)
         else k1)"

definition become_zombie :: "u32 \<Rightarrow> TaskControlBlockInner \<Rightarrow> TaskControlBlockInner" where
  "become_zombie c p = p\<lparr>tty := - 1, sched := (sched p)\<lparr>state := Zombie\<rparr>, exit_code := c\<rparr>"

definition notify_father :: "TaskControlBlock \<Rightarrow> kernel \<Rightarrow> kernel" where
  "notify_father me k =
     (case find_task (\<lambda>t. slot t \<noteq> slot me \<and> pid t = father (relation (inner me))) k of
        None \<Rightarrow> k
      | Some t \<Rightarrow> update_task (slot t) (raise_and_wake SIGCHLD) k)"

definition exit_section :: "u32 \<Rightarrow> TaskControlBlock \<Rightarrow> kernel \<Rightarrow> kernel" where
  "exit_section c me k =
     notify_father me (with_current (become_zombie c) (reparent (session_hangup k me) me))"

text \<open>
  \<^verbatim>\<open>exit_process\<close> does not return: it ends in the task switch.  Coming back from the switch, or running
  in the idle task, panics.
\<close>

definition exit_process :: "u32 \<Rightarrow> kernel \<Rightarrow> kernel outcome option" where
  "exit_process c k =
     (case current_task k of
        None \<Rightarrow> Some Panic
      | Some me \<Rightarrow>
          if slot me = 0 then Some Panic
          else
            (case schedule (exit_section c me k) of
               None \<Rightarrow> None
             | Some k' \<Rightarrow> if current k' = slot me then Some Panic else Some (Ok k')))"

definition sys_exit :: "u32 \<Rightarrow> kernel \<Rightarrow> kernel outcome option" where
  "sys_exit status = exit_process (push_bit 8 (status AND 0xff))"

section \<open>Waiting for a child\<close>

definition WNOHANG :: u32 where "WNOHANG = 1"
definition WUNTRACED :: u32 where "WUNTRACED = 2"

datatype ScanResult =
    ScanStopped u32 u32
  | ScanZombie nat u32 u32 u32 u32
  | NeedWait
  | NoChild

definition pid_matches :: "u32 \<Rightarrow> u32 \<Rightarrow> TaskControlBlock \<Rightarrow> bool" where
  "pid_matches p current_pgrp t =
     (if 0 < sint p then pid t = p
      else if p = 0 then pgrp (relation (inner t)) = current_pgrp
      else if p = - 1 then True
      else pgrp (relation (inner t)) = - p)"

definition wait_children :: "u32 \<Rightarrow> TaskControlBlock \<Rightarrow> kernel \<Rightarrow> TaskControlBlock list" where
  "wait_children p me k =
     filter (\<lambda>t. slot t \<noteq> slot me \<and> father (relation (inner t)) = pid me
                 \<and> pid_matches p (pgrp (relation (inner me))) t)
       (rev (List.map_filter id (tasks k)))"

definition child_result :: "u32 \<Rightarrow> TaskControlBlock \<Rightarrow> ScanResult option" where
  "child_result options t =
     (let p = inner t
      in if state (sched p) = Stopped \<and> options AND WUNTRACED \<noteq> 0 then Some (ScanStopped (pid t) 0x7f)
         else if state (sched p) = Zombie
              then Some (ScanZombie (slot t) (pid t) (exit_code p) (utime (acct p)) (stime (acct p)))
              else None)"

fun find_map :: "('a \<Rightarrow> 'b option) \<Rightarrow> 'a list \<Rightarrow> 'b option" where
  "find_map f [] = None"
| "find_map f (x # xs) = (case f x of None \<Rightarrow> find_map f xs | Some y \<Rightarrow> Some y)"

definition reap :: "nat \<Rightarrow> u32 \<Rightarrow> u32 \<Rightarrow> kernel \<Rightarrow> kernel" where
  "reap s ut st k =
     (let k1 = with_current (\<lambda>p. p\<lparr>acct := (acct p)\<lparr>cutime := cutime (acct p) + ut,
                                                   cstime := cstime (acct p) + st\<rparr>\<rparr>) k
      in k1\<lparr>tasks := (tasks k1)[s := None]\<rparr>)"

definition waitpid_scan :: "u32 \<Rightarrow> u32 \<Rightarrow> TaskControlBlock \<Rightarrow> kernel \<Rightarrow> ScanResult \<times> kernel" where
  "waitpid_scan p options me k =
     (let children = wait_children p me k
      in case find_map (child_result options) children of
           Some (ScanZombie s q c ut st) \<Rightarrow> (ScanZombie s q c ut st, reap s ut st k)
         | Some r \<Rightarrow> (r, k)
         | None \<Rightarrow>
             if list_ex (\<lambda>t. state (sched (inner t)) \<notin> {Stopped, Zombie}) children
             then (NeedWait, k) else (NoChild, k))"

text \<open>
  What one pass leads to: a return (with the status word written to user memory, if any) or a
  sleep.  A kernel without a current task panics.
\<close>

datatype wait_result = WaitReturns "u32 outcome" "u32 option" | WaitSleeps

definition waitpid_pass :: "u32 \<Rightarrow> u32 \<Rightarrow> kernel \<Rightarrow> wait_result \<times> kernel" where
  "waitpid_pass p options k =
     (case current_task k of
        None \<Rightarrow> (WaitReturns Panic None, k)
      | Some me \<Rightarrow>
          case waitpid_scan p options me k of
            (ScanStopped q status, k') \<Rightarrow> (WaitReturns (Ok q) (Some status), k')
          | (ScanZombie s q status ut st, k') \<Rightarrow> (WaitReturns (Ok q) (Some status), k')
          | (NeedWait, k') \<Rightarrow>
              if options AND WNOHANG \<noteq> 0 then (WaitReturns (Ok 0) None, k')
              else (WaitSleeps, with_current (\<lambda>p. p\<lparr>sched := (sched p)\<lparr>state := Interruptible\<rparr>\<rparr>) k')
          | (NoChild, k') \<Rightarrow> (WaitReturns (Err Errno_CHILD) None, k'))"

definition waitpid_resume :: "u32 \<Rightarrow> u32 \<Rightarrow> kernel \<Rightarrow> wait_result \<times> kernel" where
  "waitpid_resume p options k =
     (let k1 = with_current (\<lambda>p. p\<lparr>signal_info := clear SIGCHLD (signal_info p)\<rparr>) k
      in case current_task k1 of
           None \<Rightarrow> (WaitReturns Panic None, k1)
         | Some me \<Rightarrow>
             if signal (signal_info (inner me)) \<noteq> 0 then (WaitReturns (Err Errno_INTR) None, k1)
             else waitpid_pass p options k1)"

section \<open>Sending signals\<close>

definition kill_matches :: "u32 \<Rightarrow> u32 \<Rightarrow> TaskControlBlock \<Rightarrow> bool" where
  "kill_matches p current_pid t =
     (if p = 0 then pgrp (relation (inner t)) = current_pid
      else if 0 < sint p then pid t = p
      else if p = - 1 then True
      else pgrp (relation (inner t)) = - p)"

definition null_matches :: "u32 \<Rightarrow> TaskControlBlock \<Rightarrow> bool" where
  "null_matches p t =
     (if 0 < sint p then pid t = p
      else if p = - 1 then True
      else pgrp (relation (inner t)) = - p)"

text \<open>\<open>send_signal\<close>, the inner function of the handler; \<open>me\<close> is the calling task.\<close>

definition send_signal :: "u32 \<Rightarrow> TaskControlBlock \<Rightarrow> bool \<Rightarrow> TaskControlBlock \<Rightarrow> unit outcome \<times> TaskControlBlock" where
  "send_signal signal_number t skip_permission_check me =
     (let allowed = (skip_permission_check \<or> euid (identity (inner t)) = euid (identity (inner me))
                     \<or> euid (identity (inner me)) = 0)
      in if \<not> allowed then (Err Errno_PERM, t)
         else (Ok (), exclusive (raise_and_wake (unat signal_number)) t))"

text \<open>The loop over the task table: the result so far and the table it leaves.\<close>

fun kill_loop :: "u32 \<Rightarrow> u32 \<Rightarrow> TaskControlBlock \<Rightarrow> TaskControlBlock option list \<Rightarrow> u32 outcome
    \<Rightarrow> u32 outcome \<times> TaskControlBlock option list" where
  "kill_loop p n me [] result = (result, [])"
| "kill_loop p n me (None # ts) result = (case kill_loop p n me ts result of (r, ts') \<Rightarrow> (r, None # ts'))"
| "kill_loop p n me (Some t # ts) result =
     (if slot t = 0 then (case kill_loop p n me ts result of (r, ts') \<Rightarrow> (r, Some t # ts'))
      else if \<not> kill_matches p (pid me) t then (case kill_loop p n me ts result of (r, ts') \<Rightarrow> (r, Some t # ts'))
      else
        (case send_signal n t (p = 0) me of
           (Err e, t') \<Rightarrow> (case kill_loop p n me ts (Err e) of (r, ts') \<Rightarrow> (r, Some t' # ts'))
         | (_, t') \<Rightarrow> (case kill_loop p n me ts result of (r, ts') \<Rightarrow> (r, Some t' # ts'))))"

text \<open>The loop of the null signal, which ends at the first task the caller may not signal.\<close>

fun null_loop :: "u32 \<Rightarrow> TaskControlBlock \<Rightarrow> TaskControlBlock option list \<Rightarrow> bool \<Rightarrow> bool" where
  "null_loop p me [] found = found"
| "null_loop p me (None # ts) found = null_loop p me ts found"
| "null_loop p me (Some t # ts) found =
     (if slot t = 0 \<or> \<not> null_matches p t then null_loop p me ts found
      else if \<not> (euid (identity (inner me)) = 0 \<or> euid (identity (inner t)) = euid (identity (inner me))) then True
      else null_loop p me ts True)"

definition sys_kill :: "u32 \<Rightarrow> u32 \<Rightarrow> (kernel, u32) op" where
  "sys_kill p signal_number k =
     (case current_task k of
        None \<Rightarrow> (Panic, k)
      | Some me \<Rightarrow>
          if \<not> unat signal_number \<le> NSIG then (Err Errno_INVAL, k)
          else if signal_number = 0 then
            if p = 0 then (Ok 0, k)
            else if \<not> null_loop p me (tasks k) False then (Err Errno_SRCH, k)
            else (Ok 0, k)
          else
            (case kill_loop p signal_number me (tasks k) (Ok 0) of (result, ts) \<Rightarrow> (result, k\<lparr>tasks := ts\<rparr>)))"

section \<open>Alarms, handlers and masks\<close>

definition HZ :: u32 where "HZ = 100"

definition sys_alarm :: "u32 \<Rightarrow> u32 \<Rightarrow> TaskSignalInfo \<Rightarrow> u32 \<times> TaskSignalInfo" where
  "sys_alarm j seconds si =
     ((if 0 < alarm si \<and> j < alarm si then (alarm si - j) div HZ else 0),
      si\<lparr>alarm := if 0 < seconds then j + HZ * seconds else 0\<rparr>)"

definition SA_NO_MASK :: u32 where "SA_NO_MASK = 0x40000000"
definition SA_ONE_SHOT :: u32 where "SA_ONE_SHOT = 0x80000000"

definition signal_valid :: "u32 \<Rightarrow> bool" where
  "signal_valid n \<longleftrightarrow> 1 \<le> unat n \<and> unat n \<le> NSIG \<and> unat n \<noteq> SIGKILL"

definition sys_signal :: "u32 \<Rightarrow> u32 \<Rightarrow> u32 \<Rightarrow> TaskSignalInfo \<Rightarrow> u32 outcome \<times> TaskSignalInfo" where
  "sys_signal n handler restorer si =
     (if \<not> signal_valid n then (Err Errno_PERM, si)
      else
        let i = unat n - 1
        in (Ok (sa_handler (sigaction si ! i)),
            si\<lparr>sigaction := (sigaction si)[i :=
                 \<lparr>sa_handler = handler, sa_mask = 0, sa_flags = SA_ONE_SHOT OR SA_NO_MASK,
                  sa_restorer = restorer\<rparr>]\<rparr>))"

text \<open>The actions read from and written to user memory are an optional argument and result.\<close>

definition sys_sigaction :: "u32 \<Rightarrow> SigAction option \<Rightarrow> TaskSignalInfo \<Rightarrow> SigAction outcome \<times> TaskSignalInfo" where
  "sys_sigaction n action si =
     (if \<not> signal_valid n then (Err Errno_PERM, si)
      else
        let i = unat n - 1;
            old = sigaction si ! i;
            cur = (case action of None \<Rightarrow> old | Some a \<Rightarrow> a);
            m = (if sa_flags cur AND SA_NO_MASK = 0 then sa_mask cur OR push_bit i 1 else 0)
        in (Ok old, si\<lparr>sigaction := (sigaction si)[i := cur\<lparr>sa_mask := m\<rparr>]\<rparr>))"

definition sys_ssetmask :: "u32 \<Rightarrow> TaskSignalInfo \<Rightarrow> u32 \<times> TaskSignalInfo" where
  "sys_ssetmask newmask si = (blocked si, si\<lparr>blocked := newmask AND NOT (sigbit SIGKILL)\<rparr>)"

section \<open>Delivery\<close>

record DeliverAction =
  handler :: u32
  restorer :: u32
  signal_number :: u32
  da_blocked :: u32
  da_flags :: u32
  da_mask :: u32

datatype PendingSignalAction = NoAction | Deliver DeliverAction | StopTask | ExitTask u32

text \<open>\<^verbatim>\<open>trailing_zeros\<close> of a non-zero word.\<close>

definition trailing_zeros :: "u32 \<Rightarrow> nat" where
  "trailing_zeros w = (case List.find (bit w) [0..<32] of None \<Rightarrow> 32 | Some i \<Rightarrow> i)"

definition pending_action :: "TaskSignalInfo \<Rightarrow> PendingSignalAction \<times> TaskSignalInfo" where
  "pending_action si =
     (let pending = signal si AND NOT (blocked si)
      in if pending = 0 then (NoAction, si)
         else
           let b = trailing_zeros pending
           in if NSIG \<le> b then (NoAction, si)
              else
                let si1 = clear (b + 1) si;
                    sa = sigaction si1 ! b;
                    n = b + 1
                in if sa_handler sa = 1 then (NoAction, si1)
                   else if sa_handler sa = 0 then
                     (if n = SIGCHLD then (NoAction, si1)
                      else if n = SIGSTOP \<or> n = SIGTSTP then (StopTask, si1)
                      else (ExitTask (of_nat n), si1))
                   else
                     (Deliver \<lparr>handler = sa_handler sa, restorer = sa_restorer sa, signal_number = of_nat n,
                               da_blocked = blocked si1, da_flags = sa_flags sa, da_mask = sa_mask sa\<rparr>,
                      if sa_flags sa AND SA_ONE_SHOT \<noteq> 0
                      then si1\<lparr>sigaction := (sigaction si1)[b := sa\<lparr>sa_handler := 0\<rparr>]\<rparr> else si1))"

section \<open>Identities\<close>

definition setreuid :: "u32 \<Rightarrow> u32 \<Rightarrow> TaskIdentityInfo \<Rightarrow> u32 outcome \<times> TaskIdentityInfo" where
  "setreuid ruid eu idn =
     (let superuser = (euid idn = 0);
          old_ruid = uid idn;
          r16 = (ucast ruid :: u16); e16 = (ucast eu :: u16)
      in if 0 < ruid \<and> \<not> (euid idn = r16 \<or> old_ruid = r16 \<or> superuser) then (Err Errno_PERM, idn)
         else
           let idn1 = (if 0 < ruid then idn\<lparr>uid := r16\<rparr> else idn)
           in if 0 < eu then
                if \<not> (old_ruid = e16 \<or> euid idn1 = e16 \<or> suid idn1 = e16 \<or> superuser)
                then (Err Errno_PERM, idn1\<lparr>uid := old_ruid\<rparr>)
                else
                  let idn2 = idn1\<lparr>euid := e16\<rparr>
                  in (Ok 0, if superuser then idn2\<lparr>suid := e16\<rparr> else idn2)
              else (Ok 0, idn1))"

definition setregid :: "u32 \<Rightarrow> u32 \<Rightarrow> TaskIdentityInfo \<Rightarrow> u32 outcome \<times> TaskIdentityInfo" where
  "setregid rgid eg idn =
     (let superuser = (euid idn = 0);
          r16 = (ucast rgid :: u16); e16 = (ucast eg :: u16)
      in if 0 < rgid \<and> \<not> (gid idn = r16 \<or> superuser) then (Err Errno_PERM, idn)
         else
           let idn1 = (if 0 < rgid then idn\<lparr>gid := r16\<rparr> else idn)
           in if 0 < eg then
                if \<not> (gid idn1 = e16 \<or> egid idn1 = e16 \<or> sgid idn1 = e16 \<or> superuser)
                then (Err Errno_PERM, idn1)
                else (Ok 0, idn1\<lparr>egid := e16\<rparr>)
              else (Ok 0, idn1))"

definition sys_setuid :: "u32 \<Rightarrow> TaskIdentityInfo \<Rightarrow> u32 outcome \<times> TaskIdentityInfo" where
  "sys_setuid u = setreuid u u"

definition sys_setgid :: "u32 \<Rightarrow> TaskIdentityInfo \<Rightarrow> u32 outcome \<times> TaskIdentityInfo" where
  "sys_setgid g = setregid g g"

definition sys_setsid :: "(kernel, u32) op" where
  "sys_setsid k =
     (case current_task k of
        None \<Rightarrow> (Panic, k)
      | Some me \<Rightarrow>
          if leader (relation (inner me)) \<and> euid (identity (inner me)) \<noteq> 0 then (Err Errno_PERM, k)
          else
            (Ok (pid me),
             with_current (\<lambda>p. p\<lparr>relation := (relation p)\<lparr>leader := True, session := pid me, pgrp := pid me\<rparr>,
                                 tty := - 1\<rparr>) k))"

definition sys_setpgid :: "u32 \<Rightarrow> u32 \<Rightarrow> (kernel, u32) op" where
  "sys_setpgid pid_arg pgid_arg k =
     (case current_task k of
        None \<Rightarrow> (Panic, k)
      | Some me \<Rightarrow>
          let target_pid = (if pid_arg = 0 then pid me else pid_arg);
              target_pgid = (if pgid_arg = 0 then pid me else pgid_arg)
          in case find_task (\<lambda>t. pid t = target_pid) k of
               None \<Rightarrow> (Err Errno_SRCH, k)
             | Some t \<Rightarrow>
                 if leader (relation (inner t)) \<or> session (relation (inner t)) \<noteq> session (relation (inner me))
                 then (Err Errno_PERM, k)
                 else (Ok 0, update_task (slot t) (\<lambda>p. p\<lparr>relation := (relation p)\<lparr>pgrp := target_pgid\<rparr>\<rparr>) k))"

definition sys_nice :: "u32 \<Rightarrow> TaskSchedInfo \<Rightarrow> TaskSchedInfo" where
  "sys_nice increment sc = (if increment < priority sc then sc\<lparr>priority := priority sc - increment\<rparr> else sc)"

section \<open>Creating a process\<close>

text \<open>The control block of a forked child; its memory is \<open>cow_copy\<close>'s business.\<close>

definition child_inner :: "u32 \<Rightarrow> TaskControlBlockInner \<Rightarrow> TaskControlBlockInner" where
  "child_inner parent_pid p =
     \<lparr>sched = \<lparr>state = Running, counter = priority (sched p), priority = priority (sched p)\<rparr>,
      relation = \<lparr>father = parent_pid, pgrp = pgrp (relation p), session = session (relation p), leader = False\<rparr>,
      identity = identity p, acct = TaskAcctInfo_default, exit_code = 0, tty = tty p,
      signal_info = \<lparr>signal = 0, blocked = blocked (signal_info p), sigaction = sigaction (signal_info p), alarm = 0\<rparr>\<rparr>"

text \<open>
  \<^verbatim>\<open>sys_fork\<close> on the task table.  \<open>memory\<close> says whether the page block of the new task and the copy of
  the address space could be allocated; both failures are reported as \<^verbatim>\<open>EAGAIN\<close>.
\<close>

definition sys_fork :: "bool \<Rightarrow> kernel \<Rightarrow> (u32 outcome \<times> kernel) option" where
  "sys_fork memory k =
     (case alloc_process k of
        None \<Rightarrow> None
      | Some (None, k1) \<Rightarrow> Some (Err Errno_AGAIN, k1)
      | Some (Some (s, p), k1) \<Rightarrow>
          if \<not> memory then Some (Err Errno_AGAIN, k1)
          else
            (case current_task k1 of
               None \<Rightarrow> Some (Panic, k1)
             | Some me \<Rightarrow>
                 Some (Ok p, k1\<lparr>tasks := (tasks k1)[s := Some \<lparr>slot = s, pid = p,
                              inner = child_inner (pid me) (inner me)\<rparr>]\<rparr>)))"

end
