(* ===== verification/Process_Family.thy ===== *)
theory Process_Family
  imports Process
begin

text \<open>
  The family tree of processes.  \<open>kin\<close> is the part of a control block the tree depends on; every
  operation is described by what it does to the kin of each slot, and the invariant \<open>proc_ok\<close> is
  kept by all of them: identifiers are unique, the running task is no zombie, and every process but
  the idle task has a living father in the table or was handed to init, the process 1.
\<close>

section \<open>Kin\<close>

definition is_zombie :: "TaskControlBlock \<Rightarrow> bool" where
  "is_zombie t \<longleftrightarrow> state (sched (inner t)) = Zombie"

definition kin :: "TaskControlBlock \<Rightarrow> nat \<times> u32 \<times> u32 \<times> bool" where
  "kin t = (slot t, pid t, father (relation (inner t)), is_zombie t)"

definition kins :: "kernel \<Rightarrow> nat \<Rightarrow> (nat \<times> u32 \<times> u32 \<times> bool) option" where
  "kins k i = map_option kin (task_at k i)"

lemma kins_update_task:
  assumes "\<And>t. task_at k i = Some t \<Longrightarrow> kin (exclusive f t) = kin t"
  shows "kins (update_task i f k) = kins k"
  using assms by (cases "task_at k i") (auto simp: kins_def task_at_update_task fun_eq_iff)

lemma kins_update_where:
  assumes "\<And>t. kin (exclusive f t) = kin t"
  shows "kins (update_where P f k) = kins k"
  using assms by (auto simp: kins_def task_at_update_where option.map_comp comp_def fun_eq_iff intro!: option.map_cong0)

lemma kin_raise_and_wake [simp]: "kin (exclusive (raise_and_wake n) t) = kin t"
  by (simp add: kin_def raise_and_wake_def wake_if_interruptible_def is_zombie_def)

lemma kin_check_signals [simp]: "kin (exclusive (check_signals j) t) = kin t"
  by (simp add: kin_def check_signals_def Let_def wake_if_interruptible_def is_zombie_def)

lemma kin_tick [simp]: "kin (exclusive (tick user) t) = kin t"
  by (simp add: kin_def tick_def Let_def is_zombie_def)

lemma kins_refill [simp]: "kins (refill k) = kins k"
  unfolding refill_def by (rule kins_update_where) (simp add: kin_def is_zombie_def)

lemma kins_other_fields [simp]:
  "kins (k\<lparr>current := c\<rparr>) = kins k" "kins (k\<lparr>jiffies := j\<rparr>) = kins k"
  "kins (k\<lparr>last_pid := p\<rparr>) = kins k" "kins (k\<lparr>cleared_ttys := l\<rparr>) = kins k"
  by (simp_all add: kins_def fun_eq_iff)

lemma find_task_None: "find_task P k = None \<longleftrightarrow> (\<forall>i t. task_at k i = Some t \<longrightarrow> \<not> P t)"
  unfolding find_task_def find_None_iff set_map_filter_eq
  by (auto simp: task_at_def in_set_conv_nth split: if_splits)

lemma find_task_Some: "find_task P k = Some t \<Longrightarrow> P t \<and> (\<exists>i. task_at k i = Some t)"
proof -
  assume "find_task P k = Some t"
  then have "P t" "t \<in> set (List.map_filter id (tasks k))"
    unfolding find_task_def find_Some_iff by (auto simp: in_set_conv_nth)
  then show ?thesis
    unfolding set_map_filter_eq by (fastforce simp: task_at_def in_set_conv_nth)
qed

section \<open>The invariant\<close>

definition family_ok :: "(nat \<Rightarrow> (nat \<times> u32 \<times> u32 \<times> bool) option) \<Rightarrow> bool" where
  "family_ok K \<longleftrightarrow>
     (\<exists>p f. K 0 = Some (0, p, f, False))
     \<and> (\<forall>i s p f z. K i = Some (s, p, f, z) \<longrightarrow> i \<noteq> 0 \<longrightarrow>
          f = 1 \<or> (\<exists>j s' f'. j \<noteq> i \<and> K j = Some (s', f, f', False)))
     \<and> (\<forall>i s p f z. K i = Some (s, p, f, z) \<longrightarrow> s = i \<and> i < TASK_NUM)
     \<and> (\<forall>i j s s' p f f' z z'. K i = Some (s, p, f, z) \<longrightarrow> K j = Some (s', p, f', z') \<longrightarrow> i = j)"

lemma family_father:
  assumes "family_ok K" "K i = Some (s, p, f, z)" "i \<noteq> 0" "f \<noteq> 1"
  obtains j s' f' where "j \<noteq> i" "K j = Some (s', f, f', False)"
proof -
  have "\<forall>i s p f z. K i = Some (s, p, f, z) \<longrightarrow> i \<noteq> 0 \<longrightarrow>
      f = 1 \<or> (\<exists>j s' f'. j \<noteq> i \<and> K j = Some (s', f, f', False))"
    using assms(1) unfolding family_ok_def by (elim conjE)
  from this [rule_format, OF assms(2,3)] assms(4) that show thesis by auto
qed

lemma family_unique:
  assumes "family_ok K" "K i = Some (s, p, f, z)" "K j = Some (s', p, f', z')"
  shows "i = j"
proof -
  have "\<forall>i j s s' p f f' z z'. K i = Some (s, p, f, z) \<longrightarrow> K j = Some (s', p, f', z') \<longrightarrow> i = j"
    using assms(1) unfolding family_ok_def by (elim conjE)
  from this [rule_format, OF assms(2,3)] show ?thesis .
qed

lemma family_slot:
  assumes "family_ok K" "K i = Some (s, p, f, z)"
  shows "s = i" "i < TASK_NUM"
proof -
  have "\<forall>i s p f z. K i = Some (s, p, f, z) \<longrightarrow> s = i \<and> i < TASK_NUM"
    using assms(1) unfolding family_ok_def by (elim conjE)
  from this [rule_format, OF assms(2)] show "s = i" "i < TASK_NUM" by auto
qed

lemma family_idle: "family_ok K \<Longrightarrow> \<exists>p f. K 0 = Some (0, p, f, False)"
  by (simp add: family_ok_def)

lemma family_okI:
  assumes "\<exists>p f. K 0 = Some (0, p, f, False)"
    and "\<And>i s p f z. K i = Some (s, p, f, z) \<Longrightarrow> i \<noteq> 0 \<Longrightarrow> f \<noteq> 1 \<Longrightarrow>
           \<exists>j s' f'. j \<noteq> i \<and> K j = Some (s', f, f', False)"
    and "\<And>i s p f z. K i = Some (s, p, f, z) \<Longrightarrow> s = i \<and> i < TASK_NUM"
    and "\<And>i j s s' p f f' z z'. K i = Some (s, p, f, z) \<Longrightarrow> K j = Some (s', p, f', z') \<Longrightarrow> i = j"
  shows "family_ok K"
  unfolding family_ok_def
proof (intro conjI)
  show "\<forall>i s p f z. K i = Some (s, p, f, z) \<longrightarrow> i \<noteq> 0 \<longrightarrow>
      f = 1 \<or> (\<exists>j s' f'. j \<noteq> i \<and> K j = Some (s', f, f', False))"
    using assms(2) by blast
  show "\<forall>i s p f z. K i = Some (s, p, f, z) \<longrightarrow> s = i \<and> i < TASK_NUM" using assms(3) by (intro allI impI)
  show "\<forall>i j s s' p f f' z z'. K i = Some (s, p, f, z) \<longrightarrow> K j = Some (s', p, f', z') \<longrightarrow> i = j"
    by (intro allI impI) (rule assms(4))
qed (use assms(1) in auto)

definition proc_ok :: "kernel \<Rightarrow> bool" where
  "proc_ok k \<longleftrightarrow> length (tasks k) = TASK_NUM \<and> family_ok (kins k) \<and> slices_ok k
     \<and> (\<exists>s p f. kins k (current k) = Some (s, p, f, False))"

lemma proc_ok_table:
  assumes "proc_ok k"
  shows "table_ok k"
proof -
  have fam: "family_ok (kins k)" and len: "length (tasks k) = TASK_NUM"
    and cur: "kins k (current k) \<noteq> None" using assms by (auto simp: proc_ok_def)
  have "slot t = i" if "task_at k i = Some t" for i t
    using fam that unfolding family_ok_def by (metis kins_def kin_def option.simps(9))
  moreover have "task_at k 0 \<noteq> None" using fam by (auto simp: family_ok_def kins_def)
  moreover have "task_at k (current k) \<noteq> None" using cur by (auto simp: kins_def)
  moreover have "i = j" if "task_at k i = Some t" "task_at k j = Some u" "pid t = pid u" for i j t u
    using fam that unfolding family_ok_def by (metis kins_def kin_def option.simps(9))
  ultimately show ?thesis unfolding table_ok_def using len by blast
qed

lemma proc_ok_cong:
  assumes "proc_ok k" "kins k' = kins k" "length (tasks k') = length (tasks k)" "current k' = current k"
    "slices_ok k'"
  shows "proc_ok k'"
  using assms by (simp add: proc_ok_def)

lemma proc_ok_slices: "proc_ok k \<Longrightarrow> slices_ok k"
  by (simp add: proc_ok_def)

section \<open>Scheduling, ticks, signals\<close>

lemma kins_select_post: "select_post k n k' \<Longrightarrow> kins k' = kins k"
  by (auto simp: select_post_def split: if_splits)

lemma kins_woken [simp]: "kins (woken k) = kins k"
  unfolding woken_def by (rule kins_update_where) simp

text \<open>A kernel whose current task may have become a zombie or gone to sleep, on its way into the scheduler.\<close>

definition switching :: "kernel \<Rightarrow> bool" where
  "switching k \<longleftrightarrow> length (tasks k) = TASK_NUM \<and> family_ok (kins k) \<and> slices_ok k \<and> task_at k (current k) \<noteq> None"

lemma proc_ok_switching: "proc_ok k \<Longrightarrow> switching k"
  by (auto simp: proc_ok_def switching_def kins_def)

lemma switching_table: "switching k \<Longrightarrow> table_ok k"
proof -
  assume sw: "switching k"
  then have "\<exists>s p f. kins k 0 = Some (s, p, f, False)" by (auto simp: switching_def family_ok_def)
  then have "proc_ok (k\<lparr>current := 0\<rparr>)"
    using sw by (simp add: proc_ok_def switching_def slices_ok_def)
  from proc_ok_table [OF this] sw show ?thesis by (simp add: table_ok_def switching_def)
qed

lemma schedule_proc_ok:
  assumes "switching k"
  shows "\<exists>k'. schedule k = Some k' \<and> proc_ok k' \<and> kins k' = kins k"
proof -
  have sl: "slices_ok k" and fam: "family_ok (kins k)" and len: "length (tasks k) = TASK_NUM"
    using assms by (simp_all add: switching_def)
  obtain n k1 where s: "schedule k = Some (k1\<lparr>current := n\<rparr>)" "select_post (woken k) n k1"
    "table_ok (k1\<lparr>current := n\<rparr>)" "slices_ok (k1\<lparr>current := n\<rparr>)"
    using schedule_effect [OF switching_table [OF assms] sl] by blast
  have kk: "kins k1 = kins k" using kins_select_post [OF s(2)] by simp
  have "\<exists>s p f. kins k n = Some (s, p, f, False)"
  proof (cases "\<exists>i. runnable (woken k) i")
    case True
    then have "runnable k1 n" using s(2) by (simp add: select_post_def picks_def)
    then obtain t where "task_at k1 n = Some t" "state (sched (inner t)) = Running"
      by (auto simp: runnable_def)
    then have "kins k1 n = Some (slot t, pid t, father (relation (inner t)), False)"
      by (simp add: kins_def kin_def is_zombie_def)
    then show ?thesis using kk by metis
  next
    case False
    then have "n = 0" using s(2) by (simp add: select_post_def)
    then show ?thesis using fam by (auto simp: family_ok_def)
  qed
  then have "proc_ok (k1\<lparr>current := n\<rparr>)"
    using kk s(3,4) fam by (simp add: proc_ok_def table_ok_def)
  then show ?thesis using s(1) kk by auto
qed

lemma slices_ok_update_task:
  "slices_ok k \<Longrightarrow> (\<And>p. slice_ok (sched p) \<Longrightarrow> slice_ok (sched (f p))) \<Longrightarrow> slices_ok (update_task i f k)"
  by (auto simp: slices_ok_def task_at_update_task)

lemma slices_ok_update_where:
  "slices_ok k \<Longrightarrow> (\<And>p. slice_ok (sched p) \<Longrightarrow> slice_ok (sched (f p))) \<Longrightarrow> slices_ok (update_where P f k)"
  by (auto simp: slices_ok_def task_at_update_where)

lemma slices_ok_fields [simp]:
  "slices_ok (k\<lparr>current := c\<rparr>) = slices_ok k" "slices_ok (k\<lparr>jiffies := j\<rparr>) = slices_ok k"
  "slices_ok (k\<lparr>last_pid := p\<rparr>) = slices_ok k" "slices_ok (k\<lparr>cleared_ttys := l\<rparr>) = slices_ok k"
  by (simp_all add: slices_ok_def)

lemma slice_ok_raise_and_wake: "slice_ok (sched p) \<Longrightarrow> slice_ok (sched (raise_and_wake n p))"
  by (simp add: raise_and_wake_def wake_if_interruptible_def slice_ok_def)

lemma slice_ok_state: "slice_ok sc \<Longrightarrow> slice_ok (sc\<lparr>state := st\<rparr>)"
  by (simp add: slice_ok_def)

end
