(* ===== verification/Process_Steps.thy ===== *)
theory Process_Steps
  imports Process_Family
begin

text \<open>
  Every process operation keeps the invariant \<open>proc_ok\<close> of \<open>Process_Family\<close>; exit and waitpid are
  described by what they do to the family tree.
\<close>

section \<open>Exit\<close>

definition adopt :: "TaskControlBlock \<Rightarrow> nat \<times> u32 \<times> u32 \<times> bool \<Rightarrow> nat \<times> u32 \<times> u32 \<times> bool" where
  "adopt me = (\<lambda>(s, p, f, z). (s, p, if s \<noteq> slot me \<and> f = pid me then 1 else f, z))"

lemma length_session_hangup [simp]: "length (tasks (session_hangup k me)) = length (tasks k)"
  by (simp add: session_hangup_def Let_def)

lemma current_session_hangup [simp]: "current (session_hangup k me) = current k"
  by (simp add: session_hangup_def Let_def)

lemma kins_session_hangup [simp]: "kins (session_hangup k me) = kins k"
  by (simp add: session_hangup_def Let_def kins_update_where)

lemma slices_session_hangup: "slices_ok k \<Longrightarrow> slices_ok (session_hangup k me)"
  by (simp add: session_hangup_def Let_def slices_ok_update_where slice_ok_raise_and_wake)

lemma kins_set_father:
  "kins (update_where (is_child_of me) (\<lambda>p. p\<lparr>relation := (relation p)\<lparr>father := 1\<rparr>\<rparr>) k) i
     = map_option (adopt me) (kins k i)"
  by (cases "task_at k i")
    (auto simp: kins_def task_at_update_where kin_def adopt_def is_child_of_def is_zombie_def)

lemma kins_reparent: "kins (reparent k me) i = map_option (adopt me) (kins k i)"
proof -
  let ?k1 = "update_where (is_child_of me) (\<lambda>p. p\<lparr>relation := (relation p)\<lparr>father := 1\<rparr>\<rparr>) k"
  have "kins (reparent k me) = kins ?k1"
    by (simp add: reparent_def Let_def kins_update_task split: option.splits)
  then show ?thesis by (simp only: kins_set_father)
qed

lemma length_reparent [simp]: "length (tasks (reparent k me)) = length (tasks k)"
  by (simp add: reparent_def Let_def split: option.splits)

lemma current_reparent [simp]: "current (reparent k me) = current k"
  by (simp add: reparent_def Let_def split: option.splits)

lemma slices_reparent: "slices_ok k \<Longrightarrow> slices_ok (reparent k me)"
  by (simp add: reparent_def Let_def slices_ok_update_where slices_ok_update_task slice_ok_raise_and_wake
      split: option.splits)

lemma notify_father_facts [simp]:
  "kins (notify_father me k) = kins k" "length (tasks (notify_father me k)) = length (tasks k)"
  "current (notify_father me k) = current k"
  by (simp_all add: notify_father_def kins_update_task split: option.splits)

lemma slices_notify_father: "slices_ok k \<Longrightarrow> slices_ok (notify_father me k)"
  by (simp add: notify_father_def slices_ok_update_task slice_ok_raise_and_wake split: option.splits)

lemma kins_exit_section:
  "kins (exit_section c me k) i =
     map_option (\<lambda>(s, p, f, z). adopt me (s, p, f, z \<or> i = current k)) (kins k i)"
proof -
  let ?k2 = "reparent (session_hangup k me) me"
  have z: "kins (with_current (become_zombie c) ?k2) i =
      map_option (\<lambda>(s, p, f, z). (s, p, f, z \<or> i = current k)) (kins ?k2 i)"
    by (cases "task_at ?k2 i")
      (auto simp: kins_def with_current_def task_at_update_task kin_def become_zombie_def is_zombie_def)
  show ?thesis
    unfolding exit_section_def notify_father_facts(1) z kins_reparent
    by (cases "kins k i") (auto simp: adopt_def split: prod.splits)
qed

lemma length_exit_section [simp]: "length (tasks (exit_section c me k)) = length (tasks k)"
  by (simp add: exit_section_def with_current_def)

lemma current_exit_section [simp]: "current (exit_section c me k) = current k"
  by (simp add: exit_section_def with_current_def)

lemma slices_exit_section: "slices_ok k \<Longrightarrow> slices_ok (exit_section c me k)"
  unfolding exit_section_def with_current_def
  by (intro slices_notify_father slices_ok_update_task slices_reparent slices_session_hangup)
    (simp_all add: become_zombie_def slice_ok_state)

lemma family_exit_section:
  assumes fam: "family_ok K" and me: "K c = Some (c, q, f0, False)" and c: "c \<noteq> 0"
    and K': "\<And>i. K' i = map_option (\<lambda>(s, p, f, z). (s, p, if s \<noteq> c \<and> f = q then 1 else f, z \<or> i = c)) (K i)"
  shows "family_ok K'"
proof -
  have uniq: "K i = Some (s, p, f, z) \<Longrightarrow> K j = Some (s', p, f', z') \<Longrightarrow> i = j" for i j s s' p f f' z z'
    using family_unique [OF fam] by blast
  have self: "K i = Some (s, p, f, z) \<Longrightarrow> s = i \<and> i < TASK_NUM" for i s p f z
    using family_slot [OF fam] by blast
  obtain p0 f1 where idle: "K 0 = Some (0, p0, f1, False)" using fam by (auto simp: family_ok_def)
  have orig: "\<exists>f0 z0. K i = Some (s, p, f0, z0) \<and> f = (if s \<noteq> c \<and> f0 = q then 1 else f0) \<and> z = (z0 \<or> i = c)"
    if K'i: "K' i = Some (s, p, f, z)" for i s p f z
  proof -
    have "K i \<noteq> None" using K'i unfolding K' by auto
    then obtain s0 p0 f0 z0 where "K i = Some (s0, p0, f0, z0)" by auto
    then show ?thesis using K'i unfolding K' by (intro exI [of _ f0] exI [of _ z0]) auto
  qed
  have father: "\<exists>j s' f'. j \<noteq> i \<and> K' j = Some (s', f, f', False)"
    if K'i: "K' i = Some (s, p, f, z)" and i: "i \<noteq> 0" "f \<noteq> 1" for i s p f z
  proof -
    obtain g z0 where g: "K i = Some (s, p, g, z0)" "f = (if s \<noteq> c \<and> g = q then 1 else g)"
      using orig [OF K'i] by blast
    with i(2) have not_child: "\<not> (s \<noteq> c \<and> g = q)" and fg: "f = g" by auto
    obtain j s' f' where j: "j \<noteq> i" "K j = Some (s', g, f', False)"
      using family_father [OF fam g(1) i(1)] i(2) fg by blast
    have "j \<noteq> c"
    proof
      assume "j = c"
      then have "g = q" using j(2) me by simp
      then have "i = c" using not_child self [OF g(1)] by simp
      with j(1) \<open>j = c\<close> show False by simp
    qed
    then show ?thesis using j fg unfolding K' by fastforce
  qed
  have "K' 0 = Some (0, p0, if 0 \<noteq> c \<and> f1 = q then 1 else f1, False)" using idle c unfolding K' by simp
  moreover have "s = i \<and> i < TASK_NUM" if "K' i = Some (s, p, f, z)" for i s p f z
    using orig [OF that] self by blast
  moreover have "i = j" if "K' i = Some (s, p, f, z)" "K' j = Some (s', p, f', z')" for i j s s' p f f' z z'
    using orig [OF that(1)] orig [OF that(2)] uniq by blast
  ultimately show ?thesis using father by (intro family_okI) blast+
qed

lemma exit_section_switching:
  assumes ok: "proc_ok k" and me: "current_task k = Some me" and ne: "slot me \<noteq> 0"
  shows "switching (exit_section c me k)" and "slot me = current k"
proof -
  have fam: "family_ok (kins k)" using ok by (simp add: proc_ok_def)
  have at: "task_at k (current k) = Some me" using me by (simp add: current_task_def)
  show slot: "slot me = current k" using proc_ok_table [OF ok] at by (auto simp: table_ok_def)
  obtain f0 where me': "kins k (current k) = Some (current k, pid me, f0, False)"
    using ok at slot by (auto simp: proc_ok_def kins_def kin_def)
  have "family_ok (kins (exit_section c me k))"
  proof (rule family_exit_section [OF fam me'])
    show "current k \<noteq> 0" using ne slot by simp
    show "kins (exit_section c me k) i = map_option (\<lambda>(s, p, f, z).
        (s, p, if s \<noteq> current k \<and> f = pid me then 1 else f, z \<or> i = current k)) (kins k i)" for i
      unfolding kins_exit_section by (cases "kins k i") (auto simp: adopt_def slot)
  qed
  moreover have "task_at (exit_section c me k) (current k) \<noteq> None"
    using kins_exit_section [of c me k "current k"] me' by (auto simp: kins_def)
  ultimately show "switching (exit_section c me k)"
    using ok by (simp add: switching_def proc_ok_def slices_exit_section)
qed

lemma exit_process_ok:
  assumes ok: "proc_ok k" and me: "current_task k = Some me" and ne: "slot me \<noteq> 0"
  shows "\<exists>k'. exit_process c k = Some (Ok k') \<and> proc_ok k' \<and> kins k' = kins (exit_section c me k)
           \<and> current k' \<noteq> slot me"
proof -
  obtain k' where k': "schedule (exit_section c me k) = Some k'" "proc_ok k'"
    "kins k' = kins (exit_section c me k)"
    using schedule_proc_ok [OF exit_section_switching(1) [OF assms, of c]] by blast
  have "current k' \<noteq> slot me"
  proof
    assume "current k' = slot me"
    then have "\<exists>s p f. kins (exit_section c me k) (current k) = Some (s, p, f, False)"
      using k'(2,3) exit_section_switching(2) [OF assms] by (auto simp: proc_ok_def)
    then show False unfolding kins_exit_section by (auto simp: adopt_def)
  qed
  then show ?thesis using k' me ne by (simp add: exit_process_def)
qed

section \<open>Waitpid\<close>

lemma mem_wait_children:
  "t \<in> set (wait_children p me k) \<longleftrightarrow>
     (\<exists>i. task_at k i = Some t) \<and> slot t \<noteq> slot me \<and> father (relation (inner t)) = pid me
     \<and> pid_matches p (pgrp (relation (inner me))) t"
  by (auto simp: wait_children_def set_map_filter_eq task_at_def in_set_conv_nth split: if_splits)

lemma find_map_Some: "find_map f xs = Some y \<Longrightarrow> \<exists>x \<in> set xs. f x = Some y"
  by (induction xs) (auto split: option.splits)

lemma find_map_None: "find_map f xs = None \<longleftrightarrow> (\<forall>x \<in> set xs. f x = None)"
  by (induction xs) (auto split: option.splits)

lemma task_at_reap:
  "task_at (reap s ut st k) i =
     (if i = s then None
      else if i = current k
      then map_option (exclusive (\<lambda>p. p\<lparr>acct := (acct p)\<lparr>cutime := cutime (acct p) + ut, cstime := cstime (acct p) + st\<rparr>\<rparr>))
             (task_at k i)
      else task_at k i)"
proof -
  have "task_at (k\<lparr>tasks := (tasks k)[s := None]\<rparr>) i = (if i = s then None else task_at k i)" for k
    by (auto simp: task_at_def)
  then show ?thesis by (simp add: reap_def Let_def with_current_def task_at_update_task)
qed

lemma kins_reap: "kins (reap s ut st k) i = (if i = s then None else kins k i)"
  by (cases "task_at k i") (auto simp: kins_def task_at_reap kin_def is_zombie_def)

lemma length_reap [simp]: "length (tasks (reap s ut st k)) = length (tasks k)"
  by (simp add: reap_def Let_def with_current_def)

lemma current_reap [simp]: "current (reap s ut st k) = current k"
  by (simp add: reap_def Let_def with_current_def)

lemma slices_reap: "slices_ok k \<Longrightarrow> slices_ok (reap s ut st k)"
  by (auto simp: slices_ok_def task_at_reap split: if_splits)

text \<open>Removing a zombie orphans nobody: its children went to init when it died.\<close>

lemma family_reap:
  assumes fam: "family_ok K" and z: "K s = Some (s, q, f0, True)"
    and K': "\<And>i. K' i = (if i = s then None else K i)"
  shows "family_ok K'"
proof (rule family_okI)
  show "\<exists>p f. K' 0 = Some (0, p, f, False)" using family_idle [OF fam] z by (cases s) (auto simp: K')
next
  fix i s' p f z' assume a: "K' i = Some (s', p, f, z')" "i \<noteq> 0" "f \<noteq> 1"
  then have i: "K i = Some (s', p, f, z')" "i \<noteq> s" by (auto simp: K' split: if_splits)
  obtain j t f' where j: "j \<noteq> i" "K j = Some (t, f, f', False)" using family_father [OF fam i(1) a(2,3)] .
  have "j \<noteq> s" using j(2) z by auto
  then show "\<exists>j t f'. j \<noteq> i \<and> K' j = Some (t, f, f', False)" using j by (auto simp: K')
next
  fix i s' p f z' assume "K' i = Some (s', p, f, z')"
  then show "s' = i \<and> i < TASK_NUM" using family_slot [OF fam] by (auto simp: K' split: if_splits)
next
  fix i j s1 s2 p f1 f2 z1 z2 assume "K' i = Some (s1, p, f1, z1)" "K' j = Some (s2, p, f2, z2)"
  then have "K i = Some (s1, p, f1, z1)" "K j = Some (s2, p, f2, z2)" by (auto simp: K' split: if_splits)
  then show "i = j" by (rule family_unique [OF fam])
qed

lemma reap_proc_ok:
  assumes ok: "proc_ok k" and z: "task_at k s = Some t" "is_zombie t"
  shows "proc_ok (reap s ut st k)"
proof -
  have fam: "family_ok (kins k)" using ok by (simp add: proc_ok_def)
  have ks: "kins k s = Some (slot t, pid t, father (relation (inner t)), True)"
    using z by (simp add: kins_def kin_def)
  have "slot t = s" using family_slot(1) [OF fam ks] .
  then have "kins k s = Some (s, pid t, father (relation (inner t)), True)" using ks by simp
  then have "family_ok (kins (reap s ut st k))" by (rule family_reap [OF fam _ kins_reap])
  moreover have "current k \<noteq> s" using ok ks by (auto simp: proc_ok_def)
  ultimately show ?thesis
    using ok by (auto simp: proc_ok_def kins_reap slices_reap)
qed

lemma waitpid_scan_proc_ok:
  assumes ok: "proc_ok k"
  shows "proc_ok (snd (waitpid_scan p options me k))"
proof (cases "find_map (child_result options) (wait_children p me k)")
  case None
  then show ?thesis using ok by (simp add: waitpid_scan_def Let_def)
next
  case (Some r)
  then obtain t where t: "t \<in> set (wait_children p me k)" "child_result options t = Some r"
    using find_map_Some by metis
  show ?thesis
  proof (cases r)
    case (ScanZombie s q c ut st)
    then have "slot t = s" "is_zombie t"
      using t(2) by (auto simp: child_result_def Let_def is_zombie_def split: if_splits)
    moreover have "\<exists>i. task_at k i = Some t" using t(1) by (simp add: mem_wait_children)
    then have "task_at k (slot t) = Some t" using proc_ok_table [OF ok] by (auto simp: table_ok_def)
    ultimately show ?thesis
      using reap_proc_ok [OF ok] Some ScanZombie by (simp add: waitpid_scan_def Let_def)
  qed (use ok Some in \<open>simp_all add: waitpid_scan_def Let_def\<close>)
qed

text \<open>A pass keeps the invariant when it returns, and ends in a legal switch when it sleeps.\<close>

lemma kins_with_current:
  "(\<And>t. kin (exclusive f t) = kin t) \<Longrightarrow> kins (with_current f k) = kins k"
  unfolding with_current_def by (rule kins_update_task)

lemma with_current_proc_ok:
  assumes "proc_ok k" "\<And>t. kin (exclusive f t) = kin t" "\<And>p. slice_ok (sched p) \<Longrightarrow> slice_ok (sched (f p))"
  shows "proc_ok (with_current f k)"
  using assms(1) kins_with_current [OF assms(2)]
proof (rule proc_ok_cong)
  show "slices_ok (with_current f k)"
    unfolding with_current_def by (rule slices_ok_update_task [OF proc_ok_slices [OF assms(1)] assms(3)])
qed (simp_all add: with_current_def)

lemma sleep_switching:
  assumes "proc_ok k" "st \<noteq> Zombie"
  shows "switching (with_current (\<lambda>p. p\<lparr>sched := (sched p)\<lparr>state := st\<rparr>\<rparr>) k)"
proof -
  let ?f = "\<lambda>p. p\<lparr>sched := (sched p)\<lparr>state := st\<rparr>\<rparr>"
  obtain t where t: "task_at k (current k) = Some t" "\<not> is_zombie t"
    using assms(1) by (auto simp: proc_ok_def kins_def kin_def)
  have "kins (with_current ?f k) = kins k"
    unfolding with_current_def
    by (rule kins_update_task) (use t assms(2) in \<open>simp add: kin_def is_zombie_def\<close>)
  then show ?thesis
    using assms(1) t by (auto simp: switching_def proc_ok_def with_current_def slices_ok_update_task slice_ok_state
        task_at_update_task)
qed

lemma waitpid_pass_ok:
  assumes "proc_ok k" "waitpid_pass p options k = (r, k')"
  shows "if r = WaitSleeps then switching k' else proc_ok k'"
proof -
  obtain me where me: "current_task k = Some me"
    using assms(1) by (auto simp: proc_ok_def kins_def current_task_def)
  obtain s k1 where s: "waitpid_scan p options me k = (s, k1)" by fastforce
  have k1: "proc_ok k1" using waitpid_scan_proc_ok [OF assms(1), of p options me] s by simp
  show ?thesis
    using assms(2) me s k1 sleep_switching [OF k1, of Interruptible]
    by (cases s) (auto simp: waitpid_pass_def split: if_splits)
qed

lemma clear_chld_proc_ok: "proc_ok k \<Longrightarrow> proc_ok (with_current (\<lambda>p. p\<lparr>signal_info := clear n (signal_info p)\<rparr>) k)"
  by (rule with_current_proc_ok) (simp_all add: kin_def is_zombie_def)

lemma waitpid_resume_ok:
  assumes "proc_ok k" "waitpid_resume p options k = (r, k')"
  shows "if r = WaitSleeps then switching k' else proc_ok k'"
proof -
  let ?k1 = "with_current (\<lambda>p. p\<lparr>signal_info := clear SIGCHLD (signal_info p)\<rparr>) k"
  have k1: "proc_ok ?k1" using clear_chld_proc_ok [OF assms(1)] .
  then obtain me where me: "current_task ?k1 = Some me"
    by (auto simp: proc_ok_def kins_def current_task_def)
  show ?thesis
    using assms(2) me k1 waitpid_pass_ok [OF k1, of p options r k']
    by (auto simp: waitpid_resume_def Let_def split: if_splits)
qed

section \<open>Fork\<close>

lemma used_pids_iff: "p \<in> used_pids k \<longleftrightarrow> (\<exists>i t. task_at k i = Some t \<and> pid t = p)"
proof -
  have "(\<exists>i. task_at k i = Some t) \<longleftrightarrow> Some t \<in> set (tasks k)" for t
    by (auto simp: task_at_def in_set_conv_nth)
  then show ?thesis unfolding used_pids_def set_map set_map_filter_eq by (auto, metis)
qed

lemma card_used_pids: "finite (used_pids k)" "card (used_pids k) \<le> length (tasks k)"
proof -
  have len: "length (List.map_filter id xs) \<le> length xs" for xs :: "'a option list"
    by (induction xs) (auto simp: List.map_filter_simps split: option.splits)
  show "finite (used_pids k)" by (simp add: used_pids_def)
  show "card (used_pids k) \<le> length (tasks k)"
    unfolding used_pids_def by (rule order_trans [OF card_length]) (simp add: len)
qed

definition alloc_post :: "kernel \<Rightarrow> (nat \<times> u32) option \<Rightarrow> u32 \<Rightarrow> bool" where
  "alloc_post k r p \<longleftrightarrow>
     p \<noteq> 0 \<and> (\<forall>i t. task_at k i = Some t \<longrightarrow> pid t \<noteq> p) \<and>
     (case r of
        None \<Rightarrow> \<forall>i. 0 < i \<and> i < TASK_NUM \<longrightarrow> task_at k i \<noteq> None
      | Some (s, q) \<Rightarrow>
          q = p \<and> 0 < s \<and> s < TASK_NUM \<and> task_at k s = None \<and> (\<forall>i. 0 < i \<and> i < s \<longrightarrow> task_at k i \<noteq> None))"

lemma alloc_process_effect:
  assumes len: "length (tasks k) = TASK_NUM"
  shows "\<exists>r p. alloc_process k = Some (r, k\<lparr>last_pid := p\<rparr>) \<and> alloc_post k r p"
proof -
  have "card (used_pids k) < 2 ^ 32 - 1" using card_used_pids(2) [of k] len by (simp add: TASK_NUM_def)
  then obtain p where p: "find_pid (used_pids k) (last_pid k) = Some p" "p \<notin> used_pids k" "p \<noteq> 0"
    using find_pid_returns [OF card_used_pids(1)] by blast
  let ?free = "List.find (\<lambda>i. tasks k ! i = None) [1..<TASK_NUM]"
  have run: "alloc_process k = Some (map_option (\<lambda>s. (s, p)) ?free, k\<lparr>last_pid := p\<rparr>)"
    using p(1) by (simp add: alloc_process_def Let_def)
  have fresh: "\<forall>i t. task_at k i = Some t \<longrightarrow> pid t \<noteq> p" using p(2) by (auto simp: used_pids_iff)
  have at: "task_at k i = tasks k ! i" if "i < TASK_NUM" for i using that len by (simp add: task_at_def)
  show ?thesis
  proof (cases ?free)
    case None
    then have "\<forall>i. 0 < i \<and> i < TASK_NUM \<longrightarrow> task_at k i \<noteq> None"
      by (auto simp: find_None_iff at)
    then show ?thesis using run None fresh p(3) by (auto simp: alloc_post_def)
  next
    case (Some s)
    then obtain j where j: "j < length [1..<TASK_NUM]" "tasks k ! ([1..<TASK_NUM] ! j) = None" "s = [1..<TASK_NUM] ! j"
      "\<forall>l < j. tasks k ! ([1..<TASK_NUM] ! l) \<noteq> None"
      unfolding find_Some_iff by blast
    then have s: "s = Suc j" "0 < s" "s < TASK_NUM" by auto
    have "task_at k i \<noteq> None" if "0 < i" "i < s" for i
    proof -
      have "i - 1 < j" "[1..<TASK_NUM] ! (i - 1) = i" using that s j(1) by auto
      then show ?thesis using j(4) that s at [of i] by fastforce
    qed
    then show ?thesis
      using run Some s j(2,3) fresh p(3) at [of s] by (auto simp: alloc_post_def)
  qed
qed

definition new_task :: "nat \<Rightarrow> u32 \<Rightarrow> TaskControlBlock \<Rightarrow> TaskControlBlock" where
  "new_task s p me = \<lparr>slot = s, pid = p, inner = child_inner (pid me) (inner me)\<rparr>"

lemma family_fork:
  assumes fam: "family_ok K" and me: "K c = Some (c, q, f0, False)" and s: "K s = None" "s < TASK_NUM"
    and fresh: "\<And>i s' f z. K i \<noteq> Some (s', p, f, z)"
  shows "family_ok (K(s \<mapsto> (s, p, q, False)))"
proof (rule family_okI)
  show "\<exists>p' f. (K(s \<mapsto> (s, p, q, False))) 0 = Some (0, p', f, False)" using family_idle [OF fam] s by auto
next
  fix i s' p' f z assume a: "(K(s \<mapsto> (s, p, q, False))) i = Some (s', p', f, z)" "i \<noteq> 0" "f \<noteq> 1"
  show "\<exists>j t f'. j \<noteq> i \<and> (K(s \<mapsto> (s, p, q, False))) j = Some (t, f, f', False)"
  proof (cases "i = s")
    case True
    then have "(K(s \<mapsto> (s, p, q, False))) c = Some (c, f, f0, False)" using a(1) me s(1) by auto
    moreover have "c \<noteq> i" using True me s(1) by auto
    ultimately show ?thesis by blast
  next
    case False
    then have "K i = Some (s', p', f, z)" using a(1) by simp
    then obtain j t f' where "j \<noteq> i" "K j = Some (t, f, f', False)" using family_father [OF fam _ a(2,3)] by blast
    then have "(K(s \<mapsto> (s, p, q, False))) j = Some (t, f, f', False)" using s(1) by auto
    then show ?thesis using \<open>j \<noteq> i\<close> by blast
  qed
next
  fix i s' p' f z assume "(K(s \<mapsto> (s, p, q, False))) i = Some (s', p', f, z)"
  then show "s' = i \<and> i < TASK_NUM" using family_slot [OF fam] s(2) by (auto split: if_splits)
next
  fix i j s1 s2 p' f1 f2 z1 z2
  assume "(K(s \<mapsto> (s, p, q, False))) i = Some (s1, p', f1, z1)" "(K(s \<mapsto> (s, p, q, False))) j = Some (s2, p', f2, z2)"
  then show "i = j" using family_unique [OF fam] fresh by (auto split: if_splits)
qed

end
