(* ===== verification/Process_Properties.thy ===== *)
theory Process_Properties
  imports Process_Steps
begin

text \<open>
  The process system as a step relation over whole calls, its reachable states, and the properties of
  the scheduler, exit, waitpid, fork, kill and the identity calls.
\<close>

section \<open>Fork and the other steps\<close>

lemma sys_fork_ok:
  assumes ok: "proc_ok k" and run: "sys_fork memory k = Some (r, k')"
  shows "proc_ok k'"
proof -
  obtain a l where al: "alloc_process k = Some (a, k\<lparr>last_pid := l\<rparr>)" "alloc_post k a l"
    using alloc_process_effect ok by (metis proc_ok_def)
  define k1 where k1: "k1 = k\<lparr>last_pid := l\<rparr>"
  have a: "alloc_process k = Some (a, k1)" "alloc_post k a l" using al by (simp_all add: k1)
  have ok1: "proc_ok k1"
    by (rule proc_ok_cong [OF ok]) (simp_all add: k1 proc_ok_slices [OF ok])
  show ?thesis
  proof (cases "a = None \<or> \<not> memory")
    case True
    then show ?thesis using run a(1) ok1 by (auto simp: sys_fork_def split: if_splits option.splits)
  next
    case False
    then obtain s p where sp: "a = Some (s, p)" and m: "memory" by auto
    obtain me where me: "current_task k1 = Some me" using ok1
      by (auto simp: proc_ok_def kins_def current_task_def)
    have at1: "task_at k1 i = task_at k i" for i by (simp add: k1)
    have new: "0 < s" "s < TASK_NUM" "task_at k1 s = None" "\<forall>i t. task_at k1 i = Some t \<longrightarrow> pid t \<noteq> p"
      using a(2) sp unfolding alloc_post_def at1 by auto
    have k': "k' = k1\<lparr>tasks := (tasks k1)[s := Some (new_task s p me)]\<rparr>"
      using run a(1) sp m me by (simp add: sys_fork_def new_task_def)
    have len: "length (tasks k1) = TASK_NUM" using ok1 by (simp add: proc_ok_def)
    have at': "task_at k' i = (if i = s then Some (new_task s p me) else task_at k1 i)" for i
      using new(2) len by (simp add: k' task_at_def)
    have kk: "kins k' = (kins k1)(s \<mapsto> (s, p, pid me, False))"
      by (simp add: kins_def at' new_task_def kin_def child_inner_def is_zombie_def fun_eq_iff)
    obtain f0 where cur: "kins k1 (current k1) = Some (current k1, pid me, f0, False)"
      using ok1 me proc_ok_table [OF ok1] by (auto simp: proc_ok_def kins_def kin_def current_task_def table_ok_def)
    have fam: "family_ok (kins k')"
      unfolding kk
    proof (rule family_fork [where K = "kins k1" and c = "current k1"])
      show "family_ok (kins k1)" using ok1 by (simp add: proc_ok_def)
      show "kins k1 (current k1) = Some (current k1, pid me, f0, False)" "s < TASK_NUM" by (fact cur new(2))+
      show "kins k1 s = None" using new(3) by (simp add: kins_def)
      show "kins k1 i \<noteq> Some (s', p, f, z)" for i s' f z using new(4) by (auto simp: kins_def kin_def)
    qed
    have "task_at k1 (current k1) = Some me" using me by (simp add: current_task_def)
    then have "slice_ok (sched (inner me))" using ok1 by (auto simp: proc_ok_def slices_ok_def)
    then have "slices_ok k'"
      using ok1 by (auto simp: slices_ok_def at' new_task_def child_inner_def slice_ok_def proc_ok_def)
    moreover have "current k' = current k1" by (simp add: k')
    moreover have "length (tasks k') = TASK_NUM" by (simp add: k' len)
    moreover have "current k1 \<noteq> s" using cur new(3) by (auto simp: kins_def)
    ultimately show ?thesis unfolding proc_ok_def using fam cur kk by auto
  qed
qed

lemma update_where_proc_ok:
  assumes "proc_ok k" "\<And>t. kin (exclusive f t) = kin t" "\<And>p. slice_ok (sched p) \<Longrightarrow> slice_ok (sched (f p))"
  shows "proc_ok (update_where P f k)"
  using assms(1) kins_update_where [OF assms(2)]
proof (rule proc_ok_cong)
  show "slices_ok (update_where P f k)" by (rule slices_ok_update_where [OF proc_ok_slices [OF assms(1)] assms(3)])
qed simp_all

lemma update_task_proc_ok:
  assumes "proc_ok k" "\<And>t. kin (exclusive f t) = kin t" "\<And>p. slice_ok (sched p) \<Longrightarrow> slice_ok (sched (f p))"
  shows "proc_ok (update_task i f k)"
  using assms(1) kins_update_task [OF assms(2)]
proof (rule proc_ok_cong)
  show "slices_ok (update_task i f k)" by (rule slices_ok_update_task [OF proc_ok_slices [OF assms(1)] assms(3)])
qed simp_all

text \<open>The loops of \<^verbatim>\<open>kill\<close> as a map and a search.\<close>

definition may_signal :: "u32 \<Rightarrow> TaskControlBlock \<Rightarrow> TaskControlBlock \<Rightarrow> bool" where
  "may_signal p me t \<longleftrightarrow> p = 0 \<or> euid (identity (inner me)) = 0 \<or> euid (identity (inner me)) = euid (identity (inner t))"

lemma kill_loop_effect:
  "kill_loop p n me ts result =
     (if \<exists>t. Some t \<in> set ts \<and> slot t \<noteq> 0 \<and> kill_matches p (pid me) t \<and> \<not> may_signal p me t then Err Errno_PERM else result,
      map (map_option (\<lambda>t. if slot t \<noteq> 0 \<and> kill_matches p (pid me) t \<and> may_signal p me t
                           then exclusive (raise_and_wake (unat n)) t else t)) ts)"
proof (induction ts arbitrary: result)
  case (Cons x ts)
  show ?case
  proof (cases x)
    case None
    with Cons.IH show ?thesis by simp
  next
    case (Some t)
    consider "slot t = 0 \<or> \<not> kill_matches p (pid me) t" | "slot t \<noteq> 0" "kill_matches p (pid me) t" "\<not> may_signal p me t"
      | "slot t \<noteq> 0" "kill_matches p (pid me) t" "may_signal p me t" by blast
    then show ?thesis
    proof cases
      case 1
      with Some Cons.IH show ?thesis by auto
    next
      case 2
      then have "send_signal n t (p = 0) me = (Err Errno_PERM, t)" by (auto simp: send_signal_def may_signal_def)
      with 2 Some Cons.IH [of "Err Errno_PERM"] show ?thesis by auto
    next
      case 3
      then have "send_signal n t (p = 0) me = (Ok (), exclusive (raise_and_wake (unat n)) t)"
        by (auto simp: send_signal_def may_signal_def)
      with 3 Some Cons.IH show ?thesis by auto
    qed
  qed
qed simp

lemma null_loop_effect: "null_loop p me ts found \<longleftrightarrow> found \<or> (\<exists>t. Some t \<in> set ts \<and> slot t \<noteq> 0 \<and> null_matches p t)"
  by (induction p me ts found rule: null_loop.induct) auto

lemma task_in_table: "Some t \<in> set (tasks k) \<longleftrightarrow> (\<exists>i. task_at k i = Some t)"
  by (auto simp: task_at_def in_set_conv_nth)

lemma sys_kill_effect:
  assumes "current_task k = Some me" "n \<noteq> 0" "unat n \<le> NSIG"
  shows "sys_kill p n k =
     (if \<exists>i t. task_at k i = Some t \<and> slot t \<noteq> 0 \<and> kill_matches p (pid me) t \<and> \<not> may_signal p me t then Err Errno_PERM else Ok 0,
      update_where (\<lambda>t. slot t \<noteq> 0 \<and> kill_matches p (pid me) t \<and> may_signal p me t) (raise_and_wake (unat n)) k)"
  using assms by (auto simp: sys_kill_def kill_loop_effect update_where_def task_in_table)

lemma sys_kill_ok: "proc_ok k \<Longrightarrow> proc_ok (snd (sys_kill p n k))"
proof -
  assume ok: "proc_ok k"
  obtain me where me: "current_task k = Some me" using ok by (auto simp: proc_ok_def kins_def current_task_def)
  show ?thesis
  proof (cases "n = 0 \<or> \<not> unat n \<le> NSIG")
    case True
    then show ?thesis using ok me by (auto simp: sys_kill_def)
  next
    case False
    then show ?thesis using ok sys_kill_effect [OF me, of n p]
      by (auto simp: slice_ok_raise_and_wake intro!: update_where_proc_ok)
  qed
qed

lemma sys_setsid_ok: "proc_ok k \<Longrightarrow> proc_ok (snd (sys_setsid k))"
  by (auto simp: sys_setsid_def kin_def is_zombie_def intro!: with_current_proc_ok split: option.splits)

lemma sys_setpgid_ok: "proc_ok k \<Longrightarrow> proc_ok (snd (sys_setpgid p g k))"
  by (auto simp: sys_setpgid_def Let_def kin_def is_zombie_def intro!: update_task_proc_ok split: option.splits)

lemma slice_ok_nice: "slice_ok sc \<Longrightarrow> slice_ok (sys_nice inc sc)"
proof -
  assume sc: "slice_ok sc"
  have "unat (priority sc - inc) = unat (priority sc) - unat inc" if "inc < priority sc"
    using that by (intro unat_sub) simp
  then show ?thesis
    using sc by (auto simp: slice_ok_def sys_nice_def word_less_nat_alt)
qed

lemma state_sys_nice [simp]: "state (sys_nice inc sc) = state sc"
  by (simp add: sys_nice_def)

section \<open>Reachable states\<close>

text \<open>
  One step is one kernel entry, run until it returns or gives up the CPU.  The system starts when the
  idle task has forked init.
\<close>

inductive proc_step :: "kernel \<Rightarrow> kernel \<Rightarrow> bool" where
  step_exit: "exit_process c k = Some (Ok k') \<Longrightarrow> proc_step k k'"
| step_fork: "sys_fork memory k = Some (r, k') \<Longrightarrow> proc_step k k'"
| step_wait: "waitpid_pass p options k = (r, k') \<Longrightarrow> r \<noteq> WaitSleeps \<Longrightarrow> proc_step k k'"
| step_wait_sleep: "waitpid_pass p options k = (WaitSleeps, k1) \<Longrightarrow> schedule k1 = Some k' \<Longrightarrow> proc_step k k'"
| step_rewait: "waitpid_resume p options k = (r, k') \<Longrightarrow> r \<noteq> WaitSleeps \<Longrightarrow> proc_step k k'"
| step_rewait_sleep: "waitpid_resume p options k = (WaitSleeps, k1) \<Longrightarrow> schedule k1 = Some k' \<Longrightarrow> proc_step k k'"
| step_kill: "proc_step k (snd (sys_kill p n k))"
| step_tick: "handle_timer_tick user k = Some k' \<Longrightarrow> proc_step k k'"
| step_pause: "st \<noteq> Zombie \<Longrightarrow> schedule (with_current (\<lambda>p. p\<lparr>sched := (sched p)\<lparr>state := st\<rparr>\<rparr>) k) = Some k'
    \<Longrightarrow> proc_step k k'"
| step_nice: "proc_step k (with_current (\<lambda>p. p\<lparr>sched := sys_nice inc (sched p)\<rparr>) k)"
| step_setsid: "proc_step k (snd (sys_setsid k))"
| step_setpgid: "proc_step k (snd (sys_setpgid p g k))"

inductive proc_reachable :: "kernel \<Rightarrow> bool" where
  boot: "sys_fork True TaskManager_new = Some (Ok p, k) \<Longrightarrow> proc_reachable k"
| more: "proc_reachable k \<Longrightarrow> proc_step k k' \<Longrightarrow> proc_reachable k'"

lemma schedule_keeps: "switching k \<Longrightarrow> schedule k = Some k' \<Longrightarrow> proc_ok k'"
  using schedule_proc_ok by fastforce

lemma tick_ok:
  assumes ok: "proc_ok k" and run: "handle_timer_tick user k = Some k'"
  shows "proc_ok k'"
proof -
  have "proc_ok (k\<lparr>jiffies := jiffies k + 1\<rparr>)"
    by (rule proc_ok_cong [OF ok]) (simp_all add: proc_ok_slices [OF ok])
  then have "proc_ok (with_current (tick user) (k\<lparr>jiffies := jiffies k + 1\<rparr>))"
    by (rule with_current_proc_ok) (simp_all add: slice_ok_tick)
  then show ?thesis
    using run schedule_keeps [OF proc_ok_switching]
    by (auto simp: handle_timer_tick_def Let_def split: if_splits)
qed

lemma exit_keeps:
  assumes "proc_ok k" "exit_process c k = Some (Ok k')"
  shows "proc_ok k'"
proof -
  obtain me where me: "current_task k = Some me" "slot me \<noteq> 0"
    using assms(2) by (auto simp: exit_process_def split: option.splits if_splits)
  with exit_process_ok [OF assms(1) me, of c] assms(2) show ?thesis by auto
qed

lemma proc_step_ok: "proc_step k k' \<Longrightarrow> proc_ok k \<Longrightarrow> proc_ok k'"
proof (induction rule: proc_step.induct)
  case (step_exit c k k')
  then show ?case using exit_keeps by blast
next
  case (step_fork memory k r k')
  then show ?case using sys_fork_ok by blast
next
  case (step_wait p options k r k')
  then show ?case using waitpid_pass_ok by fastforce
next
  case (step_wait_sleep p options k k1 k')
  then show ?case using waitpid_pass_ok [of k p options WaitSleeps k1] schedule_keeps by simp
next
  case (step_rewait p options k r k')
  then show ?case using waitpid_resume_ok by fastforce
next
  case (step_rewait_sleep p options k k1 k')
  then show ?case using waitpid_resume_ok [of k p options WaitSleeps k1] schedule_keeps by simp
next
  case (step_pause st k k')
  then show ?case using sleep_switching schedule_keeps by blast
next
  case (step_nice k inc)
  then show ?case by (rule with_current_proc_ok) (simp_all add: kin_def is_zombie_def slice_ok_nice state_sys_nice)
qed (auto intro: sys_kill_ok tick_ok sys_setsid_ok sys_setpgid_ok)

lemma find_pid_boot: "find_pid {0} 0 = Some 1"
  by (subst find_pid.simps) (simp add: next_pid_def)

definition init_task :: TaskControlBlock where
  "init_task = new_task 1 1 TaskControlBlock_new_kernel"

definition booted :: kernel where
  "booted = \<lparr>tasks = Some TaskControlBlock_new_kernel # Some init_task # replicate 62 None, last_pid = 1,
     current = 0, jiffies = 0, cleared_ttys = []\<rparr>"

lemma fork_boot: "sys_fork True TaskManager_new = Some (Ok 1, booted)"
proof -
  have "used_pids TaskManager_new = {0}"
    by (auto simp: used_pids_iff task_at_def TaskManager_new_def TaskControlBlock_new_kernel_def TASK_NUM_def nth_Cons
        split: nat.splits if_splits)
  moreover have "List.find (\<lambda>i. tasks TaskManager_new ! i = None) [1..<TASK_NUM] = Some 1"
    by (simp add: TASK_NUM_def TaskManager_new_def upt_rec)
  ultimately have "alloc_process TaskManager_new = Some (Some (1, 1), TaskManager_new\<lparr>last_pid := 1\<rparr>)"
    using find_pid_boot by (simp add: alloc_process_def Let_def TaskManager_new_def)
  then show ?thesis
    by (simp add: sys_fork_def current_task_def task_at_def TaskManager_new_def booted_def TASK_NUM_def
        init_task_def new_task_def numeral_eq_Suc)
qed

lemma kins_booted:
  "kins booted i = (if i = 0 then Some (0, 0, - 1, False) else if i = 1 then Some (1, 1, 0, False) else None)"
proof -
  have "tasks booted ! i = None" if "2 \<le> i" "i < 64"
    using that by (simp add: booted_def nth_Cons split: nat.splits)
  moreover have "length (tasks booted) = 64" by (simp add: booted_def)
  moreover have "tasks booted ! 0 = Some TaskControlBlock_new_kernel" "tasks booted ! 1 = Some init_task"
    by (simp_all add: booted_def)
  ultimately show ?thesis
    by (auto simp: kins_def task_at_def kin_def is_zombie_def init_task_def new_task_def child_inner_def
        TaskControlBlock_new_kernel_def)
qed

lemma booted_ok: "proc_ok booted"
proof -
  have "family_ok (kins booted)"
    by (rule family_okI) (auto simp: kins_booted TASK_NUM_def split: if_splits)
  moreover have "slice_ok (sched (inner t))" if "task_at booted i = Some t" for i t
  proof -
    have "i = 0 \<or> i = 1" using kins_booted [of i] that by (auto simp: kins_def split: if_splits)
    then show ?thesis
      using that by (auto simp: task_at_def booted_def slice_ok_def init_task_def new_task_def child_inner_def
          TaskControlBlock_new_kernel_def)
  qed
  ultimately show ?thesis
    by (simp add: proc_ok_def kins_booted slices_ok_def) (simp add: booted_def TASK_NUM_def kins_booted)
qed

lemma reachable_proc_ok: "proc_reachable k \<Longrightarrow> proc_ok k"
  by (induction rule: proc_reachable.induct) (use fork_boot booted_ok proc_step_ok in auto)

section \<open>Exit and wait together\<close>

lemma task_at_session_hangup_self:
  "task_at k (slot me) = Some me \<Longrightarrow> task_at (session_hangup k me) (slot me) = Some me"
  by (simp add: session_hangup_def Let_def task_at_update_where)

lemma task_at_reparent_self:
  assumes "table_ok k" "task_at k (slot me) = Some me" "pid me \<noteq> 1"
  shows "task_at (reparent k me) (slot me) = Some me"
proof -
  have keep: "task_at (update_where (is_child_of me) f k) (slot me) = Some me" for f
    using assms(2) by (simp add: task_at_update_where is_child_of_def)
  have "slot t \<noteq> slot me" if "find_task (\<lambda>t. pid t = 1) k = Some t" for t
  proof -
    have "pid t = 1" "\<exists>i. task_at k i = Some t" using find_task_Some [OF that] by blast+
    then show ?thesis using assms unfolding table_ok_def by (metis option.inject)
  qed
  then show ?thesis using keep by (auto simp: reparent_def Let_def task_at_update_task split: option.splits)
qed

lemma family_ok_table:
  "family_ok (kins k) \<Longrightarrow> length (tasks k) = TASK_NUM \<Longrightarrow> task_at k (current k) \<noteq> None \<Longrightarrow> slices_ok k \<Longrightarrow> table_ok k"
  by (rule switching_table) (simp add: switching_def)

lemma exit_section_tasks:
  assumes ok: "proc_ok k" and me: "current_task k = Some me" and ne: "slot me \<noteq> 0" "pid me \<noteq> 1"
    and dad: "task_at k f = Some dad" "pid dad = father (relation (inner me))" "f \<noteq> slot me"
  shows "task_at (exit_section c me k) (slot me) = Some (exclusive (become_zombie c) me)"
    and "\<exists>d. task_at (exit_section c me k) f = Some (exclusive (raise_and_wake SIGCHLD) d) \<and> pid d = pid dad \<and> slot d = f"
proof -
  have cur: "slot me = current k" using exit_section_switching(2) [OF ok me ne(1)] .
  have at: "task_at k (slot me) = Some me" using me cur by (simp add: current_task_def)
  let ?k1 = "session_hangup k me" let ?k2 = "reparent ?k1 me" let ?k3 = "with_current (become_zombie c) ?k2"
  have tab1: "table_ok ?k1"
    using ok by (intro family_ok_table) (auto simp: proc_ok_def slices_session_hangup task_at_session_hangup_self
        at cur [symmetric])
  have at2: "task_at ?k2 (slot me) = Some me"
    by (rule task_at_reparent_self [OF tab1 task_at_session_hangup_self [OF at] ne(2)])
  then have at3: "task_at ?k3 (slot me) = Some (exclusive (become_zombie c) me)"
    by (simp add: with_current_def task_at_update_task cur)
  let ?P = "\<lambda>t. slot t \<noteq> slot me \<and> pid t = father (relation (inner me))"
  have kin3: "kins ?k3 = kins (exit_section c me k)" by (simp add: exit_section_def)
  have sw: "switching (exit_section c me k)" using exit_section_switching(1) [OF ok me ne(1)] .
  have "task_at ?k3 (current k) \<noteq> None" using at3 cur by simp
  then have tab3: "table_ok ?k3"
  proof (intro family_ok_table)
    show "family_ok (kins ?k3)" unfolding kin3 using sw by (simp add: switching_def)
    show "length (tasks ?k3) = TASK_NUM" using ok by (simp add: with_current_def proc_ok_def)
    show "slices_ok ?k3"
      unfolding with_current_def
      by (intro slices_ok_update_task slices_reparent slices_session_hangup)
        (simp_all add: become_zombie_def slice_ok_state proc_ok_slices [OF ok])
    show "task_at ?k3 (current ?k3) \<noteq> None"
      using \<open>task_at ?k3 (current k) \<noteq> None\<close> by (simp add: with_current_def)
  qed
  have "kins ?k3 f \<noteq> None" "kins k f = Some (kin dad)"
    using dad(1) unfolding kin3 kins_exit_section by (auto simp: kins_def)
  then obtain d where d: "task_at ?k3 f = Some d" by (auto simp: kins_def)
  have "kins ?k3 f = Some (kin d)" using d by (simp add: kins_def)
  then have pd: "pid d = pid dad" "slot d = f"
    using dad(1) tab3 d unfolding kin3 kins_exit_section
    by (auto simp: kins_def kin_def adopt_def table_ok_def split: prod.splits)
  have "find_task ?P ?k3 \<noteq> None" using d pd dad(2,3) by (auto simp: find_task_None)
  then obtain u where u: "find_task ?P ?k3 = Some u" by blast
  then obtain i where i: "task_at ?k3 i = Some u" "?P u" using find_task_Some [OF u] by blast
  then have "i = f" using d pd dad(2) tab3 unfolding table_ok_def by metis
  then have uf: "u = d" "slot u = f" using i d pd by auto
  have ex: "exit_section c me k = update_task f (raise_and_wake SIGCHLD) ?k3"
    using u uf by (simp add: exit_section_def notify_father_def)
  show "task_at (exit_section c me k) (slot me) = Some (exclusive (become_zombie c) me)"
    using at3 dad(3) by (simp add: ex task_at_update_task)
  show "\<exists>d. task_at (exit_section c me k) f = Some (exclusive (raise_and_wake SIGCHLD) d) \<and> pid d = pid dad \<and> slot d = f"
    using d pd by (auto simp: ex task_at_update_task)
qed

lemma waitpid_reaps:
  assumes tab: "table_ok k" and cur: "task_at k (current k) = Some d"
    and z: "task_at k (slot t) = Some t" "is_zombie t" "slot t \<noteq> slot d" "father (relation (inner t)) = pid d"
    and pos: "0 < sint (pid t)"
  shows "waitpid_pass (pid t) options k =
    (WaitReturns (Ok (pid t)) (Some (exit_code (inner t))),
     reap (slot t) (utime (acct (inner t))) (stime (acct (inner t))) k)"
proof -
  let ?ch = "wait_children (pid t) d k"
  have mem: "t \<in> set ?ch" using z pos by (auto simp: mem_wait_children pid_matches_def)
  have only: "u = t" if "u \<in> set ?ch" for u
    using that z(1) tab pos unfolding mem_wait_children table_ok_def
    by (metis option.inject pid_matches_def)
  let ?r = "ScanZombie (slot t) (pid t) (exit_code (inner t)) (utime (acct (inner t))) (stime (acct (inner t)))"
  have res: "child_result options t = Some ?r" using z(2) by (simp add: child_result_def Let_def is_zombie_def)
  then have "find_map (child_result options) ?ch \<noteq> None" using mem by (auto simp: find_map_None)
  then obtain r where r: "find_map (child_result options) ?ch = Some r" by blast
  then have "r = ?r" using find_map_Some [OF r] only res by fastforce
  with r cur show ?thesis
    by (simp add: waitpid_pass_def current_task_def waitpid_scan_def Let_def)
qed

text \<open>A concrete system: idle, init in slot 1, and a child of init running in slot 2.\<close>

definition demo_child :: TaskControlBlock where
  "demo_child = new_task 2 2 init_task"

definition demo_proc :: kernel where
  "demo_proc = \<lparr>tasks = Some TaskControlBlock_new_kernel # Some init_task # Some demo_child # replicate 61 None,
     last_pid = 2, current = 2, jiffies = 0, cleared_ttys = []\<rparr>"

lemma task_at_demo:
  "task_at demo_proc i =
     (if i = 0 then Some TaskControlBlock_new_kernel else if i = 1 then Some init_task
      else if i = 2 then Some demo_child else None)"
proof -
  have "tasks demo_proc ! i = None" if "3 \<le> i" "i < 64"
    using that by (simp add: demo_proc_def nth_Cons split: nat.splits)
  moreover have "length (tasks demo_proc) = 64" by (simp add: demo_proc_def)
  ultimately show ?thesis by (auto simp: task_at_def demo_proc_def)
qed

lemma kins_demo:
  "kins demo_proc i = (if i = 0 then Some (0, 0, - 1, False) else if i = 1 then Some (1, 1, 0, False)
     else if i = 2 then Some (2, 2, 1, False) else None)"
  by (simp add: kins_def task_at_demo kin_def is_zombie_def init_task_def demo_child_def new_task_def child_inner_def
      TaskControlBlock_new_kernel_def)

lemma demo_proc_ok: "proc_ok demo_proc"
proof -
  have "family_ok (kins demo_proc)"
  proof (rule family_okI)
    fix i s p f z assume "kins demo_proc i = Some (s, p, f, z)" "i \<noteq> 0" "f \<noteq> 1"
    then have "i = 1" "f = 0" by (auto simp: kins_demo split: if_splits)
    then show "\<exists>j s' f'. j \<noteq> i \<and> kins demo_proc j = Some (s', f, f', False)"
      by (intro exI [of _ "0 :: nat"] exI [of _ "- 1 :: u32"]) (simp add: kins_demo)
  qed (auto simp: kins_demo TASK_NUM_def split: if_splits)
  moreover have "slices_ok demo_proc"
    by (auto simp: slices_ok_def task_at_demo slice_ok_def init_task_def demo_child_def new_task_def child_inner_def
        TaskControlBlock_new_kernel_def)
  moreover have "length (tasks demo_proc) = TASK_NUM" "current demo_proc = 2"
    by (simp_all add: demo_proc_def TASK_NUM_def)
  ultimately show ?thesis by (simp add: proc_ok_def kins_demo)
qed

lemma demo_current: "current_task demo_proc = Some demo_child"
  by (simp add: current_task_def task_at_demo) (simp add: demo_proc_def)

lemma demo_ids:
  "slot demo_child = 2" "pid demo_child = 2" "father (relation (inner demo_child)) = 1" "pid init_task = 1"
  by (simp_all add: demo_child_def new_task_def child_inner_def init_task_def)

section \<open>Properties\<close>

text \<open>
  (C13) In every reachable state of the process system, the exit of init included, the task table is
  sound: no two tasks share a process identifier, the running task is not a zombie, and every process
  but the idle task and init has a father other than itself in the table that is not a zombie (so its
  exit status can be collected), unless it was handed to init and init itself has exited.  The
  scheduler returns with a state in which all this holds again.
\<close>

theorem process_table_sound:
  assumes "proc_reachable k"
  shows "(\<forall>i j t u. task_at k i = Some t \<longrightarrow> task_at k j = Some u \<longrightarrow> pid t = pid u \<longrightarrow> i = j)
    \<and> (\<exists>me. current_task k = Some me \<and> \<not> is_zombie me)
    \<and> (\<forall>i t. task_at k i = Some t \<longrightarrow> i \<noteq> 0 \<longrightarrow> pid t \<noteq> 1 \<longrightarrow>
         (\<exists>j u. j \<noteq> i \<and> task_at k j = Some u \<and> pid u = father (relation (inner t)) \<and> \<not> is_zombie u)
         \<or> father (relation (inner t)) = 1 \<and> (\<forall>j u. task_at k j = Some u \<longrightarrow> pid u = 1 \<longrightarrow> is_zombie u))
    \<and> (\<exists>k'. schedule k = Some k' \<and> proc_ok k')"
proof (intro conjI allI impI)
  have ok: "proc_ok k" using reachable_proc_ok [OF assms] .
  have fam: "family_ok (kins k)" using ok by (simp add: proc_ok_def)
  show "i = j" if "task_at k i = Some t" "task_at k j = Some u" "pid t = pid u" for i j t u
    using proc_ok_table [OF ok] that unfolding table_ok_def by blast
  show "\<exists>me. current_task k = Some me \<and> \<not> is_zombie me"
    using ok by (auto simp: proc_ok_def current_task_def kins_def kin_def)
  show "(\<exists>j u. j \<noteq> i \<and> task_at k j = Some u \<and> pid u = father (relation (inner t)) \<and> \<not> is_zombie u)
      \<or> father (relation (inner t)) = 1 \<and> (\<forall>j u. task_at k j = Some u \<longrightarrow> pid u = 1 \<longrightarrow> is_zombie u)"
    if t: "task_at k i = Some t" "i \<noteq> 0" "pid t \<noteq> 1" for i t
  proof (cases "father (relation (inner t)) = 1")
    case True
    with t show ?thesis by (metis option.inject)
  next
    case False
    have "kins k i = Some (slot t, pid t, father (relation (inner t)), is_zombie t)"
      using t(1) by (simp add: kins_def kin_def)
    from family_father [OF fam this t(2) False]
    obtain j s' f' where "j \<noteq> i" "kins k j = Some (s', father (relation (inner t)), f', False)" .
    then show ?thesis by (auto simp: kins_def kin_def)
  qed
  show "\<exists>k'. schedule k = Some k' \<and> proc_ok k'"
    using schedule_proc_ok [OF proc_ok_switching [OF ok]] by blast
qed

theorem process_table_sound_witness:
  "\<exists>k'. schedule booted = Some k' \<and> proc_ok k'"
  using process_table_sound [OF boot [OF fork_boot]] by (elim conjE)

text \<open>
  (C14) The scheduler's loop ends, and it chooses well: after waking the tasks with a pending signal
  or alarm it switches to the runnable task with the largest time slice (the highest slot among
  equals), to the idle task only when nothing is runnable, and it refills the slices only when every
  runnable task has used up its own.
\<close>

theorem schedule_chooses:
  assumes "table_ok k" and "slices_ok k"
  shows "\<exists>n k1. schedule k = Some (k1\<lparr>current := n\<rparr>)
    \<and> (if \<exists>i. runnable (woken k) i
        then runnable k1 n \<and> 0 < ticks k1 n
             \<and> (\<forall>i. runnable k1 i \<longrightarrow> ticks k1 i < ticks k1 n \<or> ticks k1 i = ticks k1 n \<and> i \<le> n)
             \<and> (k1 = woken k
                \<or> k1 = refill (woken k) \<and> (\<forall>i. runnable (woken k) i \<longrightarrow> ticks (woken k) i = 0))
        else n = 0 \<and> k1 = woken k)"
  using schedule_effect [OF assms] unfolding select_post_def picks_def by (auto split: if_splits)

theorem schedule_chooses_witness:
  "\<exists>n k1. schedule booted = Some (k1\<lparr>current := n\<rparr>)
    \<and> (if \<exists>i. runnable (woken booted) i
        then runnable k1 n \<and> 0 < ticks k1 n
             \<and> (\<forall>i. runnable k1 i \<longrightarrow> ticks k1 i < ticks k1 n \<or> ticks k1 i = ticks k1 n \<and> i \<le> n)
             \<and> (k1 = woken booted
                \<or> k1 = refill (woken booted) \<and> (\<forall>i. runnable (woken booted) i \<longrightarrow> ticks (woken booted) i = 0))
        else n = 0 \<and> k1 = woken booted)"
  by (rule schedule_chooses [OF proc_ok_table [OF booted_ok] proc_ok_slices [OF booted_ok]])

text \<open>
  (C15) A process that exits is collected by its father: after the exit the father has a pending
  \<^verbatim>\<open>SIGCHLD\<close> and does not sleep interruptibly, and when it calls \<^verbatim>\<open>waitpid\<close> for that process it gets
  the identifier and the exit code at once; the slot is then free, the child's times are added to
  the father's, and every other task is as the exit left it.
\<close>

theorem exit_then_waitpid:
  assumes ok: "proc_ok k" and me: "current_task k = Some me" and ne: "slot me \<noteq> 0" "pid me \<noteq> 1"
    and pos: "0 < sint (pid me)"
    and dad: "task_at k f = Some dad" "pid dad = father (relation (inner me))" "f \<noteq> slot me"
  shows "\<exists>d k2. task_at (exit_section c me k) f = Some d
      \<and> signal (signal_info (inner d)) AND sigbit SIGCHLD \<noteq> 0 \<and> state (sched (inner d)) \<noteq> Interruptible
      \<and> waitpid_pass (pid me) options ((exit_section c me k)\<lparr>current := f\<rparr>) = (WaitReturns (Ok (pid me)) (Some c), k2)
      \<and> task_at k2 (slot me) = None
      \<and> (\<exists>d2. task_at k2 f = Some d2 \<and> cutime (acct (inner d2)) = cutime (acct (inner d)) + utime (acct (inner me))
             \<and> cstime (acct (inner d2)) = cstime (acct (inner d)) + stime (acct (inner me)))
      \<and> (\<forall>i. i \<noteq> f \<longrightarrow> i \<noteq> slot me \<longrightarrow> task_at k2 i = task_at (exit_section c me k) i)"
proof -
  let ?k1 = "exit_section c me k" let ?t = "exclusive (become_zombie c) me"
  obtain d where d: "task_at ?k1 f = Some (exclusive (raise_and_wake SIGCHLD) d)" "pid d = pid dad" "slot d = f"
    using exit_section_tasks(2) [OF ok me ne dad] by blast
  have t: "task_at ?k1 (slot me) = Some ?t" using exit_section_tasks(1) [OF ok me ne dad] .
  have tab: "table_ok (?k1\<lparr>current := f\<rparr>)"
    using switching_table [OF exit_section_switching(1) [OF ok me ne(1), of c]] d(1) by (auto simp: table_ok_def)
  let ?k2 = "reap (slot me) (utime (acct (inner me))) (stime (acct (inner me))) (?k1\<lparr>current := f\<rparr>)"
  have "waitpid_pass (pid ?t) options (?k1\<lparr>current := f\<rparr>) = (WaitReturns (Ok (pid ?t)) (Some (exit_code (inner ?t))),
      reap (slot ?t) (utime (acct (inner ?t))) (stime (acct (inner ?t))) (?k1\<lparr>current := f\<rparr>))"
  proof (rule waitpid_reaps [OF tab, where d = "exclusive (raise_and_wake SIGCHLD) d"])
    show "task_at (?k1\<lparr>current := f\<rparr>) (current (?k1\<lparr>current := f\<rparr>)) = Some (exclusive (raise_and_wake SIGCHLD) d)"
      using d(1) by simp
    show "task_at (?k1\<lparr>current := f\<rparr>) (slot ?t) = Some ?t" using t by simp
    show "is_zombie ?t" by (simp add: is_zombie_def become_zombie_def)
    show "slot ?t \<noteq> slot (exclusive (raise_and_wake SIGCHLD) d)" using d(3) dad(3) by simp
    show "father (relation (inner ?t)) = pid (exclusive (raise_and_wake SIGCHLD) d)"
      using d(2) dad(2) by (simp add: become_zombie_def)
    show "0 < sint (pid ?t)" using pos by simp
  qed
  then have w: "waitpid_pass (pid me) options (?k1\<lparr>current := f\<rparr>) = (WaitReturns (Ok (pid me)) (Some c), ?k2)"
    by (simp add: become_zombie_def)
  have "sigbit SIGCHLD \<noteq> 0" by (simp add: sigbit_def SIGCHLD_def)
  then have sig: "signal (signal_info (inner (exclusive (raise_and_wake SIGCHLD) d))) AND sigbit SIGCHLD \<noteq> 0"
    "state (sched (inner (exclusive (raise_and_wake SIGCHLD) d))) \<noteq> Interruptible"
    by (simp_all add: raise_and_wake_def raise_def wake_if_interruptible_def bit.conj_disj_distrib2)
  show ?thesis
    by (rule exI [of _ "exclusive (raise_and_wake SIGCHLD) d"], rule exI [of _ ?k2])
      (use d(1) sig w dad(3) in \<open>auto simp: task_at_reap\<close>)
qed

theorem exit_then_waitpid_witness:
  "\<exists>k2. waitpid_pass 2 0 ((exit_section 0x2A00 demo_child demo_proc)\<lparr>current := 1\<rparr>)
      = (WaitReturns (Ok 2) (Some 0x2A00), k2) \<and> task_at k2 2 = None"
proof -
  have "pid init_task = father (relation (inner demo_child))" by (simp add: demo_ids)
  moreover have "task_at demo_proc 1 = Some init_task" by (simp add: task_at_demo)
  moreover have "0 < sint (pid demo_child)" "slot demo_child \<noteq> 0" "pid demo_child \<noteq> 1" "1 \<noteq> slot demo_child"
    by (simp_all add: demo_ids)
  ultimately show ?thesis
    using exit_then_waitpid [OF demo_proc_ok demo_current, of 1 init_task "0x2A00" 0]
    by (auto simp: demo_ids)
qed

text \<open>
  (C16) The search for a process identifier ends, whatever the last one was and even when the 32-bit
  counter wraps: it yields a non-zero identifier no task uses, with the lowest free slot above 0, and
  reports failure only when all of them are taken.  The table is not changed.
\<close>

theorem alloc_process_finds:
  assumes "length (tasks k) = TASK_NUM"
  shows "\<exists>r p. alloc_process k = Some (r, k\<lparr>last_pid := p\<rparr>) \<and> p \<noteq> 0
    \<and> (\<forall>i t. task_at k i = Some t \<longrightarrow> pid t \<noteq> p)
    \<and> (case r of
         None \<Rightarrow> \<forall>i. 0 < i \<and> i < TASK_NUM \<longrightarrow> task_at k i \<noteq> None
       | Some (s, q) \<Rightarrow> q = p \<and> 0 < s \<and> s < TASK_NUM \<and> task_at k s = None
            \<and> (\<forall>i. 0 < i \<and> i < s \<longrightarrow> task_at k i \<noteq> None))"
  using alloc_process_effect [OF assms] unfolding alloc_post_def .

theorem alloc_process_finds_witness:
  "\<exists>r p. alloc_process (demo_proc\<lparr>last_pid := - 1\<rparr>) = Some (r, demo_proc\<lparr>last_pid := p\<rparr>) \<and> p \<noteq> 0"
  using alloc_process_finds [of "demo_proc\<lparr>last_pid := - 1\<rparr>"] by (auto simp: demo_proc_def TASK_NUM_def)

text \<open>The identity calls of a process, one after the other.\<close>

inductive id_calls :: "TaskIdentityInfo \<Rightarrow> TaskIdentityInfo \<Rightarrow> bool" where
  id_none: "id_calls i i"
| id_setuid: "id_calls i j \<Longrightarrow> id_calls i (snd (sys_setuid u j))"
| id_setreuid: "id_calls i j \<Longrightarrow> id_calls i (snd (setreuid r e j))"

lemma setreuid_no_gain:
  assumes "uid j \<in> S" "euid j \<in> S" "suid j \<in> S" "0 \<notin> S"
  shows "uid (snd (setreuid r e j)) \<in> S \<and> euid (snd (setreuid r e j)) \<in> S
       \<and> suid (snd (setreuid r e j)) = suid j"
proof -
  have "euid j \<noteq> 0" using assms by metis
  then show ?thesis using assms by (auto simp: setreuid_def Let_def)
qed

lemma setreuid_fails: "fst (setreuid r e j) = Err x \<Longrightarrow> setreuid r e j = (Err Errno_PERM, j)"
  by (cases j) (auto simp: setreuid_def Let_def split: if_splits)

text \<open>
  (C17) The user-identity calls give an unprivileged process no new rights.  A process none of whose
  three user identities is the superuser's, whatever sequence of \<^verbatim>\<open>setuid\<close> and \<^verbatim>\<open>setreuid\<close> calls it
  makes, keeps its real and effective identities among the real, effective and saved ones it had; the
  saved one does not change, and a call that fails changes nothing.  (The superuser may take any
  identity, and so may a process that can return to it; nothing is claimed of them.)
\<close>

theorem setuid_no_escalation:
  assumes "id_calls i j" and "euid i \<noteq> 0" "uid i \<noteq> 0" "suid i \<noteq> 0"
  shows "uid j \<in> {uid i, euid i, suid i} \<and> euid j \<in> {uid i, euid i, suid i} \<and> suid j = suid i
    \<and> (\<forall>r e x. fst (setreuid r e j) = Err x \<longrightarrow> setreuid r e j = (Err Errno_PERM, j))"
proof -
  have "uid j \<in> {uid i, euid i, suid i} \<and> euid j \<in> {uid i, euid i, suid i} \<and> suid j = suid i"
    using assms
  proof (induction rule: id_calls.induct)
    case (id_setuid i j u)
    then show ?case
      using setreuid_no_gain [of j "{uid i, euid i, suid i}" u u] by (auto simp: sys_setuid_def)
  next
    case (id_setreuid i j r e)
    then show ?case using setreuid_no_gain [of j "{uid i, euid i, suid i}" r e] by auto
  qed auto
  then show ?thesis using setreuid_fails by blast
qed

theorem setuid_no_escalation_witness:
  "uid (snd (setreuid 7 5 \<lparr>uid = 5, euid = 7, suid = 7, gid = 1, egid = 1, sgid = 1\<rparr>)) \<in> {5, 7}"
proof -
  let ?i = "\<lparr>uid = 5, euid = 7, suid = 7, gid = 1, egid = 1, sgid = 1\<rparr>"
  have "id_calls ?i (snd (setreuid 7 5 ?i))" by (intro id_calls.intros)
  from setuid_no_escalation [OF this] show ?thesis by simp
qed

text \<open>Whom \<^verbatim>\<open>kill\<close> addresses, and what a signal does to a task.\<close>

definition addressed :: "int \<Rightarrow> u32 \<Rightarrow> TaskControlBlock \<Rightarrow> bool" where
  "addressed target sender t \<longleftrightarrow> slot t \<noteq> 0 \<and>
     (0 < target \<and> uint (pid t) = target \<or> target = 0 \<and> pgrp (relation (inner t)) = sender \<or> target = - 1
      \<or> target < - 1 \<and> uint (pgrp (relation (inner t))) = - target)"

definition signalled :: "nat \<Rightarrow> TaskControlBlock \<Rightarrow> TaskControlBlock" where
  "signalled n t =
     t\<lparr>inner := (inner t)
        \<lparr>signal_info := (signal_info (inner t))\<lparr>signal := set_bit (n - 1) (signal (signal_info (inner t)))\<rparr>,
         sched := (sched (inner t))\<lparr>state := if state (sched (inner t)) = Interruptible then Running else state (sched (inner t))\<rparr>\<rparr>\<rparr>"

lemma sint_cases: "sint (p :: u32) = (if uint p < 2 ^ 31 then uint p else uint p - 2 ^ 32)"
proof -
  have b: "uint p < 2 ^ 32" "0 \<le> uint p" using uint_lt2p [of p] by simp_all
  have "sint p = signed_take_bit 31 (uint p)" by (simp add: sint_uint)
  also have "\<dots> = (uint p + 2 ^ 31) mod 2 ^ 32 - 2 ^ 31"
    by (simp add: signed_take_bit_eq_take_bit_shift take_bit_eq_mod)
  finally have s: "sint p = (uint p + 2 ^ 31) mod 2 ^ 32 - 2 ^ 31" .
  show ?thesis
  proof (cases "uint p < 2 ^ 31")
    case True
    then show ?thesis using s b by simp
  next
    case False
    then have "(uint p + 2 ^ 31) mod 2 ^ 32 = uint p + 2 ^ 31 - 2 ^ 32"
      using b by (subst mod_pos_geq) (simp_all)
    then show ?thesis using s False by simp
  qed
qed

lemma uint_neg: "p \<noteq> (0 :: u32) \<Longrightarrow> uint (- p) = 2 ^ 32 - uint p"
proof -
  assume "p \<noteq> 0"
  then have "0 < uint p" by (simp add: word_neq_0_conv [symmetric] uint_0_iff less_le)
  then show ?thesis using uint_lt2p [of p] by (simp add: uint_word_ariths zmod_zminus1_eq_if)
qed

lemma positive_word: "0 < sint (p :: u32) \<Longrightarrow> uint q = sint p \<longleftrightarrow> q = p"
  using uint_lt2p [of p] by (auto simp: sint_cases word_uint_eq_iff split: if_splits)

lemma negative_word: "sint (p :: u32) < 0 \<Longrightarrow> uint q = - sint p \<longleftrightarrow> q = - p"
proof -
  assume n: "sint p < 0"
  then have "p \<noteq> 0" by auto
  then show ?thesis using n by (auto simp: sint_cases word_uint_eq_iff uint_neg split: if_splits)
qed
lemma sint_special: "sint (p :: u32) = 0 \<longleftrightarrow> p = 0" "sint p = - 1 \<longleftrightarrow> p = - 1"
proof -
  have b: "0 \<le> uint p" "uint p < 2 ^ 32" using uint_lt2p [of p] by simp_all
  have "uint (- 1 :: u32) = 2 ^ 32 - 1" using uint_neg [of 1] by simp
  then show "sint p = - 1 \<longleftrightarrow> p = - 1"
    by (cases "uint p < 2 ^ 31") (simp_all add: sint_cases word_uint_eq_iff, insert uint_ge_0 [of p], linarith)
  show "sint p = 0 \<longleftrightarrow> p = 0" using b by (cases "uint p < 2 ^ 31") (simp_all add: sint_cases word_uint_eq_iff)
qed

lemma addressed_iff: "addressed (sint p) q t \<longleftrightarrow> slot t \<noteq> 0 \<and> kill_matches p q t"
proof -
  consider "sint p = 0" | "0 < sint p" | "sint p = - 1" | "sint p < - 1" by linarith
  then show ?thesis
  proof cases
    case 2
    then have "p \<noteq> 0" "sint p \<noteq> - 1" "\<not> sint p < - 1" "sint p \<noteq> 0" by auto
    with 2 show ?thesis unfolding addressed_def kill_matches_def positive_word [OF 2] by simp
  next
    case 4
    then have "p \<noteq> 0" "p \<noteq> - 1" by auto
    moreover have "\<not> 0 < sint p" "sint p \<noteq> 0" "sint p \<noteq> - 1" "sint p < 0" using 4 by auto
    ultimately show ?thesis unfolding addressed_def kill_matches_def using 4 negative_word [of p] by simp
  qed (simp_all add: addressed_def kill_matches_def sint_special)
qed

lemma null_matches_iff: "p \<noteq> 0 \<Longrightarrow> null_matches p t = kill_matches p q t"
  by (simp add: null_matches_def kill_matches_def)

lemma signalled_iff: "0 < n \<Longrightarrow> n \<le> 32 \<Longrightarrow> signalled n t = exclusive (raise_and_wake n) t"
proof -
  assume n: "0 < n" "n \<le> 32"
  then have "(n + 31) mod 32 = n - 1" by (simp add: mod_if)
  then show ?thesis
    by (simp add: signalled_def exclusive_def raise_and_wake_def raise_def sigbit_def set_bit_eq_or wake_if_interruptible_def)
qed

text \<open>
  (C18) \<^verbatim>\<open>kill\<close> reaches exactly the processes it is addressed to and may signal.  The argument read as
  a signed number names a process (positive), the group with the caller's identifier (zero), everybody
  (-1) or the group of its negation (below -1); the idle task is never addressed.  Each addressed task
  gets the signal pending and leaves an interruptible sleep if the argument is zero, the caller is the
  superuser or the effective identities agree; every other task is untouched, and the call reports
  \<^verbatim>\<open>EPERM\<close> exactly when an addressed task was refused.  The null signal changes nothing and reports
  \<^verbatim>\<open>ESRCH\<close> exactly when a non-zero argument addresses nobody; a number above 32 is refused.
\<close>

theorem kill_delivers:
  assumes me: "current_task k = Some me"
  shows "if 32 < unat n then sys_kill p n k = (Err Errno_INVAL, k)
    else if n = 0 then
      sys_kill p n k = (if p = 0 \<or> (\<exists>i t. task_at k i = Some t \<and> addressed (sint p) (pid me) t) then Ok 0 else Err Errno_SRCH, k)
    else
      (\<forall>i. task_at (snd (sys_kill p n k)) i =
         map_option (\<lambda>t. if addressed (sint p) (pid me) t
             \<and> (p = 0 \<or> euid (identity (inner me)) \<in> {0, euid (identity (inner t))}) then signalled (unat n) t else t) (task_at k i))
      \<and> fst (sys_kill p n k) =
           (if \<exists>i t. task_at k i = Some t \<and> addressed (sint p) (pid me) t
               \<and> \<not> (p = 0 \<or> euid (identity (inner me)) \<in> {0, euid (identity (inner t))})
            then Err Errno_PERM else Ok 0)"
proof -
  consider "32 < unat n" | "n = 0" | "n \<noteq> 0" "unat n \<le> NSIG" "0 < unat n" "unat n \<le> 32"
    by (metis NSIG_def not_less unat_gt_0)
  then show ?thesis
  proof cases
    case 1
    then show ?thesis using me by (simp add: sys_kill_def NSIG_def)
  next
    case 2
    then show ?thesis
      using me by (cases "p = 0")
        (simp_all add: sys_kill_def null_loop_effect task_in_table addressed_iff null_matches_iff [where q = "pid me"], metis)
  next
    case 3
    have may: "may_signal p me t \<longleftrightarrow> p = 0 \<or> euid (identity (inner me)) \<in> {0, euid (identity (inner t))}" for t
      by (auto simp: may_signal_def)
    show ?thesis
      using 3 unfolding sys_kill_effect [OF me 3(1,2)] addressed_iff may [symmetric] signalled_iff [OF 3(3,4)]
      by (simp add: task_at_update_where conj_assoc)
  qed
qed

theorem kill_delivers_witness:
  "fst (sys_kill 1 15 demo_proc) = Ok 0 \<and> task_at (snd (sys_kill 1 15 demo_proc)) 1 = Some (signalled 15 init_task)
   \<and> task_at (snd (sys_kill 1 15 demo_proc)) 2 = Some demo_child"
  using kill_delivers [OF demo_current, of 15 1]
  by (simp add: task_at_demo addressed_def demo_ids)
    (auto simp: init_task_def new_task_def child_inner_def demo_child_def TaskControlBlock_new_kernel_def split: if_splits)

text \<open>
  The null signal is documented to check existence and permission; the permission of the caller
  does not influence the outcome.
\<close>

lemma kill_null_ignores_permission:
  assumes "current_task k = Some me" "task_at k i = Some t" "slot t \<noteq> 0" "pid t = p" "0 < sint p"
  shows "sys_kill p 0 k = (Ok 0, k)"
proof -
  have "null_loop p me (tasks k) False"
    using assms by (auto simp: null_loop_effect task_in_table null_matches_def)
  moreover have "p \<noteq> 0" using assms(5) by auto
  ultimately show ?thesis using assms(1) by (simp add: sys_kill_def)
qed

text \<open>
  A matching child that is stopped counts as no child for a \<^verbatim>\<open>waitpid\<close> without \<^verbatim>\<open>WUNTRACED\<close>: the call
  fails with \<^verbatim>\<open>ECHILD\<close> instead of waiting for it.
\<close>

lemma waitpid_stopped_only:
  assumes "current_task k = Some me" "options AND WUNTRACED = 0"
    and "\<forall>t \<in> set (wait_children p me k). state (sched (inner t)) = Stopped"
  shows "waitpid_pass p options k = (WaitReturns (Err Errno_CHILD) None, k)"
proof -
  have "find_map (child_result options) (wait_children p me k) = None"
    using assms(2,3) by (auto simp: find_map_None child_result_def Let_def)
  then show ?thesis
    using assms(1,3) by (simp add: waitpid_pass_def waitpid_scan_def Let_def list_ex_iff)
qed

end
