(* ===== verification/Wait_Queue.thy ===== *)
theory Wait_Queue
  imports Task
begin

text \<open>
  The single-slot wait queue (\<^verbatim>\<open>kernel/src/task/wait_queue.rs\<close>).  The queue remembers one task; a task
  that goes to sleep takes the place of the one before it and promises to wake it (the hand-off).
  A sleep is cut at the call of the scheduler: \<open>sleep_enter\<close> runs before it, \<open>sleep_leave\<close> after the
  task was made runnable and chosen again.  Tasks are named by their slot.
\<close>

section \<open>Operations\<close>

record WaitQueue =
  waiter :: "nat option"
  run :: "nat \<Rightarrow> TaskState"

definition wake_task :: "nat \<Rightarrow> WaitQueue \<Rightarrow> WaitQueue" where
  "wake_task t w = w\<lparr>run := (run w)(t := Running)\<rparr>"

definition hand_off :: "nat option \<Rightarrow> WaitQueue \<Rightarrow> WaitQueue" where
  "hand_off h w = (case h of None \<Rightarrow> w | Some t \<Rightarrow> wake_task t w)"

definition wake :: "WaitQueue \<Rightarrow> WaitQueue" where
  "wake w = (case waiter w of None \<Rightarrow> w | Some t \<Rightarrow> wake_task t (w\<lparr>waiter := None\<rparr>))"

definition sleep_enter :: "TaskState \<Rightarrow> nat \<Rightarrow> WaitQueue \<Rightarrow> nat option \<times> WaitQueue" where
  "sleep_enter st t w = (waiter w, w\<lparr>waiter := Some t, run := (run w)(t := st)\<rparr>)"

definition sleep_leave :: "nat option \<Rightarrow> WaitQueue \<Rightarrow> WaitQueue" where
  "sleep_leave h w = hand_off h w"

text \<open>
  The loop body of \<^verbatim>\<open>sleep_interruptible\<close> after the scheduler: the result says whether the slot has
  settled.
\<close>

definition sleep_interruptible_resume :: "nat \<Rightarrow> nat option \<Rightarrow> WaitQueue \<Rightarrow> bool \<times> WaitQueue" where
  "sleep_interruptible_resume t h w =
     (case waiter w of
        Some u \<Rightarrow>
          if u \<noteq> t then (False, wake_task u (w\<lparr>run := (run w)(t := Interruptible)\<rparr>))
          else (True, hand_off h (w\<lparr>waiter := None\<rparr>))
      | None \<Rightarrow> (True, hand_off h (w\<lparr>waiter := None\<rparr>)))"

section \<open>Tasks using one queue\<close>

datatype place = Outside | Asleep (promise: "nat option")

record sleepers =
  queue :: WaitQueue
  at_place :: "nat \<Rightarrow> place"

definition no_sleepers :: sleepers where
  "no_sleepers = \<lparr>queue = \<lparr>waiter = None, run = (\<lambda>_. Running)\<rparr>, at_place = (\<lambda>_. Outside)\<rparr>"

definition enter :: "TaskState \<Rightarrow> nat \<Rightarrow> sleepers \<Rightarrow> sleepers" where
  "enter st t s =
     (let (h, w) = sleep_enter st t (queue s) in \<lparr>queue = w, at_place = (at_place s)(t := Asleep h)\<rparr>)"

definition leave :: "nat \<Rightarrow> sleepers \<Rightarrow> sleepers" where
  "leave t s =
     \<lparr>queue = sleep_leave (promise (at_place s t)) (queue s), at_place = (at_place s)(t := Outside)\<rparr>"

definition resume_interruptible :: "nat \<Rightarrow> sleepers \<Rightarrow> sleepers" where
  "resume_interruptible t s =
     (let (settled, w) = sleep_interruptible_resume t (promise (at_place s t)) (queue s)
      in \<lparr>queue = w, at_place = if settled then (at_place s)(t := Outside) else at_place s\<rparr>)"

definition wake_queue :: "sleepers \<Rightarrow> sleepers" where
  "wake_queue s = s\<lparr>queue := wake (queue s)\<rparr>"

definition runs :: "sleepers \<Rightarrow> nat \<Rightarrow> bool" where
  "runs s t \<longleftrightarrow> run (queue s) t = Running"

inductive slept :: "sleepers \<Rightarrow> bool" where
  slept_start: "slept no_sleepers"
| slept_enter: "slept s \<Longrightarrow> runs s t \<Longrightarrow> at_place s t = Outside \<Longrightarrow> slept (enter Uninterruptible t s)"
| slept_leave: "slept s \<Longrightarrow> runs s t \<Longrightarrow> at_place s t \<noteq> Outside \<Longrightarrow> slept (leave t s)"
| slept_wake: "slept s \<Longrightarrow> slept (wake_queue s)"

inductive napped :: "sleepers \<Rightarrow> bool" where
  napped_start: "napped no_sleepers"
| napped_enter: "napped s \<Longrightarrow> runs s t \<Longrightarrow> at_place s t = Outside \<Longrightarrow> napped (enter Interruptible t s)"
| napped_resume: "napped s \<Longrightarrow> runs s t \<Longrightarrow> at_place s t \<noteq> Outside \<Longrightarrow> napped (resume_interruptible t s)"
| napped_wake: "napped s \<Longrightarrow> napped (wake_queue s)"

section \<open>No uninterruptible sleeper is forgotten\<close>

text \<open>
  Every sleeping task is referred to exactly once, by the queue or by the promise of a task that
  has not left yet, and promises point to earlier sleepers.
\<close>

definition refers :: "sleepers \<Rightarrow> nat option \<Rightarrow> nat \<Rightarrow> bool" where
  "refers s who t \<longleftrightarrow>
     (case who of
        None \<Rightarrow> waiter (queue s) = Some t
      | Some u \<Rightarrow> at_place s u = Asleep (Some t))"

definition sleeps :: "sleepers \<Rightarrow> nat \<Rightarrow> bool" where
  "sleeps s t \<longleftrightarrow> at_place s t \<noteq> Outside \<and> \<not> runs s t"

definition chain_ok :: "sleepers \<Rightarrow> bool" where
  "chain_ok s \<longleftrightarrow>
     (\<forall>t. sleeps s t \<longrightarrow> (\<exists>who. refers s who t))
     \<and> (\<forall>who who' t. refers s who t \<longrightarrow> refers s who' t \<longrightarrow> who = who')
     \<and> (\<forall>who t. refers s who t \<longrightarrow> sleeps s t)
     \<and> (\<exists>rank :: nat \<Rightarrow> nat. \<forall>u t. refers s (Some u) t \<longrightarrow> rank t < rank u)"

lemma chain_okD:
  assumes "chain_ok s"
  shows "sleeps s t \<Longrightarrow> \<exists>who. refers s who t"
    and "refers s who t \<Longrightarrow> refers s who' t \<Longrightarrow> who = who'"
    and "refers s who t \<Longrightarrow> sleeps s t"
    and "\<exists>rank :: nat \<Rightarrow> nat. \<forall>u t. refers s (Some u) t \<longrightarrow> rank t < rank u"
  using assms unfolding chain_ok_def by blast+

lemma chain_remove:
  assumes ok: "chain_ok s"
    and rf: "\<And>who u. refers s' who u \<longleftrightarrow> who \<noteq> w0 \<and> refers s who u"
    and sl: "\<And>u. sleeps s' u \<longleftrightarrow> sleeps s u \<and> \<not> refers s w0 u"
  shows "chain_ok s'"
  unfolding chain_ok_def
proof (intro conjI allI impI)
  show "\<exists>who. refers s' who u" if "sleeps s' u" for u
  proof -
    have "sleeps s u" "\<not> refers s w0 u" using that sl by blast+
    then obtain who where "refers s who u" "who \<noteq> w0" using chain_okD(1) [OF ok] by metis
    then show ?thesis using rf by blast
  qed
  show "who = who'" if "refers s' who u" "refers s' who' u" for who who' u
    using that chain_okD(2) [OF ok] unfolding rf by blast
  show "sleeps s' u" if "refers s' who u" for who u
  proof -
    have r: "refers s who u" "who \<noteq> w0" using that rf by blast+
    then have "sleeps s u" "\<not> refers s w0 u" using chain_okD(2,3) [OF ok] by blast+
    then show ?thesis using sl by blast
  qed
  show "\<exists>rank :: nat \<Rightarrow> nat. \<forall>u t. refers s' (Some u) t \<longrightarrow> rank t < rank u"
    using chain_okD(4) [OF ok] unfolding rf by blast
qed

lemma chain_enter:
  assumes ok: "chain_ok s" and t: "runs s t" "at_place s t = Outside"
  shows "chain_ok (enter Uninterruptible t s)"
proof -
  let ?s = "enter Uninterruptible t s"
  have ns: "\<not> sleeps s t" using t by (simp add: sleeps_def)
  have nr: "\<not> refers s who t" for who using chain_okD(3) [OF ok] ns by blast
  have sl: "sleeps ?s u \<longleftrightarrow> u = t \<or> sleeps s u" for u
    by (simp add: sleeps_def runs_def enter_def sleep_enter_def)
  have out: "\<not> refers s (Some t) u" for u using t(2) by (simp add: refers_def)
  have rf: "refers ?s who u \<longleftrightarrow>
      (case who of None \<Rightarrow> u = t | Some v \<Rightarrow> if v = t then refers s None u else refers s (Some v) u)" for who u
    by (auto simp: refers_def enter_def sleep_enter_def split: option.splits)
  obtain rank :: "nat \<Rightarrow> nat" where rank: "\<forall>u v. refers s (Some u) v \<longrightarrow> rank v < rank u"
    using chain_okD(4) [OF ok] by blast
  define rank' where "rank' = rank(t := Suc (case waiter (queue s) of None \<Rightarrow> 0 | Some v \<Rightarrow> rank v))"
  have "rank' v < rank' u" if r: "refers ?s (Some u) v" for u v
  proof (cases "u = t")
    case True
    then have "refers s None v" using r by (simp add: rf)
    moreover from this have "v \<noteq> t" using nr by blast
    ultimately show ?thesis using True by (simp add: rank'_def refers_def)
  next
    case False
    then have "refers s (Some u) v" using r by (simp add: rf)
    moreover from this have "v \<noteq> t" using nr by blast
    ultimately show ?thesis using rank False by (simp add: rank'_def)
  qed
  moreover have "\<exists>who. refers ?s who u" if su: "sleeps ?s u" for u
  proof (cases "u = t")
    case True
    then show ?thesis using rf [of None u] by auto
  next
    case False
    then have "sleeps s u" using su by (simp add: sl)
    then obtain who where who: "refers s who u" using chain_okD(1) [OF ok] by blast
    show ?thesis
    proof (cases who)
      case None
      then show ?thesis using who rf [of "Some t" u] by auto
    next
      case (Some v)
      then have "v \<noteq> t" using who out by blast
      then show ?thesis using who Some rf [of "Some v" u] by auto
    qed
  qed
  moreover have "who = who'" if a: "refers ?s who u" and b: "refers ?s who' u" for who who' u
  proof -
    define old where "old = (\<lambda>w. if w = Some t then None else (w :: nat option))"
    have "refers s (old w) u" if "refers ?s w u" "u \<noteq> t" for w
      using that unfolding rf old_def by (cases w) (auto split: if_splits)
    then have "u \<noteq> t \<Longrightarrow> old who = old who'" using a b chain_okD(2) [OF ok] by blast
    moreover have "u \<noteq> t \<Longrightarrow> who \<noteq> None \<and> who' \<noteq> None" using a b unfolding rf by (auto split: option.splits)
    moreover have "u = t \<Longrightarrow> who = None \<and> who' = None"
      using a b nr unfolding rf by (auto split: option.splits if_splits)
    ultimately show ?thesis by (cases "u = t") (auto simp: old_def split: if_splits)
  qed
  moreover have "sleeps ?s u" if "refers ?s who u" for who u
    using that chain_okD(3) [OF ok] sl unfolding rf by (auto split: option.splits if_splits)
  ultimately show ?thesis unfolding chain_ok_def by blast
qed

lemma chain_leave:
  assumes ok: "chain_ok s" and t: "runs s t" "at_place s t \<noteq> Outside"
  shows "chain_ok (leave t s)"
proof -
  let ?s = "leave t s"
  obtain h where h: "at_place s t = Asleep h" using t(2) by (cases "at_place s t") auto
  have rf: "refers ?s who u \<longleftrightarrow> who \<noteq> Some t \<and> refers s who u" for who u
    by (auto simp: refers_def leave_def sleep_leave_def hand_off_def wake_task_def split: option.splits)
  have sl: "sleeps ?s u \<longleftrightarrow> sleeps s u \<and> h \<noteq> Some u" for u
    using h t by (auto simp: sleeps_def runs_def leave_def sleep_leave_def hand_off_def wake_task_def
        split: option.splits)
  have "refers s (Some t) u \<longleftrightarrow> h = Some u" for u using h by (auto simp: refers_def)
  then show ?thesis using chain_remove [OF ok rf] sl by blast
qed

lemma chain_wake:
  assumes ok: "chain_ok s"
  shows "chain_ok (wake_queue s)"
proof (cases "waiter (queue s)")
  case None
  then show ?thesis using ok by (simp add: wake_queue_def wake_def)
next
  case (Some t)
  let ?s = "wake_queue s"
  have rf: "refers ?s who u \<longleftrightarrow> who \<noteq> None \<and> refers s who u" for who u
    using Some by (auto simp: refers_def wake_queue_def wake_def wake_task_def split: option.splits)
  have sl: "sleeps ?s u \<longleftrightarrow> sleeps s u \<and> u \<noteq> t" for u
    using Some by (auto simp: sleeps_def runs_def wake_queue_def wake_def wake_task_def)
  have "refers s None u \<longleftrightarrow> u = t" for u using Some by (auto simp: refers_def)
  then show ?thesis using chain_remove [OF ok rf] sl by blast
qed

lemma slept_chain: "slept s \<Longrightarrow> chain_ok s"
proof (induction rule: slept.induct)
  case slept_start
  show ?case by (auto simp: chain_ok_def refers_def sleeps_def no_sleepers_def split: option.splits)
qed (auto intro: chain_enter chain_leave chain_wake)

lemma slept_finite: "slept s \<Longrightarrow> finite {t. at_place s t \<noteq> Outside}"
proof (induction rule: slept.induct)
  case (slept_enter s t)
  have "{u. at_place (enter Uninterruptible t s) u \<noteq> Outside} \<subseteq> insert t {u. at_place s u \<noteq> Outside}"
    by (auto simp: enter_def sleep_enter_def)
  then show ?case using slept_enter.IH by (meson finite_insert finite_subset)
next
  case (slept_leave s t)
  have "{u. at_place (leave t s) u \<noteq> Outside} \<subseteq> {u. at_place s u \<noteq> Outside}" by (auto simp: leave_def)
  then show ?case using slept_leave.IH finite_subset by blast
qed (auto simp: no_sleepers_def wake_queue_def)

lemma quiet_queue_empty:
  assumes ok: "chain_ok s" and fin: "finite {t. at_place s t \<noteq> Outside}"
    and idle: "waiter (queue s) = None" "\<forall>u. at_place s u \<noteq> Outside \<longrightarrow> \<not> runs s u"
  shows "at_place s t = Outside"
proof (rule ccontr)
  let ?U = "{t. at_place s t \<noteq> Outside}"
  assume t: "at_place s t \<noteq> Outside"
  obtain rank :: "nat \<Rightarrow> nat" where rank: "\<forall>u v. refers s (Some u) v \<longrightarrow> rank v < rank u"
    using chain_okD(4) [OF ok] by blast
  have ne: "rank ` ?U \<noteq> {}" using t by blast
  obtain v where v: "v \<in> ?U" "rank v = Max (rank ` ?U)" using Max_in [OF finite_imageI [OF fin] ne] by auto
  have "sleeps s v" using v(1) idle(2) by (simp add: sleeps_def)
  then obtain who where who: "refers s who v" using chain_okD(1) [OF ok] by blast
  then obtain u where u: "who = Some u" using idle(1) by (cases who) (auto simp: refers_def)
  have "u \<in> ?U" using who u by (simp add: refers_def)
  then have "rank u \<le> rank v" using fin v(2) by simp
  moreover have "rank v < rank u" using rank who u by blast
  ultimately show False by simp
qed

section \<open>Properties\<close>

text \<open>
  (C19) Uninterruptible sleepers are never lost: whenever the queue holds no waiter and no woken task
  is still on its way out of its sleep, nobody sleeps on the queue.  So a single wake-up, passed on
  by each task that leaves, reaches every task that was asleep.
\<close>

theorem no_sleeper_lost:
  assumes "slept s" and "waiter (queue s) = None"
    and "\<forall>u. at_place s u \<noteq> Outside \<longrightarrow> \<not> runs s u"
  shows "\<forall>t. at_place s t = Outside"
  using quiet_queue_empty [OF slept_chain slept_finite] assms by blast

definition two_sleepers :: sleepers where
  "two_sleepers = enter Uninterruptible 2 (enter Uninterruptible 1 no_sleepers)"

lemmas sleep_defs = no_sleepers_def enter_def sleep_enter_def leave_def sleep_leave_def hand_off_def wake_task_def
  wake_queue_def wake_def runs_def two_sleepers_def resume_interruptible_def sleep_interruptible_resume_def

lemma slept_two: "slept (wake_queue two_sleepers)"
  unfolding two_sleepers_def by (intro slept.intros) (simp_all add: sleep_defs)

theorem no_sleeper_lost_witness:
  "\<forall>t. at_place (leave 1 (leave 2 (wake_queue two_sleepers))) t = Outside"
proof (rule no_sleeper_lost)
  show "slept (leave 1 (leave 2 (wake_queue two_sleepers)))"
    by (intro slept_leave slept_two) (simp_all add: sleep_defs)
qed (simp_all add: sleep_defs)

text \<open>
  (C20) Interruptible sleepers can be lost.  Two tasks wait on one queue; the queue is woken, the later
  task leaves, wakes the earlier one and goes back to sleep (its condition does not hold yet); the
  earlier task finds the slot taken, wakes the other and sleeps again; the later task leaves and
  sleeps a third time.  From then on the earlier task is asleep, the queue does not know it and no
  task has promised to wake it: a wake-up reaches the later task only.
\<close>

definition lost_run :: sleepers where
  "lost_run =
     enter Interruptible 2 (resume_interruptible 2 (resume_interruptible 1 (enter Interruptible 2
       (resume_interruptible 2 (wake_queue (enter Interruptible 2 (enter Interruptible 1 no_sleepers)))))))"

theorem interruptible_sleeper_lost:
  "napped lost_run \<and> at_place lost_run 1 \<noteq> Outside \<and> \<not> runs lost_run 1
   \<and> (\<forall>who. \<not> refers lost_run who 1)
   \<and> resume_interruptible 2 (wake_queue lost_run)
       = lost_run\<lparr>queue := (queue lost_run)\<lparr>waiter := None, run := (run (queue lost_run))(2 := Running)\<rparr>,
                  at_place := (at_place lost_run)(2 := Outside)\<rparr>"
proof (intro conjI allI)
  show "napped lost_run"
    unfolding lost_run_def by (intro napped.intros) (simp_all add: sleep_defs)
  show "at_place lost_run 1 \<noteq> Outside" "\<not> runs lost_run 1"
    by (simp_all add: lost_run_def sleep_defs)
  show "\<not> refers lost_run who 1" for who
    by (auto simp: lost_run_def sleep_defs refers_def split: option.splits)
  show "resume_interruptible 2 (wake_queue lost_run)
      = lost_run\<lparr>queue := (queue lost_run)\<lparr>waiter := None, run := (run (queue lost_run))(2 := Running)\<rparr>,
                 at_place := (at_place lost_run)(2 := Outside)\<rparr>"
    by (simp add: lost_run_def sleep_defs fun_eq_iff)
qed

end
