(* ===== verification/Sleep_Lock.thy ===== *)
theory Sleep_Lock
  imports Wait_Queue
begin

text \<open>
  The sleeping locks built on the wait queue: \<^verbatim>\<open>BusyLock\<close> (\<^verbatim>\<open>kernel/src/sync/busy_lock.rs\<close>) and the owner
  tracking \<^verbatim>\<open>Mutex\<close> (\<^verbatim>\<open>kernel/src/sync/mutex.rs\<close>).  An acquisition that must wait is cut at the sleep:
  \<open>acquire\<close> runs up to it and \<open>acquire_resume\<close> continues the loop afterwards.
\<close>

section \<open>Operations\<close>

record BusyLock =
  locked :: bool
  waiters :: sleepers

definition BusyLock_new :: BusyLock where
  "BusyLock_new = \<lparr>locked = False, waiters = no_sleepers\<rparr>"

text \<open>One turn of the loop of \<^verbatim>\<open>acquire\<close>: take the lock, or go to sleep (result \<open>False\<close>).\<close>

definition acquire :: "nat \<Rightarrow> BusyLock \<Rightarrow> bool \<times> BusyLock" where
  "acquire t b =
     (if locked b then (False, b\<lparr>waiters := enter Uninterruptible t (waiters b)\<rparr>)
      else (True, b\<lparr>locked := True\<rparr>))"

definition acquire_resume :: "nat \<Rightarrow> BusyLock \<Rightarrow> bool \<times> BusyLock" where
  "acquire_resume t b = acquire t (b\<lparr>waiters := leave t (waiters b)\<rparr>)"

definition release :: "BusyLock \<Rightarrow> BusyLock option" where
  "release b =
     (if \<not> locked b then None else Some (b\<lparr>locked := False, waiters := wake_queue (waiters b)\<rparr>))"

record Mutex =
  lock :: BusyLock
  owner_slot :: "nat option"

definition Mutex_new :: Mutex where
  "Mutex_new = \<lparr>lock = BusyLock_new, owner_slot = None\<rparr>"

text \<open>After the acquisition the owner is recorded; an owner still recorded there is a panic (\<open>None\<close>).\<close>

definition take_ownership :: "nat \<Rightarrow> bool \<times> BusyLock \<Rightarrow> Mutex \<Rightarrow> (bool \<times> Mutex) option" where
  "take_ownership t r m =
     (case r of
        (False, b) \<Rightarrow> Some (False, m\<lparr>lock := b\<rparr>)
      | (True, b) \<Rightarrow>
          if owner_slot m \<noteq> None then None else Some (True, m\<lparr>lock := b, owner_slot := Some t\<rparr>))"

definition Mutex_lock :: "nat \<Rightarrow> Mutex \<Rightarrow> (bool \<times> Mutex) option" where
  "Mutex_lock t m =
     (if owner_slot m = Some t then None else take_ownership t (acquire t (lock m)) m)"

definition Mutex_lock_resume :: "nat \<Rightarrow> Mutex \<Rightarrow> (bool \<times> Mutex) option" where
  "Mutex_lock_resume t m = take_ownership t (acquire_resume t (lock m)) m"

definition Mutex_unlock :: "nat \<Rightarrow> Mutex \<Rightarrow> Mutex option" where
  "Mutex_unlock t m =
     (if owner_slot m \<noteq> Some t then None
      else case release (lock m) of
             None \<Rightarrow> None
           | Some b \<Rightarrow> Some (m\<lparr>lock := b, owner_slot := None\<rparr>))"

section \<open>Tasks using a mutex\<close>

abbreviation waits :: "Mutex \<Rightarrow> nat \<Rightarrow> bool" where
  "waits m t \<equiv> at_place (waiters (lock m)) t \<noteq> Outside"

abbreviation can_run :: "Mutex \<Rightarrow> nat \<Rightarrow> bool" where
  "can_run m t \<equiv> runs (waiters (lock m)) t"

text \<open>
  A task takes the mutex when it does not hold it and unlocks it only when it holds it, as the
  guards of the sources ensure.
\<close>

inductive mutex_used :: "Mutex \<Rightarrow> bool" where
  used_new: "mutex_used Mutex_new"
| used_lock: "mutex_used m \<Longrightarrow> can_run m t \<Longrightarrow> \<not> waits m t \<Longrightarrow> owner_slot m \<noteq> Some t \<Longrightarrow>
    Mutex_lock t m = Some (r, m') \<Longrightarrow> mutex_used m'"
| used_resume: "mutex_used m \<Longrightarrow> can_run m t \<Longrightarrow> waits m t \<Longrightarrow>
    Mutex_lock_resume t m = Some (r, m') \<Longrightarrow> mutex_used m'"
| used_unlock: "mutex_used m \<Longrightarrow> Mutex_unlock t m = Some m' \<Longrightarrow> mutex_used m'"

definition mutex_ok :: "Mutex \<Rightarrow> bool" where
  "mutex_ok m \<longleftrightarrow> slept (waiters (lock m)) \<and> (locked (lock m) \<longleftrightarrow> owner_slot m \<noteq> None)
     \<and> (\<forall>t. owner_slot m = Some t \<longrightarrow> \<not> waits m t)
     \<and> (owner_slot m = None \<longrightarrow> (\<exists>t. waits m t) \<longrightarrow> (\<exists>t. waits m t \<and> can_run m t))"

lemma at_place_enter [simp]: "at_place (enter st t s) u = (if u = t then Asleep (waiter (queue s)) else at_place s u)"
  by (simp add: enter_def sleep_enter_def)

lemma at_place_leave [simp]: "at_place (leave t s) u = (if u = t then Outside else at_place s u)"
  by (simp add: leave_def)

lemma at_place_wake [simp]: "at_place (wake_queue s) = at_place s"
  by (simp add: wake_queue_def)

lemma runs_leave_self: "runs s t \<Longrightarrow> runs (leave t s) t"
  by (auto simp: runs_def leave_def sleep_leave_def hand_off_def wake_task_def split: option.splits)

lemma acquire_ok:
  assumes s: "slept (waiters (lock m))" and lo: "locked (lock m) \<longleftrightarrow> owner_slot m \<noteq> None"
    and own: "\<forall>u. owner_slot m = Some u \<longrightarrow> \<not> waits m u" "owner_slot m \<noteq> Some t"
    and t: "can_run m t" "\<not> waits m t"
  shows "\<exists>r m'. take_ownership t (acquire t (lock m)) m = Some (r, m') \<and> mutex_ok m'
           \<and> (r \<longrightarrow> owner_slot m' = Some t)"
proof (cases "locked (lock m)")
  case True
  have "slept (enter Uninterruptible t (waiters (lock m)))" using slept_enter [OF s] t by simp
  then show ?thesis
    using True lo own by (auto simp: acquire_def take_ownership_def mutex_ok_def)
next
  case False
  then show ?thesis
    using s lo t by (auto simp: acquire_def take_ownership_def mutex_ok_def)
qed

lemma mutex_lock_ok:
  assumes "mutex_ok m" "can_run m t" "\<not> waits m t" "owner_slot m \<noteq> Some t"
  shows "\<exists>r m'. Mutex_lock t m = Some (r, m') \<and> mutex_ok m' \<and> (r \<longrightarrow> owner_slot m' = Some t)"
  using acquire_ok [of m t] assms by (simp add: Mutex_lock_def mutex_ok_def)

lemma mutex_resume_ok:
  assumes ok: "mutex_ok m" and t: "can_run m t" "waits m t"
  shows "\<exists>r m'. Mutex_lock_resume t m = Some (r, m') \<and> mutex_ok m' \<and> (r \<longrightarrow> owner_slot m' = Some t)"
proof -
  let ?m = "m\<lparr>lock := (lock m)\<lparr>waiters := leave t (waiters (lock m))\<rparr>\<rparr>"
  have "slept (leave t (waiters (lock m)))" using slept_leave ok t by (auto simp: mutex_ok_def)
  moreover have "owner_slot m \<noteq> Some t" using ok t by (auto simp: mutex_ok_def)
  ultimately have "\<exists>r m'. take_ownership t (acquire t (lock ?m)) ?m = Some (r, m') \<and> mutex_ok m'
      \<and> (r \<longrightarrow> owner_slot m' = Some t)"
    using ok t by (intro acquire_ok) (auto simp: mutex_ok_def runs_leave_self)
  then show ?thesis
    by (auto simp: Mutex_lock_resume_def acquire_resume_def take_ownership_def split: prod.splits bool.splits)
qed

lemma woken_exists:
  assumes s: "slept s" and w: "at_place s t \<noteq> Outside"
  shows "\<exists>u. at_place (wake_queue s) u \<noteq> Outside \<and> runs (wake_queue s) u"
proof (rule ccontr)
  assume no: "\<not> ?thesis"
  have "waiter (queue (wake_queue s)) = None" by (simp add: wake_queue_def wake_def wake_task_def split: option.splits)
  then have "at_place (wake_queue s) t = Outside"
    using quiet_queue_empty [OF slept_chain [OF slept_wake [OF s]] slept_finite [OF slept_wake [OF s]]] no by blast
  then show False using w by simp
qed

lemma mutex_unlock_ok:
  assumes ok: "mutex_ok m" and own: "owner_slot m = Some t"
  shows "\<exists>m'. Mutex_unlock t m = Some m' \<and> mutex_ok m' \<and> owner_slot m' = None"
proof -
  have s: "slept (waiters (lock m))" and l: "locked (lock m)" using ok own by (simp_all add: mutex_ok_def)
  show ?thesis
    using own l slept_wake [OF s] woken_exists [OF s]
    by (auto simp: Mutex_unlock_def release_def mutex_ok_def)
qed

lemma mutex_used_ok: "mutex_used m \<Longrightarrow> mutex_ok m"
proof (induction rule: mutex_used.induct)
  case used_new
  show ?case by (simp add: mutex_ok_def Mutex_new_def BusyLock_new_def slept_start)
    (simp add: no_sleepers_def)
next
  case (used_lock m t r m')
  then show ?case using mutex_lock_ok by fastforce
next
  case (used_resume m t r m')
  then show ?case using mutex_resume_ok by fastforce
next
  case (used_unlock m t m')
  then have "owner_slot m = Some t" by (auto simp: Mutex_unlock_def split: if_splits)
  with used_unlock mutex_unlock_ok show ?case by fastforce
qed

section \<open>Properties\<close>

text \<open>
  (C21) A mutex is safe and loses no waiter.  In every state its users can reach: the busy flag is set
  exactly when a task is recorded as owner, and that task is not waiting; whenever the mutex is free
  and tasks wait for it, one of them is runnable; no call panics (locking by a task that does not
  hold it, continuing after a sleep, unlocking by the owner), and a call that reports success leaves
  the caller as the owner.
\<close>

theorem mutex_correct:
  assumes "mutex_used m"
  shows "(locked (lock m) \<longleftrightarrow> owner_slot m \<noteq> None)
    \<and> (\<forall>t. owner_slot m = Some t \<longrightarrow> \<not> waits m t)
    \<and> (owner_slot m = None \<longrightarrow> (\<exists>t. waits m t) \<longrightarrow> (\<exists>t. waits m t \<and> can_run m t))
    \<and> (\<forall>t. can_run m t \<longrightarrow> \<not> waits m t \<longrightarrow> owner_slot m \<noteq> Some t \<longrightarrow>
         (\<exists>r m'. Mutex_lock t m = Some (r, m') \<and> (r \<longrightarrow> owner_slot m' = Some t)))
    \<and> (\<forall>t. can_run m t \<longrightarrow> waits m t \<longrightarrow>
         (\<exists>r m'. Mutex_lock_resume t m = Some (r, m') \<and> (r \<longrightarrow> owner_slot m' = Some t)))
    \<and> (\<forall>t. owner_slot m = Some t \<longrightarrow> (\<exists>m'. Mutex_unlock t m = Some m' \<and> owner_slot m' = None))"
proof -
  have ok: "mutex_ok m" using mutex_used_ok [OF assms] .
  show ?thesis
  proof (intro conjI allI impI)
    show "locked (lock m) \<longleftrightarrow> owner_slot m \<noteq> None" using ok by (simp add: mutex_ok_def)
    show "\<not> waits m t" if "owner_slot m = Some t" for t using ok that by (simp add: mutex_ok_def)
    show "\<exists>t. waits m t \<and> can_run m t" if "owner_slot m = None" "\<exists>t. waits m t"
      using ok that by (simp add: mutex_ok_def)
    show "\<exists>r m'. Mutex_lock t m = Some (r, m') \<and> (r \<longrightarrow> owner_slot m' = Some t)"
      if "can_run m t" "\<not> waits m t" "owner_slot m \<noteq> Some t" for t
      using mutex_lock_ok [OF ok that] by auto
    show "\<exists>r m'. Mutex_lock_resume t m = Some (r, m') \<and> (r \<longrightarrow> owner_slot m' = Some t)"
      if "can_run m t" "waits m t" for t
      using mutex_resume_ok [OF ok that] by auto
    show "\<exists>m'. Mutex_unlock t m = Some m' \<and> owner_slot m' = None" if "owner_slot m = Some t" for t
      using mutex_unlock_ok [OF ok that] by auto
  qed
qed

definition held_mutex :: Mutex where
  "held_mutex = Mutex_new\<lparr>lock := BusyLock_new\<lparr>locked := True\<rparr>, owner_slot := Some 3\<rparr>"

lemma held_mutex_used: "mutex_used held_mutex"
  by (rule used_lock [OF used_new, of 3 True])
    (simp_all add: Mutex_new_def BusyLock_new_def sleep_defs Mutex_lock_def acquire_def take_ownership_def held_mutex_def)

theorem mutex_correct_witness:
  "\<exists>m'. Mutex_unlock 3 held_mutex = Some m' \<and> owner_slot m' = None"
proof -
  have "owner_slot held_mutex = Some 3" by (simp add: held_mutex_def)
  with mutex_correct [OF held_mutex_used] show ?thesis by blast
qed

end
