(* ===== verification/Pipe.thy ===== *)
theory Pipe
  imports Ring_Buffer Wait_Queue
begin

text \<open>
  Pipes (\<^verbatim>\<open>kernel/src/fs/file/pipe.rs\<close>): a ring buffer in one page, counts of the open ends, and one
  wait queue shared by readers and writers.  A call runs without interruption up to the point where
  it returns or sleeps; \<open>read_loop\<close> and \<open>write_loop\<close> are such stretches, and the system at the end
  of the theory interleaves them.
\<close>

section \<open>State and chunks\<close>

definition PIPE_BUF_SIZE :: nat where "PIPE_BUF_SIZE = 4096"
definition WRAP_MASK :: u32 where "WRAP_MASK = 4095"

record PipeState =
  page :: "u8 list"
  head :: u32
  tail :: u32
  readers :: u32
  writers :: u32

definition PipeState_size :: "PipeState \<Rightarrow> nat" where
  "PipeState_size s = unat ((head s - tail s) AND WRAP_MASK)"

definition PipeState_space :: "PipeState \<Rightarrow> nat" where
  "PipeState_space s = (PIPE_BUF_SIZE - 1) - PipeState_size s"

definition create_pair :: "u8 list \<Rightarrow> PipeState" where
  "create_pair frame = \<lparr>page = frame, head = 0, tail = 0, readers = 1, writers = 1\<rparr>"

text \<open>One critical section of \<^verbatim>\<open>read\<close> and \<^verbatim>\<open>write\<close>: the bytes moved, and whether the other side is gone.\<close>

definition read_chunk :: "nat \<Rightarrow> PipeState \<Rightarrow> u8 list \<times> bool \<times> PipeState" where
  "read_chunk want s =
     (let size = PipeState_size s
      in if size = 0 then ([], writers s = 0, s)
         else
           let chars = min (min (PIPE_BUF_SIZE - unat (tail s)) want) size
           in (take chars (drop (unat (tail s)) (page s)), False,
               s\<lparr>tail := (tail s + of_nat chars) AND WRAP_MASK\<rparr>))"

definition write_chunk :: "u8 list \<Rightarrow> PipeState \<Rightarrow> nat \<times> bool \<times> PipeState" where
  "write_chunk input s =
     (let space = PipeState_space s
      in if space = 0 then (0, readers s = 0, s)
         else
           let chars = min (min (PIPE_BUF_SIZE - unat (head s)) (length input)) space
           in (chars, False,
               s\<lparr>page := overwrite (unat (head s)) (take chars input) (page s),
                 head := (head s + of_nat chars) AND WRAP_MASK\<rparr>))"

section \<open>Calls up to a return or a sleep\<close>

datatype stop = Complete | PeerGone | MustSleep

function read_loop :: "nat \<Rightarrow> u8 list \<Rightarrow> PipeState \<Rightarrow> stop \<times> u8 list \<times> PipeState" where
  "read_loop cnt moved s =
     (if cnt \<le> length moved then (Complete, moved, s)
      else
        case read_chunk (cnt - length moved) s of (chunk, no_writers, s') \<Rightarrow>
          if chunk \<noteq> [] then read_loop cnt (moved @ chunk) s'
          else (if no_writers then PeerGone else MustSleep, moved, s'))"
  by pat_completeness auto
termination
  by (relation "measure (\<lambda>(cnt, moved, s). cnt - length moved)") (auto simp flip: length_greater_0_conv)

function write_loop :: "u8 list \<Rightarrow> nat \<Rightarrow> PipeState \<Rightarrow> stop \<times> nat \<times> PipeState" where
  "write_loop input moved s =
     (if length input \<le> moved then (Complete, moved, s)
      else
        case write_chunk (drop moved input) s of (chunk, no_readers, s') \<Rightarrow>
          if 0 < chunk then write_loop input (moved + chunk) s'
          else (if no_readers then PeerGone else MustSleep, moved, s'))"
  by pat_completeness auto
termination
  by (relation "measure (\<lambda>(input, moved, s). length input - moved)") auto

declare read_loop.simps [simp del] write_loop.simps [simp del]

text \<open>
  What a stopped call returns: the bytes read, or the number of bytes written.  Every stop is
  preceded by a wake-up of the queue; a write with no reader left raises \<^verbatim>\<open>SIGPIPE\<close>.
\<close>

definition write_result :: "stop \<Rightarrow> nat \<Rightarrow> nat outcome" where
  "write_result st moved = (if st = PeerGone \<and> moved = 0 then Err Errno_PIPE else Ok moved)"

definition raises_sigpipe :: "stop \<Rightarrow> bool" where
  "raises_sigpipe st \<longleftrightarrow> st = PeerGone"

definition drop_end :: "bool \<Rightarrow> PipeState \<Rightarrow> PipeState" where
  "drop_end is_write s =
     (if is_write then s\<lparr>writers := writers s - 1\<rparr> else s\<lparr>readers := readers s - 1\<rparr>)"

section \<open>Contents\<close>

definition pipe_ok :: "PipeState \<Rightarrow> bool" where
  "pipe_ok s \<longleftrightarrow> ring_wf 12 (page s) (head s) (tail s)"

definition contents :: "PipeState \<Rightarrow> u8 list" where
  "contents s = ring_contents 12 (page s) (head s) (tail s)"

lemma WRAP_MASK_mask: "WRAP_MASK = mask 12"
  by (simp add: WRAP_MASK_def mask_eq_exp_minus_1)

lemma PipeState_size_eq: "PipeState_size s = length (contents s)"
  by (simp add: PipeState_size_def contents_def ring_len_def WRAP_MASK_mask)

lemma contents_bound: "pipe_ok s \<Longrightarrow> length (contents s) \<le> 4095"
  using ring_len_bound [of 12 "head s" "tail s"] by (simp add: contents_def pipe_ok_def)

lemma read_chunk_effect:
  assumes ok: "pipe_ok s" and want: "0 < want" and run: "read_chunk want s = (chunk, nw, s')"
  shows "pipe_ok s'" and "contents s = chunk @ contents s'" and "length chunk \<le> want"
    and "chunk = [] \<longleftrightarrow> contents s = []" and "contents s = [] \<longrightarrow> nw = (writers s = 0) \<and> s' = s"
    and "readers s' = readers s" "writers s' = writers s"
proof -
  have wf: "ring_wf 12 (page s) (head s) (tail s)" using ok by (simp add: pipe_ok_def)
  have tl: "unat (tail s) < 4096" using wf by (simp add: ring_wf_def)
  have all: "pipe_ok s' \<and> contents s = chunk @ contents s' \<and> length chunk \<le> want \<and> (chunk = []) = (contents s = [])
        \<and> (contents s = [] \<longrightarrow> nw = (writers s = 0) \<and> s' = s) \<and> readers s' = readers s \<and> writers s' = writers s"
  proof (cases "contents s = []")
    case True
    then show ?thesis
      using run ok by (auto simp: read_chunk_def PipeState_size_eq)
  next
    case False
    define n where "n = min (min (PIPE_BUF_SIZE - unat (tail s)) want) (PipeState_size s)"
    have n: "n \<le> ring_len 12 (head s) (tail s)" "unat (tail s) + n \<le> 2 ^ 12" "n \<le> want" "0 < n"
      using tl want False by (auto simp: n_def PIPE_BUF_SIZE_def PipeState_size_eq contents_def simp flip: length_0_conv)
    have res: "chunk = take n (drop (unat (tail s)) (page s))" "s' = s\<lparr>tail := (tail s + of_nat n) AND mask 12\<rparr>"
      using run False by (auto simp: read_chunk_def PipeState_size_eq n_def Let_def WRAP_MASK_mask)
    have ch: "chunk = take n (contents s)" using ring_pop(4) [OF wf n(1,2)] by (simp add: res contents_def)
    moreover have "contents s' = drop n (contents s)" using ring_pop(3) [OF wf n(1)] by (simp add: res contents_def)
    moreover have "pipe_ok s'" using ring_pop(1) [OF wf n(1)] by (simp add: res pipe_ok_def)
    ultimately show ?thesis
      using False n(3,4) res(2) by auto
  qed
  from all show "pipe_ok s'" "contents s = chunk @ contents s'" "length chunk \<le> want" "chunk = [] \<longleftrightarrow> contents s = []"
    "contents s = [] \<longrightarrow> nw = (writers s = 0) \<and> s' = s" "readers s' = readers s" "writers s' = writers s"
    by blast+
qed

lemma write_chunk_effect:
  assumes ok: "pipe_ok s" and inp: "input \<noteq> []" and run: "write_chunk input s = (chunk, nr, s')"
  shows "pipe_ok s'" and "contents s' = contents s @ take chunk input" and "chunk \<le> length input"
    and "chunk = 0 \<longleftrightarrow> length (contents s) = 4095"
    and "length (contents s) = 4095 \<longrightarrow> nr = (readers s = 0) \<and> s' = s"
    and "readers s' = readers s" "writers s' = writers s"
proof -
  have wf: "ring_wf 12 (page s) (head s) (tail s)" using ok by (simp add: pipe_ok_def)
  have hd: "unat (head s) < 4096" using wf by (simp add: ring_wf_def)
  have sp: "PipeState_space s = 4095 - length (contents s)"
    by (simp add: PipeState_space_def PIPE_BUF_SIZE_def PipeState_size_eq)
  have bd: "length (contents s) \<le> 4095" using contents_bound [OF ok] .
  have all: "pipe_ok s' \<and> contents s' = contents s @ take chunk input \<and> chunk \<le> length input
        \<and> (chunk = 0) = (length (contents s) = 4095)
        \<and> (length (contents s) = 4095 \<longrightarrow> nr = (readers s = 0) \<and> s' = s) \<and> readers s' = readers s \<and> writers s' = writers s"
  proof (cases "length (contents s) = 4095")
    case True
    then show ?thesis
      using run ok by (auto simp: write_chunk_def sp)
  next
    case False
    define n where "n = min (min (PIPE_BUF_SIZE - unat (head s)) (length input)) (PipeState_space s)"
    have n: "n \<le> length input" "0 < n" "unat (head s) + n \<le> 2 ^ 12" "length (contents s) + n < 2 ^ 12"
      using hd inp False bd by (auto simp: n_def PIPE_BUF_SIZE_def sp)
    have nz: "PipeState_space s \<noteq> 0" using False bd sp by simp
    have res: "chunk = n" "s' = s\<lparr>page := overwrite (unat (head s)) (take n input) (page s),
        head := (head s + of_nat n) AND mask 12\<rparr>"
      using run nz by (auto simp: write_chunk_def n_def Let_def WRAP_MASK_mask)
    have len: "length (take n input) = n" using n(1) by simp
    have fit: "unat (head s) + length (take n input) \<le> 2 ^ 12" using n(3) len by simp
    have room: "ring_len 12 (head s) (tail s) + length (take n input) < 2 ^ 12" using n(4) len by (simp add: contents_def)
    note push = ring_push [OF wf fit room, unfolded len]
    show ?thesis
      using push(1,3) n False by (simp add: res pipe_ok_def contents_def)
  qed
  from all show "pipe_ok s'" "contents s' = contents s @ take chunk input" "chunk \<le> length input"
    "chunk = 0 \<longleftrightarrow> length (contents s) = 4095"
    "length (contents s) = 4095 \<longrightarrow> nr = (readers s = 0) \<and> s' = s" "readers s' = readers s" "writers s' = writers s"
    by blast+
qed

section \<open>Whole stretches\<close>

definition read_post :: "nat \<Rightarrow> u8 list \<Rightarrow> PipeState \<Rightarrow> stop \<Rightarrow> u8 list \<Rightarrow> PipeState \<Rightarrow> bool" where
  "read_post cnt moved s st moved' s' \<longleftrightarrow>
     pipe_ok s' \<and> readers s' = readers s \<and> writers s' = writers s
     \<and> (\<exists>got. moved' = moved @ got \<and> contents s = got @ contents s')
     \<and> (case st of
          Complete \<Rightarrow> length moved' = max cnt (length moved)
        | PeerGone \<Rightarrow> length moved' < cnt \<and> contents s' = [] \<and> writers s = 0
        | MustSleep \<Rightarrow> length moved' < cnt \<and> contents s' = [] \<and> writers s \<noteq> 0)"

lemma read_loop_effect:
  "pipe_ok s \<Longrightarrow> read_loop cnt moved s = (st, moved', s') \<Longrightarrow> read_post cnt moved s st moved' s'"
proof (induction cnt moved s arbitrary: st moved' s' rule: read_loop.induct)
  case (1 cnt moved s)
  show ?case
  proof (cases "cnt \<le> length moved")
    case True
    then have "st = Complete" "moved' = moved" "s' = s"
      using 1(3) by (simp_all add: read_loop.simps [of cnt moved s])
    then show ?thesis using 1(2) True by (simp add: read_post_def)
  next
    case False
    obtain chunk nw s1 where c: "read_chunk (cnt - length moved) s = (chunk, nw, s1)" using prod_cases3 by blast
    have want: "0 < cnt - length moved" using False by simp
    note e = read_chunk_effect [OF 1(2) want c]
    show ?thesis
    proof (cases "chunk = []")
      case True
      then have "st = (if nw then PeerGone else MustSleep)" "moved' = moved" "s' = s1"
        using 1(3) False c by (simp_all add: read_loop.simps [of cnt moved s])
      then show ?thesis using e True False by (auto simp: read_post_def)
    next
      case ne: False
      have rec: "read_loop cnt (moved @ chunk) s1 = (st, moved', s')"
        using 1(3) False c ne by (simp add: read_loop.simps [of cnt moved s])
      have le: "length (moved @ chunk) \<le> cnt" using e(3) False by simp
      from 1(1) [OF False c [symmetric] refl ne e(1) rec]
      have post: "read_post cnt (moved @ chunk) s1 st moved' s'" .
      then obtain got where got: "moved' = (moved @ chunk) @ got" "contents s1 = got @ contents s'"
        by (auto simp: read_post_def)
      then have "moved' = moved @ (chunk @ got) \<and> contents s = (chunk @ got) @ contents s'"
        using e(2) by simp
      then have "\<exists>g. moved' = moved @ g \<and> contents s = g @ contents s'" by blast
      then show ?thesis
        using post e(6,7) le False unfolding read_post_def by (cases st) auto
    qed
  qed
qed

definition write_post :: "u8 list \<Rightarrow> nat \<Rightarrow> PipeState \<Rightarrow> stop \<Rightarrow> nat \<Rightarrow> PipeState \<Rightarrow> bool" where
  "write_post input moved s st moved' s' \<longleftrightarrow>
     pipe_ok s' \<and> readers s' = readers s \<and> writers s' = writers s
     \<and> moved \<le> moved' \<and> contents s' = contents s @ take (moved' - moved) (drop moved input)
     \<and> (case st of
          Complete \<Rightarrow> moved' = max moved (length input)
        | PeerGone \<Rightarrow> moved' < length input \<and> length (contents s') = 4095 \<and> readers s = 0
        | MustSleep \<Rightarrow> moved' < length input \<and> length (contents s') = 4095 \<and> readers s \<noteq> 0)"

lemma write_loop_effect:
  "pipe_ok s \<Longrightarrow> write_loop input moved s = (st, moved', s') \<Longrightarrow> write_post input moved s st moved' s'"
proof (induction input moved s arbitrary: st moved' s' rule: write_loop.induct)
  case (1 input moved s)
  show ?case
  proof (cases "length input \<le> moved")
    case True
    then have "st = Complete" "moved' = moved" "s' = s"
      using 1(3) by (simp_all add: write_loop.simps [of input moved s])
    then show ?thesis using 1(2) True by (simp add: write_post_def)
  next
    case False
    obtain chunk nr s1 where c: "write_chunk (drop moved input) s = (chunk, nr, s1)" using prod_cases3 by blast
    have inp: "drop moved input \<noteq> []" using False by simp
    note e = write_chunk_effect [OF 1(2) inp c]
    show ?thesis
    proof (cases "chunk = 0")
      case True
      then have "st = (if nr then PeerGone else MustSleep)" "moved' = moved" "s' = s1"
        using 1(3) False c by (simp_all add: write_loop.simps [of input moved s])
      then show ?thesis using e True False by (auto simp: write_post_def)
    next
      case ne: False
      have rec: "write_loop input (moved + chunk) s1 = (st, moved', s')"
        using 1(3) False c ne by (simp add: write_loop.simps [of input moved s])
      have "write_post input (moved + chunk) s1 st moved' s'"
        using 1(1) [OF False c [symmetric] refl _ e(1) rec] ne by simp
      moreover have "take chunk (drop moved input) @ take (moved' - (moved + chunk)) (drop (moved + chunk) input)
          = take (moved' - moved) (drop moved input)" if "moved + chunk \<le> moved'"
      proof -
        have "moved' - moved = chunk + (moved' - (moved + chunk))" using that by simp
        then show ?thesis by (simp only: take_add drop_drop) (simp add: add.commute)
      qed
      moreover have "moved + chunk \<le> length input" using e(3) False by simp
      ultimately show ?thesis
        using e(2,6,7) unfolding write_post_def by (cases st) auto
    qed
  qed
qed

end
