(* ===== verification/Pipe_Properties.thy ===== *)
theory Pipe_Properties
  imports Pipe
begin

text \<open>
  A pipe used by any number of tasks: reads and writes run in stretches between sleeps, in any
  order, and share the wait queue.  Two histories record the bytes that went in and out.
\<close>

section \<open>The system\<close>

datatype pcall =
    NoCall
  | InRead nat "u8 list" "nat option"
  | InWrite "u8 list" nat "nat option"

record pipe_sys =
  pipe :: PipeState
  wq :: WaitQueue
  pcall :: "nat \<Rightarrow> pcall"
  written :: "u8 list"
  taken :: "u8 list"

definition pipe_start :: "u8 list \<Rightarrow> pipe_sys" where
  "pipe_start frame =
     \<lparr>pipe = create_pair frame, wq = \<lparr>waiter = None, run = (\<lambda>_. Running)\<rparr>, pcall = (\<lambda>_. NoCall),
      written = [], taken = []\<rparr>"

text \<open>The end of a stretch: the queue is woken, then the call returns or goes to sleep.\<close>

definition end_read :: "nat \<Rightarrow> nat \<Rightarrow> u8 list \<Rightarrow> stop \<times> u8 list \<times> PipeState \<Rightarrow> pipe_sys \<Rightarrow> pipe_sys" where
  "end_read t cnt before r y =
     (case r of (st, moved, s) \<Rightarrow>
       let y1 = y\<lparr>pipe := s, wq := wake (wq y), taken := taken y @ drop (length before) moved\<rparr>
       in if st = MustSleep
          then let (h, w) = sleep_enter Uninterruptible t (wq y1)
               in y1\<lparr>wq := w, pcall := (pcall y1)(t := InRead cnt moved h)\<rparr>
          else y1\<lparr>pcall := (pcall y1)(t := NoCall)\<rparr>)"

definition end_write :: "nat \<Rightarrow> u8 list \<Rightarrow> nat \<Rightarrow> stop \<times> nat \<times> PipeState \<Rightarrow> pipe_sys \<Rightarrow> pipe_sys" where
  "end_write t input before r y =
     (case r of (st, moved, s) \<Rightarrow>
       let y1 = y\<lparr>pipe := s, wq := wake (wq y),
                  written := written y @ take (moved - before) (drop before input)\<rparr>
       in if st = MustSleep
          then let (h, w) = sleep_enter Uninterruptible t (wq y1)
               in y1\<lparr>wq := w, pcall := (pcall y1)(t := InWrite input moved h)\<rparr>
          else y1\<lparr>pcall := (pcall y1)(t := NoCall)\<rparr>)"

definition pipe_read :: "nat \<Rightarrow> nat \<Rightarrow> pipe_sys \<Rightarrow> pipe_sys" where
  "pipe_read t cnt y = end_read t cnt [] (read_loop cnt [] (pipe y)) y"

definition pipe_write :: "nat \<Rightarrow> u8 list \<Rightarrow> pipe_sys \<Rightarrow> pipe_sys" where
  "pipe_write t input y = end_write t input 0 (write_loop input 0 (pipe y)) y"

definition pipe_resume :: "nat \<Rightarrow> pipe_sys \<Rightarrow> pipe_sys" where
  "pipe_resume t y =
     (case pcall y t of
        NoCall \<Rightarrow> y
      | InRead cnt got h \<Rightarrow>
          end_read t cnt got (read_loop cnt got (pipe y)) (y\<lparr>wq := sleep_leave h (wq y)\<rparr>)
      | InWrite input n h \<Rightarrow>
          end_write t input n (write_loop input n (pipe y)) (y\<lparr>wq := sleep_leave h (wq y)\<rparr>))"

definition pipe_close :: "bool \<Rightarrow> pipe_sys \<Rightarrow> pipe_sys" where
  "pipe_close is_write y = y\<lparr>pipe := drop_end is_write (pipe y), wq := wake (wq y)\<rparr>"

inductive pipe_reachable :: "pipe_sys \<Rightarrow> bool" where
  pipe_new: "length frame = 4096 \<Longrightarrow> pipe_reachable (pipe_start frame)"
| pipe_reads: "pipe_reachable y \<Longrightarrow> run (wq y) t = Running \<Longrightarrow> pcall y t = NoCall \<Longrightarrow> pipe_reachable (pipe_read t cnt y)"
| pipe_writes: "pipe_reachable y \<Longrightarrow> run (wq y) t = Running \<Longrightarrow> pcall y t = NoCall \<Longrightarrow> pipe_reachable (pipe_write t input y)"
| pipe_resumes: "pipe_reachable y \<Longrightarrow> run (wq y) t = Running \<Longrightarrow> pipe_reachable (pipe_resume t y)"
| pipe_closes: "pipe_reachable y \<Longrightarrow> pipe_reachable (pipe_close is_write y)"

section \<open>The invariant\<close>

definition stuck_rightly :: "PipeState \<Rightarrow> pcall \<Rightarrow> bool" where
  "stuck_rightly s c \<longleftrightarrow>
     (case c of
        NoCall \<Rightarrow> False
      | InRead cnt got h \<Rightarrow> length got < cnt \<and> contents s = [] \<and> writers s \<noteq> 0
      | InWrite input n h \<Rightarrow> n < length input \<and> length (contents s) = 4095 \<and> readers s \<noteq> 0)"

definition promised :: "pcall \<Rightarrow> nat option" where
  "promised c = (case c of NoCall \<Rightarrow> None | InRead _ _ h \<Rightarrow> h | InWrite _ _ h \<Rightarrow> h)"

definition pipe_inv :: "pipe_sys \<Rightarrow> bool" where
  "pipe_inv y \<longleftrightarrow>
     pipe_ok (pipe y) \<and> written y = taken y @ contents (pipe y)
     \<and> (\<forall>t. promised (pcall y t) = None)
     \<and> (\<forall>t. run (wq y) t \<noteq> Running \<longleftrightarrow> waiter (wq y) = Some t)
     \<and> (\<forall>t. waiter (wq y) = Some t \<longrightarrow> stuck_rightly (pipe y) (pcall y t))"

lemma wake_all:
  assumes "\<forall>t. run w t \<noteq> Running \<longleftrightarrow> waiter w = Some t"
  shows "waiter (wake w) = None" "run (wake w) t = Running"
proof -
  show "waiter (wake w) = None" by (simp add: wake_def wake_task_def split: option.splits)
  show "run (wake w) t = Running"
    using assms [rule_format, of t] by (cases "waiter w") (auto simp: wake_def wake_task_def)
qed

lemma pipe_inv_end_read:
  assumes inv: "pipe_inv y" and post: "read_post cnt got (pipe y) st moved s"
  shows "pipe_inv (end_read t cnt got (st, moved, s) y)"
proof -
  have w: "\<forall>t. run (wq y) t \<noteq> Running \<longleftrightarrow> waiter (wq y) = Some t" and pr: "\<forall>t. promised (pcall y t) = None"
    and hist: "written y = taken y @ contents (pipe y)" using inv by (auto simp: pipe_inv_def)
  obtain g where g: "moved = got @ g" "contents (pipe y) = g @ contents s" using post by (auto simp: read_post_def)
  have ok: "pipe_ok s" using post by (simp add: read_post_def)
  show ?thesis
  proof (cases "st = MustSleep")
    case True
    then have "stuck_rightly s (InRead cnt moved None)"
      using post by (simp add: read_post_def stuck_rightly_def)
    then show ?thesis
      using True ok pr hist g wake_all [OF w]
      by (auto simp: pipe_inv_def end_read_def Let_def sleep_enter_def promised_def)
  next
    case False
    then show ?thesis
      using ok pr hist g wake_all [OF w] by (auto simp: pipe_inv_def end_read_def Let_def promised_def)
  qed
qed

lemma pipe_inv_end_write:
  assumes inv: "pipe_inv y" and post: "write_post input n (pipe y) st moved s"
  shows "pipe_inv (end_write t input n (st, moved, s) y)"
proof -
  have w: "\<forall>t. run (wq y) t \<noteq> Running \<longleftrightarrow> waiter (wq y) = Some t" and pr: "\<forall>t. promised (pcall y t) = None"
    and hist: "written y = taken y @ contents (pipe y)" using inv by (auto simp: pipe_inv_def)
  have g: "contents s = contents (pipe y) @ take (moved - n) (drop n input)" and ok: "pipe_ok s"
    using post by (auto simp: write_post_def)
  show ?thesis
  proof (cases "st = MustSleep")
    case True
    then have "stuck_rightly s (InWrite input moved None)"
      using post unfolding write_post_def stuck_rightly_def pcall.case by (elim conjE) (simp del: length_append)
    then show ?thesis
      using True ok pr hist g wake_all [OF w]
      by (auto simp: pipe_inv_def end_write_def Let_def sleep_enter_def promised_def)
  next
    case False
    then show ?thesis
      using ok pr hist g wake_all [OF w] by (auto simp: pipe_inv_def end_write_def Let_def promised_def)
  qed
qed

lemma pipe_inv_read:
  assumes "pipe_inv y"
  shows "pipe_inv (end_read t cnt got (read_loop cnt got (pipe y)) y)"
proof -
  obtain st m s where r: "read_loop cnt got (pipe y) = (st, m, s)" using prod_cases3 by blast
  have "pipe_ok (pipe y)" using assms by (simp add: pipe_inv_def)
  then show ?thesis using pipe_inv_end_read [OF assms read_loop_effect [OF _ r]] r by simp
qed

lemma pipe_inv_write:
  assumes "pipe_inv y"
  shows "pipe_inv (end_write t input n (write_loop input n (pipe y)) y)"
proof -
  obtain st m s where r: "write_loop input n (pipe y) = (st, m, s)" using prod_cases3 by blast
  have "pipe_ok (pipe y)" using assms by (simp add: pipe_inv_def)
  then show ?thesis using pipe_inv_end_write [OF assms write_loop_effect [OF _ r]] r by simp
qed

lemma pipe_inv_resume: "pipe_inv y \<Longrightarrow> pipe_inv (pipe_resume t y)"
proof -
  assume inv: "pipe_inv y"
  then have p: "promised (pcall y t) = None" by (simp add: pipe_inv_def)
  then have "y\<lparr>wq := sleep_leave (promised (pcall y t)) (wq y)\<rparr> = y" by (simp add: sleep_leave_def hand_off_def)
  then show ?thesis
    using inv p pipe_inv_read [OF inv] pipe_inv_write [OF inv]
    by (auto simp: pipe_resume_def promised_def split: pcall.splits)
qed

lemma pipe_inv_close: "pipe_inv y \<Longrightarrow> pipe_inv (pipe_close is_write y)"
  using wake_all [of "wq y"]
  by (auto simp: pipe_inv_def pipe_close_def drop_end_def pipe_ok_def contents_def)

lemma pipe_inv_start:
  assumes "length frame = 4096"
  shows "pipe_inv (pipe_start frame)"
proof -
  have "ring_len 12 0 0 = 0" by (simp add: ring_len_def)
  then show ?thesis
    using assms by (simp add: pipe_inv_def pipe_start_def create_pair_def pipe_ok_def ring_wf_def contents_def
        ring_contents_def promised_def)
qed

lemma pipe_reachable_inv: "pipe_reachable y \<Longrightarrow> pipe_inv y"
proof (induction rule: pipe_reachable.induct)
  case (pipe_new frame)
  then show ?case by (rule pipe_inv_start)
next
  case (pipe_reads y t cnt)
  then show ?case unfolding pipe_read_def by (intro pipe_inv_read)
next
  case (pipe_writes y t input)
  then show ?case unfolding pipe_write_def by (intro pipe_inv_write)
next
  case (pipe_resumes y t)
  then show ?case by (intro pipe_inv_resume)
next
  case (pipe_closes y is_write)
  then show ?case by (intro pipe_inv_close)
qed

section \<open>Properties\<close>

text \<open>
  (C22) A pipe is a reliable first-in first-out channel for any number of readers and writers and any
  interleaving: the bytes taken out so far followed by the bytes in the buffer are exactly the bytes
  put in, in order, and the buffer never holds more than 4095.
\<close>

theorem pipe_fifo:
  assumes "pipe_reachable y"
  shows "written y = taken y @ contents (pipe y) \<and> length (contents (pipe y)) \<le> 4095"
  using pipe_reachable_inv [OF assms] contents_bound by (simp add: pipe_inv_def)

definition zero_page :: "u8 list" where
  "zero_page = replicate 4096 0"

theorem pipe_fifo_witness:
  "written (pipe_read 2 5 (pipe_write 1 [7, 8, 9] (pipe_start zero_page)))
     = taken (pipe_read 2 5 (pipe_write 1 [7, 8, 9] (pipe_start zero_page)))
       @ contents (pipe (pipe_read 2 5 (pipe_write 1 [7, 8, 9] (pipe_start zero_page))))"
proof -
  let ?y = "pipe_write 1 [7, 8, 9] (pipe_start zero_page)"
  have start: "pipe_reachable (pipe_start zero_page)" by (rule pipe_new) (simp add: zero_page_def)
  have w: "pipe_reachable ?y" by (rule pipe_writes [OF start]) (simp_all add: pipe_start_def)
  have inv: "pipe_inv (pipe_start zero_page)" using pipe_reachable_inv [OF start] .
  obtain st m s where r: "write_loop [7, 8, 9] 0 (pipe (pipe_start zero_page)) = (st, m, s)" using prod_cases3 by blast
  have "run (wq ?y) 2 = Running" "pcall ?y 2 = NoCall"
    using r wake_all(2) [of "wq (pipe_start zero_page)" 2]
    by (auto simp: pipe_write_def end_write_def Let_def sleep_enter_def pipe_start_def wake_def)
  then have "pipe_reachable (pipe_read 2 5 ?y)" by (rule pipe_reads [OF w])
  then show ?thesis using pipe_fifo by blast
qed

text \<open>
  (C23) No task sleeps on a pipe in vain: at most one task is asleep at any time; a sleeping reader
  still wants bytes, the buffer is empty and a write end is open; a sleeping writer still has bytes
  to write, the buffer is full and a read end is open.  So readers and writers never block each other.
\<close>

theorem pipe_sleeps_rightly:
  assumes "pipe_reachable y" and "run (wq y) t \<noteq> Running"
  shows "(\<forall>u. run (wq y) u \<noteq> Running \<longrightarrow> u = t)
    \<and> (case pcall y t of
         NoCall \<Rightarrow> False
       | InRead cnt got _ \<Rightarrow> length got < cnt \<and> contents (pipe y) = [] \<and> writers (pipe y) \<noteq> 0
       | InWrite input n _ \<Rightarrow> n < length input \<and> length (contents (pipe y)) = 4095 \<and> readers (pipe y) \<noteq> 0)"
proof -
  have inv: "pipe_inv y" using pipe_reachable_inv [OF assms(1)] .
  then have "waiter (wq y) = Some t" using assms(2) by (simp add: pipe_inv_def)
  moreover have "stuck_rightly (pipe y) (pcall y t)" using inv calculation by (simp add: pipe_inv_def)
  ultimately show ?thesis using inv by (auto simp: pipe_inv_def stuck_rightly_def)
qed

lemma reader_sleeps:
  "run (wq (pipe_read 2 5 (pipe_start zero_page))) 2 = Uninterruptible"
  "pcall (pipe_read 2 5 (pipe_start zero_page)) 2 = InRead 5 [] None"
proof -
  let ?s = "create_pair zero_page"
  have "PipeState_size ?s = 0" "writers ?s = 1" by (simp_all add: PipeState_size_def create_pair_def)
  then have "read_loop 5 [] ?s = (MustSleep, [], ?s)"
    by (simp add: read_loop.simps [of 5 "[]"] read_chunk_def)
  then show "run (wq (pipe_read 2 5 (pipe_start zero_page))) 2 = Uninterruptible"
    "pcall (pipe_read 2 5 (pipe_start zero_page)) 2 = InRead 5 [] None"
    by (simp_all add: pipe_read_def pipe_start_def end_read_def Let_def sleep_enter_def wake_def)
qed

theorem pipe_sleeps_rightly_witness:
  "contents (pipe (pipe_read 2 5 (pipe_start zero_page))) = []
   \<and> writers (pipe (pipe_read 2 5 (pipe_start zero_page))) \<noteq> 0"
proof -
  have "pipe_reachable (pipe_read 2 5 (pipe_start zero_page))"
    by (rule pipe_reads [OF pipe_new]) (simp_all add: zero_page_def pipe_start_def)
  from pipe_sleeps_rightly [OF this, of 2] show ?thesis by (simp add: reader_sleeps)
qed

text \<open>
  (C24) How a write ends, with its error cases: it completes when the bytes fit; otherwise it fills the
  buffer and, when no read end is open, stops with \<^verbatim>\<open>SIGPIPE\<close>, reporting the bytes that fitted, or
  \<^verbatim>\<open>EPIPE\<close> when none did; with a read end open it sleeps.  In particular a write that fits succeeds
  without a signal even when all readers are gone.
\<close>

theorem pipe_write_outcome:
  assumes ok: "pipe_ok s" and run: "write_loop input 0 s = (st, n, s')"
  shows "if length input \<le> 4095 - length (contents s)
    then write_result st n = Ok (length input) \<and> \<not> raises_sigpipe st \<and> contents s' = contents s @ input
    else n = 4095 - length (contents s) \<and> contents s' = contents s @ take n input
      \<and> (if readers s = 0
         then raises_sigpipe st \<and> write_result st n = (if n = 0 then Err Errno_PIPE else Ok n)
         else st = MustSleep)"
proof -
  note p = write_loop_effect [OF ok run, unfolded write_post_def]
  have bd: "length (contents s) \<le> 4095" "length (contents s') \<le> 4095"
    using contents_bound [OF ok] contents_bound p by blast+
  have len: "length (contents s') = length (contents s) + min n (length input)" using p by simp
  show ?thesis
    using p bd len by (cases st) (auto simp: write_result_def raises_sigpipe_def)
qed

theorem pipe_write_outcome_witness:
  "\<exists>st n s'. write_loop [1, 2] 0 ((create_pair zero_page)\<lparr>readers := 0\<rparr>) = (st, n, s')
     \<and> write_result st n = Ok 2 \<and> \<not> raises_sigpipe st"
proof -
  let ?s = "(create_pair zero_page)\<lparr>readers := 0\<rparr>"
  obtain st n s' where r: "write_loop [1, 2] 0 ?s = (st, n, s')" using prod_cases3 by blast
  have ok: "pipe_ok ?s" by (simp add: pipe_ok_def ring_wf_def create_pair_def zero_page_def)
  have "contents ?s = []" by (simp add: contents_def ring_contents_def ring_len_def create_pair_def)
  with pipe_write_outcome [OF ok r] r show ?thesis by simp
qed

end
