(* ===== verification/Fs_Layout.thy ===== *)
theory Fs_Layout
  imports Le_Bytes
begin

text \<open>
  The on-disk layout of a Minix version 1 file system (\<open>kernel/src/fs/layout.rs\<close>): blocks as byte
  lists, the structures stored in them as records with their byte images, and the typed views of a
  block (allocation words, zone pointers, inodes, directory entries).

  The sources reinterpret the bytes of a cached block as an array of a \<^verbatim>\<open>repr(C)\<close> type.  A view is
  modelled by a pair of functions between an element and its image, and the locale \<open>block_view\<close>
  states once what such a pair gives: an element written at one index is read back there, and no
  other element of the block changes.
\<close>

section \<open>Typed views of a block\<close>

definition BLOCK_SIZE :: nat where "BLOCK_SIZE = 1024"

definition view_entry :: "(u8 list \<Rightarrow> 'a) \<Rightarrow> nat \<Rightarrow> u8 list \<Rightarrow> nat \<Rightarrow> 'a" where
  "view_entry dec w bs i = dec (field (i * w) w bs)"

definition view_update :: "('a \<Rightarrow> u8 list) \<Rightarrow> nat \<Rightarrow> u8 list \<Rightarrow> nat \<Rightarrow> 'a \<Rightarrow> u8 list" where
  "view_update enc w bs i x = take (i * w) bs @ enc x @ drop (Suc i * w) bs"

locale block_view =
  fixes enc :: "'a \<Rightarrow> u8 list" and dec :: "u8 list \<Rightarrow> 'a" and w :: nat and ok :: "'a \<Rightarrow> bool"
  assumes length_enc: "ok x \<Longrightarrow> length (enc x) = w"
    and dec_enc: "ok x \<Longrightarrow> dec (enc x) = x"
    and ok_dec: "length bs = w \<Longrightarrow> ok (dec bs)"
begin

lemma length_view_update:
  assumes "ok x" "Suc i * w \<le> length bs"
  shows "length (view_update enc w bs i x) = length bs"
proof -
  have "length (take (i * w) bs) = i * w" using assms(2) by simp
  then show ?thesis using assms by (simp add: view_update_def length_enc)
qed

lemma nth_view_update:
  assumes "ok x" "Suc i * w \<le> length bs" "k < length bs" "k < i * w \<or> Suc i * w \<le> k"
  shows "view_update enc w bs i x ! k = bs ! k"
proof -
  have "length (take (i * w) bs) = i * w" using assms(2) by simp
  then show ?thesis using assms by (auto simp: view_update_def nth_append length_enc)
qed

lemma entry_update_same:
  assumes "ok x" "Suc i * w \<le> length bs"
  shows "view_entry dec w (view_update enc w bs i x) i = x"
proof -
  have "length (take (i * w) bs) = i * w" using assms by simp
  then show ?thesis
    using assms by (simp add: view_entry_def view_update_def field_def length_enc dec_enc)
qed

lemma field_update_other:
  assumes "ok x" "Suc i * w \<le> length bs" "i \<noteq> j"
  shows "field (j * w) w (view_update enc w bs i x) = field (j * w) w bs"
proof (rule nth_equalityI)
  show "length (field (j * w) w (view_update enc w bs i x)) = length (field (j * w) w bs)"
    by (simp add: field_def length_view_update [OF assms(1,2)])
next
  fix k assume "k < length (field (j * w) w (view_update enc w bs i x))"
  then have k: "k < w" "j * w + k < length bs"
    by (auto simp: field_def length_view_update [OF assms(1,2)])
  have "Suc j * w \<le> i * w \<or> Suc i * w \<le> j * w"
    using assms(3) by (meson Suc_leI linorder_neqE_nat mult_le_mono1)
  then have "j * w + k < i * w \<or> Suc i * w \<le> j * w + k" using k(1) by auto
  with nth_view_update [OF assms(1,2) k(2)] k
  show "field (j * w) w (view_update enc w bs i x) ! k = field (j * w) w bs ! k"
    by (simp add: field_def length_view_update [OF assms(1,2)])
qed

lemma entry_update_other:
  assumes "ok x" "Suc i * w \<le> length bs" "i \<noteq> j"
  shows "view_entry dec w (view_update enc w bs i x) j = view_entry dec w bs j"
  by (simp add: view_entry_def field_update_other [OF assms])

lemma entry_update:
  assumes "ok x" "Suc i * w \<le> length bs"
  shows "view_entry dec w (view_update enc w bs i x) j
    = (if j = i then x else view_entry dec w bs j)"
  using assms by (simp add: entry_update_same entry_update_other)

lemma ok_entry: "Suc i * w \<le> length bs \<Longrightarrow> ok (view_entry dec w bs i)"
  by (simp add: view_entry_def ok_dec)

end

section \<open>Words of an allocation bitmap and zone pointers\<close>

definition u64_bytes :: "u64 \<Rightarrow> u8 list" where
  "u64_bytes w = map (\<lambda>i. ucast (drop_bit (8 * i) w)) [0..<8]"

definition u64_of :: "u8 list \<Rightarrow> u64" where
  "u64_of bs = foldr (\<lambda>b acc. ucast b OR push_bit 8 acc) bs 0"

lemma length_u64_bytes [simp]: "length (u64_bytes w) = 8"
  by (simp add: u64_bytes_def)

lemma bit_foldr_bytes:
  fixes bs :: "u8 list"
  shows "bit (foldr (\<lambda>b acc. ucast b OR push_bit 8 acc) bs (0 :: u64)) n \<longleftrightarrow>
     n < 64 \<and> n div 8 < length bs \<and> bit (bs ! (n div 8)) (n mod 8)"
proof (induction bs arbitrary: n)
  case Nil
  then show ?case by simp
next
  case (Cons b bs)
  show ?case
  proof (cases "n < 8")
    case True
    then show ?thesis by (simp add: bit_or_iff bit_push_bit_iff bit_ucast_iff)
  next
    case False
    then have "n div 8 = Suc ((n - 8) div 8)" "(n - 8) mod 8 = n mod 8"
      by (auto simp: le_div_geq le_mod_geq)
    moreover have "\<not> bit b n" using False bit_imp_le_length [of b n] by auto
    ultimately show ?thesis
      using False by (auto simp: bit_or_iff bit_push_bit_iff bit_ucast_iff Cons)
  qed
qed

lemma u64_of_bytes [simp]: "u64_of (u64_bytes w) = w"
proof (rule bit_word_eqI)
  fix n assume "n < LENGTH(64)"
  then have n: "n < 64" "n div 8 < 8" by (simp_all add: div_less_iff_less_mult)
  then show "bit (u64_of (u64_bytes w)) n = bit w n"
    by (simp add: n(2) u64_of_def bit_foldr_bytes u64_bytes_def bit_ucast_iff bit_drop_bit_eq)
qed

interpretation words: block_view u64_bytes u64_of 8 "\<lambda>_. True"
  by unfold_locales simp_all

interpretation zones: block_view u16_bytes u16_of 2 "\<lambda>_. True"
  by unfold_locales simp_all

section \<open>File names\<close>

text \<open>
  A \<^verbatim>\<open>&str\<close> is the list of its bytes, which are well-formed UTF-8.  \<open>utf8\<close> is that condition, the
  one \<^verbatim>\<open>core::str::from_utf8\<close> checks.
\<close>

definition cont :: "u8 \<Rightarrow> bool" where
  "cont b \<longleftrightarrow> 0x80 \<le> b \<and> b \<le> 0xBF"

fun utf8 :: "u8 list \<Rightarrow> bool" where
  "utf8 [] = True"
| "utf8 (a # bs) =
     (if a \<le> 0x7F then utf8 bs
      else if 0xC2 \<le> a \<and> a \<le> 0xDF then
        (case bs of b # rest \<Rightarrow> cont b \<and> utf8 rest | _ \<Rightarrow> False)
      else if 0xE0 \<le> a \<and> a \<le> 0xEF then
        (case bs of
           b # c # rest \<Rightarrow>
             cont b \<and> cont c \<and> (a = 0xE0 \<longrightarrow> 0xA0 \<le> b) \<and> (a = 0xED \<longrightarrow> b \<le> 0x9F) \<and> utf8 rest
         | _ \<Rightarrow> False)
      else if 0xF0 \<le> a \<and> a \<le> 0xF4 then
        (case bs of
           b # c # d # rest \<Rightarrow>
             cont b \<and> cont c \<and> cont d \<and> (a = 0xF0 \<longrightarrow> 0x90 \<le> b) \<and> (a = 0xF4 \<longrightarrow> b \<le> 0x8F)
             \<and> utf8 rest
         | _ \<Rightarrow> False)
      else False)"

section \<open>Inode modes\<close>

datatype InodeType = Regular | Directory | Fifo | BlockDevice | CharacterDevice

definition TYPE_MASK :: u16 where "TYPE_MASK = 0xF000"
definition FLAGS_MASK :: u16 where "FLAGS_MASK = 0x0FFF"

text \<open>\<open>InodeMode::file_type\<close>; unknown type bits are a panic.\<close>

definition file_type :: "u16 \<Rightarrow> InodeType option" where
  "file_type mode =
     (let t = mode AND TYPE_MASK in
      if t = 0x8000 then Some Regular
      else if t = 0x4000 then Some Directory
      else if t = 0x6000 then Some BlockDevice
      else if t = 0x2000 then Some CharacterDevice
      else if t = 0x1000 then Some Fifo
      else None)"

definition flags :: "u16 \<Rightarrow> u16" where
  "flags mode = mode AND FLAGS_MASK"

section \<open>Structures on disk\<close>

definition MINIX_NAME_LENGTH :: nat where "MINIX_NAME_LENGTH = 14"
definition MINIX_SUPER_MAGIC :: u16 where "MINIX_SUPER_MAGIC = 0x137F"
definition ROOT_INODE_NUMBER :: u16 where "ROOT_INODE_NUMBER = 1"
definition DIRECT_ZONE_COUNT :: nat where "DIRECT_ZONE_COUNT = 7"
definition INDIRECT_ZONE_INDEX :: nat where "INDIRECT_ZONE_INDEX = DIRECT_ZONE_COUNT"
definition DOUBLE_INDIRECT_ZONE_INDEX :: nat where
  "DOUBLE_INDIRECT_ZONE_INDEX = DIRECT_ZONE_COUNT + 1"
definition INODES_PER_BLOCK :: nat where "INODES_PER_BLOCK = BLOCK_SIZE div 32"
definition DIRECTORY_ENTRY_SIZE :: nat where "DIRECTORY_ENTRY_SIZE = 16"
definition DIRECTORY_ENTRIES_PER_BLOCK :: nat where
  "DIRECTORY_ENTRIES_PER_BLOCK = BLOCK_SIZE div DIRECTORY_ENTRY_SIZE"

lemmas layout_consts = BLOCK_SIZE_def MINIX_NAME_LENGTH_def DIRECT_ZONE_COUNT_def
  INDIRECT_ZONE_INDEX_def DOUBLE_INDIRECT_ZONE_INDEX_def INODES_PER_BLOCK_def
  DIRECTORY_ENTRY_SIZE_def DIRECTORY_ENTRIES_PER_BLOCK_def

record DiskSuperBlock =
  inode_count :: u16
  zone_count :: u16
  inode_bitmap_block_count :: u16
  zone_bitmap_block_count :: u16
  first_data_zone :: u16
  log_zone_size :: u16
  max_file_size :: u32
  magic :: u16

record DiskInode =
  mode :: u16
  user_id :: u16
  file_size :: u32
  modification_time :: u32
  group_id :: u8
  link_count :: u8
  direct_zones :: "u16 list"
  single_indirect_zone :: u16
  double_indirect_zone :: u16

record DiskDirectoryEntry =
  inode_number :: u16
  name_bytes :: "u8 list"

definition zeroed :: DiskInode where
  "zeroed = \<lparr>mode = 0, user_id = 0, file_size = 0, modification_time = 0, group_id = 0,
     link_count = 0, direct_zones = replicate DIRECT_ZONE_COUNT 0, single_indirect_zone = 0,
     double_indirect_zone = 0\<rparr>"

definition dirent_empty :: DiskDirectoryEntry where
  "dirent_empty = \<lparr>inode_number = 0, name_bytes = replicate MINIX_NAME_LENGTH 0\<rparr>"

definition dirent_new :: "u8 list \<Rightarrow> u16 \<Rightarrow> DiskDirectoryEntry outcome" where
  "dirent_new name inum =
     (if MINIX_NAME_LENGTH < length name then Panic
      else Ok \<lparr>inode_number = inum,
                name_bytes = name @ replicate (MINIX_NAME_LENGTH - length name) 0\<rparr>)"

definition dirent_name :: "DiskDirectoryEntry \<Rightarrow> u8 list outcome" where
  "dirent_name e =
     (let n = takeWhile (\<lambda>b. b \<noteq> 0) (name_bytes e) in if utf8 n then Ok n else Panic)"

text \<open>
  The byte images of the \<^verbatim>\<open>repr(C)\<close> structures on i386.  The compile-time assertions of the source
  fix their sizes: 20 bytes for the super block (two of them tail padding), 32 for an inode, 16 for a
  directory entry.
\<close>

definition super_block_of :: "u8 list \<Rightarrow> DiskSuperBlock" where
  "super_block_of bs =
     \<lparr>inode_count = u16_of (field 0 2 bs), zone_count = u16_of (field 2 2 bs),
      inode_bitmap_block_count = u16_of (field 4 2 bs),
      zone_bitmap_block_count = u16_of (field 6 2 bs),
      first_data_zone = u16_of (field 8 2 bs), log_zone_size = u16_of (field 10 2 bs),
      max_file_size = u32_of (field 12 4 bs), magic = u16_of (field 16 2 bs)\<rparr>"

definition super_block_bytes :: "DiskSuperBlock \<Rightarrow> u8 list" where
  "super_block_bytes sb =
     u16_bytes (inode_count sb) @ u16_bytes (zone_count sb)
     @ u16_bytes (inode_bitmap_block_count sb) @ u16_bytes (zone_bitmap_block_count sb)
     @ u16_bytes (first_data_zone sb) @ u16_bytes (log_zone_size sb)
     @ u32_bytes (max_file_size sb) @ u16_bytes (magic sb) @ [0, 0]"

definition disk_inode_bytes :: "DiskInode \<Rightarrow> u8 list" where
  "disk_inode_bytes d =
     u16_bytes (mode d) @ u16_bytes (user_id d) @ u32_bytes (file_size d)
     @ u32_bytes (modification_time d) @ [group_id d, link_count d]
     @ concat (map u16_bytes (direct_zones d))
     @ u16_bytes (single_indirect_zone d) @ u16_bytes (double_indirect_zone d)"

definition disk_inode_of :: "u8 list \<Rightarrow> DiskInode" where
  "disk_inode_of bs =
     \<lparr>mode = u16_of (field 0 2 bs), user_id = u16_of (field 2 2 bs),
      file_size = u32_of (field 4 4 bs), modification_time = u32_of (field 8 4 bs),
      group_id = bs ! 12, link_count = bs ! 13,
      direct_zones = map (\<lambda>i. u16_of (field (14 + 2 * i) 2 bs)) [0..<DIRECT_ZONE_COUNT],
      single_indirect_zone = u16_of (field 28 2 bs),
      double_indirect_zone = u16_of (field 30 2 bs)\<rparr>"

definition dirent_bytes :: "DiskDirectoryEntry \<Rightarrow> u8 list" where
  "dirent_bytes e = u16_bytes (inode_number e) @ name_bytes e"

definition dirent_of :: "u8 list \<Rightarrow> DiskDirectoryEntry" where
  "dirent_of bs = \<lparr>inode_number = u16_of (field 0 2 bs), name_bytes = field 2 14 bs\<rparr>"

lemma super_block_roundtrip: "super_block_of (super_block_bytes sb @ rest) = sb"
  by (simp add: super_block_of_def super_block_bytes_def)

definition disk_inode_ok :: "DiskInode \<Rightarrow> bool" where
  "disk_inode_ok d \<longleftrightarrow> length (direct_zones d) = DIRECT_ZONE_COUNT"

definition dirent_ok :: "DiskDirectoryEntry \<Rightarrow> bool" where
  "dirent_ok e \<longleftrightarrow> length (name_bytes e) = MINIX_NAME_LENGTH"

lemma length_7E:
  assumes "length xs = 7"
  obtains a b c d e f g where "xs = [a, b, c, d, e, f, g]"
  using assms by (auto simp: length_Suc_conv eval_nat_numeral)

lemma length_disk_inode_bytes: "disk_inode_ok d \<Longrightarrow> length (disk_inode_bytes d) = 32"
  unfolding disk_inode_ok_def disk_inode_bytes_def layout_consts by (elim length_7E) simp

lemma disk_inode_roundtrip:
  assumes "disk_inode_ok d"
  shows "disk_inode_of (disk_inode_bytes d) = d"
proof -
  obtain z0 z1 z2 z3 z4 z5 z6 where z: "direct_zones d = [z0, z1, z2, z3, z4, z5, z6]"
    using assms unfolding disk_inode_ok_def layout_consts by (elim length_7E)
  have hd: "disk_inode_bytes d ! 12 = group_id d" "disk_inode_bytes d ! 13 = link_count d"
    by (simp_all add: disk_inode_bytes_def nth_append)
  show ?thesis
    by (cases d) (use hd z in \<open>simp add: disk_inode_of_def disk_inode_bytes_def layout_consts
      upt_conv_Cons [of 0 7] upt_rec [of _ 7]\<close>)
qed

interpretation inodes: block_view disk_inode_bytes disk_inode_of 32 disk_inode_ok
  by unfold_locales
    (simp_all add: length_disk_inode_bytes disk_inode_roundtrip,
     simp add: disk_inode_ok_def disk_inode_of_def)

interpretation dirents: block_view dirent_bytes dirent_of DIRECTORY_ENTRY_SIZE dirent_ok
  by unfold_locales (simp_all add: dirent_ok_def dirent_bytes_def dirent_of_def layout_consts)

end
