(* ===== verification/Block_Store.thy ===== *)
theory Block_Store
  imports Fs_Layout
begin

text \<open>
  The block store the file system code sees through the buffer cache
  (\<open>kernel/src/fs/buffer.rs\<close>): one device's blocks as the cache presents them to its users.
  \<open>readable\<close> says for which blocks \<open>buffer::read\<close> returns a handle; for the others the device
  reports an error and it returns \<open>None\<close>.  Block numbers are natural numbers.
\<close>

record store =
  blocks :: "nat \<Rightarrow> u8 list"
  readable :: "nat \<Rightarrow> bool"

text \<open>\<open>BufferHandle::modify\<close> and \<open>BufferHandle::fill_zero\<close>, on the block's contents.\<close>

definition store_modify :: "nat \<Rightarrow> (u8 list \<Rightarrow> u8 list) \<Rightarrow> store \<Rightarrow> store" where
  "store_modify k f st = st\<lparr>blocks := (blocks st)(k := f (blocks st k))\<rparr>"

definition fill_zero :: "nat \<Rightarrow> store \<Rightarrow> store" where
  "fill_zero k st = st\<lparr>blocks := (blocks st)(k := replicate BLOCK_SIZE 0),
                        readable := (readable st)(k := True)\<rparr>"

definition store_ok :: "store \<Rightarrow> bool" where
  "store_ok st \<longleftrightarrow> (\<forall>k. length (blocks st k) = BLOCK_SIZE)"

lemma store_okD [simp]: "store_ok st \<Longrightarrow> length (blocks st k) = BLOCK_SIZE"
  by (simp add: store_ok_def)

lemma store_modify_simps [simp]:
  "blocks (store_modify k f st) j = (if j = k then f (blocks st k) else blocks st j)"
  "readable (store_modify k f st) = readable st"
  by (simp_all add: store_modify_def)

lemma fill_zero_simps [simp]:
  "blocks (fill_zero k st) j = (if j = k then replicate BLOCK_SIZE 0 else blocks st j)"
  "readable (fill_zero k st) j = (j = k \<or> readable st j)"
  by (simp_all add: fill_zero_def)

lemma store_ok_fill_zero [simp]: "store_ok st \<Longrightarrow> store_ok (fill_zero k st)"
  by (simp add: store_ok_def)

lemma store_ok_modify:
  "store_ok st \<Longrightarrow> length (f (blocks st k)) = BLOCK_SIZE \<Longrightarrow> store_ok (store_modify k f st)"
  by (simp add: store_ok_def)

end
