(* ===== verification/Fs_Bitmap.thy ===== *)
theory Fs_Bitmap
  imports Block_Store
begin

text \<open>
  Allocation bitmaps (\<open>kernel/src/fs/bitmap.rs\<close>).  The bits live in cached blocks, which are scanned
  as 64-bit words.  The lemmas show that the word-level code implements a finite set of identifiers
  with a least-free-first allocator.
\<close>

section \<open>The code\<close>

definition BITS_PER_BLOCK :: nat where "BITS_PER_BLOCK = BLOCK_SIZE * 8"
definition BITS_PER_WORD :: nat where "BITS_PER_WORD = 64"
definition WORDS_PER_BLOCK :: nat where "WORDS_PER_BLOCK = BITS_PER_BLOCK div BITS_PER_WORD"

lemmas bitmap_consts = BITS_PER_BLOCK_def BITS_PER_WORD_def WORDS_PER_BLOCK_def BLOCK_SIZE_def

record Bitmap =
  buffers :: "nat option list"
  base_id :: u32
  bit_count :: nat

definition split_word_index :: "nat \<Rightarrow> nat \<times> nat" where
  "split_word_index i = (i div WORDS_PER_BLOCK, i mod WORDS_PER_BLOCK)"

definition bitmap_buffer :: "Bitmap \<Rightarrow> nat \<Rightarrow> nat option" where
  "bitmap_buffer b slot = (if slot < length (buffers b) then buffers b ! slot else None)"

definition read_word :: "Bitmap \<Rightarrow> nat \<Rightarrow> (store, u64) op" where
  "read_word b i st =
     (let (slot, word) = split_word_index i in
      case bitmap_buffer b slot of
        Some k \<Rightarrow> (Ok (view_entry u64_of 8 (blocks st k) word), st)
      | None \<Rightarrow> (Panic, st))"

definition modify_word :: "Bitmap \<Rightarrow> nat \<Rightarrow> (u64 \<Rightarrow> u64) \<Rightarrow> (store, unit) op" where
  "modify_word b i f st =
     (let (slot, word) = split_word_index i in
      case bitmap_buffer b slot of
        Some k \<Rightarrow>
          (Ok (), store_modify k (\<lambda>bs. view_update u64_bytes 8 bs word (f (view_entry u64_of 8 bs word))) st)
      | None \<Rightarrow> (Panic, st))"

definition bitmap_new :: "nat \<Rightarrow> u32 \<Rightarrow> nat list \<Rightarrow> nat \<Rightarrow> (store, Bitmap) op" where
  "bitmap_new N base block_buffers bits st =
     (if N < length block_buffers then (Panic, st)
      else if length block_buffers * BITS_PER_BLOCK < bits then (Panic, st)
      else case block_buffers of
        [] \<Rightarrow> (Panic, st)
      | k # _ \<Rightarrow>
          (Ok \<lparr>buffers = map Some block_buffers @ replicate (N - length block_buffers) None,
               base_id = base, bit_count = bits\<rparr>,
           store_modify k (\<lambda>bs. view_update u64_bytes 8 bs 0 (view_entry u64_of 8 bs 0 OR 1)) st))"

text \<open>The library functions \<open>u64::trailing_zeros\<close> and \<open>u64::count_ones\<close>.\<close>

definition trailing_zeros :: "u64 \<Rightarrow> nat" where
  "trailing_zeros w = (case find (\<lambda>n. bit w n) [0..<64] of Some n \<Rightarrow> n | None \<Rightarrow> 64)"

definition count_ones :: "u64 \<Rightarrow> nat" where
  "count_ones w = length (filter (\<lambda>n. bit w n) [0..<64])"

fun alloc_scan :: "Bitmap \<Rightarrow> nat list \<Rightarrow> (store, u32 option) op" where
  "alloc_scan b [] st = (Ok None, st)"
| "alloc_scan b (word_index # rest) st =
     bind_op (read_word b word_index) (\<lambda>word.
       let free = NOT word in
       if free = 0 then alloc_scan b rest
       else
         let bit_in_word = trailing_zeros free;
             n = word_index * BITS_PER_WORD + bit_in_word
         in if bit_count b \<le> n then (\<lambda>s. (Ok None, s))
            else bind_op (modify_word b word_index (\<lambda>w. w OR push_bit bit_in_word 1))
              (\<lambda>_ s. (Ok (Some (base_id b + word_of_nat n)), s))) st"

definition div_ceil :: "nat \<Rightarrow> nat \<Rightarrow> nat" where
  "div_ceil a b = (a + b - 1) div b"

definition bitmap_alloc :: "Bitmap \<Rightarrow> (store, u32 option) op" where
  "bitmap_alloc b st = alloc_scan b [0..<div_ceil (bit_count b) BITS_PER_WORD] st"

definition bitmap_dealloc :: "Bitmap \<Rightarrow> u32 \<Rightarrow> (store, unit) op" where
  "bitmap_dealloc b ident st =
     (let n = unat (ident - base_id b) in
      if \<not> n < bit_count b then (Panic, st)
      else modify_word b (n div BITS_PER_WORD)
             (\<lambda>w. w AND NOT (push_bit (n mod BITS_PER_WORD) 1)) st)"

fun count_words :: "Bitmap \<Rightarrow> nat list \<Rightarrow> (store, nat) op" where
  "count_words b [] st = (Ok 0, st)"
| "count_words b (i # rest) st =
     bind_op (read_word b i) (\<lambda>w. bind_op (count_words b rest) (\<lambda>n s. (Ok (count_ones w + n), s))) st"

definition count_free :: "Bitmap \<Rightarrow> (store, nat) op" where
  "count_free b st =
     (let full_words = bit_count b div BITS_PER_WORD; remaining = bit_count b mod BITS_PER_WORD in
      bind_op (count_words b [0..<full_words]) (\<lambda>used_in_full.
        bind_op
          (if 0 < remaining then
             bind_op (read_word b full_words)
               (\<lambda>w s. (Ok (count_ones (w AND (push_bit remaining 1 - 1))), s))
           else (\<lambda>s. (Ok 0, s)))
          (\<lambda>used_in_tail s. (Ok (bit_count b - (used_in_full + used_in_tail)), s))) st)"

section \<open>Bits of a bitmap\<close>

definition bitmap_blocks :: "Bitmap \<Rightarrow> nat list" where
  "bitmap_blocks b = map the (takeWhile (\<lambda>x. x \<noteq> None) (buffers b))"

definition word_at :: "Bitmap \<Rightarrow> store \<Rightarrow> nat \<Rightarrow> u64" where
  "word_at b st i =
     view_entry u64_of 8 (blocks st (bitmap_blocks b ! (i div WORDS_PER_BLOCK))) (i mod WORDS_PER_BLOCK)"

definition bit_at :: "Bitmap \<Rightarrow> store \<Rightarrow> nat \<Rightarrow> bool" where
  "bit_at b st n = bit (word_at b st (n div BITS_PER_WORD)) (n mod BITS_PER_WORD)"

definition bitmap_ok :: "Bitmap \<Rightarrow> bool" where
  "bitmap_ok b \<longleftrightarrow> distinct (bitmap_blocks b)
     \<and> bit_count b \<le> length (bitmap_blocks b) * BITS_PER_BLOCK
     \<and> unat (base_id b) + bit_count b \<le> 2 ^ 32"

text \<open>The bits in use, as a set of positions.\<close>

definition used_bits :: "Bitmap \<Rightarrow> store \<Rightarrow> nat set" where
  "used_bits b st = {n. n < bit_count b \<and> bit_at b st n}"

lemma bitmap_buffer_loaded:
  assumes "slot < length (bitmap_blocks b)"
  shows "bitmap_buffer b slot = Some (bitmap_blocks b ! slot)"
proof -
  let ?t = "takeWhile (\<lambda>x. x \<noteq> None) (buffers b)"
  have s: "slot < length ?t" using assms by (simp add: bitmap_blocks_def)
  then have "buffers b ! slot = ?t ! slot" by (simp add: takeWhile_nth)
  moreover have "?t ! slot \<noteq> None" using s nth_mem [OF s] set_takeWhileD by fastforce
  moreover have "slot < length (buffers b)"
    using s length_takeWhile_le order_less_le_trans by blast
  ultimately show ?thesis using s by (simp add: bitmap_buffer_def bitmap_blocks_def)
qed

lemma word_in_block: "Suc (i mod WORDS_PER_BLOCK) * 8 \<le> BLOCK_SIZE"
  using mod_less_divisor [of 128 i] by (simp add: bitmap_consts)

lemma read_word_run:
  "i div WORDS_PER_BLOCK < length (bitmap_blocks b) \<Longrightarrow> read_word b i st = (Ok (word_at b st i), st)"
  by (simp add: read_word_def split_word_index_def word_at_def bitmap_buffer_loaded)

lemma modify_word_run:
  assumes ok: "bitmap_ok b" "store_ok st" and i: "i div WORDS_PER_BLOCK < length (bitmap_blocks b)"
  obtains st' where "modify_word b i f st = (Ok (), st')"
    and "\<And>j. j div WORDS_PER_BLOCK < length (bitmap_blocks b) \<Longrightarrow>
           word_at b st' j = (if j = i then f (word_at b st i) else word_at b st j)"
    and "store_ok st'" and "readable st' = readable st"
    and "\<And>k. k \<notin> set (bitmap_blocks b) \<Longrightarrow> blocks st' k = blocks st k"
proof -
  define k where "k = bitmap_blocks b ! (i div WORDS_PER_BLOCK)"
  let ?g = "\<lambda>bs. view_update u64_bytes 8 bs (i mod WORDS_PER_BLOCK)
    (f (view_entry u64_of 8 bs (i mod WORDS_PER_BLOCK)))"
  let ?st = "store_modify k ?g st"
  have run: "modify_word b i f st = (Ok (), ?st)"
    by (simp add: modify_word_def split_word_index_def bitmap_buffer_loaded [OF i] k_def)
  have len: "Suc (i mod WORDS_PER_BLOCK) * 8 \<le> length (blocks st k)"
    using ok(2) word_in_block by simp
  have words: "word_at b ?st j = (if j = i then f (word_at b st i) else word_at b st j)"
    if j: "j div WORDS_PER_BLOCK < length (bitmap_blocks b)" for j
  proof (cases "bitmap_blocks b ! (j div WORDS_PER_BLOCK) = k")
    case True
    then have d: "j div WORDS_PER_BLOCK = i div WORDS_PER_BLOCK"
      using ok(1) i j by (simp add: k_def bitmap_ok_def nth_eq_iff_index_eq)
    then have "j = i \<longleftrightarrow> j mod WORDS_PER_BLOCK = i mod WORDS_PER_BLOCK"
      by (metis div_mult_mod_eq)
    then show ?thesis
      unfolding word_at_def True k_def [symmetric]
      using words.entry_update [OF _ len] True d by (simp add: k_def)
  next
    case False
    then have "j \<noteq> i" by (auto simp: k_def)
    with False show ?thesis by (simp add: word_at_def)
  qed
  have "k \<in> set (bitmap_blocks b)" using i by (simp add: k_def)
  then have frame: "blocks ?st m = blocks st m" if "m \<notin> set (bitmap_blocks b)" for m
    using that by auto
  have "store_ok ?st"
    using ok(2) words.length_view_update [OF _ len] by (intro store_ok_modify) simp_all
  from that [OF run words this _ frame] show ?thesis by simp
qed

section \<open>The bitmap as a set\<close>

lemma bit_at_word:
  "k < 64 \<Longrightarrow> bit_at b st (i * BITS_PER_WORD + k) = bit (word_at b st i) k"
  by (simp add: bit_at_def BITS_PER_WORD_def)

lemma word_index_loaded:
  assumes "bitmap_ok b" "n < bit_count b"
  shows "n div BITS_PER_WORD div WORDS_PER_BLOCK < length (bitmap_blocks b)"
proof -
  have "n < length (bitmap_blocks b) * 8192"
    using assms by (simp add: bitmap_ok_def bitmap_consts)
  then have "n div 8192 < length (bitmap_blocks b)" by (simp add: div_less_iff_less_mult)
  then show ?thesis by (simp add: bitmap_consts flip: div_mult2_eq)
qed

lemma trailing_zeros_least:
  assumes "w \<noteq> 0"
  shows "trailing_zeros w < 64" "bit w (trailing_zeros w)"
    "\<And>k. k < trailing_zeros w \<Longrightarrow> \<not> bit w k"
proof -
  obtain n where n: "find (\<lambda>n. bit w n) [0..<64] = Some n"
  proof (cases "find (\<lambda>n. bit w n) [0..<64]")
    case None
    then have "\<not> bit w k" if "k < LENGTH(64)" for k
      using that unfolding find_None_iff by simp
    then have "w = 0" by (intro bit_word_eqI) simp
    with assms show ?thesis by simp
  qed
  then have t: "trailing_zeros w = n" by (simp add: trailing_zeros_def)
  from n obtain i where i: "i < length [0..<64]" "bit w ([0..<64] ! i)" "n = [0..<64] ! i"
    "\<And>j. j < i \<Longrightarrow> \<not> bit w ([0..<64] ! j)"
    unfolding find_Some_iff by blast
  then have "i = n" "i < 64" by simp_all
  then show "trailing_zeros w < 64" "bit w (trailing_zeros w)"
    unfolding t using i(2,3) by simp_all
  show "\<not> bit w k" if "k < trailing_zeros w" for k
    using i(4) [of k] that t \<open>i = n\<close> \<open>i < 64\<close> by simp
qed

text \<open>Setting or clearing one bit of a bitmap, through the word that holds it.\<close>

lemma modify_bit_run:
  assumes ok: "bitmap_ok b" "store_ok st" and n: "n < bit_count b"
    and f: "\<And>w k. k < 64 \<Longrightarrow> bit (f w) k = (if k = n mod BITS_PER_WORD then v else bit w k)"
  obtains st' where "modify_word b (n div BITS_PER_WORD) f st = (Ok (), st')"
    and "\<And>m. m < bit_count b \<Longrightarrow> bit_at b st' m = (if m = n then v else bit_at b st m)"
    and "store_ok st'" and "readable st' = readable st"
    and "\<And>k. k \<notin> set (bitmap_blocks b) \<Longrightarrow> blocks st' k = blocks st k"
proof -
  obtain st' where st': "modify_word b (n div BITS_PER_WORD) f st = (Ok (), st')"
    "\<And>j. j div WORDS_PER_BLOCK < length (bitmap_blocks b) \<Longrightarrow> word_at b st' j
       = (if j = n div BITS_PER_WORD then f (word_at b st (n div BITS_PER_WORD)) else word_at b st j)"
    "store_ok st'" "readable st' = readable st"
    "\<And>k. k \<notin> set (bitmap_blocks b) \<Longrightarrow> blocks st' k = blocks st k"
    by (rule modify_word_run [OF ok word_index_loaded [OF ok(1) n], of f]) (rule that)
  have "bit_at b st' m = (if m = n then v else bit_at b st m)" if m: "m < bit_count b" for m
  proof (cases "m div BITS_PER_WORD = n div BITS_PER_WORD")
    case True
    then have "m = n \<longleftrightarrow> m mod BITS_PER_WORD = n mod BITS_PER_WORD" by (metis div_mult_mod_eq)
    with True show ?thesis
      using st'(2) [OF word_index_loaded [OF ok(1) m]] f [of "m mod BITS_PER_WORD"]
      by (simp add: bit_at_def BITS_PER_WORD_def)
  next
    case False
    then show ?thesis
      using st'(2) [OF word_index_loaded [OF ok(1) m]] by (auto simp: bit_at_def)
  qed
  from that [OF st'(1) this st'(3-5)] show ?thesis .
qed

lemma used_bits_cong:
  assumes "bitmap_ok b" "\<And>k. k \<in> set (bitmap_blocks b) \<Longrightarrow> blocks st' k = blocks st k"
  shows "used_bits b st' = used_bits b st"
proof -
  have "bit_at b st' n = bit_at b st n" if "n < bit_count b" for n
    using assms(2) word_index_loaded [OF assms(1) that] by (simp add: bit_at_def word_at_def)
  then show ?thesis by (auto simp: used_bits_def)
qed

text \<open>
  The effect of an update on the set of used bits: the stores agree except for the bitmap's own
  blocks, and the used bits are the given set.
\<close>

definition bits_become :: "Bitmap \<Rightarrow> store \<Rightarrow> nat set \<Rightarrow> store \<Rightarrow> bool" where
  "bits_become b st U st' \<longleftrightarrow> used_bits b st' = U \<and> store_ok st' \<and> readable st' = readable st
     \<and> (\<forall>k. k \<notin> set (bitmap_blocks b) \<longrightarrow> blocks st' k = blocks st k)"

lemma used_bits_word:
  assumes "\<And>k. k < 64 \<Longrightarrow> i * BITS_PER_WORD + k < bit_count b \<Longrightarrow> bit (word_at b st i) k"
    and "\<forall>n < i * BITS_PER_WORD. n < bit_count b \<longrightarrow> n \<in> used_bits b st"
  shows "\<forall>n < Suc i * BITS_PER_WORD. n < bit_count b \<longrightarrow> n \<in> used_bits b st"
proof (intro allI impI)
  fix n assume n: "n < Suc i * BITS_PER_WORD" "n < bit_count b"
  show "n \<in> used_bits b st"
  proof (cases "n < i * BITS_PER_WORD")
    case True
    with n assms(2) show ?thesis by blast
  next
    case False
    then obtain k where k: "n = i * BITS_PER_WORD + k" by (metis le_Suc_ex not_less)
    with n(1) have "k < 64" by (simp add: BITS_PER_WORD_def)
    with assms(1) [of k] n(2) k show ?thesis by (simp add: used_bits_def bit_at_word)
  qed
qed

lemma set_bit_run:
  assumes ok: "bitmap_ok b" "store_ok st" and n: "i * BITS_PER_WORD + k < bit_count b" "k < 64"
  obtains st' where "modify_word b i (\<lambda>w. w OR push_bit k 1) st = (Ok (), st')"
    and "bits_become b st (insert (i * BITS_PER_WORD + k) (used_bits b st)) st'"
proof -
  let ?n = "i * BITS_PER_WORD + k"
  have i: "?n div BITS_PER_WORD = i" "?n mod BITS_PER_WORD = k"
    using n(2) by (simp_all add: BITS_PER_WORD_def)
  have f: "bit (w OR push_bit k 1) j = (if j = ?n mod BITS_PER_WORD then True else bit w j)"
    if "j < 64" for w :: u64 and j
    unfolding i(2) using that n(2) by (auto simp: bit_or_iff bit_exp_iff)
  obtain st' where st': "modify_word b i (\<lambda>w. w OR push_bit k 1) st = (Ok (), st')"
    "\<And>m. m < bit_count b \<Longrightarrow> bit_at b st' m = (if m = ?n then True else bit_at b st m)"
    "store_ok st'" "readable st' = readable st"
    "\<And>k. k \<notin> set (bitmap_blocks b) \<Longrightarrow> blocks st' k = blocks st k"
    by (rule modify_bit_run [OF ok n(1) f, unfolded i(1)], assumption) (rule that)
  moreover have "used_bits b st' = insert ?n (used_bits b st)"
    using st'(2) n(1) by (auto simp: used_bits_def split: if_splits)
  ultimately show ?thesis using that by (simp add: bits_become_def)
qed

lemma alloc_scan_spec:
  assumes ok: "bitmap_ok b" "store_ok st"
  shows "i \<le> t \<Longrightarrow> t = div_ceil (bit_count b) BITS_PER_WORD \<Longrightarrow>
    (\<forall>n < i * BITS_PER_WORD. n < bit_count b \<longrightarrow> n \<in> used_bits b st) \<Longrightarrow>
    (alloc_scan b [i..<t] st = (Ok None, st) \<and> used_bits b st = {..<bit_count b}) \<or>
    (\<exists>n st'. alloc_scan b [i..<t] st = (Ok (Some (base_id b + word_of_nat n)), st')
       \<and> n < bit_count b \<and> n \<notin> used_bits b st \<and> {..<n} \<subseteq> used_bits b st
       \<and> bits_become b st (insert n (used_bits b st)) st')"
proof (induction "t - i" arbitrary: i)
  case 0
  then have "bit_count b \<le> i * BITS_PER_WORD"
    by (auto simp: div_ceil_def BITS_PER_WORD_def)
  then have "used_bits b st = {..<bit_count b}"
    using 0 by (auto simp: used_bits_def)
  with 0 show ?case by simp
next
  case (Suc d)
  then have it: "i < t" by simp
  then have ibc: "i * BITS_PER_WORD < bit_count b"
    using Suc.prems(2) by (simp add: div_ceil_def BITS_PER_WORD_def)
  have load: "i div WORDS_PER_BLOCK < length (bitmap_blocks b)"
    using word_index_loaded [OF ok(1) ibc] by (simp add: BITS_PER_WORD_def)
  note rd = read_word_run [OF load, of st]
  have upt: "[i..<t] = i # [Suc i..<t]" using it by (simp add: upt_conv_Cons)
  define free where "free = NOT (word_at b st i)"
  have bits: "bit free k \<longleftrightarrow> \<not> bit (word_at b st i) k" if "k < 64" for k
    using that by (simp add: free_def bit_not_iff)
  show ?case
  proof (cases "free = 0")
    case True
    then have "bit (word_at b st i) k" if "k < 64" for k using bits [OF that] by simp
    then have "\<forall>n < Suc i * BITS_PER_WORD. n < bit_count b \<longrightarrow> n \<in> used_bits b st"
      using used_bits_word Suc.prems(3) by blast
    moreover have "alloc_scan b [i..<t] st = alloc_scan b [Suc i..<t] st"
      using True by (simp add: upt rd free_def)
    ultimately show ?thesis using Suc.hyps Suc.prems(2) it by simp
  next
    case False
    define k where "k = trailing_zeros free"
    note tz = trailing_zeros_least [OF False, folded k_def]
    let ?n = "i * BITS_PER_WORD + k"
    have below: "m \<in> used_bits b st" if m: "m < ?n" "m < bit_count b" for m
    proof (cases "m < i * BITS_PER_WORD")
      case True
      with m(2) Suc.prems(3) show ?thesis by blast
    next
      case False
      then obtain j where j: "m = i * BITS_PER_WORD + j" by (metis le_Suc_ex not_less)
      with m(1) have "j < k" by simp
      with tz(1,3) bits [of j] j m(2) show ?thesis by (simp add: used_bits_def bit_at_word)
    qed
    show ?thesis
    proof (cases "bit_count b \<le> ?n")
      case True
      then have "used_bits b st = {..<bit_count b}"
        using below by (auto simp: used_bits_def)
      moreover have "alloc_scan b [i..<t] st = (Ok None, st)"
        using False True by (simp add: upt rd free_def [symmetric] k_def Let_def)
      ultimately show ?thesis by blast
    next
      case in_range: False
      then have n: "?n < bit_count b" by simp
      obtain st' where st': "modify_word b i (\<lambda>w. w OR push_bit k 1) st = (Ok (), st')"
        "bits_become b st (insert ?n (used_bits b st)) st'"
        by (rule set_bit_run [OF ok n tz(1)]) (rule that)
      have "alloc_scan b [i..<t] st = (Ok (Some (base_id b + word_of_nat ?n)), st')"
        using False in_range st'(1) by (simp add: upt rd free_def [symmetric] k_def Let_def)
      moreover have "?n \<notin> used_bits b st"
        using tz(1,2) bits [OF tz(1)] by (simp add: used_bits_def bit_at_word)
      ultimately show ?thesis using n below st'(2) by (auto intro!: exI [of _ ?n])
    qed
  qed
qed

lemma bitmap_alloc_spec:
  assumes "bitmap_ok b" "store_ok st"
  shows "(bitmap_alloc b st = (Ok None, st) \<and> used_bits b st = {..<bit_count b}) \<or>
    (\<exists>n st'. bitmap_alloc b st = (Ok (Some (base_id b + word_of_nat n)), st')
       \<and> n < bit_count b \<and> n \<notin> used_bits b st \<and> {..<n} \<subseteq> used_bits b st
       \<and> bits_become b st (insert n (used_bits b st)) st')"
  using alloc_scan_spec [OF assms, of 0 "div_ceil (bit_count b) BITS_PER_WORD"]
  by (simp add: bitmap_alloc_def)

lemma bitmap_dealloc_spec:
  assumes ok: "bitmap_ok b" "store_ok st" and n: "n < bit_count b"
  obtains st' where "bitmap_dealloc b (base_id b + word_of_nat n) st = (Ok (), st')"
    and "bits_become b st (used_bits b st - {n}) st'"
proof -
  let ?f = "\<lambda>w :: u64. w AND NOT (push_bit (n mod BITS_PER_WORD) 1)"
  have f: "bit (?f w) j = (if j = n mod BITS_PER_WORD then False else bit w j)"
    if "j < 64" for w :: u64 and j
    using that by (auto simp: bit_and_iff bit_not_iff bit_exp_iff)
  obtain st' where st': "modify_word b (n div BITS_PER_WORD) ?f st = (Ok (), st')"
    "\<And>m. m < bit_count b \<Longrightarrow> bit_at b st' m = (if m = n then False else bit_at b st m)"
    "store_ok st'" "readable st' = readable st"
    "\<And>k. k \<notin> set (bitmap_blocks b) \<Longrightarrow> blocks st' k = blocks st k"
    by (rule modify_bit_run [OF ok n f], assumption) (rule that)
  have "used_bits b st' = used_bits b st - {n}"
    using st'(2) by (auto simp: used_bits_def split: if_splits)
  moreover have "unat (word_of_nat n :: u32) = n"
    using n ok(1) by (intro unat_word_of_nat) (simp add: bitmap_ok_def)
  ultimately show ?thesis
    using that st' n by (simp add: bitmap_dealloc_def bits_become_def)
qed

lemma count_ones_card: "count_ones w = card {k. k < 64 \<and> bit w k}"
proof -
  have "count_ones w = card (set (filter (\<lambda>n. bit w n) [0..<64]))"
    unfolding count_ones_def by (rule distinct_card [symmetric]) simp
  then show ?thesis by (simp add: atLeast0LessThan [symmetric] conj_commute)
qed

lemma count_words_run:
  assumes "\<forall>i\<in>set xs. i div WORDS_PER_BLOCK < length (bitmap_blocks b)"
  shows "count_words b xs st = (Ok (\<Sum>i\<leftarrow>xs. count_ones (word_at b st i)), st)"
  using assms by (induction xs) (simp_all add: read_word_run)

lemma bits_upto_word:
  assumes "r \<le> 64"
  shows "card {n. n < m * BITS_PER_WORD + r \<and> bit_at b st n}
    = card {n. n < m * BITS_PER_WORD \<and> bit_at b st n} + card {k. k < r \<and> bit (word_at b st m) k}"
proof -
  let ?B = "{k. k < r \<and> bit (word_at b st m) k}"
  have "{n. n < m * BITS_PER_WORD + r \<and> bit_at b st n}
      = {n. n < m * BITS_PER_WORD \<and> bit_at b st n} \<union> (\<lambda>k. m * BITS_PER_WORD + k) ` ?B"
  proof (intro set_eqI iffI)
    fix n assume n: "n \<in> {n. n < m * BITS_PER_WORD + r \<and> bit_at b st n}"
    show "n \<in> {n. n < m * BITS_PER_WORD \<and> bit_at b st n} \<union> (\<lambda>k. m * BITS_PER_WORD + k) ` ?B"
    proof (cases "n < m * BITS_PER_WORD")
      case False
      then obtain k where k: "n = m * BITS_PER_WORD + k" by (metis le_Suc_ex not_less)
      with n assms have "k \<in> ?B" by (auto simp: bit_at_word)
      with k show ?thesis by blast
    qed (use n in simp)
  qed (use assms in \<open>auto simp: bit_at_word\<close>)
  moreover have "card ((\<lambda>k. m * BITS_PER_WORD + k) ` ?B) = card ?B"
    by (intro card_image inj_onI) simp
  moreover have "{n. n < m * BITS_PER_WORD \<and> bit_at b st n} \<inter> (\<lambda>k. m * BITS_PER_WORD + k) ` ?B = {}"
    by auto
  ultimately show ?thesis by (simp add: card_Un_disjoint)
qed

lemma count_full_words:
  "(\<Sum>i\<leftarrow>[0..<m]. count_ones (word_at b st i)) = card {n. n < m * BITS_PER_WORD \<and> bit_at b st n}"
proof (induction m)
  case 0
  then show ?case by simp
next
  case (Suc m)
  then show ?case
    using bits_upto_word [of 64 m b st]
    by (simp add: count_ones_card BITS_PER_WORD_def add.commute)
qed

lemma count_ones_mask:
  assumes "r < 64"
  shows "count_ones (w AND (push_bit r 1 - 1)) = card {k. k < r \<and> bit w k}"
proof -
  have "push_bit r 1 - 1 = (mask r :: u64)" by (simp add: mask_eq_exp_minus_1)
  then have "{k. k < 64 \<and> bit (w AND (push_bit r 1 - 1)) k} = {k. k < r \<and> bit w k}"
    using assms by (auto simp: bit_and_iff bit_mask_iff)
  then show ?thesis by (simp only: count_ones_card)
qed

lemma count_free_spec:
  assumes ok: "bitmap_ok b"
  shows "count_free b st = (Ok (card ({..<bit_count b} - used_bits b st)), st)"
proof -
  let ?m = "bit_count b div BITS_PER_WORD" and ?r = "bit_count b mod BITS_PER_WORD"
  have r: "?r < 64" by (simp add: BITS_PER_WORD_def)
  have bc: "bit_count b = ?m * BITS_PER_WORD + ?r" by simp
  have full: "\<forall>i\<in>set [0..<?m]. i div WORDS_PER_BLOCK < length (bitmap_blocks b)"
  proof
    fix i assume "i \<in> set [0..<?m]"
    then have "i * BITS_PER_WORD < bit_count b"
      by (simp add: BITS_PER_WORD_def less_mult_imp_div_less)
    from word_index_loaded [OF ok this]
    show "i div WORDS_PER_BLOCK < length (bitmap_blocks b)" by (simp add: BITS_PER_WORD_def)
  qed
  have tail: "?m div WORDS_PER_BLOCK < length (bitmap_blocks b)" if "0 < ?r"
  proof -
    have "?m * BITS_PER_WORD < bit_count b" using that bc by linarith
    from word_index_loaded [OF ok this] show ?thesis by (simp add: BITS_PER_WORD_def)
  qed
  have "used_bits b st = {n. n < ?m * BITS_PER_WORD + ?r \<and> bit_at b st n}"
    unfolding used_bits_def using bc by simp
  then have used: "card (used_bits b st)
      = (\<Sum>i\<leftarrow>[0..<?m]. count_ones (word_at b st i))
        + (if 0 < ?r then count_ones (word_at b st ?m AND (push_bit ?r 1 - 1)) else 0)"
    using bits_upto_word [of ?r ?m b st] r count_ones_mask [OF r, of "word_at b st ?m"]
    unfolding count_full_words by simp
  have "card ({..<bit_count b} - used_bits b st) = bit_count b - card (used_bits b st)"
    by (subst card_Diff_subset) (auto simp: used_bits_def intro: finite_subset [of _ "{..<bit_count b}"])
  moreover have "count_free b st = (Ok (bit_count b - card (used_bits b st)), st)"
    unfolding used count_free_def Let_def
    using count_words_run [OF full, of st] read_word_run [OF tail, of st] by simp
  ultimately show ?thesis by simp
qed

end
