(* ===== verification/Minix_File.thy ===== *)
theory Minix_File
  imports Fs_Bitmap
begin

text \<open>
  Files of the Minix file system (\<open>kernel/src/fs/minix.rs\<close>): the zone allocator, the mapping of a
  file's logical blocks to device zones through direct, indirect and double-indirect pointers,
  reading, writing and truncating.

  The state of an operation is the inode it runs on together with what the code reaches through it:
  the blocks of the device, the mounted file system (\<open>None\<close> when the weak reference to it can no
  longer be upgraded) and the current time.  The zone pointers of a file form a tree whose nodes are
  named by the datatype \<open>node\<close>; allocating a zone anywhere in the tree is a function update of
  \<open>zone_of\<close>, and the lemmas are about that function.
\<close>

section \<open>Runtime objects\<close>

record MinixFileSystem =
  device :: u16
  super_block :: DiskSuperBlock
  inode_bitmap :: Bitmap
  zone_bitmap :: Bitmap

record InodeInner =
  disk_inode :: DiskInode
  is_dirty :: bool
  access_time :: u32
  change_time :: u32

record inode_state =
  disk :: store
  file_system :: "MinixFileSystem option"
  current_time :: u32
  inner :: InodeInner

definition mark_dirty :: "InodeInner \<Rightarrow> InodeInner" where
  "mark_dirty i = i\<lparr>is_dirty := True\<rparr>"

definition touch_access :: "u32 \<Rightarrow> InodeInner \<Rightarrow> InodeInner" where
  "touch_access t i = mark_dirty (i\<lparr>access_time := t\<rparr>)"

definition touch_change :: "u32 \<Rightarrow> InodeInner \<Rightarrow> InodeInner" where
  "touch_change t i = mark_dirty (i\<lparr>change_time := t\<rparr>)"

definition touch_modified :: "u32 \<Rightarrow> InodeInner \<Rightarrow> InodeInner" where
  "touch_modified t i =
     mark_dirty (i\<lparr>disk_inode := (disk_inode i)\<lparr>modification_time := t\<rparr>, change_time := t\<rparr>)"

definition touch_created :: "u32 \<Rightarrow> InodeInner \<Rightarrow> InodeInner" where
  "touch_created t i =
     mark_dirty (i\<lparr>disk_inode := (disk_inode i)\<lparr>modification_time := t\<rparr>, access_time := t,
       change_time := t\<rparr>)"

definition set_access_and_modified :: "u32 \<Rightarrow> u32 \<Rightarrow> u32 \<Rightarrow> InodeInner \<Rightarrow> InodeInner" where
  "set_access_and_modified at mt t i =
     touch_change t (i\<lparr>access_time := at, disk_inode := (disk_inode i)\<lparr>modification_time := mt\<rparr>\<rparr>)"

section \<open>Zones\<close>

definition alloc_zone :: "MinixFileSystem \<Rightarrow> (store, u16 option) op" where
  "alloc_zone f st =
     bind_op (bitmap_alloc (zone_bitmap f)) (\<lambda>r s.
       case r of
         None \<Rightarrow> (Ok None, s)
       | Some x \<Rightarrow> let zone = ucast x in (Ok (Some zone), fill_zero (unat (zone :: u16)) s)) st"

definition free_zone :: "MinixFileSystem \<Rightarrow> u16 \<Rightarrow> (store, unit) op" where
  "free_zone f zone st =
     (if zone \<noteq> 0 then bitmap_dealloc (zone_bitmap f) (ucast zone) st else (Ok (), st))"

section \<open>Mapping a logical block\<close>

definition INDIRECT_ENTRIES_PER_BLOCK :: nat where
  "INDIRECT_ENTRIES_PER_BLOCK = BLOCK_SIZE div 2"

definition MAX_LOGICAL_BLOCKS :: nat where
  "MAX_LOGICAL_BLOCKS = DIRECT_ZONE_COUNT + INDIRECT_ENTRIES_PER_BLOCK
     + INDIRECT_ENTRIES_PER_BLOCK * INDIRECT_ENTRIES_PER_BLOCK"

lemmas file_consts = INDIRECT_ENTRIES_PER_BLOCK_def MAX_LOGICAL_BLOCKS_def layout_consts

definition lift_store :: "(store, 'a) op \<Rightarrow> (inode_state, 'a) op" where
  "lift_store m s = (case m (disk s) of (r, st) \<Rightarrow> (r, s\<lparr>disk := st\<rparr>))"

definition set_inode :: "(InodeInner \<Rightarrow> InodeInner) \<Rightarrow> inode_state \<Rightarrow> inode_state" where
  "set_inode g s = s\<lparr>inner := g (inner s)\<rparr>"

definition set_disk_inode :: "(DiskInode \<Rightarrow> DiskInode) \<Rightarrow> inode_state \<Rightarrow> inode_state" where
  "set_disk_inode g s = s\<lparr>inner := (inner s)\<lparr>disk_inode := g (disk_inode (inner s))\<rparr>\<rparr>"

text \<open>The closure \<open>try_alloc\<close> of \<open>map_block_id\<close>.\<close>

definition try_alloc :: "MinixFileSystem \<Rightarrow> bool \<Rightarrow> u16 \<Rightarrow> (inode_state, u16 \<times> bool) op" where
  "try_alloc f create current s =
     (if current = 0 \<and> create then
        bind_op (lift_store (alloc_zone f)) (\<lambda>r s'.
          let zone = (case r of Some z \<Rightarrow> z | None \<Rightarrow> 0) in (Ok (zone, zone \<noteq> 0), s')) s
      else (Ok (current, False), s))"

text \<open>The closure \<open>resolve_indirect_entry\<close> of \<open>map_block_id\<close>.\<close>

definition resolve_indirect_entry ::
  "MinixFileSystem \<Rightarrow> bool \<Rightarrow> u16 \<Rightarrow> nat \<Rightarrow> (inode_state, u16) op" where
  "resolve_indirect_entry f create block_number index s =
     (if block_number = 0 then (Ok 0, s)
      else if \<not> readable (disk s) (unat block_number) then (Err Errno_IO, s)
      else
        let zone = view_entry u16_of 2 (blocks (disk s) (unat block_number)) index in
        if zone = 0 \<and> create then
          bind_op (lift_store (alloc_zone f)) (\<lambda>r s'.
            case r of
              Some new_zone \<Rightarrow>
                (Ok new_zone, s'\<lparr>disk := store_modify (unat block_number)
                   (\<lambda>bs. view_update u16_bytes 2 bs index new_zone) (disk s')\<rparr>)
            | None \<Rightarrow> (Ok 0, s')) s
        else (Ok zone, s))"

definition map_block_id :: "nat \<Rightarrow> bool \<Rightarrow> (inode_state, u32) op" where
  "map_block_id logic_id create s =
     (if MAX_LOGICAL_BLOCKS \<le> logic_id then (Err Errno_FBIG, s)
      else case file_system s of
        None \<Rightarrow> (Err Errno_IO, s)
      | Some f \<Rightarrow>
          bind_op
            (if logic_id < DIRECT_ZONE_COUNT then
               bind_op (try_alloc f create (direct_zones (disk_inode (inner s)) ! logic_id))
                 (\<lambda>(zone, allocated) s.
                   (Ok zone,
                    if allocated then
                      set_inode (touch_change (current_time s))
                        (set_disk_inode (\<lambda>d. d\<lparr>direct_zones := (direct_zones d)[logic_id := zone]\<rparr>) s)
                    else s))
             else if logic_id < INDIRECT_ZONE_INDEX + INDIRECT_ENTRIES_PER_BLOCK then
               bind_op (try_alloc f create (single_indirect_zone (disk_inode (inner s))))
                 (\<lambda>(root_zone, allocated) s.
                   resolve_indirect_entry f create root_zone (logic_id - INDIRECT_ZONE_INDEX)
                     (if allocated then
                        set_inode (touch_change (current_time s))
                          (set_disk_inode (\<lambda>d. d\<lparr>single_indirect_zone := root_zone\<rparr>) s)
                      else s))
             else
               bind_op (try_alloc f create (double_indirect_zone (disk_inode (inner s))))
                 (\<lambda>(root_zone, allocated) s.
                   let block = logic_id - (DOUBLE_INDIRECT_ZONE_INDEX + INDIRECT_ENTRIES_PER_BLOCK - 1);
                       outer_index = block div INDIRECT_ENTRIES_PER_BLOCK;
                       inner_index = block mod INDIRECT_ENTRIES_PER_BLOCK
                   in bind_op (resolve_indirect_entry f create root_zone outer_index)
                        (\<lambda>second. resolve_indirect_entry f create second inner_index)
                        (if allocated then
                           set_inode (touch_change (current_time s))
                             (set_disk_inode (\<lambda>d. d\<lparr>double_indirect_zone := root_zone\<rparr>) s)
                         else s)))
            (\<lambda>block_id s. (Ok (ucast block_id), s)) s)"

section \<open>Reading\<close>

text \<open>
  The loop of \<open>read_at\<close>.  \<open>got\<close> are the bytes stored into the caller's buffer so far, and the
  result is what the buffer holds when the function returns \<open>Ok\<close> with its length; the flag says
  whether the loop ran to its end (the access time is only updated then).
\<close>

function read_loop :: "nat \<Rightarrow> u8 list \<Rightarrow> nat \<Rightarrow> (inode_state, u8 list \<times> bool) op" where
  "read_loop pos got left s =
     (if left = 0 then (Ok (got, True), s)
      else
        let logical_block = pos div BLOCK_SIZE;
            block_offset = pos mod BLOCK_SIZE;
            chunk_len = min left (BLOCK_SIZE - block_offset)
        in case map_block_id logical_block False s of
             (Ok block_id, s') \<Rightarrow>
               if block_id = 0 then
                 read_loop (pos + chunk_len) (got @ replicate chunk_len 0) (left - chunk_len) s'
               else if \<not> readable (disk s') (unat block_id) then
                 (if got \<noteq> [] then (Ok (got, False), s') else (Err Errno_IO, s'))
               else
                 read_loop (pos + chunk_len)
                   (got @ take chunk_len (drop block_offset (blocks (disk s') (unat block_id))))
                   (left - chunk_len) s'
           | (Err e, s') \<Rightarrow> (Err e, s')
           | (Panic, s') \<Rightarrow> (Panic, s'))"
  by pat_completeness auto
termination
  by (relation "measure (\<lambda>(pos, got, left, s). left)")
    (auto simp: BLOCK_SIZE_def)

declare read_loop.simps [simp del]

definition read_at :: "nat \<Rightarrow> nat \<Rightarrow> (inode_state, u8 list) op" where
  "read_at offset buf_len s =
     (if buf_len = 0 then (Ok [], s)
      else
        let sz = unat (file_size (disk_inode (inner s))) in
        if sz \<le> offset then (Ok [], s)
        else bind_op (read_loop offset [] (min buf_len (sz - offset)))
               (\<lambda>(got, finished) s.
                 (Ok got, if finished then set_inode (touch_access (current_time s)) s else s)) s)"

section \<open>Writing\<close>

text \<open>
  The loop of \<open>write_at\<close> returns how it ended with the position reached; \<open>rest\<close> is what is left of
  the caller's buffer.
\<close>

function write_loop :: "nat \<Rightarrow> u8 list \<Rightarrow> inode_state \<Rightarrow> unit outcome \<times> nat \<times> inode_state" where
  "write_loop pos rest s =
     (if rest = [] then (Ok (), pos, s)
      else
        let logical_block = pos div BLOCK_SIZE;
            block_offset = pos mod BLOCK_SIZE;
            chunk_len = min (length rest) (BLOCK_SIZE - block_offset)
        in case map_block_id logical_block True s of
             (Ok block_id, s') \<Rightarrow>
               if block_id = 0 then (Err Errno_ERROR, pos, s')
               else if \<not> readable (disk s') (unat block_id) then (Err Errno_ERROR, pos, s')
               else
                 write_loop (pos + chunk_len) (drop chunk_len rest)
                   (s'\<lparr>disk := store_modify (unat block_id)
                      (\<lambda>bs. take block_offset bs @ take chunk_len rest
                            @ drop (block_offset + chunk_len) bs) (disk s')\<rparr>)
           | (Err e, s') \<Rightarrow> (Err e, pos, s')
           | (Panic, s') \<Rightarrow> (Panic, pos, s'))"
  by pat_completeness auto
termination
  by (relation "measure (\<lambda>(pos, rest, s). length rest)")
    (auto simp: BLOCK_SIZE_def)

declare write_loop.simps [simp del]

text \<open>The end of \<open>write_at\<close>: the size follows the position reached, and the times are set.\<close>

definition finish_write :: "nat \<Rightarrow> inode_state \<Rightarrow> inode_state" where
  "finish_write pos s =
     set_inode (touch_modified (current_time s))
       (if unat (file_size (disk_inode (inner s))) < pos
        then set_disk_inode (\<lambda>d. d\<lparr>file_size := word_of_nat pos\<rparr>) s else s)"

definition write_at :: "nat \<Rightarrow> u8 list \<Rightarrow> (inode_state, nat) op" where
  "write_at offset buf s =
     (if buf = [] then (Ok 0, s)
      else case write_loop offset buf s of
        (Panic, pos, s1) \<Rightarrow> (Panic, s1)
      | (Err e, pos, s1) \<Rightarrow>
          let written = pos - offset in
          (if written = 0 then Err e else Ok written, finish_write pos s1)
      | (Ok _, pos, s1) \<Rightarrow> (Ok (pos - offset), finish_write pos s1))"

section \<open>Truncating\<close>

fun free_zone_tree :: "MinixFileSystem \<Rightarrow> u16 \<Rightarrow> nat \<Rightarrow> (store, unit) op" where
  "free_zone_tree f zone 0 st = (if zone = 0 then (Ok (), st) else free_zone f zone st)"
| "free_zone_tree f zone (Suc levels) st =
     (if zone = 0 then (Ok (), st)
      else
        bind_op
          (if readable st (unat zone) then
             for_op (\<lambda>child. free_zone_tree f child levels)
               (map (view_entry u16_of 2 (blocks st (unat zone))) [0..<INDIRECT_ENTRIES_PER_BLOCK])
           else (\<lambda>s. (Ok (), s)))
          (\<lambda>_. free_zone f zone) st)"

definition truncate :: "(inode_state, unit) op" where
  "truncate s =
     (case file_system s of
        None \<Rightarrow> (Ok (), s)
      | Some f \<Rightarrow>
          let d = disk_inode (inner s) in
          case file_type (mode d) of
            None \<Rightarrow> (Panic, s)
          | Some t \<Rightarrow>
              if t \<noteq> Regular \<and> t \<noteq> Directory then (Ok (), s)
              else
                bind_op (lift_store (for_op (free_zone f) (direct_zones d))) (\<lambda>_.
                bind_op (lift_store (free_zone_tree f (single_indirect_zone d) 1)) (\<lambda>_.
                bind_op (lift_store (free_zone_tree f (double_indirect_zone d) 2)) (\<lambda>_ s.
                  (Ok (), set_inode (touch_modified (current_time s))
                    (set_disk_inode (\<lambda>d. d\<lparr>direct_zones := replicate DIRECT_ZONE_COUNT 0,
                       single_indirect_zone := 0, double_indirect_zone := 0, file_size := 0\<rparr>) s)))))
                s)"

end
