(* ===== verification/Minix_Zones.thy ===== *)
theory Minix_Zones
  imports Minix_File
begin

text \<open>
  The zone tree of a file: what a mounted file system's zone bitmap promises, the function
  \<open>zone_of\<close> from the nodes of the tree to zones, the invariant that no zone is used twice, and the
  proof that mapping a block keeps it and changes nothing a reader can see.
\<close>

section \<open>The zone allocator\<close>

definition fs_ok :: "MinixFileSystem \<Rightarrow> bool" where
  "fs_ok f \<longleftrightarrow> bitmap_ok (zone_bitmap f)
     \<and> unat (base_id (zone_bitmap f)) + bit_count (zone_bitmap f) \<le> 65536
     \<and> (\<forall>k\<in>set (bitmap_blocks (zone_bitmap f)). k \<le> unat (base_id (zone_bitmap f)))"

definition zone_used :: "MinixFileSystem \<Rightarrow> store \<Rightarrow> u16 \<Rightarrow> bool" where
  "zone_used f st z \<longleftrightarrow> (\<exists>n. 0 < n \<and> n \<in> used_bits (zone_bitmap f) st
     \<and> unat z = unat (base_id (zone_bitmap f)) + n)"

definition disk_ok :: "MinixFileSystem \<Rightarrow> store \<Rightarrow> bool" where
  "disk_ok f st \<longleftrightarrow> store_ok st \<and> 0 \<in> used_bits (zone_bitmap f) st"

definition zones_full :: "MinixFileSystem \<Rightarrow> store \<Rightarrow> bool" where
  "zones_full f st \<longleftrightarrow> used_bits (zone_bitmap f) st = {..<bit_count (zone_bitmap f)}"

lemma zone_used_block:
  assumes "fs_ok f" "zone_used f st z"
  shows "unat z \<notin> set (bitmap_blocks (zone_bitmap f))" "z \<noteq> 0"
  using assms by (fastforce simp: fs_ok_def zone_used_def)+

lemma zone_word:
  assumes "fs_ok f" "n < bit_count (zone_bitmap f)"
  shows "unat (base_id (zone_bitmap f) + word_of_nat n) = unat (base_id (zone_bitmap f)) + n"
    "unat (ucast (base_id (zone_bitmap f) + word_of_nat n :: u32) :: u16)
       = unat (base_id (zone_bitmap f)) + n"
proof -
  let ?b = "base_id (zone_bitmap f)"
  have small: "unat ?b + n < 65536" using assms by (simp add: fs_ok_def)
  have n: "unat (word_of_nat n :: u32) = n" using small by (intro unat_word_of_nat) simp
  with small show *: "unat (?b + word_of_nat n) = unat ?b + n"
    by (subst unat_add_lem [THEN iffD1]) simp_all
  with small show "unat (ucast (?b + word_of_nat n :: u32) :: u16) = unat ?b + n"
    by (simp add: unsigned_ucast_eq take_bit_eq_mod)
qed

text \<open>The effect of allocating zone \<open>z\<close>: it is free before, used after, and its block is zeroed.\<close>

definition fresh_zone :: "MinixFileSystem \<Rightarrow> store \<Rightarrow> u16 \<Rightarrow> store \<Rightarrow> bool" where
  "fresh_zone f st z st' \<longleftrightarrow> z \<noteq> 0 \<and> \<not> zone_used f st z
     \<and> (\<forall>y. zone_used f st' y \<longleftrightarrow> y = z \<or> zone_used f st y) \<and> disk_ok f st'
     \<and> blocks st' (unat z) = replicate BLOCK_SIZE 0
     \<and> unat z \<notin> set (bitmap_blocks (zone_bitmap f))
     \<and> (\<forall>k. k \<notin> set (bitmap_blocks (zone_bitmap f)) \<longrightarrow> k \<noteq> unat z \<longrightarrow> blocks st' k = blocks st k)
     \<and> (\<forall>k. readable st' k \<longleftrightarrow> k = unat z \<or> readable st k)"

lemma alloc_zone_spec:
  assumes f: "fs_ok f" and d: "disk_ok f st"
  shows "(alloc_zone f st = (Ok None, st) \<and> zones_full f st) \<or>
    (\<exists>z st'. alloc_zone f st = (Ok (Some z), st') \<and> fresh_zone f st z st')"
proof -
  let ?b = "zone_bitmap f"
  have ok: "bitmap_ok ?b" "store_ok st" using f d by (simp_all add: fs_ok_def disk_ok_def)
  from bitmap_alloc_spec [OF ok] show ?thesis
  proof (elim disjE exE conjE)
    assume "bitmap_alloc ?b st = (Ok None, st)" "used_bits ?b st = {..<bit_count ?b}"
    then show ?thesis by (simp add: alloc_zone_def zones_full_def)
  next
    fix n st1
    assume a: "bitmap_alloc ?b st = (Ok (Some (base_id ?b + word_of_nat n)), st1)"
      "n < bit_count ?b" "n \<notin> used_bits ?b st"
      "bits_become ?b st (insert n (used_bits ?b st)) st1"
    define z where "z = (ucast (base_id ?b + word_of_nat n :: u32) :: u16)"
    have z: "unat z = unat (base_id ?b) + n" unfolding z_def by (rule zone_word(2) [OF f a(2)])
    have n0: "0 < n" using a(3) d by (metis disk_ok_def gr0I)
    have zb: "unat z \<notin> set (bitmap_blocks ?b)" using f n0 z by (auto simp: fs_ok_def)
    let ?st = "fill_zero (unat z) st1"
    have "used_bits ?b ?st = used_bits ?b st1"
      using zb by (intro used_bits_cong [OF ok(1)]) auto
    then have used: "used_bits ?b ?st = insert n (used_bits ?b st)"
      using a(4) by (simp add: bits_become_def)
    have "zone_used f ?st y \<longleftrightarrow> y = z \<or> zone_used f st y" for y
      unfolding zone_used_def used using z n0 by (auto simp: word_unat_eq_iff)
    moreover have "\<not> zone_used f st z" using a(3) z by (auto simp: zone_used_def)
    moreover have "disk_ok f ?st" using a(4) d used by (simp add: disk_ok_def bits_become_def)
    moreover have "z \<noteq> 0" using z n0 by auto
    moreover have "alloc_zone f st = (Ok (Some z), ?st)"
      using a(1) by (simp add: alloc_zone_def z_def Let_def)
    moreover have "blocks ?st k = blocks st k" if "k \<notin> set (bitmap_blocks ?b)" "k \<noteq> unat z" for k
      using a(4) that by (simp add: bits_become_def)
    moreover have "readable ?st k \<longleftrightarrow> k = unat z \<or> readable st k" for k
      using a(4) by (simp add: bits_become_def)
    ultimately show ?thesis using zb
      by (intro disjI2 exI [of _ z] exI [of _ ?st]) (simp add: fresh_zone_def)
  qed
qed

lemma free_zone_spec:
  assumes f: "fs_ok f" and d: "disk_ok f st" and z: "zone_used f st z"
  obtains st' where "free_zone f z st = (Ok (), st')" "disk_ok f st'"
    and "\<And>y. zone_used f st' y \<longleftrightarrow> y \<noteq> z \<and> zone_used f st y"
    and "\<And>k. k \<notin> set (bitmap_blocks (zone_bitmap f)) \<Longrightarrow> blocks st' k = blocks st k"
    and "readable st' = readable st"
proof -
  let ?b = "zone_bitmap f"
  have ok: "bitmap_ok ?b" "store_ok st" using f d by (simp_all add: fs_ok_def disk_ok_def)
  obtain n where n: "0 < n" "n \<in> used_bits ?b st" "unat z = unat (base_id ?b) + n"
    using z by (auto simp: zone_used_def)
  then have nb: "n < bit_count ?b" by (simp add: used_bits_def)
  have zw: "ucast z = base_id ?b + word_of_nat n"
    using zone_word(1) [OF f nb] n(3) unat_less_exp [of z]
    by (simp add: word_unat_eq_iff unsigned_ucast_eq take_bit_eq_mod)
  obtain st' where st': "bitmap_dealloc ?b (base_id ?b + word_of_nat n) st = (Ok (), st')"
    "bits_become ?b st (used_bits ?b st - {n}) st'"
    by (rule bitmap_dealloc_spec [OF ok nb]) (rule that)
  have "free_zone f z st = (Ok (), st')"
    using zone_used_block(2) [OF f z] st'(1) by (simp add: free_zone_def zw)
  moreover have "disk_ok f st'" using st'(2) d n(1) by (simp add: disk_ok_def bits_become_def)
  moreover have "zone_used f st' y \<longleftrightarrow> y \<noteq> z \<and> zone_used f st y" for y
    using st'(2) n(3) by (auto simp: zone_used_def bits_become_def word_unat_eq_iff)
  ultimately show ?thesis using that st'(2) by (simp add: bits_become_def)
qed

section \<open>The tree of a file\<close>

datatype node =
    Direct nat
  | Single
  | SingleEntry nat
  | Double
  | DoubleEntry nat
  | Leaf nat nat

fun node_ok :: "node \<Rightarrow> bool" where
  "node_ok (Direct i) = (i < DIRECT_ZONE_COUNT)"
| "node_ok Single = True"
| "node_ok (SingleEntry i) = (i < INDIRECT_ENTRIES_PER_BLOCK)"
| "node_ok Double = True"
| "node_ok (DoubleEntry i) = (i < INDIRECT_ENTRIES_PER_BLOCK)"
| "node_ok (Leaf i j) = (i < INDIRECT_ENTRIES_PER_BLOCK \<and> j < INDIRECT_ENTRIES_PER_BLOCK)"

text \<open>The zone pointer stored at an index of an indirect block; an absent block has none.\<close>

definition zone_ptr :: "store \<Rightarrow> u16 \<Rightarrow> nat \<Rightarrow> u16" where
  "zone_ptr st z i = (if z = 0 then 0 else view_entry u16_of 2 (blocks st (unat z)) i)"

fun zone_of :: "store \<Rightarrow> DiskInode \<Rightarrow> node \<Rightarrow> u16" where
  "zone_of st d (Direct i) = direct_zones d ! i"
| "zone_of st d Single = single_indirect_zone d"
| "zone_of st d (SingleEntry i) = zone_ptr st (single_indirect_zone d) i"
| "zone_of st d Double = double_indirect_zone d"
| "zone_of st d (DoubleEntry i) = zone_ptr st (double_indirect_zone d) i"
| "zone_of st d (Leaf i j) = zone_ptr st (zone_ptr st (double_indirect_zone d) i) j"

abbreviation zn :: "inode_state \<Rightarrow> node \<Rightarrow> u16" where
  "zn s \<equiv> zone_of (disk s) (disk_inode (inner s))"

definition file_zones :: "inode_state \<Rightarrow> u16 set" where
  "file_zones s = {zn s n | n. node_ok n \<and> zn s n \<noteq> 0}"

text \<open>The data node of a logical block, and the contents of the block: a hole reads as zeros.\<close>

definition node_of :: "nat \<Rightarrow> node" where
  "node_of n =
     (if n < 7 then Direct n
      else if n < 519 then SingleEntry (n - 7)
      else Leaf ((n - 519) div 512) ((n - 519) mod 512))"

definition file_block :: "inode_state \<Rightarrow> nat \<Rightarrow> u8 list" where
  "file_block s n =
     (if zn s (node_of n) = 0 then replicate BLOCK_SIZE 0
      else blocks (disk s) (unat (zn s (node_of n))))"

text \<open>
  The invariant: the file system's geometry is sound, every zone the tree reaches is allocated, and
  no zone is reached twice.
\<close>

definition file_ok :: "MinixFileSystem \<Rightarrow> inode_state \<Rightarrow> bool" where
  "file_ok f s \<longleftrightarrow> file_system s = Some f \<and> fs_ok f \<and> disk_ok f (disk s)
     \<and> disk_inode_ok (disk_inode (inner s))
     \<and> (\<forall>n. node_ok n \<longrightarrow> zn s n \<noteq> 0 \<longrightarrow> zone_used f (disk s) (zn s n))
     \<and> (\<forall>m n. node_ok m \<longrightarrow> node_ok n \<longrightarrow> zn s m \<noteq> 0 \<longrightarrow> zn s m = zn s n \<longrightarrow> m = n)"

lemma file_okD:
  assumes "file_ok f s"
  shows "file_system s = Some f" "fs_ok f" "disk_ok f (disk s)" "store_ok (disk s)"
    "disk_inode_ok (disk_inode (inner s))"
  using assms by (auto simp: file_ok_def disk_ok_def)

lemma file_ok_used: "file_ok f s \<Longrightarrow> node_ok n \<Longrightarrow> zn s n \<noteq> 0 \<Longrightarrow> zone_used f (disk s) (zn s n)"
  by (simp add: file_ok_def)

lemma file_ok_inj:
  "file_ok f s \<Longrightarrow> node_ok m \<Longrightarrow> node_ok n \<Longrightarrow> zn s m \<noteq> 0 \<Longrightarrow> zn s m = zn s n \<Longrightarrow> m = n"
  by (simp add: file_ok_def)

lemma node_of_ok: "n < MAX_LOGICAL_BLOCKS \<Longrightarrow> node_ok (node_of n)"
  by (auto simp: node_of_def file_consts div_less_iff_less_mult)

lemma node_of_data:
  "node_of n \<noteq> Single" "node_of n \<noteq> Double" "node_of n \<noteq> DoubleEntry i"
  by (auto simp: node_of_def)

lemma node_of_inj: "node_of m = node_of n \<Longrightarrow> m = n"
proof -
  assume a: "node_of m = node_of n"
  have "m - 519 = n - 519" if "(m - 519) div 512 = (n - 519) div 512"
    "(m - 519) mod 512 = (n - 519) mod 512" using that by (metis div_mult_mod_eq)
  with a show "m = n" by (auto simp: node_of_def split: if_splits)
qed

lemma zone_ptr_zero [simp]: "zone_ptr st 0 i = 0"
  by (simp add: zone_ptr_def)

lemma zone_ptr_fresh:
  assumes "blocks st (unat z) = replicate BLOCK_SIZE 0" "i < INDIRECT_ENTRIES_PER_BLOCK"
  shows "zone_ptr st z i = 0"
proof -
  have "min (1024 - i * 2) 2 = 2" using assms(2) by (simp add: file_consts)
  then have "field (i * 2) 2 (replicate BLOCK_SIZE (0 :: u8)) = replicate 2 0"
    by (simp add: field_def BLOCK_SIZE_def min.commute)
  then have "field (i * 2) 2 (replicate BLOCK_SIZE (0 :: u8)) = [0, 0]"
    by (simp add: numeral_2_eq_2)
  then show ?thesis by (simp add: zone_ptr_def view_entry_def assms(1) u16_of_def)
qed

lemma zone_ptr_cong: "(z \<noteq> 0 \<Longrightarrow> blocks st' (unat z) = blocks st (unat z)) \<Longrightarrow> zone_ptr st' z i = zone_ptr st z i"
  by (simp add: zone_ptr_def)

lemma zone_ptr_update:
  assumes "store_ok st" "z \<noteq> 0" "i < INDIRECT_ENTRIES_PER_BLOCK"
    and b: "blocks st' (unat z) = view_update u16_bytes 2 (blocks st (unat z)) i y"
  shows "zone_ptr st' z j = (if j = i then y else zone_ptr st z j)"
proof -
  have "Suc i * 2 \<le> length (blocks st (unat z))"
    using assms(1,3) by (simp add: file_consts)
  from zones.entry_update [OF _ this, of y j] show ?thesis
    using assms(2) b by (simp add: zone_ptr_def)
qed

section \<open>Growing a file\<close>

definition zoneless :: "DiskInode \<Rightarrow> DiskInode" where
  "zoneless d = d\<lparr>direct_zones := [], single_indirect_zone := 0, double_indirect_zone := 0\<rparr>"

text \<open>
  \<open>grows f c s s'\<close>: \<open>s'\<close> arises from \<open>s\<close> by allocating zones for the file and writing its blocks.
  The invariant holds, no mapped block moves, zones that were free before are the only ones added,
  nothing outside the file's own zones and the zone bitmap changes, and block \<open>n\<close> of the file is
  \<open>c n\<close>.  \<open>extends\<close> is the case in which the contents stay the same.
\<close>

definition grows ::
  "MinixFileSystem \<Rightarrow> (nat \<Rightarrow> u8 list) \<Rightarrow> inode_state \<Rightarrow> inode_state \<Rightarrow> bool" where
  "grows f c s s' \<longleftrightarrow> file_ok f s'
     \<and> (\<forall>n. node_ok n \<longrightarrow> zn s n \<noteq> 0 \<longrightarrow> zn s' n = zn s n)
     \<and> (\<forall>z. zone_used f (disk s) z \<longrightarrow> zone_used f (disk s') z)
     \<and> (\<forall>n. node_ok n \<longrightarrow> zn s n = 0 \<longrightarrow> zn s' n \<noteq> 0 \<longrightarrow> \<not> zone_used f (disk s) (zn s' n))
     \<and> (\<forall>z. zone_used f (disk s') z \<longrightarrow> zone_used f (disk s) z \<or> z \<in> file_zones s')
     \<and> (\<forall>k. k \<notin> set (bitmap_blocks (zone_bitmap f)) \<longrightarrow> k \<notin> unat ` file_zones s' \<longrightarrow>
           blocks (disk s') k = blocks (disk s) k)
     \<and> (\<forall>n < MAX_LOGICAL_BLOCKS. file_block s' n = c n)
     \<and> (\<forall>k. readable (disk s) k \<longrightarrow> readable (disk s') k)
     \<and> (\<forall>n. node_ok n \<longrightarrow> zn s n = 0 \<longrightarrow> zn s' n \<noteq> 0 \<longrightarrow> readable (disk s') (unat (zn s' n)))
     \<and> current_time s' = current_time s
     \<and> zoneless (disk_inode (inner s')) = zoneless (disk_inode (inner s))"

abbreviation extends :: "MinixFileSystem \<Rightarrow> inode_state \<Rightarrow> inode_state \<Rightarrow> bool" where
  "extends f s \<equiv> grows f (file_block s) s"

lemma extends_refl: "file_ok f s \<Longrightarrow> extends f s s"
  by (simp add: grows_def)

lemma grows_zones:
  assumes "grows f c s s'"
  shows "file_zones s \<subseteq> file_zones s'"
proof
  fix z assume "z \<in> file_zones s"
  then obtain n where n: "node_ok n" "zn s n \<noteq> 0" "z = zn s n" by (auto simp: file_zones_def)
  moreover from this assms have "zn s' n = zn s n" by (simp add: grows_def)
  ultimately show "z \<in> file_zones s'" unfolding file_zones_def by (metis (mono_tags, lifting) mem_Collect_eq)
qed

lemma grows_trans:
  assumes a: "grows f c s s'" and b: "grows f c' s' s''"
  shows "grows f c' s s''"
proof -
  note sub = grows_zones [OF b]
  have keep: "zn s'' n = zn s n" if "node_ok n" "zn s n \<noteq> 0" for n
    using a b that by (simp add: grows_def)
  have new: "\<not> zone_used f (disk s) (zn s'' n)" if n: "node_ok n" "zn s n = 0" "zn s'' n \<noteq> 0" for n
  proof (cases "zn s' n = 0")
    case True
    with b n have "\<not> zone_used f (disk s') (zn s'' n)" by (simp add: grows_def)
    with a show ?thesis by (auto simp: grows_def)
  next
    case False
    with a b n show ?thesis by (simp add: grows_def)
  qed
  have used: "zone_used f (disk s) z \<or> z \<in> file_zones s''" if "zone_used f (disk s'') z" for z
  proof (cases "zone_used f (disk s') z")
    case True
    then have "zone_used f (disk s) z \<or> z \<in> file_zones s'" using a by (simp add: grows_def)
    with sub show ?thesis by blast
  next
    case False
    with b that show ?thesis by (auto simp: grows_def)
  qed
  have frame: "blocks (disk s'') k = blocks (disk s) k"
    if "k \<notin> set (bitmap_blocks (zone_bitmap f))" "k \<notin> unat ` file_zones s''" for k
  proof -
    from that(2) sub have "k \<notin> unat ` file_zones s'" by blast
    with a b that show ?thesis by (simp add: grows_def)
  qed
  have rd: "readable (disk s'') (unat (zn s'' n))"
    if n: "node_ok n" "zn s n = 0" "zn s'' n \<noteq> 0" for n
  proof (cases "zn s' n = 0")
    case True
    with b n show ?thesis by (simp add: grows_def)
  next
    case False
    with a b n show ?thesis by (simp add: grows_def)
  qed
  show ?thesis
    using a b keep new used frame rd by (simp add: grows_def)
qed

lemma extends_trans:
  assumes a: "extends f s s'" and b: "extends f s' s''"
  shows "extends f s s''"
  using grows_trans [OF a b] a by (simp add: grows_def)

lemma attach_extends:
  assumes ok: "file_ok f s" and n: "node_ok n" "zn s n = 0"
    and zones: "\<And>m. node_ok m \<Longrightarrow> zn s' m = (if m = n then z else zn s m)"
    and fresh: "fresh_zone f (disk s) z st1"
    and P: "\<And>k. k \<in> P \<Longrightarrow> \<exists>q. node_ok q \<and> zn s q \<noteq> 0 \<and> k = unat (zn s q) \<and> q \<notin> range node_of"
    and blk: "\<And>k. k \<notin> P \<Longrightarrow> blocks (disk s') k = blocks st1 k"
    and rd: "readable (disk s') = readable st1" and st: "store_ok (disk s')"
    and meta: "file_system s' = Some f" "current_time s' = current_time s"
      "disk_inode_ok (disk_inode (inner s'))"
      "zoneless (disk_inode (inner s')) = zoneless (disk_inode (inner s))"
  shows "extends f s s'"
proof -
  let ?B = "set (bitmap_blocks (zone_bitmap f))"
  note fr = fresh [unfolded fresh_zone_def]
  have fs: "fs_ok f" by (rule file_okD(2) [OF ok])
  have PB: "k \<notin> ?B" if "k \<in> P" for k
    using P [OF that] file_ok_used [OF ok] zone_used_block(1) [OF fs] by blast
  have zP: "unat z \<notin> P"
    using P [of "unat z"] fr file_ok_used [OF ok] by (metis word_unat_eq_iff)
  have bits: "used_bits (zone_bitmap f) (disk s') = used_bits (zone_bitmap f) st1"
    using fs PB blk by (intro used_bits_cong) (auto simp: fs_ok_def)
  then have zu: "zone_used f (disk s') y \<longleftrightarrow> y = z \<or> zone_used f (disk s) y" for y
    using fr by (simp add: zone_used_def)
  have dok: "disk_ok f (disk s')" using fr st bits by (simp add: disk_ok_def)
  have nz: "z \<noteq> zn s m" if "node_ok m" "zn s m \<noteq> 0" for m
    using fr file_ok_used [OF ok that] by auto
  have "file_ok f s'"
    unfolding file_ok_def using zones zu meta(1,3) dok fs nz fr file_ok_used [OF ok] file_ok_inj [OF ok]
    by (auto split: if_splits)
  moreover have "unat ` file_zones s' \<supseteq> insert (unat z) P"
  proof -
    have "unat z \<in> unat ` file_zones s'"
      using n(1) zones [OF n(1)] fr by (force simp: file_zones_def)
    moreover have "k \<in> unat ` file_zones s'" if "k \<in> P" for k
    proof -
      obtain q where q: "node_ok q" "zn s q \<noteq> 0" "k = unat (zn s q)" using P [OF \<open>k \<in> P\<close>] by blast
      then have "zn s' q = zn s q" using zones [OF q(1)] n(2) by auto
      with q show ?thesis by (force simp: file_zones_def)
    qed
    ultimately show ?thesis by blast
  qed
  moreover have "file_block s' m = file_block s m" if m: "m < MAX_LOGICAL_BLOCKS" for m
  proof (cases "node_of m = n")
    case True
    then show ?thesis
      using n zones [OF n(1)] fr blk [OF zP] by (simp add: file_block_def)
  next
    case False
    let ?y = "zn s (node_of m)"
    have y: "zn s' (node_of m) = ?y" using False zones [OF node_of_ok [OF m]] by simp
    show ?thesis
    proof (cases "?y = 0")
      case True
      with y show ?thesis by (simp add: file_block_def)
    next
      case y0: False
      have "unat ?y \<notin> P"
        using P [of "unat ?y"] file_ok_inj [OF ok node_of_ok [OF m] _ y0]
        by (metis rangeI word_unat_eq_iff)
      moreover have "unat ?y \<noteq> unat z" using nz [OF node_of_ok [OF m] y0] by (simp add: word_unat_eq_iff)
      moreover have "unat ?y \<notin> ?B"
        using zone_used_block(1) [OF fs file_ok_used [OF ok node_of_ok [OF m] y0]] .
      ultimately have "blocks (disk s') (unat ?y) = blocks (disk s) (unat ?y)"
        using blk fr by simp
      with y y0 show ?thesis by (simp add: file_block_def)
    qed
  qed
  moreover have "blocks (disk s') k = blocks (disk s) k"
    if "k \<notin> ?B" "k \<notin> unat ` file_zones s'" for k
  proof -
    have "k \<notin> P" "k \<noteq> unat z" using that(2) calculation(2) by blast+
    with that(1) blk fr show ?thesis by simp
  qed
  moreover have "z \<in> file_zones s'"
    using n(1) zones [OF n(1)] fr by (force simp: file_zones_def)
  ultimately show ?thesis
    unfolding grows_def using zones n(2) zu fr rd meta(2,4) by (auto split: if_splits)
qed

section \<open>Attaching a zone\<close>

text \<open>Allocating a zone leaves every pointer of the tree as it is.\<close>

lemma fresh_zone_ptr:
  assumes ok: "file_ok f s" and fresh: "fresh_zone f (disk s) z st1" and q: "node_ok q" "zn s q \<noteq> 0"
  shows "blocks st1 (unat (zn s q)) = blocks (disk s) (unat (zn s q))"
proof -
  note u = file_ok_used [OF ok q]
  have "zn s q \<noteq> z" using u fresh by (auto simp: fresh_zone_def)
  with zone_used_block(1) [OF file_okD(2) [OF ok] u] fresh show ?thesis
    by (simp add: fresh_zone_def word_unat_eq_iff)
qed

lemma fresh_zone_of:
  assumes ok: "file_ok f s" and fresh: "fresh_zone f (disk s) z st1" and n: "node_ok n"
  shows "zone_of st1 (disk_inode (inner s)) n = zn s n"
proof -
  have ptr: "zone_ptr st1 (zn s q) i = zone_ptr (disk s) (zn s q) i" if "node_ok q" for q i
    using fresh_zone_ptr [OF ok fresh that] by (intro zone_ptr_cong)
  show ?thesis
    using ptr [of Single] ptr [of Double] ptr [of "DoubleEntry i" for i] n by (cases n) simp_all
qed

lemma fresh_children:
  assumes "fresh_zone f st z st1"
  shows "i < INDIRECT_ENTRIES_PER_BLOCK \<Longrightarrow> zone_ptr st1 z i = 0"
  using assms by (intro zone_ptr_fresh) (simp_all add: fresh_zone_def)

fun root_node :: "node \<Rightarrow> bool" where
  "root_node (Direct i) = (i < DIRECT_ZONE_COUNT)"
| "root_node Single = True"
| "root_node Double = True"
| "root_node _ = False"

fun set_root :: "node \<Rightarrow> u16 \<Rightarrow> DiskInode \<Rightarrow> DiskInode" where
  "set_root (Direct i) z d = d\<lparr>direct_zones := (direct_zones d)[i := z]\<rparr>"
| "set_root Single z d = d\<lparr>single_indirect_zone := z\<rparr>"
| "set_root Double z d = d\<lparr>double_indirect_zone := z\<rparr>"
| "set_root _ z d = d"

lemma set_root_zone:
  assumes ok: "file_ok f s" and fresh: "fresh_zone f (disk s) z st1"
    and n: "root_node n" "zn s n = 0" and m: "node_ok m"
  shows "zone_of st1 (set_root n z (disk_inode (inner s))) m = (if m = n then z else zn s m)"
proof -
  note old = fresh_zone_of [OF ok fresh m] and new = fresh_children [OF fresh]
  have len: "length (direct_zones (disk_inode (inner s))) = DIRECT_ZONE_COUNT"
    using file_okD(5) [OF ok] by (simp add: disk_inode_ok_def)
  from n m old new len show ?thesis
    by (cases n; cases m) (auto simp: nth_list_update)
qed

lemma set_root_meta:
  "zoneless (set_root n z d) = zoneless d" "disk_inode_ok (set_root n z d) = disk_inode_ok d"
  by (cases n; simp add: zoneless_def disk_inode_ok_def)+

lemma attach_root:
  assumes ok: "file_ok f s" and fresh: "fresh_zone f (disk s) z st1"
    and n: "root_node n" "zn s n = 0"
    and s': "s' = set_inode (touch_change (current_time s))
      (set_disk_inode (set_root n z) (s\<lparr>disk := st1\<rparr>))"
  shows "extends f s s'" "zn s' n = z"
proof -
  have nok: "node_ok n" using n(1) by (cases n) auto
  have inode: "disk_inode (inner s') = set_root n z (disk_inode (inner s))" "disk s' = st1"
    "file_system s' = file_system s" "current_time s' = current_time s"
    by (simp_all add: s' set_inode_def set_disk_inode_def touch_change_def mark_dirty_def)
  note zones = set_root_zone [OF ok fresh n]
  show "zn s' n = z" using zones [OF nok] by (simp add: inode)
  show "extends f s s'"
    by (rule attach_extends [OF ok nok n(2) _ fresh, where P = "{}"])
      (use zones file_okD [OF ok] fresh in
        \<open>simp_all add: inode set_root_meta fresh_zone_def disk_ok_def\<close>)
qed

text \<open>A pointer stored in an indirect block, named by its parent and its index there.\<close>

fun child :: "node \<Rightarrow> nat \<Rightarrow> node" where
  "child Single i = SingleEntry i"
| "child Double i = DoubleEntry i"
| "child (DoubleEntry i) j = Leaf i j"
| "child n _ = n"

fun is_parent :: "node \<Rightarrow> bool" where
  "is_parent Single = True"
| "is_parent Double = True"
| "is_parent (DoubleEntry i) = (i < INDIRECT_ENTRIES_PER_BLOCK)"
| "is_parent _ = False"

lemma parent_facts:
  assumes "is_parent p"
  shows "node_ok p" "p \<notin> range node_of" "zone_of st d (child p i) = zone_ptr st (zone_of st d p) i"
    "i < INDIRECT_ENTRIES_PER_BLOCK \<Longrightarrow> node_ok (child p i)"
  using assms node_of_data by (cases p; auto; metis)+

lemma attach_child_zone:
  assumes ok: "file_ok f s" and fresh: "fresh_zone f (disk s) z st1"
    and p: "is_parent p" "zn s p \<noteq> 0" and i: "i < INDIRECT_ENTRIES_PER_BLOCK"
    and c: "zn s (child p i) = 0" and m: "node_ok m"
    and st2: "st2 = store_modify (unat (zn s p)) (\<lambda>bs. view_update u16_bytes 2 bs i z) st1"
  shows "zone_of st2 (disk_inode (inner s)) m = (if m = child p i then z else zn s m)"
proof -
  let ?d = "disk_inode (inner s)"
  note pf = parent_facts [OF p(1)]
  have st1: "store_ok st1" using fresh by (simp add: fresh_zone_def disk_ok_def)
  have same: "zone_ptr st2 (zn s p) j = (if j = i then z else zone_ptr (disk s) (zn s p) j)" for j
    using zone_ptr_update [OF st1 p(2) i, of st2 z j] fresh_zone_ptr [OF ok fresh pf(1) p(2)]
    by (simp add: st2 zone_ptr_def)
  have other: "zone_ptr st2 (zn s q) j = zone_ptr (disk s) (zn s q) j"
    if q: "node_ok q" "q \<noteq> p" for q j
  proof (rule zone_ptr_cong)
    assume q0: "zn s q \<noteq> 0"
    then have "zn s q \<noteq> zn s p" using file_ok_inj [OF ok q(1) pf(1) q0] q(2) by blast
    with fresh_zone_ptr [OF ok fresh q(1) q0]
    show "blocks st2 (unat (zn s q)) = blocks (disk s) (unat (zn s q))"
      by (simp add: st2 word_unat_eq_iff)
  qed
  have "z \<noteq> zn s p" using file_ok_used [OF ok pf(1) p(2)] fresh by (auto simp: fresh_zone_def)
  then have "blocks st2 (unat z) = blocks st1 (unat z)" by (simp add: st2 word_unat_eq_iff)
  then have zc: "zone_ptr st2 z j = 0" if "j < INDIRECT_ENTRIES_PER_BLOCK" for j
    using fresh_children [OF fresh that] zone_ptr_cong [of z st2 st1 j] by simp
  have sd: "single_indirect_zone ?d = zn s Single" "double_indirect_zone ?d = zn s Double" by simp_all
  show ?thesis
  proof (cases p)
    case Single
    with same other [of Double] other [of "DoubleEntry k" for k] m show ?thesis by (cases m) auto
  next
    case Double
    with same other [of Single] other [of "DoubleEntry k" for k] m c zc show ?thesis
      by (cases m) auto
  next
    case (DoubleEntry k)
    with same other [of Single] other [of Double] other [of "DoubleEntry j" for j] m show ?thesis
      by (cases m; cases "\<exists>b. m = Leaf k b") auto
  qed (use p in simp_all)
qed

lemma attach_child:
  assumes ok: "file_ok f s" and fresh: "fresh_zone f (disk s) z st1"
    and p: "is_parent p" "zn s p \<noteq> 0" and i: "i < INDIRECT_ENTRIES_PER_BLOCK"
    and c: "zn s (child p i) = 0"
    and s': "s' = s\<lparr>disk := store_modify (unat (zn s p)) (\<lambda>bs. view_update u16_bytes 2 bs i z) st1\<rparr>"
  shows "extends f s s'" "zn s' (child p i) = z"
proof -
  note zones = attach_child_zone [OF ok fresh p i c _ refl]
  note pf = parent_facts [OF p(1)]
  have d: "disk s' = store_modify (unat (zn s p)) (\<lambda>bs. view_update u16_bytes 2 bs i z) st1"
    "inner s' = inner s" "file_system s' = file_system s" "current_time s' = current_time s"
    by (simp_all add: s')
  show "zn s' (child p i) = z" using zones [OF pf(4) [OF i]] by (simp add: d)
  have st1: "store_ok st1" using fresh by (simp add: fresh_zone_def disk_ok_def)
  have "store_ok (disk s')"
    unfolding d using st1 i by (intro store_ok_modify) (simp_all add: zones.length_view_update file_consts)
  then show "extends f s s'"
    by (intro attach_extends [OF ok pf(4) [OF i] c _ fresh, where P = "{unat (zn s p)}"])
      (use zones pf(1,2) p(2) file_okD [OF ok] in \<open>auto simp: d\<close>)
qed

section \<open>Mapping a block\<close>

text \<open>
  The two closures of \<open>map_block_id\<close> with \<open>create\<close> set: each returns the zone of its node, allocating
  it when it is absent.  The result 0 means that no zone was left.
\<close>

definition root_step :: "MinixFileSystem \<Rightarrow> node \<Rightarrow> (inode_state, u16) op" where
  "root_step f n s =
     bind_op (try_alloc f True (zn s n)) (\<lambda>(zone, allocated) s.
       (Ok zone,
        if allocated then set_inode (touch_change (current_time s)) (set_disk_inode (set_root n zone) s)
        else s)) s"

lemma root_step_spec:
  assumes ok: "file_ok f s" and n: "root_node n"
  obtains s' where "root_step f n s = (Ok (zn s' n), s')" "extends f s s'"
    "zn s' n = 0 \<Longrightarrow> zones_full f (disk s')"
proof (cases "zn s n = 0")
  case False
  then have "root_step f n s = (Ok (zn s n), s)" by (simp add: root_step_def try_alloc_def)
  with False extends_refl [OF ok] that show ?thesis by blast
next
  case True
  from alloc_zone_spec [OF file_okD(2,3) [OF ok]] show ?thesis
  proof (elim disjE exE conjE)
    assume "alloc_zone f (disk s) = (Ok None, disk s)" "zones_full f (disk s)"
    with True have "root_step f n s = (Ok (zn s n), s)"
      by (simp add: root_step_def try_alloc_def lift_store_def bind_op_def)
    with \<open>zones_full f (disk s)\<close> extends_refl [OF ok] that show ?thesis by blast
  next
    fix z st1 assume a: "alloc_zone f (disk s) = (Ok (Some z), st1)" "fresh_zone f (disk s) z st1"
    define s' where "s' = set_inode (touch_change (current_time s))
      (set_disk_inode (set_root n z) (s\<lparr>disk := st1\<rparr>))"
    have z: "z \<noteq> 0" using a(2) by (simp add: fresh_zone_def)
    note at = attach_root [OF ok a(2) n True s'_def]
    have "root_step f n s = (Ok z, s')"
      using True a(1) z by (simp add: root_step_def try_alloc_def lift_store_def bind_op_def s'_def)
    with at z that [of s'] show ?thesis by simp
  qed
qed

lemma resolve_spec:
  assumes ok: "file_ok f s" and p: "is_parent p" and i: "i < INDIRECT_ENTRIES_PER_BLOCK"
  shows "(\<exists>s'. resolve_indirect_entry f True (zn s p) i s = (Ok (zn s' (child p i)), s')
       \<and> extends f s s' \<and> (zn s p = 0 \<longrightarrow> s' = s)
       \<and> (zn s p \<noteq> 0 \<longrightarrow> zn s' (child p i) = 0 \<longrightarrow> zones_full f (disk s')))
    \<or> (resolve_indirect_entry f True (zn s p) i s = (Err Errno_IO, s)
       \<and> zn s p \<noteq> 0 \<and> \<not> readable (disk s) (unat (zn s p)))"
proof -
  note ptr = parent_facts(3) [OF p, of "disk s" "disk_inode (inner s)" i]
  consider "zn s p = 0" | "zn s p \<noteq> 0" "\<not> readable (disk s) (unat (zn s p))"
    | "zn s p \<noteq> 0" "readable (disk s) (unat (zn s p))" "zn s (child p i) \<noteq> 0"
    | "zn s p \<noteq> 0" "readable (disk s) (unat (zn s p))" "zn s (child p i) = 0" by blast
  then show ?thesis
  proof cases
    case 1
    with ptr extends_refl [OF ok] show ?thesis
      by (intro disjI1 exI [of _ s]) (simp add: resolve_indirect_entry_def)
  next
    case 2
    then show ?thesis by (simp add: resolve_indirect_entry_def)
  next
    case 3
    with ptr extends_refl [OF ok] show ?thesis
      by (intro disjI1 exI [of _ s]) (simp add: resolve_indirect_entry_def zone_ptr_def)
  next
    case 4
    then have e: "view_entry u16_of 2 (blocks (disk s) (unat (zn s p))) i = 0"
      using ptr by (simp add: zone_ptr_def)
    from alloc_zone_spec [OF file_okD(2,3) [OF ok]] show ?thesis
    proof (elim disjE exE conjE)
      assume "alloc_zone f (disk s) = (Ok None, disk s)" "zones_full f (disk s)"
      with 4 e extends_refl [OF ok] show ?thesis
        by (intro disjI1 exI [of _ s])
          (simp add: resolve_indirect_entry_def lift_store_def bind_op_def)
    next
      fix z st1 assume a: "alloc_zone f (disk s) = (Ok (Some z), st1)" "fresh_zone f (disk s) z st1"
      define s' where "s' = s\<lparr>disk :=
        store_modify (unat (zn s p)) (\<lambda>bs. view_update u16_bytes 2 bs i z) st1\<rparr>"
      note at = attach_child [OF ok a(2) p 4(1) i 4(3) s'_def]
      have "resolve_indirect_entry f True (zn s p) i s = (Ok z, s')"
        using 4 e a(1) by (simp add: resolve_indirect_entry_def lift_store_def bind_op_def s'_def)
      moreover have "z \<noteq> 0" using a(2) by (simp add: fresh_zone_def)
      ultimately show ?thesis using at 4(1) by (intro disjI1 exI [of _ s']) simp
    qed
  qed
qed

text \<open>A block that cannot be read stops the mapping; \<open>all_readable\<close> rules that out for a file.\<close>

definition all_readable :: "inode_state \<Rightarrow> bool" where
  "all_readable s \<longleftrightarrow> (\<forall>n. node_ok n \<longrightarrow> zn s n \<noteq> 0 \<longrightarrow> readable (disk s) (unat (zn s n)))"

lemma grows_readable:
  assumes "grows f c s s'" "all_readable s"
  shows "all_readable s'"
  unfolding all_readable_def
proof (intro allI impI)
  fix n assume n: "node_ok n" "zn s' n \<noteq> 0"
  show "readable (disk s') (unat (zn s' n))"
  proof (cases "zn s n = 0")
    case True
    with n assms(1) show ?thesis by (simp add: grows_def)
  next
    case False
    with n assms show ?thesis by (simp add: grows_def all_readable_def)
  qed
qed

lemma map_block_create_eq:
  assumes fs: "file_system s = Some f" and n: "n < MAX_LOGICAL_BLOCKS"
  shows "map_block_id n True s =
     bind_op
       (if n < 7 then root_step f (Direct n)
        else if n < 519 then
          bind_op (root_step f Single) (\<lambda>r. resolve_indirect_entry f True r (n - 7))
        else bind_op (root_step f Double) (\<lambda>r.
               bind_op (resolve_indirect_entry f True r ((n - 519) div 512))
                 (\<lambda>r. resolve_indirect_entry f True r ((n - 519) mod 512))))
       (\<lambda>z s. (Ok (ucast z), s)) s"
proof -
  have root: "bind_op (try_alloc f True (zn s m)) (\<lambda>(zone, allocated) s.
      g zone (if allocated then set_inode (touch_change (current_time s)) (set_disk_inode (set_root m zone) s)
              else s)) s = bind_op (root_step f m) g s" for m and g :: "u16 \<Rightarrow> (inode_state, u16) op"
    by (auto simp: root_step_def bind_op_def split: outcome.splits prod.splits)
  have sr: "(\<lambda>d. d\<lparr>direct_zones := (direct_zones d)[i := z]\<rparr>) = set_root (Direct i) z"
    "(\<lambda>d. d\<lparr>single_indirect_zone := z\<rparr>) = set_root Single z"
    "(\<lambda>d. d\<lparr>double_indirect_zone := z\<rparr>) = set_root Double z" for i z
    by (auto intro!: ext)
  show ?thesis
    using n unfolding map_block_id_def fs Let_def sr
    using root [of Single "\<lambda>r. resolve_indirect_entry f True r (n - 7)"]
      root [of Double "\<lambda>r. bind_op (resolve_indirect_entry f True r ((n - 519) div 512))
                 (\<lambda>r. resolve_indirect_entry f True r ((n - 519) mod 512))"]
    by (simp add: file_consts root_step_def bind_op_def)
qed

text \<open>
  \<open>map_block_id\<close> with \<open>create\<close>: the file grows by zones that were free, and the result is the zone of
  the block.  A result of 0 means the zone bitmap is exhausted; the only error is an unreadable
  pointer block.
\<close>

definition maps_block :: "MinixFileSystem \<Rightarrow> nat \<Rightarrow> inode_state \<Rightarrow> u32 outcome \<times> inode_state \<Rightarrow> bool" where
  "maps_block f n s r \<longleftrightarrow> extends f s (snd r) \<and>
     (fst r = Ok (ucast (zn (snd r) (node_of n))) \<and>
        (zn (snd r) (node_of n) = 0 \<longrightarrow> zones_full f (disk (snd r)))
      \<or> fst r = Err Errno_IO \<and> \<not> all_readable s)"

lemma unreadable_parent:
  assumes "extends f s s'" "is_parent p" "zn s' p \<noteq> 0" "\<not> readable (disk s') (unat (zn s' p))"
  shows "\<not> all_readable s"
  using grows_readable [OF assms(1)] assms(2-) parent_facts(1) by (auto simp: all_readable_def)

lemma step_then_resolve:
  assumes m: "m s = (Ok (zn s1 p), s1)" and e1: "extends f s s1"
    and full: "zn s1 p = 0 \<longrightarrow> zones_full f (disk s1)"
    and p: "is_parent p" and i: "i < INDIRECT_ENTRIES_PER_BLOCK"
  shows "(\<exists>s2. bind_op m (\<lambda>r. resolve_indirect_entry f True r i) s = (Ok (zn s2 (child p i)), s2)
       \<and> extends f s s2 \<and> (zn s2 (child p i) = 0 \<longrightarrow> zones_full f (disk s2)))
    \<or> (\<exists>s2. bind_op m (\<lambda>r. resolve_indirect_entry f True r i) s = (Err Errno_IO, s2)
       \<and> extends f s s2 \<and> \<not> all_readable s)"
proof -
  have ok1: "file_ok f s1" using e1 by (simp add: grows_def)
  from resolve_spec [OF ok1 p i] show ?thesis
  proof (elim disjE exE conjE)
    fix s2 assume r: "resolve_indirect_entry f True (zn s1 p) i s1 = (Ok (zn s2 (child p i)), s2)"
      "extends f s1 s2" "zn s1 p = 0 \<longrightarrow> s2 = s1"
      "zn s1 p \<noteq> 0 \<longrightarrow> zn s2 (child p i) = 0 \<longrightarrow> zones_full f (disk s2)"
    have "zones_full f (disk s2)" if "zn s2 (child p i) = 0"
      using that full r(3,4) by (cases "zn s1 p = 0") auto
    with r(1,2) m extends_trans [OF e1 r(2)] show ?thesis by auto
  next
    assume r: "resolve_indirect_entry f True (zn s1 p) i s1 = (Err Errno_IO, s1)"
      "zn s1 p \<noteq> 0" "\<not> readable (disk s1) (unat (zn s1 p))"
    with m e1 unreadable_parent [OF e1 p] show ?thesis by auto
  qed
qed

lemma map_block_create:
  assumes ok: "file_ok f s" and n: "n < MAX_LOGICAL_BLOCKS"
  shows "maps_block f n s (map_block_id n True s)"
proof -
  note eq = map_block_create_eq [OF file_okD(1) [OF ok] n]
  consider "n < 7" | "7 \<le> n" "n < 519" | "519 \<le> n" by linarith
  then show ?thesis
  proof cases
    case 1
    obtain s1 where s1: "root_step f (Direct n) s = (Ok (zn s1 (Direct n)), s1)" "extends f s s1"
      "zn s1 (Direct n) = 0 \<Longrightarrow> zones_full f (disk s1)"
      by (rule root_step_spec [OF ok, of "Direct n"]) (use 1 in \<open>auto simp: file_consts\<close>)
    then show ?thesis
      using 1 by (simp add: eq maps_block_def node_of_def)
  next
    case 2
    have i: "n - 7 < INDIRECT_ENTRIES_PER_BLOCK" using 2 by (simp add: file_consts)
    obtain s1 where s1: "root_step f Single s = (Ok (zn s1 Single), s1)" "extends f s s1"
      "zn s1 Single = 0 \<longrightarrow> zones_full f (disk s1)"
      by (rule root_step_spec [OF ok, of Single]) auto
    from step_then_resolve [where m = "root_step f Single", OF s1 _ i] show ?thesis
      using 2 by (auto simp: eq maps_block_def node_of_def)
  next
    case 3
    let ?i = "(n - 519) div 512" and ?j = "(n - 519) mod 512"
    have i: "?i < INDIRECT_ENTRIES_PER_BLOCK" using n by (simp add: file_consts div_less_iff_less_mult)
    have j: "?j < INDIRECT_ENTRIES_PER_BLOCK" by (simp add: file_consts)
    obtain s1 where s1: "root_step f Double s = (Ok (zn s1 Double), s1)" "extends f s s1"
      "zn s1 Double = 0 \<longrightarrow> zones_full f (disk s1)"
      by (rule root_step_spec [OF ok, of Double]) auto
    let ?m = "bind_op (root_step f Double) (\<lambda>r. resolve_indirect_entry f True r ?i)"
    have eq': "map_block_id n True s = bind_op (bind_op ?m (\<lambda>r. resolve_indirect_entry f True r ?j))
        (\<lambda>z s. (Ok (ucast z), s)) s"
      using 3 s1(1) by (simp add: eq bind_op_def)
    have p: "is_parent Double" "is_parent (child Double ?i)" using i by simp_all
    from step_then_resolve [where m = "root_step f Double", OF s1 p(1) i] show ?thesis
    proof (elim disjE exE conjE)
      fix s2 assume s2: "?m s = (Ok (zn s2 (child Double ?i)), s2)" "extends f s s2"
        "zn s2 (child Double ?i) = 0 \<longrightarrow> zones_full f (disk s2)"
      from step_then_resolve [where m = ?m, OF s2(1,2) s2(3) p(2) j] show ?thesis
        unfolding eq' maps_block_def using 3 i by (auto simp: node_of_def)
    next
      fix s2 assume "?m s = (Err Errno_IO, s2)" "extends f s s2" "\<not> all_readable s"
      then show ?thesis unfolding eq' maps_block_def by simp
    qed
  qed
qed

text \<open>Without \<open>create\<close> nothing changes and the result is the zone of the block.\<close>

lemma resolve_lookup:
  assumes p: "is_parent p" and rd: "all_readable s"
  shows "resolve_indirect_entry f False (zn s p) i s = (Ok (zn s (child p i)), s)"
  using rd parent_facts(1,3) [OF p]
  by (simp add: resolve_indirect_entry_def zone_ptr_def all_readable_def Let_def)

lemma map_block_lookup:
  assumes fs: "file_system s = Some f" and rd: "all_readable s" and n: "n < MAX_LOGICAL_BLOCKS"
  shows "map_block_id n False s = (Ok (ucast (zn s (node_of n))), s)"
proof -
  consider "n < 7" | "7 \<le> n" "n < 519" | "519 \<le> n" by linarith
  then show ?thesis
  proof cases
    case 1
    then show ?thesis
      by (simp add: map_block_id_def fs try_alloc_def bind_op_def node_of_def file_consts)
  next
    case 2
    then show ?thesis
      using resolve_lookup [OF _ rd, of Single f "n - 7"]
      by (simp add: map_block_id_def fs try_alloc_def bind_op_def node_of_def file_consts)
  next
    case 3
    then show ?thesis
      using n resolve_lookup [OF _ rd, of Double f "(n - 519) div 512"]
        resolve_lookup [OF _ rd, of "DoubleEntry ((n - 519) div 512)" f "(n - 519) mod 512"]
      by (simp add: map_block_id_def fs try_alloc_def bind_op_def node_of_def file_consts
        div_less_iff_less_mult Let_def)
  qed
qed

lemma resolve_lookup_state:
  "\<exists>r. resolve_indirect_entry f False z i s = (r, s)"
  by (simp add: resolve_indirect_entry_def Let_def)

lemma bind_op_state:
  assumes "m s = (r, s)" "\<And>a. snd (g a s) = s"
  shows "snd (bind_op m g s) = s"
  using assms by (cases r) simp_all

lemma map_block_lookup_state: "snd (map_block_id n False s) = s"
proof -
  have t: "try_alloc f False z s = (Ok (z, False), s)" for f z s by (simp add: try_alloc_def)
  have r: "snd (bind_op (resolve_indirect_entry f False z i) (\<lambda>z s. (Ok (ucast z :: u32), s)) s) = s"
    for f z i using resolve_lookup_state [of f z i s] by (auto intro: bind_op_state)
  have rr: "snd (bind_op (resolve_indirect_entry f False z i)
      (\<lambda>z. bind_op (resolve_indirect_entry f False z j) (\<lambda>z s. (Ok (ucast z :: u32), s))) s) = s" for f z i j
    using resolve_lookup_state [of f z i s] r by (auto intro: bind_op_state)
  show ?thesis
  proof (cases "file_system s")
    case None
    then show ?thesis by (simp add: map_block_id_def)
  next
    case (Some f)
    then show ?thesis using r rr by (simp add: map_block_id_def t bind_op_assoc Let_def)
  qed
qed

end
