(* ===== verification/Minix_Data.thy ===== *)
theory Minix_Data
  imports Minix_Zones
begin

text \<open>
  Reading, writing and truncating a file, as operations on its contents: a file is a size and a
  function from positions to bytes (\<open>file_byte\<close>), holes included.
\<close>

section \<open>Contents\<close>

definition file_byte :: "inode_state \<Rightarrow> nat \<Rightarrow> u8" where
  "file_byte s p = file_block s (p div BLOCK_SIZE) ! (p mod BLOCK_SIZE)"

abbreviation file_len :: "inode_state \<Rightarrow> nat" where
  "file_len s \<equiv> unat (file_size (disk_inode (inner s)))"

definition MAX_FILE :: nat where "MAX_FILE = MAX_LOGICAL_BLOCKS * BLOCK_SIZE"

lemma length_file_block [simp]: "store_ok (disk s) \<Longrightarrow> length (file_block s n) = BLOCK_SIZE"
  by (simp add: file_block_def)

lemma block_in_range: "p < MAX_FILE \<Longrightarrow> p div BLOCK_SIZE < MAX_LOGICAL_BLOCKS"
  by (simp add: MAX_FILE_def less_mult_imp_div_less)

lemma same_block:
  assumes "i < BLOCK_SIZE - p mod BLOCK_SIZE"
  shows "(p + i) div BLOCK_SIZE = p div BLOCK_SIZE" "(p + i) mod BLOCK_SIZE = p mod BLOCK_SIZE + i"
proof -
  have "p + i = (p mod BLOCK_SIZE + i) + p div BLOCK_SIZE * BLOCK_SIZE" by simp
  moreover have "p mod BLOCK_SIZE + i < BLOCK_SIZE" using assms by linarith
  ultimately show "(p + i) div BLOCK_SIZE = p div BLOCK_SIZE"
    "(p + i) mod BLOCK_SIZE = p mod BLOCK_SIZE + i"
    by (metis div_mult_self1 div_less add.left_neutral not_less_zero BLOCK_SIZE_def
      zero_neq_numeral add.commute, metis mod_mult_self1 mod_less add.commute)
qed

lemma chunk_end:
  assumes "p div BLOCK_SIZE < MAX_LOGICAL_BLOCKS" "c \<le> BLOCK_SIZE - p mod BLOCK_SIZE"
  shows "p + c \<le> MAX_FILE"
proof -
  have "p mod BLOCK_SIZE < BLOCK_SIZE" by (simp add: BLOCK_SIZE_def)
  moreover have "p = p div BLOCK_SIZE * BLOCK_SIZE + p mod BLOCK_SIZE" by simp
  ultimately have "p + c \<le> Suc (p div BLOCK_SIZE) * BLOCK_SIZE"
    using assms(2) unfolding mult_Suc by linarith
  also have "\<dots> \<le> MAX_FILE"
    unfolding MAX_FILE_def using assms(1) by (intro mult_le_mono1) simp
  finally show ?thesis .
qed

lemma chunk_bytes:
  assumes "store_ok (disk s)" "c \<le> BLOCK_SIZE - p mod BLOCK_SIZE"
  shows "map (file_byte s) [p..<p + c] = take c (drop (p mod BLOCK_SIZE) (file_block s (p div BLOCK_SIZE)))"
proof (rule nth_equalityI)
  show "length (map (file_byte s) [p..<p + c])
      = length (take c (drop (p mod BLOCK_SIZE) (file_block s (p div BLOCK_SIZE))))"
    using assms by simp
next
  fix i assume "i < length (map (file_byte s) [p..<p + c])"
  then have "i < c" by simp
  with assms same_block [of i p]
  show "map (file_byte s) [p..<p + c] ! i
      = take c (drop (p mod BLOCK_SIZE) (file_block s (p div BLOCK_SIZE))) ! i"
    by (simp add: file_byte_def)
qed

section \<open>Reading\<close>

lemmas ucast_zone [simp] = ucast_u16_u32

lemma read_loop_spec:
  assumes "file_system s = Some f" "store_ok (disk s)" "all_readable s"
  shows "pos + left \<le> MAX_FILE \<Longrightarrow>
    read_loop pos got left s = (Ok (got @ map (file_byte s) [pos..<pos + left], True), s)"
proof (induction left arbitrary: pos got rule: less_induct)
  case (less left)
  show ?case
  proof (cases "left = 0")
    case True
    then show ?thesis by (simp add: read_loop.simps [of pos got 0])
  next
    case False
    let ?off = "pos mod BLOCK_SIZE" and ?n = "pos div BLOCK_SIZE"
    define c where "c = min left (BLOCK_SIZE - ?off)"
    have off: "?off < BLOCK_SIZE" by (simp add: BLOCK_SIZE_def)
    have c: "0 < c" "c \<le> left" "c \<le> BLOCK_SIZE - ?off" using False off by (auto simp: c_def)
    have n: "?n < MAX_LOGICAL_BLOCKS" using less.prems False by (intro block_in_range) simp
    let ?z = "zn s (node_of ?n)"
    let ?chunk = "if ?z = 0 then replicate c 0 else take c (drop ?off (blocks (disk s) (unat ?z)))"
    have rd: "?z \<noteq> 0 \<Longrightarrow> readable (disk s) (unat ?z)"
      using assms(3) node_of_ok [OF n] by (simp add: all_readable_def)
    have "read_loop pos got left s = read_loop (pos + c) (got @ ?chunk) (left - c) s"
      using False rd by (simp add: read_loop.simps [of pos got left] c_def Let_def
        map_block_lookup [OF assms(1,3) n])
    also have "?chunk = map (file_byte s) [pos..<pos + c]"
      using chunk_bytes [OF assms(2) c(3)] c(3) by (simp add: file_block_def min_def)
    also have "read_loop (pos + c) (got @ map (file_byte s) [pos..<pos + c]) (left - c) s
        = (Ok (got @ map (file_byte s) [pos..<pos + left], True), s)"
      using less.IH [of "left - c" "pos + c"] less.prems c
        upt_add_eq_append [of pos "pos + c" "left - c"] by simp
    finally show ?thesis .
  qed
qed

lemma read_at_spec:
  assumes "file_system s = Some f" "store_ok (disk s)" "all_readable s" "file_len s \<le> MAX_FILE"
  shows "read_at offset n s =
    (Ok (map (file_byte s) [offset..<min (offset + n) (file_len s)]),
     if n = 0 \<or> file_len s \<le> offset then s else set_inode (touch_access (current_time s)) s)"
proof (cases "n = 0 \<or> file_len s \<le> offset")
  case True
  then show ?thesis by (auto simp: read_at_def Let_def)
next
  case False
  then have "offset + min n (file_len s - offset) = min (offset + n) (file_len s)"
    by (auto simp: min_def)
  with False assms(4) read_loop_spec [OF assms(1-3), of offset "min n (file_len s - offset)" "[]"]
  show ?thesis by (simp add: read_at_def Let_def)
qed

section \<open>Writing\<close>

text \<open>Overwriting a mapped data block changes that block of the file and nothing else.\<close>

lemma data_write:
  assumes ok: "file_ok f s" and n: "n < MAX_LOGICAL_BLOCKS" and z: "zn s (node_of n) \<noteq> 0"
    and len: "length (g (file_block s n)) = BLOCK_SIZE"
    and s': "s' = s\<lparr>disk := store_modify (unat (zn s (node_of n))) g (disk s)\<rparr>"
  shows "grows f ((file_block s)(n := g (file_block s n))) s s'"
proof -
  let ?z = "zn s (node_of n)" and ?B = "set (bitmap_blocks (zone_bitmap f))"
  note nok = node_of_ok [OF n]
  have zB: "unat ?z \<notin> ?B" by (rule zone_used_block [OF file_okD(2) [OF ok] file_ok_used [OF ok nok z]])
  have fb: "file_block s n = blocks (disk s) (unat ?z)" using z by (simp add: file_block_def)
  have inode: "inner s' = inner s" "file_system s' = file_system s" "current_time s' = current_time s"
    by (simp_all add: s')
  have blk: "blocks (disk s') k = (if k = unat ?z then g (blocks (disk s) k) else blocks (disk s) k)"
    "readable (disk s') = readable (disk s)" for k by (simp_all add: s')
  have ptr: "zone_ptr (disk s') (zn s q) i = zone_ptr (disk s) (zn s q) i" if q: "is_parent q" for q i
  proof (rule zone_ptr_cong)
    assume "zn s q \<noteq> 0"
    then have "zn s q \<noteq> ?z"
      using file_ok_inj [OF ok parent_facts(1) [OF q] nok] parent_facts(2) [OF q] by blast
    then show "blocks (disk s') (unat (zn s q)) = blocks (disk s) (unat (zn s q))"
      by (simp add: blk word_unat_eq_iff)
  qed
  have zones: "zn s' m = zn s m" if "node_ok m" for m
    using that ptr [of Single] ptr [of Double] ptr [of "DoubleEntry i" for i]
    by (cases m) (simp_all add: inode)
  have bits: "used_bits (zone_bitmap f) (disk s') = used_bits (zone_bitmap f) (disk s)"
    using file_okD(2) [OF ok] zB by (intro used_bits_cong) (auto simp: fs_ok_def blk)
  then have used: "zone_used f (disk s') y = zone_used f (disk s) y" for y by (simp add: zone_used_def)
  have "store_ok (disk s')"
    unfolding s' using file_okD(4) [OF ok] len fb by (simp add: store_ok_modify)
  then have "file_ok f s'"
    using ok zones bits used by (simp add: file_ok_def inode disk_ok_def)
  moreover have "file_block s' m = ((file_block s)(n := g (file_block s n))) m"
    if m: "m < MAX_LOGICAL_BLOCKS" for m
  proof -
    have "unat (zn s (node_of m)) = unat ?z \<longleftrightarrow> m = n" if "zn s (node_of m) \<noteq> 0"
      using file_ok_inj [OF ok node_of_ok [OF m] nok that] node_of_inj by (auto simp: word_unat_eq_iff)
    then show ?thesis
      using zones [OF node_of_ok [OF m]] z by (auto simp: file_block_def blk)
  qed
  moreover have "unat ?z \<in> unat ` file_zones s'"
    using zones [OF nok] nok z by (force simp: file_zones_def)
  then have "blocks (disk s') k = blocks (disk s) k" if "k \<notin> unat ` file_zones s'" for k
    using that by (auto simp: blk)
  ultimately show ?thesis
    unfolding grows_def using zones used inode blk(2) by simp
qed

definition splice :: "nat \<Rightarrow> u8 list \<Rightarrow> u8 list \<Rightarrow> u8 list" where
  "splice off xs bs = take off bs @ xs @ drop (off + length xs) bs"

lemma splice_nth:
  assumes "off + length xs \<le> length bs" "i < length bs"
  shows "splice off xs bs ! i = (if off \<le> i \<and> i < off + length xs then xs ! (i - off) else bs ! i)"
  using assms by (auto simp: splice_def nth_append)

lemma length_splice: "off + length xs \<le> length bs \<Longrightarrow> length (splice off xs bs) = length bs"
  by (simp add: splice_def)

text \<open>One round of the loop, when the block could be mapped and read.\<close>

lemma write_chunk:
  assumes ok: "file_ok f s" and n: "n = p div BLOCK_SIZE" "p < MAX_FILE"
    and z: "zn s (node_of n) \<noteq> 0" and xs: "length xs \<le> BLOCK_SIZE - p mod BLOCK_SIZE"
    and s': "s' = s\<lparr>disk := store_modify (unat (zn s (node_of n))) (splice (p mod BLOCK_SIZE) xs) (disk s)\<rparr>"
  shows "grows f (file_block s') s s'"
    and "q < MAX_FILE \<Longrightarrow>
      file_byte s' q = (if p \<le> q \<and> q < p + length xs then xs ! (q - p) else file_byte s q)"
proof -
  let ?off = "p mod BLOCK_SIZE"
  have off: "?off < BLOCK_SIZE" by (simp add: BLOCK_SIZE_def)
  have nm: "n < MAX_LOGICAL_BLOCKS" using n block_in_range by simp
  have len: "?off + length xs \<le> length (file_block s n)" using off xs file_okD(4) [OF ok] by simp
  have g: "grows f ((file_block s)(n := splice ?off xs (file_block s n))) s s'"
    using len file_okD(4) [OF ok] by (intro data_write [OF ok nm z _ s']) (simp add: length_splice)
  then show "grows f (file_block s') s s'" by (simp add: grows_def)
  assume q: "q < MAX_FILE"
  let ?m = "q div BLOCK_SIZE" and ?r = "q mod BLOCK_SIZE"
  have r: "?r < BLOCK_SIZE" by (simp add: BLOCK_SIZE_def)
  have pq: "p = n * BLOCK_SIZE + ?off" "q = ?m * BLOCK_SIZE + ?r" using n(1) by simp_all
  have blk: "file_block s' ?m = ((file_block s)(n := splice ?off xs (file_block s n))) ?m"
    using g block_in_range [OF q] by (simp add: grows_def)
  show "file_byte s' q = (if p \<le> q \<and> q < p + length xs then xs ! (q - p) else file_byte s q)"
  proof (cases "?m = n")
    case True
    then have "q = n * BLOCK_SIZE + ?r" using pq by simp
    then have "p \<le> q \<longleftrightarrow> ?off \<le> ?r" "q < p + length xs \<longleftrightarrow> ?r < ?off + length xs" "q - p = ?r - ?off"
      using pq(1) by linarith+
    with True blk splice_nth [OF len, of ?r] r file_okD(4) [OF ok] show ?thesis
      by (simp add: file_byte_def)
  next
    case False
    have "\<not> (p \<le> q \<and> q < p + length xs)"
    proof
      assume a: "p \<le> q \<and> q < p + length xs"
      then have "q - p < BLOCK_SIZE - ?off" using xs by linarith
      from same_block(1) [OF this] a n(1) False show False by simp
    qed
    with False blk show ?thesis by (auto simp: file_byte_def)
  qed
qed

text \<open>
  What a write of \<open>data\<close> at position \<open>p\<close> achieves when its first \<open>k\<close> bytes are written: the
  contents change in that range only, and stopping early has one of three reasons.
\<close>

definition writes :: "MinixFileSystem \<Rightarrow> nat \<Rightarrow> u8 list \<Rightarrow> nat \<Rightarrow> inode_state \<Rightarrow> inode_state \<Rightarrow> bool" where
  "writes f p data k s s' \<longleftrightarrow> k \<le> length data \<and> grows f (file_block s') s s'
     \<and> (\<forall>q < MAX_FILE. file_byte s' q = (if p \<le> q \<and> q < p + k then data ! (q - p) else file_byte s q))
     \<and> (0 < k \<longrightarrow> p + k \<le> MAX_FILE)
     \<and> (k < length data \<longrightarrow> MAX_FILE \<le> p + k \<or> \<not> all_readable s \<or> zones_full f (disk s'))"

lemma extends_bytes:
  assumes "extends f s s'" "q < MAX_FILE"
  shows "file_byte s' q = file_byte s q"
  using assms block_in_range [OF assms(2)] by (simp add: grows_def file_byte_def)

lemma grows_self: "grows f c s s' \<Longrightarrow> grows f (file_block s') s s'"
  by (simp add: grows_def)

lemma writes_nothing:
  assumes "extends f s s'" "data \<noteq> [] \<Longrightarrow> MAX_FILE \<le> p \<or> \<not> all_readable s \<or> zones_full f (disk s')"
  shows "writes f p data 0 s s'"
  using assms extends_bytes [OF assms(1)] grows_self [OF assms(1)] by (auto simp: writes_def)

lemma writes_more:
  assumes a: "writes f p (take c data) c s s1" and b: "writes f (p + c) (drop c data) k s1 s2"
    and c: "0 < c" "c \<le> length data"
  shows "writes f p data (c + k) s s2"
proof -
  have g: "grows f (file_block s2) s s2"
    using a b grows_trans unfolding writes_def by blast
  have rd: "all_readable s \<Longrightarrow> all_readable s1" using a grows_readable by (auto simp: writes_def)
  have "file_byte s2 q = (if p \<le> q \<and> q < p + (c + k) then data ! (q - p) else file_byte s q)"
    if q: "q < MAX_FILE" for q
  proof -
    have 2: "file_byte s2 q = (if p + c \<le> q \<and> q < p + c + k then drop c data ! (q - (p + c)) else file_byte s1 q)"
      and 1: "file_byte s1 q = (if p \<le> q \<and> q < p + c then take c data ! (q - p) else file_byte s q)"
      using a b q by (simp_all add: writes_def)
    consider "q < p" | "p \<le> q" "q < p + c" | "p + c \<le> q" "q < p + c + k" | "p + c + k \<le> q" by linarith
    then show ?thesis
      by cases (use 1 2 c in \<open>auto simp: nth_drop algebra_simps\<close>)
  qed
  with a b g rd c show ?thesis by (auto simp: writes_def add.assoc)
qed

lemma write_loop_spec:
  assumes "file_ok f s"
  shows "\<exists>out k s'. write_loop p rest s = (out, p + k, s') \<and> writes f p rest k s s'
    \<and> (if k = length rest then out = Ok () else \<exists>e. out = Err e)"
  using assms
proof (induction p rest s rule: write_loop.induct)
  case (1 p rest s)
  note ok = 1(2)
  show ?case
  proof (cases "rest = []")
    case True
    then have "write_loop p rest s = (Ok (), p + 0, s)" by (simp add: write_loop.simps [of p "[]"])
    with True writes_nothing [OF extends_refl [OF ok], of rest p] show ?thesis by fastforce
  next
    case False
    let ?n = "p div BLOCK_SIZE" and ?off = "p mod BLOCK_SIZE"
    define c where "c = min (length rest) (BLOCK_SIZE - ?off)"
    have off: "?off < BLOCK_SIZE" by (simp add: BLOCK_SIZE_def)
    have c: "0 < c" "c \<le> length rest" "c \<le> BLOCK_SIZE - ?off" using False off by (auto simp: c_def)
    note eq = write_loop.simps [of p rest s, unfolded Let_def, folded c_def]
    have stop: ?thesis if "write_loop p rest s = (Err e, p, s')" "extends f s s'"
      "MAX_FILE \<le> p \<or> \<not> all_readable s \<or> zones_full f (disk s')" for e s'
      using that writes_nothing [of f s s' rest p] False
      by (intro exI [of _ "Err e"] exI [of _ 0] exI [of _ s']) auto
    show ?thesis
    proof (cases "MAX_LOGICAL_BLOCKS \<le> ?n")
      case True
      then have "MAX_FILE \<le> p"
        by (metis MAX_FILE_def div_times_less_eq_dividend le_trans mult_le_mono1)
      moreover have "write_loop p rest s = (Err Errno_FBIG, p, s)"
        using False True by (simp add: eq map_block_id_def)
      ultimately show ?thesis using stop extends_refl [OF ok] by blast
    next
      case in_range: False
      then have n: "?n < MAX_LOGICAL_BLOCKS" by simp
      obtain r s1 where m: "map_block_id ?n True s = (r, s1)" by fastforce
      note mb = map_block_create [OF ok n, unfolded m maps_block_def, simplified]
      then have e: "extends f s s1" and ok1: "file_ok f s1" by (simp_all add: grows_def)
      let ?z = "zn s1 (node_of ?n)"
      consider (err) "r = Err Errno_IO" "\<not> all_readable s"
        | (zero) "r = Ok (ucast ?z)" "?z = 0" "zones_full f (disk s1)"
        | (bad) "r = Ok (ucast ?z)" "?z \<noteq> 0" "\<not> readable (disk s1) (unat ?z)"
        | (good) "r = Ok (ucast ?z)" "?z \<noteq> 0" "readable (disk s1) (unat ?z)" using mb by blast
      then show ?thesis
      proof cases
        case err
        then show ?thesis using stop [of Errno_IO s1] e False m by (simp add: eq)
      next
        case zero
        then show ?thesis using stop [of Errno_ERROR s1] e False m by (simp add: eq)
      next
        case bad
        then have "\<not> all_readable s"
          using grows_readable [OF e] node_of_ok [OF n] by (auto simp: all_readable_def)
        with bad show ?thesis using stop [of Errno_ERROR s1] e False m by (simp add: eq)
      next
        case good
        define s2 where "s2 = s1\<lparr>disk :=
          store_modify (unat ?z) (splice ?off (take c rest)) (disk s1)\<rparr>"
        have sp: "(\<lambda>bs. take ?off bs @ take c rest @ drop (?off + c) bs) = splice ?off (take c rest)"
          using c(2) by (auto simp: splice_def)
        have p: "p < MAX_FILE" using n by (simp add: MAX_FILE_def div_less_iff_less_mult BLOCK_SIZE_def)
        have lc: "length (take c rest) = c" using c(2) by simp
        note wc = write_chunk [OF ok1 refl p good(2) _ s2_def, unfolded lc, OF c(3)]
        have step: "write_loop p rest s = write_loop (p + c) (drop c rest) s2"
          using False good m by (simp add: eq sp s2_def)
        have "p + c \<le> MAX_FILE"
          by (rule chunk_end [OF n c(3)])
        then have w1: "writes f p (take c rest) c s s2"
          using wc extends_bytes [OF e] grows_trans [OF e wc(1)] lc by (simp add: writes_def)
        then have ok2: "file_ok f s2" by (simp add: writes_def grows_def)
        have "\<exists>out k s'. write_loop (p + c) (drop c rest) s2 = (out, p + c + k, s')
            \<and> writes f (p + c) (drop c rest) k s2 s'
            \<and> (if k = length (drop c rest) then out = Ok () else \<exists>e. out = Err e)"
          using 1(1) [OF False refl refl refl m [symmetric] good(1)] good ok2
          by (simp add: c_def [symmetric] sp s2_def)
        then obtain out k s' where w2: "write_loop (p + c) (drop c rest) s2 = (out, p + c + k, s')"
          "writes f (p + c) (drop c rest) k s2 s'"
          "if k = length (drop c rest) then out = Ok () else \<exists>e. out = Err e" by blast
        have "c + k = length rest \<longleftrightarrow> k = length (drop c rest)" using c(2) by auto
        with w2 step writes_more [OF w1 w2(2) c(1,2)] show ?thesis
          by (intro exI [of _ out] exI [of _ "c + k"] exI [of _ s']) (simp add: add.assoc)
      qed
    qed
  qed
qed

text \<open>Timestamps, the size and the other metadata of an inode do not matter for its zones.\<close>

lemma same_zones:
  assumes "disk s' = disk s" "file_system s' = file_system s"
    "direct_zones (disk_inode (inner s')) = direct_zones (disk_inode (inner s))"
    "single_indirect_zone (disk_inode (inner s')) = single_indirect_zone (disk_inode (inner s))"
    "double_indirect_zone (disk_inode (inner s')) = double_indirect_zone (disk_inode (inner s))"
  shows "zn s' n = zn s n" "file_ok f s' = file_ok f s" "file_block s' m = file_block s m"
    "file_byte s' q = file_byte s q" "file_zones s' = file_zones s" "all_readable s' = all_readable s"
proof -
  show z: "zn s' n = zn s n" for n using assms by (cases n) simp_all
  show "file_ok f s' = file_ok f s" using assms z by (simp add: file_ok_def disk_inode_ok_def)
  show b: "file_block s' m = file_block s m" for m using assms(1) z by (simp add: file_block_def)
  show "file_byte s' q = file_byte s q" using b by (simp add: file_byte_def)
  show "file_zones s' = file_zones s" using z by (simp add: file_zones_def)
  show "all_readable s' = all_readable s" using assms(1) z by (simp add: all_readable_def)
qed

lemma finish_write_fields:
  "disk (finish_write pos s) = disk s" "file_system (finish_write pos s) = file_system s"
  "direct_zones (disk_inode (inner (finish_write pos s))) = direct_zones (disk_inode (inner s))"
  "single_indirect_zone (disk_inode (inner (finish_write pos s))) = single_indirect_zone (disk_inode (inner s))"
  "double_indirect_zone (disk_inode (inner (finish_write pos s))) = double_indirect_zone (disk_inode (inner s))"
  "mode (disk_inode (inner (finish_write pos s))) = mode (disk_inode (inner s))"
  "link_count (disk_inode (inner (finish_write pos s))) = link_count (disk_inode (inner s))"
  by (simp_all add: finish_write_def set_inode_def set_disk_inode_def touch_modified_def mark_dirty_def)

lemmas finish_write_zones = same_zones [OF finish_write_fields(1-5)]

lemma finish_write_len:
  assumes "pos < 2 ^ 32"
  shows "file_len (finish_write pos s) = max (file_len s) pos"
proof -
  have "unat (word_of_nat pos :: u32) = pos" using assms by (intro unat_word_of_nat) simp
  then show ?thesis
    by (simp add: finish_write_def set_inode_def set_disk_inode_def touch_modified_def mark_dirty_def max_def)
qed

lemma write_at_run:
  assumes "file_ok f s" "data \<noteq> []"
  obtains k s1 e where "write_at p data s = (if k = 0 then Err e else Ok k, finish_write (p + k) s1)"
    and "writes f p data k s s1"
proof -
  obtain out k s1 where w: "write_loop p data s = (out, p + k, s1)" "writes f p data k s s1"
    "if k = length data then out = Ok () else \<exists>e. out = Err e"
    using write_loop_spec [OF assms(1)] by blast
  show ?thesis
  proof (cases "k = length data")
    case True
    with w(3) have "out = Ok ()" by simp
    with True assms(2) w(1) show ?thesis
      by (intro that [of k undefined s1, OF _ w(2)]) (simp add: write_at_def)
  next
    case False
    with w(3) obtain e where "out = Err e" by auto
    with assms(2) w(1) show ?thesis
      by (intro that [of k e s1, OF _ w(2)]) (simp add: write_at_def)
  qed
qed

lemma zoneless_fields:
  "file_size (zoneless d) = file_size d" "mode (zoneless d) = mode d"
  "link_count (zoneless d) = link_count d" "user_id (zoneless d) = user_id d"
  "group_id (zoneless d) = group_id d" "modification_time (zoneless d) = modification_time d"
  by (simp_all add: zoneless_def)

lemma grows_meta:
  assumes "grows f c s s'"
  shows "file_size (disk_inode (inner s')) = file_size (disk_inode (inner s))"
    "mode (disk_inode (inner s')) = mode (disk_inode (inner s))"
    "link_count (disk_inode (inner s')) = link_count (disk_inode (inner s))"
proof -
  have "zoneless (disk_inode (inner s')) = zoneless (disk_inode (inner s))"
    using assms by (simp add: grows_def)
  then show "file_size (disk_inode (inner s')) = file_size (disk_inode (inner s))"
    "mode (disk_inode (inner s')) = mode (disk_inode (inner s))"
    "link_count (disk_inode (inner s')) = link_count (disk_inode (inner s))"
    by (metis zoneless_fields)+
qed

lemma grows_frame:
  assumes ok: "file_ok f s" and g: "grows f c s s'" and z: "zone_used f (disk s) z" "z \<notin> file_zones s"
  shows "zone_used f (disk s') z" "blocks (disk s') (unat z) = blocks (disk s) (unat z)"
    "z \<notin> file_zones s'"
proof -
  show "zone_used f (disk s') z" using g z(1) by (simp add: grows_def)
  show n: "z \<notin> file_zones s'"
  proof
    assume "z \<in> file_zones s'"
    then obtain m where m: "node_ok m" "zn s' m \<noteq> 0" "z = zn s' m" by (auto simp: file_zones_def)
    show False
    proof (cases "zn s m = 0")
      case True
      with g m z(1) show False by (simp add: grows_def)
    next
      case False
      with g m have "z = zn s m" by (simp add: grows_def)
      with m(1) False z(2) show False by (auto simp: file_zones_def)
    qed
  qed
  then have "unat z \<notin> unat ` file_zones s'" by (metis imageE word_unat_eq_iff)
  moreover have "unat z \<notin> set (bitmap_blocks (zone_bitmap f))"
    by (rule zone_used_block [OF file_okD(2) [OF ok] z(1)])
  ultimately show "blocks (disk s') (unat z) = blocks (disk s) (unat z)"
    using g by (simp add: grows_def)
qed

end
