(* ===== verification/Minix_Truncate.thy ===== *)
theory Minix_Truncate
  imports Minix_Data
begin

text \<open>
  Truncating a file frees the zones of its tree, except those below an indirect block that cannot be
  read.  The zones that \<open>free_zone_tree\<close> visits are listed in its order and related to the nodes of
  the tree, whose zones the invariant keeps apart.
\<close>

section \<open>Freeing zones\<close>

definition freed :: "MinixFileSystem \<Rightarrow> u16 set \<Rightarrow> store \<Rightarrow> store \<Rightarrow> bool" where
  "freed f Z st st' \<longleftrightarrow> disk_ok f st' \<and> (\<forall>y. zone_used f st' y \<longleftrightarrow> y \<notin> Z \<and> zone_used f st y)
     \<and> (\<forall>k. k \<notin> set (bitmap_blocks (zone_bitmap f)) \<longrightarrow> blocks st' k = blocks st k)
     \<and> readable st' = readable st"

lemma freed_refl: "disk_ok f st \<Longrightarrow> freed f {} st st"
  by (simp add: freed_def)

lemma freed_trans: "freed f Y st st' \<Longrightarrow> freed f Z st' st'' \<Longrightarrow> freed f (Y \<union> Z) st st''"
  by (auto simp: freed_def)

lemma free_zone_freed:
  assumes "fs_ok f" "disk_ok f st" "zone_used f st z"
  shows "\<exists>st'. free_zone f z st = (Ok (), st') \<and> freed f {z} st st'"
  by (rule free_zone_spec [OF assms]) (auto simp: freed_def)

text \<open>The zones of a tree of the given depth that are freed, in this order.\<close>

fun tree_zones :: "store \<Rightarrow> u16 \<Rightarrow> nat \<Rightarrow> u16 list" where
  "tree_zones st z 0 = (if z = 0 then [] else [z])"
| "tree_zones st z (Suc l) =
     (if z = 0 then []
      else (if readable st (unat z)
            then concat (map (\<lambda>i. tree_zones st (zone_ptr st z i) l) [0..<INDIRECT_ENTRIES_PER_BLOCK]) else []) @ [z])"

lemma tree_zones_cong:
  "readable st' = readable st \<Longrightarrow>
   (\<And>z'. z' \<in> set (tree_zones st z l) \<Longrightarrow> blocks st' (unat z') = blocks st (unat z')) \<Longrightarrow>
     tree_zones st' z l = tree_zones st z l"
proof (induction l arbitrary: z)
  case 0
  then show ?case by simp
next
  case (Suc l)
  show ?case
  proof (cases "z = 0")
    case False
    have "zone_ptr st' z i = zone_ptr st z i" for i
      using Suc.prems(2) [of z] False by (intro zone_ptr_cong) simp
    moreover have "tree_zones st' (zone_ptr st z i) l = tree_zones st (zone_ptr st z i) l"
      if "i < INDIRECT_ENTRIES_PER_BLOCK" "readable st (unat z)" for i
      using that False by (intro Suc.IH Suc.prems) auto
    then have "readable st (unat z) \<Longrightarrow> map (\<lambda>i. tree_zones st' (zone_ptr st z i) l) [0..<INDIRECT_ENTRIES_PER_BLOCK]
        = map (\<lambda>i. tree_zones st (zone_ptr st z i) l) [0..<INDIRECT_ENTRIES_PER_BLOCK]"
      by (intro map_cong) simp_all
    ultimately show ?thesis using False Suc.prems(1)
      by (cases "readable st (unat z)") (auto intro!: arg_cong [of _ _ concat])
  qed simp
qed

definition tree_freeable :: "MinixFileSystem \<Rightarrow> store \<Rightarrow> u16 list \<Rightarrow> bool" where
  "tree_freeable f st zs \<longleftrightarrow> distinct zs \<and> (\<forall>z\<in>set zs. zone_used f st z)"

lemma tree_freeable_freed:
  assumes "tree_freeable f st zs" "freed f Y st st'" "Y \<inter> set zs = {}"
  shows "tree_freeable f st' zs"
  using assms by (auto simp: tree_freeable_def freed_def)

lemma freed_tree_zones:
  assumes f: "fs_ok f" and fr: "freed f Y st st'" and t: "tree_freeable f st (tree_zones st z l)"
  shows "tree_zones st' z l = tree_zones st z l"
  using fr t zone_used_block(1) [OF f]
  by (intro tree_zones_cong) (auto simp: freed_def tree_freeable_def)

lemma free_list:
  assumes f: "fs_ok f"
    and step: "\<And>z st. disk_ok f st \<Longrightarrow> tree_freeable f st (tree_zones st z l) \<Longrightarrow>
      \<exists>st'. free_zone_tree f z l st = (Ok (), st') \<and> freed f (set (tree_zones st z l)) st st'"
  shows "disk_ok f st \<Longrightarrow> tree_freeable f st (concat (map (\<lambda>z. tree_zones st z l) zs)) \<Longrightarrow>
    \<exists>st'. for_op (\<lambda>z. free_zone_tree f z l) zs st = (Ok (), st')
      \<and> freed f (set (concat (map (\<lambda>z. tree_zones st z l) zs))) st st'"
proof (induction zs arbitrary: st)
  case Nil
  then show ?case by (simp add: freed_refl)
next
  case (Cons z zs)
  have here: "tree_freeable f st (tree_zones st z l)"
    and there: "tree_freeable f st (concat (map (\<lambda>z. tree_zones st z l) zs))"
    and disj: "set (tree_zones st z l) \<inter> set (concat (map (\<lambda>z. tree_zones st z l) zs)) = {}"
    using Cons.prems(2) by (auto simp: tree_freeable_def)
  obtain st1 where st1: "free_zone_tree f z l st = (Ok (), st1)"
    "freed f (set (tree_zones st z l)) st st1" using step [OF Cons.prems(1) here] by blast
  have each: "tree_freeable f st (tree_zones st y l)" if "y \<in> set zs" for y
    using there that by (auto simp: tree_freeable_def distinct_concat_iff)
  have same: "map (\<lambda>z. tree_zones st1 z l) zs = map (\<lambda>z. tree_zones st z l) zs"
    using freed_tree_zones [OF f st1(2) each] by (intro map_cong) simp_all
  have "disk_ok f st1" using st1(2) by (simp add: freed_def)
  from Cons.IH [OF this, unfolded same, OF tree_freeable_freed [OF there st1(2) disj]]
  obtain st2 where "for_op (\<lambda>z. free_zone_tree f z l) zs st1 = (Ok (), st2)"
    "freed f (set (concat (map (\<lambda>z. tree_zones st z l) zs))) st1 st2" by blast
  with st1 freed_trans [OF st1(2)] show ?case by fastforce
qed

lemma free_zone_tree_spec:
  assumes f: "fs_ok f"
  shows "disk_ok f st \<Longrightarrow> tree_freeable f st (tree_zones st z l) \<Longrightarrow>
    \<exists>st'. free_zone_tree f z l st = (Ok (), st') \<and> freed f (set (tree_zones st z l)) st st'"
proof (induction l arbitrary: z st)
  case 0
  then show ?case
    using free_zone_freed [OF f 0(1), of z] by (auto simp: freed_refl tree_freeable_def)
next
  case (Suc l)
  show ?case
  proof (cases "z = 0")
    case True
    then show ?thesis using Suc.prems by (simp add: freed_refl)
  next
    case False
    let ?cs = "if readable st (unat z)
      then map (view_entry u16_of 2 (blocks st (unat z))) [0..<INDIRECT_ENTRIES_PER_BLOCK] else []"
    let ?sub = "concat (map (\<lambda>c. tree_zones st c l) ?cs)"
    have tz: "tree_zones st z (Suc l) = ?sub @ [z]"
      using False by (simp add: zone_ptr_def comp_def)
    have "tree_freeable f st ?sub" "zone_used f st z" "z \<notin> set ?sub"
      using Suc.prems(2) unfolding tz by (auto simp: tree_freeable_def)
    moreover from this(1) obtain st1 where
      st1: "for_op (\<lambda>z. free_zone_tree f z l) ?cs st = (Ok (), st1)" "freed f (set ?sub) st st1"
      using free_list [OF f Suc.IH Suc.prems(1)] by blast
    ultimately have "disk_ok f st1" "zone_used f st1 z" by (simp_all add: freed_def)
    then obtain st2 where st2: "free_zone f z st1 = (Ok (), st2)" "freed f {z} st1 st2"
      using free_zone_freed [OF f] by blast
    have "free_zone_tree f z (Suc l) st = (Ok (), st2)"
      using False st1(1) st2(1) by (cases "readable st (unat z)") (simp_all add: bind_op_def)
    with freed_trans [OF st1(2) st2(2)] show ?thesis unfolding tz by fastforce
  qed
qed

section \<open>The nodes of a file\<close>

text \<open>The nodes below one that are reached through readable blocks.\<close>

fun subtree :: "store \<Rightarrow> DiskInode \<Rightarrow> node \<Rightarrow> nat \<Rightarrow> node list" where
  "subtree st d p 0 = [p]"
| "subtree st d p (Suc l) =
     (if readable st (unat (zone_of st d p))
      then concat (map (\<lambda>i. subtree st d (child p i) l) [0..<INDIRECT_ENTRIES_PER_BLOCK]) else []) @ [p]"

inductive depth :: "node \<Rightarrow> nat \<Rightarrow> bool" where
  "depth Single 1"
| "depth Double 2"
| "i < INDIRECT_ENTRIES_PER_BLOCK \<Longrightarrow> depth (DoubleEntry i) 1"
| "i < INDIRECT_ENTRIES_PER_BLOCK \<Longrightarrow> depth (SingleEntry i) 0"
| "i < INDIRECT_ENTRIES_PER_BLOCK \<Longrightarrow> j < INDIRECT_ENTRIES_PER_BLOCK \<Longrightarrow> depth (Leaf i j) 0"

lemma depth_Suc:
  assumes "depth p (Suc l)"
  shows "is_parent p" "i < INDIRECT_ENTRIES_PER_BLOCK \<Longrightarrow> depth (child p i) l"
proof -
  show "is_parent p" using assms by cases auto
  assume i: "i < INDIRECT_ENTRIES_PER_BLOCK"
  from assms show "depth (child p i) l"
    by cases (use i depth.intros(3) [of i] in \<open>auto intro: depth.intros simp: numeral_2_eq_2\<close>)
qed

definition present :: "store \<Rightarrow> DiskInode \<Rightarrow> node list \<Rightarrow> node list" where
  "present st d ns = filter (\<lambda>n. zone_of st d n \<noteq> 0) ns"

lemma present_append: "present st d (ms @ ns) = present st d ms @ present st d ns"
  by (simp add: present_def)

lemma present_concat: "present st d (concat nss) = concat (map (present st d) nss)"
  by (simp add: present_def [abs_def] filter_concat)

lemma tree_zones_nodes:
  "depth p l \<Longrightarrow> tree_zones st (zone_of st d p) l = map (zone_of st d) (present st d (subtree st d p l))"
proof (induction l arbitrary: p)
  case 0
  then show ?case by (simp add: present_def)
next
  case (Suc l)
  note par = depth_Suc(1) [OF Suc.prems] and ch = depth_Suc(2) [OF Suc.prems]
  have kids: "tree_zones st (zone_ptr st (zone_of st d p) i) l
      = map (zone_of st d) (present st d (subtree st d (child p i) l))"
    if "i < INDIRECT_ENTRIES_PER_BLOCK" for i
    using Suc.IH [OF ch [OF that]] parent_facts(3) [OF par] by simp
  let ?kids = "concat (map (\<lambda>i. subtree st d (child p i) l) [0..<INDIRECT_ENTRIES_PER_BLOCK])"
  have all: "concat (map (\<lambda>i. tree_zones st (zone_ptr st (zone_of st d p) i) l)
        [0..<INDIRECT_ENTRIES_PER_BLOCK]) = map (zone_of st d) (present st d ?kids)"
    unfolding present_concat map_concat map_map comp_def
    by (intro arg_cong [of _ _ concat] map_cong) (simp_all add: kids)
  show ?case
  proof (cases "zone_of st d p = 0")
    case True
    have z: "tree_zones st 0 l = []" by (cases l) simp_all
    have nil: "concat (map (\<lambda>i :: nat. [] :: u16 list) xs) = []" for xs by (induction xs) simp_all
    have "present st d ?kids = []"
      using all unfolding True by (simp add: z nil)
    with True show ?thesis by (simp add: present_append) (simp add: present_def)
  next
    case False
    with all show ?thesis by (auto simp: present_append) (simp_all add: present_def)
  qed
qed

definition direct_nodes :: "node list" where
  "direct_nodes = map Direct [0..<DIRECT_ZONE_COUNT]"

definition visited :: "store \<Rightarrow> DiskInode \<Rightarrow> node list" where
  "visited st d = direct_nodes @ subtree st d Single 1 @ subtree st d Double 2"

lemma subtree_Single:
  "subtree st d Single 1 = (if readable st (unat (zone_of st d Single)) then map SingleEntry [0..<INDIRECT_ENTRIES_PER_BLOCK] else []) @ [Single]"
  by simp

lemma subtree_Double:
  "subtree st d Double 2
     = (if readable st (unat (zone_of st d Double))
        then concat (map (\<lambda>i. (if readable st (unat (zone_of st d (DoubleEntry i))) then map (Leaf i) [0..<INDIRECT_ENTRIES_PER_BLOCK] else [])
            @ [DoubleEntry i]) [0..<INDIRECT_ENTRIES_PER_BLOCK]) else []) @ [Double]"
  by (simp add: numeral_2_eq_2 cong: if_cong)

text \<open>The indirect blocks on the way to a node can be read.\<close>

fun reached :: "inode_state \<Rightarrow> node \<Rightarrow> bool" where
  "reached s (SingleEntry i) = readable (disk s) (unat (zn s Single))"
| "reached s (DoubleEntry i) = readable (disk s) (unat (zn s Double))"
| "reached s (Leaf i j) = (readable (disk s) (unat (zn s Double)) \<and> readable (disk s) (unat (zn s (DoubleEntry i))))"
| "reached s _ = True"

definition reached_zones :: "inode_state \<Rightarrow> u16 set" where
  "reached_zones s = {zn s n | n. node_ok n \<and> zn s n \<noteq> 0 \<and> reached s n}"

lemma set_visited: "set (visited (disk s) (disk_inode (inner s))) = {n. node_ok n \<and> reached s n}"
proof -
  have "n \<in> set (visited (disk s) (disk_inode (inner s))) \<longleftrightarrow> node_ok n \<and> reached s n" for n
    unfolding visited_def direct_nodes_def subtree_Single subtree_Double
    by (cases n) (auto simp: image_iff)
  then show ?thesis by blast
qed

lemma distinct_visited: "distinct (visited st d)"
proof -
  have "distinct (concat (map (\<lambda>i. (if c i then map (Leaf i) [0..<n] else []) @ [DoubleEntry i]) [0..<m]))" for c m n
    by (induction m) (auto simp: distinct_map inj_on_def split: if_splits)
  then show ?thesis
    unfolding visited_def direct_nodes_def subtree_Single subtree_Double
    by (auto simp: distinct_map inj_on_def split: if_splits)
qed

text \<open>The zones that \<open>truncate\<close> frees, in its order.\<close>

definition zone_list :: "inode_state \<Rightarrow> u16 list" where
  "zone_list s = map (zn s) (present (disk s) (disk_inode (inner s)) (visited (disk s) (disk_inode (inner s))))"

lemma set_zone_list: "set (zone_list s) = reached_zones s"
  by (auto simp: zone_list_def present_def set_visited reached_zones_def)

lemma distinct_zone_list: "file_ok f s \<Longrightarrow> distinct (zone_list s)"
  unfolding zone_list_def present_def
  by (simp add: distinct_map distinct_visited)
    (auto simp: inj_on_def set_visited intro: file_ok_inj)

lemma zone_list_split:
  "zone_list s = map (zn s) (present (disk s) (disk_inode (inner s)) direct_nodes)
     @ tree_zones (disk s) (single_indirect_zone (disk_inode (inner s))) 1
     @ tree_zones (disk s) (double_indirect_zone (disk_inode (inner s))) 2"
  using tree_zones_nodes [OF depth.intros(1), of "disk s" "disk_inode (inner s)"]
    tree_zones_nodes [OF depth.intros(2), of "disk s" "disk_inode (inner s)"]
  by (simp only: zone_list_def visited_def present_append map_append zone_of.simps)

lemma reached_all:
  assumes "all_readable s"
  shows "reached_zones s = file_zones s"
proof -
  have "reached s n" if n: "node_ok n" "zn s n \<noteq> 0" for n
  proof -
    have rd: "readable (disk s) (unat (zn s m))" if "node_ok m" "zn s m \<noteq> 0" for m
      using assms that by (simp add: all_readable_def)
    show ?thesis
      using n rd [of Single] rd [of Double] rd [of "DoubleEntry i" for i] by (cases n) (auto simp: zone_ptr_def split: if_splits)
  qed
  then show ?thesis by (auto simp: reached_zones_def file_zones_def)
qed

section \<open>Truncating\<close>

lemma free_direct:
  assumes f: "fs_ok f"
  shows "disk_ok f st \<Longrightarrow> tree_freeable f st (filter (\<lambda>z. z \<noteq> 0) zs) \<Longrightarrow>
    \<exists>st'. for_op (free_zone f) zs st = (Ok (), st') \<and> freed f (set (filter (\<lambda>z. z \<noteq> 0) zs)) st st'"
proof -
  have t: "concat (map (\<lambda>z. tree_zones st z 0) zs) = filter (\<lambda>z. z \<noteq> 0) zs" for st
    by (induction zs) simp_all
  have "free_zone_tree f z 0 = free_zone f z" for z by (rule ext) (simp add: free_zone_def)
  then have "(\<lambda>z. free_zone_tree f z 0) = free_zone f" by (rule ext)
  with free_list [OF f free_zone_tree_spec [OF f], where l = 0 and zs = zs and st = st, unfolded t]
  show "disk_ok f st \<Longrightarrow> tree_freeable f st (filter (\<lambda>z. z \<noteq> 0) zs) \<Longrightarrow>
    \<exists>st'. for_op (free_zone f) zs st = (Ok (), st') \<and> freed f (set (filter (\<lambda>z. z \<noteq> 0) zs)) st st'"
    by (simp only:)
qed

lemma direct_present:
  assumes "disk_inode_ok d"
  shows "map (zone_of st d) (present st d direct_nodes) = filter (\<lambda>z. z \<noteq> 0) (direct_zones d)"
proof -
  have "direct_zones d = map (zone_of st d) direct_nodes"
    using assms by (intro nth_equalityI) (simp_all add: direct_nodes_def disk_inode_ok_def)
  then show ?thesis by (simp add: present_def filter_map comp_def)
qed

lemma tree_freeable_append:
  "tree_freeable f st (ys @ zs) \<longleftrightarrow>
     tree_freeable f st ys \<and> tree_freeable f st zs \<and> set ys \<inter> set zs = {}"
  by (auto simp: tree_freeable_def)

lemma truncate_run:
  assumes ok: "file_ok f s"
    and t: "file_type (mode (disk_inode (inner s))) = Some Regular
      \<or> file_type (mode (disk_inode (inner s))) = Some Directory"
  obtains s' where "truncate s = (Ok (), s')" "freed f (reached_zones s) (disk s) (disk s')"
    and "disk_inode (inner s') = (disk_inode (inner s))\<lparr>direct_zones := replicate DIRECT_ZONE_COUNT 0,
      single_indirect_zone := 0, double_indirect_zone := 0, file_size := 0,
      modification_time := current_time s\<rparr>"
    and "file_system s' = file_system s"
proof -
  let ?d = "disk_inode (inner s)" and ?st = "disk s"
  note f = file_okD(2) [OF ok] and d0 = file_okD(3) [OF ok]
  let ?A = "filter (\<lambda>z. z \<noteq> 0) (direct_zones ?d)" and ?B = "tree_zones ?st (single_indirect_zone ?d) 1"
    and ?C = "tree_zones ?st (double_indirect_zone ?d) 2"
  have zl: "zone_list s = ?A @ ?B @ ?C"
    unfolding zone_list_split direct_present [OF file_okD(5) [OF ok]] ..
  have "tree_freeable f ?st (zone_list s)"
    unfolding tree_freeable_def set_zone_list using distinct_zone_list [OF ok] file_ok_used [OF ok]
    by (auto simp: reached_zones_def)
  then have A: "tree_freeable f ?st ?A" and B: "tree_freeable f ?st ?B" and C: "tree_freeable f ?st ?C"
    and dis: "set ?A \<inter> set ?B = {}" "(set ?A \<union> set ?B) \<inter> set ?C = {}"
    unfolding zl tree_freeable_append set_append by blast+
  obtain st1 where st1: "for_op (free_zone f) (direct_zones ?d) ?st = (Ok (), st1)" "freed f (set ?A) ?st st1"
    using free_direct [OF f d0 A] by blast
  have d1: "disk_ok f st1" using st1(2) by (simp add: freed_def)
  note B1 = freed_tree_zones [OF f st1(2) B]
  obtain st2 where st2: "free_zone_tree f (single_indirect_zone ?d) 1 st1 = (Ok (), st2)"
    "freed f (set ?B) st1 st2"
    using free_zone_tree_spec [OF f d1, of "single_indirect_zone ?d" 1]
      tree_freeable_freed [OF B st1(2) dis(1)] unfolding B1 by blast
  note fr2 = freed_trans [OF st1(2) st2(2)]
  have d2: "disk_ok f st2" using st2(2) by (simp add: freed_def)
  note C2 = freed_tree_zones [OF f fr2 C]
  obtain st3 where st3: "free_zone_tree f (double_indirect_zone ?d) 2 st2 = (Ok (), st3)"
    "freed f (set ?C) st2 st3"
    using free_zone_tree_spec [OF f d2, of "double_indirect_zone ?d" 2]
      tree_freeable_freed [OF C fr2 dis(2)] unfolding C2 by blast
  have "reached_zones s = (set ?A \<union> set ?B) \<union> set ?C"
    unfolding set_zone_list [symmetric] zl by auto
  then have fr: "freed f (reached_zones s) ?st st3" using freed_trans [OF fr2 st3(2)] by simp
  define s' where "s' = snd (truncate s)"
  have run: "truncate s = (Ok (), set_inode (touch_modified (current_time s))
      (set_disk_inode (\<lambda>d. d\<lparr>direct_zones := replicate DIRECT_ZONE_COUNT 0,
         single_indirect_zone := 0, double_indirect_zone := 0, file_size := 0\<rparr>) (s\<lparr>disk := st3\<rparr>)))"
    using t st1(1) st2(1) st3(1) file_okD(1) [OF ok]
    by (auto simp: truncate_def Let_def bind_op_def lift_store_def)
  then have "truncate s = (Ok (), s')" "disk s' = st3" "file_system s' = file_system s"
    "disk_inode (inner s') = (disk_inode (inner s))\<lparr>direct_zones := replicate DIRECT_ZONE_COUNT 0,
      single_indirect_zone := 0, double_indirect_zone := 0, file_size := 0,
      modification_time := current_time s\<rparr>"
    by (simp_all add: s'_def set_inode_def set_disk_inode_def touch_modified_def mark_dirty_def)
  with fr that show ?thesis by simp
qed

lemma empty_inode_zones:
  assumes "direct_zones d = replicate DIRECT_ZONE_COUNT 0" "single_indirect_zone d = 0"
    "double_indirect_zone d = 0" "node_ok n"
  shows "zone_of st d n = 0"
  using assms by (cases n) simp_all

end
