(* ===== verification/Minix_Dir.thy ===== *)
theory Minix_Dir
  imports Minix_Truncate
begin

text \<open>
  Directories of the Minix file system (\<open>kernel/src/fs/minix.rs\<close>): scanning, adding and removing
  entries.  A directory is a file whose contents are an array of 16-byte entries; the lemmas show
  that looking up, adding and removing names are the operations of a finite map.
\<close>

section \<open>The code\<close>

text \<open>\<open>Iterator::find_map\<close> with a closure that may panic.\<close>

fun find_map :: "('a \<Rightarrow> 'b option outcome) \<Rightarrow> 'a list \<Rightarrow> 'b option outcome" where
  "find_map visit [] = Ok None"
| "find_map visit (x # xs) =
     (case visit x of
        Ok None \<Rightarrow> find_map visit xs
      | r \<Rightarrow> r)"

abbreviation dirent_at :: "u8 list \<Rightarrow> nat \<Rightarrow> DiskDirectoryEntry" where
  "dirent_at \<equiv> view_entry dirent_of DIRECTORY_ENTRY_SIZE"

fun scan_blocks ::
  "(nat \<Rightarrow> DiskDirectoryEntry \<Rightarrow> 'b option outcome) \<Rightarrow> nat \<Rightarrow> nat list \<Rightarrow> (inode_state, 'b option) op" where
  "scan_blocks visit entry_count [] s = (Ok None, s)"
| "scan_blocks visit entry_count (first_slot # rest) s =
     (case map_block_id (first_slot div DIRECTORY_ENTRIES_PER_BLOCK) False s of
        (Ok block_id, s1) \<Rightarrow>
          if block_id = 0 then scan_blocks visit entry_count rest s1
          else if \<not> readable (disk s1) (unat block_id) then (Err Errno_IO, s1)
          else
            (let entries_in_block = min (entry_count - first_slot) DIRECTORY_ENTRIES_PER_BLOCK;
                 block = blocks (disk s1) (unat block_id)
             in case find_map (\<lambda>offset. visit (first_slot + offset) (dirent_at block offset))
                       [0..<entries_in_block] of
                  Ok None \<Rightarrow> scan_blocks visit entry_count rest s1
                | found \<Rightarrow> (found, s1))
      | (Err e, s1) \<Rightarrow> (Err e, s1)
      | (Panic, s1) \<Rightarrow> (Panic, s1))"

definition entry_count :: "inode_state \<Rightarrow> nat" where
  "entry_count s = unat (file_size (disk_inode (inner s))) div DIRECTORY_ENTRY_SIZE"

definition find_directory_entry ::
  "(nat \<Rightarrow> DiskDirectoryEntry \<Rightarrow> 'b option outcome) \<Rightarrow> (inode_state, 'b option) op" where
  "find_directory_entry visit s =
     scan_blocks visit (entry_count s)
       (map (\<lambda>i. i * DIRECTORY_ENTRIES_PER_BLOCK)
          [0..<div_ceil (entry_count s) DIRECTORY_ENTRIES_PER_BLOCK]) s"

definition write_directory_entry :: "nat \<Rightarrow> DiskDirectoryEntry \<Rightarrow> (inode_state, unit) op" where
  "write_directory_entry slot dirent s =
     (case map_block_id (slot div DIRECTORY_ENTRIES_PER_BLOCK) True s of
        (Ok block_id, s1) \<Rightarrow>
          if block_id = 0 then (Err Errno_ERROR, s1)
          else if \<not> readable (disk s1) (unat block_id) then (Err Errno_IO, s1)
          else
            let s2 = s1\<lparr>disk := store_modify (unat block_id)
                  (\<lambda>bs. view_update dirent_bytes DIRECTORY_ENTRY_SIZE bs
                     (slot mod DIRECTORY_ENTRIES_PER_BLOCK) dirent) (disk s1)\<rparr>
            in (Ok (), finish_write ((slot + 1) * DIRECTORY_ENTRY_SIZE) s2)
      | (Err e, s1) \<Rightarrow> (Err e, s1)
      | (Panic, s1) \<Rightarrow> (Panic, s1))"

definition is_directory :: "inode_state \<Rightarrow> bool" where
  "is_directory s \<longleftrightarrow> file_type (mode (disk_inode (inner s))) = Some Directory"

definition lookup :: "u8 list \<Rightarrow> (inode_state, u16 option) op" where
  "lookup name s =
     (if \<not> is_directory s then (Panic, s)
      else find_directory_entry (\<lambda>_ dirent.
        if inode_number dirent = 0 then Ok None
        else case dirent_name dirent of
          Ok n \<Rightarrow> Ok (if n = name then Some (inode_number dirent) else None)
        | Err e \<Rightarrow> Err e
        | Panic \<Rightarrow> Panic) s)"

definition add_entry :: "u8 list \<Rightarrow> u16 \<Rightarrow> (inode_state, unit) op" where
  "add_entry name inum s =
     (if \<not> is_directory s then (Panic, s)
      else
        bind_op (find_directory_entry (\<lambda>slot dirent.
            Ok (if inode_number dirent = 0 then Some slot else None)))
          (\<lambda>found s1.
            let slot = (case found of Some n \<Rightarrow> n | None \<Rightarrow> entry_count s) in
            case dirent_new name inum of
              Ok dirent \<Rightarrow> write_directory_entry slot dirent s1
            | Err e \<Rightarrow> (Err e, s1)
            | Panic \<Rightarrow> (Panic, s1)) s)"

definition remove_entry :: "u8 list \<Rightarrow> (inode_state, u16) op" where
  "remove_entry name s =
     (if \<not> is_directory s then (Panic, s)
      else
        bind_op (find_directory_entry (\<lambda>slot dirent.
            if inode_number dirent = 0 then Ok None
            else case dirent_name dirent of
              Ok n \<Rightarrow> Ok (if n = name then Some (slot, inode_number dirent) else None)
            | Err e \<Rightarrow> Err e
            | Panic \<Rightarrow> Panic))
          (\<lambda>found s1.
            case found of
              None \<Rightarrow> (Err Errno_NOENT, s1)
            | Some (slot, inum) \<Rightarrow>
                bind_op (write_directory_entry slot dirent_empty) (\<lambda>_ s2. (Ok inum, s2)) s1) s)"

definition is_empty_directory :: "(inode_state, bool) op" where
  "is_empty_directory s =
     (if \<not> is_directory s then (Panic, s)
      else
        bind_op (find_directory_entry (\<lambda>_ dirent.
            if inode_number dirent = 0 then Ok None
            else case dirent_name dirent of
              Ok n \<Rightarrow> Ok (if n \<noteq> [0x2E] \<and> n \<noteq> [0x2E, 0x2E] then Some () else None)
            | Err e \<Rightarrow> Err e
            | Panic \<Rightarrow> Panic))
          (\<lambda>found s1. (Ok (found = None), s1)) s)"

section \<open>Entries of a directory\<close>

definition dir_entry :: "inode_state \<Rightarrow> nat \<Rightarrow> DiskDirectoryEntry" where
  "dir_entry s slot =
     dirent_at (file_block s (slot div DIRECTORY_ENTRIES_PER_BLOCK)) (slot mod DIRECTORY_ENTRIES_PER_BLOCK)"

definition live :: "inode_state \<Rightarrow> nat \<Rightarrow> bool" where
  "live s slot \<longleftrightarrow> slot < entry_count s \<and> inode_number (dir_entry s slot) \<noteq> 0"

definition entry_name :: "DiskDirectoryEntry \<Rightarrow> u8 list" where
  "entry_name e = takeWhile (\<lambda>b. b \<noteq> 0) (name_bytes e)"

text \<open>A name is mapped to the inode of the first live entry that carries it.\<close>

definition dir_map :: "inode_state \<Rightarrow> u8 list \<Rightarrow> u16 option" where
  "dir_map s name =
     map_option (\<lambda>i. inode_number (dir_entry s i))
       (find (\<lambda>i. inode_number (dir_entry s i) \<noteq> 0 \<and> entry_name (dir_entry s i) = name)
          [0..<entry_count s])"

definition dir_ok :: "MinixFileSystem \<Rightarrow> inode_state \<Rightarrow> bool" where
  "dir_ok f s \<longleftrightarrow> file_ok f s \<and> all_readable s \<and> is_directory s
     \<and> file_len s \<le> MAX_FILE
     \<and> (\<forall>i. live s i \<longrightarrow> utf8 (entry_name (dir_entry s i)))
     \<and> (\<forall>i j. live s i \<longrightarrow> live s j \<longrightarrow> entry_name (dir_entry s i) = entry_name (dir_entry s j) \<longrightarrow> i = j)"

text \<open>The slots that a scan visits: those of the mapped blocks.\<close>

definition visited :: "inode_state \<Rightarrow> nat \<Rightarrow> bool" where
  "visited s i \<longleftrightarrow> zn s (node_of (i div DIRECTORY_ENTRIES_PER_BLOCK)) \<noteq> 0"

lemma find_map_append:
  "find_map v (xs @ ys) = (case find_map v xs of Ok None \<Rightarrow> find_map v ys | r \<Rightarrow> r)"
  by (induction xs) (auto split: outcome.splits option.splits)

lemma find_map_cong: "xs = ys \<Longrightarrow> (\<And>x. x \<in> set ys \<Longrightarrow> v x = w x) \<Longrightarrow> find_map v xs = find_map w ys"
  by (induction ys arbitrary: xs) (auto split: outcome.splits option.splits)

lemma find_map_map: "find_map v (map g xs) = find_map (\<lambda>x. v (g x)) xs"
  by (induction xs) (auto split: outcome.splits option.splits)

lemma slot_parts:
  assumes "o1 < DIRECTORY_ENTRIES_PER_BLOCK"
  shows "(b * DIRECTORY_ENTRIES_PER_BLOCK + o1) div DIRECTORY_ENTRIES_PER_BLOCK = b"
    "(b * DIRECTORY_ENTRIES_PER_BLOCK + o1) mod DIRECTORY_ENTRIES_PER_BLOCK = o1"
  using assms by (simp_all add: layout_consts)

lemma slot_in_range:
  assumes "i < entry_count s" "file_len s \<le> MAX_FILE"
  shows "i div DIRECTORY_ENTRIES_PER_BLOCK < MAX_LOGICAL_BLOCKS"
proof -
  have "i * 16 < MAX_FILE" using assms by (simp add: entry_count_def layout_consts)
  then show ?thesis by (simp add: MAX_FILE_def layout_consts div_less_iff_less_mult)
qed

lemma visited_split:
  assumes b: "b * DIRECTORY_ENTRIES_PER_BLOCK < c"
    and n: "n = min (c - b * DIRECTORY_ENTRIES_PER_BLOCK) DIRECTORY_ENTRIES_PER_BLOCK"
  shows "filter (visited s) [b * DIRECTORY_ENTRIES_PER_BLOCK..<c] =
    (if zn s (node_of b) = 0 then [] else map (\<lambda>i. b * DIRECTORY_ENTRIES_PER_BLOCK + i) [0..<n])
    @ filter (visited s) [Suc b * DIRECTORY_ENTRIES_PER_BLOCK..<c]"
proof -
  let ?D = "DIRECTORY_ENTRIES_PER_BLOCK"
  have nD: "n \<le> ?D" "b * ?D + n \<le> c" using b n by simp_all
  have here: "map (\<lambda>i. b * ?D + i) [0..<n] = [b * ?D..<b * ?D + n]"
    by (simp add: map_add_upt add.commute [of "b * ?D"])
  have vis: "visited s (b * ?D + i) \<longleftrightarrow> zn s (node_of b) \<noteq> 0" if "i < n" for i
    using slot_parts(1) [of i b] that nD(1) by (simp add: visited_def)
  have "[b * ?D..<c] = [b * ?D..<b * ?D + n] @ [b * ?D + n..<c]"
    using upt_add_eq_append [of "b * ?D" "b * ?D + n" "c - (b * ?D + n)"] nD(2) by simp
  moreover have "[b * ?D + n..<c] = [Suc b * ?D..<c]"
    using n by (cases "c - b * ?D < ?D") (simp_all add: min_def add.commute)
  moreover have "filter (visited s) [b * ?D..<b * ?D + n]
      = (if zn s (node_of b) = 0 then [] else [b * ?D..<b * ?D + n])"
    unfolding here [symmetric] filter_map using vis by (auto simp: comp_def intro!: filter_True filter_False)
  ultimately show ?thesis by (simp add: here)
qed

lemma scan_blocks_spec:
  assumes fs: "file_system s = Some f" and rd: "all_readable s"
    and c: "c \<le> entry_count s" "file_len s \<le> MAX_FILE"
    and B: "B = div_ceil c DIRECTORY_ENTRIES_PER_BLOCK"
  shows "scan_blocks visit c (map (\<lambda>i. i * DIRECTORY_ENTRIES_PER_BLOCK) [b..<B]) s =
    (find_map (\<lambda>i. visit i (dir_entry s i)) (filter (visited s) [b * DIRECTORY_ENTRIES_PER_BLOCK..<c]), s)"
proof (induction "B - b" arbitrary: b)
  case 0
  then have "c \<le> b * DIRECTORY_ENTRIES_PER_BLOCK"
    unfolding B by (simp add: div_ceil_def layout_consts)
  with 0 show ?case by simp
next
  case (Suc d)
  let ?D = DIRECTORY_ENTRIES_PER_BLOCK
  have bB: "b < B" using Suc.hyps(2) by simp
  then have bc: "b * ?D < c" unfolding B by (simp add: div_ceil_def layout_consts)
  define n where "n = min (c - b * ?D) ?D"
  have n: "n \<le> ?D" by (simp add: n_def)
  have div: "b * ?D div ?D = b" by (simp add: layout_consts)
  have bM: "b < MAX_LOGICAL_BLOCKS" using slot_in_range [of "b * ?D" s] bc c div by simp
  note look = map_block_lookup [OF fs rd bM]
  have IH: "scan_blocks visit c (map (\<lambda>i. i * ?D) [Suc b..<B]) s =
    (find_map (\<lambda>i. visit i (dir_entry s i)) (filter (visited s) [Suc b * ?D..<c]), s)"
    using Suc.hyps by (intro Suc.hyps(1)) simp
  have upt: "[b..<B] = b # [Suc b..<B]" using bB by (simp add: upt_conv_Cons)
  note split = visited_split [OF bc n_def, of s]
  show ?case
  proof (cases "zn s (node_of b) = 0")
    case True
    with IH look show ?thesis by (simp add: upt div split)
  next
    case False
    then have r: "readable (disk s) (unat (zn s (node_of b)))"
      using rd node_of_ok [OF bM] by (simp add: all_readable_def)
    have "dirent_at (blocks (disk s) (unat (zn s (node_of b)))) i = dir_entry s (b * ?D + i)"
      if "i < n" for i
      using that n False slot_parts [of i b] by (simp add: dir_entry_def file_block_def)
    then have fm: "find_map (\<lambda>i. visit (b * ?D + i) (dirent_at (blocks (disk s) (unat (zn s (node_of b)))) i)) [0..<n]
        = find_map (\<lambda>i. visit i (dir_entry s i)) (map (\<lambda>i. b * ?D + i) [0..<n])"
      unfolding find_map_map by (intro find_map_cong) simp_all
    show ?thesis
      unfolding split find_map_append using False r look IH
      by (simp add: upt div n_def [symmetric] fm Let_def split: outcome.splits option.splits)
  qed
qed

lemma find_directory_entry_spec:
  assumes "dir_ok f s"
  shows "find_directory_entry visit s =
    (find_map (\<lambda>i. visit i (dir_entry s i)) (filter (visited s) [0..<entry_count s]), s)"
  using scan_blocks_spec [of s f "entry_count s" _ visit 0] assms
  by (simp add: find_directory_entry_def dir_ok_def file_ok_def)

section \<open>Looking up names\<close>

lemma find_map_find:
  "find_map (\<lambda>i. Ok (if P i then Some (g i) else None)) xs = Ok (map_option g (find P xs))"
  by (induction xs) auto

lemma find_in: "find P xs = Some n \<Longrightarrow> n \<in> set xs \<and> P n"
  by (induction xs) (auto split: if_splits)

lemma find_filter: "(\<And>x. P x \<Longrightarrow> Q x) \<Longrightarrow> find P (filter Q xs) = find P xs"
  by (induction xs) auto

text \<open>A slot in a hole is not a live entry.\<close>

lemma hole_entry:
  assumes "\<not> visited s i"
  shows "inode_number (dir_entry s i) = 0"
proof -
  let ?k = "i mod DIRECTORY_ENTRIES_PER_BLOCK"
  have "?k < 64" by (simp add: layout_consts)
  then have "min (1024 - ?k * 16) 16 = 16" by simp
  then have "field (?k * 16) 16 (replicate BLOCK_SIZE (0 :: u8)) = replicate 16 0"
    by (simp add: field_def BLOCK_SIZE_def min.commute)
  moreover have "file_block s (i div DIRECTORY_ENTRIES_PER_BLOCK) = replicate BLOCK_SIZE 0"
    using assms by (simp add: visited_def file_block_def)
  ultimately show ?thesis
    by (simp add: dir_entry_def view_entry_def dirent_of_def DIRECTORY_ENTRY_SIZE_def)
      (simp add: field_def u16_of_def)
qed

text \<open>A visit that tests the live entries, in the form the code's closures have.\<close>

lemma find_live:
  assumes ok: "dir_ok f s"
    and v: "\<And>i. i < entry_count s \<Longrightarrow> inode_number (dir_entry s i) = 0 \<Longrightarrow> visit i (dir_entry s i) = Ok None"
    and w: "\<And>i. live s i \<Longrightarrow> visit i (dir_entry s i)
        = Ok (if entry_name (dir_entry s i) = name then Some (g i) else None)"
  shows "find_directory_entry visit s = (Ok (map_option g
    (find (\<lambda>i. inode_number (dir_entry s i) \<noteq> 0 \<and> entry_name (dir_entry s i) = name) [0..<entry_count s])), s)"
proof -
  let ?P = "\<lambda>i. inode_number (dir_entry s i) \<noteq> 0 \<and> entry_name (dir_entry s i) = name"
  have "find_map (\<lambda>i. visit i (dir_entry s i)) (filter (visited s) [0..<entry_count s])
      = find_map (\<lambda>i. Ok (if ?P i then Some (g i) else None)) (filter (visited s) [0..<entry_count s])"
  proof (rule find_map_cong [OF refl])
    fix i assume "i \<in> set (filter (visited s) [0..<entry_count s])"
    then have "i < entry_count s" by simp
    then show "visit i (dir_entry s i) = Ok (if ?P i then Some (g i) else None)"
      using v [of i] w [of i] by (cases "inode_number (dir_entry s i) = 0") (simp_all add: live_def)
  qed
  also have "\<dots> = Ok (map_option g (find ?P [0..<entry_count s]))"
    unfolding find_map_find using hole_entry by (subst find_filter) auto
  finally show ?thesis by (simp add: find_directory_entry_spec [OF ok])
qed

lemma dirent_name_live:
  "dir_ok f s \<Longrightarrow> live s i \<Longrightarrow> dirent_name (dir_entry s i) = Ok (entry_name (dir_entry s i))"
  by (simp add: dir_ok_def dirent_name_def entry_name_def)

lemma lookup_spec:
  assumes "dir_ok f s"
  shows "lookup name s = (Ok (dir_map s name), s)"
proof -
  have "is_directory s" using assms by (simp add: dir_ok_def)
  then show ?thesis
    unfolding lookup_def dir_map_def
    by (subst find_live [OF assms, where g = "\<lambda>i. inode_number (dir_entry s i)"])
      (simp_all add: dirent_name_live [OF assms] live_def)
qed

lemma dir_map_Some_iff:
  assumes "dir_ok f s"
  shows "dir_map s n = Some k \<longleftrightarrow>
    (\<exists>i. live s i \<and> entry_name (dir_entry s i) = n \<and> inode_number (dir_entry s i) = k)"
proof
  assume "dir_map s n = Some k"
  then show "\<exists>i. live s i \<and> entry_name (dir_entry s i) = n \<and> inode_number (dir_entry s i) = k"
    by (auto simp: dir_map_def live_def find_Some_iff)
next
  assume "\<exists>i. live s i \<and> entry_name (dir_entry s i) = n \<and> inode_number (dir_entry s i) = k"
  then obtain i where i: "live s i" "entry_name (dir_entry s i) = n" "inode_number (dir_entry s i) = k"
    by blast
  let ?P = "\<lambda>i. inode_number (dir_entry s i) \<noteq> 0 \<and> entry_name (dir_entry s i) = n"
  have "find ?P [0..<entry_count s] \<noteq> None"
    using i by (auto simp: find_None_iff live_def)
  then obtain j where j: "find ?P [0..<entry_count s] = Some j" by blast
  then have "live s j" "entry_name (dir_entry s j) = n" by (auto simp: find_Some_iff live_def)
  then have "j = i" using assms i by (simp add: dir_ok_def)
  with j i(3) show "dir_map s n = Some k" by (simp add: dir_map_def)
qed

lemma dir_map_None_iff:
  assumes "dir_ok f s"
  shows "dir_map s n = None \<longleftrightarrow> (\<forall>i. live s i \<longrightarrow> entry_name (dir_entry s i) \<noteq> n)"
  using dir_map_Some_iff [OF assms, of n] by (metis not_None_eq)

section \<open>Writing entries\<close>

lemma extends_dir:
  assumes e: "extends f s s'" and ok: "dir_ok f s"
  shows "dir_ok f s'" "dir_map s' = dir_map s"
proof -
  have len: "file_len s \<le> MAX_FILE" using ok by (simp add: dir_ok_def)
  have ec: "entry_count s' = entry_count s" by (simp add: entry_count_def grows_meta [OF e])
  have ent: "dir_entry s' i = dir_entry s i" if "i < entry_count s" for i
    using e slot_in_range [OF that len] by (simp add: dir_entry_def grows_def)
  have lv: "live s' i = live s i" for i using ent [of i] ec by (auto simp: live_def)
  have liv: "live s i \<Longrightarrow> dir_entry s' i = dir_entry s i" for i using ent by (simp add: live_def)
  show "dir_ok f s'"
    using ok e grows_readable [OF e] liv
    by (simp add: dir_ok_def lv is_directory_def grows_meta [OF e]) (simp add: grows_def)
  have "find (\<lambda>i. inode_number (dir_entry s' i) \<noteq> 0 \<and> entry_name (dir_entry s' i) = n) [0..<entry_count s]
      = find (\<lambda>i. inode_number (dir_entry s i) \<noteq> 0 \<and> entry_name (dir_entry s i) = n) [0..<entry_count s]" for n
    using ent by (intro find_cong) auto
  then show "dir_map s' = dir_map s"
    using ent by (intro ext) (auto simp: dir_map_def ec find_Some_iff intro!: option.map_cong0)
qed

definition entry_written ::
  "MinixFileSystem \<Rightarrow> nat \<Rightarrow> DiskDirectoryEntry \<Rightarrow> inode_state \<Rightarrow> inode_state \<Rightarrow> bool" where
  "entry_written f slot e s s' \<longleftrightarrow> file_ok f s' \<and> all_readable s' \<and> is_directory s'
     \<and> file_len s' \<le> MAX_FILE \<and> entry_count s' = max (entry_count s) (Suc slot)
     \<and> (\<forall>i < entry_count s'. dir_entry s' i = (if i = slot then e else dir_entry s i))"

lemma dir_entry_write:
  assumes g: "grows f ((file_block s)(b := view_update dirent_bytes DIRECTORY_ENTRY_SIZE (file_block s b) k e)) s s'"
    and ok: "store_ok (disk s)" and e: "dirent_ok e" and k: "k < DIRECTORY_ENTRIES_PER_BLOCK"
    and i: "i div DIRECTORY_ENTRIES_PER_BLOCK < MAX_LOGICAL_BLOCKS"
  shows "dir_entry s' i = (if i = b * DIRECTORY_ENTRIES_PER_BLOCK + k then e else dir_entry s i)"
proof -
  let ?D = DIRECTORY_ENTRIES_PER_BLOCK
  have len: "Suc k * DIRECTORY_ENTRY_SIZE \<le> length (file_block s b)"
    using ok k by (simp add: layout_consts)
  note upd = dirents.entry_update [OF e len]
  have blk: "file_block s' (i div ?D) = ((file_block s)(b := view_update dirent_bytes DIRECTORY_ENTRY_SIZE
      (file_block s b) k e)) (i div ?D)" using g i by (simp add: grows_def)
  have "i = b * ?D + k \<longleftrightarrow> i div ?D = b \<and> i mod ?D = k"
    using slot_parts [OF k, of b] by (metis div_mult_mod_eq)
  then show ?thesis by (auto simp: dir_entry_def blk upd)
qed

lemma write_entry_spec:
  assumes ok: "dir_ok f s" and e: "dirent_ok e" and slot: "slot \<le> entry_count s"
  shows "(\<exists>err s'. write_directory_entry slot e s = (Err err, s') \<and> extends f s s'
        \<and> \<not> (slot < entry_count s \<and> visited s slot))
    \<or> (\<exists>s'. write_directory_entry slot e s = (Ok (), s') \<and> entry_written f slot e s s')"
proof -
  let ?D = DIRECTORY_ENTRIES_PER_BLOCK and ?b = "slot div DIRECTORY_ENTRIES_PER_BLOCK"
    and ?k = "slot mod DIRECTORY_ENTRIES_PER_BLOCK"
  have fok: "file_ok f s" and rd: "all_readable s" and len: "file_len s \<le> MAX_FILE"
    and dir: "is_directory s" using ok by (simp_all add: dir_ok_def)
  show ?thesis
  proof (cases "MAX_LOGICAL_BLOCKS \<le> ?b")
    case True
    then have "write_directory_entry slot e s = (Err Errno_FBIG, s)"
      by (simp add: write_directory_entry_def map_block_id_def)
    moreover have "\<not> slot < entry_count s" using slot_in_range [of slot s] len True by auto
    ultimately show ?thesis using extends_refl [OF fok] by blast
  next
    case False
    then have b: "?b < MAX_LOGICAL_BLOCKS" by simp
    obtain r s1 where m: "map_block_id ?b True s = (r, s1)" by fastforce
    note mb = map_block_create [OF fok b, unfolded m maps_block_def, simplified]
    let ?z = "zn s1 (node_of ?b)"
    from mb have ex: "extends f s s1" and r: "r = Ok (ucast ?z)" using rd by auto
    have ok1: "file_ok f s1" and rd1: "all_readable s1"
      using ex grows_readable [OF ex rd] by (simp_all add: grows_def)
    show ?thesis
    proof (cases "?z = 0")
      case True
      then have "write_directory_entry slot e s = (Err Errno_ERROR, s1)"
        using m r by (simp add: write_directory_entry_def)
      moreover have "\<not> visited s slot"
        using True ex node_of_ok [OF b] by (auto simp: visited_def grows_def)
      ultimately show ?thesis using ex by blast
    next
      case z: False
      then have rz: "readable (disk s1) (unat ?z)"
        using rd1 node_of_ok [OF b] by (simp add: all_readable_def)
      define s2 where "s2 = s1\<lparr>disk := store_modify (unat ?z)
        (\<lambda>bs. view_update dirent_bytes DIRECTORY_ENTRY_SIZE bs ?k e) (disk s1)\<rparr>"
      define s3 where "s3 = finish_write ((slot + 1) * DIRECTORY_ENTRY_SIZE) s2"
      have run: "write_directory_entry slot e s = (Ok (), s3)"
        using m r z rz by (simp add: write_directory_entry_def s2_def s3_def)
      have k: "?k < ?D" by (simp add: layout_consts)
      have fit: "Suc ?k * DIRECTORY_ENTRY_SIZE \<le> length (file_block s1 ?b)"
        using k file_okD(4) [OF ok1] by (simp add: layout_consts)
      have g: "grows f ((file_block s1)(?b := view_update dirent_bytes DIRECTORY_ENTRY_SIZE
          (file_block s1 ?b) ?k e)) s1 s2"
        using file_okD(4) [OF ok1] dirents.length_view_update [OF e fit]
        by (intro data_write [OF ok1 b z _ s2_def]) simp
      have ent: "dir_entry s2 i = (if i = slot then e else dir_entry s1 i)"
        if "i div ?D < MAX_LOGICAL_BLOCKS" for i
        using dir_entry_write [OF g file_okD(4) [OF ok1] e k that] by simp
      have ent1: "dir_entry s1 i = dir_entry s i" if "i div ?D < MAX_LOGICAL_BLOCKS" for i
        using ex that by (simp add: dir_entry_def grows_def)
      have end32: "(slot + 1) * DIRECTORY_ENTRY_SIZE \<le> MAX_FILE"
        using b by (simp add: MAX_FILE_def layout_consts div_less_iff_less_mult)
      then have "(slot + 1) * DIRECTORY_ENTRY_SIZE < 2 ^ 32" by (simp add: MAX_FILE_def file_consts)
      then have len3: "file_len s3 = max (file_len s) ((slot + 1) * DIRECTORY_ENTRY_SIZE)"
        unfolding s3_def using grows_meta [OF g] grows_meta [OF ex] by (simp only: finish_write_len)
      have "max a ((slot + 1) * 16) div 16 = max (a div 16) (slot + 1)" for a :: nat
        by (auto simp: max_def)
      then have ec: "entry_count s3 = max (entry_count s) (Suc slot)"
        by (simp add: entry_count_def len3 DIRECTORY_ENTRY_SIZE_def)
      have len3': "file_len s3 \<le> MAX_FILE" using len3 len end32 by simp
      have "dir_entry s3 i = (if i = slot then e else dir_entry s i)" if "i < entry_count s3" for i
        using ent ent1 slot_in_range [OF that len3']
        by (simp add: s3_def dir_entry_def finish_write_zones)
      moreover have "file_ok f s3" "all_readable s3" "is_directory s3"
        using g grows_readable [OF g rd1] dir grows_meta [OF g] grows_meta [OF ex]
        by (simp_all add: s3_def finish_write_zones is_directory_def finish_write_fields grows_def)
      ultimately show ?thesis using run ec len3' by (auto simp: entry_written_def)
    qed
  qed
qed

section \<open>Adding and removing\<close>

text \<open>A name that can be stored: at most 14 bytes of UTF-8 without NUL.\<close>

definition name_ok :: "u8 list \<Rightarrow> bool" where
  "name_ok name \<longleftrightarrow> length name \<le> MINIX_NAME_LENGTH \<and> utf8 name \<and> 0 \<notin> set name"

lemma dirent_new_spec:
  assumes "name_ok name"
  obtains e where "dirent_new name inum = Ok e" "dirent_ok e" "entry_name e = name" "inode_number e = inum"
proof -
  have "takeWhile (\<lambda>b. b \<noteq> 0) (name @ replicate k 0) = name" for k
    using assms by (subst takeWhile_append2) (auto simp: name_ok_def takeWhile_eq_Nil_iff hd_replicate)
  with assms that show ?thesis
    by (simp add: dirent_new_def name_ok_def dirent_ok_def entry_name_def)
qed

lemma written_live:
  assumes w: "entry_written f slot e s s'" and slot: "slot \<le> entry_count s"
  shows "live s' i \<longleftrightarrow> (if i = slot then inode_number e \<noteq> 0 else live s i)"
    "live s' i \<Longrightarrow> dir_entry s' i = (if i = slot then e else dir_entry s i)"
  using w slot by (auto simp: entry_written_def live_def)

lemma written_new:
  assumes ok: "dir_ok f s" and w: "entry_written f slot e s s'" and slot: "slot \<le> entry_count s"
    and free: "\<not> live s slot" and e: "inode_number e \<noteq> 0" "utf8 (entry_name e)"
    and new: "dir_map s (entry_name e) = None"
  shows "dir_ok f s'" "dir_map s' = (dir_map s)(entry_name e \<mapsto> inode_number e)"
proof -
  note lv = written_live [OF w slot]
  have other: "entry_name (dir_entry s i) \<noteq> entry_name e" "entry_name e \<noteq> entry_name (dir_entry s i)"
    if "live s i" for i using that new unfolding dir_map_None_iff [OF ok] by metis+
  show ok': "dir_ok f s'"
    using ok w lv e free other
    by (auto simp: dir_ok_def entry_written_def split: if_splits)
  show "dir_map s' = (dir_map s)(entry_name e \<mapsto> inode_number e)"
  proof
    fix n
    have "dir_map s' n = Some k \<longleftrightarrow> ((dir_map s)(entry_name e \<mapsto> inode_number e)) n = Some k" for k
    proof (cases "n = entry_name e")
      case True
      have "dir_map s' n = Some (inode_number e)"
        unfolding dir_map_Some_iff [OF ok'] using True lv e by auto
      with True show ?thesis by auto
    next
      case False
      then show ?thesis
        using lv free by (auto simp: dir_map_Some_iff [OF ok'] dir_map_Some_iff [OF ok]) (metis+)
    qed
    then show "dir_map s' n = ((dir_map s)(entry_name e \<mapsto> inode_number e)) n"
      by (metis not_Some_eq)
  qed
qed

lemma written_empty:
  assumes ok: "dir_ok f s" and w: "entry_written f slot dirent_empty s s'" and slot: "live s slot"
  shows "dir_ok f s'" "dir_map s' = (dir_map s)(entry_name (dir_entry s slot) := None)"
proof -
  have le: "slot \<le> entry_count s" using slot by (simp add: live_def)
  have e0: "inode_number dirent_empty = 0" by (simp add: dirent_empty_def)
  note lv = written_live [OF w le, unfolded e0]
  show ok': "dir_ok f s'"
    using ok w lv by (auto simp: dir_ok_def entry_written_def split: if_splits)
  have uniq: "live s i \<Longrightarrow> entry_name (dir_entry s i) = entry_name (dir_entry s slot) \<longleftrightarrow> i = slot" for i
    using ok slot by (auto simp: dir_ok_def)
  show "dir_map s' = (dir_map s)(entry_name (dir_entry s slot) := None)"
  proof
    fix n
    have "dir_map s' n = Some k \<longleftrightarrow> ((dir_map s)(entry_name (dir_entry s slot) := None)) n = Some k" for k
      using lv uniq by (auto simp: dir_map_Some_iff [OF ok'] dir_map_Some_iff [OF ok] split: if_splits)
    then show "dir_map s' n = ((dir_map s)(entry_name (dir_entry s slot) := None)) n"
      by (metis not_Some_eq)
  qed
qed

lemma add_entry_spec:
  assumes ok: "dir_ok f s" and name: "name_ok name" and new: "dir_map s name = None" and inum: "inum \<noteq> 0"
  shows "(\<exists>err s'. add_entry name inum s = (Err err, s') \<and> dir_ok f s' \<and> dir_map s' = dir_map s)
    \<or> (\<exists>s'. add_entry name inum s = (Ok (), s') \<and> dir_ok f s' \<and> dir_map s' = (dir_map s)(name \<mapsto> inum))"
proof -
  let ?P = "\<lambda>i. inode_number (dir_entry s i) = 0"
  define slot where "slot = (case find ?P (filter (visited s) [0..<entry_count s]) of
    Some n \<Rightarrow> n | None \<Rightarrow> entry_count s)"
  have slot: "slot \<le> entry_count s" "\<not> live s slot"
  proof -
    have "slot \<le> entry_count s \<and> \<not> live s slot"
    proof (cases "find ?P (filter (visited s) [0..<entry_count s])")
      case (Some n)
      then have "n \<in> set (filter (visited s) [0..<entry_count s])" "?P n"
        by (auto dest: find_in)
      with Some show ?thesis by (simp add: slot_def live_def)
    qed (simp add: slot_def live_def)
    then show "slot \<le> entry_count s" "\<not> live s slot" by blast+
  qed
  obtain e where e: "dirent_new name inum = Ok e" "dirent_ok e" "entry_name e = name" "inode_number e = inum"
    by (rule dirent_new_spec [OF name])
  have "find_directory_entry (\<lambda>slot dirent. Ok (if inode_number dirent = 0 then Some slot else None)) s
      = (Ok (find ?P (filter (visited s) [0..<entry_count s])), s)"
    using find_map_find [of ?P "\<lambda>i. i"]
    by (simp add: find_directory_entry_spec [OF ok] option.map_ident)
  then have run: "add_entry name inum s = write_directory_entry slot e s"
    using ok e(1) by (simp add: add_entry_def dir_ok_def slot_def)
  from write_entry_spec [OF ok e(2) slot(1)] show ?thesis
  proof (elim disjE exE conjE)
    fix err s' assume "write_directory_entry slot e s = (Err err, s')" "extends f s s'"
    with run extends_dir [OF _ ok] show ?thesis by auto
  next
    fix s' assume w: "write_directory_entry slot e s = (Ok (), s')" "entry_written f slot e s s'"
    have "utf8 (entry_name e)" using name e(3) by (simp add: name_ok_def)
    with written_new [OF ok w(2) slot] e inum new run w(1) show ?thesis by auto
  qed
qed

lemma remove_entry_spec:
  assumes ok: "dir_ok f s"
  shows "remove_entry name s = (Err Errno_NOENT, s) \<and> dir_map s name = None
    \<or> (\<exists>i s'. remove_entry name s = (Ok i, s') \<and> dir_map s name = Some i \<and> dir_ok f s'
        \<and> dir_map s' = (dir_map s)(name := None))"
proof -
  let ?P = "\<lambda>i. inode_number (dir_entry s i) \<noteq> 0 \<and> entry_name (dir_entry s i) = name"
  let ?v = "\<lambda>slot dirent. if inode_number dirent = 0 then Ok None
            else case dirent_name dirent of
              Ok n \<Rightarrow> Ok (if n = name then Some (slot, inode_number dirent) else None)
            | Err e \<Rightarrow> Err e
            | Panic \<Rightarrow> Panic"
  have fnd: "find_directory_entry ?v s
      = (Ok (map_option (\<lambda>i. (i, inode_number (dir_entry s i))) (find ?P [0..<entry_count s])), s)"
    by (rule find_live [OF ok]) (simp_all add: dirent_name_live [OF ok] live_def)
  have dir: "is_directory s" using ok by (simp add: dir_ok_def)
  show ?thesis
  proof (cases "find ?P [0..<entry_count s]")
    case None
    then show ?thesis using fnd dir by (simp add: remove_entry_def dir_map_def)
  next
    case (Some i)
    then have i: "live s i" "entry_name (dir_entry s i) = name" by (auto simp: find_Some_iff live_def)
    have v: "i < entry_count s" "visited s i" using i(1) hole_entry by (auto simp: live_def)
    have e: "dirent_ok dirent_empty" by (simp add: dirent_ok_def dirent_empty_def)
    from write_entry_spec [OF ok e less_imp_le [OF v(1)]] v obtain s' where
      w: "write_directory_entry i dirent_empty s = (Ok (), s')" "entry_written f i dirent_empty s s'"
      by blast
    have "remove_entry name s = (Ok (inode_number (dir_entry s i)), s')"
      using fnd Some w(1) dir by (simp add: remove_entry_def)
    with written_empty [OF ok w(2) i(1)] i(2) Some show ?thesis by (auto simp: dir_map_def)
  qed
qed

end
