(* ===== verification/Minix_Properties.thy ===== *)
theory Minix_Properties
  imports Minix_Dir
begin

text \<open>
  The properties of the Minix file system: the allocation bitmap as a set, the layout of its
  structures on disk, and files and directories as contents and finite maps.  The small file system
  \<open>demo_fs\<close> with four free zones and the empty file and directory on it are the inputs of the
  witnesses.
\<close>

section \<open>A small file system\<close>

definition demo_bitmap :: Bitmap where
  "demo_bitmap = \<lparr>buffers = [Some 3], base_id = 10, bit_count = 5\<rparr>"

definition demo_store :: store where
  "demo_store = \<lparr>blocks = (\<lambda>_. replicate BLOCK_SIZE 0)
       (3 := view_update u64_bytes 8 (replicate BLOCK_SIZE 0) 0 1), readable = (\<lambda>_. True)\<rparr>"

definition demo_fs :: MinixFileSystem where
  "demo_fs = \<lparr>device = 0x301,
     super_block = \<lparr>inode_count = 32, zone_count = 15, inode_bitmap_block_count = 1,
       zone_bitmap_block_count = 1, first_data_zone = 11, log_zone_size = 0,
       max_file_size = 0x10081C00, magic = MINIX_SUPER_MAGIC\<rparr>,
     inode_bitmap = \<lparr>buffers = [Some 2], base_id = 0, bit_count = 33\<rparr>, zone_bitmap = demo_bitmap\<rparr>"

definition demo_inode :: "u16 \<Rightarrow> inode_state" where
  "demo_inode m = \<lparr>disk = demo_store, file_system = Some demo_fs, current_time = 7,
     inner = \<lparr>disk_inode = zeroed\<lparr>mode := m, link_count := 1\<rparr>, is_dirty = False,
       access_time = 0, change_time = 0\<rparr>\<rparr>"

lemma demo_store_ok: "store_ok demo_store"
  by (simp add: store_ok_def demo_store_def words.length_view_update BLOCK_SIZE_def)

lemma demo_bitmap_blocks: "bitmap_blocks demo_bitmap = [3]"
  by (simp add: bitmap_blocks_def demo_bitmap_def)

lemma demo_bitmap_ok: "bitmap_ok demo_bitmap"
  by (simp add: bitmap_ok_def demo_bitmap_blocks) (simp add: demo_bitmap_def bitmap_consts)

lemma demo_used: "used_bits demo_bitmap demo_store = {0}"
proof -
  have "word_at demo_bitmap demo_store 0 = 1"
    using words.entry_update_same [where i = 0 and x = 1 and bs = "replicate BLOCK_SIZE 0"]
    by (simp add: word_at_def demo_bitmap_blocks demo_store_def BLOCK_SIZE_def)
  then have "bit_at demo_bitmap demo_store n \<longleftrightarrow> n = 0" if "n < 5" for n
    using that by (simp add: bit_at_def BITS_PER_WORD_def bit_1_iff)
  then show ?thesis by (auto simp: used_bits_def demo_bitmap_def)
qed

lemma demo_zones: "node_ok n \<Longrightarrow> zn (demo_inode m) n = 0"
  by (rule empty_inode_zones) (simp_all add: demo_inode_def zeroed_def)

lemma demo_file_ok: "file_ok demo_fs (demo_inode m)"
  using demo_zones demo_store_ok demo_used demo_bitmap_ok demo_bitmap_blocks
  by (simp add: file_ok_def fs_ok_def disk_ok_def disk_inode_ok_def demo_fs_def demo_inode_def)
    (simp add: demo_bitmap_def zeroed_def)

lemma demo_readable: "all_readable (demo_inode m)"
  by (simp add: all_readable_def demo_inode_def demo_store_def)

lemma demo_len: "file_len (demo_inode m) = 0"
  by (simp add: demo_inode_def zeroed_def)

lemma demo_dir_ok: "dir_ok demo_fs (demo_inode 0x41ED)"
  using demo_file_ok demo_readable demo_len
  by (simp add: dir_ok_def live_def entry_count_def)
    (simp add: is_directory_def demo_inode_def file_type_def TYPE_MASK_def)

lemma demo_write: "\<exists>s'. write_at 0 [65] (demo_inode m) = (Ok 1, s')"
proof -
  have "\<not> zones_full demo_fs demo_store"
  proof
    assume "zones_full demo_fs demo_store"
    then have "{..<bit_count demo_bitmap} = {0}" by (simp add: zones_full_def demo_fs_def demo_used)
    from equalityD1 [OF this, THEN subsetD, of 1] show False by (simp add: demo_bitmap_def)
  qed
  then obtain z st where a: "alloc_zone demo_fs demo_store = (Ok (Some z), st)" "z \<noteq> 0" "readable st (unat z)"
    using alloc_zone_spec [OF file_okD(2,3) [OF demo_file_ok [of m]]]
    by (auto simp: demo_inode_def fresh_zone_def)
  have d0: "direct_zones (disk_inode (inner (demo_inode m))) ! 0 = 0"
    "disk (demo_inode m) = demo_store" "file_system (demo_inode m) = Some demo_fs"
    by (simp_all add: demo_inode_def zeroed_def DIRECT_ZONE_COUNT_def)
  have "\<exists>s1. map_block_id 0 True (demo_inode m) = (Ok (ucast z), s1) \<and> disk s1 = st"
    using a by (simp add: map_block_id_def d0 try_alloc_def lift_store_def bind_op_def file_consts
      set_inode_def set_disk_inode_def)
  then obtain s1 where m: "map_block_id 0 True (demo_inode m) = (Ok (ucast z), s1)" "disk s1 = st" by blast
  have "\<exists>s2. write_loop 0 [65] (demo_inode m) = (Ok (), 1, s2)"
    using m a by (simp add: write_loop.simps [of 0 "[65]"] BLOCK_SIZE_def write_loop.simps [of _ "[]"])
  then show ?thesis by (auto simp: write_at_def)
qed

section \<open>Allocation\<close>

text \<open>(C25)
  The bitmap implements a set of identifiers.  \<open>alloc\<close> returns the least identifier not in use and
  adds it, or nothing when all are in use; \<open>dealloc\<close> removes one and panics outside the bitmap's
  range; \<open>count_free\<close> counts those not in use.  Apart from the bits of the set, the blocks of the
  device stay as they are.
\<close>

theorem bitmap_refines_set:
  assumes ok: "bitmap_ok b" "store_ok st"
  shows "(if used_bits b st = {..<bit_count b} then bitmap_alloc b st = (Ok None, st)
     else \<exists>st'. bitmap_alloc b st = (Ok (Some (base_id b + word_of_nat (LEAST n. n \<notin> used_bits b st))), st')
       \<and> bits_become b st (insert (LEAST n. n \<notin> used_bits b st) (used_bits b st)) st')
   \<and> (\<forall>n < bit_count b. \<exists>st'. bitmap_dealloc b (base_id b + word_of_nat n) st = (Ok (), st')
       \<and> bits_become b st (used_bits b st - {n}) st')
   \<and> (\<forall>x. bit_count b \<le> unat (x - base_id b) \<longrightarrow> bitmap_dealloc b x st = (Panic, st))
   \<and> count_free b st = (Ok (card ({..<bit_count b} - used_bits b st)), st)"
proof (intro conjI)
  show "if used_bits b st = {..<bit_count b} then bitmap_alloc b st = (Ok None, st)
     else \<exists>st'. bitmap_alloc b st = (Ok (Some (base_id b + word_of_nat (LEAST n. n \<notin> used_bits b st))), st')
       \<and> bits_become b st (insert (LEAST n. n \<notin> used_bits b st) (used_bits b st)) st'"
    using bitmap_alloc_spec [OF ok]
  proof (elim disjE exE conjE)
    fix n st' assume a: "bitmap_alloc b st = (Ok (Some (base_id b + word_of_nat n)), st')"
      "n < bit_count b" "n \<notin> used_bits b st" "{..<n} \<subseteq> used_bits b st"
      "bits_become b st (insert n (used_bits b st)) st'"
    have "(LEAST n. n \<notin> used_bits b st) = n"
      using a(3,4) by (intro Least_equality) (auto simp: subset_iff not_le [symmetric])
    with a show ?thesis by auto
  qed simp
  show "\<forall>n < bit_count b. \<exists>st'. bitmap_dealloc b (base_id b + word_of_nat n) st = (Ok (), st')
       \<and> bits_become b st (used_bits b st - {n}) st'"
    using bitmap_dealloc_spec [OF ok] by (intro allI impI) blast
  show "\<forall>x. bit_count b \<le> unat (x - base_id b) \<longrightarrow> bitmap_dealloc b x st = (Panic, st)"
    by (simp add: bitmap_dealloc_def)
  show "count_free b st = (Ok (card ({..<bit_count b} - used_bits b st)), st)"
    by (rule count_free_spec [OF ok(1)])
qed

theorem bitmap_refines_set_witness:
  "count_free demo_bitmap demo_store = (Ok 4, demo_store)
   \<and> (\<exists>st'. bitmap_alloc demo_bitmap demo_store = (Ok (Some 11), st'))"
proof -
  note p = bitmap_refines_set [OF demo_bitmap_ok demo_store_ok, unfolded demo_used]
  have least: "(LEAST n :: nat. n \<notin> {0}) = 1" by (rule Least_equality) auto
  have free: "{..<bit_count demo_bitmap} - {0} = {1, 2, 3, 4}" by (auto simp: demo_bitmap_def)
  then have "{0} \<noteq> {..<bit_count demo_bitmap}" by blast
  moreover have "base_id demo_bitmap + word_of_nat 1 = 11" by (simp add: demo_bitmap_def)
  ultimately show ?thesis using p unfolding least free by auto
qed

section \<open>Files\<close>

text \<open>(C26)
  Writing to a file.  On a file system whose invariant holds, \<open>write_at\<close> never panics and stores a
  prefix of the data: exactly the bytes of that range change, the size becomes the larger of the old
  size and the position reached, the invariant holds again, and no zone of another file is touched.
  The prefix is shorter than the data only if the file would exceed the largest mappable position, a
  block of the file cannot be read, or no zone is free.
\<close>

theorem write_at_correct:
  assumes ok: "file_ok f s" and data: "data \<noteq> []" and p: "p < 2 ^ 32"
  shows "\<exists>r k s'. write_at p data s = (r, s')
     \<and> (r = Ok k \<and> 0 < k \<or> k = 0 \<and> (\<exists>e. r = Err e)) \<and> k \<le> length data \<and> file_ok f s'
     \<and> file_len s' = max (file_len s) (p + k)
     \<and> (\<forall>q < MAX_FILE. file_byte s' q =
           (if p \<le> q \<and> q < p + k then data ! (q - p) else file_byte s q))
     \<and> (\<forall>z. zone_used f (disk s) z \<longrightarrow> z \<notin> file_zones s \<longrightarrow>
           zone_used f (disk s') z \<and> blocks (disk s') (unat z) = blocks (disk s) (unat z)
           \<and> z \<notin> file_zones s')
     \<and> (k < length data \<longrightarrow> MAX_FILE \<le> p + k \<or> \<not> all_readable s \<or> zones_full f (disk s'))"
proof -
  obtain k s1 e where w: "write_at p data s = (if k = 0 then Err e else Ok k, finish_write (p + k) s1)"
    "writes f p data k s s1" by (rule write_at_run [OF ok data])
  have g: "grows f (file_block s1) s s1" and kl: "k \<le> length data" and ok1: "file_ok f s1"
    using w(2) by (simp_all add: writes_def grows_def)
  have "MAX_FILE < 2 ^ 32" by (simp add: MAX_FILE_def file_consts)
  with p w(2) have "p + k < 2 ^ 32" by (cases "k = 0") (auto simp: writes_def)
  moreover have "file_len s1 = file_len s" by (simp add: grows_meta [OF g])
  ultimately have len: "file_len (finish_write (p + k) s1) = max (file_len s) (p + k)"
    by (simp add: finish_write_len)
  show ?thesis
    by (rule exI [of _ "if k = 0 then Err e else Ok k"], rule exI [of _ k],
        rule exI [of _ "finish_write (p + k) s1"])
      (use w len ok1 kl grows_frame [OF ok g] in
        \<open>simp add: finish_write_zones finish_write_fields writes_def\<close>)
qed

theorem write_at_correct_witness:
  "file_ok demo_fs (demo_inode 0x81A4)
   \<and> (\<exists>r s'. write_at 1000 (replicate 100 65) (demo_inode 0x81A4) = (r, s') \<and> file_ok demo_fs s')"
proof -
  have "replicate 100 (65 :: u8) \<noteq> []" by simp
  from write_at_correct [OF demo_file_ok this, of 1000 "0x81A4"] demo_file_ok show ?thesis by auto
qed

text \<open>(C27)
  A write is read back.  When \<open>write_at\<close> reports that it stored \<open>k\<close> bytes, reading \<open>k\<close> bytes at the
  same position returns exactly the first \<open>k\<close> bytes of the data.
\<close>

theorem read_after_write:
  assumes ok: "file_ok f s" and rd: "all_readable s" and len: "file_len s \<le> MAX_FILE"
    and p: "p < 2 ^ 32" and w: "write_at p data s = (Ok k, s')" and k: "0 < k"
  shows "fst (read_at p k s') = Ok (take k data)"
proof -
  have data: "data \<noteq> []" using w k by (auto simp: write_at_def)
  obtain k1 s1 e where r: "write_at p data s = (if k1 = 0 then Err e else Ok k1, finish_write (p + k1) s1)"
    "writes f p data k1 s s1" by (rule write_at_run [OF ok data])
  with w k have k1: "k1 = k" and s': "s' = finish_write (p + k) s1" by (auto split: if_splits)
  have g: "grows f (file_block s1) s s1" and kl: "k \<le> length data" and pk: "p + k \<le> MAX_FILE"
    using r(2) k by (simp_all add: writes_def k1)
  have "p + k < 2 ^ 32" using pk by (simp add: MAX_FILE_def file_consts)
  then have len': "file_len s' = max (file_len s) (p + k)"
    unfolding s' by (simp add: finish_write_len grows_meta [OF g])
  have "file_system s' = Some f" "store_ok (disk s')" "all_readable s'"
    using g grows_readable [OF g rd] file_okD
    by (auto simp: s' finish_write_fields finish_write_zones grows_def)
  from read_at_spec [OF this, of p k] len len' pk
  have "fst (read_at p k s') = Ok (map (file_byte s') [p..<p + k])" by (simp add: min_def)
  also have "map (file_byte s') [p..<p + k] = take k data"
    using r(2) kl pk by (intro nth_equalityI) (simp_all add: s' finish_write_zones writes_def k1)
  finally show ?thesis .
qed

theorem read_after_write_witness:
  "\<exists>s'. write_at 0 [65] (demo_inode 0x81A4) = (Ok 1, s') \<and> fst (read_at 0 1 s') = Ok [65]"
proof -
  obtain s' where w: "write_at 0 [65] (demo_inode 0x81A4) = (Ok 1, s')" using demo_write by blast
  from read_after_write [OF demo_file_ok demo_readable _ _ w] demo_len w show ?thesis by simp
qed

text \<open>(C28)
  Truncating a regular file or a directory leaves it with size 0 and no zone, and releases exactly the
  zones of its tree that are reached through readable indirect blocks: they become allocatable, and no
  other zone changes state or contents.  On a device that delivers all blocks of the file these are all
  its zones; the zones below an indirect block that cannot be read stay allocated, as documented.
\<close>

theorem truncate_frees_zones:
  assumes ok: "file_ok f s"
    and t: "file_type (mode (disk_inode (inner s))) = Some Regular
      \<or> file_type (mode (disk_inode (inner s))) = Some Directory"
  shows "\<exists>s'. truncate s = (Ok (), s') \<and> file_ok f s' \<and> file_len s' = 0 \<and> file_zones s' = {}
     \<and> (\<forall>z. zone_used f (disk s') z \<longleftrightarrow> zone_used f (disk s) z \<and> z \<notin> reached_zones s)
     \<and> (\<forall>z. zone_used f (disk s) z \<longrightarrow> blocks (disk s') (unat z) = blocks (disk s) (unat z))
     \<and> (all_readable s \<longrightarrow> reached_zones s = file_zones s)"
proof -
  obtain s' where s': "truncate s = (Ok (), s')" "freed f (reached_zones s) (disk s) (disk s')"
    "disk_inode (inner s') = (disk_inode (inner s))\<lparr>direct_zones := replicate DIRECT_ZONE_COUNT 0,
      single_indirect_zone := 0, double_indirect_zone := 0, file_size := 0,
      modification_time := current_time s\<rparr>" "file_system s' = file_system s"
    by (rule truncate_run [OF ok t])
  have z: "zn s' n = 0" if "node_ok n" for n
    by (rule empty_inode_zones [OF _ _ _ that]) (simp_all add: s'(3))
  have "file_ok f s'"
    using z s'(2) file_okD [OF ok] s'(4) by (simp add: file_ok_def freed_def) (simp add: s'(3) disk_inode_ok_def)
  moreover have "file_zones s' = {}" using z by (auto simp: file_zones_def)
  moreover have "blocks (disk s') (unat z) = blocks (disk s) (unat z)" if "zone_used f (disk s) z" for z
    using s'(2) zone_used_block(1) [OF file_okD(2) [OF ok] that] by (simp add: freed_def)
  ultimately show ?thesis
    using s'(1,2) reached_all by (intro exI [of _ s']) (auto simp: freed_def s'(3))
qed

text \<open>A file of one byte: its zone is in use before and free after.\<close>

lemma demo_written:
  assumes "write_at 0 [65] (demo_inode m) = (Ok 1, s)"
  shows "file_ok demo_fs s" "all_readable s" "zn s (Direct 0) \<noteq> 0" "mode (disk_inode (inner s)) = m"
proof -
  have "[65 :: u8] \<noteq> []" by simp
  from write_at_run [OF demo_file_ok this] obtain k s1 e
    where w: "write_at 0 [65] (demo_inode m) = (if k = 0 then Err e else Ok k, finish_write (0 + k) s1)"
      "writes demo_fs 0 [65] k (demo_inode m) s1" by blast
  with assms have k: "k = 1" and s: "s = finish_write 1 s1" by (auto split: if_splits)
  have g: "grows demo_fs (file_block s1) (demo_inode m) s1" and byte: "file_byte s1 0 = 65"
    using w(2) by (auto simp: writes_def k MAX_FILE_def file_consts)
  show "file_ok demo_fs s" "all_readable s"
    using g grows_readable [OF g demo_readable] by (simp_all add: s finish_write_zones grows_def)
  have "zn s1 (Direct 0) \<noteq> 0"
    using byte by (auto simp: file_byte_def file_block_def node_of_def BLOCK_SIZE_def)
  then show "zn s (Direct 0) \<noteq> 0" by (simp add: s finish_write_fields)
  show "mode (disk_inode (inner s)) = m"
    using grows_meta [OF g] by (simp add: s finish_write_fields demo_inode_def)
qed

theorem truncate_frees_zones_witness:
  "\<exists>s s' z. write_at 0 [65] (demo_inode 0x81A4) = (Ok 1, s) \<and> truncate s = (Ok (), s') \<and> file_len s' = 0
     \<and> zone_used demo_fs (disk s) z \<and> \<not> zone_used demo_fs (disk s') z"
proof -
  obtain s where w: "write_at 0 [65] (demo_inode 0x81A4) = (Ok 1, s)" using demo_write by blast
  note d = demo_written [OF w]
  have "file_type (mode (disk_inode (inner s))) = Some Regular" by (simp add: d(4) file_type_def TYPE_MASK_def)
  moreover have "zn s (Direct 0) \<in> reached_zones s"
    unfolding reached_zones_def using d(3) by (intro CollectI exI [of _ "Direct 0"]) (simp add: DIRECT_ZONE_COUNT_def)
  ultimately obtain s' where s': "truncate s = (Ok (), s')" "file_len s' = 0"
    "\<not> zone_used demo_fs (disk s') (zn s (Direct 0))"
    using truncate_frees_zones [OF d(1)] by blast
  moreover have "zone_used demo_fs (disk s) (zn s (Direct 0))"
    by (rule file_ok_used [OF d(1) _ d(3)]) (simp add: DIRECT_ZONE_COUNT_def)
  ultimately show ?thesis using w by blast
qed

section \<open>Directories\<close>

text \<open>(C29)
  A directory is a finite map from names to inode numbers.  Looking a name up reads the map, adding
  a new name with a non-zero inode number extends it or leaves it alone and reports an error, and
  removing a name returns its inode number and deletes it, or reports that it does not exist.
\<close>

theorem directory_refines_map:
  assumes ok: "dir_ok f s" and name: "name_ok name" and inum: "inum \<noteq> 0"
  shows "lookup name s = (Ok (dir_map s name), s)
   \<and> (dir_map s name = None \<longrightarrow>
        (\<exists>err s'. add_entry name inum s = (Err err, s') \<and> dir_ok f s' \<and> dir_map s' = dir_map s)
      \<or> (\<exists>s'. add_entry name inum s = (Ok (), s') \<and> dir_ok f s'
            \<and> dir_map s' = (dir_map s)(name \<mapsto> inum)))
   \<and> (case dir_map s name of
        None \<Rightarrow> remove_entry name s = (Err Errno_NOENT, s)
      | Some i \<Rightarrow> \<exists>s'. remove_entry name s = (Ok i, s') \<and> dir_ok f s'
            \<and> dir_map s' = (dir_map s)(name := None))"
proof (intro conjI impI)
  show "lookup name s = (Ok (dir_map s name), s)" by (rule lookup_spec [OF ok])
  show "(\<exists>err s'. add_entry name inum s = (Err err, s') \<and> dir_ok f s' \<and> dir_map s' = dir_map s)
      \<or> (\<exists>s'. add_entry name inum s = (Ok (), s') \<and> dir_ok f s' \<and> dir_map s' = (dir_map s)(name \<mapsto> inum))"
    if "dir_map s name = None" by (rule add_entry_spec [OF ok name that inum])
  show "case dir_map s name of
        None \<Rightarrow> remove_entry name s = (Err Errno_NOENT, s)
      | Some i \<Rightarrow> \<exists>s'. remove_entry name s = (Ok i, s') \<and> dir_ok f s' \<and> dir_map s' = (dir_map s)(name := None)"
    using remove_entry_spec [OF ok, of name] by (auto split: option.splits)
qed

theorem directory_refines_map_witness:
  "lookup [0x61] (demo_inode 0x41ED) = (Ok None, demo_inode 0x41ED)
   \<and> remove_entry [0x61] (demo_inode 0x41ED) = (Err Errno_NOENT, demo_inode 0x41ED)"
proof -
  have n: "name_ok [0x61]" by (simp add: name_ok_def MINIX_NAME_LENGTH_def)
  have "dir_map (demo_inode 0x41ED) [0x61] = None"
    by (simp add: dir_map_def entry_count_def demo_len)
  with directory_refines_map [OF demo_dir_ok n, of 2] show ?thesis by simp
qed

end
