(* ===== verification/Buffer_Cache.thy ===== *)
theory Buffer_Cache
  imports Block_Store Mm_Frame
begin

text \<open>
  The block buffer cache (\<open>kernel/src/fs/buffer.rs\<close>) with the part of the request layer it calls
  (\<open>submit_request\<close> and \<open>complete_current\<close> of \<open>kernel/src/driver/block/mod.rs\<close>): slots bound to device
  blocks, reference counts, the replacement order and write-back.

  The first sections run one task's calls to completion: a submitted request is carried out by the
  device before the call returns.  \<open>view\<close> is what the cache presents to the file system, and the
  lemmas show that it behaves as the block store of \<open>Block_Store\<close>.  The last section takes the calls
  apart at the points where they sleep.
\<close>

section \<open>Slots and the manager\<close>

record BufferKey =
  key_dev :: u16
  key_block :: u32

datatype BlockRequestType = Read | Write

record BufferSlot =
  slot_key :: "BufferKey option"
  ref_count :: u16
  dirty :: bool
  up_to_date :: bool
  io_locked :: bool
  slot_data :: "u8 list"

text \<open>
  The manager's list holds the slots in replacement order, here by their numbers; the index is a
  hash map.  The device is part of the state: its blocks, which majors have a driver, and which
  transfers fail.
\<close>

record cache =
  slots :: "BufferSlot list"
  order :: "nat list"
  buffer_index :: "(BufferKey \<times> nat) list"
  dev_blocks :: "BufferKey \<Rightarrow> u8 list"
  registered :: "u8 \<Rightarrow> bool"
  io_error :: "BlockRequestType \<Rightarrow> BufferKey \<Rightarrow> bool"

definition major :: "u16 \<Rightarrow> u8" where
  "major dev = ucast (drop_bit 8 dev)"

definition minor :: "u16 \<Rightarrow> u8" where
  "minor dev = ucast (dev AND 0xFF)"

definition DevNum_new :: "u8 \<Rightarrow> u8 \<Rightarrow> u16" where
  "DevNum_new ma mi = (push_bit 8 (ucast ma)) OR ucast mi"

definition empty_slot :: "u8 list \<Rightarrow> BufferSlot" where
  "empty_slot bs = \<lparr>slot_key = None, ref_count = 0, dirty = False, up_to_date = False,
     io_locked = False, slot_data = bs\<rparr>"

abbreviation slot_at :: "cache \<Rightarrow> nat \<Rightarrow> BufferSlot" where
  "slot_at c i \<equiv> slots c ! i"

definition upd_slot :: "nat \<Rightarrow> (BufferSlot \<Rightarrow> BufferSlot) \<Rightarrow> cache \<Rightarrow> cache" where
  "upd_slot i g c = c\<lparr>slots := (slots c)[i := g (slots c ! i)]\<rparr>"

text \<open>\<open>BufferManager::init\<close>: one slot per block of \<open>[LOW_MEM, buffer_memory_end)\<close>.\<close>

definition buffer_count :: "u32 \<Rightarrow> nat" where
  "buffer_count buffer_memory_end =
     (let clamped_end = unat (max buffer_memory_end LOW_MEM);
          region_end = (clamped_end div BLOCK_SIZE) * BLOCK_SIZE
      in (region_end - unat LOW_MEM) div BLOCK_SIZE)"

definition init_buffers :: "u32 \<Rightarrow> (nat \<Rightarrow> u8 list) \<Rightarrow> cache \<Rightarrow> cache" where
  "init_buffers buffer_memory_end memory c =
     c\<lparr>slots := map (\<lambda>i. empty_slot (memory i)) [0..<buffer_count buffer_memory_end],
       order := [0..<buffer_count buffer_memory_end], buffer_index := []\<rparr>"

definition inc_ref :: "BufferSlot \<Rightarrow> BufferSlot" where
  "inc_ref b = b\<lparr>ref_count := ref_count b + 1\<rparr>"

definition dec_ref :: "nat \<Rightarrow> (cache, unit) op" where
  "dec_ref i c =
     (if ref_count (slot_at c i) = 0 then (Panic, c)
      else (Ok (), upd_slot i (\<lambda>b. b\<lparr>ref_count := ref_count b - 1\<rparr>) c))"

definition pin_buffer :: "BufferKey \<Rightarrow> cache \<Rightarrow> (nat \<times> cache) option" where
  "pin_buffer k c =
     (case map_of (buffer_index c) k of
        Some i \<Rightarrow> Some (i, upd_slot i inc_ref c)
      | None \<Rightarrow> None)"

definition reclaim_penalty :: "BufferSlot \<Rightarrow> nat" where
  "reclaim_penalty b = (if dirty b then 2 else 0) + (if io_locked b then 1 else 0)"

fun find_reclaim :: "cache \<Rightarrow> (nat \<times> nat) option \<Rightarrow> nat list \<Rightarrow> (nat \<times> nat) option" where
  "find_reclaim c best [] = best"
| "find_reclaim c best (i # rest) =
     (let p = reclaim_penalty (slot_at c i) in
      if ref_count (slot_at c i) = 0 \<and> (case best of None \<Rightarrow> True | Some (_, q) \<Rightarrow> p < q)
      then (if p = 0 then Some (i, p) else find_reclaim c (Some (i, p)) rest)
      else find_reclaim c best rest)"

definition find_reclaim_candidate :: "cache \<Rightarrow> nat option" where
  "find_reclaim_candidate c = map_option fst (find_reclaim c None (order c))"

definition index_remove :: "BufferKey \<Rightarrow> cache \<Rightarrow> cache" where
  "index_remove k c =
     (case map_of (buffer_index c) k of
        None \<Rightarrow> c
      | Some i \<Rightarrow>
          let c1 = c\<lparr>buffer_index := AList.delete k (buffer_index c)\<rparr> in
          if slot_key (slot_at c i) = Some k then upd_slot i (\<lambda>b. b\<lparr>slot_key := None\<rparr>) c1 else c1)"

definition index_insert :: "BufferKey \<Rightarrow> nat \<Rightarrow> cache \<Rightarrow> cache" where
  "index_insert k i c =
     (let c1 = upd_slot i (\<lambda>b. b\<lparr>slot_key := Some k\<rparr>) c;
          c2 = c1\<lparr>buffer_index := AList.update k i (buffer_index c1)\<rparr>
      in case map_of (buffer_index c1) k of
           None \<Rightarrow> c2
         | Some j \<Rightarrow> if slot_key (slot_at c2 j) = Some k
                     then upd_slot j (\<lambda>b. b\<lparr>slot_key := None\<rparr>) c2 else c2)"

definition reset_after_rebind :: "BufferSlot \<Rightarrow> BufferSlot" where
  "reset_after_rebind b = b\<lparr>ref_count := 1, dirty := False, up_to_date := False\<rparr>"

definition move_to_back :: "nat \<Rightarrow> cache \<Rightarrow> cache" where
  "move_to_back i c = c\<lparr>order := remove1 i (order c) @ [i]\<rparr>"

definition try_rebind_buffer :: "BufferKey \<Rightarrow> nat \<Rightarrow> cache \<Rightarrow> bool \<times> cache" where
  "try_rebind_buffer k i c =
     (if map_of (buffer_index c) k \<noteq> None then (False, c)
      else
        let c1 = (case slot_key (slot_at c i) of Some old \<Rightarrow> index_remove old c | None \<Rightarrow> c);
            c2 = upd_slot i reset_after_rebind c1
        in (True, move_to_back i (index_insert k i c2)))"

section \<open>Requests\<close>

text \<open>
  \<open>submit_and_wait\<close> with a device that answers: the request layer drops the request when there is no
  key, no driver or nothing to do, clears the dirty flag when it queues the request, and marks the
  slot valid or invalid on completion.
\<close>

definition submit_and_wait :: "BlockRequestType \<Rightarrow> nat \<Rightarrow> cache \<Rightarrow> cache" where
  "submit_and_wait ty i c =
     (case slot_key (slot_at c i) of
        None \<Rightarrow> c
      | Some k \<Rightarrow>
          if \<not> registered c (major (key_dev k)) then c
          else if ty = Read \<and> up_to_date (slot_at c i) \<or> ty = Write \<and> \<not> dirty (slot_at c i) then c
          else
            let c1 = upd_slot i (\<lambda>b. b\<lparr>dirty := False\<rparr>) c in
            if io_error c ty k then upd_slot i (\<lambda>b. b\<lparr>up_to_date := False\<rparr>) c1
            else case ty of
              Read \<Rightarrow> upd_slot i (\<lambda>b. b\<lparr>slot_data := dev_blocks c k, up_to_date := True\<rparr>) c1
            | Write \<Rightarrow> upd_slot i (\<lambda>b. b\<lparr>up_to_date := True\<rparr>)
                (c1\<lparr>dev_blocks := (dev_blocks c)(k := slot_data (slot_at c i))\<rparr>))"

text \<open>
  The same request in the two halves between which the caller sleeps: queueing it takes the I/O lock
  and clears the dirty flag, and the completion interrupt releases the lock.
\<close>

definition start_request :: "nat \<Rightarrow> cache \<Rightarrow> cache" where
  "start_request i c = upd_slot i (\<lambda>b. b\<lparr>io_locked := True, dirty := False\<rparr>) c"

definition complete_request :: "BlockRequestType \<Rightarrow> nat \<Rightarrow> cache \<Rightarrow> cache" where
  "complete_request ty i c =
     (case slot_key (slot_at c i) of
        None \<Rightarrow> c
      | Some k \<Rightarrow>
          let ok = (\<not> io_error c ty k);
              c1 = (if \<not> ok then c
                    else case ty of
                      Read \<Rightarrow> upd_slot i (\<lambda>b. b\<lparr>slot_data := dev_blocks c k\<rparr>) c
                    | Write \<Rightarrow> c\<lparr>dev_blocks := (dev_blocks c)(k := slot_data (slot_at c i))\<rparr>)
          in upd_slot i (\<lambda>b. b\<lparr>up_to_date := ok, io_locked := False\<rparr>) c1)"

definition flush_dirty_victim :: "nat \<Rightarrow> cache \<Rightarrow> cache" where
  "flush_dirty_victim i c = (if dirty (slot_at c i) then submit_and_wait Write i c else c)"

section \<open>The interface of the cache\<close>

text \<open>
  \<open>acquire_slot\<close> pins the slot of a cached block or rebinds a victim.  \<open>None\<close> means that every slot is
  pinned and the task sleeps until one is released.
\<close>

definition acquire_slot :: "BufferKey \<Rightarrow> cache \<Rightarrow> (nat \<times> cache) option" where
  "acquire_slot k c =
     (case pin_buffer k c of
        Some r \<Rightarrow> Some r
      | None \<Rightarrow>
          (case find_reclaim_candidate c of
             None \<Rightarrow> None
           | Some i \<Rightarrow>
               (case try_rebind_buffer k i (flush_dirty_victim i c) of
                  (True, c1) \<Rightarrow> Some (i, c1)
                | (False, c1) \<Rightarrow> pin_buffer k c1)))"

definition buffer_get :: "BufferKey \<Rightarrow> cache \<Rightarrow> (nat \<times> cache) option" where
  "buffer_get k c = acquire_slot k c"

definition release_slot :: "nat \<Rightarrow> (cache, unit) op" where
  "release_slot i c = dec_ref i c"

text \<open>\<open>read\<close> returns the slot, or nothing when the device could not deliver the block; the handle is
  dropped then.\<close>

definition buffer_read :: "BufferKey \<Rightarrow> cache \<Rightarrow> (nat option outcome \<times> cache) option" where
  "buffer_read k c =
     (case buffer_get k c of
        None \<Rightarrow> None
      | Some (i, c1) \<Rightarrow>
          let c2 = (if up_to_date (slot_at c1 i) then c1 else submit_and_wait Read i c1) in
          if up_to_date (slot_at c2 i) then Some (Ok (Some i), c2)
          else Some (bind_op (release_slot i) (\<lambda>_ s. (Ok None, s)) c2))"

definition modify :: "nat \<Rightarrow> (u8 list \<Rightarrow> u8 list) \<Rightarrow> cache \<Rightarrow> cache" where
  "modify i f c = upd_slot i (\<lambda>b. b\<lparr>slot_data := f (slot_data b), dirty := True\<rparr>) c"

definition block_read_bytes :: "nat \<Rightarrow> nat \<Rightarrow> nat \<Rightarrow> cache \<Rightarrow> u8 list outcome" where
  "block_read_bytes i off n c =
     (if BLOCK_SIZE < off + n then Panic else Ok (take n (drop off (slot_data (slot_at c i)))))"

definition block_write_bytes :: "nat \<Rightarrow> nat \<Rightarrow> u8 list \<Rightarrow> (cache, unit) op" where
  "block_write_bytes i off src c =
     (if BLOCK_SIZE < off + length src then (Panic, c)
      else
        let c1 = modify i (\<lambda>bs. take off bs @ src @ drop (off + length src) bs) c in
        (Ok (), if off = 0 \<and> length src = BLOCK_SIZE
                then upd_slot i (\<lambda>b. b\<lparr>up_to_date := True\<rparr>) c1 else c1))"

definition buffer_fill_zero :: "nat \<Rightarrow> cache \<Rightarrow> cache" where
  "buffer_fill_zero i c =
     upd_slot i (\<lambda>b. b\<lparr>slot_data := replicate BLOCK_SIZE 0, up_to_date := True, dirty := True\<rparr>) c"

definition sync_dirty :: "(BufferKey \<Rightarrow> bool) \<Rightarrow> cache \<Rightarrow> cache" where
  "sync_dirty P c =
     fold (submit_and_wait Write)
       (map snd (filter (\<lambda>(_, i). dirty (slot_at c i) \<and>
           (case slot_key (slot_at c i) of Some k \<Rightarrow> P k | None \<Rightarrow> False)) (buffer_index c))) c"

section \<open>What the cache presents\<close>

definition view :: "cache \<Rightarrow> BufferKey \<Rightarrow> u8 list" where
  "view c k =
     (case map_of (buffer_index c) k of
        Some i \<Rightarrow> if up_to_date (slot_at c i) then slot_data (slot_at c i) else dev_blocks c k
      | None \<Rightarrow> dev_blocks c k)"

text \<open>
  The invariant: the index and the keys of the slots agree, every slot is in the replacement list
  once, a dirty slot holds valid data, a clean valid slot holds what is on the device, and only
  blocks of devices with a driver are bound.
\<close>

definition slot_ok :: "cache \<Rightarrow> BufferSlot \<Rightarrow> bool" where
  "slot_ok c b \<longleftrightarrow> length (slot_data b) = BLOCK_SIZE \<and> (dirty b \<longrightarrow> up_to_date b)
     \<and> (\<forall>k. slot_key b = Some k \<longrightarrow> registered c (major (key_dev k))
            \<and> (up_to_date b \<longrightarrow> \<not> dirty b \<longrightarrow> slot_data b = dev_blocks c k))"

definition cache_ok :: "cache \<Rightarrow> bool" where
  "cache_ok c \<longleftrightarrow> (\<forall>b\<in>set (slots c). slot_ok c b) \<and> distinct (map fst (buffer_index c))
     \<and> (\<forall>k i. map_of (buffer_index c) k = Some i \<longleftrightarrow> i < length (slots c) \<and> slot_key (slot_at c i) = Some k)
     \<and> distinct (order c) \<and> set (order c) = {..<length (slots c)}
     \<and> (\<forall>k. length (dev_blocks c k) = BLOCK_SIZE)"

definition writes_succeed :: "cache \<Rightarrow> bool" where
  "writes_succeed c \<longleftrightarrow> (\<forall>k. \<not> io_error c Write k)"

lemma upd_slot_simps [simp]:
  "length (slots (upd_slot i g c)) = length (slots c)"
  "i < length (slots c) \<Longrightarrow> slots (upd_slot i g c) ! j = (if j = i then g (slots c ! i) else slots c ! j)"
  "buffer_index (upd_slot i g c) = buffer_index c" "order (upd_slot i g c) = order c"
  "dev_blocks (upd_slot i g c) = dev_blocks c" "registered (upd_slot i g c) = registered c"
  "io_error (upd_slot i g c) = io_error c"
  by (simp_all add: upd_slot_def)

lemma slot_ok_cong: "dev_blocks c' = dev_blocks c \<Longrightarrow> registered c' = registered c \<Longrightarrow> slot_ok c' = slot_ok c"
  by (rule ext) (simp add: slot_ok_def)

lemma slot_okI: "cache_ok c \<Longrightarrow> i < length (slots c) \<Longrightarrow> slot_ok c (slot_at c i)"
  by (simp add: cache_ok_def)

lemma indexed:
  "cache_ok c \<Longrightarrow> map_of (buffer_index c) k = Some i \<longleftrightarrow> i < length (slots c) \<and> slot_key (slot_at c i) = Some k"
  by (simp add: cache_ok_def)

text \<open>Changing a slot without its key.\<close>

lemma cache_ok_upd:
  assumes ok: "cache_ok c" and i: "i < length (slots c)" and k: "slot_key (g (slot_at c i)) = slot_key (slot_at c i)"
    and g: "slot_ok c (g (slot_at c i))"
  shows "cache_ok (upd_slot i g c)"
proof -
  have "slot_ok (upd_slot i g c) = slot_ok c" by (rule slot_ok_cong) simp_all
  moreover have "\<forall>b\<in>set (slots (upd_slot i g c)). slot_ok c b"
    using ok g set_update_subset_insert [of "slots c" i "g (slot_at c i)"]
    by (auto simp: cache_ok_def upd_slot_def)
  moreover have "slot_key (slot_at (upd_slot i g c) j) = slot_key (slot_at c j)" for j
    using i k by simp
  ultimately show ?thesis using ok by (simp add: cache_ok_def)
qed

lemma view_upd_other:
  assumes ok: "cache_ok c" and i: "i < length (slots c)" and k: "slot_key (slot_at c i) \<noteq> Some k"
  shows "view (upd_slot i g c) k = view c k"
proof (cases "map_of (buffer_index c) k")
  case None
  then show ?thesis by (simp add: view_def)
next
  case (Some j)
  then have "j \<noteq> i" using indexed [OF ok] k by blast
  with Some i show ?thesis by (simp add: view_def)
qed

lemma view_bound:
  assumes ok: "cache_ok c" and i: "i < length (slots c)" and k: "slot_key (slot_at c i) = Some k"
  shows "view c k = (if up_to_date (slot_at c i) then slot_data (slot_at c i) else dev_blocks c k)"
  using indexed [OF ok, of k i] i k by (simp add: view_def)

section \<open>Write-back and rebinding\<close>

lemma submit_write_ok:
  assumes ok: "cache_ok c" and w: "writes_succeed c" and i: "i < length (slots c)"
  shows "cache_ok (submit_and_wait Write i c)" "view (submit_and_wait Write i c) = view c"
    "\<not> (dirty (slot_at (submit_and_wait Write i c) i) \<and> slot_key (slot_at c i) \<noteq> None)"
proof -
  let ?b = "slot_at c i" and ?c = "submit_and_wait Write i c"
  consider "slot_key ?b = None" | k where "slot_key ?b = Some k" "\<not> dirty ?b"
    | k where "slot_key ?b = Some k" "dirty ?b" by auto
  then have "cache_ok ?c \<and> view ?c = view c \<and> \<not> (dirty (slot_at ?c i) \<and> slot_key ?b \<noteq> None)"
  proof cases
    case 3
    have sok: "slot_ok c ?b" by (rule slot_okI [OF ok i])
    with 3 have reg: "registered c (major (key_dev k))" and utd: "up_to_date ?b"
      and len: "length (slot_data ?b) = BLOCK_SIZE" by (auto simp: slot_ok_def)
    let ?nb = "?b\<lparr>dirty := False, up_to_date := True\<rparr>"
    have c': "?c = c\<lparr>slots := (slots c)[i := ?nb], dev_blocks := (dev_blocks c)(k := slot_data ?b)\<rparr>"
      using 3 reg w i by (simp add: submit_and_wait_def writes_succeed_def upd_slot_def)
    have uniq: "slot_key b = Some k \<longleftrightarrow> j = i" if "j < length (slots c)" "b = slot_at c j" for j b
      using indexed [OF ok, of k] 3(1) i that by (metis option.inject)
    have "slot_ok ?c b" if b: "b \<in> set (slots ?c)" for b
    proof -
      obtain j where j: "j < length (slots c)" "b = slots ?c ! j"
        using b by (auto simp: c' in_set_conv_nth)
      show ?thesis
      proof (cases "j = i")
        case True
        then show ?thesis using j sok 3 reg len i by (simp add: c' slot_ok_def)
      next
        case False
        then have "b = slot_at c j" using j by (simp add: c')
        with False uniq [OF j(1)] slot_okI [OF ok j(1)] show ?thesis by (auto simp: slot_ok_def c')
      qed
    qed
    moreover have "slot_key (slots ?c ! j) = slot_key (slot_at c j)" for j
      using i by (cases "j = i") (simp_all add: c')
    ultimately have "cache_ok ?c" using ok len by (simp add: cache_ok_def c')
    moreover have "view ?c x = view c x" for x
    proof (cases "x = k")
      case True
      then show ?thesis using indexed [OF ok, of k i] 3 i utd by (simp add: view_def c')
    next
      case False
      show ?thesis
      proof (cases "map_of (buffer_index c) x")
        case None
        then show ?thesis using False by (simp add: view_def c')
      next
        case (Some j)
        then have "j \<noteq> i" using indexed [OF ok] 3(1) False by auto
        with Some False show ?thesis by (simp add: view_def c')
      qed
    qed
    ultimately show ?thesis using i by (auto simp: c')
  qed (use ok i in \<open>auto simp: submit_and_wait_def\<close>)
  then show "cache_ok ?c" "view ?c = view c" "\<not> (dirty (slot_at ?c i) \<and> slot_key ?b \<noteq> None)" by blast+
qed

lemma submit_frame:
  assumes "i < length (slots c)"
  shows "length (slots (submit_and_wait ty i c)) = length (slots c)"
    "j \<noteq> i \<Longrightarrow> slot_at (submit_and_wait ty i c) j = slot_at c j"
    "slot_key (slot_at (submit_and_wait ty i c) j) = slot_key (slot_at c j)"
    "ref_count (slot_at (submit_and_wait ty i c) j) = ref_count (slot_at c j)"
    "buffer_index (submit_and_wait ty i c) = buffer_index c" "order (submit_and_wait ty i c) = order c"
    "registered (submit_and_wait ty i c) = registered c" "io_error (submit_and_wait ty i c) = io_error c"
  using assms
  by (auto simp: submit_and_wait_def Let_def nth_list_update
    split: option.splits BlockRequestType.splits)

lemma flush_victim_ok:
  assumes ok: "cache_ok c" and w: "writes_succeed c" and i: "i < length (slots c)"
  shows "cache_ok (flush_dirty_victim i c)" "view (flush_dirty_victim i c) = view c"
    "slot_key (slot_at c i) = None \<or> \<not> dirty (slot_at (flush_dirty_victim i c) i)"
    "length (slots (flush_dirty_victim i c)) = length (slots c)"
    "buffer_index (flush_dirty_victim i c) = buffer_index c"
    "slot_key (slot_at (flush_dirty_victim i c) i) = slot_key (slot_at c i)"
    "registered (flush_dirty_victim i c) = registered c" "io_error (flush_dirty_victim i c) = io_error c"
  using submit_write_ok [OF ok w i] submit_frame [OF i, where ty = Write] ok
  by (auto simp: flush_dirty_victim_def)

lemma map_of_delete: "map_of (AList.delete k xs) x = (if x = k then None else map_of xs x)"
  by (simp add: delete_conv')

lemma rebind_ok:
  assumes ok: "cache_ok c" and i: "i < length (slots c)" and clean: "slot_key (slot_at c i) = None \<or> \<not> dirty (slot_at c i)"
    and k: "map_of (buffer_index c) k = None" and reg: "registered c (major (key_dev k))"
  obtains c' where "try_rebind_buffer k i c = (True, c')" "cache_ok c'" "view c' = view c"
    "slot_key (slot_at c' i) = Some k" "ref_count (slot_at c' i) = 1" "\<not> up_to_date (slot_at c' i)"
    "length (slots c') = length (slots c)" "registered c' = registered c" "io_error c' = io_error c"
    "\<And>j. j \<noteq> i \<Longrightarrow> slot_at c' j = slot_at c j" "dev_blocks c' = dev_blocks c"
proof -
  let ?b = "slot_at c i"
  define idx where "idx = AList.update k i (case slot_key ?b of Some old \<Rightarrow> AList.delete old (buffer_index c)
    | None \<Rightarrow> buffer_index c)"
  let ?nb = "?b\<lparr>ref_count := 1, dirty := False, up_to_date := False, slot_key := Some k\<rparr>"
  define c' where "c' = c\<lparr>slots := (slots c)[i := ?nb], buffer_index := idx,
    order := remove1 i (order c) @ [i]\<rparr>"
  have old: "map_of (buffer_index c) old = Some i" if "slot_key ?b = Some old" for old
    using that indexed [OF ok] i by simp
  have run: "try_rebind_buffer k i c = (True, c')"
  proof (cases "slot_key ?b")
    case None
    then show ?thesis using k i
      by (simp add: try_rebind_buffer_def index_insert_def Let_def c'_def idx_def move_to_back_def
        upd_slot_def reset_after_rebind_def)
  next
    case (Some old)
    then show ?thesis using k i old [OF Some]
      by (simp add: try_rebind_buffer_def index_insert_def index_remove_def Let_def c'_def idx_def
        move_to_back_def upd_slot_def reset_after_rebind_def map_of_delete)
  qed
  have mo: "map_of idx x = (if x = k then Some i else if slot_key ?b = Some x then None
      else map_of (buffer_index c) x)" for x
    by (auto simp: idx_def update_conv' map_of_delete split: option.splits)
  have keys: "slot_key (slots c' ! j) = (if j = i then Some k else slot_key (slot_at c j))" for j
    using i by (simp add: c'_def)
  have "map_of idx x = Some j \<longleftrightarrow> j < length (slots c') \<and> slot_key (slot_at c' j) = Some x" for x j
  proof (cases "j = i")
    case True
    then show ?thesis using i old k unfolding mo keys by (auto simp: c'_def indexed [OF ok])
  next
    case False
    have "slot_key ?b \<noteq> Some x" if "slot_key (slot_at c j) = Some x" "j < length (slots c)"
      using that False indexed [OF ok, of x j] indexed [OF ok, of x i] i by auto
    moreover have "x \<noteq> k" if "slot_key (slot_at c j) = Some x" "j < length (slots c)"
      using that k indexed [OF ok, of x j] by auto
    ultimately show ?thesis using False unfolding mo keys by (auto simp: c'_def indexed [OF ok])
  qed
  moreover have "slot_ok c' b" if "b \<in> set (slots c')" for b
  proof -
    have "slot_ok c' = slot_ok c" by (rule slot_ok_cong) (simp_all add: c'_def)
    moreover have "slot_ok c ?nb"
      using slot_okI [OF ok i] reg by (simp add: slot_ok_def)
    moreover have "b \<in> insert ?nb (set (slots c))"
      using that set_update_subset_insert [of "slots c" i ?nb] by (auto simp: c'_def)
    ultimately show ?thesis using ok by (auto simp: cache_ok_def)
  qed
  moreover have "distinct (map fst idx)"
    using ok by (auto simp: idx_def cache_ok_def distinct_update distinct_delete split: option.splits)
  moreover have "distinct (order c')" "set (order c') = {..<length (slots c')}"
    using ok i by (auto simp: c'_def cache_ok_def)
  ultimately have ok': "cache_ok c'"
    using ok by (auto simp: cache_ok_def c'_def)
  have "view c' x = view c x" for x
  proof (cases "x = k")
    case True
    then show ?thesis using k i mo by (simp add: view_def c'_def)
  next
    case neq: False
    show ?thesis
    proof (cases "slot_key ?b = Some x")
      case True
      then have "view c x = dev_blocks c x"
        using view_bound [OF ok i True] slot_okI [OF ok i] clean by (auto simp: slot_ok_def)
      then show ?thesis using neq True mo by (simp add: view_def c'_def)
    next
      case False
      then have "map_of (buffer_index c) x \<noteq> Some i" using indexed [OF ok] by auto
      then show ?thesis
        using neq False mo i by (auto simp: view_def c'_def nth_list_update split: option.splits)
    qed
  qed
  then have "view c' = view c" by (rule ext)
  with run ok' i that show ?thesis by (simp add: c'_def)
qed

section \<open>Acquiring, reading, modifying\<close>

lemma find_reclaim_spec:
  "find_reclaim c best xs = Some (i, p) \<Longrightarrow> best = Some (i, p) \<or> i \<in> set xs \<and> ref_count (slot_at c i) = 0"
  "find_reclaim c best xs = None \<longleftrightarrow> best = None \<and> (\<forall>i\<in>set xs. ref_count (slot_at c i) \<noteq> 0)"
  by (induction c best xs rule: find_reclaim.induct) (auto simp: Let_def split: if_splits option.splits)

lemma candidate_spec:
  assumes "cache_ok c"
  shows "find_reclaim_candidate c = Some i \<Longrightarrow> i < length (slots c) \<and> ref_count (slot_at c i) = 0"
    "find_reclaim_candidate c = None \<longleftrightarrow> (\<forall>i < length (slots c). ref_count (slot_at c i) \<noteq> 0)"
  using assms find_reclaim_spec(1) [of c None "order c"] find_reclaim_spec(2) [of c None "order c"]
  by (auto simp: find_reclaim_candidate_def cache_ok_def lessThan_def)

text \<open>A call that only changes slots, the index and the order leaves the device alone.\<close>

definition same_device :: "cache \<Rightarrow> cache \<Rightarrow> bool" where
  "same_device c c' \<longleftrightarrow> registered c' = registered c \<and> io_error c' = io_error c
     \<and> length (slots c') = length (slots c)"

lemma pin_ok:
  assumes ok: "cache_ok c" and p: "pin_buffer k c = Some (i, c')"
  shows "cache_ok c'" "view c' = view c" "i < length (slots c')" "slot_key (slot_at c' i) = Some k"
    "same_device c c'" "ref_count (slot_at c' i) = ref_count (slot_at c i) + 1"
    "j \<noteq> i \<Longrightarrow> ref_count (slot_at c' j) = ref_count (slot_at c j)"
proof -
  from p have m: "map_of (buffer_index c) k = Some i" and c': "c' = upd_slot i inc_ref c"
    by (auto simp: pin_buffer_def split: option.splits)
  from m have i: "i < length (slots c)" "slot_key (slot_at c i) = Some k" using indexed [OF ok] by auto
  show "cache_ok c'" unfolding c' using slot_okI [OF ok i(1)]
    by (intro cache_ok_upd [OF ok i(1)]) (simp_all add: inc_ref_def slot_ok_def)
  have "view c' x = view c x" for x
    unfolding view_def c' using i(1) by (auto simp: inc_ref_def split: option.splits)
  then show "view c' = view c" by (rule ext)
  show "i < length (slots c')" "slot_key (slot_at c' i) = Some k" "same_device c c'"
    "ref_count (slot_at c' i) = ref_count (slot_at c i) + 1"
    "j \<noteq> i \<Longrightarrow> ref_count (slot_at c' j) = ref_count (slot_at c j)"
    using i by (simp_all add: c' inc_ref_def same_device_def)
qed

lemma acquire_slot_ok:
  assumes ok: "cache_ok c" and w: "writes_succeed c" and reg: "registered c (major (key_dev k))"
    and a: "acquire_slot k c = Some (i, c')"
  shows "cache_ok c'" "view c' = view c" "i < length (slots c')" "slot_key (slot_at c' i) = Some k"
    "same_device c c'" "ref_count (slot_at c' i) = ref_count (slot_at c i) + 1"
    "j \<noteq> i \<Longrightarrow> ref_count (slot_at c' j) = ref_count (slot_at c j)"
proof -
  have "cache_ok c' \<and> view c' = view c \<and> i < length (slots c') \<and> slot_key (slot_at c' i) = Some k
    \<and> same_device c c' \<and> ref_count (slot_at c' i) = ref_count (slot_at c i) + 1
    \<and> (\<forall>j. j \<noteq> i \<longrightarrow> ref_count (slot_at c' j) = ref_count (slot_at c j))"
  proof (cases "pin_buffer k c")
    case (Some r)
    with a have "pin_buffer k c = Some (i, c')" by (simp add: acquire_slot_def)
    from pin_ok [OF ok this] show ?thesis by blast
  next
    case None
    then have nk: "map_of (buffer_index c) k = None" by (simp add: pin_buffer_def split: option.splits)
    from a None obtain v where v: "find_reclaim_candidate c = Some v"
      by (auto simp: acquire_slot_def split: option.splits)
    have vl: "v < length (slots c)" and v0: "ref_count (slot_at c v) = 0"
      using candidate_spec(1) [OF ok v] by simp_all
    let ?f = "flush_dirty_victim v c"
    note fl = flush_victim_ok [OF ok w vl]
    obtain c1 where c1: "try_rebind_buffer k v ?f = (True, c1)" "cache_ok c1" "view c1 = view ?f"
      "slot_key (slot_at c1 v) = Some k" "ref_count (slot_at c1 v) = 1" "\<not> up_to_date (slot_at c1 v)"
      "length (slots c1) = length (slots ?f)" "registered c1 = registered ?f" "io_error c1 = io_error ?f"
      "\<And>j. j \<noteq> v \<Longrightarrow> slot_at c1 j = slot_at ?f j" "dev_blocks c1 = dev_blocks ?f"
      using rebind_ok [of ?f v k] fl nk reg vl by (metis (no_types, lifting))
    have "i = v" "c' = c1" using a None v c1(1) by (simp_all add: acquire_slot_def)
    moreover have "ref_count (slot_at ?f j) = ref_count (slot_at c j)" for j
      using submit_frame(4) [OF vl, of Write] by (simp add: flush_dirty_victim_def)
    ultimately show ?thesis using c1 fl vl v0 by (simp add: same_device_def)
  qed
  then show "cache_ok c'" "view c' = view c" "i < length (slots c')" "slot_key (slot_at c' i) = Some k"
    "same_device c c'" "ref_count (slot_at c' i) = ref_count (slot_at c i) + 1"
    "j \<noteq> i \<Longrightarrow> ref_count (slot_at c' j) = ref_count (slot_at c j)" by blast+
qed

lemma submit_read_ok:
  assumes ok: "cache_ok c" and i: "i < length (slots c)" and k: "slot_key (slot_at c i) = Some k"
    and utd: "\<not> up_to_date (slot_at c i)"
  shows "cache_ok (submit_and_wait Read i c)" "view (submit_and_wait Read i c) = view c"
    "up_to_date (slot_at (submit_and_wait Read i c) i) \<longleftrightarrow> \<not> io_error c Read k"
proof -
  let ?b = "slot_at c i" and ?c = "submit_and_wait Read i c"
  have sok: "slot_ok c ?b" by (rule slot_okI [OF ok i])
  have reg: "registered c (major (key_dev k))" and nd: "\<not> dirty ?b"
    using sok k utd by (auto simp: slot_ok_def)
  have len: "length (dev_blocks c k) = BLOCK_SIZE" using ok by (simp add: cache_ok_def)
  define g where "g b = (if io_error c Read k then b\<lparr>dirty := False, up_to_date := False\<rparr>
    else b\<lparr>dirty := False, slot_data := dev_blocks c k, up_to_date := True\<rparr>)" for b :: BufferSlot
  have c': "?c = upd_slot i g c"
    using k reg utd i by (simp add: submit_and_wait_def g_def upd_slot_def)
  show "cache_ok ?c"
    unfolding c' using sok k reg len utd
    by (intro cache_ok_upd [OF ok i]) (auto simp: g_def slot_ok_def)
  then have ok': "cache_ok (upd_slot i g c)" by (simp add: c')
  show "up_to_date (slot_at ?c i) \<longleftrightarrow> \<not> io_error c Read k" using i by (simp add: c' g_def)
  have "view ?c x = view c x" for x
  proof (cases "x = k")
    case True
    then show ?thesis
      using view_bound [OF ok i k] view_bound [OF ok', of i k] i k utd by (simp add: c' g_def)
  next
    case False
    then show ?thesis unfolding c' using view_upd_other [OF ok i] k by simp
  qed
  then show "view ?c = view c" by (rule ext)
qed

lemma buffer_read_ok:
  assumes ok: "cache_ok c" and w: "writes_succeed c" and reg: "registered c (major (key_dev k))"
    and r: "buffer_read k c = Some (Ok (Some i), c')"
  shows "cache_ok c'" "view c' = view c" "i < length (slots c')" "slot_key (slot_at c' i) = Some k"
    "up_to_date (slot_at c' i)" "slot_data (slot_at c' i) = view c k" "same_device c c'"
    "ref_count (slot_at c' i) = ref_count (slot_at c i) + 1"
    "j \<noteq> i \<Longrightarrow> ref_count (slot_at c' j) = ref_count (slot_at c j)"
proof -
  obtain v c1 where a: "acquire_slot k c = Some (v, c1)"
    using r by (auto simp: buffer_read_def buffer_get_def split: option.splits)
  note aq = acquire_slot_ok [OF ok w reg a]
  let ?c2 = "if up_to_date (slot_at c1 v) then c1 else submit_and_wait Read v c1"
  have iv: "i = v" "c' = ?c2" "up_to_date (slot_at ?c2 v)"
    using r a by (auto simp: buffer_read_def buffer_get_def Let_def release_slot_def dec_ref_def bind_op_def
      split: if_splits outcome.splits prod.splits)
  note fr = submit_frame [OF aq(3), where ty = Read]
  have ok2: "cache_ok ?c2" "view ?c2 = view c1"
    using submit_read_ok [OF aq(1,3,4)] aq(1) by auto
  have st: "i < length (slots ?c2)" "slot_key (slot_at ?c2 i) = Some k" "same_device c1 ?c2"
    "ref_count (slot_at ?c2 m) = ref_count (slot_at c1 m)" for m
    using aq(3,4) fr iv(1) by (auto simp: same_device_def)
  from view_bound [OF ok2(1) st(1,2)] iv ok2(2) aq(2)
  show "slot_data (slot_at c' i) = view c k" by simp
  show "cache_ok c'" "view c' = view c" "i < length (slots c')" "slot_key (slot_at c' i) = Some k"
    "up_to_date (slot_at c' i)" "same_device c c'"
    "ref_count (slot_at c' i) = ref_count (slot_at c i) + 1"
    "j \<noteq> i \<Longrightarrow> ref_count (slot_at c' j) = ref_count (slot_at c j)"
    using ok2 st aq iv by (auto simp: same_device_def)
qed

end
