(* ===== verification/Buffer_Acquire.thy ===== *)
theory Buffer_Acquire
  imports Buffer_Properties
begin

text \<open>
  Acquiring a slot with other tasks in between (\<open>acquire_slot\<close>, \<open>try_acquire_cached\<close>,
  \<open>try_acquire_victim\<close> and \<open>release_slot\<close> of \<open>kernel/src/fs/buffer.rs\<close>).  The code is cut at \<open>wait_io\<close>,
  where a task sleeps until the I/O lock of a slot is free: a step runs a task from one such point to the
  next.
\<close>

section \<open>Steps of a task\<close>

text \<open>Waiting for the slot that was found in the index, for a victim, for the write-back of a victim, and
  holding the slot until it is released.\<close>

datatype phase = Wants | CachedWait nat | VictimWait nat | FlushWait nat | Holds nat | Released

text \<open>\<open>flush_dirty_victim\<close> submits the write; the request layer drops it when the device has no driver.\<close>

definition flush_begin :: "nat \<Rightarrow> cache \<Rightarrow> cache" where
  "flush_begin i c =
     (case slot_key (slot_at c i) of
        None \<Rightarrow> c
      | Some k \<Rightarrow> if registered c (major (key_dev k)) then start_request i c else c)"

definition victim_begin :: "cache \<Rightarrow> phase" where
  "victim_begin c = (case find_reclaim_candidate c of Some i \<Rightarrow> VictimWait i | None \<Rightarrow> Wants)"

definition victim_rebind :: "BufferKey \<Rightarrow> nat \<Rightarrow> cache \<Rightarrow> phase \<times> cache" where
  "victim_rebind k i c = (case try_rebind_buffer k i c of (done, c1) \<Rightarrow> (if done then Holds i else Wants, c1))"

fun acquire_step :: "BufferKey \<Rightarrow> phase \<Rightarrow> (cache, phase) op" where
  "acquire_step k Wants c =
     (case pin_buffer k c of
        Some (i, c1) \<Rightarrow> (Ok (CachedWait i), c1)
      | None \<Rightarrow> (Ok (victim_begin c), c))"
| "acquire_step k (CachedWait i) c =
     (if slot_key (slot_at c i) = Some k then (Ok (Holds i), c)
      else bind_op (dec_ref i) (\<lambda>_ c1. (Ok (victim_begin c1), c1)) c)"
| "acquire_step k (VictimWait i) c =
     (if ref_count (slot_at c i) \<noteq> 0 then (Ok Wants, c)
      else if dirty (slot_at c i) then (Ok (FlushWait i), flush_begin i c)
      else case victim_rebind k i c of (p, c1) \<Rightarrow> (Ok p, c1))"
| "acquire_step k (FlushWait i) c = (case victim_rebind k i c of (p, c1) \<Rightarrow> (Ok p, c1))"
| "acquire_step k (Holds i) c = bind_op (release_slot i) (\<lambda>_ c1. (Ok Released, c1)) c"
| "acquire_step k Released c = (Ok Released, c)"

text \<open>\<open>wait_io\<close> holds a task back while the slot is locked.\<close>

fun ready :: "phase \<Rightarrow> cache \<Rightarrow> bool" where
  "ready (CachedWait i) c = (\<not> io_locked (slot_at c i))"
| "ready (VictimWait i) c = (\<not> io_locked (slot_at c i))"
| "ready (FlushWait i) c = (\<not> io_locked (slot_at c i))"
| "ready (Holds i) c = (\<not> io_locked (slot_at c i))"
| "ready _ c = True"

text \<open>Two tasks that acquire a block each, and the interrupt that completes a write-back.\<close>

inductive acquiring :: "BufferKey \<Rightarrow> BufferKey \<Rightarrow> cache \<Rightarrow> cache \<Rightarrow> phase \<Rightarrow> phase \<Rightarrow> bool" for ka kb c0 where
  start: "acquiring ka kb c0 c0 Wants Wants"
| step_a: "acquiring ka kb c0 c a b \<Longrightarrow> ready a c \<Longrightarrow> acquire_step ka a c = (Ok a', c') \<Longrightarrow> acquiring ka kb c0 c' a' b"
| step_b: "acquiring ka kb c0 c a b \<Longrightarrow> ready b c \<Longrightarrow> acquire_step kb b c = (Ok b', c') \<Longrightarrow> acquiring ka kb c0 c' a b'"
| interrupt: "acquiring ka kb c0 c a b \<Longrightarrow> i < length (slots c) \<Longrightarrow> io_locked (slot_at c i) \<Longrightarrow>
    acquiring ka kb c0 (complete_request Write i c) a b"

section \<open>A victim that is pinned during its write-back\<close>

text \<open>
  Replacing a dirty slot is not safe against other tasks.  Task A picks the unpinned dirty slot of
  block 5 as victim for block 6 and sleeps while it is written back.  Task B asks for block 5 in the
  meantime, finds it in the index and pins the slot.  When the transfer is complete, A rebinds the slot
  to block 6 without looking at its reference count again, so that one count stands for two users; B
  sees a foreign key and drops its pin, and the count reaches zero while A still uses the slot.  When A
  releases it, the kernel panics.
\<close>

theorem victim_rebound_while_pinned:
  "\<exists>c b. acquiring (on_device 0x301 6) (on_device 0x301 5) demo_cache c (Holds 0) b
      \<and> ready (Holds 0) c \<and> fst (acquire_step (on_device 0x301 6) (Holds 0) c) = Panic"
proof -
  let ?a = "on_device 0x301 6" and ?b = "on_device 0x301 5"
  have ne: "?a \<noteq> ?b" "?b \<noteq> ?a" by (simp_all add: on_device_def)
  note defs = flush_begin_def major_def on_device_def [of _ 5] demo_cache_def find_reclaim_candidate_def reclaim_penalty_def pin_buffer_def victim_begin_def victim_rebind_def
    start_request_def complete_request_def upd_slot_def inc_ref_def try_rebind_buffer_def index_remove_def
    index_insert_def reset_after_rebind_def move_to_back_def dec_ref_def release_slot_def bind_op_def Let_def
  define c1 where "c1 = start_request 0 demo_cache"
  define c2 where "c2 = upd_slot 0 inc_ref c1"
  define c3 where "c3 = complete_request Write 0 c2"
  define c4 where "c4 = snd (try_rebind_buffer ?a 0 c3)"
  define c5 where "c5 = snd (dec_ref 0 c4)"
  note cs = c1_def c2_def c3_def c4_def c5_def
  let ?run = "acquiring ?a ?b demo_cache"
  have "?run demo_cache (VictimWait 0) Wants"
    by (rule step_a [OF start]) (use ne in \<open>simp_all add: defs\<close>)
  then have "?run c1 (FlushWait 0) Wants"
    by (rule step_a) (use ne in \<open>simp_all add: defs c1_def\<close>)
  then have "?run c2 (FlushWait 0) (CachedWait 0)"
    by (rule step_b) (use ne in \<open>simp_all add: defs cs\<close>)
  then have "?run c3 (FlushWait 0) (CachedWait 0)"
    unfolding c3_def by (rule interrupt) (use ne in \<open>simp_all add: defs cs\<close>)
  then have "?run c4 (Holds 0) (CachedWait 0)"
    by (rule step_a) (use ne in \<open>simp_all add: defs cs\<close>)
  then have "?run c5 (Holds 0) (VictimWait 0)"
    by (rule step_b) (use ne in \<open>simp_all add: defs cs\<close>)
  moreover have "ready (Holds 0) c5" "fst (acquire_step ?a (Holds 0) c5) = Panic"
    using ne by (simp_all add: defs cs)
  ultimately show ?thesis by blast
qed

end
