(* ===== verification/Block_Queue.thy ===== *)
theory Block_Queue
  imports Buffer_Cache
begin

text \<open>
  The block request layer (\<open>kernel/src/driver/block/mod.rs\<close>): the pool of 32 request slots, one queue
  per device major threaded through it, and the elevator rule by which a request is spliced in.
  The queues are linked lists in the pool; \<open>chain\<close> relates a queue to the list of its slots.
\<close>

section \<open>Requests\<close>

definition SECTOR_SIZE :: nat where "SECTOR_SIZE = 512"
definition REQUEST_POOL_CAPACITY :: nat where "REQUEST_POOL_CAPACITY = 32"
definition BLOCK_DEVICE_SLOT_COUNT :: nat where "BLOCK_DEVICE_SLOT_COUNT = 7"
definition BUFFER_BLOCK_SECTOR_COUNT :: u32 where
  "BUFFER_BLOCK_SECTOR_COUNT = word_of_nat (BLOCK_SIZE div SECTOR_SIZE)"

record BlockRequestIo =
  io_dev :: u16
  io_ty :: BlockRequestType
  first_sector :: u32
  sector_count :: u32
  io_data_addr :: u32

record RequestProgress =
  next_sector :: u32
  remaining_sectors :: u32
  next_data_addr :: u32

record BlockRequest =
  io :: BlockRequestIo
  progress :: RequestProgress
  error_count :: u32
  payload :: nat
  next_request :: "nat option"

text \<open>
  \<open>pool\<close> are the request slots; \<open>queues\<close> has an entry for each major, \<open>Some\<close> when a driver is
  registered, with the head of its queue.  The payload of a request is the buffer slot it serves.
\<close>

record BlockManager =
  pool :: "BlockRequest option list"
  queues :: "nat option option list"

definition BlockManager_new :: BlockManager where
  "BlockManager_new = \<lparr>pool = replicate REQUEST_POOL_CAPACITY None,
     queues = replicate BLOCK_DEVICE_SLOT_COUNT None\<rparr>"

definition register_driver :: "nat \<Rightarrow> BlockManager \<Rightarrow> BlockManager outcome" where
  "register_driver ma m =
     (if ma < length (queues m) then Ok (m\<lparr>queues := (queues m)[ma := Some None]\<rparr>) else Panic)"

definition is_registered_major :: "nat \<Rightarrow> BlockManager \<Rightarrow> bool" where
  "is_registered_major ma m \<longleftrightarrow> ma < length (queues m) \<and> queues m ! ma \<noteq> None"

definition find_free_slot :: "BlockRequestType \<Rightarrow> BlockManager \<Rightarrow> nat option" where
  "find_free_slot ty m =
     (let search_end = (case ty of Read \<Rightarrow> REQUEST_POOL_CAPACITY | Write \<Rightarrow> REQUEST_POOL_CAPACITY * 2 div 3) in
      rposition (\<lambda>e. e = None) (take search_end (pool m)))"

definition new_request :: "BufferKey \<Rightarrow> BlockRequestType \<Rightarrow> u32 \<Rightarrow> nat \<Rightarrow> BlockRequest" where
  "new_request k ty addr slot =
     (let sector = key_block k * BUFFER_BLOCK_SECTOR_COUNT in
      \<lparr>io = \<lparr>io_dev = key_dev k, io_ty = ty, first_sector = sector,
              sector_count = BUFFER_BLOCK_SECTOR_COUNT, io_data_addr = addr\<rparr>,
       progress = \<lparr>next_sector = sector, remaining_sectors = BUFFER_BLOCK_SECTOR_COUNT, next_data_addr = addr\<rparr>,
       error_count = 0, payload = slot, next_request = None\<rparr>)"

definition ty_code :: "BlockRequestType \<Rightarrow> nat" where
  "ty_code ty = (case ty of Read \<Rightarrow> 0 | Write \<Rightarrow> 1)"

text \<open>The comparison of triples is lexicographic.\<close>

definition request_in_order :: "BlockRequest \<Rightarrow> BlockRequest \<Rightarrow> bool" where
  "request_in_order l r \<longleftrightarrow>
     ty_code (io_ty (io l)) < ty_code (io_ty (io r))
     \<or> ty_code (io_ty (io l)) = ty_code (io_ty (io r))
       \<and> (io_dev (io l) < io_dev (io r)
          \<or> io_dev (io l) = io_dev (io r) \<and> next_sector (progress l) < next_sector (progress r))"

definition link :: "nat \<Rightarrow> nat option \<Rightarrow> BlockRequest option list \<Rightarrow> BlockRequest option list" where
  "link i nxt p = p[i := map_option (\<lambda>r. r\<lparr>next_request := nxt\<rparr>) (p ! i)]"

text \<open>
  The loop of \<open>add_request\<close> walks the queue from its head.  The fuel is the number of slots it may
  still visit; running out of it stands for a cyclic queue and is a \<open>Panic\<close> here, as is a pointer to
  an empty slot.
\<close>

fun splice_request :: "nat \<Rightarrow> nat \<Rightarrow> nat \<Rightarrow> BlockRequest option list \<Rightarrow> BlockRequest option list outcome" where
  "splice_request 0 current_id request_id p = Panic"
| "splice_request (Suc fuel) current_id request_id p =
     (case (p ! current_id, p ! request_id) of
        (Some current, Some new) \<Rightarrow>
          (case next_request current of
             None \<Rightarrow> Ok (link current_id (Some request_id) p)
           | Some next_id \<Rightarrow>
               (case p ! next_id of
                  None \<Rightarrow> Panic
                | Some next \<Rightarrow>
                    if (request_in_order current new \<or> \<not> request_in_order current next)
                       \<and> request_in_order new next
                    then Ok (link current_id (Some request_id) (link request_id (Some next_id) p))
                    else splice_request fuel next_id request_id p))
      | _ \<Rightarrow> Panic)"

text \<open>
  \<open>add_request\<close> returns whether the driver has to be started.  Its first action, clearing the dirty
  flag of the buffer, is in \<open>start_request\<close> of \<open>Buffer_Cache\<close>, with which \<open>submit_request\<close> composes it.
\<close>

definition add_request :: "nat \<Rightarrow> nat \<Rightarrow> BlockManager \<Rightarrow> (bool \<times> BlockManager) outcome" where
  "add_request ma request_id m =
     (let p = link request_id None (pool m) in
      case (if ma < length (queues m) then queues m ! ma else None) of
        None \<Rightarrow> Panic
      | Some None \<Rightarrow> Ok (True, m\<lparr>pool := p, queues := (queues m)[ma := Some (Some request_id)]\<rparr>)
      | Some (Some head) \<Rightarrow>
          (case splice_request REQUEST_POOL_CAPACITY head request_id p of
             Ok p' \<Rightarrow> Ok (False, m\<lparr>pool := p'\<rparr>)
           | Err e \<Rightarrow> Err e
           | Panic \<Rightarrow> Panic))"

definition take_current_request :: "nat \<Rightarrow> BlockManager \<Rightarrow> (BlockRequest \<times> bool \<times> BlockManager) outcome" where
  "take_current_request ma m =
     (case (if ma < length (queues m) then queues m ! ma else None) of
        None \<Rightarrow> Err Errno_NODEV
      | Some None \<Rightarrow> Err Errno_IO
      | Some (Some i) \<Rightarrow>
          (case pool m ! i of
             None \<Rightarrow> Panic
           | Some r \<Rightarrow>
               Ok (r, next_request r \<noteq> None,
                   m\<lparr>pool := (pool m)[i := None], queues := (queues m)[ma := Some (next_request r)]\<rparr>)))"

definition advance_one_sector :: "BlockRequest \<Rightarrow> BlockRequest outcome" where
  "advance_one_sector r =
     (if remaining_sectors (progress r) = 0 then Panic
      else Ok (r\<lparr>progress := \<lparr>next_sector = next_sector (progress r) + 1,
                             remaining_sectors = remaining_sectors (progress r) - 1,
                             next_data_addr = next_data_addr (progress r) + word_of_nat SECTOR_SIZE\<rparr>\<rparr>))"

definition clear_errors :: "BlockRequest \<Rightarrow> BlockRequest" where
  "clear_errors r = r\<lparr>error_count := 0\<rparr>"

datatype RequestErrorAction = Retry | Reset | Fail

definition record_error :: "u32 \<Rightarrow> BlockRequest \<Rightarrow> RequestErrorAction \<times> BlockRequest" where
  "record_error max_errors r =
     (let n = error_count r + 1; r' = r\<lparr>error_count := n\<rparr> in
      (if max_errors \<le> n then Fail else if max_errors div 2 < n then Reset else Retry, r'))"

definition current_request :: "nat \<Rightarrow> BlockManager \<Rightarrow> BlockRequest option outcome" where
  "current_request ma m =
     (case (if ma < length (queues m) then queues m ! ma else None) of
        Some (Some i) \<Rightarrow> (case pool m ! i of None \<Rightarrow> Panic | Some r \<Rightarrow> Ok (Some r))
      | _ \<Rightarrow> Ok None)"

definition insert_request :: "nat \<Rightarrow> nat \<Rightarrow> BlockRequest \<Rightarrow> BlockManager \<Rightarrow> (bool \<times> BlockManager) outcome" where
  "insert_request ma i r m = add_request ma i (m\<lparr>pool := (pool m)[i := Some r]\<rparr>)"

section \<open>Submitting and completing\<close>

text \<open>
  \<open>submit_request\<close> on the cache and the manager together.  \<open>Sleeps\<close> is the caller waiting for the I/O lock
  of the buffer or for a free request slot, with the state it leaves behind; \<open>Queued\<close> tells whether the
  driver was started.  The buffer's address is the one \<open>init\<close> gave the slot.
\<close>

datatype submitted = Dropped | Sleeps | Queued bool

definition data_addr :: "nat \<Rightarrow> u32" where
  "data_addr slot = LOW_MEM + word_of_nat (slot * BLOCK_SIZE)"

text \<open>The part after the I/O lock is taken; a task that slept for a free slot starts here again.\<close>

definition queue_request ::
    "BlockRequestType \<Rightarrow> bool \<Rightarrow> nat \<Rightarrow> BufferKey \<Rightarrow> cache \<times> BlockManager \<Rightarrow> (submitted \<times> cache \<times> BlockManager) outcome" where
  "queue_request ty prefetch b k s =
     (case s of (c, m) \<Rightarrow>
      (case find_free_slot ty m of
         None \<Rightarrow>
           if prefetch then Ok (Dropped, upd_slot b (\<lambda>x. x\<lparr>io_locked := False\<rparr>) c, m)
           else Ok (Sleeps, c, m)
       | Some i \<Rightarrow>
           (case insert_request (unat (major (key_dev k))) i (new_request k ty (data_addr b) b) m of
              Ok (start, m') \<Rightarrow> Ok (Queued start, start_request b c, m')
            | Err e \<Rightarrow> Err e
            | Panic \<Rightarrow> Panic)))"

definition submit_request ::
    "BlockRequestType \<Rightarrow> bool \<Rightarrow> nat \<Rightarrow> cache \<times> BlockManager \<Rightarrow> (submitted \<times> cache \<times> BlockManager) outcome" where
  "submit_request ty prefetch b s =
     (case s of (c, m) \<Rightarrow>
      (case slot_key (slot_at c b) of
         None \<Rightarrow> Ok (Dropped, c, m)
       | Some k \<Rightarrow>
           if \<not> is_registered_major (unat (major (key_dev k))) m then Ok (Dropped, c, m)
           else if io_locked (slot_at c b) then Ok (if prefetch then Dropped else Sleeps, c, m)
           else if ty = Read \<and> up_to_date (slot_at c b) \<or> ty = Write \<and> \<not> dirty (slot_at c b) then Ok (Dropped, c, m)
           else queue_request ty prefetch b k (upd_slot b (\<lambda>x. x\<lparr>io_locked := True\<rparr>) c, m)))"

datatype QueueAfterComplete = Idle | More

definition complete_current :: "nat \<Rightarrow> bool \<Rightarrow> cache \<times> BlockManager \<Rightarrow> (QueueAfterComplete \<times> cache \<times> BlockManager) outcome" where
  "complete_current ma success s =
     (case s of (c, m) \<Rightarrow>
      (case take_current_request ma m of
         Panic \<Rightarrow> Panic
       | Err _ \<Rightarrow> Ok (Idle, c, m)
       | Ok (r, has_more, m') \<Rightarrow>
           Ok (if has_more then More else Idle,
               upd_slot (payload r) (\<lambda>b. b\<lparr>up_to_date := success, io_locked := False\<rparr>) c, m')))"

section \<open>Queues as lists\<close>

fun chain :: "BlockRequest option list \<Rightarrow> nat option \<Rightarrow> nat list \<Rightarrow> bool" where
  "chain p cur [] \<longleftrightarrow> cur = None"
| "chain p cur (i # is) \<longleftrightarrow>
     cur = Some i \<and> i < length p \<and> (\<exists>r. p ! i = Some r \<and> chain p (next_request r) is)"

text \<open>The elevator order as a number: type, device, sector.\<close>

definition req_key :: "BlockRequest \<Rightarrow> nat" where
  "req_key r = (ty_code (io_ty (io r)) * 2 ^ 16 + unat (io_dev (io r))) * 2 ^ 32 + unat (next_sector (progress r))"

definition keys :: "BlockRequest option list \<Rightarrow> nat list \<Rightarrow> nat list" where
  "keys p is = map (\<lambda>i. case p ! i of Some r \<Rightarrow> req_key r | None \<Rightarrow> 0) is"

fun elevate :: "('a \<Rightarrow> nat) \<Rightarrow> 'a \<Rightarrow> 'a list \<Rightarrow> 'a list" where
  "elevate k x [] = [x]"
| "elevate k x [c] = [c, x]"
| "elevate k x (c # n # rest) =
     (if (k c < k x \<or> \<not> k c < k n) \<and> k x < k n then c # x # n # rest else c # elevate k x (n # rest))"

fun wraps :: "nat list \<Rightarrow> nat" where
  "wraps [] = 0"
| "wraps [a] = 0"
| "wraps (a # b # rest) = (if a < b then 0 else 1) + wraps (b # rest)"

lemma request_in_order_key: "request_in_order l r \<longleftrightarrow> req_key l < req_key r"
proof -
  have lex: "(a * 2 ^ 32 + s < b * 2 ^ 32 + t) \<longleftrightarrow> a < b \<or> a = b \<and> s < t"
    if "s < 2 ^ 32" "t < 2 ^ 32" for a b s t :: nat using that by auto
  have lex16: "(a * 2 ^ 16 + s < b * 2 ^ 16 + t) \<longleftrightarrow> a < b \<or> a = b \<and> s < t"
    if "s < 2 ^ 16" "t < 2 ^ 16" for a b s t :: nat using that by auto
  have eq16: "(a * 2 ^ 16 + s = b * 2 ^ 16 + t) \<longleftrightarrow> a = b \<and> s = t"
    if "s < 2 ^ 16" "t < 2 ^ 16" for a b s t :: nat
    using lex16 [OF that, of a b] lex16 [OF that(2,1), of b a] by (metis linorder_neqE_nat nat_neq_iff)
  have "unat (next_sector (progress l)) < 2 ^ 32" "unat (next_sector (progress r)) < 2 ^ 32"
    "unat (io_dev (io l)) < 2 ^ 16" "unat (io_dev (io r)) < 2 ^ 16"
    using unat_less_exp [of "next_sector (progress l)"] unat_less_exp [of "next_sector (progress r)"]
      unat_less_exp [of "io_dev (io l)"] unat_less_exp [of "io_dev (io r)"] by simp_all
  then show ?thesis
    by (auto simp: request_in_order_def req_key_def lex lex16 eq16 word_less_nat_alt word_unat_eq_iff)
qed

section \<open>The elevator on lists\<close>

lemma set_elevate: "set (elevate k x xs) = insert x (set xs)"
  by (induction k x xs rule: elevate.induct) auto

lemma mset_elevate: "mset (elevate k x xs) = add_mset x (mset xs)"
  by (induction k x xs rule: elevate.induct) auto

lemma hd_elevate: "xs \<noteq> [] \<Longrightarrow> \<exists>ys. elevate k x xs = hd xs # ys"
  by (cases "(k, x, xs)" rule: elevate.cases) auto

text \<open>Into an ascending run the request goes to its place, or to the end when it comes before the head.\<close>

lemma wraps_ascending:
  "wraps (map k xs) = 0 \<Longrightarrow> xs \<noteq> [] \<Longrightarrow> k (hd xs) < k x \<Longrightarrow> k x \<notin> k ` set xs \<Longrightarrow>
     wraps (map k (elevate k x xs)) = 0"
proof (induction k x xs rule: elevate.induct)
  case (3 k x c n rest)
  show ?case
  proof (cases "k x < k n")
    case True
    with 3 show ?thesis by (auto split: if_splits)
  next
    case False
    with 3 have "k n < k x" "k c < k n" by (auto split: if_splits)
    moreover obtain ys where "elevate k x (n # rest) = n # ys" using hd_elevate [of "n # rest"] by auto
    ultimately show ?thesis using 3 False by (auto split: if_splits)
  qed
qed auto

lemma wraps_elevate:
  "wraps (map k xs) \<le> 1 \<Longrightarrow> k x \<notin> k ` set xs \<Longrightarrow> wraps (map k (elevate k x xs)) \<le> 1"
proof (induction k x xs rule: elevate.induct)
  case (3 k x c n rest)
  obtain ys where ys: "elevate k x (n # rest) = n # ys" using hd_elevate [of "n # rest"] by auto
  show ?case
  proof (cases "k c < k n")
    case True
    with 3 ys show ?thesis by (auto split: if_splits)
  next
    case False
    then have asc: "wraps (map k (n # rest)) = 0" using 3(2) by simp
    show ?thesis
    proof (cases "k x < k n")
      case True
      with False asc show ?thesis by auto
    next
      case nx: False
      then have "k n < k x" using 3(3) by auto
      with wraps_ascending [of k "n # rest" x] asc 3(3) have "wraps (map k (elevate k x (n # rest))) = 0"
        by auto
      with False nx ys show ?thesis by simp
    qed
  qed
qed auto

section \<open>Splicing\<close>

lemma chain_distinct: "chain p cur is \<Longrightarrow> distinct is \<Longrightarrow> set is \<subseteq> {..<length p}"
  by (induction "is" arbitrary: cur) auto

lemma chain_frame:
  "chain p cur is \<Longrightarrow> j \<notin> set is \<Longrightarrow> chain (p[j := v]) cur is"
  by (induction "is" arbitrary: cur) (auto simp: nth_list_update)

lemma link_nth: "i < length p \<Longrightarrow> link i n p ! j = (if j = i then map_option (\<lambda>r. r\<lparr>next_request := n\<rparr>) (p ! i) else p ! j)"
  by (simp add: link_def)

lemma req_key_link [simp]: "req_key (r\<lparr>next_request := n\<rparr>) = req_key r"
  by (simp add: req_key_def)

lemma keys_link: "keys (link i n p) is = keys p is"
proof -
  have "(case link i n p ! j of Some r \<Rightarrow> req_key r | None \<Rightarrow> 0) = (case p ! j of Some r \<Rightarrow> req_key r | None \<Rightarrow> 0)" for j
    by (cases "i < length p") (auto simp: link_def nth_list_update list_update_beyond split: option.splits)
  then show ?thesis by (simp add: keys_def)
qed

abbreviation slot_key_of :: "BlockRequest option list \<Rightarrow> nat \<Rightarrow> nat" where
  "slot_key_of p i \<equiv> case p ! i of Some r \<Rightarrow> req_key r | None \<Rightarrow> 0"

text \<open>The loop splices the new request at the place the elevator rule names and changes no other queue.\<close>

definition same_requests :: "BlockRequest option list \<Rightarrow> BlockRequest option list \<Rightarrow> bool" where
  "same_requests p p' \<longleftrightarrow> length p' = length p
     \<and> (\<forall>j. map_option (\<lambda>r. r\<lparr>next_request := None\<rparr>) (p' ! j) = map_option (\<lambda>r. r\<lparr>next_request := None\<rparr>) (p ! j))"

lemma same_requests_link: "i < length p \<Longrightarrow> same_requests p (link i n p)"
proof -
  assume i: "i < length p"
  have "map_option (\<lambda>r. r\<lparr>next_request := None\<rparr>) (link i n p ! j) = map_option (\<lambda>r. r\<lparr>next_request := None\<rparr>) (p ! j)" for j
    using i by (cases "p ! i") (auto simp: link_nth)
  then show ?thesis by (simp add: same_requests_def) (simp add: link_def)
qed

lemma same_requests_trans: "same_requests p q \<Longrightarrow> same_requests q r \<Longrightarrow> same_requests p r"
  by (simp add: same_requests_def)

definition spliced :: "BlockRequest option list \<Rightarrow> nat \<Rightarrow> nat \<Rightarrow> nat list \<Rightarrow> BlockRequest option list \<Rightarrow> bool" where
  "spliced p c x is p' \<longleftrightarrow> chain p' (Some c) (elevate (slot_key_of p) x is)
     \<and> (\<forall>j. j \<notin> insert x (set is) \<longrightarrow> p' ! j = p ! j) \<and> same_requests p p'"

lemma splice_request_spec:
  "chain p (Some c) is \<Longrightarrow> distinct is \<Longrightarrow> x \<notin> set is \<Longrightarrow> x < length p \<Longrightarrow> p ! x = Some new \<Longrightarrow>
    next_request new = None \<Longrightarrow> length is \<le> fuel \<Longrightarrow>
    \<exists>p'. splice_request fuel c x p = Ok p' \<and> spliced p c x is p'"
proof (induction "is" arbitrary: c fuel)
  case Nil
  then show ?case by simp
next
  case (Cons i "is")
  then obtain r where r: "i = c" "c < length p" "p ! c = Some r" "chain p (next_request r) is" by auto
  obtain fuel' where fuel: "fuel = Suc fuel'" using Cons.prems(7) by (cases fuel) auto
  have cx: "c \<noteq> x" using Cons.prems(3) r(1) by auto
  show ?case
  proof (cases "is")
    case Nil
    let ?p = "link c (Some x) p"
    have "splice_request fuel c x p = Ok ?p" using r Cons.prems(5) Nil by (simp add: fuel)
    moreover have "chain ?p (Some c) [c, x]"
      using r(2,3) Cons.prems(4,5,6) cx by (auto simp: link_nth) (simp_all add: link_def)
    moreover have "?p ! j = p ! j" if "j \<notin> {x, c}" for j using that r(2) by (simp add: link_nth)
    ultimately show ?thesis
      using r(1,2) Nil by (auto simp: spliced_def same_requests_link)
  next
    case (Cons n rest)
    then obtain rn where n: "next_request r = Some n" "n < length p" "p ! n = Some rn"
      "chain p (next_request rn) rest" using r(4) by auto
    have nd: "n \<noteq> x" "n \<noteq> c" "x \<notin> set rest" "c \<notin> set rest" "n \<notin> set rest"
      using Cons.prems Cons r(1) by auto
    let ?here = "(req_key r < req_key new \<or> \<not> req_key r < req_key rn) \<and> req_key new < req_key rn"
    have key: "slot_key_of p c = req_key r" "slot_key_of p x = req_key new" "slot_key_of p n = req_key rn"
      using r(3) Cons.prems(5) n(3) by simp_all
    show ?thesis
    proof (cases ?here)
      case True
      let ?p1 = "link x (Some n) p" and ?p = "link c (Some x) (link x (Some n) p)"
      have run: "splice_request fuel c x p = Ok ?p"
        using True r(3) n(1,3) Cons.prems(5) by (simp add: fuel request_in_order_key)
      have len: "length ?p1 = length p" by (simp add: link_def)
      have nth: "?p ! j = (if j = c then Some (r\<lparr>next_request := Some x\<rparr>)
          else if j = x then Some (new\<lparr>next_request := Some n\<rparr>) else p ! j)" for j
        using r(2,3) Cons.prems(4,5) cx len by (simp add: link_nth)
      have pr: "?p = p[x := Some (new\<lparr>next_request := Some n\<rparr>), c := Some (r\<lparr>next_request := Some x\<rparr>)]"
        using r(3) Cons.prems(5) cx by (simp add: link_def)
      have "chain ?p (next_request rn) rest"
        unfolding pr using n(4) nd by (intro chain_frame)
      moreover have "length ?p = length p" by (simp add: link_def)
      ultimately have "chain ?p (Some c) (c # x # n # rest)"
        using r(2) Cons.prems(4) n nd cx by (simp add: nth)
      moreover have "same_requests p ?p"
        using same_requests_trans [OF same_requests_link [OF Cons.prems(4)] same_requests_link] r(2) len by simp
      moreover have "?p ! j = p ! j" if "j \<notin> {x, c}" for j using that nth by simp
      ultimately show ?thesis using run True r(1) Cons key by (auto simp: spliced_def)
    next
      case False
      have ch: "chain p (Some n) is" using r(4) n(1) by simp
      from Cons.IH [OF ch, of fuel'] Cons.prems r(1) fuel obtain p' where
        p': "splice_request fuel' n x p = Ok p'" "spliced p n x is p'" by auto
      have "splice_request fuel c x p = Ok p'"
        using False r(3) n(1,3) Cons.prems(5) p'(1) by (auto simp: fuel request_in_order_key)
      moreover have "p' ! c = Some r"
        using p'(2) r(1,3) Cons.prems(2) cx by (auto simp: spliced_def)
      moreover have "length p' = length p" using p'(2) by (simp add: spliced_def same_requests_def)
      ultimately show ?thesis
        using p'(2) r(1,2) n(1) Cons False key by (auto simp: spliced_def)
    qed
  qed
qed

section \<open>The manager\<close>

text \<open>
  \<open>manager_ok m L\<close>: \<open>L\<close> lists the slots of each queue.  The queues of registered majors are chains
  without repetition, no slot is in two queues, every occupied slot is in one, and the requests of a
  queue have different positions and are in elevator order with at most one wrap.
\<close>

definition manager_linked :: "BlockManager \<Rightarrow> (nat \<Rightarrow> nat list) \<Rightarrow> bool" where
  "manager_linked m L \<longleftrightarrow> length (pool m) = REQUEST_POOL_CAPACITY
     \<and> (\<forall>ma. (if ma < length (queues m) then queues m ! ma else None) = None \<longrightarrow> L ma = [])
     \<and> (\<forall>ma cur. ma < length (queues m) \<longrightarrow> queues m ! ma = Some cur \<longrightarrow> chain (pool m) cur (L ma))
     \<and> (\<forall>ma. distinct (L ma))
     \<and> (\<forall>ma mb. ma \<noteq> mb \<longrightarrow> set (L ma) \<inter> set (L mb) = {})
     \<and> (\<forall>i < length (pool m). pool m ! i \<noteq> None \<longrightarrow> (\<exists>ma. i \<in> set (L ma)))"

definition manager_ok :: "BlockManager \<Rightarrow> (nat \<Rightarrow> nat list) \<Rightarrow> bool" where
  "manager_ok m L \<longleftrightarrow> manager_linked m L
     \<and> (\<forall>ma. distinct (keys (pool m) (L ma)) \<and> wraps (keys (pool m) (L ma)) \<le> 1)"

lemma manager_linkedD:
  assumes "manager_linked m L"
  shows "length (pool m) = REQUEST_POOL_CAPACITY" "distinct (L ma)"
    "ma \<noteq> mb \<Longrightarrow> set (L ma) \<inter> set (L mb) = {}"
    "is_registered_major ma m \<Longrightarrow> queues m ! ma = Some cur \<Longrightarrow> chain (pool m) cur (L ma)"
  using assms by (auto simp: manager_linked_def is_registered_major_def)

lemma manager_okD:
  assumes "manager_ok m L"
  shows "manager_linked m L" "distinct (keys (pool m) (L ma))" "wraps (keys (pool m) (L ma)) \<le> 1"
  using assms by (simp_all add: manager_ok_def)

lemma manager_unregistered:
  "manager_linked m L \<Longrightarrow> (if ma < length (queues m) then queues m ! ma else None) = None \<Longrightarrow> L ma = []"
  unfolding manager_linked_def by blast

lemma manager_queued:
  "manager_linked m L \<Longrightarrow> j < length (pool m) \<Longrightarrow> pool m ! j \<noteq> None \<Longrightarrow> \<exists>ma. j \<in> set (L ma)"
  unfolding manager_linked_def by blast

lemma chain_occupied: "chain p cur is \<Longrightarrow> i \<in> set is \<Longrightarrow> i < length p \<and> p ! i \<noteq> None"
  by (induction "is" arbitrary: cur) auto

lemma chain_cong:
  "chain p cur is \<Longrightarrow> length p' = length p \<Longrightarrow> (\<And>i. i \<in> set is \<Longrightarrow> p' ! i = p ! i) \<Longrightarrow> chain p' cur is"
  by (induction "is" arbitrary: cur) auto

lemma queue_occupied:
  assumes ok: "manager_linked m L" and i: "i \<in> set (L ma)"
  shows "i < length (pool m)" "pool m ! i \<noteq> None"
proof -
  have "L ma \<noteq> []" using i by auto
  then have "(if ma < length (queues m) then queues m ! ma else None) \<noteq> None"
    using ok unfolding manager_linked_def by blast
  then have "ma < length (queues m) \<and> queues m ! ma \<noteq> None" by (auto split: if_splits)
  then obtain cur where "chain (pool m) cur (L ma)" using ok by (auto simp: manager_linked_def)
  from chain_occupied [OF this i] show "i < length (pool m)" "pool m ! i \<noteq> None" by simp_all
qed

lemma find_free_slot_spec:
  assumes "find_free_slot ty m = Some i" "length (pool m) = REQUEST_POOL_CAPACITY"
  shows "i < REQUEST_POOL_CAPACITY" "pool m ! i = None" "ty = Write \<Longrightarrow> i < 21"
  using assms unfolding find_free_slot_def Let_def rposition_Some_iff
  by (auto simp: REQUEST_POOL_CAPACITY_def split: BlockRequestType.splits)

lemma same_requests_key:
  assumes "same_requests p p'"
  shows "slot_key_of p' i = slot_key_of p i"
proof -
  have "map_option (\<lambda>r. r\<lparr>next_request := None\<rparr>) (p' ! i) = map_option (\<lambda>r. r\<lparr>next_request := None\<rparr>) (p ! i)"
    using assms by (simp add: same_requests_def)
  then show ?thesis by (cases "p' ! i"; cases "p ! i") (auto, metis req_key_link)
qed

lemma keys_same: "same_requests p p' \<Longrightarrow> keys p' is = keys p is"
  unfolding keys_def by (intro map_cong refl) (rule same_requests_key)

lemma same_requests_None: "same_requests p p' \<Longrightarrow> p' ! j = None \<longleftrightarrow> p ! j = None"
  unfolding same_requests_def by (metis map_option_is_None)

text \<open>Replacing one queue by the elevated one keeps the invariant.\<close>

lemma manager_linked_insert:
  assumes ok: "manager_linked m L" and i: "i < length (pool m)" "pool m ! i = None"
    and ma: "ma < length (queues m)" and q: "queues m ! ma \<noteq> None"
    and p: "p = (pool m)[i := Some r]"
    and p': "same_requests p p'" "\<And>j. j \<notin> insert i (set (L ma)) \<Longrightarrow> p' ! j = p ! j"
    and ch: "chain p' (Some h) (elevate (slot_key_of p) i (L ma))"
  shows "manager_linked (m\<lparr>pool := p', queues := (queues m)[ma := Some (Some h)]\<rparr>)
    (L(ma := elevate (slot_key_of p) i (L ma)))"
proof -
  let ?m = "m\<lparr>pool := p', queues := (queues m)[ma := Some (Some h)]\<rparr>"
  let ?E = "elevate (slot_key_of p) i (L ma)" and ?L = "L(ma := elevate (slot_key_of p) i (L ma))"
  have free: "i \<notin> set (L mb)" for mb using queue_occupied(2) [OF ok] i(2) by blast
  have len: "length p' = length (pool m)" using p'(1) by (simp add: same_requests_def p)
  have dE: "distinct ?E"
    using mset_eq_imp_distinct_iff [of ?E "i # L ma"] mset_elevate manager_linkedD(2) [OF ok] free by fastforce
  have other: "chain p' cur (L mb)" if "mb \<noteq> ma" "mb < length (queues m)" "queues m ! mb = Some cur" for mb cur
  proof (rule chain_cong)
    show "chain (pool m) cur (L mb)" using ok that by (simp add: manager_linked_def)
    fix j assume "j \<in> set (L mb)"
    then have "j \<notin> insert i (set (L ma))" using manager_linkedD(3) [OF ok that(1)] free by blast
    with p'(2) show "p' ! j = pool m ! j" by (auto simp: p)
  qed (rule len)
  have occ: "\<exists>mb. j \<in> set (?L mb)" if "j < length p'" "p' ! j \<noteq> None" for j
  proof (cases "j = i")
    case True
    then show ?thesis by (auto simp: set_elevate intro: exI [of _ ma])
  next
    case False
    then have "pool m ! j \<noteq> None" "j < length (pool m)"
      using that same_requests_None [OF p'(1)] len by (simp_all add: p)
    then obtain mb where "j \<in> set (L mb)" using manager_queued [OF ok, of j] by auto
    then show ?thesis by (auto simp: set_elevate intro: exI [of _ mb])
  qed
  have disj: "set (?L mb) \<inter> set (?L mc) = {}" if "mb \<noteq> mc" for mb mc
    using manager_linkedD(3) [OF ok that] manager_linkedD(3) [OF ok, of ma] free that by (auto simp: set_elevate)
  have unreg: "(if mb < length (queues ?m) then queues ?m ! mb else None) = None \<Longrightarrow> ?L mb = []" for mb
    using manager_unregistered [OF ok, of mb] ma q by (auto simp: nth_list_update split: if_splits)
  show ?thesis
    unfolding manager_linked_def
    using manager_linkedD [OF ok] dE ch other occ disj unreg len
    by (auto simp: nth_list_update)
qed

lemma insert_request_linked:
  fixes r :: BlockRequest
  assumes ok: "manager_linked m L" and reg: "is_registered_major ma m" and i: "i < length (pool m)" "pool m ! i = None"
  defines "p \<equiv> (pool m)[i := Some (r\<lparr>next_request := None\<rparr>)]"
  obtains m' where "insert_request ma i r m = Ok (L ma = [], m')"
    and "manager_linked m' (L(ma := elevate (slot_key_of p) i (L ma)))"
    and "same_requests p (pool m')"
    and "\<And>mb. is_registered_major mb m' = is_registered_major mb m"
proof -
  have ma: "ma < length (queues m)" and q: "queues m ! ma \<noteq> None"
    using reg by (simp_all add: is_registered_major_def)
  have free: "i \<notin> set (L mb)" for mb using queue_occupied(2) [OF ok] i(2) by blast
  have lp: "link i None ((pool m)[i := Some r]) = p" using i by (simp add: link_def p_def)
  obtain cur where cur: "queues m ! ma = Some cur" using q by blast
  have ch: "chain (pool m) cur (L ma)" using ok ma cur by (simp add: manager_linked_def)
  show ?thesis
  proof (cases cur)
    case None
    then have L: "L ma = []" using ch by (cases "L ma") auto
    have "chain p (Some i) (elevate (slot_key_of p) i (L ma))" using i L by (simp add: p_def)
    from manager_linked_insert [OF ok i ma q p_def [THEN meta_eq_to_obj_eq] _ _ this]
    have 1: "manager_linked (m\<lparr>pool := p, queues := (queues m)[ma := Some (Some i)]\<rparr>)
        (L(ma := elevate (slot_key_of p) i (L ma)))" by (simp add: same_requests_def)
    have 2: "insert_request ma i r m = Ok (L ma = [], m\<lparr>pool := p, queues := (queues m)[ma := Some (Some i)]\<rparr>)"
      using L cur None ma by (simp add: insert_request_def add_request_def lp)
    show ?thesis
      by (rule that [OF 2 1]) (use ma q in \<open>auto simp: same_requests_def is_registered_major_def nth_list_update\<close>)
  next
    case (Some h)
    then have L: "L ma \<noteq> []" using ch by auto
    have chp: "chain p (Some h) (L ma)"
      unfolding p_def using ch Some free by (auto intro: chain_frame)
    have len: "length (L ma) \<le> REQUEST_POOL_CAPACITY"
    proof -
      have "set (L ma) \<subseteq> {..<length (pool m)}" by (rule chain_distinct [OF ch manager_linkedD(2) [OF ok]])
      then have "card (set (L ma)) \<le> length (pool m)" using card_mono [of "{..<length (pool m)}"] by fastforce
      then show ?thesis using manager_linkedD(1,2) [OF ok] by (simp add: distinct_card)
    qed
    obtain p' where p': "splice_request REQUEST_POOL_CAPACITY h i p = Ok p'" "spliced p h i (L ma) p'"
      using splice_request_spec [OF chp manager_linkedD(2) [OF ok] free _ _ _ len, of "r\<lparr>next_request := None\<rparr>"] i
      by (auto simp: p_def)
    have qq: "(queues m)[ma := Some (Some h)] = queues m" using cur Some ma by (metis list_update_id)
    have "manager_linked (m\<lparr>pool := p', queues := (queues m)[ma := Some (Some h)]\<rparr>)
        (L(ma := elevate (slot_key_of p) i (L ma)))"
      using p'(2) by (intro manager_linked_insert [OF ok i ma q p_def [THEN meta_eq_to_obj_eq]])
        (auto simp: spliced_def)
    then have 1: "manager_linked (m\<lparr>pool := p'\<rparr>) (L(ma := elevate (slot_key_of p) i (L ma)))" by (simp add: qq)
    have 2: "insert_request ma i r m = Ok (L ma = [], m\<lparr>pool := p'\<rparr>)"
      using L cur Some ma p'(1) by (simp add: insert_request_def add_request_def lp)
    show ?thesis
      by (rule that [OF 2 1]) (use p'(2) in \<open>simp_all add: spliced_def is_registered_major_def\<close>)
  qed
qed

lemma take_current_linked:
  assumes ok: "manager_linked m L" and reg: "is_registered_major ma m" and L: "L ma = i # is"
  obtains r m' where "take_current_request ma m = Ok (r, is \<noteq> [], m')" "pool m ! i = Some r"
    and "manager_linked m' (L(ma := is))" "pool m' = (pool m)[i := None]"
    and "\<And>mb. is_registered_major mb m' = is_registered_major mb m"
proof -
  have ma: "ma < length (queues m)" and q: "queues m ! ma \<noteq> None"
    using reg by (simp_all add: is_registered_major_def)
  obtain cur where cur: "queues m ! ma = Some cur" using q by blast
  have ch: "chain (pool m) cur (L ma)" using ok ma cur by (simp add: manager_linked_def)
  then obtain r where r: "cur = Some i" "i < length (pool m)" "pool m ! i = Some r"
    "chain (pool m) (next_request r) is" by (auto simp: L)
  let ?m = "m\<lparr>pool := (pool m)[i := None], queues := (queues m)[ma := Some (next_request r)]\<rparr>"
  have d: "distinct (L ma)" "i \<notin> set is" using manager_linkedD(2) [OF ok, of ma] by (simp_all add: L)
  have out: "i \<notin> set (L mb)" if "mb \<noteq> ma" for mb using manager_linkedD(3) [OF ok that] by (auto simp: L)
  have has: "next_request r \<noteq> None \<longleftrightarrow> is \<noteq> []" using r(4) by (cases "is") auto
  have occ: "\<exists>mb. j \<in> set ((L(ma := is)) mb)"
    if "j < length (pool m)" "((pool m)[i := None]) ! j \<noteq> None" for j
  proof -
    have ji: "j \<noteq> i" using that r(2) by auto
    with that obtain mb where "j \<in> set (L mb)" using manager_queued [OF ok, of j] by auto
    with ji L show ?thesis by (intro exI [of _ mb]) auto
  qed
  have sub: "set ((L(ma := is)) mb) \<subseteq> set (L mb)" for mb by (auto simp: L)
  have disj: "set ((L(ma := is)) mb) \<inter> set ((L(ma := is)) mc) = {}" if "mb \<noteq> mc" for mb mc
    using manager_linkedD(3) [OF ok that] sub [of mb] sub [of mc] by blast
  have out': "i \<notin> set ((L(ma := is)) mb)" for mb using out d(2) by simp
  have chains: "chain ((pool m)[i := None]) c ((L(ma := is)) mb)"
    if "mb < length (queues m)" "(queues m)[ma := Some (next_request r)] ! mb = Some c" for mb c
  proof (cases "mb = ma")
    case True
    with that ma r(4) d(2) show ?thesis by (simp add: chain_frame)
  next
    case False
    with that ok have "chain (pool m) c (L mb)" by (simp add: manager_linked_def)
    with False out show ?thesis by (simp add: chain_frame)
  qed
  have unreg: "(if mb < length (queues ?m) then queues ?m ! mb else None) = None \<Longrightarrow> (L(ma := is)) mb = []" for mb
    using manager_unregistered [OF ok, of mb] ma by (auto simp: nth_list_update split: if_splits)
  have dd: "distinct ((L(ma := is)) mb)" for mb using manager_linkedD(2) [OF ok, of mb] d L by auto
  have 1: "manager_linked ?m (L(ma := is))"
    unfolding manager_linked_def
    using manager_linkedD(1) [OF ok] dd disj chains occ unreg by simp
  have 2: "take_current_request ma m = Ok (r, is \<noteq> [], ?m)"
    using ma cur r has by (simp add: take_current_request_def)
  show ?thesis
    by (rule that [OF 2 r(3) 1]) (use ma q in \<open>auto simp: is_registered_major_def nth_list_update\<close>)
qed

lemma keys_elevate:
  assumes w: "wraps (keys p is) \<le> 1" and d: "distinct (keys p is)" and x: "slot_key_of p x \<notin> set (keys p is)"
  shows "wraps (keys p (elevate (slot_key_of p) x is)) \<le> 1" "distinct (keys p (elevate (slot_key_of p) x is))"
proof -
  have x': "slot_key_of p x \<notin> slot_key_of p ` set is" using x by (simp add: keys_def)
  show "wraps (keys p (elevate (slot_key_of p) x is)) \<le> 1"
    using wraps_elevate [OF _ x'] w by (simp add: keys_def)
  have "mset (keys p (elevate (slot_key_of p) x is)) = mset (slot_key_of p x # keys p is)"
    by (simp add: keys_def mset_elevate)
  then show "distinct (keys p (elevate (slot_key_of p) x is))"
    using d x mset_eq_imp_distinct_iff by fastforce
qed

section \<open>The elevator property\<close>

text \<open>
  The initial manager has empty queues, and registering a driver adds another empty one.
\<close>

lemma keys_free_slot: "pool m ! i = None \<Longrightarrow> manager_linked m L \<Longrightarrow> keys ((pool m)[i := v]) (L mb) = keys (pool m) (L mb)"
  unfolding keys_def using queue_occupied(2) [of m L _ mb] by (intro map_cong refl) (metis nth_list_update_neq)

lemma insert_request_ok:
  assumes ok: "manager_ok m L" and reg: "is_registered_major ma m" and i: "i < length (pool m)" "pool m ! i = None"
    and new: "req_key r \<notin> set (keys (pool m) (L ma))"
  defines "p \<equiv> (pool m)[i := Some (r\<lparr>next_request := None\<rparr>)]"
  obtains m' where "insert_request ma i r m = Ok (L ma = [], m')"
    and "manager_ok m' (L(ma := elevate (slot_key_of p) i (L ma)))"
proof -
  let ?E = "elevate (slot_key_of p) i (L ma)"
  obtain m' where m': "insert_request ma i r m = Ok (L ma = [], m')" "manager_linked m' (L(ma := ?E))"
    "same_requests p (pool m')"
    by (rule insert_request_linked [OF manager_okD(1) [OF ok] reg i, of r]) (rule that, simp_all add: p_def)
  have kL: "keys p (L mb) = keys (pool m) (L mb)" for mb
    unfolding p_def by (rule keys_free_slot [where L = L, OF i(2) manager_okD(1) [OF ok]])
  have "slot_key_of p i = req_key r" using i by (simp add: p_def)
  then have "wraps (keys p ?E) \<le> 1" "distinct (keys p ?E)"
    using keys_elevate [of p "L ma" i] manager_okD(2,3) [OF ok, of ma] new by (simp_all add: kL)
  then have "manager_ok m' (L(ma := ?E))"
    using m'(2) manager_okD(2,3) [OF ok] by (simp add: manager_ok_def keys_same [OF m'(3)] kL)
  with m'(1) that show ?thesis by blast
qed

lemma BlockManager_new_ok: "manager_ok BlockManager_new (\<lambda>ma. [])"
  by (simp add: manager_ok_def manager_linked_def BlockManager_new_def keys_def)

lemma manager_ok_register:
  assumes "manager_ok m L" "ma < length (queues m)" "queues m ! ma = None"
  shows "manager_ok (m\<lparr>queues := (queues m)[ma := Some None]\<rparr>) L"
  using assms manager_unregistered [OF manager_okD(1) [OF assms(1)], of ma]
  unfolding manager_ok_def manager_linked_def by (auto simp: nth_list_update)

text \<open>
  (C32) A request built for a buffer and placed in the slot \<open>find_free_slot\<close> picks goes into the queue of its
  major by the elevator rule and into no other queue: the queue stays a duplicate-free chain of
  occupied slots that keeps its head (the request in flight) and whose sweep order breaks at most
  once; a write never takes one of the slots from 21 on, which are reserved for reads; the driver is
  to be started exactly when its queue was empty.
\<close>

theorem elevator_keeps_order:
  assumes "manager_ok m L" "is_registered_major ma m" "find_free_slot ty m = Some i"
    and "req_key (new_request k ty addr b) \<notin> set (keys (pool m) (L ma))"
  shows "\<exists>m' q. insert_request ma i (new_request k ty addr b) m = Ok (L ma = [], m')
    \<and> manager_ok m' (L(ma := q)) \<and> set q = insert i (set (L ma)) \<and> i \<notin> set (L ma)
    \<and> (L ma \<noteq> [] \<longrightarrow> hd q = hd (L ma)) \<and> wraps (keys (pool m') q) \<le> 1
    \<and> (ty = Write \<longrightarrow> i < 21)"
proof -
  have i: "i < length (pool m)" "pool m ! i = None" "ty = Write \<longrightarrow> i < 21"
    using find_free_slot_spec [OF assms(3)] manager_linkedD(1) [OF manager_okD(1) [OF assms(1)]] by simp_all
  have out: "i \<notin> set (L ma)" using queue_occupied(2) [OF manager_okD(1) [OF assms(1)]] i(2) by blast
  let ?q = "elevate (slot_key_of ((pool m)[i := Some (new_request k ty addr b\<lparr>next_request := None\<rparr>)])) i (L ma)"
  obtain m' where m': "insert_request ma i (new_request k ty addr b) m = Ok (L ma = [], m')"
    "manager_ok m' (L(ma := ?q))"
    by (rule insert_request_ok [OF assms(1,2) i(1,2) assms(4)]) (rule that)
  have "hd ?q = hd (L ma)" if "L ma \<noteq> []" using hd_elevate [OF that] by (metis list.sel(1))
  with m' i(3) out manager_okD(3) [OF m'(2), of ma] show ?thesis
    by (intro exI [of _ m'] exI [of _ ?q]) (simp add: set_elevate)
qed

definition demo_manager :: BlockManager where
  "demo_manager = BlockManager_new\<lparr>queues := (queues BlockManager_new)[3 := Some None]\<rparr>"

theorem elevator_keeps_order_witness:
  "\<exists>m'. insert_request 3 20 (new_request \<lparr>key_dev = 0x301, key_block = 7\<rparr> Write 0x1000 4) demo_manager = Ok (True, m')
     \<and> manager_ok m' ((\<lambda>ma. [])(3 := [20]))"
proof -
  have ok: "manager_ok demo_manager (\<lambda>ma. [])"
    unfolding demo_manager_def by (rule manager_ok_register [OF BlockManager_new_ok])
      (simp_all add: BlockManager_new_def BLOCK_DEVICE_SLOT_COUNT_def)
  have reg: "is_registered_major 3 demo_manager" by code_simp
  have slot: "find_free_slot Write demo_manager = Some 20" by code_simp
  from elevator_keeps_order [OF ok reg slot, of "\<lparr>key_dev = 0x301, key_block = 7\<rparr>" "0x1000" 4]
  obtain m' q where q: "insert_request 3 20 (new_request \<lparr>key_dev = 0x301, key_block = 7\<rparr> Write 0x1000 4) demo_manager
      = Ok (True, m')" "manager_ok m' ((\<lambda>ma. [])(3 := q))" "set q = {20}"
    by (auto simp: keys_def)
  have "distinct q" using manager_linkedD(2) [OF manager_okD(1) [OF q(2)], of 3] by simp
  with q(3) have "q = [20]" by (cases q rule: list.exhaust) (auto simp: subset_singleton_iff)
  with q(1,2) show ?thesis by auto
qed

end
