(* ===== verification/Hd_Driver.thy ===== *)
theory Hd_Driver
  imports Block_Queue
begin

text \<open>
  The hard disk driver (\<open>kernel/src/driver/block/hd/\<close>): drive geometry and partitions, the translation
  of a request into controller registers, and the interrupt-driven transfer with its recovery after
  errors, over the request queue of \<open>Block_Queue\<close> and the buffers of \<open>Buffer_Cache\<close>.
\<close>

section \<open>Drives and partitions\<close>

definition HARD_DISK_MAJOR :: nat where "HARD_DISK_MAJOR = 3"
definition MAX_DRIVE_COUNT :: nat where "MAX_DRIVE_COUNT = 2"
definition PRIMARY_PARTITION_COUNT :: nat where "PRIMARY_PARTITION_COUNT = 4"
definition PARTITION_SLOTS_PER_DRIVE :: nat where "PARTITION_SLOTS_PER_DRIVE = PRIMARY_PARTITION_COUNT + 1"
definition MAX_REQUEST_ERRORS :: u32 where "MAX_REQUEST_ERRORS = 7"

record DriveGeometry =
  head_count :: u16
  sectors_per_track :: u16
  cylinder_count :: u16
  write_precompensation :: u16
  control :: u8

record DrivePartition =
  start_sector :: u32
  part_sectors :: u32

record DriveDescriptor =
  geometry :: DriveGeometry
  whole_disk :: DrivePartition
  primary_partitions :: "DrivePartition option list"

datatype RecoveryState = Ready | NeedReset | NeedRecalibrate

datatype InterruptPhase = NoInterrupt | Reading | Writing | Specifying | Recalibrating

record AtaDriver =
  drives :: "DriveDescriptor option list"
  setup_completed :: bool
  recovery :: RecoveryState
  phase :: InterruptPhase

definition AtaDriver_new :: AtaDriver where
  "AtaDriver_new = \<lparr>drives = replicate MAX_DRIVE_COUNT None, setup_completed = False,
     recovery = Ready, phase = NoInterrupt\<rparr>"

definition saturating_mul :: "u32 \<Rightarrow> u32 \<Rightarrow> u32" where
  "saturating_mul a b = (if unat a * unat b < 2 ^ 32 then a * b else - 1)"

definition total_sectors :: "DriveGeometry \<Rightarrow> u32" where
  "total_sectors g =
     fold (\<lambda>v acc. saturating_mul acc (ucast v)) [head_count g, sectors_per_track g, cylinder_count g] 1"

definition from_bios_entry :: "u8 list \<Rightarrow> DriveGeometry option" where
  "from_bios_entry bs =
     (let geo = \<lparr>head_count = ucast (bs ! 2), sectors_per_track = ucast (bs ! 14),
                 cylinder_count = u16_of (field 0 2 bs), write_precompensation = u16_of (field 5 2 bs),
                 control = bs ! 8\<rparr>
      in if cylinder_count geo \<noteq> 0 then Some geo else None)"

definition from_geometry :: "DriveGeometry \<Rightarrow> DriveDescriptor" where
  "from_geometry g = \<lparr>geometry = g, whole_disk = \<lparr>start_sector = 0, part_sectors = total_sectors g\<rparr>,
     primary_partitions = replicate PRIMARY_PARTITION_COUNT None\<rparr>"

definition from_mbr_entry :: "u8 list \<Rightarrow> nat \<Rightarrow> DrivePartition option" where
  "from_mbr_entry sector index =
     (let off = 0x1BE + index * 16;
          start = u32_of (field (off + 8) 4 sector);
          n = u32_of (field (off + 12) 4 sector)
      in if n \<noteq> 0 then Some \<lparr>start_sector = start, part_sectors = n\<rparr> else None)"

text \<open>
  \<open>setup_from_bios\<close>: the BIOS table has 16 bytes per drive, the CMOS register says how many are
  installed, and each master boot record gives the primary partitions.  The records are read through
  the cache; \<open>None\<close> is a read that never gets a free buffer.
\<close>

definition bios_drives :: "u8 list \<Rightarrow> u8 \<Rightarrow> DriveDescriptor option list \<times> nat" where
  "bios_drives table cmos_disks =
     (let found = map (\<lambda>i. map_option from_geometry (from_bios_entry (drop (i * 16) table))) [0..<MAX_DRIVE_COUNT];
          installed = (if cmos_disks AND 0xF0 = 0 then 0 else if cmos_disks AND 0x0F = 0 then 1 else 2);
          n = min installed (length (filter (\<lambda>d. d \<noteq> None) found))
      in (map (\<lambda>i. if i < n then found ! i else None) [0..<MAX_DRIVE_COUNT], n))"

definition read_partitions :: "nat \<Rightarrow> AtaDriver \<times> cache \<Rightarrow> (unit outcome \<times> AtaDriver \<times> cache) option" where
  "read_partitions drive_index s =
     (case s of (d, c) \<Rightarrow>
        let k = \<lparr>key_dev = DevNum_new (word_of_nat HARD_DISK_MAJOR)
                            (word_of_nat (drive_index * PARTITION_SLOTS_PER_DRIVE)), key_block = 0\<rparr> in
        case buffer_read k c of
          None \<Rightarrow> None
        | Some (Ok None, c1) \<Rightarrow> Some (Err Errno_IO, d, c1)
        | Some (Err e, c1) \<Rightarrow> Some (Err e, d, c1)
        | Some (Panic, c1) \<Rightarrow> Some (Panic, d, c1)
        | Some (Ok (Some i), c1) \<Rightarrow>
            let sector = take SECTOR_SIZE (slot_data (slot_at c1 i)) in
            if field 510 2 sector \<noteq> [0x55, 0xAA]
            then (case release_slot i c1 of (Panic, c2) \<Rightarrow> Some (Panic, d, c2) | (_, c2) \<Rightarrow> Some (Err Errno_IO, d, c2))
            else
              (case release_slot i c1 of
                 (Panic, c2) \<Rightarrow> Some (Panic, d, c2)
               | (_, c2) \<Rightarrow>
                   (case drives d ! drive_index of
                      None \<Rightarrow> Some (Err Errno_NODEV, d, c2)
                    | Some drive \<Rightarrow>
                        Some (Ok (), d\<lparr>drives := (drives d)[drive_index := Some (drive\<lparr>primary_partitions :=
                          map (from_mbr_entry sector) [0..<PRIMARY_PARTITION_COUNT]\<rparr>)]\<rparr>, c2))))"

fun read_all_partitions :: "nat list \<Rightarrow> AtaDriver \<times> cache \<Rightarrow> (unit outcome \<times> AtaDriver \<times> cache) option" where
  "read_all_partitions [] s = Some (Ok (), s)"
| "read_all_partitions (i # rest) s =
     (case read_partitions i s of
        Some (Ok _, s1) \<Rightarrow> read_all_partitions rest s1
      | r \<Rightarrow> r)"

definition setup_from_bios :: "u8 list \<Rightarrow> u8 \<Rightarrow> AtaDriver \<times> cache \<Rightarrow> (unit outcome \<times> AtaDriver \<times> cache) option" where
  "setup_from_bios table cmos_disks s =
     (case s of (d, c) \<Rightarrow>
        if setup_completed d then Some (Err Errno_BUSY, d, c)
        else
          case bios_drives table cmos_disks of (ds, n) \<Rightarrow>
          (case read_all_partitions [0..<n] (d\<lparr>drives := ds\<rparr>, c) of
             Some (Ok _, d1, c1) \<Rightarrow> Some (Ok (), d1\<lparr>setup_completed := True\<rparr>, c1)
           | r \<Rightarrow> r))"

section \<open>Translating a request\<close>

datatype ControllerCommand = Restore | ReadSectors | WriteSectors | Specify

definition command_code :: "ControllerCommand \<Rightarrow> u8" where
  "command_code c = (case c of Restore \<Rightarrow> 0x10 | ReadSectors \<Rightarrow> 0x20 | WriteSectors \<Rightarrow> 0x30 | Specify \<Rightarrow> 0x91)"

record AtaTaskFile =
  drive_index :: nat
  tf_sector_count :: u8
  sector :: u8
  head :: u8
  cylinder :: u16
  command :: ControllerCommand

record AtaRequest =
  req_ty :: BlockRequestType
  req_minor :: u8
  req_next_sector :: u32
  req_remaining :: u32
  req_data_addr :: u32

definition checked_add :: "u32 \<Rightarrow> u32 \<Rightarrow> u32 option" where
  "checked_add a b = (if unat a + unat b < 2 ^ 32 then Some (a + b) else None)"

definition find_partition :: "u8 \<Rightarrow> AtaDriver \<Rightarrow> (nat \<times> DriveDescriptor \<times> DrivePartition) option" where
  "find_partition mi d =
     (let di = unat mi div PARTITION_SLOTS_PER_DRIVE; pi = unat mi mod PARTITION_SLOTS_PER_DRIVE in
      case (if di < length (drives d) then drives d ! di else None) of
        None \<Rightarrow> None
      | Some drive \<Rightarrow>
          map_option (\<lambda>p. (di, drive, p))
            (if pi = 0 then Some (whole_disk drive)
             else if pi - 1 < length (primary_partitions drive) then primary_partitions drive ! (pi - 1) else None))"

definition translate_request :: "AtaRequest \<Rightarrow> AtaDriver \<Rightarrow> (DriveGeometry \<times> AtaTaskFile \<times> InterruptPhase) outcome" where
  "translate_request r d =
     (case find_partition (req_minor r) d of
        None \<Rightarrow> Err Errno_NODEV
      | Some (di, drive, part) \<Rightarrow>
          (case checked_add (req_next_sector r) (req_remaining r) of
             None \<Rightarrow> Err Errno_IO
           | Some request_end \<Rightarrow>
               if part_sectors part < request_end then Err Errno_NODEV
               else
                 (case checked_add (start_sector part) (req_next_sector r) of
                    None \<Rightarrow> Err Errno_IO
                  | Some absolute \<Rightarrow>
                      let spt = ucast (sectors_per_track (geometry drive)) :: u32;
                          heads = ucast (head_count (geometry drive)) :: u32 in
                      if spt = 0 \<or> heads = 0 then Err Errno_NODEV
                      else
                        let track = absolute div spt in
                        Ok (geometry drive,
                            \<lparr>drive_index = di, tf_sector_count = ucast (req_remaining r),
                             sector = ucast (absolute mod spt + 1), head = ucast (track mod heads),
                             cylinder = ucast (track div heads),
                             command = (case req_ty r of Read \<Rightarrow> ReadSectors | Write \<Rightarrow> WriteSectors)\<rparr>,
                            (case req_ty r of Read \<Rightarrow> Reading | Write \<Rightarrow> Writing)))))"

section \<open>The controller\<close>

text \<open>
  The controller is the environment: \<open>answers\<close> are the values successive reads of the status port
  return, \<open>sectors_in\<close> the data successive sector reads deliver; \<open>ports\<close> and \<open>sectors_out\<close> record what
  the driver writes, the latest last.
\<close>

record hd_state =
  bufs :: cache
  mgr :: BlockManager
  ata :: AtaDriver
  answers :: "nat \<Rightarrow> u8"
  polls :: nat
  sectors_in :: "nat \<Rightarrow> u8 list"
  sectors_read :: nat
  ports :: "(u16 \<times> u8) list"
  sectors_out :: "u8 list list"

definition STATUS_ERROR :: u8 where "STATUS_ERROR = 0x01"
definition DATA_REQUEST :: u8 where "DATA_REQUEST = 0x08"
definition SEEK_COMPLETE :: u8 where "SEEK_COMPLETE = 0x10"
definition WRITE_FAULT :: u8 where "WRITE_FAULT = 0x20"
definition STATUS_READY :: u8 where "STATUS_READY = 0x40"
definition STATUS_BUSY :: u8 where "STATUS_BUSY = 0x80"

definition read_status :: "hd_state \<Rightarrow> u8 \<times> hd_state" where
  "read_status s = (answers s (polls s) AND 0xF9, s\<lparr>polls := Suc (polls s)\<rparr>)"

definition out :: "u8 \<Rightarrow> u16 \<Rightarrow> hd_state \<Rightarrow> hd_state" where
  "out v port s = s\<lparr>ports := ports s @ [(port, v)]\<rparr>"

primrec wait_for_status :: "nat \<Rightarrow> (u8 \<Rightarrow> bool) \<Rightarrow> hd_state \<Rightarrow> u8 option \<times> hd_state" where
  "wait_for_status 0 ready s = (None, s)"
| "wait_for_status (Suc n) ready s =
     (case read_status s of (status, s1) \<Rightarrow>
        if ready status then (Some status, s1) else wait_for_status n ready s1)"

definition command_succeeded :: "hd_state \<Rightarrow> bool \<times> hd_state" where
  "command_succeeded s =
     (case read_status s of (status, s1) \<Rightarrow>
        (status AND (STATUS_BUSY OR STATUS_READY OR WRITE_FAULT OR SEEK_COMPLETE OR STATUS_ERROR)
           = STATUS_READY OR SEEK_COMPLETE, s1))"

text \<open>The reset only warns when the controller stays busy; its delay loop has no effect.\<close>

definition reset_controller :: "u8 \<Rightarrow> hd_state \<Rightarrow> hd_state" where
  "reset_controller ctl s =
     (let s1 = out (ctl AND 0x0F) 0x3F6 (out 0x04 0x3F6 s);
          s2 = snd (wait_for_status 10000 (\<lambda>st. st AND STATUS_BUSY = 0 \<and> st AND STATUS_READY \<noteq> 0) s1)
      in snd (read_status s2))"

abbreviation set_phase :: "InterruptPhase \<Rightarrow> hd_state \<Rightarrow> hd_state" where
  "set_phase ph s \<equiv> s\<lparr>ata := (ata s)\<lparr>phase := ph\<rparr>\<rparr>"

definition task_file_ports :: "DriveGeometry \<Rightarrow> AtaTaskFile \<Rightarrow> (u16 \<times> u8) list" where
  "task_file_ports g tf =
     [(0x3F6, control g), (0x1F1, ucast (drop_bit 2 (write_precompensation g))), (0x1F2, tf_sector_count tf),
      (0x1F3, sector tf), (0x1F4, ucast (cylinder tf)), (0x1F5, ucast (drop_bit 8 (cylinder tf))),
      (0x1F6, 0xA0 OR push_bit 4 (word_of_nat (drive_index tf)) OR head tf), (0x1F7, command_code (command tf))]"

definition issue_command :: "DriveGeometry \<Rightarrow> AtaTaskFile \<Rightarrow> InterruptPhase \<Rightarrow> (hd_state, unit) op" where
  "issue_command g tf ph s =
     (if 1 < drive_index tf \<or> 0x0F < head tf then (Panic, s)
      else
        case wait_for_status 100000 (\<lambda>st. st AND STATUS_BUSY = 0) s of
          (None, s1) \<Rightarrow> (Panic, s1)
        | (Some _, s1) \<Rightarrow> (Ok (), (set_phase ph s1)\<lparr>ports := ports s1 @ task_file_ports g tf\<rparr>))"

section \<open>Serving the queue\<close>

definition head_slot :: "BlockManager \<Rightarrow> nat option" where
  "head_slot m =
     (if HARD_DISK_MAJOR < length (queues m)
      then (case queues m ! HARD_DISK_MAJOR of Some cur \<Rightarrow> cur | None \<Rightarrow> None) else None)"

definition with_current_request :: "(BlockRequest \<Rightarrow> ('a \<times> BlockRequest) outcome) \<Rightarrow> (hd_state, 'a option) op" where
  "with_current_request f s =
     (case head_slot (mgr s) of
        None \<Rightarrow> (Ok None, s)
      | Some i \<Rightarrow>
          (case pool (mgr s) ! i of
             None \<Rightarrow> (Panic, s)
           | Some r \<Rightarrow>
               (case f r of
                  Ok (a, r') \<Rightarrow> (Ok (Some a), s\<lparr>mgr := (mgr s)\<lparr>pool := (pool (mgr s))[i := Some r']\<rparr>\<rparr>)
                | Err e \<Rightarrow> (Err e, s)
                | Panic \<Rightarrow> (Panic, s))))"

definition current_request_snapshot :: "(hd_state, AtaRequest option) op" where
  "current_request_snapshot =
     with_current_request (\<lambda>r. Ok (\<lparr>req_ty = io_ty (io r), req_minor = minor (io_dev (io r)),
       req_next_sector = next_sector (progress r), req_remaining = remaining_sectors (progress r),
       req_data_addr = next_data_addr (progress r)\<rparr>, r))"

definition hd_complete :: "bool \<Rightarrow> (hd_state, QueueAfterComplete) op" where
  "hd_complete success s =
     (case complete_current HARD_DISK_MAJOR success (bufs s, mgr s) of
        Ok (q, c, m) \<Rightarrow> (Ok q, s\<lparr>bufs := c, mgr := m\<rparr>)
      | Err e \<Rightarrow> (Err e, s)
      | Panic \<Rightarrow> (Panic, s))"

definition take_recovery_state :: "hd_state \<Rightarrow> RecoveryState \<times> hd_state" where
  "take_recovery_state s =
     (recovery (ata s),
      s\<lparr>ata := (ata s)\<lparr>recovery := (if recovery (ata s) = NeedReset then NeedRecalibrate else Ready)\<rparr>\<rparr>)"

definition mark_request_error :: "(hd_state, bool) op" where
  "mark_request_error =
     bind_op (with_current_request (\<lambda>r. Ok (record_error MAX_REQUEST_ERRORS r)))
       (\<lambda>action s. case action of
          Some Fail \<Rightarrow> bind_op (hd_complete False) (\<lambda>q s. (Ok (q = More), s)) s
        | Some Reset \<Rightarrow> (Ok True, s\<lparr>ata := (ata s)\<lparr>recovery := NeedReset\<rparr>\<rparr>)
        | _ \<Rightarrow> (Ok True, s))"

definition reset_drive :: "nat \<Rightarrow> (hd_state, unit) op" where
  "reset_drive di s =
     (case drives (ata s) ! di of
        None \<Rightarrow> (Panic, s)
      | Some drive \<Rightarrow>
          let g = geometry drive; n = ucast (sectors_per_track g) in
          issue_command g \<lparr>drive_index = di, tf_sector_count = n, sector = n, head = ucast (head_count g - 1),
             cylinder = cylinder_count g, command = Specify\<rparr> Specifying (reset_controller (control g) s))"

text \<open>The memory behind a data address: a sector of the buffer that starts at or before it.\<close>

definition addr_slot :: "u32 \<Rightarrow> nat \<times> nat" where
  "addr_slot addr = (unat (addr - LOW_MEM) div BLOCK_SIZE, unat (addr - LOW_MEM) mod BLOCK_SIZE)"

definition port_write_words :: "u32 \<Rightarrow> hd_state \<Rightarrow> hd_state" where
  "port_write_words addr s =
     (case addr_slot addr of (b, off) \<Rightarrow>
        s\<lparr>sectors_out := sectors_out s @ [take SECTOR_SIZE (drop off (slot_data (slot_at (bufs s) b)))]\<rparr>)"

definition port_read_words :: "u32 \<Rightarrow> hd_state \<Rightarrow> hd_state" where
  "port_read_words addr s =
     (case addr_slot addr of (b, off) \<Rightarrow>
        let data = sectors_in s (sectors_read s) in
        s\<lparr>bufs := upd_slot b (\<lambda>x. x\<lparr>slot_data := take off (slot_data x) @ data @ drop (off + SECTOR_SIZE) (slot_data x)\<rparr>) (bufs s),
          sectors_read := Suc (sectors_read s)\<rparr>)"

text \<open>One round of the loop of \<open>kick\<close>: \<open>True\<close> is \<open>continue\<close>, \<open>False\<close> is \<open>return\<close>.\<close>

definition start_transfer :: "AtaRequest \<Rightarrow> DriveGeometry \<Rightarrow> AtaTaskFile \<Rightarrow> InterruptPhase \<Rightarrow> (hd_state, bool) op" where
  "start_transfer req g tf ph =
     bind_op (issue_command g tf ph)
       (\<lambda>_ s. case req_ty req of
          Read \<Rightarrow> (Ok False, s)
        | Write \<Rightarrow>
            (case wait_for_status 3000 (\<lambda>st. st AND DATA_REQUEST \<noteq> 0) s of
               (None, s1) \<Rightarrow> mark_request_error s1
             | (Some _, s1) \<Rightarrow> (Ok False, port_write_words (req_data_addr req) s1)))"

definition kick_round :: "(hd_state, bool) op" where
  "kick_round =
     bind_op current_request_snapshot
       (\<lambda>req s. case req of
          None \<Rightarrow> (Ok False, s)
        | Some request \<Rightarrow>
            (case translate_request request (ata s) of
               Ok (g, tf, ph) \<Rightarrow>
                 (case take_recovery_state s of
                    (NeedReset, s1) \<Rightarrow> bind_op (reset_drive (drive_index tf)) (\<lambda>_ s. (Ok False, s)) s1
                  | (NeedRecalibrate, s1) \<Rightarrow>
                      bind_op (issue_command g \<lparr>drive_index = drive_index tf, tf_sector_count = ucast (sectors_per_track g),
                         sector = 0, head = 0, cylinder = 0, command = Restore\<rparr> Recalibrating) (\<lambda>_ s. (Ok False, s)) s1
                  | (Ready, s1) \<Rightarrow> start_transfer request g tf ph s1)
             | _ \<Rightarrow> bind_op (hd_complete False) (\<lambda>q s. (Ok (q = More), s)) s))"

text \<open>The loop need not end by itself; that it does is proved below.\<close>

partial_function (option) kick :: "hd_state \<Rightarrow> (unit outcome \<times> hd_state) option" where
  "kick s =
     (case kick_round s of
        (Ok again, s1) \<Rightarrow> if again then kick s1 else Some (Ok (), s1)
      | (Err e, s1) \<Rightarrow> Some (Err e, s1)
      | (Panic, s1) \<Rightarrow> Some (Panic, s1))"

section \<open>Interrupts\<close>

definition and_then :: "(hd_state, 'a) op \<Rightarrow> ('a \<Rightarrow> hd_state \<Rightarrow> (unit outcome \<times> hd_state) option) \<Rightarrow> hd_state \<Rightarrow> (unit outcome \<times> hd_state) option" where
  "and_then f g s =
     (case f s of
        (Ok a, s1) \<Rightarrow> g a s1
      | (Err e, s1) \<Rightarrow> Some (Err e, s1)
      | (Panic, s1) \<Rightarrow> Some (Panic, s1))"

definition kick_if :: "bool \<Rightarrow> hd_state \<Rightarrow> (unit outcome \<times> hd_state) option" where
  "kick_if again s = (if again then kick s else Some (Ok (), s))"

definition complete_current_and_maybe_kick :: "hd_state \<Rightarrow> (unit outcome \<times> hd_state) option" where
  "complete_current_and_maybe_kick = and_then (hd_complete True) (\<lambda>q. kick_if (q = More))"

definition advance_current :: "BlockRequest \<Rightarrow> (u32 option \<times> BlockRequest) outcome" where
  "advance_current r =
     (case advance_one_sector (clear_errors r) of
        Ok r' \<Rightarrow> Ok (if remaining_sectors (progress r') \<noteq> 0 then Some (next_data_addr (progress r')) else None, r')
      | Err e \<Rightarrow> Err e
      | Panic \<Rightarrow> Panic)"

definition continue_read :: "hd_state \<Rightarrow> (unit outcome \<times> hd_state) option" where
  "continue_read s =
     (case command_succeeded s of
        (False, s1) \<Rightarrow> and_then mark_request_error kick_if s1
      | (True, s1) \<Rightarrow>
          and_then (with_current_request (\<lambda>r. Ok (next_data_addr (progress r), r)))
            (\<lambda>buffer s2. case buffer of
               None \<Rightarrow> Some (Ok (), s2)
             | Some addr \<Rightarrow>
                 and_then (with_current_request advance_current)
                   (\<lambda>rest s3. case rest of
                      Some (Some _) \<Rightarrow> Some (Ok (), set_phase Reading s3)
                    | _ \<Rightarrow> complete_current_and_maybe_kick s3) (port_read_words addr s2)) s1)"

definition continue_write :: "hd_state \<Rightarrow> (unit outcome \<times> hd_state) option" where
  "continue_write s =
     (case command_succeeded s of
        (False, s1) \<Rightarrow> and_then mark_request_error kick_if s1
      | (True, s1) \<Rightarrow>
          and_then (with_current_request advance_current)
            (\<lambda>next_buffer s2. case next_buffer of
               Some (Some addr) \<Rightarrow> Some (Ok (), port_write_words addr (set_phase Writing s2))
             | _ \<Rightarrow> complete_current_and_maybe_kick s2) s1)"

definition continue_recovery :: "hd_state \<Rightarrow> (unit outcome \<times> hd_state) option" where
  "continue_recovery s =
     (case command_succeeded s of
        (True, s1) \<Rightarrow> kick s1
      | (False, s1) \<Rightarrow> and_then mark_request_error kick_if s1)"

definition on_interrupt :: "hd_state \<Rightarrow> (unit outcome \<times> hd_state) option" where
  "on_interrupt s =
     (let s1 = set_phase NoInterrupt s in
      case phase (ata s) of
        NoInterrupt \<Rightarrow> Some (Ok (), s1)
      | Reading \<Rightarrow> continue_read s1
      | Writing \<Rightarrow> continue_write s1
      | Specifying \<Rightarrow> continue_recovery s1
      | Recalibrating \<Rightarrow> continue_recovery s1)"

text \<open>A submission starts the driver when the queue was empty.\<close>

definition hd_queue :: "(cache \<times> BlockManager \<Rightarrow> (submitted \<times> cache \<times> BlockManager) outcome) \<Rightarrow> hd_state \<Rightarrow> (unit outcome \<times> hd_state) option" where
  "hd_queue f s =
     (case f (bufs s, mgr s) of
        Ok (q, c, m) \<Rightarrow> kick_if (q = Queued True) (s\<lparr>bufs := c, mgr := m\<rparr>)
      | Err e \<Rightarrow> Some (Err e, s)
      | Panic \<Rightarrow> Some (Panic, s))"

end
