(* ===== verification/Hd_Properties.thy ===== *)
theory Hd_Properties
  imports Hd_Driver
begin

text \<open>
  Properties of the hard disk driver: a translated request stays inside its partition and addresses
  the sector it means, and the driver never leaves a queued request without an expected interrupt.
\<close>

section \<open>Polling and commands\<close>

lemma wait_for_status_polls: "wait_for_status n ready s = (r, s') \<Longrightarrow> \<exists>k. s' = s\<lparr>polls := polls s + k\<rparr>"
proof (induction n arbitrary: s)
  case (Suc n)
  show ?case
  proof (cases "ready (answers s (polls s) AND 0xF9)")
    case True
    with Suc.prems show ?thesis by (auto simp: read_status_def intro: exI [of _ 1])
  next
    case False
    with Suc.prems Suc.IH [of "s\<lparr>polls := Suc (polls s)\<rparr>"] show ?thesis
      by (auto simp: read_status_def) (metis add_Suc_right)
  qed
qed (auto intro: exI [of _ 0])

lemma wait_for_status_ready:
  "ready (answers s (polls s + k) AND 0xF9) \<Longrightarrow> k < n \<Longrightarrow> fst (wait_for_status n ready s) \<noteq> None"
proof (induction n arbitrary: s k)
  case (Suc n)
  show ?case
  proof (cases "ready (answers s (polls s) AND 0xF9)")
    case True
    then show ?thesis by (simp add: read_status_def)
  next
    case False
    with Suc.prems obtain k' where k: "k = Suc k'" by (cases k) auto
    with Suc.IH [of "s\<lparr>polls := Suc (polls s)\<rparr>" k'] Suc.prems False show ?thesis
      by (simp add: read_status_def)
  qed
qed simp

text \<open>What the theorems assume of the machine: the controller does not stay busy for ever, and no
  drive has more than sixteen heads, which is all the drive register can select.\<close>

definition calm :: "hd_state \<Rightarrow> bool" where
  "calm s \<longleftrightarrow> (\<forall>n. \<exists>k<100000. answers s (n + k) AND STATUS_BUSY = 0) \<and> length (drives (ata s)) = MAX_DRIVE_COUNT
     \<and> (\<forall>drive. Some drive \<in> set (drives (ata s)) \<longrightarrow> head_count (geometry drive) \<le> 16)"

lemma calm_cong: "answers s' = answers s \<Longrightarrow> drives (ata s') = drives (ata s) \<Longrightarrow> calm s' = calm s"
  by (simp add: calm_def)

lemma issue_command_runs:
  assumes "calm s" "drive_index tf \<le> 1" "head tf \<le> 0x0F"
  obtains s' where "issue_command g tf ph s = (Ok (), s')" "mgr s' = mgr s" "bufs s' = bufs s"
    "ata s' = (ata s)\<lparr>phase := ph\<rparr>" "answers s' = answers s"
proof -
  obtain k where k: "k < 100000" "answers s (polls s + k) AND STATUS_BUSY = 0" using assms(1) unfolding calm_def by blast
  have "(answers s (polls s + k) AND 0xF9) AND STATUS_BUSY = answers s (polls s + k) AND (0xF9 AND STATUS_BUSY)"
    by (simp add: and.assoc)
  also have "0xF9 AND STATUS_BUSY = STATUS_BUSY" by (simp add: STATUS_BUSY_def)
  finally have "(answers s (polls s + k) AND 0xF9) AND STATUS_BUSY = 0" using k(2) by simp
  then have "fst (wait_for_status 100000 (\<lambda>st. st AND STATUS_BUSY = 0) s) \<noteq> None"
    using k(1) by (rule wait_for_status_ready)
  then obtain st s1 where w: "wait_for_status 100000 (\<lambda>st. st AND STATUS_BUSY = 0) s = (Some st, s1)"
    by (cases "wait_for_status 100000 (\<lambda>st. st AND STATUS_BUSY = 0) s") auto
  obtain j where "s1 = s\<lparr>polls := polls s + j\<rparr>" using wait_for_status_polls [OF w] by blast
  then show ?thesis
    using assms(2,3) w
    by (intro that [of "(set_phase ph s1)\<lparr>ports := ports s1 @ task_file_ports g tf\<rparr>"])
      (auto simp: issue_command_def not_less)
qed

section \<open>Requests in the queue\<close>

lemma chain_update:
  "chain p cur is \<Longrightarrow> p ! i = Some r \<Longrightarrow> next_request r' = next_request r \<Longrightarrow> chain (p[i := Some r']) cur is"
proof (induction "is" arbitrary: cur)
  case (Cons j "is")
  then show ?case by (cases "j = i") auto
qed simp

lemma linked_update:
  assumes "manager_linked m L" "pool m ! i = Some r" "next_request r' = next_request r"
  shows "manager_linked (m\<lparr>pool := (pool m)[i := Some r']\<rparr>) L"
proof -
  have same: "(pool m)[i := Some r'] ! j \<noteq> None \<longleftrightarrow> pool m ! j \<noteq> None" for j
    using assms(2) by (cases "j = i"; cases "i < length (pool m)") (auto simp: list_update_beyond)
  show ?thesis
    using assms(1) chain_update [OF _ assms(2,3)] same unfolding manager_linked_def by simp
qed

text \<open>
  The invariant: the queue is a chain whose requests all have sectors left, except perhaps the
  first, whose last sector may just have been transferred.
\<close>

definition unfinished :: "nat list \<Rightarrow> hd_state \<Rightarrow> bool" where
  "unfinished is s \<longleftrightarrow> (\<forall>i\<in>set is. \<exists>r. pool (mgr s) ! i = Some r \<and> remaining_sectors (progress r) \<noteq> 0)"

definition hd_linked :: "(nat \<Rightarrow> nat list) \<Rightarrow> hd_state \<Rightarrow> bool" where
  "hd_linked L s \<longleftrightarrow> manager_linked (mgr s) L \<and> calm s \<and> unfinished (tl (L HARD_DISK_MAJOR)) s
     \<and> (\<forall>ma. is_registered_major ma (mgr s) \<longleftrightarrow> ma = HARD_DISK_MAJOR)"

definition hd_inv :: "(nat \<Rightarrow> nat list) \<Rightarrow> hd_state \<Rightarrow> bool" where
  "hd_inv L s \<longleftrightarrow> hd_linked L s \<and> unfinished (L HARD_DISK_MAJOR) s"

abbreviation hdq :: "(nat \<Rightarrow> nat list) \<Rightarrow> nat list" where
  "hdq L \<equiv> L HARD_DISK_MAJOR"

lemma hd_linked_cong:
  assumes "hd_linked L s" "mgr s' = mgr s" "answers s' = answers s" "drives (ata s') = drives (ata s)"
  shows "hd_linked L s'"
  using assms by (simp add: hd_linked_def unfinished_def calm_cong [of s' s])

lemma hd_inv_cong:
  assumes "hd_inv L s" "mgr s' = mgr s" "answers s' = answers s" "drives (ata s') = drives (ata s)"
  shows "hd_inv L s'"
  using assms hd_linked_cong [OF _ assms(2-4)] by (simp add: hd_inv_def unfinished_def)

lemma hd_linked_head:
  assumes "hd_linked L s"
  shows "hdq L = [] \<Longrightarrow> head_slot (mgr s) = None"
    and "hdq L = i # is \<Longrightarrow> head_slot (mgr s) = Some i \<and> (\<exists>r. pool (mgr s) ! i = Some r) \<and> i < length (pool (mgr s))"
proof -
  have reg: "is_registered_major HARD_DISK_MAJOR (mgr s)" using assms by (simp add: hd_linked_def)
  then obtain cur where cur: "HARD_DISK_MAJOR < length (queues (mgr s))" "queues (mgr s) ! HARD_DISK_MAJOR = Some cur"
    by (auto simp: is_registered_major_def)
  have "chain (pool (mgr s)) cur (hdq L)"
    using assms manager_linkedD(4) [of "mgr s" L, OF _ reg cur(2)] by (simp add: hd_linked_def)
  with cur show "hdq L = [] \<Longrightarrow> head_slot (mgr s) = None"
    and "hdq L = i # is \<Longrightarrow> head_slot (mgr s) = Some i \<and> (\<exists>r. pool (mgr s) ! i = Some r) \<and> i < length (pool (mgr s))"
    by (auto simp: head_slot_def)
qed

lemma with_current_empty: "hd_linked L s \<Longrightarrow> hdq L = [] \<Longrightarrow> with_current_request f s = (Ok None, s)"
  by (simp add: with_current_request_def hd_linked_head(1))

text \<open>A change of the first request that leaves its link alone.\<close>

lemma with_current_update:
  assumes inv: "hd_linked L s" and q: "hdq L = i # is" and f: "\<And>r. pool (mgr s) ! i = Some r \<Longrightarrow>
    \<exists>a r'. f r = Ok (a, r') \<and> next_request r' = next_request r"
  obtains r a r' s' where "pool (mgr s) ! i = Some r" "f r = Ok (a, r')" "with_current_request f s = (Ok (Some a), s')"
    "s' = s\<lparr>mgr := (mgr s)\<lparr>pool := (pool (mgr s))[i := Some r']\<rparr>\<rparr>" "hd_linked L s'" "pool (mgr s') ! i = Some r'"
    "unfinished is s'"
proof -
  obtain r where r: "head_slot (mgr s) = Some i" "pool (mgr s) ! i = Some r" "i < length (pool (mgr s))"
    using hd_linked_head(2) [OF inv q] by blast
  obtain a r' where a: "f r = Ok (a, r')" "next_request r' = next_request r" using f [OF r(2)] by blast
  let ?s = "s\<lparr>mgr := (mgr s)\<lparr>pool := (pool (mgr s))[i := Some r']\<rparr>\<rparr>"
  have "manager_linked (mgr ?s) L" using inv a(2) r(2) linked_update by (simp add: hd_linked_def)
  moreover have d: "i \<notin> set is" using inv q manager_linkedD(2) [of "mgr s" L HARD_DISK_MAJOR] by (auto simp: hd_linked_def)
  have u: "unfinished is ?s"
    unfolding unfinished_def
  proof
    fix j assume j: "j \<in> set is"
    then obtain r'' where "pool (mgr s) ! j = Some r''" "remaining_sectors (progress r'') \<noteq> 0"
      using inv q by (auto simp: hd_linked_def unfinished_def)
    with j d show "\<exists>r. pool (mgr ?s) ! j = Some r \<and> remaining_sectors (progress r) \<noteq> 0" by (cases "i = j") auto
  qed
  ultimately have "hd_linked L ?s"
    using inv q by (simp add: hd_linked_def calm_def is_registered_major_def)
  then show ?thesis
    using r a u by (intro that [of r a r' ?s]) (simp_all add: with_current_request_def)
qed

lemma hd_complete_runs:
  assumes inv: "hd_linked L s" and q: "hdq L = i # is"
  obtains s' where "hd_complete success s = (Ok (if is = [] then Idle else More), s')"
    "hd_inv (L(HARD_DISK_MAJOR := is)) s'" "ata s' = ata s"
proof -
  have reg: "is_registered_major HARD_DISK_MAJOR (mgr s)" and lk: "manager_linked (mgr s) L"
    using inv by (simp_all add: hd_linked_def)
  obtain r m' where t: "take_current_request HARD_DISK_MAJOR (mgr s) = Ok (r, is \<noteq> [], m')"
    "manager_linked m' (L(HARD_DISK_MAJOR := is))" "pool m' = (pool (mgr s))[i := None]"
    "\<And>mb. is_registered_major mb m' = is_registered_major mb (mgr s)"
    by (rule take_current_linked [OF lk reg q]) (rule that)
  let ?s = "s\<lparr>bufs := upd_slot (payload r) (\<lambda>b. b\<lparr>up_to_date := success, io_locked := False\<rparr>) (bufs s), mgr := m'\<rparr>"
  have d: "i \<notin> set is" using manager_linkedD(2) [OF lk, of HARD_DISK_MAJOR] q by simp
  have "unfinished is ?s"
    unfolding unfinished_def
  proof
    fix j assume j: "j \<in> set is"
    then obtain r'' where "pool (mgr s) ! j = Some r''" "remaining_sectors (progress r'') \<noteq> 0"
      using inv q by (auto simp: hd_linked_def unfinished_def)
    with j d t(3) show "\<exists>r. pool (mgr ?s) ! j = Some r \<and> remaining_sectors (progress r) \<noteq> 0" by (cases "i = j") auto
  qed
  moreover from this have "unfinished (tl is) ?s"
    unfolding unfinished_def by (cases "is") auto
  ultimately have "hd_inv (L(HARD_DISK_MAJOR := is)) ?s"
    using inv t(2,4) by (simp add: hd_inv_def hd_linked_def calm_def)
  then show ?thesis
    using t(1) by (intro that [of ?s]) (auto simp: hd_complete_def complete_current_def)
qed

section \<open>The kick loop ends\<close>

text \<open>Progress of the loop: requests are dropped, errors are counted, or a recovery is pending.\<close>

definition retries_left :: "u32 \<Rightarrow> nat" where
  "retries_left e = (if e = - 1 then 6 else if e \<le> 3 then 5 - unat e else 1)"

definition rank :: "(nat \<Rightarrow> nat list) \<Rightarrow> hd_state \<Rightarrow> nat" where
  "rank L s = length (hdq L) * 8 +
     (if recovery (ata s) \<noteq> Ready then 0
      else case hdq L of [] \<Rightarrow> 0 | i # _ \<Rightarrow> (case pool (mgr s) ! i of None \<Rightarrow> 0 | Some r \<Rightarrow> retries_left (error_count r)))"

lemma retries_left_bounds: "0 < retries_left e" "retries_left e \<le> 6"
  by (auto simp: retries_left_def word_le_nat_alt)

lemma retries_left_step:
  assumes "e + 1 \<le> (3 :: u32)"
  shows "retries_left (e + 1) < retries_left e"
proof (cases "e = - 1")
  case False
  then have "e + 1 \<noteq> 0" by (metis add_eq_0_iff add.commute)
  then have u: "unat (e + 1) = unat e + 1" using unatSuc [of e] by (simp add: add.commute)
  have le: "unat (e + 1) \<le> 3" using assms by (simp add: word_le_nat_alt)
  moreover have "e + 1 \<noteq> - 1"
  proof
    assume eq: "e + 1 = - 1"
    have "unat (- 1 :: u32) \<le> 3" using le unfolding eq .
    then show False by (simp add: unsigned_minus_1_eq_mask mask_eq_exp_minus_1)
  qed
  ultimately show ?thesis using u False by (simp add: retries_left_def word_le_nat_alt)
qed (simp add: retries_left_def)

lemma rank_shorter: "length (hdq L') < length (hdq L) \<Longrightarrow> rank L' s' < rank L s"
proof -
  assume "length (hdq L') < length (hdq L)"
  moreover have "rank L' s' \<le> length (hdq L') * 8 + 6"
    using retries_left_bounds(2) by (auto simp: rank_def split: list.splits option.splits)
  moreover have "length (hdq L) * 8 \<le> rank L s" by (simp add: rank_def)
  ultimately show ?thesis by linarith
qed

lemma rank_cong: "mgr s' = mgr s \<Longrightarrow> recovery (ata s') = recovery (ata s) \<Longrightarrow> rank L s' = rank L s"
  unfolding rank_def by (simp only:)

lemma mark_error_runs:
  assumes inv: "hd_inv L s"
  obtains again s' L' where "mark_request_error s = (Ok again, s')" "hd_inv L' s'" "\<not> again \<Longrightarrow> hdq L' = []"
    "phase (ata s') = phase (ata s)"
    "hdq L \<noteq> [] \<Longrightarrow> recovery (ata s) = Ready \<Longrightarrow> rank L' s' < rank L s"
proof (cases "hdq L")
  case Nil
  with inv show ?thesis
    by (intro that [of True s L]) (auto simp: mark_request_error_def bind_op_def with_current_empty hd_inv_def)
next
  case (Cons i "is")
  have lk: "hd_linked L s" using inv by (simp add: hd_inv_def)
  obtain r a r' s' where w: "pool (mgr s) ! i = Some r" "record_error MAX_REQUEST_ERRORS r = (a, r')"
    "with_current_request (\<lambda>r. Ok (record_error MAX_REQUEST_ERRORS r)) s = (Ok (Some a), s')"
    "s' = s\<lparr>mgr := (mgr s)\<lparr>pool := (pool (mgr s))[i := Some r']\<rparr>\<rparr>" "hd_linked L s'" "pool (mgr s') ! i = Some r'"
    "unfinished is s'"
    by (rule with_current_update [OF lk Cons, of "\<lambda>r. Ok (record_error MAX_REQUEST_ERRORS r)"])
      (auto simp: record_error_def Let_def)
  have r': "r' = r\<lparr>error_count := error_count r + 1\<rparr>" using w(2) by (simp add: record_error_def Let_def)
  have "remaining_sectors (progress r) \<noteq> 0" using inv Cons w(1) by (auto simp: hd_inv_def unfinished_def)
  then have inv': "hd_inv L s'" using w(5-7) Cons by (auto simp: hd_inv_def unfinished_def r')
  show ?thesis
  proof (cases a)
    case Retry
    then have e: "error_count r + 1 \<le> 3"
      using w(2) by (auto simp: record_error_def Let_def MAX_REQUEST_ERRORS_def split: if_splits)
    have "mark_request_error s = (Ok True, s')" using w(3) Retry by (simp add: mark_request_error_def bind_op_def)
    moreover have "rank L s' < rank L s" if "recovery (ata s) = Ready"
      using that Cons w(1,6) retries_left_step [OF e] by (simp add: rank_def w(4) r')
    ultimately show ?thesis using inv' w(4) by (intro that [of True s' L]) simp_all
  next
    case Reset
    let ?s = "s'\<lparr>ata := (ata s')\<lparr>recovery := NeedReset\<rparr>\<rparr>"
    have "mark_request_error s = (Ok True, ?s)" using w(3) Reset by (simp add: mark_request_error_def bind_op_def)
    moreover have "hd_inv L ?s" by (rule hd_inv_cong [OF inv']) simp_all
    moreover have "rank L ?s < rank L s" if "recovery (ata s) = Ready"
      using that Cons w(1) retries_left_bounds(1) by (simp add: rank_def)
    ultimately show ?thesis using w(4) by (intro that [of True ?s L]) simp_all
  next
    case Fail
    obtain s2 where c: "hd_complete False s' = (Ok (if is = [] then Idle else More), s2)"
      "hd_inv (L(HARD_DISK_MAJOR := is)) s2" "ata s2 = ata s'"
      by (rule hd_complete_runs [OF w(5) Cons]) (rule that)
    have "mark_request_error s = (Ok (is \<noteq> []), s2)"
      using w(3) Fail c(1) by (simp add: mark_request_error_def bind_op_def)
    with c w(4) Cons show ?thesis
      by (intro that [of "is \<noteq> []" s2 "L(HARD_DISK_MAJOR := is)"]) (simp_all add: rank_shorter)
  qed
qed

lemma take_recovery_inv:
  assumes "hd_inv L s" "take_recovery_state s = (st, s')"
  shows "hd_inv L s'" "mgr s' = mgr s" "drives (ata s') = drives (ata s)"
  using assms hd_inv_cong [of L s s'] by (auto simp: take_recovery_state_def)

lemma find_partition_drive:
  assumes "find_partition mi d = Some (di, drive, p)"
  shows "di < length (drives d)" "drives d ! di = Some drive"
  using assms by (auto simp: find_partition_def Let_def split: option.splits if_splits)

lemma unat_sum: "unat (a :: u32) + unat b < 2 ^ 32 \<Longrightarrow> unat (a + b) = unat a + unat b"
  by (simp add: unat_word_ariths)

lemma translate_ok:
  assumes "translate_request r d = Ok (g, tf, ph)"
  obtains drive p absolute where "find_partition (req_minor r) d = Some (drive_index tf, drive, p)" "g = geometry drive"
    "checked_add (start_sector p) (req_next_sector r) = Some absolute"
    "unat (req_next_sector r) + unat (req_remaining r) \<le> unat (part_sectors p)"
    "sectors_per_track g \<noteq> 0" "head_count g \<noteq> 0"
    "sector tf = ucast (absolute mod ucast (sectors_per_track g) + 1)"
    "head tf = ucast (absolute div ucast (sectors_per_track g) mod ucast (head_count g))"
    "cylinder tf = ucast (absolute div ucast (sectors_per_track g) div ucast (head_count g))"
    "ph \<noteq> NoInterrupt" "tf_sector_count tf = ucast (req_remaining r)"
  using assms
  by (auto simp: translate_request_def Let_def ucast_u16_u32(1) checked_add_def word_le_nat_alt not_less
      unat_sum split: option.splits if_splits BlockRequestType.splits intro!: that)

lemma head_fits:
  assumes "(h :: u16) \<le> 16" "h \<noteq> 0"
  shows "(ucast ((t :: u32) mod ucast h) :: u8) \<le> 0x0F" "(ucast (h - 1) :: u8) \<le> 0x0F"
proof -
  have h: "unat h \<le> 16" "0 < unat h" using assms by (auto simp: word_le_nat_alt word_less_nat_alt unat_gt_0)
  have "unat (t mod ucast h) = unat t mod unat h"
    by (simp add: unat_mod_distrib ucast_u16_u32(2))
  with h have "unat (t mod ucast h) < 16" by (metis mod_less_divisor order_less_le_trans)
  then show "(ucast (t mod ucast h) :: u8) \<le> 0x0F" by (simp add: word_le_nat_alt unsigned_ucast_eq take_bit_eq_mod)
  have "unat (h - 1) = unat h - 1" using assms(2) by (simp add: unat_minus_one)
  with h show "(ucast (h - 1) :: u8) \<le> 0x0F" by (simp add: word_le_nat_alt unsigned_ucast_eq take_bit_eq_mod)
qed

lemma snapshot_runs:
  assumes inv: "hd_inv L s"
  shows "current_request_snapshot s = (Ok (case hdq L of [] \<Rightarrow> None | i # _ \<Rightarrow>
    (case pool (mgr s) ! i of None \<Rightarrow> None | Some r \<Rightarrow> Some \<lparr>req_ty = io_ty (io r), req_minor = minor (io_dev (io r)),
       req_next_sector = next_sector (progress r), req_remaining = remaining_sectors (progress r),
       req_data_addr = next_data_addr (progress r)\<rparr>)), s)"
proof (cases "hdq L")
  case Nil
  have "hd_linked L s" using inv by (simp add: hd_inv_def)
  from with_current_empty [OF this Nil] Nil show ?thesis by (simp add: current_request_snapshot_def)
next
  case (Cons i "is")
  then obtain r where "head_slot (mgr s) = Some i" "pool (mgr s) ! i = Some r" "i < length (pool (mgr s))"
    using hd_linked_head(2) [of L s i "is"] inv by (auto simp: hd_inv_def)
  moreover from this have "(pool (mgr s))[i := Some r] = pool (mgr s)" by (metis list_update_id)
  ultimately show ?thesis using Cons by (simp add: current_request_snapshot_def with_current_request_def)
qed

lemma reset_controller_frame:
  "mgr (reset_controller ctl s) = mgr s" "ata (reset_controller ctl s) = ata s" "answers (reset_controller ctl s) = answers s"
proof -
  let ?p = "\<lambda>st. st AND STATUS_BUSY = 0 \<and> st AND STATUS_READY \<noteq> 0"
  let ?s = "out (ctl AND 0x0F) 0x3F6 (out 0x04 0x3F6 s)"
  obtain st s2 where w: "wait_for_status 10000 ?p ?s = (st, s2)" by (cases "wait_for_status 10000 ?p ?s")
  from wait_for_status_polls [OF w] obtain k where "s2 = ?s\<lparr>polls := polls ?s + k\<rparr>" by blast
  with w show "mgr (reset_controller ctl s) = mgr s" "ata (reset_controller ctl s) = ata s"
    "answers (reset_controller ctl s) = answers s"
    by (simp_all add: reset_controller_def read_status_def out_def Let_def)
qed

text \<open>The three ways a round can end with a command issued.\<close>

lemma reset_drive_runs:
  assumes inv: "hd_inv L s" and d: "drives (ata s) ! di = Some drive" "di < length (drives (ata s))"
    and g: "head_count (geometry drive) \<noteq> 0"
  obtains s' where "reset_drive di s = (Ok (), s')" "hd_inv L s'" "phase (ata s') = Specifying"
proof -
  let ?s = "reset_controller (control (geometry drive)) s"
  have c: "calm s" using inv by (simp add: hd_inv_def hd_linked_def)
  then have h: "head_count (geometry drive) \<le> 16" and di: "di \<le> 1"
    using d nth_mem [OF d(2)] by (auto simp: calm_def MAX_DRIVE_COUNT_def)
  have c': "calm ?s" using c calm_cong [of ?s s] by (simp add: reset_controller_frame)
  let ?tf = "\<lparr>drive_index = di, tf_sector_count = ucast (sectors_per_track (geometry drive)),
    sector = ucast (sectors_per_track (geometry drive)), head = ucast (head_count (geometry drive) - 1),
    cylinder = cylinder_count (geometry drive), command = Specify\<rparr>"
  obtain s' where s': "issue_command (geometry drive) ?tf Specifying ?s = (Ok (), s')" "mgr s' = mgr ?s"
    "ata s' = (ata ?s)\<lparr>phase := Specifying\<rparr>" "answers s' = answers ?s"
    by (rule issue_command_runs [OF c', of ?tf]) (use di head_fits(2) [OF h g] that in auto)
  then have "hd_inv L s'" by (intro hd_inv_cong [OF inv]) (simp_all add: reset_controller_frame)
  with s' d show ?thesis by (intro that [of s']) (simp_all add: reset_drive_def Let_def)
qed

lemma command_runs:
  assumes inv: "hd_inv L s" and tf: "drive_index tf \<le> 1" "head tf \<le> 0x0F"
  obtains s' where "issue_command g tf ph s = (Ok (), s')" "hd_inv L s'" "ata s' = (ata s)\<lparr>phase := ph\<rparr>" "mgr s' = mgr s"
proof -
  have c: "calm s" using inv by (simp add: hd_inv_def hd_linked_def)
  obtain s' where s': "issue_command g tf ph s = (Ok (), s')" "mgr s' = mgr s" "ata s' = (ata s)\<lparr>phase := ph\<rparr>"
    "answers s' = answers s"
    by (rule issue_command_runs [OF c tf]) (rule that)
  then have "hd_inv L s'" by (intro hd_inv_cong [OF inv]) simp_all
  with s' that show ?thesis by blast
qed

definition round_done :: "(nat \<Rightarrow> nat list) \<Rightarrow> hd_state \<Rightarrow> bool outcome \<times> hd_state \<Rightarrow> bool" where
  "round_done L s res \<longleftrightarrow> (\<exists>again s' L'. res = (Ok again, s') \<and> hd_inv L' s'
     \<and> (if again then rank L' s' < rank L s else hdq L' = [] \<or> phase (ata s') \<noteq> NoInterrupt))"

lemma round_done_cong: "rank L s' = rank L s \<Longrightarrow> round_done L s' res = round_done L s res"
  unfolding round_done_def by (simp only:)

lemma start_transfer_done:
  assumes inv: "hd_inv L s" and tf: "drive_index tf \<le> 1" "head tf \<le> 0x0F" and ph: "ph \<noteq> NoInterrupt"
    and q: "hdq L \<noteq> []" and rd: "recovery (ata s) = Ready"
  shows "round_done L s (start_transfer req g tf ph s)"
proof -
  obtain s1 where s1: "issue_command g tf ph s = (Ok (), s1)" "hd_inv L s1" "ata s1 = (ata s)\<lparr>phase := ph\<rparr>" "mgr s1 = mgr s"
    by (rule command_runs [OF inv tf]) (rule that)
  let ?drq = "\<lambda>st. st AND DATA_REQUEST \<noteq> 0"
  show ?thesis
  proof (cases "req_ty req")
    case Read
    with s1 ph show ?thesis by (auto simp: round_done_def start_transfer_def bind_op_def)
  next
    case Write
    obtain st s2 where w: "wait_for_status 3000 ?drq s1 = (st, s2)" by (cases "wait_for_status 3000 ?drq s1")
    obtain k where s2: "s2 = s1\<lparr>polls := polls s1 + k\<rparr>" using wait_for_status_polls [OF w] by blast
    then have inv2: "hd_inv L s2" by (intro hd_inv_cong [OF s1(2)]) simp_all
    have rk: "rank L s2 = rank L s" using s1(3,4) s2 by (intro rank_cong) simp_all
    show ?thesis
    proof (cases st)
      case (Some a)
      let ?s = "port_write_words (req_data_addr req) s2"
      have "hd_inv L ?s"
        by (rule hd_inv_cong [OF inv2]) (simp_all add: port_write_words_def split: prod.splits)
      moreover have "phase (ata ?s) = ph" using s1(3) s2 by (simp add: port_write_words_def split: prod.splits)
      ultimately show ?thesis
        using s1(1) w Write Some ph by (auto simp: round_done_def start_transfer_def bind_op_def)
    next
      case None
      obtain again s3 L' where m: "mark_request_error s2 = (Ok again, s3)" "hd_inv L' s3" "\<not> again \<Longrightarrow> hdq L' = []"
        "hdq L \<noteq> [] \<Longrightarrow> recovery (ata s2) = Ready \<Longrightarrow> rank L' s3 < rank L s2"
        by (rule mark_error_runs [OF inv2]) (rule that)
      have "start_transfer req g tf ph s = (Ok again, s3)"
        using s1(1) w Write None m(1) by (simp add: start_transfer_def bind_op_def)
      moreover have "rank L' s3 < rank L s" using m(4) q rd s1(3) s2 rk by simp
      ultimately show ?thesis using m(2,3) by (auto simp: round_done_def)
    qed
  qed
qed

lemma kick_round_done:
  assumes inv: "hd_inv L s"
  shows "round_done L s (kick_round s)"
proof (cases "hdq L")
  case Nil
  with inv show ?thesis by (auto simp: round_done_def kick_round_def bind_op_def snapshot_runs [OF inv])
next
  case (Cons i "is")
  have lk: "hd_linked L s" using inv by (simp add: hd_inv_def)
  obtain r where r: "pool (mgr s) ! i = Some r" using hd_linked_head(2) [OF lk Cons] by blast
  let ?req = "\<lparr>req_ty = io_ty (io r), req_minor = minor (io_dev (io r)), req_next_sector = next_sector (progress r),
     req_remaining = remaining_sectors (progress r), req_data_addr = next_data_addr (progress r)\<rparr>"
  have snap: "current_request_snapshot s = (Ok (Some ?req), s)" using Cons r by (simp add: snapshot_runs [OF inv])
  obtain s2 where c: "hd_complete False s = (Ok (if is = [] then Idle else More), s2)" "hd_inv (L(HARD_DISK_MAJOR := is)) s2"
    by (rule hd_complete_runs [OF lk Cons]) (rule that)
  have drop: "round_done L s (bind_op (hd_complete False) (\<lambda>q s. (Ok (q = More), s)) s)"
    unfolding round_done_def using c Cons
    by (intro exI [of _ "is \<noteq> []"] exI [of _ s2] exI [of _ "L(HARD_DISK_MAJOR := is)"]) (auto simp: bind_op_def rank_shorter)
  show ?thesis
  proof (cases "translate_request ?req (ata s)")
    case (Ok x)
    obtain g tf ph where x: "x = (g, tf, ph)" by (cases x)
    from Ok [unfolded x] obtain drive p and absolute :: u32 where t: "find_partition (req_minor ?req) (ata s) = Some (drive_index tf, drive, p)"
      "g = geometry drive" "head_count g \<noteq> 0"
      "head tf = ucast (absolute div ucast (sectors_per_track g) mod ucast (head_count g))" "ph \<noteq> NoInterrupt"
      by (rule translate_ok) (rule that, assumption+)
    note d = find_partition_drive [OF t(1)]
    have c: "calm s" using lk by (simp add: hd_linked_def)
    then have di: "drive_index tf \<le> 1" and h: "head_count g \<le> 16"
      using d nth_mem [OF d(1)] t(2) by (auto simp: calm_def MAX_DRIVE_COUNT_def)
    have hf: "head tf \<le> 0x0F" using head_fits(1) [OF h t(3)] t(4) by simp
    obtain st s1 where tr: "take_recovery_state s = (st, s1)" by (cases "take_recovery_state s")
    note i1 = take_recovery_inv [OF inv tr]
    have run: "kick_round s = (case st of
        NeedReset \<Rightarrow> bind_op (reset_drive (drive_index tf)) (\<lambda>_ s. (Ok False, s)) s1
      | NeedRecalibrate \<Rightarrow> bind_op (issue_command g \<lparr>drive_index = drive_index tf, tf_sector_count = ucast (sectors_per_track g),
             sector = 0, head = 0, cylinder = 0, command = Restore\<rparr> Recalibrating) (\<lambda>_ s. (Ok False, s)) s1
      | Ready \<Rightarrow> start_transfer ?req g tf ph s1)"
      using snap Ok x tr by (simp add: kick_round_def bind_op_def)
    show ?thesis
    proof (cases st)
      case NeedReset
      obtain s' where "reset_drive (drive_index tf) s1 = (Ok (), s')" "hd_inv L s'" "phase (ata s') = Specifying"
        by (rule reset_drive_runs [OF i1(1), of "drive_index tf" drive]) (use d t(2,3) i1(3) that in auto)
      with NeedReset run show ?thesis by (auto simp: round_done_def bind_op_def)
    next
      case NeedRecalibrate
      let ?tf = "\<lparr>drive_index = drive_index tf, tf_sector_count = ucast (sectors_per_track g),
             sector = 0, head = 0, cylinder = 0, command = Restore\<rparr>"
      obtain s' where "issue_command g ?tf Recalibrating s1 = (Ok (), s')" "hd_inv L s'"
          "ata s' = (ata s1)\<lparr>phase := Recalibrating\<rparr>"
        by (rule command_runs [OF i1(1), of ?tf]) (use di that in auto)
      with NeedRecalibrate run show ?thesis by (auto simp: round_done_def bind_op_def)
    next
      case Ready
      then have rd: "recovery (ata s1) = Ready" "recovery (ata s) = Ready" using tr by (auto simp: take_recovery_state_def)
      then have "rank L s1 = rank L s" using i1(2) by (intro rank_cong) simp_all
      with start_transfer_done [OF i1(1) di hf t(5), of ?req g] Cons Ready run rd(1) show ?thesis
        by (simp add: round_done_cong [of L s1 s])
    qed
  qed (use snap drop in \<open>simp_all add: kick_round_def bind_op_def\<close>)
qed

text \<open>What every entry of the driver leaves: nothing queued, or an interrupt to come.\<close>

definition served :: "(unit outcome \<times> hd_state) option \<Rightarrow> bool" where
  "served res \<longleftrightarrow> (\<exists>s' L'. res = Some (Ok (), s') \<and> hd_inv L' s' \<and> (hdq L' = [] \<or> phase (ata s') \<noteq> NoInterrupt))"

lemma kick_serves: "hd_inv L s \<Longrightarrow> served (kick s)"
proof (induction "rank L s" arbitrary: L s rule: less_induct)
  case less
  from kick_round_done [OF less.prems]
  obtain again s' L' where r: "kick_round s = (Ok again, s')" "hd_inv L' s'"
    "if again then rank L' s' < rank L s else hdq L' = [] \<or> phase (ata s') \<noteq> NoInterrupt"
    by (auto simp: round_done_def)
  show ?case
  proof (cases again)
    case True
    with r less.hyps have "served (kick s')" by simp
    with True r(1) show ?thesis by (subst kick.simps) simp
  next
    case False
    with r show ?thesis by (subst kick.simps) (auto simp: served_def)
  qed
qed

section \<open>Interrupts and submissions\<close>

lemma served_retry: "hd_inv L s \<Longrightarrow> served (and_then mark_request_error kick_if s)"
proof -
  assume inv: "hd_inv L s"
  obtain again s' L' where m: "mark_request_error s = (Ok again, s')" "hd_inv L' s'" "\<not> again \<Longrightarrow> hdq L' = []"
    by (rule mark_error_runs [OF inv]) (rule that)
  then show ?thesis
    using kick_serves [OF m(2)] by (auto simp: and_then_def kick_if_def served_def)
qed

lemma served_complete:
  assumes "hd_linked L s" "hdq L = i # is"
  shows "served (complete_current_and_maybe_kick s)"
proof -
  obtain s' where c: "hd_complete True s = (Ok (if is = [] then Idle else More), s')"
    "hd_inv (L(HARD_DISK_MAJOR := is)) s'"
    by (rule hd_complete_runs [OF assms]) (rule that)
  show ?thesis
  proof (cases "is = []")
    case True
    with c show ?thesis
      by (auto simp: complete_current_and_maybe_kick_def and_then_def kick_if_def served_def
          intro!: exI [of _ "L(HARD_DISK_MAJOR := is)"])
  next
    case False
    with c(1) kick_serves [OF c(2)] show ?thesis
      by (simp add: complete_current_and_maybe_kick_def and_then_def kick_if_def)
  qed
qed

lemma served_complete_empty:
  assumes "hd_inv L s" "hdq L = []"
  shows "served (complete_current_and_maybe_kick s)"
proof -
  have reg: "is_registered_major HARD_DISK_MAJOR (mgr s)" and lk: "hd_linked L s"
    using assms(1) by (simp_all add: hd_inv_def hd_linked_def)
  have "head_slot (mgr s) = None" by (rule hd_linked_head(1) [OF lk assms(2)])
  with reg have "take_current_request HARD_DISK_MAJOR (mgr s) = Err Errno_IO"
    by (auto simp: take_current_request_def head_slot_def is_registered_major_def)
  then have "complete_current_and_maybe_kick s = Some (Ok (), s)"
    by (simp add: complete_current_and_maybe_kick_def and_then_def kick_if_def hd_complete_def complete_current_def)
  with assms show ?thesis by (auto simp: served_def)
qed

lemma advance_runs:
  assumes inv: "hd_inv L s" and q: "hdq L = i # is"
  obtains x s' where "with_current_request advance_current s = (Ok (Some x), s')" "hd_linked L s'"
    "x \<noteq> None \<Longrightarrow> hd_inv L s'" "ata s' = ata s"
proof -
  have lk: "hd_linked L s" using inv by (simp add: hd_inv_def)
  have left: "remaining_sectors (progress r) \<noteq> 0" if "pool (mgr s) ! i = Some r" for r
    using inv q that by (auto simp: hd_inv_def unfinished_def)
  have adv: "\<exists>a r'. advance_current r = Ok (a, r') \<and> next_request r' = next_request r"
    if "pool (mgr s) ! i = Some r" for r
    using left [OF that] by (simp add: advance_current_def advance_one_sector_def clear_errors_def)
  obtain r x r' s' where w: "advance_current r = Ok (x, r')" "with_current_request advance_current s = (Ok (Some x), s')"
    "s' = s\<lparr>mgr := (mgr s)\<lparr>pool := (pool (mgr s))[i := Some r']\<rparr>\<rparr>" "hd_linked L s'" "pool (mgr s') ! i = Some r'"
    "unfinished is s'"
    by (rule with_current_update [OF lk q adv]) (assumption, rule that)
  have "hd_inv L s'" if "x \<noteq> None"
  proof -
    have "remaining_sectors (progress r') \<noteq> 0"
      using w(1) that by (auto simp: advance_current_def split: outcome.splits if_splits)
    with w(4-6) q show ?thesis by (simp add: hd_inv_def unfinished_def)
  qed
  with w(2-4) show ?thesis by (intro that [of x s']) simp_all
qed

lemma command_succeeded_frame:
  assumes "hd_inv L s" "command_succeeded s = (ok, s')"
  shows "hd_inv L s'" "ata s' = ata s"
  using assms hd_inv_cong [of L s s'] by (auto simp: command_succeeded_def read_status_def)

lemma served_now: "hd_inv L s \<Longrightarrow> hdq L = [] \<or> phase (ata s) \<noteq> NoInterrupt \<Longrightarrow> served (Some (Ok (), s))"
  by (auto simp: served_def)

lemma continue_write_serves:
  assumes inv: "hd_inv L s"
  shows "served (continue_write s)"
proof -
  obtain ok s1 where c: "command_succeeded s = (ok, s1)" by (cases "command_succeeded s")
  note i1 = command_succeeded_frame(1) [OF inv c]
  show ?thesis
  proof (cases ok)
    case False
    with c served_retry [OF i1] show ?thesis by (simp add: continue_write_def)
  next
    case True
    show ?thesis
    proof (cases "hdq L")
      case Nil
      with True c i1 with_current_empty [of L s1 advance_current] served_complete_empty [OF i1] show ?thesis
        by (simp add: continue_write_def and_then_def hd_inv_def)
    next
      case (Cons i "is")
      obtain x s2 where a: "with_current_request advance_current s1 = (Ok (Some x), s2)" "hd_linked L s2"
        "x \<noteq> None \<Longrightarrow> hd_inv L s2"
        by (rule advance_runs [OF i1 Cons]) (rule that)
      have "served (Some (Ok (), port_write_words addr (set_phase Writing s2)))" if "x \<noteq> None" for addr
        by (rule served_now [OF hd_inv_cong [OF a(3) [OF that]]])
          (simp_all add: port_write_words_def split: prod.splits)
      with True c a(1) served_complete [OF a(2) Cons] show ?thesis
        by (cases x) (simp_all add: continue_write_def and_then_def)
    qed
  qed
qed

lemma continue_read_serves:
  assumes inv: "hd_inv L s"
  shows "served (continue_read s)"
proof -
  obtain ok s1 where c: "command_succeeded s = (ok, s1)" by (cases "command_succeeded s")
  note i1 = command_succeeded_frame(1) [OF inv c]
  show ?thesis
  proof (cases ok)
    case False
    with c served_retry [OF i1] show ?thesis by (simp add: continue_read_def)
  next
    case True
    show ?thesis
    proof (cases "hdq L")
      case Nil
      have lk: "hd_linked L s1" using i1 by (simp add: hd_inv_def)
      show ?thesis
        using True c served_now [OF i1] Nil
        by (simp add: continue_read_def and_then_def with_current_empty [OF lk Nil])
    next
      case (Cons i "is")
      then obtain r where r: "head_slot (mgr s1) = Some i" "pool (mgr s1) ! i = Some r" "i < length (pool (mgr s1))"
        using hd_linked_head(2) [of L s1 i "is"] i1 by (auto simp: hd_inv_def)
      have same: "(pool (mgr s1))[i := Some r] = pool (mgr s1)" using r(2) by (metis list_update_id)
      let ?s = "port_read_words (next_data_addr (progress r)) s1"
      have i2: "hd_inv L ?s"
        by (rule hd_inv_cong [OF i1]) (simp_all add: port_read_words_def Let_def split: prod.splits)
      obtain x s2 where a: "with_current_request advance_current ?s = (Ok (Some x), s2)" "hd_linked L s2"
        "x \<noteq> None \<Longrightarrow> hd_inv L s2"
        by (rule advance_runs [OF i2 Cons]) (rule that)
      have "served (Some (Ok (), set_phase Reading s2))" if "x \<noteq> None"
        by (rule served_now [OF hd_inv_cong [OF a(3) [OF that]]]) simp_all
      with True c r same a(1) served_complete [OF a(2) Cons] show ?thesis
        by (cases x) (simp_all add: continue_read_def and_then_def with_current_request_def [of "\<lambda>r. Ok (_ r, r)"])
    qed
  qed
qed

lemma on_interrupt_serves:
  assumes inv: "hd_inv L s" and live: "hdq L = [] \<or> phase (ata s) \<noteq> NoInterrupt"
  shows "served (on_interrupt s)"
proof -
  let ?s = "set_phase NoInterrupt s"
  have i1: "hd_inv L ?s" by (rule hd_inv_cong [OF inv]) simp_all
  have "served (continue_recovery ?s)"
  proof -
    obtain ok s1 where c: "command_succeeded ?s = (ok, s1)" by (cases "command_succeeded ?s")
    note i2 = command_succeeded_frame(1) [OF i1 c]
    show ?thesis using c kick_serves [OF i2] served_retry [OF i2] by (cases ok) (simp_all add: continue_recovery_def)
  qed
  with live served_now [OF i1] continue_read_serves [OF i1] continue_write_serves [OF i1] show ?thesis
    by (cases "phase (ata s)") (simp_all add: on_interrupt_def Let_def)
qed

lemma same_requests_remaining:
  assumes "same_requests p p'" "p ! j = Some r"
  obtains r' where "p' ! j = Some r'" "progress r' = progress r"
proof -
  have "map_option (\<lambda>r. r\<lparr>next_request := None\<rparr>) (p' ! j) = Some (r\<lparr>next_request := None\<rparr>)"
    using assms by (simp add: same_requests_def)
  then obtain r' where r': "p' ! j = Some r'" "r'\<lparr>next_request := None\<rparr> = r\<lparr>next_request := None\<rparr>" by auto
  from r'(2) have "progress (r'\<lparr>next_request := None\<rparr>) = progress (r\<lparr>next_request := None\<rparr>)" by (rule arg_cong)
  with r'(1) that show ?thesis by simp
qed

lemma new_request_remaining: "remaining_sectors (progress (new_request k ty addr b)) \<noteq> 0"
  by (simp add: new_request_def Let_def BUFFER_BLOCK_SECTOR_COUNT_def BLOCK_SIZE_def SECTOR_SIZE_def)

lemma hd_inv_insert:
  assumes inv: "hd_inv L s" and k: "unat (major (key_dev k)) = HARD_DISK_MAJOR" and i: "find_free_slot ty (mgr s) = Some i"
  obtains m' L' where "insert_request HARD_DISK_MAJOR i (new_request k ty addr b) (mgr s) = Ok (hdq L = [], m')"
    "\<And>c. hd_inv L' (s\<lparr>bufs := c, mgr := m'\<rparr>)"
proof -
  let ?r = "new_request k ty addr b"
  have lk: "manager_linked (mgr s) L" and reg: "is_registered_major HARD_DISK_MAJOR (mgr s)"
    using inv by (simp_all add: hd_inv_def hd_linked_def)
  have f: "i < length (pool (mgr s))" "pool (mgr s) ! i = None"
    using find_free_slot_spec [OF i] manager_linkedD(1) [OF lk] by simp_all
  let ?p = "(pool (mgr s))[i := Some (?r\<lparr>next_request := None\<rparr>)]"
  let ?L = "L(HARD_DISK_MAJOR := elevate (slot_key_of ?p) i (hdq L))"
  obtain m' where m': "insert_request HARD_DISK_MAJOR i ?r (mgr s) = Ok (hdq L = [], m')" "manager_linked m' ?L"
    "same_requests ?p (pool m')" "\<And>mb. is_registered_major mb m' = is_registered_major mb (mgr s)"
    by (rule insert_request_linked [OF lk reg f, of ?r]) (rule that)
  have u: "unfinished xs (s\<lparr>bufs := c, mgr := m'\<rparr>)" if xs: "set xs \<subseteq> insert i (set (hdq L))" for xs c
    unfolding unfinished_def
  proof
    fix j assume j: "j \<in> set xs"
    have "\<exists>r. ?p ! j = Some r \<and> remaining_sectors (progress r) \<noteq> 0"
    proof (cases "j = i")
      case True
      with f show ?thesis by (simp add: new_request_remaining)
    next
      case False
      with j xs inv show ?thesis by (auto simp: hd_inv_def unfinished_def)
    qed
    then obtain r where r: "?p ! j = Some r" "remaining_sectors (progress r) \<noteq> 0" by blast
    from same_requests_remaining [OF m'(3) r(1)] r(2)
    show "\<exists>r. pool (mgr (s\<lparr>bufs := c, mgr := m'\<rparr>)) ! j = Some r \<and> remaining_sectors (progress r) \<noteq> 0" by fastforce
  qed
  have sub: "set (tl (hdq ?L)) \<subseteq> set (hdq ?L)" by (cases "hdq ?L") auto
  have "hd_inv ?L (s\<lparr>bufs := c, mgr := m'\<rparr>)" for c
    using inv m'(2,4) u [of "hdq ?L" c] u [of "tl (hdq ?L)" c] sub
    by (simp add: hd_inv_def hd_linked_def calm_def set_elevate)
  with m'(1) that show ?thesis by blast
qed

lemma queue_request_serves:
  assumes inv: "hd_inv L s" and live: "hdq L = [] \<or> phase (ata s) \<noteq> NoInterrupt"
    and k: "unat (major (key_dev k)) = HARD_DISK_MAJOR"
    and f: "f (bufs s, mgr s) = queue_request ty prefetch b k (c, mgr s)"
  shows "served (hd_queue f s)"
proof (cases "find_free_slot ty (mgr s)")
  case None
  then obtain q c' where q: "queue_request ty prefetch b k (c, mgr s) = Ok (q, c', mgr s)" "q \<noteq> Queued True"
    by (cases prefetch) (simp_all add: queue_request_def)
  have "hd_inv L (s\<lparr>bufs := c', mgr := mgr s\<rparr>)" by (rule hd_inv_cong [OF inv]) simp_all
  with q f live show ?thesis by (auto simp: hd_queue_def kick_if_def intro!: served_now)
next
  case (Some i)
  obtain m' L' where m': "insert_request HARD_DISK_MAJOR i (new_request k ty (data_addr b) b) (mgr s) = Ok (hdq L = [], m')"
    "\<And>c. hd_inv L' (s\<lparr>bufs := c, mgr := m'\<rparr>)"
    by (rule hd_inv_insert [OF inv k Some]) (rule that)
  have q: "queue_request ty prefetch b k (c, mgr s) = Ok (Queued (hdq L = []), start_request b c, m')"
    using Some m'(1) k by (simp add: queue_request_def)
  have "hd_queue f s = kick_if (hdq L = []) (s\<lparr>bufs := start_request b c, mgr := m'\<rparr>)"
    using f q by (simp add: hd_queue_def)
  with live kick_serves [OF m'(2)] served_now [OF m'(2)] show ?thesis by (auto simp: kick_if_def)
qed

lemma submit_request_serves:
  assumes inv: "hd_inv L s" and live: "hdq L = [] \<or> phase (ata s) \<noteq> NoInterrupt"
  shows "served (hd_queue (submit_request ty prefetch b) s)"
proof -
  let ?c = "bufs s" and ?f = "submit_request ty prefetch b"
  have reg: "is_registered_major ma (mgr s) \<longleftrightarrow> ma = HARD_DISK_MAJOR" for ma
    using inv by (simp add: hd_inv_def hd_linked_def)
  have same: "served (hd_queue ?f s)" if "?f (?c, mgr s) = Ok (q, ?c, mgr s)" "q \<noteq> Queued True" for q
    using that served_now [OF inv live] by (simp add: hd_queue_def kick_if_def)
  show ?thesis
  proof (cases "slot_key (slot_at ?c b)")
    case None
    then show ?thesis by (intro same [of Dropped]) (simp_all add: submit_request_def)
  next
    case (Some k)
    consider (other) "unat (major (key_dev k)) \<noteq> HARD_DISK_MAJOR" | (locked) "unat (major (key_dev k)) = HARD_DISK_MAJOR" "io_locked (slot_at ?c b)"
      | (clean) "unat (major (key_dev k)) = HARD_DISK_MAJOR" "\<not> io_locked (slot_at ?c b)"
          "ty = Read \<and> up_to_date (slot_at ?c b) \<or> ty = Write \<and> \<not> dirty (slot_at ?c b)"
      | (queue) "unat (major (key_dev k)) = HARD_DISK_MAJOR" "\<not> io_locked (slot_at ?c b)"
          "\<not> (ty = Read \<and> up_to_date (slot_at ?c b) \<or> ty = Write \<and> \<not> dirty (slot_at ?c b))" by argo
    then show ?thesis
    proof cases
      case other
      with Some show ?thesis by (intro same [of Dropped]) (simp_all add: submit_request_def reg)
    next
      case locked
      with Some show ?thesis
        by (intro same [of "if prefetch then Dropped else Sleeps"]) (simp_all add: submit_request_def reg)
    next
      case clean
      with Some show ?thesis by (intro same [of Dropped]) (simp_all add: submit_request_def reg)
    next
      case queue
      with Some have "?f (?c, mgr s) = queue_request ty prefetch b k (upd_slot b (\<lambda>x. x\<lparr>io_locked := True\<rparr>) ?c, mgr s)"
        by (auto simp: submit_request_def reg)
      then show ?thesis by (rule queue_request_serves [OF inv live queue(1)])
    qed
  qed
qed

section \<open>The driver over time\<close>

text \<open>
  The machine starts with an empty queue and no interrupt expected.  Then tasks submit requests
  or resume after waiting for a request slot, the controller interrupts, and tasks use the buffers
  in between, in any order.
\<close>

definition hd_booted :: "hd_state \<Rightarrow> bool" where
  "hd_booted s \<longleftrightarrow> calm s \<and> phase (ata s) = NoInterrupt
     \<and> register_driver HARD_DISK_MAJOR BlockManager_new = Ok (mgr s)"

inductive hd_reachable :: "hd_state \<Rightarrow> bool" where
  boot: "hd_booted s \<Longrightarrow> hd_reachable s"
| submit: "hd_reachable s \<Longrightarrow> hd_queue (submit_request ty prefetch b) s = Some (Ok (), s') \<Longrightarrow> hd_reachable s'"
| resume: "hd_reachable s \<Longrightarrow> unat (major (key_dev k)) = HARD_DISK_MAJOR \<Longrightarrow>
    hd_queue (queue_request ty prefetch b k) s = Some (Ok (), s') \<Longrightarrow> hd_reachable s'"
| interrupt: "hd_reachable s \<Longrightarrow> on_interrupt s = Some (Ok (), s') \<Longrightarrow> hd_reachable s'"
| tasks: "hd_reachable s \<Longrightarrow> hd_reachable (s\<lparr>bufs := c\<rparr>)"

lemma served_Some: "served (Some (Ok (), s)) \<longleftrightarrow> (\<exists>L. hd_inv L s \<and> (hdq L = [] \<or> phase (ata s) \<noteq> NoInterrupt))"
  by (simp add: served_def)

lemma hd_booted_inv: "hd_booted s \<Longrightarrow> hd_inv (\<lambda>ma. []) s"
proof -
  assume b: "hd_booted s"
  have m: "mgr s = BlockManager_new\<lparr>queues := (queues BlockManager_new)[HARD_DISK_MAJOR := Some None]\<rparr>"
    using b by (auto simp: hd_booted_def register_driver_def split: if_splits)
  have "manager_linked (mgr s) (\<lambda>ma. [])"
    unfolding m by (rule manager_okD(1) [OF manager_ok_register [OF BlockManager_new_ok]])
      (simp_all add: BlockManager_new_def BLOCK_DEVICE_SLOT_COUNT_def HARD_DISK_MAJOR_def)
  moreover have "is_registered_major ma (mgr s) \<longleftrightarrow> ma = HARD_DISK_MAJOR" for ma
    unfolding m by (auto simp: is_registered_major_def BlockManager_new_def BLOCK_DEVICE_SLOT_COUNT_def
        HARD_DISK_MAJOR_def nth_list_update)
  ultimately show ?thesis using b by (simp add: hd_inv_def hd_linked_def unfinished_def hd_booted_def)
qed

lemma hd_reachable_served: "hd_reachable s \<Longrightarrow> served (Some (Ok (), s))"
proof (induction rule: hd_reachable.induct)
  case (boot s)
  from hd_booted_inv [OF this] show ?case by (auto simp: served_Some)
next
  case (submit s ty prefetch b s')
  then show ?case using submit_request_serves by (metis served_Some)
next
  case (resume s k ty prefetch b s')
  then show ?case using queue_request_serves [where c = "bufs s"] by (metis served_Some)
next
  case (interrupt s s')
  then show ?case using on_interrupt_serves by (metis served_Some)
next
  case (tasks s c)
  then obtain L where L: "hd_inv L s" "hdq L = [] \<or> phase (ata s) \<noteq> NoInterrupt" by (auto simp: served_Some)
  have "hd_inv L (s\<lparr>bufs := c\<rparr>)" by (rule hd_inv_cong [OF L(1)]) simp_all
  with L(2) show ?case by (auto simp: served_Some)
qed

text \<open>
  (C33) No request is ever stranded.  In every reachable state the kick loop has ended, the driver
  has not panicked on any of its assertions, and when a request is queued an interrupt is expected
  that will continue it; and whatever happens next (a submission of any buffer, an interrupt)
  returns again.  The machine is assumed not to stay busy for ever and to have at most sixteen heads.
\<close>

theorem hd_request_never_stranded:
  assumes "hd_reachable s"
  shows "(\<exists>q. Block_Queue.current_request HARD_DISK_MAJOR (mgr s) = Ok q \<and> (q \<noteq> None \<longrightarrow> phase (ata s) \<noteq> NoInterrupt))
    \<and> (\<exists>s'. on_interrupt s = Some (Ok (), s') \<and> hd_reachable s')
    \<and> (\<exists>s'. hd_queue (submit_request ty prefetch b) s = Some (Ok (), s') \<and> hd_reachable s')"
proof -
  obtain L where L: "hd_inv L s" "hdq L = [] \<or> phase (ata s) \<noteq> NoInterrupt"
    using hd_reachable_served [OF assms] by (auto simp: served_Some)
  have lk: "hd_linked L s" using L(1) by (simp add: hd_inv_def)
  have "\<exists>q. Block_Queue.current_request HARD_DISK_MAJOR (mgr s) = Ok q \<and> (q \<noteq> None \<longrightarrow> hdq L \<noteq> [])"
  proof (cases "hdq L")
    case Nil
    from hd_linked_head(1) [OF lk this] have "Block_Queue.current_request HARD_DISK_MAJOR (mgr s) = Ok None"
      by (auto simp: head_slot_def current_request_def split: option.splits if_splits)
    then show ?thesis by simp
  next
    case (Cons i "is")
    from hd_linked_head(2) [OF lk this] obtain r where "Block_Queue.current_request HARD_DISK_MAJOR (mgr s) = Ok (Some r)"
      by (auto simp: head_slot_def current_request_def split: option.splits if_splits)
    with Cons show ?thesis by simp
  qed
  moreover have "\<exists>s'. on_interrupt s = Some (Ok (), s')" using on_interrupt_serves [OF L] by (auto simp: served_def)
  moreover have "\<exists>s'. hd_queue (submit_request ty prefetch b) s = Some (Ok (), s')"
    using submit_request_serves [OF L, of ty prefetch b] by (auto simp: served_def)
  ultimately show ?thesis using L(2) hd_reachable.interrupt [OF assms] hd_reachable.submit [OF assms] by blast
qed

definition demo_geometry :: DriveGeometry where
  "demo_geometry = \<lparr>head_count = 16, sectors_per_track = 63, cylinder_count = 100, write_precompensation = 0, control = 8\<rparr>"

definition demo_hd :: hd_state where
  "demo_hd = \<lparr>bufs = \<lparr>slots = [\<lparr>slot_key = Some \<lparr>key_dev = 0x301, key_block = 5\<rparr>, ref_count = 1, dirty = True,
       up_to_date = True, io_locked = False, slot_data = replicate BLOCK_SIZE 0\<rparr>], order = [0],
       buffer_index = [(\<lparr>key_dev = 0x301, key_block = 5\<rparr>, 0)], dev_blocks = (\<lambda>k. replicate BLOCK_SIZE 0),
       registered = (\<lambda>ma. ma = 3), io_error = (\<lambda>ty k. False)\<rparr>,
     mgr = BlockManager_new\<lparr>queues := (queues BlockManager_new)[HARD_DISK_MAJOR := Some None]\<rparr>,
     ata = \<lparr>drives = [Some (from_geometry demo_geometry), None], setup_completed = True, recovery = Ready, phase = NoInterrupt\<rparr>,
     answers = (\<lambda>n. 0x58), polls = 0, sectors_in = (\<lambda>n. []), sectors_read = 0, ports = [], sectors_out = []\<rparr>"

lemma demo_hd_reachable: "hd_reachable demo_hd"
proof (rule hd_reachable.boot)
  have "calm demo_hd"
    by (auto simp: calm_def demo_hd_def STATUS_BUSY_def MAX_DRIVE_COUNT_def from_geometry_def demo_geometry_def
        intro: exI [of _ 0])
  then show "hd_booted demo_hd"
    by (simp add: hd_booted_def demo_hd_def register_driver_def BlockManager_new_def BLOCK_DEVICE_SLOT_COUNT_def HARD_DISK_MAJOR_def)
qed

theorem hd_request_never_stranded_witness:
  "\<exists>s'. hd_queue (submit_request Write False 0) demo_hd = Some (Ok (), s') \<and> hd_reachable s'"
  using hd_request_never_stranded [OF demo_hd_reachable, of Write False 0] by blast

section \<open>Addressing\<close>

lemma chs_split:
  assumes "0 < S" "0 < H" "a < H * S * (C :: nat)"
  shows "(a div S div H * H + a div S mod H) * S + a mod S = a" "a div S div H < C"
proof -
  show "(a div S div H * H + a div S mod H) * S + a mod S = a" by simp
  have "a < C * H * S" using assms(3) by (simp add: ac_simps)
  then have "a div S < C * H" using assms(1) by (simp add: less_mult_imp_div_less)
  then show "a div S div H < C" by (simp add: less_mult_imp_div_less)
qed

lemma ucast_small: "unat (w :: u32) < 2 ^ LENGTH('b) \<Longrightarrow> unat (ucast w :: 'b::len word) = unat w"
  by (simp add: unsigned_ucast_eq take_bit_nat_eq_self)

lemma bios_geometry_small:
  assumes "from_bios_entry bs = Some g"
  shows "unat (head_count g) < 256" "unat (sectors_per_track g) < 256"
proof -
  have "unat (ucast (b :: u8) :: u16) < 256" for b
    using unat_less_exp [of b] by (simp add: unsigned_ucast_eq take_bit_nat_eq_self)
  with assms show "unat (head_count g) < 256" "unat (sectors_per_track g) < 256"
    by (auto simp: from_bios_entry_def Let_def split: if_splits)
qed

text \<open>The registers of one absolute sector.\<close>

lemma chs_registers:
  fixes a :: u32 and heads spt cyls :: u16
  assumes "spt \<noteq> 0" "heads \<noteq> 0" "unat heads < 256" "unat spt < 256" "unat a < unat heads * unat spt * unat cyls"
  shows "unat (ucast (a mod ucast spt + 1) :: u8) = unat a mod unat spt + 1"
    "unat (ucast (a div ucast spt mod ucast heads) :: u8) = unat a div unat spt mod unat heads"
    "unat (ucast (a div ucast spt div ucast heads) :: u16) = unat a div unat spt div unat heads"
proof -
  have nz: "0 < unat spt" "0 < unat heads" using assms(1,2) by (simp_all add: unat_gt_0)
  have m: "unat (a mod ucast spt) = unat a mod unat spt" by (simp add: unat_mod_distrib ucast_u16_u32(2))
  have dv: "unat (a div ucast spt) = unat a div unat spt" by (simp add: unat_div_distrib ucast_u16_u32(2))
  have lt: "unat a mod unat spt < unat spt" "unat a div unat spt mod unat heads < unat heads" using nz by simp_all
  have "unat (a mod ucast spt + 1) = unat a mod unat spt + 1"
    using lt(1) assms(4) m unat_sum [of "a mod ucast spt" 1] by simp
  with lt(1) assms(4) show "unat (ucast (a mod ucast spt + 1) :: u8) = unat a mod unat spt + 1" by (simp add: ucast_small)
  have "unat (a div ucast spt mod ucast heads) = unat a div unat spt mod unat heads"
    by (simp add: unat_mod_distrib dv ucast_u16_u32(2))
  with lt(2) assms(3) show "unat (ucast (a div ucast spt mod ucast heads) :: u8) = unat a div unat spt mod unat heads"
    by (simp add: ucast_small)
  have "unat (a div ucast spt div ucast heads) = unat a div unat spt div unat heads"
    by (simp add: unat_div_distrib dv ucast_u16_u32(2))
  moreover have "unat a div unat spt div unat heads < unat cyls" by (rule chs_split(2) [OF nz assms(5)])
  ultimately show "unat (ucast (a div ucast spt div ucast heads) :: u16) = unat a div unat spt div unat heads"
    using unat_less_exp [of cyls] by (simp add: ucast_small)
qed

text \<open>
  (C34) A request that the driver accepts is sent to the sector it means: cylinder, head and sector
  of the task file give back the start of the partition plus the request's position, they are within
  the geometry of the drive, and the whole transfer stays inside the partition.  The geometry comes
  from the BIOS table, and the partition is one that ends on the disk.
\<close>

theorem translate_request_in_partition:
  assumes "translate_request r d = Ok (g, tf, ph)" "find_partition (req_minor r) d = Some (di, drive, p)"
    and "from_bios_entry bs = Some (geometry drive)" "req_remaining r \<noteq> 0"
    and "unat (start_sector p) + unat (part_sectors p) \<le> unat (head_count g) * unat (sectors_per_track g) * unat (cylinder_count g)"
  shows "(unat (cylinder tf) * unat (head_count g) + unat (head tf)) * unat (sectors_per_track g) + (unat (sector tf) - 1)
      = unat (start_sector p) + unat (req_next_sector r)
    \<and> unat (head tf) < unat (head_count g) \<and> 1 \<le> unat (sector tf) \<and> unat (sector tf) \<le> unat (sectors_per_track g)
    \<and> unat (cylinder tf) < unat (cylinder_count g)
    \<and> unat (req_next_sector r) + unat (req_remaining r) \<le> unat (part_sectors p) \<and> drive_index tf = di"
proof -
  from assms(1) obtain a where t: "di = drive_index tf" "g = geometry drive"
    "checked_add (start_sector p) (req_next_sector r) = Some a"
    "unat (req_next_sector r) + unat (req_remaining r) \<le> unat (part_sectors p)"
    "sectors_per_track g \<noteq> 0" "head_count g \<noteq> 0"
    "sector tf = ucast (a mod ucast (sectors_per_track g) + 1)"
    "head tf = ucast (a div ucast (sectors_per_track g) mod ucast (head_count g))"
    "cylinder tf = ucast (a div ucast (sectors_per_track g) div ucast (head_count g))"
    by (rule translate_ok) (use assms(2) in \<open>auto intro: that\<close>)
  have ua: "unat a = unat (start_sector p) + unat (req_next_sector r)"
    using t(3) unat_sum by (auto simp: checked_add_def split: if_splits)
  have "0 < unat (req_remaining r)" using assms(4) by (simp add: unat_gt_0)
  then have lt: "unat a < unat (head_count g) * unat (sectors_per_track g) * unat (cylinder_count g)"
    using ua t(4) assms(5) by linarith
  note small = bios_geometry_small [OF assms(3), folded t(2)]
  have nz: "0 < unat (sectors_per_track g)" "0 < unat (head_count g)" using t(5,6) by (simp_all add: unat_gt_0)
  note reg = chs_registers [OF t(5,6) small lt, folded t(7-9)]
  show ?thesis
    using chs_split [OF nz lt] nz t(1,4) ua by (simp add: reg Suc_leI)
qed

theorem translate_request_in_partition_witness:
  "\<exists>tf. translate_request \<lparr>req_ty = Read, req_minor = 0, req_next_sector = 2000, req_remaining = 2, req_data_addr = 0\<rparr> (ata demo_hd)
     = Ok (demo_geometry, tf, Reading)
   \<and> (unat (cylinder tf) * 16 + unat (head tf)) * 63 + (unat (sector tf) - 1) = 2000"
proof -
  let ?r = "\<lparr>req_ty = Read, req_minor = 0, req_next_sector = 2000, req_remaining = 2, req_data_addr = 0\<rparr>"
  let ?p = "\<lparr>start_sector = 0, part_sectors = 100800\<rparr>"
  let ?bios = "[100, 0, 16, 0, 0, 0, 0, 0, 8, 0, 0, 0, 0, 0, 63, 0]"
  have total: "total_sectors demo_geometry = 100800"
    by (simp add: total_sectors_def demo_geometry_def saturating_mul_def)
  have 2: "find_partition (req_minor ?r) (ata demo_hd) = Some (0, from_geometry demo_geometry, ?p)"
    by (simp add: find_partition_def demo_hd_def from_geometry_def total)
  have 1: "translate_request ?r (ata demo_hd) = Ok (demo_geometry, \<lparr>drive_index = 0, tf_sector_count = 2, sector = 48,
     head = 15, cylinder = 1, command = ReadSectors\<rparr>, Reading)"
    using 2 by (simp add: translate_request_def checked_add_def from_geometry_def demo_geometry_def Let_def)
  have 3: "from_bios_entry ?bios = Some (geometry (from_geometry demo_geometry))" 
    by (simp add: from_bios_entry_def field_def u16_of_def from_geometry_def demo_geometry_def Let_def)
  have 4: "unat (start_sector ?p) + unat (part_sectors ?p)
      \<le> unat (head_count demo_geometry) * unat (sectors_per_track demo_geometry) * unat (cylinder_count demo_geometry)"
    by (simp add: demo_geometry_def)
  from translate_request_in_partition [OF 1 2 3 _ 4] 1 show ?thesis by (simp add: demo_geometry_def)
qed

end
