(* ===== verification/Vfs.thy ===== *)
theory Vfs
  imports Minix_Dir User_Access
begin

text \<open>
  The runtime side of the file system: mounted instances of the Minix file system with their inode
  tables on disk, the table of cached inodes and the mount table (\<open>kernel/src/fs/minix.rs\<close>,
  \<open>mount.rs\<close>).  The state \<open>vfs\<close> holds all devices; an operation on one inode runs on the \<open>inode_state\<close>
  of \<open>Minix_File\<close> cut out of it.
\<close>

section \<open>An instance of the file system\<close>

definition MINIX_BITMAP_BLOCK_CAPACITY :: nat where "MINIX_BITMAP_BLOCK_CAPACITY = 8"

definition inode_block_position :: "MinixFileSystem \<Rightarrow> u16 \<Rightarrow> nat \<times> nat" where
  "inode_block_position f n =
     (let index = unat (n - 1) in
      (2 + unat (inode_bitmap_block_count (super_block f)) + unat (zone_bitmap_block_count (super_block f))
         + index div INODES_PER_BLOCK, index mod INODES_PER_BLOCK))"

definition read_inode :: "MinixFileSystem \<Rightarrow> u16 \<Rightarrow> (store, DiskInode) op" where
  "read_inode f n st =
     (case inode_block_position f n of (block_number, offset) \<Rightarrow>
        if readable st block_number then (Ok (view_entry disk_inode_of 32 (blocks st block_number) offset), st)
        else (Panic, st))"

definition write_inode :: "MinixFileSystem \<Rightarrow> u16 \<Rightarrow> DiskInode \<Rightarrow> (store, unit) op" where
  "write_inode f n d st =
     (case inode_block_position f n of (block_number, offset) \<Rightarrow>
        if readable st block_number
        then (Ok (), store_modify block_number (\<lambda>bs. view_update disk_inode_bytes 32 bs offset d) st)
        else (Panic, st))"

definition alloc_inode :: "MinixFileSystem \<Rightarrow> (store, u16 option) op" where
  "alloc_inode f =
     bind_op (bitmap_alloc (inode_bitmap f)) (\<lambda>r s.
       case r of
         None \<Rightarrow> (Ok None, s)
       | Some x \<Rightarrow> bind_op (write_inode f (ucast x) zeroed) (\<lambda>_ s. (Ok (Some (ucast x)), s)) s)"

definition free_inode :: "MinixFileSystem \<Rightarrow> u16 \<Rightarrow> (store, unit) op" where
  "free_inode f n =
     bind_op (write_inode f n zeroed) (\<lambda>_. bitmap_dealloc (inode_bitmap f) (ucast n))"

text \<open>
  \<open>MinixFileSystem::open\<close>.  The number of zone bits is computed in \<open>usize\<close>, which has 32 bits; a super
  block whose first data zone lies behind its last zone wraps it.
\<close>

definition fs_open :: "u16 \<Rightarrow> (store, MinixFileSystem option) op" where
  "fs_open dev st =
     (if \<not> readable st 1 then (Ok None, st)
      else
        let sb = super_block_of (blocks st 1);
            ni = unat (inode_bitmap_block_count sb); nz = unat (zone_bitmap_block_count sb);
            ibufs = [2..<2 + ni]; zbufs = [2 + ni..<2 + ni + nz]
        in if magic sb \<noteq> MINIX_SUPER_MAGIC \<or> log_zone_size sb \<noteq> 0 \<or> \<not> (\<forall>k\<in>set (ibufs @ zbufs). readable st k)
           then (Ok None, st)
           else
             bind_op (bitmap_new MINIX_BITMAP_BLOCK_CAPACITY 0 ibufs (unat (inode_count sb) + 1)) (\<lambda>ib.
             bind_op (bitmap_new MINIX_BITMAP_BLOCK_CAPACITY (ucast (first_data_zone sb) - 1) zbufs
                 (unat ((ucast (zone_count sb) :: u32) - ucast (first_data_zone sb) + 1))) (\<lambda>zb s.
               (Ok (Some \<lparr>device = dev, super_block = sb, inode_bitmap = ib, zone_bitmap = zb\<rparr>), s))) st)"

section \<open>The state of all file systems\<close>

record InodeId =
  id_device :: u16
  id_number :: u16

text \<open>
  A cached inode refers to its file system by the number of the instance, which stands for the weak
  pointer: \<open>instances\<close> has no entry once the instance is gone.  \<open>refs\<close> counts the handles on a cached
  inode outside the table, that is its strong count less one.
\<close>

record cached =
  cached_id :: InodeId
  fs_ref :: nat
  cached_inner :: InodeInner

record Mount =
  mnt_device :: u16
  mnt_fs :: nat
  root_inode :: InodeId
  mount_point_inode :: "InodeId option"

record task_context =
  root_directory :: "InodeId option"
  current_directory :: "InodeId option"
  ctx_uid :: u16
  ctx_euid :: u16
  ctx_gid :: u16
  ctx_egid :: u16
  umask :: u16

record vfs =
  stores :: "u16 \<Rightarrow> store"
  instances :: "MinixFileSystem option list"
  mounts :: "Mount option list"
  inode_slots :: "cached option list"
  clock :: nat
  refs :: "InodeId \<Rightarrow> nat"
  ctx :: task_context
  now :: u32

definition INODE_TABLE_CAPACITY :: nat where "INODE_TABLE_CAPACITY = 32"
definition MOUNT_TABLE_CAPACITY :: nat where "MOUNT_TABLE_CAPACITY = 8"

definition upgrade :: "nat \<Rightarrow> vfs \<Rightarrow> MinixFileSystem option" where
  "upgrade n v = (if n < length (instances v) then instances v ! n else None)"

definition on_store :: "u16 \<Rightarrow> (store, 'a) op \<Rightarrow> (vfs, 'a) op" where
  "on_store dev m v = (case m (stores v dev) of (r, st) \<Rightarrow> (r, v\<lparr>stores := (stores v)(dev := st)\<rparr>))"

definition clone_ref :: "InodeId \<Rightarrow> vfs \<Rightarrow> vfs" where
  "clone_ref i v = v\<lparr>refs := (refs v)(i := Suc (refs v i))\<rparr>"

definition drop_ref :: "InodeId \<Rightarrow> vfs \<Rightarrow> vfs" where
  "drop_ref i v = v\<lparr>refs := (refs v)(i := refs v i - 1)\<rparr>"

definition slot_of :: "InodeId \<Rightarrow> vfs \<Rightarrow> nat option" where
  "slot_of i v =
     find (\<lambda>k. case inode_slots v ! k of Some c \<Rightarrow> cached_id c = i | None \<Rightarrow> False) [0..<length (inode_slots v)]"

text \<open>An inode method: it works on the inode, the blocks of its device and its file system.\<close>

definition slot_state :: "cached \<Rightarrow> vfs \<Rightarrow> inode_state" where
  "slot_state c v = \<lparr>disk = stores v (id_device (cached_id c)), file_system = upgrade (fs_ref c) v,
     current_time = now v, inner = cached_inner c\<rparr>"

definition run_slot :: "nat \<Rightarrow> (inode_state, 'a) op \<Rightarrow> (vfs, 'a) op" where
  "run_slot k f v =
     (case inode_slots v ! k of
        None \<Rightarrow> (Panic, v)
      | Some c \<Rightarrow>
          (case f (slot_state c v) of (r, s) \<Rightarrow>
             (r, v\<lparr>stores := (stores v)(id_device (cached_id c) := disk s),
                   inode_slots := (inode_slots v)[k := Some (c\<lparr>cached_inner := inner s\<rparr>)]\<rparr>)))"

definition run_inode :: "InodeId \<Rightarrow> (inode_state, 'a) op \<Rightarrow> (vfs, 'a) op" where
  "run_inode i f v = (case slot_of i v of None \<Rightarrow> (Panic, v) | Some k \<Rightarrow> run_slot k f v)"

text \<open>\<open>Inode::sync\<close>, \<open>file_type\<close>, \<open>stat\<close> and \<open>device_number\<close>.\<close>

definition inode_sync :: "u16 \<Rightarrow> (inode_state, unit) op" where
  "inode_sync n s =
     (if \<not> is_dirty (inner s) then (Ok (), s)
      else case file_system s of
        None \<Rightarrow> (Ok (), s)
      | Some f \<Rightarrow>
          bind_op (lift_store (write_inode f n (disk_inode (inner s))))
            (\<lambda>_ s. (Ok (), set_inode (\<lambda>i. i\<lparr>is_dirty := False\<rparr>) s)) s)"

definition inode_file_type :: "(inode_state, InodeType) op" where
  "inode_file_type s =
     (case file_type (mode (disk_inode (inner s))) of Some t \<Rightarrow> (Ok t, s) | None \<Rightarrow> (Panic, s))"

definition device_number :: "(inode_state, u16) op" where
  "device_number =
     bind_op inode_file_type (\<lambda>t s.
       if t = BlockDevice \<or> t = CharacterDevice then (Ok (direct_zones (disk_inode (inner s)) ! 0), s) else (Panic, s))"

record Stat =
  st_dev :: u16
  st_ino :: u16
  st_mode :: u16
  st_nlink :: u8
  st_uid :: u16
  st_gid :: u8
  st_rdev :: u16
  st_size :: u32
  st_atime :: u32
  st_mtime :: u32
  st_ctime :: u32

definition inode_stat :: "InodeId \<Rightarrow> (inode_state, Stat) op" where
  "inode_stat i =
     bind_op inode_file_type (\<lambda>t s.
       let d = disk_inode (inner s) in
       (Ok \<lparr>st_dev = id_device i, st_ino = id_number i, st_mode = mode d, st_nlink = link_count d,
            st_uid = user_id d, st_gid = group_id d,
            st_rdev = (if t = BlockDevice \<or> t = CharacterDevice then direct_zones d ! 0 else 0),
            st_size = file_size d, st_atime = access_time (inner s), st_mtime = modification_time d,
            st_ctime = change_time (inner s)\<rparr>, s))"

section \<open>The inode table\<close>

definition flush_slot :: "nat \<Rightarrow> (vfs, unit) op" where
  "flush_slot k v =
     (case inode_slots v ! k of
        None \<Rightarrow> (Panic, v)
      | Some c \<Rightarrow>
          bind_op
            (if link_count (disk_inode (cached_inner c)) = 0 then
               bind_op (run_slot k Minix_File.truncate) (\<lambda>_ v.
                 case upgrade (fs_ref c) v of
                   None \<Rightarrow> (Ok (), v)
                 | Some f \<Rightarrow> on_store (id_device (cached_id c)) (free_inode f (id_number (cached_id c))) v)
             else run_slot k (inode_sync (id_number (cached_id c))))
            (\<lambda>_ v. (Ok (), v\<lparr>inode_slots := (inode_slots v)[k := None]\<rparr>)) v)"

text \<open>\<open>find_victim\<close>: the clock scan over unreferenced slots, the first clean one if there is any.\<close>

fun find_victim :: "nat list \<Rightarrow> nat option \<Rightarrow> vfs \<Rightarrow> nat option" where
  "find_victim [] dirty_fallback v = dirty_fallback"
| "find_victim (k # ks) dirty_fallback v =
     (case inode_slots v ! k of
        None \<Rightarrow> find_victim ks dirty_fallback v
      | Some c \<Rightarrow>
          if refs v (cached_id c) \<noteq> 0 then find_victim ks dirty_fallback v
          else if \<not> is_dirty (cached_inner c) then Some k
          else find_victim ks (case dirty_fallback of None \<Rightarrow> Some k | Some j \<Rightarrow> Some j) v)"

definition clock_order :: "vfs \<Rightarrow> nat list" where
  "clock_order v = map (\<lambda>offset. (clock v + offset) mod INODE_TABLE_CAPACITY) [0..<INODE_TABLE_CAPACITY]"

definition install :: "cached \<Rightarrow> (vfs, unit) op" where
  "install c v =
     (case find (\<lambda>k. inode_slots v ! k = None) [0..<length (inode_slots v)] of
        Some k \<Rightarrow> (Ok (), v\<lparr>inode_slots := (inode_slots v)[k := Some c]\<rparr>)
      | None \<Rightarrow>
          (case find_victim (clock_order v) None v of
             None \<Rightarrow> (Panic, v)
           | Some k \<Rightarrow>
               bind_op (flush_slot k) (\<lambda>_ v.
                 (Ok (), v\<lparr>inode_slots := (inode_slots v)[k := Some c], clock := (k + 1) mod INODE_TABLE_CAPACITY\<rparr>)) v))"

definition acquire_raw :: "InodeId \<Rightarrow> nat \<Rightarrow> (vfs, unit) op" where
  "acquire_raw i n v =
     (if id_device i = 0 then (Panic, v)
      else case slot_of i v of
        Some _ \<Rightarrow> (Ok (), clone_ref i v)
      | None \<Rightarrow>
          (case upgrade n v of
             None \<Rightarrow> (Panic, v)
           | Some f \<Rightarrow>
               bind_op (on_store (device f) (read_inode f (id_number i))) (\<lambda>d.
               bind_op (install \<lparr>cached_id = i, fs_ref = n,
                   cached_inner = \<lparr>disk_inode = d, is_dirty = False, access_time = 0, change_time = 0\<rparr>\<rparr>) (\<lambda>_ v.
                 (Ok (), clone_ref i v))) v))"

definition sync_inodes :: "(vfs, unit) op" where
  "sync_inodes v =
     for_op (\<lambda>k v. case inode_slots v ! k of
        None \<Rightarrow> (Ok (), v)
      | Some c \<Rightarrow> run_slot k (inode_sync (id_number (cached_id c))) v) [0..<length (inode_slots v)] v"

definition has_active_inodes :: "u16 \<Rightarrow> vfs \<Rightarrow> bool" where
  "has_active_inodes dev v \<longleftrightarrow>
     list_ex (\<lambda>slot. case slot of None \<Rightarrow> False | Some c \<Rightarrow> id_device (cached_id c) = dev \<and> 0 < refs v (cached_id c)) (inode_slots v)"

definition evict_device :: "u16 \<Rightarrow> (vfs, unit) op" where
  "evict_device dev =
     for_op (\<lambda>k v. case inode_slots v ! k of
        None \<Rightarrow> (Ok (), v)
      | Some c \<Rightarrow> if id_device (cached_id c) = dev then flush_slot k v else (Ok (), v)) [0..<INODE_TABLE_CAPACITY]"

section \<open>Mounts\<close>

definition find_mount :: "(Mount \<Rightarrow> 'a option) \<Rightarrow> vfs \<Rightarrow> 'a option" where
  "find_mount g v =
     (case filter (\<lambda>x. x \<noteq> None) (map (\<lambda>slot. Option.bind slot g) (mounts v)) of [] \<Rightarrow> None | x # _ \<Rightarrow> x)"

definition find_fs :: "u16 \<Rightarrow> vfs \<Rightarrow> nat option" where
  "find_fs dev = find_mount (\<lambda>m. if mnt_device m = dev then Some (mnt_fs m) else None)"

definition mounted_root_at :: "InodeId \<Rightarrow> vfs \<Rightarrow> InodeId option" where
  "mounted_root_at i = find_mount (\<lambda>m. if mount_point_inode m = Some i then Some (root_inode m) else None)"

definition mount_point_for_root :: "InodeId \<Rightarrow> vfs \<Rightarrow> InodeId option" where
  "mount_point_for_root i = find_mount (\<lambda>m. if root_inode m = i then mount_point_inode m else None)"

definition mount_insert :: "Mount \<Rightarrow> vfs \<Rightarrow> vfs option" where
  "mount_insert m v =
     map_option (\<lambda>k. v\<lparr>mounts := (mounts v)[k := Some m]\<rparr>)
       (find (\<lambda>k. mounts v ! k = None) [0..<length (mounts v)])"

definition remove_by_device :: "u16 \<Rightarrow> vfs \<Rightarrow> (Mount \<times> vfs) option" where
  "remove_by_device dev v =
     (case find (\<lambda>k. case mounts v ! k of Some m \<Rightarrow> mnt_device m = dev | None \<Rightarrow> False) [0..<length (mounts v)] of
        None \<Rightarrow> None
      | Some k \<Rightarrow> map_option (\<lambda>m. (m, v\<lparr>mounts := (mounts v)[k := None]\<rparr>)) (mounts v ! k))"

text \<open>
  \<open>resolve_inode\<close> follows mount points.  The fuel bounds the number of mounts followed; the mount
  table has no more entries, and with mount points that are no roots one step is enough.
\<close>

fun resolve_loop :: "nat \<Rightarrow> InodeId \<Rightarrow> (vfs, InodeId) op" where
  "resolve_loop 0 i v = (Panic, v)"
| "resolve_loop (Suc fuel) i v =
     (case find_fs (id_device i) v of
        None \<Rightarrow> (Panic, v)
      | Some n \<Rightarrow>
          bind_op (acquire_raw i n) (\<lambda>_ v.
            case mounted_root_at i v of
              None \<Rightarrow> (Ok i, v)
            | Some r \<Rightarrow> resolve_loop fuel r (drop_ref i v)) v)"

definition resolve_inode :: "InodeId \<Rightarrow> (vfs, InodeId) op" where
  "resolve_inode i v =
     (if id_device i = 0 then (Panic, v) else resolve_loop (Suc MOUNT_TABLE_CAPACITY) i v)"

text \<open>\<open>fs::sync\<close>: the write-back of the buffers that follows does not change what the store presents.\<close>

definition vfs_sync :: "(vfs, unit) op" where
  "vfs_sync = sync_inodes"

section \<open>Creating inodes\<close>

definition alloc_and_link :: "InodeId \<Rightarrow> u8 list \<Rightarrow> u16 \<Rightarrow> u16 \<Rightarrow> u8 \<Rightarrow> (vfs, InodeId) op" where
  "alloc_and_link dir name type_bits perm links v =
     (case slot_of dir v of
        None \<Rightarrow> (Panic, v)
      | Some k \<Rightarrow>
        (case inode_slots v ! k of
           None \<Rightarrow> (Panic, v)
         | Some c \<Rightarrow>
           (case upgrade (fs_ref c) v of
              None \<Rightarrow> (Err Errno_IO, v)
            | Some f \<Rightarrow>
                bind_op (on_store (device f) (alloc_inode f)) (\<lambda>r v.
                  case r of
                    None \<Rightarrow> (Err Errno_NOSPC, v)
                  | Some n \<Rightarrow>
                      let i = \<lparr>id_device = id_device dir, id_number = n\<rparr> in
                      bind_op (acquire_raw i (fs_ref c)) (\<lambda>_.
                      bind_op (run_inode i (\<lambda>s. (Ok (), set_inode (touch_created (current_time s))
                        (set_disk_inode (\<lambda>d. d\<lparr>mode := type_bits OR (perm AND 0x1FF AND NOT (umask (ctx v))),
                           user_id := ctx_euid (ctx v), group_id := ucast (ctx_egid (ctx v)), link_count := links\<rparr>) s)))) (\<lambda>_ v.
                        case run_inode dir (add_entry name n) v of
                          (Ok _, v1) \<Rightarrow> (Ok i, v1)
                        | (Err e, v1) \<Rightarrow>
                            bind_op (run_inode i (\<lambda>s. (Ok (), set_inode (touch_change (current_time s))
                              (set_disk_inode (\<lambda>d. d\<lparr>link_count := 0\<rparr>) s)))) (\<lambda>_ v. (Err e, drop_ref i v)) v1
                        | (Panic, v1) \<Rightarrow> (Panic, v1))) v) v)))"

definition create_file :: "InodeId \<Rightarrow> u8 list \<Rightarrow> u16 \<Rightarrow> (vfs, InodeId) op" where
  "create_file dir name perm = alloc_and_link dir name 0x8000 perm 1"

definition create_device :: "InodeId \<Rightarrow> u8 list \<Rightarrow> u16 \<Rightarrow> u16 \<Rightarrow> u16 \<Rightarrow> (vfs, InodeId) op" where
  "create_device dir name type_bits perm dev =
     bind_op (alloc_and_link dir name type_bits perm 1) (\<lambda>i.
     bind_op (run_inode i (\<lambda>s. (Ok (), set_inode (touch_change (current_time s))
       (set_disk_inode (\<lambda>d. d\<lparr>direct_zones := (direct_zones d)[0 := dev]\<rparr>) s)))) (\<lambda>_ v. (Ok i, v)))"

text \<open>A failure after the entry was added leaves the new directory linked; its handle is dropped.\<close>

definition create_directory :: "InodeId \<Rightarrow> u8 list \<Rightarrow> u16 \<Rightarrow> (vfs, InodeId) op" where
  "create_directory dir name perm =
     bind_op (alloc_and_link dir name 0x4000 perm 2) (\<lambda>i v.
       case bind_op (run_inode i (add_entry [0x2E] (id_number i))) (\<lambda>_.
            run_inode i (add_entry [0x2E, 0x2E] (id_number dir))) v of
         (Ok _, v1) \<Rightarrow>
           bind_op (run_inode dir (\<lambda>s. (Ok (), set_inode (touch_change (current_time s))
             (set_disk_inode (\<lambda>d. d\<lparr>link_count := link_count d + 1\<rparr>) s)))) (\<lambda>_ v. (Ok i, v)) v1
       | (Err e, v1) \<Rightarrow> (Err e, drop_ref i v1)
       | (Panic, v1) \<Rightarrow> (Panic, v1))"

end
