(* ===== verification/Fs_Path.thy ===== *)
theory Fs_Path
  imports Vfs
begin

text \<open>
  Pathnames (\<open>kernel/src/fs/path.rs\<close>): parsing, permission checks and resolution.  A \<^verbatim>\<open>String\<close> is its
  UTF-8 bytes; slicing it at an offset that is not the start of a character panics.
\<close>

section \<open>Strings\<close>

text \<open>\<open>read_string\<close> pushes each byte as a character, so a byte from 128 on becomes two bytes.\<close>

definition push_char :: "u8 \<Rightarrow> u8 list" where
  "push_char b = (if b < 0x80 then [b] else [0xC0 OR drop_bit 6 b, 0x80 OR (b AND 0x3F)])"

definition str :: "u8 list \<Rightarrow> u8 list" where
  "str chars = concat (map push_char chars)"

definition continuation :: "u8 \<Rightarrow> bool" where
  "continuation b \<longleftrightarrow> b AND 0xC0 = 0x80"

definition is_char_boundary :: "u8 list \<Rightarrow> nat \<Rightarrow> bool" where
  "is_char_boundary s i \<longleftrightarrow> i = 0 \<or> i = length s \<or> i < length s \<and> \<not> continuation (s ! i)"

definition slice_to :: "u8 list \<Rightarrow> nat \<Rightarrow> u8 list outcome" where
  "slice_to s i = (if is_char_boundary s i then Ok (take i s) else Panic)"

abbreviation SLASH :: u8 where "SLASH \<equiv> 0x2F"
abbreviation DOT :: u8 where "DOT \<equiv> 0x2E"

fun split_slash :: "u8 list \<Rightarrow> u8 list list" where
  "split_slash [] = [[]]"
| "split_slash (b # bs) =
     (if b = SLASH then [] # split_slash bs
      else (case split_slash bs of [] \<Rightarrow> [[b]] | p # ps \<Rightarrow> (b # p) # ps))"

section \<open>Pathnames\<close>

datatype PathComponent = Current | Parent | Name "u8 list"

definition from_raw :: "u8 list \<Rightarrow> PathComponent" where
  "from_raw c = (if c = [DOT] then Current else if c = [DOT, DOT] then Parent else Name c)"

definition PathComponents :: "u8 list \<Rightarrow> PathComponent list" where
  "PathComponents raw = map from_raw (filter (\<lambda>c. c \<noteq> []) (split_slash raw))"

definition is_absolute :: "u8 list \<Rightarrow> bool" where
  "is_absolute raw \<longleftrightarrow> raw \<noteq> [] \<and> hd raw = SLASH"

definition has_trailing_slash :: "u8 list \<Rightarrow> bool" where
  "has_trailing_slash raw \<longleftrightarrow> raw \<noteq> [] \<and> last raw = SLASH"

text \<open>\<open>rfind\<close> returns the offset at which the last matching character starts.\<close>

definition rfind :: "(u8 \<Rightarrow> bool) \<Rightarrow> u8 list \<Rightarrow> nat option" where
  "rfind p s = rposition (\<lambda>b. \<not> continuation b \<and> p b) s"

definition parent_path :: "u8 list \<Rightarrow> (PathComponent list \<times> u8 list) outcome" where
  "parent_path raw =
     (if has_trailing_slash raw then Ok (PathComponents raw, [])
      else
        let trimmed_end = (case rfind (\<lambda>b. b \<noteq> SLASH) raw of Some i \<Rightarrow> i + 1 | None \<Rightarrow> 0) in
        case slice_to raw trimmed_end of
          Ok without_trailing_separators \<Rightarrow>
            let basename_start = (case rfind (\<lambda>b. b = SLASH) without_trailing_separators of Some i \<Rightarrow> i + 1 | None \<Rightarrow> 0) in
            (case slice_to raw basename_start of
               Ok parent \<Rightarrow> Ok (PathComponents parent, drop basename_start without_trailing_separators)
             | Err e \<Rightarrow> Err e
             | Panic \<Rightarrow> Panic)
        | Err e \<Rightarrow> Err e
        | Panic \<Rightarrow> Panic)"

section \<open>Permissions\<close>

definition MAY_EXEC :: u16 where "MAY_EXEC = 1"
definition MAY_WRITE :: u16 where "MAY_WRITE = 2"
definition MAY_READ :: u16 where "MAY_READ = 4"

definition check_permission_as :: "u16 \<Rightarrow> u16 \<Rightarrow> u16 \<Rightarrow> (inode_state, bool) op" where
  "check_permission_as want uid gid s =
     (let d = disk_inode (inner s) in
      (Ok (if link_count d = 0 then False
           else
             let m = (if uid = user_id d then drop_bit 6 (mode d)
                      else if gid = ucast (group_id d) then drop_bit 3 (mode d) else mode d)
             in m AND want AND 7 = want \<or> uid = 0), s))"

definition check_permission :: "InodeId \<Rightarrow> u16 \<Rightarrow> (vfs, bool) op" where
  "check_permission i want v = run_inode i (check_permission_as want (ctx_euid (ctx v)) (ctx_egid (ctx v))) v"

section \<open>Resolution\<close>

text \<open>
  A resolved inode is returned with a reference of its own; the references held on the way are
  dropped.  \<open>None\<close> is the \<^verbatim>\<open>None\<close> of the code, which hides every error of a lookup.
\<close>

definition lookup_or_none :: "InodeId \<Rightarrow> u8 list \<Rightarrow> (vfs, u16 option) op" where
  "lookup_or_none i name v =
     (case run_inode i (lookup name) v of
        (Err _, v1) \<Rightarrow> (Ok None, v1)
      | r \<Rightarrow> r)"

definition resolve_dotdot :: "InodeId \<Rightarrow> InodeId \<Rightarrow> (vfs, InodeId option) op" where
  "resolve_dotdot cur root v =
     (if cur = root then (Ok (Some root), clone_ref root v)
      else
        let base = (case mount_point_for_root cur v of Some m \<Rightarrow> m | None \<Rightarrow> cur) in
        bind_op (lookup_or_none base [DOT, DOT]) (\<lambda>r v.
          case r of
            None \<Rightarrow> (Ok None, v)
          | Some n \<Rightarrow>
              bind_op (resolve_inode \<lparr>id_device = id_device base, id_number = n\<rparr>) (\<lambda>i v. (Ok (Some i), v)) v) v)"

definition may_search :: "InodeId \<Rightarrow> (vfs, bool) op" where
  "may_search i =
     bind_op (run_inode i inode_file_type) (\<lambda>t v.
       if t \<noteq> Directory then (Ok False, v) else check_permission i MAY_EXEC v)"

fun walk :: "InodeId \<Rightarrow> PathComponent list \<Rightarrow> InodeId \<Rightarrow> (vfs, InodeId option) op" where
  "walk root [] cur v = (Ok (Some cur), v)"
| "walk root (c # cs) cur v =
     bind_op (may_search cur) (\<lambda>ok v.
       if \<not> ok then (Ok None, drop_ref cur v)
       else case c of
         Current \<Rightarrow> walk root cs cur v
       | Parent \<Rightarrow>
           bind_op (resolve_dotdot cur root) (\<lambda>r v.
             case r of
               None \<Rightarrow> (Ok None, drop_ref cur v)
             | Some i \<Rightarrow> walk root cs i (drop_ref cur v)) v
       | Name name \<Rightarrow>
           bind_op (lookup_or_none cur name) (\<lambda>r v.
             case r of
               None \<Rightarrow> (Ok None, drop_ref cur v)
             | Some n \<Rightarrow>
                 bind_op (resolve_inode \<lparr>id_device = id_device cur, id_number = n\<rparr>)
                   (\<lambda>i v. walk root cs i (drop_ref cur v)) v) v) v"

definition resolve_parent :: "u8 list \<Rightarrow> (vfs, (InodeId \<times> u8 list) option) op" where
  "resolve_parent raw v =
     (if raw = [] then (Ok None, v)
      else case root_directory (ctx v) of
        None \<Rightarrow> (Ok None, v)
      | Some root \<Rightarrow>
          (case (if is_absolute raw then Some root else current_directory (ctx v)) of
             None \<Rightarrow> (Ok None, v)
           | Some start \<Rightarrow>
               (case parent_path raw of
                  Panic \<Rightarrow> (Panic, v)
                | Err e \<Rightarrow> (Err e, v)
                | Ok (components, basename) \<Rightarrow>
                    bind_op (walk root components start) (\<lambda>r v.
                      case r of
                        None \<Rightarrow> (Ok None, v)
                      | Some i \<Rightarrow>
                          if basename = [] then (Ok (Some (i, basename)), v)
                          else
                            bind_op (may_search i) (\<lambda>ok v.
                              if ok then (Ok (Some (i, basename)), v) else (Ok None, drop_ref i v)) v)
                      (clone_ref start v))))"

definition resolve_path :: "u8 list \<Rightarrow> (vfs, InodeId option) op" where
  "resolve_path raw =
     bind_op (resolve_parent raw) (\<lambda>r v.
       case r of
         None \<Rightarrow> (Ok None, v)
       | Some (dir, basename) \<Rightarrow>
           bind_op
             (if basename = [] then (\<lambda>v. (Ok (Some dir), v))
              else bind_op (lookup_or_none dir basename) (\<lambda>r v.
                case r of
                  None \<Rightarrow> (Ok None, drop_ref dir v)
                | Some n \<Rightarrow>
                    bind_op (resolve_inode \<lparr>id_device = id_device dir, id_number = n\<rparr>)
                      (\<lambda>i v. (Ok (Some i), drop_ref dir v)) v))
             (\<lambda>r v.
                case r of
                  None \<Rightarrow> (Ok None, v)
                | Some i \<Rightarrow>
                    bind_op (run_inode i (\<lambda>s. (Ok (), set_inode (touch_access (current_time s)) s)))
                      (\<lambda>_ v. (Ok (Some i), v)) v) v)"

end
