(* ===== verification/Fs_Calls.thy ===== *)
theory Fs_Calls
  imports Fs_Path Buffer_Cache
begin

text \<open>
  The file system calls on names (\<open>kernel/src/syscall/handler/fs/path.rs\<close> and \<open>mount.rs\<close>).  Each handler
  takes the strings that \<open>read_pathname\<close> copied from the caller; what it writes back to user memory is
  its result.  Handles are dropped where the code drops them, at the latest when the call returns.
\<close>

section \<open>Helpers\<close>

definition require :: "bool \<Rightarrow> Errno \<Rightarrow> (vfs, unit) op" where
  "require b e v = (if b then (Ok (), v) else (Err e, v))"

text \<open>\<open>let x = expr.ok_or(e)?\<close>.\<close>

definition ok_or :: "(vfs, 'a option) op \<Rightarrow> Errno \<Rightarrow> (vfs, 'a) op" where
  "ok_or m e = bind_op m (\<lambda>r v. case r of Some x \<Rightarrow> (Ok x, v) | None \<Rightarrow> (Err e, v))"

text \<open>A block that holds a handle: it is dropped on every way out except a panic.\<close>

definition holding :: "InodeId \<Rightarrow> (vfs, 'a) op \<Rightarrow> (vfs, 'a) op" where
  "holding i m v =
     (case m v of
        (Ok a, v1) \<Rightarrow> (Ok a, drop_ref i v1)
      | (Err e, v1) \<Rightarrow> (Err e, drop_ref i v1)
      | (Panic, v1) \<Rightarrow> (Panic, v1))"

definition update_inode :: "InodeId \<Rightarrow> (u32 \<Rightarrow> InodeInner \<Rightarrow> InodeInner) \<Rightarrow> (vfs, unit) op" where
  "update_inode i g = run_inode i (\<lambda>s. (Ok (), set_inode (g (current_time s)) s))"

definition inode_of_entry :: "InodeId \<Rightarrow> u16 \<Rightarrow> InodeId" where
  "inode_of_entry dir n = \<lparr>id_device = id_device dir, id_number = n\<rparr>"

definition is_superuser :: "vfs \<Rightarrow> bool" where
  "is_superuser v \<longleftrightarrow> ctx_euid (ctx v) = 0"

definition set_links :: "(u8 \<Rightarrow> u8) \<Rightarrow> (InodeInner \<Rightarrow> InodeInner)" where
  "set_links g i = i\<lparr>disk_inode := (disk_inode i)\<lparr>link_count := g (link_count (disk_inode i))\<rparr>\<rparr>"

section \<open>Names and links\<close>

definition sys_stat :: "u8 list \<Rightarrow> (vfs, Stat) op" where
  "sys_stat path =
     bind_op (ok_or (resolve_path path) Errno_NOENT) (\<lambda>i. holding i (run_inode i (inode_stat i)))"

definition sys_link :: "u8 list \<Rightarrow> u8 list \<Rightarrow> (vfs, unit) op" where
  "sys_link oldname newname =
     bind_op (ok_or (resolve_path oldname) Errno_NOENT) (\<lambda>old. holding old (
     bind_op (run_inode old inode_file_type) (\<lambda>t.
     bind_op (require (t \<noteq> Directory) Errno_PERM) (\<lambda>_.
     bind_op (ok_or (resolve_parent newname) Errno_ACCESS) (\<lambda>(dir, basename). holding dir (
     bind_op (require (basename \<noteq> []) Errno_ACCESS) (\<lambda>_.
     bind_op (require (id_device dir = id_device old) Errno_XDEV) (\<lambda>_.
     bind_op (check_permission dir MAY_WRITE) (\<lambda>ok.
     bind_op (require ok Errno_ACCESS) (\<lambda>_.
     bind_op (run_inode dir (lookup basename)) (\<lambda>r.
     bind_op (require (r = None) Errno_EXIST) (\<lambda>_.
     bind_op (run_inode dir (add_entry basename (id_number old))) (\<lambda>_.
       update_inode old (\<lambda>t i. touch_change t (set_links (\<lambda>n. n + 1) i)))))))))))))))"

definition sys_unlink :: "u8 list \<Rightarrow> (vfs, unit) op" where
  "sys_unlink path =
     bind_op (ok_or (resolve_parent path) Errno_NOENT) (\<lambda>(dir, basename). holding dir (
     bind_op (require (basename \<noteq> []) Errno_NOENT) (\<lambda>_.
     bind_op (check_permission dir MAY_WRITE) (\<lambda>ok.
     bind_op (require ok Errno_ACCESS) (\<lambda>_.
     bind_op (ok_or (run_inode dir (lookup basename)) Errno_NOENT) (\<lambda>n.
     bind_op (resolve_inode (inode_of_entry dir n)) (\<lambda>i. holding i (
     bind_op (run_inode i inode_file_type) (\<lambda>t.
     bind_op (require (t \<noteq> Directory) Errno_ISDIR) (\<lambda>_.
     bind_op (run_inode dir (remove_entry basename)) (\<lambda>_.
       update_inode i (\<lambda>t j. touch_change t (set_links (\<lambda>n. n - 1) j)))))))))))))"

definition sys_mkdir :: "u8 list \<Rightarrow> u16 \<Rightarrow> (vfs, unit) op" where
  "sys_mkdir path perm =
     bind_op (ok_or (resolve_parent path) Errno_NOENT) (\<lambda>(dir, basename). holding dir (
     bind_op (require (basename \<noteq> []) Errno_NOENT) (\<lambda>_.
     bind_op (check_permission dir MAY_WRITE) (\<lambda>ok.
     bind_op (require ok Errno_ACCESS) (\<lambda>_.
     bind_op (run_inode dir (lookup basename)) (\<lambda>r.
     bind_op (require (r = None) Errno_EXIST) (\<lambda>_.
     bind_op (create_directory dir basename perm) (\<lambda>i v. (Ok (), drop_ref i v)))))))))"

definition sys_mknod :: "u8 list \<Rightarrow> u16 \<Rightarrow> u16 \<Rightarrow> (vfs, unit) op" where
  "sys_mknod path m dev v =
     bind_op (require (is_superuser v) Errno_PERM) (\<lambda>_.
     bind_op (ok_or (resolve_parent path) Errno_NOENT) (\<lambda>(dir, basename). holding dir (
     bind_op (require (basename \<noteq> []) Errno_NOENT) (\<lambda>_.
     bind_op (check_permission dir MAY_WRITE) (\<lambda>ok.
     bind_op (require ok Errno_ACCESS) (\<lambda>_.
     bind_op (run_inode dir (lookup basename)) (\<lambda>r.
     bind_op (require (r = None) Errno_EXIST) (\<lambda>_.
     bind_op (require (m AND TYPE_MASK = 0x6000 \<or> m AND TYPE_MASK = 0x2000) Errno_INVAL) (\<lambda>_.
     bind_op (create_device dir basename (m AND TYPE_MASK) (m AND FLAGS_MASK) dev)
       (\<lambda>i v. (Ok (), drop_ref i v))))))))))) v"

definition sys_rmdir :: "u8 list \<Rightarrow> (vfs, unit) op" where
  "sys_rmdir path =
     bind_op (ok_or (resolve_parent path) Errno_NOENT) (\<lambda>(dir, basename). holding dir (
     bind_op (require (basename \<noteq> []) Errno_NOENT) (\<lambda>_.
     bind_op (check_permission dir MAY_WRITE) (\<lambda>ok.
     bind_op (require ok Errno_ACCESS) (\<lambda>_.
     bind_op (ok_or (run_inode dir (lookup basename)) Errno_NOENT) (\<lambda>n.
     bind_op (resolve_inode (inode_of_entry dir n)) (\<lambda>i. holding i (
     bind_op (run_inode i inode_file_type) (\<lambda>t.
     bind_op (require (t = Directory) Errno_NOTDIR) (\<lambda>_.
     bind_op (run_inode i is_empty_directory) (\<lambda>is_empty.
     bind_op (require is_empty Errno_NOTEMPTY) (\<lambda>_.
     bind_op (run_inode dir (remove_entry basename)) (\<lambda>_.
     bind_op (update_inode i (\<lambda>t j. touch_change t (set_links (\<lambda>_. 0) j))) (\<lambda>_.
       update_inode dir (\<lambda>t j. touch_modified t (set_links (\<lambda>n. n - 1) j))))))))))))))))"

definition sys_chdir :: "u8 list \<Rightarrow> (vfs, unit) op" where
  "sys_chdir path =
     bind_op (ok_or (resolve_path path) Errno_NOENT) (\<lambda>i v.
       case bind_op (run_inode i inode_file_type) (\<lambda>t.
            bind_op (require (t = Directory) Errno_NOTDIR) (\<lambda>_.
            bind_op (check_permission i MAY_EXEC) (\<lambda>ok. require ok Errno_ACCESS))) v of
         (Ok _, v1) \<Rightarrow>
           (Ok (), (case current_directory (ctx v1) of Some old \<Rightarrow> drop_ref old | None \<Rightarrow> id)
              (v1\<lparr>ctx := (ctx v1)\<lparr>current_directory := Some i\<rparr>\<rparr>))
       | (Err e, v1) \<Rightarrow> (Err e, drop_ref i v1)
       | (Panic, v1) \<Rightarrow> (Panic, v1))"

definition sys_chroot :: "u8 list \<Rightarrow> (vfs, unit) op" where
  "sys_chroot path =
     bind_op (ok_or (resolve_path path) Errno_NOENT) (\<lambda>i v.
       case bind_op (run_inode i inode_file_type) (\<lambda>t. require (t = Directory) Errno_NOTDIR) v of
         (Ok _, v1) \<Rightarrow>
           (Ok (), (case root_directory (ctx v1) of Some old \<Rightarrow> drop_ref old | None \<Rightarrow> id)
              (v1\<lparr>ctx := (ctx v1)\<lparr>root_directory := Some i\<rparr>\<rparr>))
       | (Err e, v1) \<Rightarrow> (Err e, drop_ref i v1)
       | (Panic, v1) \<Rightarrow> (Panic, v1))"

definition sys_chmod :: "u8 list \<Rightarrow> u16 \<Rightarrow> (vfs, unit) op" where
  "sys_chmod path m =
     bind_op (ok_or (resolve_path path) Errno_NOENT) (\<lambda>i. holding i (
     bind_op (run_inode i (\<lambda>s. (Ok (user_id (disk_inode (inner s))), s))) (\<lambda>owner v.
       bind_op (require (ctx_euid (ctx v) = owner \<or> is_superuser v) Errno_ACCESS) (\<lambda>_.
         update_inode i (\<lambda>t j. touch_change t (j\<lparr>disk_inode := (disk_inode j)\<lparr>mode :=
           (m AND FLAGS_MASK) OR (mode (disk_inode j) AND NOT FLAGS_MASK)\<rparr>\<rparr>))) v)))"

definition sys_chown :: "u8 list \<Rightarrow> u16 \<Rightarrow> u8 \<Rightarrow> (vfs, unit) op" where
  "sys_chown path uid gid v =
     bind_op (require (is_superuser v) Errno_ACCESS) (\<lambda>_.
     bind_op (ok_or (resolve_path path) Errno_NOENT) (\<lambda>i. holding i (
       update_inode i (\<lambda>t j. touch_change t (j\<lparr>disk_inode := (disk_inode j)\<lparr>user_id := uid, group_id := gid\<rparr>\<rparr>))))) v"

definition sys_access :: "u8 list \<Rightarrow> u16 \<Rightarrow> (vfs, unit) op" where
  "sys_access path m =
     bind_op (ok_or (resolve_path path) Errno_ACCESS) (\<lambda>i. holding i (\<lambda>v.
       bind_op (run_inode i (check_permission_as (m AND 7) (ctx_uid (ctx v)) (ctx_gid (ctx v))))
         (\<lambda>ok. require ok Errno_ACCESS) v))"

definition sys_utime :: "u8 list \<Rightarrow> (u32 \<times> u32) option \<Rightarrow> (vfs, unit) op" where
  "sys_utime path stamps =
     bind_op (ok_or (resolve_path path) Errno_NOENT) (\<lambda>i. holding i (
       update_inode i (\<lambda>t. case stamps of Some (at, mt) \<Rightarrow> set_access_and_modified at mt t
                                        | None \<Rightarrow> set_access_and_modified t t t)))"

section \<open>Renaming\<close>

text \<open>
  A directory may not be moved below itself: the walk up through \<open>..\<close> from the new parent, bounded
  by 256 steps, ends where \<open>..\<close> is the directory itself.
\<close>

fun refuse_descendant :: "nat \<Rightarrow> InodeId \<Rightarrow> InodeId \<Rightarrow> (vfs, unit) op" where
  "refuse_descendant 0 old cursor v = (Ok (), drop_ref cursor v)"
| "refuse_descendant (Suc n) old cursor v =
     (if cursor = old then (Err Errno_INVAL, drop_ref cursor v)
      else case run_inode cursor (lookup [DOT, DOT]) v of
        (Ok None, v1) \<Rightarrow> (Err Errno_IO, drop_ref cursor v1)
      | (Err e, v1) \<Rightarrow> (Err e, drop_ref cursor v1)
      | (Panic, v1) \<Rightarrow> (Panic, v1)
      | (Ok (Some p), v1) \<Rightarrow>
          if p = id_number cursor then (Ok (), drop_ref cursor v1)
          else bind_op (resolve_inode (inode_of_entry cursor p)) (\<lambda>i v. refuse_descendant n old i (drop_ref cursor v)) v1)"

definition MAX_PATH_DEPTH :: nat where "MAX_PATH_DEPTH = 256"

definition displace :: "InodeId \<Rightarrow> u8 list \<Rightarrow> bool \<Rightarrow> u16 \<Rightarrow> (vfs, unit) op" where
  "displace new_dir new_base old_is_dir n =
     bind_op (resolve_inode (inode_of_entry new_dir n)) (\<lambda>i. holding i (
     bind_op (run_inode i inode_file_type) (\<lambda>t.
     bind_op (require (\<not> (old_is_dir \<and> t \<noteq> Directory)) Errno_NOTDIR) (\<lambda>_.
     bind_op (require (\<not> (\<not> old_is_dir \<and> t = Directory)) Errno_ISDIR) (\<lambda>_.
     bind_op (if t = Directory then run_inode i is_empty_directory else (\<lambda>v. (Ok True, v))) (\<lambda>e.
     bind_op (require e Errno_NOTEMPTY) (\<lambda>_.
     bind_op (run_inode new_dir (remove_entry new_base)) (\<lambda>_.
       if t = Directory then
         bind_op (update_inode i (\<lambda>t j. touch_change t (set_links (\<lambda>_. 0) j))) (\<lambda>_.
           update_inode new_dir (\<lambda>t j. touch_modified t (set_links (\<lambda>n. n - 1) j)))
       else update_inode i (\<lambda>t j. touch_change t (set_links (\<lambda>n. n - 1) j))))))))))"

definition splice_entry :: "InodeId \<Rightarrow> u8 list \<Rightarrow> InodeId \<Rightarrow> u8 list \<Rightarrow> InodeId \<Rightarrow> u16 \<Rightarrow> bool \<Rightarrow> (vfs, unit) op" where
  "splice_entry old_dir old_base new_dir new_base old n move_dir =
     bind_op (run_inode new_dir (add_entry new_base n)) (\<lambda>_.
     bind_op (run_inode old_dir (remove_entry old_base)) (\<lambda>_.
     bind_op
       (if move_dir then
          bind_op (run_inode old (remove_entry [DOT, DOT])) (\<lambda>_.
          bind_op (run_inode old (add_entry [DOT, DOT] (id_number new_dir))) (\<lambda>_.
          bind_op (update_inode old_dir (\<lambda>t j. touch_modified t (set_links (\<lambda>n. n - 1) j))) (\<lambda>_.
            update_inode new_dir (\<lambda>t j. touch_modified t (set_links (\<lambda>n. n + 1) j)))))
        else (\<lambda>v. (Ok (), v))) (\<lambda>_.
       update_inode old touch_change)))"

definition sys_rename :: "u8 list \<Rightarrow> u8 list \<Rightarrow> (vfs, unit) op" where
  "sys_rename oldname newname =
     bind_op (ok_or (resolve_parent oldname) Errno_NOENT) (\<lambda>(old_dir, old_base). holding old_dir (
     bind_op (require (old_base \<noteq> [] \<and> old_base \<noteq> [DOT] \<and> old_base \<noteq> [DOT, DOT]) Errno_INVAL) (\<lambda>_.
     bind_op (ok_or (resolve_parent newname) Errno_NOENT) (\<lambda>(new_dir, new_base). holding new_dir (
     bind_op (require (new_base \<noteq> [] \<and> new_base \<noteq> [DOT] \<and> new_base \<noteq> [DOT, DOT]) Errno_INVAL) (\<lambda>_.
     bind_op (require (id_device old_dir = id_device new_dir) Errno_XDEV) (\<lambda>_.
     bind_op (check_permission old_dir MAY_WRITE) (\<lambda>ok1.
     bind_op (require ok1 Errno_ACCESS) (\<lambda>_.
     bind_op (check_permission new_dir MAY_WRITE) (\<lambda>ok2.
     bind_op (require ok2 Errno_ACCESS) (\<lambda>_.
     bind_op (ok_or (run_inode old_dir (lookup old_base)) Errno_NOENT) (\<lambda>n.
     bind_op (resolve_inode (inode_of_entry old_dir n)) (\<lambda>old. holding old (
     bind_op (run_inode old inode_file_type) (\<lambda>t.
       let old_is_dir = (t = Directory); same_parent = (id_number old_dir = id_number new_dir) in
       if same_parent \<and> old_base = new_base then (\<lambda>v. (Ok (), v))
       else
         bind_op (run_inode new_dir (lookup new_base)) (\<lambda>existing.
           if existing = Some n then (\<lambda>v. (Ok (), v))
           else
             bind_op (if old_is_dir \<and> \<not> same_parent
                      then (\<lambda>v. refuse_descendant MAX_PATH_DEPTH \<lparr>id_device = id_device old, id_number = n\<rparr> new_dir (clone_ref new_dir v))
                      else (\<lambda>v. (Ok (), v))) (\<lambda>_.
             bind_op (run_inode new_dir (lookup new_base)) (\<lambda>existing.
             bind_op (case existing of Some m \<Rightarrow> displace new_dir new_base old_is_dir m | None \<Rightarrow> (\<lambda>v. (Ok (), v))) (\<lambda>_.
               splice_entry old_dir old_base new_dir new_base old n (old_is_dir \<and> \<not> same_parent))))))))))))))))))))"

section \<open>Mounting\<close>

definition sys_mount :: "u8 list \<Rightarrow> u8 list \<Rightarrow> (vfs, unit) op" where
  "sys_mount dev_name dir_name =
     bind_op (ok_or (resolve_path dev_name) Errno_NOENT) (\<lambda>di.
     bind_op (holding di (
       bind_op (run_inode di inode_file_type) (\<lambda>t.
       bind_op (require (t = BlockDevice) Errno_PERM) (\<lambda>_. run_inode di device_number)))) (\<lambda>dev.
     bind_op (ok_or (resolve_path dir_name) Errno_NOENT) (\<lambda>dir v.
       case bind_op (run_inode dir inode_file_type) (\<lambda>t.
            bind_op (require (t = Directory) Errno_PERM) (\<lambda>_.
            bind_op (require (id_number dir \<noteq> ROOT_INODE_NUMBER) Errno_BUSY) (\<lambda>_ v.
            bind_op (require (find_fs dev v = None) Errno_BUSY) (\<lambda>_.
            bind_op (require (mounted_root_at dir v = None) Errno_PERM) (\<lambda>_.
            bind_op (ok_or (on_store dev (fs_open dev)) Errno_BUSY) (\<lambda>f v.
              let n = length (instances v); root = \<lparr>id_device = dev, id_number = ROOT_INODE_NUMBER\<rparr> in
              bind_op (acquire_raw root n) (\<lambda>_ v.
                case mount_insert \<lparr>mnt_device = dev, mnt_fs = n, root_inode = root, mount_point_inode = Some dir\<rparr> v of
                  Some v1 \<Rightarrow> (Ok (), v1)
                | None \<Rightarrow> (Err Errno_BUSY, drop_ref root (v\<lparr>instances := (instances v)[n := None]\<rparr>)))
                (v\<lparr>instances := instances v @ [Some f]\<rparr>)))) v))) v of
         (Ok _, v1) \<Rightarrow> (Ok (), v1)
       | (Err e, v1) \<Rightarrow> (Err e, drop_ref dir v1)
       | (Panic, v1) \<Rightarrow> (Panic, v1))))"

definition drop_mount :: "Mount \<Rightarrow> vfs \<Rightarrow> vfs" where
  "drop_mount m v =
     (let v1 = drop_ref (root_inode m) (v\<lparr>instances := (instances v)[mnt_fs m := None]\<rparr>) in
      case mount_point_inode m of Some i \<Rightarrow> drop_ref i v1 | None \<Rightarrow> v1)"

definition sys_umount :: "u16 \<Rightarrow> u8 list \<Rightarrow> (vfs, unit) op" where
  "sys_umount root_dev dev_name =
     bind_op (ok_or (resolve_path dev_name) Errno_NOENT) (\<lambda>di.
     bind_op (holding di (
       bind_op (run_inode di inode_file_type) (\<lambda>t.
       bind_op (require (t = BlockDevice) Errno_NOTBLK) (\<lambda>_. run_inode di device_number)))) (\<lambda>dev v.
     bind_op (require (dev \<noteq> root_dev) Errno_BUSY) (\<lambda>_.
     bind_op (require (find_fs dev v \<noteq> None) Errno_NOENT) (\<lambda>_.
     bind_op (require (\<not> has_active_inodes dev v) Errno_BUSY) (\<lambda>_.
     bind_op (evict_device dev) (\<lambda>_ v.
       (Ok (), case remove_by_device dev v of Some (m, v1) \<Rightarrow> drop_mount m v1 | None \<Rightarrow> v))))) v))"

text \<open>\<open>mount_root\<close>, which panics when the root device carries no file system.\<close>

definition mount_root :: "u16 \<Rightarrow> (vfs, unit) op" where
  "mount_root dev =
     bind_op (on_store dev (fs_open dev)) (\<lambda>r v.
       case r of
         None \<Rightarrow> (Panic, v)
       | Some f \<Rightarrow>
           let n = length (instances v); root = \<lparr>id_device = dev, id_number = ROOT_INODE_NUMBER\<rparr> in
           bind_op (acquire_raw root n) (\<lambda>_ v.
             case mount_insert \<lparr>mnt_device = dev, mnt_fs = n, root_inode = root, mount_point_inode = None\<rparr> (clone_ref root v) of
               None \<Rightarrow> (Panic, v)
             | Some v1 \<Rightarrow>
                 bind_op (resolve_inode root) (\<lambda>i v2.
                   (Ok (), drop_ref root (clone_ref i (v2\<lparr>ctx := (ctx v2)\<lparr>root_directory := Some i, current_directory := Some i\<rparr>\<rparr>)))) v1)
             (v\<lparr>instances := instances v @ [Some f]\<rparr>))"

definition sys_ustat :: "u16 \<Rightarrow> (vfs, u32 \<times> u32 \<times> u32 \<times> u32) op" where
  "sys_ustat dev v =
     (case find_fs dev v of
        None \<Rightarrow> (Err Errno_NODEV, v)
      | Some n \<Rightarrow>
          (case upgrade n v of
             None \<Rightarrow> (Panic, v)
           | Some f \<Rightarrow>
               bind_op (on_store (device f) (count_free (zone_bitmap f))) (\<lambda>bfree.
               bind_op (on_store (device f) (count_free (inode_bitmap f))) (\<lambda>ffree v.
                 (Ok (ucast (zone_count (super_block f)), word_of_nat bfree,
                      ucast (inode_count (super_block f)), word_of_nat ffree), v))) v))"

end
