(* ===== verification/Open_Files.thy ===== *)
theory Open_Files
  imports Fs_Calls
begin

text \<open>
  Open files (\<open>kernel/src/fs/file/\<close>), descriptors and the calls on them
  (\<open>kernel/src/syscall/handler/fs/fd.rs\<close>).  An open file is an object that descriptors share; the last
  descriptor that goes releases it.  The terminals and the pipes, which have theories of their own, are the
  parameter \<open>drivers\<close>: their operations on a state of any type.  A read returns the bytes that the
  handler copies to user memory, a write takes those it has copied from there.  The handle on the
  running executable, which exec takes and fork and exit copy and drop, is left out.
\<close>

section \<open>Flags\<close>

datatype AccessMode = ReadOnly | WriteOnly | ReadWrite

definition AccessMode_from_raw :: "u32 \<Rightarrow> AccessMode option" where
  "AccessMode_from_raw raw =
     (if raw = 0 then Some ReadOnly else if raw = 1 then Some WriteOnly else if raw = 2 then Some ReadWrite else None)"

definition CREATE :: u32 where "CREATE = 0x40"
definition EXCLUSIVE :: u32 where "EXCLUSIVE = 0x80"
definition TRUNCATE :: u32 where "TRUNCATE = 0x200"
definition APPEND :: u32 where "APPEND = 0x400"

definition has_option :: "u32 \<Rightarrow> u32 \<Rightarrow> bool" where
  "has_option options flag \<longleftrightarrow> options AND flag = flag"

definition into_parts :: "u32 \<Rightarrow> (AccessMode \<times> u32) option" where
  "into_parts raw = map_option (\<lambda>m. (m, raw AND NOT 3)) (AccessMode_from_raw (raw AND 3))"

datatype Whence = SeekSet | SeekCurrent | SeekEnd

definition Whence_from_raw :: "u32 \<Rightarrow> Whence option" where
  "Whence_from_raw raw =
     (if raw = 0 then Some SeekSet else if raw = 1 then Some SeekCurrent else if raw = 2 then Some SeekEnd else None)"

section \<open>Objects and descriptors\<close>

text \<open>Access mode, options, inode and offset of a regular file or directory; device and inode of a character device;
  device, inode and offset of a block device; pipe and direction of an end of a pipe.\<close>

datatype File =
    InodeFile AccessMode u32 InodeId u32
  | CharDeviceFile u16 InodeId
  | BlockDeviceFile u16 InodeId u32
  | PipeFile nat bool

record 'd drivers =
  tty_read :: "nat \<Rightarrow> nat \<Rightarrow> ('d, u8 list) op"
  tty_write :: "nat \<Rightarrow> u8 list \<Rightarrow> ('d, nat) op"
  tty_ioctl :: "nat \<Rightarrow> u32 \<Rightarrow> u32 \<Rightarrow> ('d, u32) op"
  pipe_create :: "('d, nat) op"
  pipe_read :: "nat \<Rightarrow> nat \<Rightarrow> ('d, u8 list) op"
  pipe_write :: "nat \<Rightarrow> u8 list \<Rightarrow> ('d, nat) op"
  pipe_size :: "nat \<Rightarrow> 'd \<Rightarrow> nat"
  pipe_drop :: "nat \<Rightarrow> bool \<Rightarrow> 'd \<Rightarrow> 'd"

definition TASK_OPEN_FILES_LIMIT :: nat where "TASK_OPEN_FILES_LIMIT = 20"

text \<open>\<open>arcs\<close> counts the references to an object: descriptors of this and of other tasks.\<close>

record 'd files =
  fsys :: vfs
  objects :: "File option list"
  arcs :: "nat \<Rightarrow> nat"
  open_files :: "nat option list"
  close_on_exec :: u32
  task_tty :: int
  devs :: 'd

definition on_fsys :: "(vfs, 'a) op \<Rightarrow> ('d files, 'a) op" where
  "on_fsys m s = (case m (fsys s) of (r, v) \<Rightarrow> (r, s\<lparr>fsys := v\<rparr>))"

definition on_devs :: "('d, 'a) op \<Rightarrow> ('d files, 'a) op" where
  "on_devs m s = (case m (devs s) of (r, d) \<Rightarrow> (r, s\<lparr>devs := d\<rparr>))"

text \<open>Dropping a file object: its inode handle goes, or the end of its pipe.\<close>

definition release :: "'d drivers \<Rightarrow> File \<Rightarrow> 'd files \<Rightarrow> 'd files" where
  "release D f s =
     (case f of
        InodeFile _ _ i _ \<Rightarrow> s\<lparr>fsys := drop_ref i (fsys s)\<rparr>
      | CharDeviceFile _ i \<Rightarrow> s\<lparr>fsys := drop_ref i (fsys s)\<rparr>
      | BlockDeviceFile _ i _ \<Rightarrow> s\<lparr>fsys := drop_ref i (fsys s)\<rparr>
      | PipeFile p w \<Rightarrow> s\<lparr>devs := pipe_drop D p w (devs s)\<rparr>)"

definition new_object :: "File \<Rightarrow> 'd files \<Rightarrow> nat \<times> 'd files" where
  "new_object f s = (length (objects s), s\<lparr>objects := objects s @ [Some f], arcs := (arcs s)(length (objects s) := 1)\<rparr>)"

definition clone_arc :: "nat \<Rightarrow> 'd files \<Rightarrow> 'd files" where
  "clone_arc k s = s\<lparr>arcs := (arcs s)(k := arcs s k + 1)\<rparr>"

definition drop_arc :: "'d drivers \<Rightarrow> nat \<Rightarrow> 'd files \<Rightarrow> 'd files" where
  "drop_arc D k s =
     (let s1 = s\<lparr>arcs := (arcs s)(k := arcs s k - 1)\<rparr> in
      if arcs s1 k = 0
      then (case objects s1 ! k of Some f \<Rightarrow> release D f (s1\<lparr>objects := (objects s1)[k := None]\<rparr>) | None \<Rightarrow> s1)
      else s1)"

definition set_slot :: "'d drivers \<Rightarrow> nat \<Rightarrow> nat option \<Rightarrow> 'd files \<Rightarrow> 'd files" where
  "set_slot D fd new s =
     (let s1 = s\<lparr>open_files := (open_files s)[fd := new]\<rparr> in
      case open_files s ! fd of Some old \<Rightarrow> drop_arc D old s1 | None \<Rightarrow> s1)"

text \<open>\<open>add_file\<close> takes the reference it is given; it is dropped when the table is full.\<close>

definition add_file :: "'d drivers \<Rightarrow> nat \<Rightarrow> ('d files, nat option) op" where
  "add_file D k s =
     (case find (\<lambda>fd. open_files s ! fd = None) [0..<length (open_files s)] of
        Some fd \<Rightarrow> (Ok (Some fd), s\<lparr>open_files := (open_files s)[fd := Some k]\<rparr>)
      | None \<Rightarrow> (Ok None, drop_arc D k s))"

definition lookup_file :: "u32 \<Rightarrow> ('d files, nat) op" where
  "lookup_file fd s =
     (case (if unat fd < length (open_files s) then open_files s ! unat fd else None) of
        Some k \<Rightarrow> (Ok k, s)
      | None \<Rightarrow> (Err Errno_BADF, s))"

section \<open>Block devices\<close>

record BlockChunk =
  block_number :: nat
  chunk_offset :: nat
  chunk_len :: nat

definition BlockChunk_new :: "u32 \<Rightarrow> nat \<Rightarrow> BlockChunk" where
  "BlockChunk_new pos remaining =
     \<lparr>block_number = unat pos div BLOCK_SIZE, chunk_offset = unat pos mod BLOCK_SIZE,
      chunk_len = min (BLOCK_SIZE - unat pos mod BLOCK_SIZE) remaining\<rparr>"

definition is_full_block :: "BlockChunk \<Rightarrow> bool" where
  "is_full_block c \<longleftrightarrow> chunk_offset c = 0 \<and> chunk_len c = BLOCK_SIZE"

definition partial_io_result :: "'a \<Rightarrow> nat \<Rightarrow> 'a outcome" where
  "partial_io_result r n = (if n = 0 then Err Errno_IO else Ok r)"

text \<open>The loops return the position they reached.\<close>

function block_read :: "u32 \<Rightarrow> nat \<Rightarrow> u8 list \<Rightarrow> store \<Rightarrow> u8 list outcome \<times> u32" where
  "block_read pos n got st =
     (if n = 0 then (Ok got, pos)
      else
        let c = BlockChunk_new pos n in
        if \<not> readable st (block_number c) then (partial_io_result got (length got), pos)
        else block_read (pos + word_of_nat (chunk_len c)) (n - chunk_len c)
               (got @ take (chunk_len c) (drop (chunk_offset c) (blocks st (block_number c)))) st)"
  by pat_completeness auto
termination
  by (relation "measure (\<lambda>(_, n, _). n)") (auto simp: BlockChunk_new_def BLOCK_SIZE_def)

definition block_write_chunk :: "BlockChunk \<Rightarrow> u8 list \<Rightarrow> store \<Rightarrow> store" where
  "block_write_chunk c bs st =
     (let st1 = store_modify (block_number c)
            (\<lambda>b. take (chunk_offset c) b @ bs @ drop (chunk_offset c + length bs) b) st
      in if is_full_block c then st1\<lparr>readable := (readable st1)(block_number c := True)\<rparr> else st1)"

function block_write :: "u32 \<Rightarrow> u8 list \<Rightarrow> nat \<Rightarrow> store \<Rightarrow> (nat outcome \<times> u32) \<times> store" where
  "block_write pos buf written st =
     (if buf = [] then ((Ok written, pos), st)
      else
        let c = BlockChunk_new pos (length buf) in
        if \<not> is_full_block c \<and> \<not> readable st (block_number c) then ((partial_io_result written written, pos), st)
        else block_write (pos + word_of_nat (chunk_len c)) (drop (chunk_len c) buf) (written + chunk_len c)
               (block_write_chunk c (take (chunk_len c) buf) st))"
  by pat_completeness auto
termination
  by (relation "measure (\<lambda>(_, buf, _). length buf)") (auto simp: BlockChunk_new_def BLOCK_SIZE_def)

section \<open>The operations of a file\<close>

definition dev_major :: "u16 \<Rightarrow> nat" where "dev_major dev = unat (drop_bit 8 dev)"
definition dev_minor :: "u16 \<Rightarrow> nat" where "dev_minor dev = unat (dev AND 0xFF)"

definition current_tty_channel :: "('d files, nat) op" where
  "current_tty_channel s = (if task_tty s < 0 then (Err Errno_PERM, s) else (Ok (nat (task_tty s)), s))"

definition read_memory :: "nat \<Rightarrow> u8 list outcome" where
  "read_memory m = (if m = 3 then Ok [] else Err Errno_IO)"

definition write_memory :: "nat \<Rightarrow> nat \<Rightarrow> nat outcome" where
  "write_memory m n = (if m = 3 then Ok n else Err Errno_IO)"

definition set_object :: "nat \<Rightarrow> File \<Rightarrow> 'd files \<Rightarrow> 'd files" where
  "set_object k f s = s\<lparr>objects := (objects s)[k := Some f]\<rparr>"

text \<open>\<open>impl File for InodeFile\<close>.  Offsets are 32-bit; a new offset from \<open>2 ^ 31\<close> on is negative.\<close>

definition InodeFile_read :: "nat \<Rightarrow> AccessMode \<Rightarrow> u32 \<Rightarrow> InodeId \<Rightarrow> u32 \<Rightarrow> nat \<Rightarrow> ('d files, u8 list) op" where
  "InodeFile_read k m opts i off n =
     (if m = WriteOnly then (\<lambda>s. (Err Errno_BADF, s))
      else
        bind_op (on_fsys (run_inode i (read_at (unat off) n))) (\<lambda>bs s.
          (Ok bs, set_object k (InodeFile m opts i (off + word_of_nat (length bs))) s)))"

definition inode_size :: "InodeId \<Rightarrow> ('d files, u32) op" where
  "inode_size i = on_fsys (run_inode i (\<lambda>t. (Ok (file_size (disk_inode (inner t))), t)))"

definition InodeFile_write :: "nat \<Rightarrow> AccessMode \<Rightarrow> u32 \<Rightarrow> InodeId \<Rightarrow> u32 \<Rightarrow> u8 list \<Rightarrow> ('d files, nat) op" where
  "InodeFile_write k m opts i off bs =
     (if m = ReadOnly then (\<lambda>s. (Err Errno_BADF, s))
      else
        bind_op (if has_option opts APPEND then inode_size i else (\<lambda>s. (Ok off, s))) (\<lambda>pos.
        bind_op (on_fsys (run_inode i (write_at (unat pos) bs))) (\<lambda>n s.
          (Ok n, set_object k (InodeFile m opts i (pos + word_of_nat n)) s))))"

definition InodeFile_seek :: "nat \<Rightarrow> AccessMode \<Rightarrow> u32 \<Rightarrow> InodeId \<Rightarrow> u32 \<Rightarrow> u32 \<Rightarrow> Whence \<Rightarrow> ('d files, u32) op" where
  "InodeFile_seek k m opts i off delta whence =
     bind_op (case whence of
         SeekSet \<Rightarrow> (\<lambda>s. (Ok delta, s))
       | SeekCurrent \<Rightarrow> (\<lambda>s. (Ok (off + delta), s))
       | SeekEnd \<Rightarrow> bind_op (inode_size i) (\<lambda>sz s. (Ok (sz + delta), s))) (\<lambda>pos.
       if sint pos < 0 then (\<lambda>s. (Err Errno_INVAL, s)) else (\<lambda>s. (Ok pos, set_object k (InodeFile m opts i pos) s)))"

text \<open>\<open>impl File for CharDeviceFile\<close>\<close>

definition CharDeviceFile_read :: "'d drivers \<Rightarrow> u16 \<Rightarrow> nat \<Rightarrow> ('d files, u8 list) op" where
  "CharDeviceFile_read D dev n =
     (if dev_major dev = 1 then (\<lambda>s. (read_memory (dev_minor dev), s))
      else if dev_major dev = 4 then on_devs (tty_read D (dev_minor dev) n)
      else if dev_major dev = 5 then bind_op current_tty_channel (\<lambda>c. on_devs (tty_read D c n))
      else (\<lambda>s. (Err Errno_NODEV, s)))"

definition CharDeviceFile_write :: "'d drivers \<Rightarrow> u16 \<Rightarrow> u8 list \<Rightarrow> ('d files, nat) op" where
  "CharDeviceFile_write D dev bs =
     (if dev_major dev = 1 then (\<lambda>s. (write_memory (dev_minor dev) (length bs), s))
      else if dev_major dev = 4 then on_devs (tty_write D (dev_minor dev) bs)
      else if dev_major dev = 5 then bind_op current_tty_channel (\<lambda>c. on_devs (tty_write D c bs))
      else (\<lambda>s. (Err Errno_NODEV, s)))"

definition CharDeviceFile_ioctl :: "'d drivers \<Rightarrow> u16 \<Rightarrow> u32 \<Rightarrow> u32 \<Rightarrow> ('d files, u32) op" where
  "CharDeviceFile_ioctl D dev cmd arg =
     (if dev_major dev = 4 then on_devs (tty_ioctl D (dev_minor dev) cmd arg)
      else if dev_major dev = 5 then bind_op current_tty_channel (\<lambda>c. on_devs (tty_ioctl D c cmd arg))
      else (\<lambda>s. (Err Errno_NOTTY, s)))"

text \<open>\<open>impl File for BlockDeviceFile\<close>\<close>

definition BlockDeviceFile_read :: "nat \<Rightarrow> u16 \<Rightarrow> InodeId \<Rightarrow> u32 \<Rightarrow> nat \<Rightarrow> ('d files, u8 list) op" where
  "BlockDeviceFile_read k dev i off n s =
     (case block_read off n [] (stores (fsys s) dev) of (r, off') \<Rightarrow> (r, set_object k (BlockDeviceFile dev i off') s))"

definition BlockDeviceFile_write :: "nat \<Rightarrow> u16 \<Rightarrow> InodeId \<Rightarrow> u32 \<Rightarrow> u8 list \<Rightarrow> ('d files, nat) op" where
  "BlockDeviceFile_write k dev i off bs s =
     (case block_write off bs 0 (stores (fsys s) dev) of ((r, off'), st) \<Rightarrow>
        (r, set_object k (BlockDeviceFile dev i off') (s\<lparr>fsys := (fsys s)\<lparr>stores := (stores (fsys s))(dev := st)\<rparr>\<rparr>)))"

definition BlockDeviceFile_seek :: "nat \<Rightarrow> u16 \<Rightarrow> InodeId \<Rightarrow> u32 \<Rightarrow> u32 \<Rightarrow> Whence \<Rightarrow> ('d files, u32) op" where
  "BlockDeviceFile_seek k dev i off delta whence =
     (case whence of
        SeekSet \<Rightarrow>
          if sint delta < 0 then (\<lambda>s. (Err Errno_INVAL, s)) else (\<lambda>s. (Ok delta, set_object k (BlockDeviceFile dev i delta) s))
      | SeekCurrent \<Rightarrow>
          if uint off + sint delta < 0 \<or> 2 ^ 32 \<le> uint off + sint delta then (\<lambda>s. (Err Errno_INVAL, s))
          else (\<lambda>s. (Ok (off + delta), set_object k (BlockDeviceFile dev i (off + delta)) s))
      | SeekEnd \<Rightarrow> (\<lambda>s. (Err Errno_INVAL, s)))"

text \<open>The calls through \<open>Arc<dyn File>\<close>.  An object that nothing refers to is gone and is not called.\<close>

definition on_object :: "nat \<Rightarrow> (File \<Rightarrow> ('d files, 'a) op) \<Rightarrow> ('d files, 'a) op" where
  "on_object k m s = (case objects s ! k of None \<Rightarrow> (Panic, s) | Some f \<Rightarrow> m f s)"

definition file_read :: "'d drivers \<Rightarrow> nat \<Rightarrow> nat \<Rightarrow> ('d files, u8 list) op" where
  "file_read D k n =
     on_object k (\<lambda>f. case f of
        InodeFile m opts i off \<Rightarrow> InodeFile_read k m opts i off n
      | CharDeviceFile dev i \<Rightarrow> CharDeviceFile_read D dev n
      | BlockDeviceFile dev i off \<Rightarrow> BlockDeviceFile_read k dev i off n
      | PipeFile p w \<Rightarrow> on_devs (pipe_read D p n))"

definition file_write :: "'d drivers \<Rightarrow> nat \<Rightarrow> u8 list \<Rightarrow> ('d files, nat) op" where
  "file_write D k bs =
     on_object k (\<lambda>f. case f of
        InodeFile m opts i off \<Rightarrow> InodeFile_write k m opts i off bs
      | CharDeviceFile dev i \<Rightarrow> CharDeviceFile_write D dev bs
      | BlockDeviceFile dev i off \<Rightarrow> BlockDeviceFile_write k dev i off bs
      | PipeFile p w \<Rightarrow> on_devs (pipe_write D p bs))"

definition file_seek :: "nat \<Rightarrow> u32 \<Rightarrow> Whence \<Rightarrow> ('d files, u32) op" where
  "file_seek k delta whence =
     on_object k (\<lambda>f. case f of
        InodeFile m opts i off \<Rightarrow> InodeFile_seek k m opts i off delta whence
      | BlockDeviceFile dev i off \<Rightarrow> BlockDeviceFile_seek k dev i off delta whence
      | _ \<Rightarrow> (\<lambda>s. (Err Errno_SPIPE, s)))"

definition pipe_stat :: "'d drivers \<Rightarrow> nat \<Rightarrow> ('d files, Stat) op" where
  "pipe_stat D p s =
     (Ok \<lparr>st_dev = 0, st_ino = 0, st_mode = 0x1180, st_nlink = 1, st_uid = 0, st_gid = 0, st_rdev = 0,
          st_size = word_of_nat (pipe_size D p (devs s)), st_atime = 0, st_mtime = 0, st_ctime = 0\<rparr>, s)"

definition file_stat :: "'d drivers \<Rightarrow> nat \<Rightarrow> ('d files, Stat) op" where
  "file_stat D k =
     on_object k (\<lambda>f. case f of
        InodeFile m opts i off \<Rightarrow> on_fsys (run_inode i (inode_stat i))
      | CharDeviceFile dev i \<Rightarrow> on_fsys (run_inode i (inode_stat i))
      | BlockDeviceFile dev i off \<Rightarrow> on_fsys (run_inode i (inode_stat i))
      | PipeFile p w \<Rightarrow> pipe_stat D p)"

definition file_ioctl :: "'d drivers \<Rightarrow> nat \<Rightarrow> u32 \<Rightarrow> u32 \<Rightarrow> ('d files, u32) op" where
  "file_ioctl D k cmd arg =
     on_object k (\<lambda>f. case f of
        CharDeviceFile dev i \<Rightarrow> CharDeviceFile_ioctl D dev cmd arg
      | _ \<Rightarrow> (\<lambda>s. (Err Errno_NOTTY, s)))"

section \<open>Opening\<close>

definition required_access :: "AccessMode \<Rightarrow> u16" where
  "required_access m = (case m of ReadOnly \<Rightarrow> MAY_READ | WriteOnly \<Rightarrow> MAY_WRITE | ReadWrite \<Rightarrow> MAY_READ OR MAY_WRITE)"

text \<open>The entry exists: the checks on its inode, on which a handle is held.\<close>

definition open_existing :: "AccessMode \<Rightarrow> u32 \<Rightarrow> InodeId \<Rightarrow> (vfs, unit) op" where
  "open_existing m opts i =
     bind_op (run_inode i inode_file_type) (\<lambda>t.
     bind_op (require (\<not> (t = Directory \<and> m \<noteq> ReadOnly)) Errno_PERM) (\<lambda>_.
     bind_op (check_permission i (required_access m)) (\<lambda>ok.
     bind_op (require ok Errno_PERM) (\<lambda>_.
     bind_op (update_inode i touch_access) (\<lambda>_.
       if has_option opts TRUNCATE then run_inode i Minix_File.truncate else (\<lambda>v. (Ok (), v)))))))"

definition open_inode :: "u8 list \<Rightarrow> AccessMode \<Rightarrow> u32 \<Rightarrow> u16 \<Rightarrow> (vfs, InodeId) op" where
  "open_inode path m opts perm =
     bind_op (ok_or (resolve_parent path) Errno_NOENT) (\<lambda>(dir, basename).
       if basename = [] then
         (\<lambda>v. if m \<noteq> ReadOnly \<or> opts AND (CREATE OR TRUNCATE) \<noteq> 0 then (Err Errno_ISDIR, drop_ref dir v) else (Ok dir, v))
       else holding dir (
         bind_op (run_inode dir (lookup basename)) (\<lambda>r.
           case r of
             None \<Rightarrow>
               bind_op (require (has_option opts CREATE) Errno_NOENT) (\<lambda>_.
               bind_op (check_permission dir MAY_WRITE) (\<lambda>ok.
               bind_op (require ok Errno_ACCESS) (\<lambda>_. create_file dir basename perm)))
           | Some n \<Rightarrow>
               bind_op (require (\<not> has_option opts EXCLUSIVE) Errno_EXIST) (\<lambda>_.
               bind_op (resolve_inode (inode_of_entry dir n)) (\<lambda>i v.
                 case open_existing m opts i v of
                   (Ok _, v1) \<Rightarrow> (Ok i, v1)
                 | (Err e, v1) \<Rightarrow> (Err e, drop_ref i v1)
                 | (Panic, v1) \<Rightarrow> (Panic, v1))))))"

definition file_of_inode :: "AccessMode \<Rightarrow> u32 \<Rightarrow> InodeId \<Rightarrow> (vfs, File) op" where
  "file_of_inode m opts i =
     bind_op (run_inode i inode_file_type) (\<lambda>t.
       if t = Regular \<or> t = Directory then (\<lambda>v. (Ok (InodeFile m opts i 0), v))
       else if t = CharacterDevice then bind_op (run_inode i device_number) (\<lambda>dev v. (Ok (CharDeviceFile dev i), v))
       else if t = BlockDevice then bind_op (run_inode i device_number) (\<lambda>dev v. (Ok (BlockDeviceFile dev i 0), v))
       else (\<lambda>v. (Err Errno_PERM, v)))"

definition open_with :: "'d drivers \<Rightarrow> u8 list \<Rightarrow> AccessMode \<Rightarrow> u32 \<Rightarrow> u16 \<Rightarrow> ('d files, nat) op" where
  "open_with D path m opts perm =
     bind_op (on_fsys (open_inode path m opts perm)) (\<lambda>i s.
       case on_fsys (file_of_inode m opts i) s of
         (Ok f, s1) \<Rightarrow>
           (case new_object f s1 of (k, s2) \<Rightarrow>
              bind_op (add_file D k) (\<lambda>r s. case r of Some fd \<Rightarrow> (Ok fd, s) | None \<Rightarrow> (Err Errno_MFILE, s)) s2)
       | (Err e, s1) \<Rightarrow> (Err e, s1\<lparr>fsys := drop_ref i (fsys s1)\<rparr>)
       | (Panic, s1) \<Rightarrow> (Panic, s1))"

definition sys_open :: "'d drivers \<Rightarrow> u8 list \<Rightarrow> u32 \<Rightarrow> u16 \<Rightarrow> ('d files, nat) op" where
  "sys_open D path raw_flags perm =
     (case into_parts raw_flags of
        None \<Rightarrow> (\<lambda>s. (Err Errno_INVAL, s))
      | Some (access_mode, opts) \<Rightarrow>
          open_with D path (if access_mode = ReadOnly \<and> has_option opts TRUNCATE then WriteOnly else access_mode) opts perm)"

definition sys_creat :: "'d drivers \<Rightarrow> u8 list \<Rightarrow> u16 \<Rightarrow> ('d files, nat) op" where
  "sys_creat D path perm = sys_open D path (1 OR CREATE OR TRUNCATE) perm"

section \<open>Calls on descriptors\<close>

definition sys_read :: "'d drivers \<Rightarrow> u32 \<Rightarrow> nat \<Rightarrow> ('d files, u8 list) op" where
  "sys_read D fd n = bind_op (lookup_file fd) (\<lambda>k. file_read D k n)"

definition sys_write :: "'d drivers \<Rightarrow> u32 \<Rightarrow> u8 list \<Rightarrow> ('d files, nat) op" where
  "sys_write D fd bs = bind_op (lookup_file fd) (\<lambda>k. file_write D k bs)"

definition sys_close :: "'d drivers \<Rightarrow> u32 \<Rightarrow> ('d files, unit) op" where
  "sys_close D fd = bind_op (lookup_file fd) (\<lambda>_ s. (Ok (), set_slot D (unat fd) None s))"

definition sys_lseek :: "u32 \<Rightarrow> u32 \<Rightarrow> u32 \<Rightarrow> ('d files, u32) op" where
  "sys_lseek fd offset whence s =
     (case Whence_from_raw whence of
        None \<Rightarrow> (Err Errno_INVAL, s)
      | Some w \<Rightarrow> bind_op (lookup_file fd) (\<lambda>k. file_seek k offset w) s)"

definition sys_dup :: "'d drivers \<Rightarrow> u32 \<Rightarrow> ('d files, nat) op" where
  "sys_dup D fd =
     bind_op (lookup_file fd) (\<lambda>k s.
       bind_op (add_file D k) (\<lambda>r s. case r of Some d \<Rightarrow> (Ok d, s) | None \<Rightarrow> (Err Errno_MFILE, s)) (clone_arc k s))"

definition sys_dup2 :: "'d drivers \<Rightarrow> u32 \<Rightarrow> u32 \<Rightarrow> ('d files, u32) op" where
  "sys_dup2 D oldfd newfd =
     bind_op (lookup_file oldfd) (\<lambda>k s.
       if oldfd = newfd then (Ok newfd, s)
       else if unat newfd < length (open_files s) then (Ok newfd, set_slot D (unat newfd) (Some k) (clone_arc k s))
       else (Err Errno_BADF, s))"

definition sys_fstat :: "'d drivers \<Rightarrow> u32 \<Rightarrow> ('d files, Stat) op" where
  "sys_fstat D fd = bind_op (lookup_file fd) (file_stat D)"

definition sys_ioctl :: "'d drivers \<Rightarrow> u32 \<Rightarrow> u32 \<Rightarrow> u32 \<Rightarrow> ('d files, u32) op" where
  "sys_ioctl D fd cmd arg = bind_op (lookup_file fd) (\<lambda>k. file_ioctl D k cmd arg)"

definition sys_fcntl :: "u32 \<Rightarrow> u32 \<Rightarrow> u32 \<Rightarrow> ('d files, u32) op" where
  "sys_fcntl fd cmd arg =
     bind_op (lookup_file fd) (\<lambda>k s.
       if cmd = 0 then
         (case find (\<lambda>i. open_files s ! i = None) [unat arg..<length (open_files s)] of
            None \<Rightarrow> (Err Errno_MFILE, s)
          | Some new_fd \<Rightarrow>
              (Ok (word_of_nat new_fd),
               (clone_arc k s)\<lparr>open_files := (open_files s)[new_fd := Some k],
                  close_on_exec := close_on_exec s AND NOT (push_bit new_fd 1)\<rparr>))
       else if cmd = 1 then (Ok (drop_bit (unat fd) (close_on_exec s) AND 1), s)
       else if cmd = 2 then
         (Ok 0, s\<lparr>close_on_exec :=
            (if arg AND 1 \<noteq> 0 then close_on_exec s OR push_bit (unat fd) 1 else close_on_exec s AND NOT (push_bit (unat fd) 1))\<rparr>)
       else if cmd = 3 \<or> cmd = 4 then (Ok 0, s)
       else (Err Errno_INVAL, s))"

text \<open>The pair of descriptors is written to user memory.\<close>

definition sys_pipe :: "'d drivers \<Rightarrow> ('d files, nat \<times> nat) op" where
  "sys_pipe D =
     bind_op (on_devs (pipe_create D)) (\<lambda>p s.
       case new_object (PipeFile p False) s of (rd, s1) \<Rightarrow>
       case new_object (PipeFile p True) s1 of (wr, s2) \<Rightarrow>
         bind_op (add_file D rd) (\<lambda>r s.
           case r of
             None \<Rightarrow> (Err Errno_MFILE, drop_arc D wr s)
           | Some fd0 \<Rightarrow>
               bind_op (add_file D wr) (\<lambda>r s.
                 case r of
                   Some fd1 \<Rightarrow> (Ok (fd0, fd1), s)
                 | None \<Rightarrow> (Err Errno_MFILE, set_slot D fd0 None s)) s) s2)"

section \<open>Processes\<close>

text \<open>\<open>exec\<close> closes the marked descriptors.\<close>

definition close_marked :: "'d drivers \<Rightarrow> 'd files \<Rightarrow> 'd files" where
  "close_marked D s =
     (fold (\<lambda>fd s1. if drop_bit fd (close_on_exec s) AND 1 = 1 then set_slot D fd None s1 else s1)
        [0..<length (open_files s)] s)\<lparr>close_on_exec := 0\<rparr>"

text \<open>\<open>exit_process\<close> drops every descriptor and both directories.\<close>

definition drop_dir :: "InodeId option \<Rightarrow> vfs \<Rightarrow> vfs" where
  "drop_dir d v = (case d of Some i \<Rightarrow> drop_ref i v | None \<Rightarrow> v)"

definition exit_dirs :: "vfs \<Rightarrow> vfs" where
  "exit_dirs v =
     (let v1 = drop_dir (root_directory (ctx v)) (v\<lparr>ctx := (ctx v)\<lparr>root_directory := None\<rparr>\<rparr>) in
      drop_dir (current_directory (ctx v1)) (v1\<lparr>ctx := (ctx v1)\<lparr>current_directory := None\<rparr>\<rparr>))"

definition exit_files :: "'d drivers \<Rightarrow> 'd files \<Rightarrow> 'd files" where
  "exit_files D s =
     (let s1 = fold (\<lambda>fd. set_slot D fd None) [0..<length (open_files s)] s in
      s1\<lparr>fsys := exit_dirs (fsys s1), close_on_exec := 0, task_tty := -1\<rparr>)"

text \<open>\<open>fork\<close> gives the child a reference to every open file and to both directories.\<close>

definition clone_dir :: "InodeId option \<Rightarrow> vfs \<Rightarrow> vfs" where
  "clone_dir d v = (case d of Some i \<Rightarrow> clone_ref i v | None \<Rightarrow> v)"

definition clone_file :: "nat option \<Rightarrow> 'd files \<Rightarrow> 'd files" where
  "clone_file x s = (case x of Some k \<Rightarrow> clone_arc k s | None \<Rightarrow> s)"

definition fork_files :: "'d files \<Rightarrow> 'd files" where
  "fork_files s =
     (let s1 = fold clone_file (open_files s) s; C = ctx (fsys s) in
      s1\<lparr>fsys := clone_dir (current_directory C) (clone_dir (root_directory C) (fsys s1))\<rparr>)"

end
