(* ===== verification/Fs_Triples.thy ===== *)
theory Fs_Triples
  imports Fs_Calls
begin

text \<open>
  A small Hoare logic for the operations of the file system calls, and the operations that return no
  error number.
\<close>

section \<open>Triples\<close>

text \<open>\<open>E\<close> holds when the operation fails; a panic ends the kernel.\<close>

definition triple :: "('s \<Rightarrow> bool) \<Rightarrow> ('s, 'a) op \<Rightarrow> ('a \<Rightarrow> 's \<Rightarrow> bool) \<Rightarrow> ('s \<Rightarrow> bool) \<Rightarrow> bool" where
  "triple P m Q E \<longleftrightarrow> (\<forall>s. P s \<longrightarrow> (case m s of (Ok a, s') \<Rightarrow> Q a s' | (Err e, s') \<Rightarrow> E s' | (Panic, s') \<Rightarrow> True))"

named_theorems triples \<open>rules of the triple logic\<close>

lemma tripleI:
  "(\<And>s a s'. P s \<Longrightarrow> m s = (Ok a, s') \<Longrightarrow> Q a s') \<Longrightarrow> (\<And>s e s'. P s \<Longrightarrow> m s = (Err e, s') \<Longrightarrow> E s') \<Longrightarrow> triple P m Q E"
  by (auto simp: triple_def split: prod.splits outcome.splits)

lemma tripleD:
  assumes "triple P m Q E" "P s"
  shows "m s = (Ok a, s') \<Longrightarrow> Q a s'" "m s = (Err e, s') \<Longrightarrow> E s'"
  using assms by (auto simp: triple_def split: prod.splits outcome.splits)

lemma triple_bind [triples]:
  assumes "triple P m R E" "\<And>a. triple (R a) (f a) Q E"
  shows "triple P (bind_op m f) Q E"
proof (rule tripleI)
  fix s b s' assume p: "P s" "bind_op m f s = (Ok b, s')"
  then obtain a s1 where a: "m s = (Ok a, s1)" "f a s1 = (Ok b, s')" by (auto simp: bind_op_Ok_iff)
  show "Q b s'" by (rule tripleD(1) [OF assms(2) tripleD(1) [OF assms(1) p(1) a(1)] a(2)])
next
  fix s e s' assume p: "P s" "bind_op m f s = (Err e, s')"
  then consider "m s = (Err e, s')" | a s1 where "m s = (Ok a, s1)" "f a s1 = (Err e, s')"
    by (auto simp: bind_op_Err_iff)
  then show "E s'"
  proof cases
    case 1
    show ?thesis by (rule tripleD(2) [OF assms(1) p(1) 1])
  next
    case 2
    show ?thesis by (rule tripleD(2) [OF assms(2) tripleD(1) [OF assms(1) p(1) 2(1)] 2(2)])
  qed
qed

lemma triple_ok: "(\<And>s. P s \<Longrightarrow> Q a s) \<Longrightarrow> triple P (\<lambda>s. (Ok a, s)) Q E"
  by (simp add: triple_def)

lemma triple_ok_upd: "(\<And>s. P s \<Longrightarrow> Q a (g s)) \<Longrightarrow> triple P (\<lambda>s. (Ok a, g s)) Q E"
  by (simp add: triple_def)

lemma triple_panic: "triple P (\<lambda>s. (Panic, g s)) Q E"
  by (simp add: triple_def)

lemma triple_require [triples]: "triple P (require c e) (\<lambda>_. P) P"
  by (simp add: triple_def require_def)

lemma triple_ok_or [triples]:
  "triple P m (\<lambda>r s. case r of None \<Rightarrow> E s | Some x \<Rightarrow> Q x s) E \<Longrightarrow> triple P (ok_or m e) Q E"
  unfolding ok_or_def by (erule triple_bind) (auto simp: triple_def split: option.splits)

lemma triple_if [triples]: "(c \<Longrightarrow> triple P m Q E) \<Longrightarrow> (\<not> c \<Longrightarrow> triple P m' Q E) \<Longrightarrow> triple P (if c then m else m') Q E"
  by simp

section \<open>Operations without errors\<close>

text \<open>Resolution returns no \<open>Errno\<close>: what can go wrong in it is a panic or \<open>None\<close>.\<close>

definition noerr :: "('s, 'a) op \<Rightarrow> bool" where
  "noerr m \<longleftrightarrow> (\<forall>s e s'. m s \<noteq> (Err e, s'))"

named_theorems noerrs \<open>operations that return no error number\<close>

lemma noerrI: "(\<And>s e s'. m s = (Err e, s') \<Longrightarrow> False) \<Longrightarrow> noerr m"
  by (auto simp: noerr_def)

lemma triple_noerr: "noerr m \<Longrightarrow> triple P m Q E \<Longrightarrow> triple P m Q E'"
  by (rule tripleI) (auto dest: tripleD(1) simp: noerr_def)

lemma noerr_bind [noerrs]: "noerr m \<Longrightarrow> (\<And>a. noerr (f a)) \<Longrightarrow> noerr (bind_op m f)"
  by (auto simp: noerr_def bind_op_Err_iff)

lemma noerr_for_op [noerrs]: "(\<And>x. noerr (f x)) \<Longrightarrow> noerr (for_op f xs)"
proof (induction xs)
  case (Cons x xs)
  then have "noerr (bind_op (f x) (\<lambda>_. for_op f xs))" by (intro noerr_bind) auto
  then show ?case by (simp add: noerr_def)
qed (simp add: noerr_def)

lemma noerr_basic [noerrs]:
  "noerr (\<lambda>s. (Ok a, g s))" "noerr (\<lambda>s. (Panic, g s))"
  "noerr m \<Longrightarrow> noerr m' \<Longrightarrow> noerr (\<lambda>s. if c s then m s else m' s)"
  "noerr m \<Longrightarrow> noerr m' \<Longrightarrow> noerr (if d then m else m')"
  "noerr m0 \<Longrightarrow> (\<And>x. noerr (m1 x)) \<Longrightarrow> noerr (\<lambda>s. case r s of None \<Rightarrow> m0 s | Some x \<Rightarrow> m1 x s)"
  "noerr m0 \<Longrightarrow> (\<And>x. noerr (m1 x)) \<Longrightarrow> noerr (case q of None \<Rightarrow> m0 | Some x \<Rightarrow> m1 x)"
  by (auto simp: noerr_def split: option.splits)

lemma noerr_drop_ref [noerrs]: "noerr m \<Longrightarrow> noerr (\<lambda>v. m (drop_ref i v))"
  by (simp add: noerr_def)

lemma noerr_lift [noerrs]: "noerr m \<Longrightarrow> noerr (lift_store m)" "noerr m \<Longrightarrow> noerr (on_store dev m)"
  by (auto simp: noerr_def lift_store_def on_store_def split: prod.splits)

lemma noerr_bitmap [noerrs]: "noerr (modify_word b i g)" "noerr (bitmap_dealloc b n)" "noerr (free_zone f z)"
  by (auto simp: noerr_def modify_word_def bitmap_dealloc_def free_zone_def Let_def split: option.splits prod.splits if_splits)

lemma noerr_inode [noerrs]:
  "noerr (read_inode f n)" "noerr (write_inode f n d)" "noerr inode_file_type" "noerr (check_permission_as w u g)"
  by (auto simp: noerr_def read_inode_def write_inode_def inode_file_type_def check_permission_as_def Let_def
      split: option.splits prod.splits if_splits)

lemma noerr_free_zone_tree [noerrs]: "noerr (free_zone_tree f z n)"
proof (induction n arbitrary: z)
  case 0
  then show ?case using noerr_bitmap(3) [of f z] by (auto simp: noerr_def split: if_splits)
next
  case (Suc n)
  have "noerr (bind_op (if c then for_op (\<lambda>child. free_zone_tree f child n) zs else (\<lambda>s. (Ok (), s))) (\<lambda>_. free_zone f z))" for c zs
    by (intro noerrs Suc.IH)
  then show ?case by (auto simp: noerr_def split: if_splits)
qed

lemma noerr_truncate [noerrs]: "noerr Minix_File.truncate"
proof -
  have "noerr (bind_op (lift_store (for_op (free_zone f) zs)) (\<lambda>_.
      bind_op (lift_store (free_zone_tree f y 1)) (\<lambda>_.
      bind_op (lift_store (free_zone_tree f x 2)) (\<lambda>_ s. (Ok (), g s)))))" for f zs x y g
    by (intro noerrs)
  then show ?thesis
    by (intro noerrI) (auto simp: Minix_File.truncate_def Let_def noerr_def split: option.splits if_splits)
qed

lemma noerr_inode_sync [noerrs]: "noerr (inode_sync n)"
proof -
  have "noerr (bind_op (lift_store (write_inode f n d)) (\<lambda>_ s. (Ok (), set_inode (\<lambda>i. i\<lparr>is_dirty := False\<rparr>) s)))" for f d
    by (intro noerrs)
  then show ?thesis by (intro noerrI) (auto simp: inode_sync_def noerr_def split: option.splits if_splits)
qed

lemma noerr_free_inode [noerrs]: "noerr (free_inode f n)"
  unfolding free_inode_def by (intro noerrs)

lemma noerr_run [noerrs]: "noerr f \<Longrightarrow> noerr (run_slot k f)" "noerr f \<Longrightarrow> noerr (run_inode i f)"
  by (auto simp: noerr_def run_slot_def run_inode_def split: option.splits prod.splits)

lemma noerr_flush_slot [noerrs]: "noerr (flush_slot k)"
proof -
  have "noerr (bind_op (if l then bind_op (run_slot k Minix_File.truncate) (\<lambda>_ v.
        case upgrade n v of None \<Rightarrow> (Ok (), v) | Some f \<Rightarrow> on_store dev (free_inode f m) v)
      else run_slot k (inode_sync m)) (\<lambda>_ v. (Ok (), v\<lparr>inode_slots := (inode_slots v)[k := None]\<rparr>)))" for l n dev m
    by (intro noerrs)
  then show ?thesis by (intro noerrI) (auto simp: flush_slot_def noerr_def split: option.splits)
qed

lemma noerr_install [noerrs]: "noerr (install c)"
proof -
  have "noerr (bind_op (flush_slot k) (\<lambda>_ v. (Ok (), v\<lparr>inode_slots := (inode_slots v)[k := Some c],
      clock := (k + 1) mod INODE_TABLE_CAPACITY\<rparr>)))" for k by (intro noerrs)
  then show ?thesis by (intro noerrI) (auto simp: install_def noerr_def split: option.splits)
qed

lemma noerr_acquire_raw [noerrs]: "noerr (acquire_raw i n)"
proof -
  have "noerr (bind_op (on_store dev (read_inode f m)) (\<lambda>d. bind_op (install (g d)) (\<lambda>_ v. (Ok (), clone_ref i v))))" for dev f m g
    by (intro noerrs)
  then show ?thesis by (intro noerrI) (auto simp: acquire_raw_def noerr_def split: option.splits if_splits)
qed

lemma noerr_resolve_loop: "noerr (resolve_loop fuel i)"
proof (induction fuel arbitrary: i)
  case (Suc fuel)
  have "noerr (bind_op (acquire_raw i n) (\<lambda>_ v. case mounted_root_at i v of None \<Rightarrow> (Ok i, v)
      | Some r \<Rightarrow> resolve_loop fuel r (drop_ref i v)))" for n
    by (intro noerrs Suc.IH)
  then show ?case by (auto simp: noerr_def split: option.splits)
qed (simp add: noerr_def)

lemma noerr_resolve_inode [noerrs]: "noerr (resolve_inode i)"
  using noerr_resolve_loop by (auto simp: noerr_def resolve_inode_def simp del: resolve_loop.simps)

lemma noerr_lookup_or_none [noerrs]: "noerr (lookup_or_none i name)"
  by (auto simp: noerr_def lookup_or_none_def split: prod.splits outcome.splits)

lemma noerr_check_permission [noerrs]: "noerr (check_permission i w)"
  unfolding check_permission_def using noerr_run(2) [OF noerr_inode(4)] by (auto simp: noerr_def)

end
