(* ===== verification/Vfs_Refs.thy ===== *)
theory Vfs_Refs
  imports Fs_Triples
begin

text \<open>
  Reference accounting of the inode table: every handle taken is given back, the count of an inode
  is exactly the number of its owners, and an inode with an owner is never evicted.
\<close>

section \<open>Balance\<close>

definition ids :: "vfs \<Rightarrow> InodeId option list" where
  "ids v = map (map_option cached_id) (inode_slots v)"

text \<open>\<open>bal b C M\<close>: the reference counts are \<open>b\<close>, every referenced inode is cached, and the context of the
  task and the mounts are \<open>C\<close> and \<open>M\<close>.\<close>

definition bal :: "(InodeId \<Rightarrow> nat) \<Rightarrow> task_context \<Rightarrow> Mount option list \<Rightarrow> vfs \<Rightarrow> bool" where
  "bal b C M v \<longleftrightarrow> refs v = b \<and> ctx v = C \<and> mounts v = M \<and> length (inode_slots v) = INODE_TABLE_CAPACITY
     \<and> (\<forall>i. 0 < b i \<longrightarrow> Some i \<in> set (ids v))"

definition add :: "InodeId \<Rightarrow> (InodeId \<Rightarrow> nat) \<Rightarrow> InodeId \<Rightarrow> nat" where
  "add i b = b(i := Suc (b i))"

lemma bal_cong: "refs v' = refs v \<Longrightarrow> ctx v' = ctx v \<Longrightarrow> mounts v' = mounts v \<Longrightarrow> ids v' = ids v \<Longrightarrow> bal b C M v' = bal b C M v"
proof -
  assume "refs v' = refs v" "ctx v' = ctx v" "mounts v' = mounts v" and i: "ids v' = ids v"
  moreover have "length (inode_slots v') = length (inode_slots v)" using arg_cong [OF i, of length] by (simp add: ids_def)
  ultimately show ?thesis by (simp only: bal_def)
qed

lemma bal_drop: "bal (add i b) C M v \<Longrightarrow> bal b C M (drop_ref i v)"
  by (auto simp: bal_def add_def drop_ref_def ids_def fun_upd_def split: if_splits)

lemma bal_clone: "bal b C M v \<Longrightarrow> Some i \<in> set (ids v) \<Longrightarrow> bal (add i b) C M (clone_ref i v)"
  by (auto simp: bal_def add_def clone_ref_def ids_def)

lemma ids_run_slot:
  "ids (snd (run_slot k f v)) = ids v" "refs (snd (run_slot k f v)) = refs v" "ctx (snd (run_slot k f v)) = ctx v"
  "mounts (snd (run_slot k f v)) = mounts v"
proof -
  have u: "map (map_option cached_id) ((inode_slots v)[k := Some (c\<lparr>cached_inner := j\<rparr>)]) = map (map_option cached_id) (inode_slots v)"
    if "inode_slots v ! k = Some c" for c j
    using that by (cases "k < length (inode_slots v)") (simp_all add: map_update list_update_same_conv list_update_beyond)
  show "ids (snd (run_slot k f v)) = ids v" "refs (snd (run_slot k f v)) = refs v" "ctx (snd (run_slot k f v)) = ctx v"
    "mounts (snd (run_slot k f v)) = mounts v"
    by (auto simp: run_slot_def ids_def u split: option.splits prod.splits)
qed

lemma bal_run_slot [simp]: "bal b C M (snd (run_slot k f v)) = bal b C M v"
  by (rule bal_cong) (simp_all add: ids_run_slot)

lemma bal_run_inode: "bal b C M (snd (run_inode i f v)) = bal b C M v"
  by (simp add: run_inode_def split: option.splits)

lemma triple_snd: "(\<And>v. P (snd (m v)) = P v) \<Longrightarrow> triple P m (\<lambda>_. P) P"
  by (rule tripleI) (metis snd_conv)+

lemma triple_run_inode [triples]: "triple (bal b C M) (run_inode i f) (\<lambda>_. bal b C M) (bal b C M)"
  by (rule triple_snd) (rule bal_run_inode)

lemma triple_run_slot: "triple (bal b C M) (run_slot k f) (\<lambda>_. bal b C M) (bal b C M)"
  by (rule triple_snd) simp

lemma triple_update_inode [triples]: "triple (bal b C M) (update_inode i g) (\<lambda>_. bal b C M) (bal b C M)"
  unfolding update_inode_def by (rule triple_run_inode)

lemma ids_on_store:
  "ids (snd (on_store dev f v)) = ids v" "refs (snd (on_store dev f v)) = refs v" "ctx (snd (on_store dev f v)) = ctx v"
  "mounts (snd (on_store dev f v)) = mounts v"
  by (simp_all add: on_store_def ids_def split: prod.splits)

lemma triple_on_store [triples]: "triple (bal b C M) (on_store dev f) (\<lambda>_. bal b C M) (bal b C M)"
  by (rule triple_snd, rule bal_cong) (simp_all add: ids_on_store)

lemma triple_check_permission [triples]: "triple (bal b C M) (check_permission i m) (\<lambda>_. bal b C M) (bal b C M)"
  by (rule triple_snd) (simp add: check_permission_def bal_run_inode)

lemma triple_holding [triples]:
  assumes "triple (bal (add i b) C M) m (\<lambda>_. bal (add i b) C M) (bal (add i b) C M)"
  shows "triple (bal (add i b) C M) (holding i m) (\<lambda>_. bal b C M) (bal b C M)"
proof (rule tripleI)
  fix s a s' assume p: "bal (add i b) C M s" and h: "holding i m s = (Ok a, s')"
  then obtain s1 where "m s = (Ok a, s1)" "s' = drop_ref i s1"
    by (auto simp: holding_def split: prod.splits outcome.splits)
  then show "bal b C M s'" using tripleD(1) [OF assms p] bal_drop by blast
next
  fix s e s' assume p: "bal (add i b) C M s" and h: "holding i m s = (Err e, s')"
  then obtain s1 where "m s = (Err e, s1)" "s' = drop_ref i s1"
    by (auto simp: holding_def split: prod.splits outcome.splits)
  then show "bal b C M s'" using tripleD(2) [OF assms p] bal_drop by blast
qed

section \<open>The inode table\<close>

lemma flush_slot_effect:
  assumes "flush_slot k v = (Ok u, v')"
  shows "ids v' = (ids v)[k := None]" "refs v' = refs v" "ctx v' = ctx v" "mounts v' = mounts v"
proof -
  obtain c where c: "inode_slots v ! k = Some c" using assms by (auto simp: flush_slot_def split: option.splits)
  let ?m = "if link_count (disk_inode (cached_inner c)) = 0 then
      bind_op (run_slot k Minix_File.truncate) (\<lambda>_ v.
        case upgrade (fs_ref c) v of
          None \<Rightarrow> (Ok (), v)
        | Some f \<Rightarrow> on_store (id_device (cached_id c)) (free_inode f (id_number (cached_id c))) v)
    else run_slot k (inode_sync (id_number (cached_id c)))"
  let ?P = "\<lambda>w. ids w = ids v \<and> refs w = refs v \<and> ctx w = ctx v \<and> mounts w = mounts v"
  have slot: "triple ?P (run_slot k f) (\<lambda>_. ?P) ?P" for f :: "(inode_state, unit) op"
    by (rule triple_snd) (simp add: ids_run_slot)
  have store: "triple ?P (on_store dev f) (\<lambda>_. ?P) ?P" for dev and f :: "(store, unit) op"
    by (rule triple_snd) (simp add: ids_on_store)
  have free: "triple ?P (\<lambda>v. case upgrade (fs_ref c) v of None \<Rightarrow> (Ok (), v)
      | Some f \<Rightarrow> on_store (id_device (cached_id c)) (free_inode f (id_number (cached_id c))) v) (\<lambda>_. ?P) ?P"
    by (rule triple_snd) (simp add: ids_on_store split: option.splits)
  have t: "triple ?P ?m (\<lambda>_. ?P) ?P"
    by (intro triple_if triple_bind [where R = "\<lambda>_. ?P"] slot free)
  obtain w where w: "?m v = (Ok (), w)" and v': "v' = w\<lparr>inode_slots := (inode_slots w)[k := None]\<rparr>"
    using assms c by (auto simp: flush_slot_def bind_op_Ok_iff)
  have p: "?P w" by (rule tripleD(1) [OF t _ w]) simp
  then have "refs w = refs v" "ctx w = ctx v" "mounts w = mounts v" and i: "ids w = ids v" by simp_all
  then show "refs v' = refs v" "ctx v' = ctx v" "mounts v' = mounts v" by (simp_all add: v')
  show "ids v' = (ids v)[k := None]" using i by (simp add: v' ids_def map_update)
qed

lemma flush_slot_err: "flush_slot k v = (Err e, v') \<Longrightarrow> bal b C M v \<Longrightarrow> bal b C M v'"
proof -
  assume f: "flush_slot k v = (Err e, v')" and b: "bal b C M v"
  have "triple (bal b C M) (\<lambda>v. case upgrade n v of None \<Rightarrow> (Ok (), v) | Some f \<Rightarrow> on_store dev (free_inode f m) v)
      (\<lambda>_. bal b C M) (bal b C M)" for n dev m
    by (rule triple_snd, rule bal_cong) (simp_all add: ids_on_store split: option.splits)
  then have t: "triple (bal b C M) (if c then bind_op (run_slot k Minix_File.truncate) (\<lambda>_ v.
        case upgrade n v of None \<Rightarrow> (Ok (), v) | Some f \<Rightarrow> on_store dev (free_inode f m) v)
    else run_slot k (inode_sync m)) (\<lambda>_. bal b C M) (bal b C M)" for c n dev m
    by (intro triple_if triple_bind [where R = "\<lambda>_. bal b C M"] triple_run_slot)
  show ?thesis
    using f tripleD(2) [OF t b] by (auto simp: flush_slot_def bind_op_Err_iff split: option.splits)
qed

lemma find_victim_unreferenced:
  "find_victim ks d v = Some k \<Longrightarrow> (\<And>j. d = Some j \<Longrightarrow> j \<in> S \<and> (\<exists>c. inode_slots v ! j = Some c \<and> refs v (cached_id c) = 0)) \<Longrightarrow>
   set ks \<subseteq> S \<Longrightarrow> k \<in> S \<and> (\<exists>c. inode_slots v ! k = Some c \<and> refs v (cached_id c) = 0)"
proof (induction ks d v rule: find_victim.induct)
  case (2 j ks d v)
  show ?case
  proof (cases "inode_slots v ! j")
    case None
    with 2 show ?thesis by simp
  next
    case (Some c)
    with 2 show ?thesis by (auto split: if_splits option.splits)
  qed
qed simp

lemma install_bal:
  assumes b: "bal b C M v"
  shows "install c v = (Ok u, v') \<Longrightarrow> bal b C M v' \<and> Some (cached_id c) \<in> set (ids v')"
    and "install c v = (Err e, v') \<Longrightarrow> bal b C M v'"
proof -
  have len: "length (inode_slots v) = INODE_TABLE_CAPACITY" using b by (simp add: bal_def)
  have put: "bal b C M w' \<and> Some (cached_id c) \<in> set (ids w')"
    if w: "ids w = (ids v)[k := None]" "refs w = refs v" "ctx w = ctx v" "mounts w = mounts v"
      and k: "k < length (inode_slots v)" and un: "\<And>i. ids v ! k = Some i \<Longrightarrow> refs v i = 0"
      and w': "ids w' = (ids w)[k := Some (cached_id c)]" "refs w' = refs w" "ctx w' = ctx w" "mounts w' = mounts w" for w w' k
  proof -
    have "length (ids w') = length (ids v)" using w(1) w'(1) by simp
    then have l: "length (inode_slots w') = INODE_TABLE_CAPACITY" using len by (simp add: ids_def)
    have "Some i \<in> set (ids w')" if i: "0 < b i" for i
    proof -
      have "Some i \<in> set (ids v)" "refs v i \<noteq> 0" using b i by (auto simp: bal_def)
      then obtain j where j: "j < length (ids v)" "ids v ! j = Some i" "j \<noteq> k"
        using un by (metis in_set_conv_nth)
      then have "ids w' ! j = Some i" using w(1) w'(1) by simp
      then show ?thesis using j(1) w(1) w'(1) by (metis length_list_update nth_mem)
    qed
    moreover have "Some (cached_id c) \<in> set (ids w')"
      using w(1) w'(1) k by (simp add: ids_def set_update_memI)
    ultimately show ?thesis using b w(2-4) w'(2-4) l by (simp add: bal_def)
  qed
  let ?free = "find (\<lambda>k. inode_slots v ! k = None) [0..<length (inode_slots v)]"
  show "install c v = (Ok u, v') \<Longrightarrow> bal b C M v' \<and> Some (cached_id c) \<in> set (ids v')"
  proof -
    assume r: "install c v = (Ok u, v')"
    show ?thesis
    proof (cases ?free)
      case (Some k)
      then have k: "k < length (inode_slots v)" "inode_slots v ! k = None" by (auto simp: find_Some_iff)
      have v': "v' = v\<lparr>inode_slots := (inode_slots v)[k := Some c]\<rparr>" using r Some by (simp add: install_def)
      have "(ids v)[k := None] = ids v" using k by (metis (mono_tags) ids_def list_update_id nth_map option.map_disc_iff)
      then show ?thesis
        using k by (intro put [of v k v']) (auto simp: v' ids_def map_update)
    next
      case None
      then obtain k w where k: "find_victim (clock_order v) None v = Some k" "flush_slot k v = (Ok (), w)"
        "v' = w\<lparr>inode_slots := (inode_slots w)[k := Some c], clock := (k + 1) mod INODE_TABLE_CAPACITY\<rparr>"
        using r by (auto simp: install_def bind_op_Ok_iff split: option.splits)
      have "set (clock_order v) \<subseteq> {..<INODE_TABLE_CAPACITY}" by (auto simp: clock_order_def INODE_TABLE_CAPACITY_def)
      from find_victim_unreferenced [OF k(1) _ this]
      obtain d where d: "k < INODE_TABLE_CAPACITY" "inode_slots v ! k = Some d" "refs v (cached_id d) = 0" by auto
      show ?thesis
        by (rule put [OF flush_slot_effect [OF k(2)]])
          (use d len in \<open>auto simp: k(3) ids_def map_update\<close>)
    qed
  qed
  show "install c v = (Err e, v') \<Longrightarrow> bal b C M v'"
    using flush_slot_err [OF _ b] by (auto simp: install_def bind_op_Err_iff split: option.splits)
qed

lemma slot_of_cached: "slot_of i v = Some k \<Longrightarrow> Some i \<in> set (ids v)"
proof -
  assume "slot_of i v = Some k"
  then have k: "k < length (inode_slots v)" "case inode_slots v ! k of Some c \<Rightarrow> cached_id c = i | None \<Rightarrow> False"
    by (auto simp: slot_of_def find_Some_iff)
  then have "ids v ! k = Some i" by (auto simp: ids_def split: option.splits)
  with k(1) show ?thesis by (metis ids_def length_map nth_mem)
qed

lemma triple_acquire_raw [triples]:
  "triple (bal b C M) (acquire_raw i n) (\<lambda>_. bal (add i b) C M) (bal b C M)"
proof -
  have inst: "triple (bal b C M) (install c) (\<lambda>_ v. bal b C M v \<and> Some (cached_id c) \<in> set (ids v)) (bal b C M)" for c
    using install_bal by (intro tripleI) blast+
  let ?c = "\<lambda>d. \<lparr>cached_id = i, fs_ref = n,
      cached_inner = \<lparr>disk_inode = d, is_dirty = False, access_time = 0, change_time = 0\<rparr>\<rparr>"
  have load: "triple (bal b C M) (bind_op (on_store (device f) (read_inode f (id_number i))) (\<lambda>d.
      bind_op (install (?c d)) (\<lambda>_ v. (Ok (), clone_ref i v)))) (\<lambda>_. bal (add i b) C M) (bal b C M)" for f
    by (rule triple_bind [OF triple_on_store], rule triple_bind [OF inst], rule triple_ok_upd) (auto intro: bal_clone)
  show ?thesis
  proof (rule tripleI)
    fix v u v' assume v: "bal b C M v" and r: "acquire_raw i n v = (Ok u, v')"
    show "bal (add i b) C M v'"
    proof (cases "slot_of i v")
      case None
      with r obtain f where "bind_op (on_store (device f) (read_inode f (id_number i))) (\<lambda>d.
          bind_op (install (?c d)) (\<lambda>_ v. (Ok (), clone_ref i v))) v = (Ok u, v')"
        by (auto simp: acquire_raw_def split: if_splits option.splits)
      then show ?thesis by (rule tripleD(1) [OF load v])
    next
      case (Some k)
      with r have "v' = clone_ref i v" by (auto simp: acquire_raw_def split: if_splits)
      with bal_clone [OF v slot_of_cached [OF Some]] show ?thesis by simp
    qed
  next
    fix v e v' assume v: "bal b C M v" and r: "acquire_raw i n v = (Err e, v')"
    then obtain f where "bind_op (on_store (device f) (read_inode f (id_number i))) (\<lambda>d.
          bind_op (install (?c d)) (\<lambda>_ v. (Ok (), clone_ref i v))) v = (Err e, v')"
      by (auto simp: acquire_raw_def split: if_splits option.splits)
    then show "bal b C M v'" by (rule tripleD(2) [OF load v])
  qed
qed

section \<open>Resolution\<close>

text \<open>A step that depends on the state it starts from.\<close>

lemma triple_state: "(\<And>s0. P s0 \<Longrightarrow> triple (\<lambda>s. s = s0) m Q E) \<Longrightarrow> triple P m Q E"
  by (simp add: triple_def)

lemma triple_at: "triple P m Q E \<Longrightarrow> P s0 \<Longrightarrow> m' s0 = m s0 \<Longrightarrow> triple (\<lambda>s. s = s0) m' Q E"
  by (simp add: triple_def)

lemma triple_pre: "triple P m Q E \<Longrightarrow> (\<And>s. P' s \<Longrightarrow> P s) \<Longrightarrow> triple P' m Q E"
  by (simp add: triple_def)

lemma triple_drop_then:
  "triple (bal b C M) m Q E \<Longrightarrow> triple (bal (add i b) C M) (\<lambda>v. m (drop_ref i v)) Q E"
  using bal_drop by (auto simp: triple_def)

lemma triple_case_option [triples]:
  "triple (P None) (f None) Q E \<Longrightarrow> (\<And>x. triple (P (Some x)) (f (Some x)) Q E) \<Longrightarrow> triple (P r) (f r) Q E"
  by (cases r) simp_all

lemma resolve_loop_bal:
  "triple (bal b C M) (resolve_loop fuel i) (\<lambda>r. bal (add r b) C M) (bal b C M)"
proof (induction fuel arbitrary: i)
  case 0
  then show ?case by (simp add: triple_def)
next
  case (Suc fuel)
  have cont: "triple (bal (add i b) C M) (\<lambda>v. case mounted_root_at i v of None \<Rightarrow> (Ok i, v)
      | Some r \<Rightarrow> resolve_loop fuel r (drop_ref i v)) (\<lambda>r. bal (add r b) C M) (bal b C M)"
  proof (rule triple_state)
    fix v assume v: "bal (add i b) C M v"
    show "triple (\<lambda>s. s = v) (\<lambda>v. case mounted_root_at i v of None \<Rightarrow> (Ok i, v)
      | Some r \<Rightarrow> resolve_loop fuel r (drop_ref i v)) (\<lambda>r. bal (add r b) C M) (bal b C M)"
    proof (cases "mounted_root_at i v")
      case None
      with v show ?thesis by (simp add: triple_def)
    next
      case (Some r)
      show ?thesis by (rule triple_at [OF triple_drop_then [OF Suc.IH [of r]] v]) (simp add: Some)
    qed
  qed
  show ?case
  proof (rule triple_state)
    fix v assume v: "bal b C M v"
    show "triple (\<lambda>s. s = v) (resolve_loop (Suc fuel) i) (\<lambda>r. bal (add r b) C M) (bal b C M)"
    proof (cases "find_fs (id_device i) v")
      case None
      then show ?thesis by (simp add: triple_def)
    next
      case (Some n)
      show ?thesis
        by (rule triple_at [OF triple_bind [OF triple_acquire_raw [of b C M i n] cont] v]) (simp add: Some)
    qed
  qed
qed

lemma triple_resolve_inode [triples]:
  "triple (bal b C M) (resolve_inode i) (\<lambda>r. bal (add r b) C M) (bal b C M)"
  using resolve_loop_bal [of b C M "Suc MOUNT_TABLE_CAPACITY" i] by (auto simp: triple_def resolve_inode_def)

lemma triple_lookup_or_none [triples]:
  "triple (bal b C M) (lookup_or_none i name) (\<lambda>_. bal b C M) (bal b C M)"
proof (rule triple_snd)
  fix v
  have "snd (lookup_or_none i name v) = snd (run_inode i (lookup name) v)"
    by (simp add: lookup_or_none_def split: prod.splits outcome.splits)
  then show "bal b C M (snd (lookup_or_none i name v)) = bal b C M v" by (simp add: bal_run_inode)
qed

text \<open>The result of a resolution: \<open>None\<close> with nothing held, or an inode with a handle on it.\<close>

definition res :: "(InodeId \<Rightarrow> nat) \<Rightarrow> task_context \<Rightarrow> Mount option list \<Rightarrow> InodeId option \<Rightarrow> vfs \<Rightarrow> bool" where
  "res b C M r = (case r of None \<Rightarrow> bal b C M | Some i \<Rightarrow> bal (add i b) C M)"

lemma res_simps [simp]: "res b C M None = bal b C M" "res b C M (Some i) = bal (add i b) C M"
  by (simp_all add: res_def)

lemma bal_cached: "bal b C M v \<Longrightarrow> 0 < b i \<Longrightarrow> Some i \<in> set (ids v)"
  by (simp add: bal_def)

lemma noerr_resolve_dotdot [noerrs]: "noerr (resolve_dotdot cur root)"
proof -
  have "noerr (bind_op (lookup_or_none base [DOT, DOT]) (\<lambda>r v. case r of None \<Rightarrow> (Ok None, v)
      | Some n \<Rightarrow> bind_op (resolve_inode (g n)) (\<lambda>i v. (Ok (Some i), v)) v))" for base g
    by (intro noerrs)
  then show ?thesis by (auto simp: noerr_def resolve_dotdot_def Let_def split: if_splits)
qed

lemma triple_resolve_dotdot:
  "triple (bal (add cur b) C M) (resolve_dotdot cur root) (\<lambda>r. res (add cur b) C M r) E"
proof (rule triple_noerr [OF noerr_resolve_dotdot], rule triple_state)
  fix v assume v: "bal (add cur b) C M v"
  let ?b = "add cur b"
  show "triple (\<lambda>s. s = v) (resolve_dotdot cur root) (res ?b C M) (bal ?b C M)"
  proof (cases "cur = root")
    case True
    with v bal_clone [OF v bal_cached [OF v, of cur]] show ?thesis
      by (simp add: triple_def resolve_dotdot_def add_def)
  next
    case False
    let ?base = "case mount_point_for_root cur v of Some m \<Rightarrow> m | None \<Rightarrow> cur"
    have step: "triple (bal ?b C M) (\<lambda>v. case r of None \<Rightarrow> (Ok None, v)
        | Some n \<Rightarrow> bind_op (resolve_inode \<lparr>id_device = id_device ?base, id_number = n\<rparr>) (\<lambda>i v. (Ok (Some i), v)) v)
        (res ?b C M) (bal ?b C M)" for r
    proof (cases r)
      case None
      then show ?thesis by (simp add: triple_def)
    next
      case (Some n)
      have "triple (bal ?b C M) (bind_op (resolve_inode \<lparr>id_device = id_device ?base, id_number = n\<rparr>) (\<lambda>i v. (Ok (Some i), v)))
          (res ?b C M) (bal ?b C M)"
        by (rule triple_bind [OF triple_resolve_inode], rule triple_ok) simp
      with Some show ?thesis by simp
    qed
    have run: "resolve_dotdot cur root v = bind_op (lookup_or_none ?base [DOT, DOT]) (\<lambda>r v. case r of None \<Rightarrow> (Ok None, v)
        | Some n \<Rightarrow> bind_op (resolve_inode \<lparr>id_device = id_device ?base, id_number = n\<rparr>) (\<lambda>i v. (Ok (Some i), v)) v) v"
      using False by (simp add: resolve_dotdot_def Let_def)
    have "triple (bal ?b C M) (bind_op (lookup_or_none ?base [DOT, DOT]) (\<lambda>r v. case r of None \<Rightarrow> (Ok None, v)
        | Some n \<Rightarrow> bind_op (resolve_inode \<lparr>id_device = id_device ?base, id_number = n\<rparr>) (\<lambda>i v. (Ok (Some i), v)) v))
        (res ?b C M) (bal ?b C M)"
      by (rule triple_bind [OF triple_lookup_or_none]) (rule step)
    from this v run show ?thesis by (rule triple_at)
  qed
qed

lemma noerr_may_search [noerrs]: "noerr (may_search i)"
  unfolding may_search_def by (intro noerrs)

lemma triple_may_search [triples]: "triple (bal b C M) (may_search i) (\<lambda>_. bal b C M) (bal b C M)"
  unfolding may_search_def
  by (rule triple_bind [OF triple_run_inode]) (use triple_check_permission [of b C M i MAY_EXEC] in \<open>auto simp: triple_def\<close>)

lemma triple_drop: "triple (bal (add i b) C M) (\<lambda>v. (Ok a, drop_ref i v)) (\<lambda>_. bal b C M) E"
  using bal_drop by (auto simp: triple_def)

lemma add_commute: "add i (add j b) = add j (add i b)"
  by (auto simp: add_def fun_eq_iff)

lemma walk_bal: "triple (bal (add cur b) C M) (walk root cs cur) (res b C M) (\<lambda>_. False)"
proof (induction cs arbitrary: cur)
  case Nil
  then show ?case by (simp add: triple_def)
next
  case (Cons c cs)
  let ?b = "add cur b"
  have give_up: "triple (bal ?b C M) (\<lambda>v. (Ok None, drop_ref cur v)) (res b C M) (\<lambda>_. False)"
    using bal_drop by (auto simp: triple_def)
  have go: "triple (bal (add i ?b) C M) (\<lambda>v. walk root cs i (drop_ref cur v)) (res b C M) (\<lambda>_. False)" for i
    using triple_drop_then [OF Cons.IH [of i], of cur] by (simp add: add_commute [of i])
  have parent: "triple (bal ?b C M) (bind_op (resolve_dotdot cur root) (\<lambda>r v. case r of None \<Rightarrow> (Ok None, drop_ref cur v)
      | Some i \<Rightarrow> walk root cs i (drop_ref cur v))) (res b C M) (\<lambda>_. False)"
  proof (rule triple_bind [OF triple_resolve_dotdot])
    fix r
    show "triple (res ?b C M r) (\<lambda>v. case r of None \<Rightarrow> (Ok None, drop_ref cur v)
        | Some i \<Rightarrow> walk root cs i (drop_ref cur v)) (res b C M) (\<lambda>_. False)"
      using give_up go by (cases r) simp_all
  qed
  have name: "triple (bal ?b C M) (bind_op (lookup_or_none cur name) (\<lambda>r v. case r of None \<Rightarrow> (Ok None, drop_ref cur v)
      | Some n \<Rightarrow> bind_op (resolve_inode \<lparr>id_device = id_device cur, id_number = n\<rparr>)
          (\<lambda>i v. walk root cs i (drop_ref cur v)) v)) (res b C M) (\<lambda>_. False)" for name
  proof (rule triple_bind [OF triple_noerr [OF noerr_lookup_or_none triple_lookup_or_none]])
    fix r
    have "triple (bal ?b C M) (bind_op (resolve_inode i) (\<lambda>i v. walk root cs i (drop_ref cur v))) (res b C M) (\<lambda>_. False)" for i
      by (rule triple_bind [OF triple_noerr [OF noerr_resolve_inode triple_resolve_inode] go])
    then show "triple (bal ?b C M) (\<lambda>v. case r of None \<Rightarrow> (Ok None, drop_ref cur v)
      | Some n \<Rightarrow> bind_op (resolve_inode \<lparr>id_device = id_device cur, id_number = n\<rparr>)
          (\<lambda>i v. walk root cs i (drop_ref cur v)) v) (res b C M) (\<lambda>_. False)"
      using give_up by (cases r) simp_all
  qed
  have "triple (bal ?b C M) (bind_op (may_search cur) (\<lambda>ok v. if \<not> ok then (Ok None, drop_ref cur v) else case c of
        Current \<Rightarrow> walk root cs cur v
      | Parent \<Rightarrow> bind_op (resolve_dotdot cur root) (\<lambda>r v. case r of None \<Rightarrow> (Ok None, drop_ref cur v)
          | Some i \<Rightarrow> walk root cs i (drop_ref cur v)) v
      | Name name \<Rightarrow> bind_op (lookup_or_none cur name) (\<lambda>r v. case r of None \<Rightarrow> (Ok None, drop_ref cur v)
          | Some n \<Rightarrow> bind_op (resolve_inode \<lparr>id_device = id_device cur, id_number = n\<rparr>)
              (\<lambda>i v. walk root cs i (drop_ref cur v)) v) v)) (res b C M) (\<lambda>_. False)"
    (is "triple _ (bind_op _ ?f) _ _")
  proof (rule triple_bind [OF triple_noerr [OF noerr_may_search triple_may_search]])
    fix ok
    show "triple (bal ?b C M) (?f ok) (res b C M) (\<lambda>_. False)"
      using give_up parent name Cons.IH [of cur] by (cases ok; cases c) simp_all
  qed
  then show ?case by (simp add: triple_def)
qed

definition res_parent :: "(InodeId \<Rightarrow> nat) \<Rightarrow> task_context \<Rightarrow> Mount option list \<Rightarrow> (InodeId \<times> u8 list) option \<Rightarrow> vfs \<Rightarrow> bool" where
  "res_parent b C M r = res b C M (map_option fst r)"

lemma parent_path_no_err: "parent_path raw \<noteq> Err e"
  by (auto simp: parent_path_def Let_def slice_to_def split: if_splits)

lemma triple_resolve_parent:
  assumes own: "\<And>i. root_directory C = Some i \<or> current_directory C = Some i \<Longrightarrow> 0 < b i"
  shows "triple (bal b C M) (resolve_parent raw) (res_parent b C M) (\<lambda>_. False)"
proof (rule triple_state)
  fix v assume v: "bal b C M v"
  have ctx: "ctx v = C" using v by (simp add: bal_def)
  let ?fin = "\<lambda>basename r v. case r of
      None \<Rightarrow> (Ok None, v)
    | Some i \<Rightarrow>
        if basename = [] then (Ok (Some (i, basename)), v)
        else bind_op (may_search i) (\<lambda>ok v. if ok then (Ok (Some (i, basename)), v) else (Ok None, drop_ref i v)) v"
  have fin: "triple (res b C M r) (?fin basename r) (res_parent b C M) (\<lambda>_. False)" for basename r
  proof (cases r)
    case None
    then show ?thesis by (simp add: triple_def res_parent_def)
  next
    case (Some i)
    have "triple (bal (add i b) C M) (bind_op (may_search i) (\<lambda>ok v. if ok then (Ok (Some (i, basename)), v) else (Ok None, drop_ref i v)))
        (res_parent b C M) (\<lambda>_. False)"
      by (rule triple_bind [OF triple_noerr [OF noerr_may_search triple_may_search]])
        (auto simp: triple_def res_parent_def bal_drop)
    with Some show ?thesis by (auto simp: triple_def res_parent_def)
  qed
  have main: "triple (bal b C M) (\<lambda>v. bind_op (walk root cs start) (?fin basename) (clone_ref start v)) (res_parent b C M) (\<lambda>_. False)"
    if "0 < b start" for root cs start basename
  proof (rule triple_state)
    fix v assume v: "bal b C M v"
    have "bal (add start b) C M (clone_ref start v)" by (rule bal_clone [OF v bal_cached [OF v that]])
    then show "triple (\<lambda>s. s = v) (\<lambda>v. bind_op (walk root cs start) (?fin basename) (clone_ref start v)) (res_parent b C M) (\<lambda>_. False)"
      using triple_bind [OF walk_bal [of start b C M root cs], of "?fin basename"] fin by (simp add: triple_def)
  qed
  show "triple (\<lambda>s. s = v) (resolve_parent raw) (res_parent b C M) (\<lambda>_. False)"
  proof (cases "raw = [] \<or> root_directory C = None \<or> (\<not> is_absolute raw \<and> current_directory C = None)")
    case True
    with v ctx show ?thesis by (auto simp: triple_def resolve_parent_def res_parent_def split: option.splits)
  next
    case False
    then obtain root where root: "root_directory C = Some root" by auto
    obtain start where start: "(if is_absolute raw then Some root else current_directory C) = Some start"
      using False by (cases "is_absolute raw") auto
    have o: "0 < b start" using start root by (intro own) (auto split: if_splits)
    show ?thesis
    proof (cases "parent_path raw")
      case (Ok x)
      obtain cs basename where x: "x = (cs, basename)" by (cases x)
      have r: "resolve_parent raw v = bind_op (walk root cs start) (?fin basename) (clone_ref start v)"
        using False root start ctx Ok x by (cases "is_absolute raw") (simp_all add: resolve_parent_def)
      from main [OF o, of root cs basename] v r show ?thesis by (rule triple_at)
    next
      case (Err e)
      then show ?thesis using parent_path_no_err by blast
    next
      case Panic
      with False root start ctx show ?thesis by (cases "is_absolute raw") (simp_all add: triple_def resolve_parent_def)
    qed
  qed
qed

lemma triple_resolve_path:
  assumes own: "\<And>i. root_directory C = Some i \<or> current_directory C = Some i \<Longrightarrow> 0 < b i"
  shows "triple (bal b C M) (resolve_path raw) (res b C M) (\<lambda>_. False)"
  unfolding resolve_path_def
proof (rule triple_bind [OF triple_resolve_parent [OF own]], assumption)
  fix r
  let ?touch = "\<lambda>r v. case r of
      None \<Rightarrow> (Ok None, v)
    | Some i \<Rightarrow>
        bind_op (run_inode i (\<lambda>s. (Ok (), set_inode (touch_access (current_time s)) s))) (\<lambda>_ v. (Ok (Some i), v)) v"
  have touch: "triple (res b C M r) (?touch r) (res b C M) (\<lambda>_. False)" for r
  proof (cases r)
    case (Some i)
    have "noerr (run_inode i (\<lambda>s. (Ok (), set_inode (touch_access (current_time s)) s)))" by (intro noerrs)
    from triple_bind [OF triple_noerr [OF this triple_run_inode], of "add i b" C M "\<lambda>_ v. (Ok (Some i), v)" "res b C M"]
    show ?thesis using Some by (simp add: triple_def)
  qed (simp add: triple_def)
  show "triple (res_parent b C M r) (\<lambda>v. case r of
         None \<Rightarrow> (Ok None, v)
       | Some (dir, basename) \<Rightarrow>
           bind_op
             (if basename = [] then (\<lambda>v. (Ok (Some dir), v))
              else bind_op (lookup_or_none dir basename) (\<lambda>r v.
                case r of
                  None \<Rightarrow> (Ok None, drop_ref dir v)
                | Some n \<Rightarrow>
                    bind_op (resolve_inode \<lparr>id_device = id_device dir, id_number = n\<rparr>)
                      (\<lambda>i v. (Ok (Some i), drop_ref dir v)) v)) ?touch v) (res b C M) (\<lambda>_. False)"
  proof (cases r)
    case None
    then show ?thesis by (simp add: triple_def res_parent_def)
  next
    case (Some x)
    obtain dir basename where x: "x = (dir, basename)" by (cases x)
    let ?b = "add dir b"
    have give_up: "triple (bal ?b C M) (\<lambda>v. (Ok None, drop_ref dir v)) (res b C M) (\<lambda>_. False)"
      using bal_drop by (auto simp: triple_def)
    have found: "triple (bal ?b C M) (bind_op (resolve_inode i) (\<lambda>i v. (Ok (Some i), drop_ref dir v))) (res b C M) (\<lambda>_. False)" for i
      by (rule triple_bind [OF triple_noerr [OF noerr_resolve_inode triple_resolve_inode]])
        (auto simp: triple_def add_commute [of _ dir] bal_drop)
    have look: "triple (bal ?b C M) (bind_op (lookup_or_none dir basename) (\<lambda>r v.
        case r of None \<Rightarrow> (Ok None, drop_ref dir v)
        | Some n \<Rightarrow> bind_op (resolve_inode \<lparr>id_device = id_device dir, id_number = n\<rparr>)
              (\<lambda>i v. (Ok (Some i), drop_ref dir v)) v)) (res b C M) (\<lambda>_. False)"
    proof (rule triple_bind [OF triple_noerr [OF noerr_lookup_or_none triple_lookup_or_none]])
      fix r
      show "triple (bal ?b C M) (\<lambda>v. case r of None \<Rightarrow> (Ok None, drop_ref dir v)
        | Some n \<Rightarrow> bind_op (resolve_inode \<lparr>id_device = id_device dir, id_number = n\<rparr>)
              (\<lambda>i v. (Ok (Some i), drop_ref dir v)) v) (res b C M) (\<lambda>_. False)"
        using give_up found by (cases r) simp_all
    qed
    have here: "triple (bal ?b C M) (\<lambda>v. (Ok (Some dir), v)) (res b C M) (\<lambda>_. False)" by (simp add: triple_def)
    have "triple (bal ?b C M) (if basename = [] then (\<lambda>v. (Ok (Some dir), v))
              else bind_op (lookup_or_none dir basename) (\<lambda>r v.
                case r of None \<Rightarrow> (Ok None, drop_ref dir v)
                | Some n \<Rightarrow> bind_op (resolve_inode \<lparr>id_device = id_device dir, id_number = n\<rparr>)
                      (\<lambda>i v. (Ok (Some i), drop_ref dir v)) v)) (res b C M) (\<lambda>_. False)"
      using here look by simp
    from triple_bind [OF this touch] show ?thesis using Some x by (simp add: res_parent_def)
  qed
qed

end
