(* ===== verification/Fs_Refs.thy ===== *)
theory Fs_Refs
  imports Vfs_Refs
begin

text \<open>
  Reference accounting of the file system calls on names: each call gives back every handle it takes,
  on its error paths too.
\<close>

section \<open>Rules for the steps of a call\<close>

text \<open>The directories of the task are among the owners.\<close>

definition owned :: "task_context \<Rightarrow> (InodeId \<Rightarrow> nat) \<Rightarrow> bool" where
  "owned C b \<longleftrightarrow> (\<forall>i. root_directory C = Some i \<or> current_directory C = Some i \<longrightarrow> 0 < b i)"

abbreviation kept :: "(InodeId \<Rightarrow> nat) \<Rightarrow> task_context \<Rightarrow> Mount option list \<Rightarrow> (vfs, 'a) op \<Rightarrow> bool" where
  "kept b C M m \<equiv> triple (bal b C M) m (\<lambda>_. bal b C M) (bal b C M)"

lemma owned_add: "owned C b \<Longrightarrow> owned C (add i b)"
  by (auto simp: owned_def add_def)

lemma triple_conseq:
  "triple P m Q E \<Longrightarrow> (\<And>a s. Q a s \<Longrightarrow> Q' a s) \<Longrightarrow> (\<And>s. E s \<Longrightarrow> E' s) \<Longrightarrow> triple P m Q' E'"
  by (rule tripleI) (auto dest: tripleD)

text \<open>A \<open>match\<close> on the result of an operation.\<close>

lemma triple_match:
  assumes m: "triple P m R F" and f: "\<And>a. triple (R a) (f a) Q E" and g: "\<And>e. triple F (g e) Q E"
  shows "triple P (\<lambda>v. case m v of (Ok a, v1) \<Rightarrow> f a v1 | (Err e, v1) \<Rightarrow> g e v1 | (Panic, v1) \<Rightarrow> (Panic, v1)) Q E"
proof (rule triple_state)
  fix v assume v: "P v"
  let ?n = "\<lambda>v. case m v of (Ok a, v1) \<Rightarrow> f a v1 | (Err e, v1) \<Rightarrow> g e v1 | (Panic, v1) \<Rightarrow> (Panic, v1)"
  show "triple (\<lambda>s. s = v) ?n Q E"
  proof (cases "m v")
    case (Pair r v1)
    show ?thesis
    proof (cases r)
      case (Ok a)
      with Pair have "R a v1" using tripleD(1) [OF m v] by simp
      with f [of a] Pair Ok show ?thesis by (simp add: triple_def)
    next
      case (Err e)
      with Pair have "F v1" using tripleD(2) [OF m v] by simp
      with g [of e] Pair Err show ?thesis by (simp add: triple_def)
    next
      case Panic
      with Pair show ?thesis by (simp add: triple_def)
    qed
  qed
qed

lemma kept_parent:
  assumes "owned C b" "\<And>dir basename. triple (bal (add dir b) C M) (f dir basename) Q (bal b C M)"
  shows "triple (bal b C M) (bind_op (ok_or (resolve_parent raw) e) (\<lambda>(dir, basename). f dir basename)) Q (bal b C M)"
proof (rule triple_bind [OF triple_ok_or])
  have "triple (bal b C M) (resolve_parent raw) (res_parent b C M) (\<lambda>_. False)"
    using assms(1) by (intro triple_resolve_parent) (auto simp: owned_def)
  then show "triple (bal b C M) (resolve_parent raw) (\<lambda>r s. case r of None \<Rightarrow> bal b C M s
      | Some x \<Rightarrow> (\<lambda>(dir, basename). bal (add dir b) C M) x s) (bal b C M)"
    by (rule triple_conseq) (auto simp: res_parent_def split: prod.splits option.splits)
next
  fix a
  show "triple ((\<lambda>(dir, basename). bal (add dir b) C M) a) (case a of (dir, basename) \<Rightarrow> f dir basename) Q (bal b C M)"
    using assms(2) by (cases a) simp
qed

lemma kept_path:
  assumes "owned C b" "\<And>i. triple (bal (add i b) C M) (f i) Q (bal b C M)"
  shows "triple (bal b C M) (bind_op (ok_or (resolve_path raw) e) f) Q (bal b C M)"
proof (rule triple_bind [OF triple_ok_or])
  have "triple (bal b C M) (resolve_path raw) (res b C M) (\<lambda>_. False)"
    using assms(1) by (intro triple_resolve_path) (auto simp: owned_def)
  then show "triple (bal b C M) (resolve_path raw) (\<lambda>r s. case r of None \<Rightarrow> bal b C M s
      | Some x \<Rightarrow> bal (add x b) C M s) (bal b C M)"
    by (rule triple_conseq) (auto split: option.splits)
qed (rule assms(2))

lemma kept_resolve:
  "(\<And>i. triple (bal (add i b) C M) (f i) Q (bal b C M)) \<Longrightarrow> triple (bal b C M) (bind_op (resolve_inode j) f) Q (bal b C M)"
  by (rule triple_bind [OF triple_resolve_inode])

lemma kept_bind:
  "kept b C M m \<Longrightarrow> (\<And>a. triple (bal b C M) (f a) Q (bal b C M)) \<Longrightarrow> triple (bal b C M) (bind_op m f) Q (bal b C M)"
  by (rule triple_bind)

lemma kept_some:
  "kept b C M m \<Longrightarrow> (\<And>a. triple (bal b C M) (f a) Q (bal b C M)) \<Longrightarrow> triple (bal b C M) (bind_op (ok_or m e) f) Q (bal b C M)"
proof (rule triple_bind [OF triple_ok_or])
  assume "kept b C M m"
  then show "triple (bal b C M) m (\<lambda>r s. case r of None \<Rightarrow> bal b C M s | Some x \<Rightarrow> bal b C M s) (bal b C M)"
    by (rule triple_conseq) (auto split: option.splits)
qed

lemma kept_drop: "triple (bal (add i b) C M) (\<lambda>v. (Ok a, drop_ref i v)) (\<lambda>_. bal b C M) E"
  using bal_drop by (auto simp: triple_def)

lemma kept_skip: "kept b C M (\<lambda>v. (Ok a, v))"
  by (simp add: triple_def)

lemma kept_if:
  "(c \<Longrightarrow> triple P m Q E) \<Longrightarrow> (\<not> c \<Longrightarrow> triple P m' Q E) \<Longrightarrow> triple P (if c then m else m') Q E"
  by simp

lemma kept_read:
  "(\<And>v. triple P (f (g v)) Q E) \<Longrightarrow> triple P (\<lambda>v. f (g v) v) Q E"
  by (simp add: triple_def)

lemma kept_case: "kept b C M f \<Longrightarrow> (\<And>x. kept b C M (g x)) \<Longrightarrow> kept b C M (case r of None \<Rightarrow> f | Some x \<Rightarrow> g x)"
  by (cases r) simp_all

text \<open>The rules in the order in which they are tried on a step.\<close>

lemmas keeps = kept_parent kept_path kept_resolve kept_some kept_bind kept_drop kept_skip kept_if kept_case
  triple_run_inode triple_update_inode triple_on_store triple_check_permission triple_require triple_holding

section \<open>Creating inodes\<close>

lemma triple_alloc_and_link:
  "triple (bal b C M) (alloc_and_link dir name t p l) (\<lambda>i. bal (add i b) C M) (bal b C M)"
proof -
  have undo: "triple (bal (add i b) C M) (bind_op (run_inode i (\<lambda>s. (Ok (), g s))) (\<lambda>_ v. (Err e, drop_ref i v))) Q (bal b C M)"
    for i g e and Q :: "InodeId \<Rightarrow> vfs \<Rightarrow> bool"
    by (rule triple_bind [OF triple_noerr [OF noerr_run(2) triple_run_inode]])
      (auto intro: noerrs simp: triple_def bal_drop)
  have link: "triple (bal (add i b) C M) (\<lambda>v. case run_inode dir (add_entry name n) v of
        (Ok _, v1) \<Rightarrow> (Ok i, v1)
      | (Err e, v1) \<Rightarrow> bind_op (run_inode i (\<lambda>s. (Ok (), g s))) (\<lambda>_ v. (Err e, drop_ref i v)) v1
      | (Panic, v1) \<Rightarrow> (Panic, v1)) (\<lambda>i. bal (add i b) C M) (bal b C M)" for i n g
    by (rule triple_match [OF triple_run_inode _ undo]) (simp add: triple_def)
  have fill: "triple (bal (add i b) C M) (bind_op (run_inode i (\<lambda>s. (Ok (), h s))) (\<lambda>_ v. case run_inode dir (add_entry name n) v of
        (Ok _, v1) \<Rightarrow> (Ok i, v1)
      | (Err e, v1) \<Rightarrow> bind_op (run_inode i (\<lambda>s. (Ok (), g s))) (\<lambda>_ v. (Err e, drop_ref i v)) v1
      | (Panic, v1) \<Rightarrow> (Panic, v1))) (\<lambda>i. bal (add i b) C M) (bal b C M)" for i n g h
    by (rule triple_bind [OF triple_noerr [OF noerr_run(2) triple_run_inode] link]) (intro noerrs)
  let ?h = "\<lambda>v s. set_inode (touch_created (current_time s))
      (set_disk_inode (\<lambda>d. d\<lparr>mode := t OR (p AND 0x1FF AND NOT (umask (ctx v))),
         user_id := ctx_euid (ctx v), group_id := ucast (ctx_egid (ctx v)), link_count := l\<rparr>) s)"
  let ?g = "\<lambda>s. set_inode (touch_change (current_time s)) (set_disk_inode (\<lambda>d. d\<lparr>link_count := 0\<rparr>) s)"
  let ?run = "\<lambda>c r v. case r of None \<Rightarrow> (Err Errno_NOSPC, v) | Some n \<Rightarrow>
      let i = \<lparr>id_device = id_device dir, id_number = n\<rparr> in
      bind_op (acquire_raw i (fs_ref c)) (\<lambda>_. bind_op (run_inode i (\<lambda>s. (Ok (), ?h v s))) (\<lambda>_ v.
        case run_inode dir (add_entry name n) v of
          (Ok _, v1) \<Rightarrow> (Ok i, v1)
        | (Err e, v1) \<Rightarrow> bind_op (run_inode i (\<lambda>s. (Ok (), ?g s))) (\<lambda>_ v. (Err e, drop_ref i v)) v1
        | (Panic, v1) \<Rightarrow> (Panic, v1))) v"
  have acq: "triple (bal b C M) (?run c r) (\<lambda>i. bal (add i b) C M) (bal b C M)" for c r
  proof (cases r)
    case None
    then show ?thesis by (simp add: triple_def)
  next
    case (Some n)
    show ?thesis unfolding Some Let_def option.case
      by (rule kept_read, rule triple_bind [OF triple_acquire_raw]) (rule fill)
  qed
  have all: "triple (bal b C M) (bind_op (on_store (device f) (alloc_inode f)) (?run c)) (\<lambda>i. bal (add i b) C M) (bal b C M)" for f c
    by (rule triple_bind [OF triple_on_store acq])
  show ?thesis
  proof (rule triple_state)
    fix v assume v: "bal b C M v"
    show "triple (\<lambda>s. s = v) (alloc_and_link dir name t p l) (\<lambda>i. bal (add i b) C M) (bal b C M)"
    proof (cases "slot_of dir v")
      case (Some k)
      show ?thesis
      proof (cases "inode_slots v ! k")
        case c: (Some c)
        show ?thesis
        proof (cases "upgrade (fs_ref c) v")
          case f: (Some f)
          from all [of f c] v show ?thesis
            by (rule triple_at) (simp only: alloc_and_link_def Some c f option.case)
        qed (simp add: triple_def alloc_and_link_def Some c v)
      qed (simp add: triple_def alloc_and_link_def Some)
    qed (simp add: triple_def alloc_and_link_def)
  qed
qed

lemma triple_create_device:
  "triple (bal b C M) (create_device dir name t p dev) (\<lambda>i. bal (add i b) C M) (bal b C M)"
  unfolding create_device_def
  by (rule triple_bind [OF triple_alloc_and_link], rule triple_bind [OF triple_noerr [OF noerr_run(2) triple_run_inode]])
    (auto intro: noerrs simp: triple_def)

lemma triple_create_directory:
  "triple (bal b C M) (create_directory dir name p) (\<lambda>i. bal (add i b) C M) (bal b C M)"
proof -
  have dots: "kept (add i b) C M (bind_op (run_inode i f) (\<lambda>_. run_inode i g))"
    for i and f g :: "(inode_state, unit) op"
    by (rule keeps)+
  have done': "triple (bal (add i b) C M) (bind_op (run_inode dir (\<lambda>s. (Ok (), g s))) (\<lambda>_ v. (Ok i, v)))
      (\<lambda>i. bal (add i b) C M) (bal b C M)" for i g
    by (rule triple_bind [OF triple_noerr [OF noerr_run(2) triple_run_inode]]) (auto intro: noerrs simp: triple_def)
  show ?thesis
    unfolding create_directory_def
    by (rule triple_bind [OF triple_alloc_and_link], rule triple_match [OF dots done']) (auto simp: triple_def bal_drop)
qed

lemma kept_create:
  "(\<And>i. triple (bal (add i b) C M) (f i) Q (bal b C M)) \<Longrightarrow>
   triple (bal b C M) (bind_op (create_directory dir name p) f) Q (bal b C M)"
  "(\<And>i. triple (bal (add i b) C M) (f i) Q (bal b C M)) \<Longrightarrow>
   triple (bal b C M) (bind_op (create_device dir name t p dev) f) Q (bal b C M)"
  by (rule triple_bind [OF triple_create_directory] triple_bind [OF triple_create_device]; assumption)+

section \<open>The calls\<close>

lemma kept_sys_stat: "owned C b \<Longrightarrow> kept b C M (sys_stat path)"
  unfolding sys_stat_def by (rule keeps | assumption)+

lemma kept_sys_link: "owned C b \<Longrightarrow> kept b C M (sys_link old new)"
  unfolding sys_link_def by (rule keeps owned_add | assumption)+

lemma kept_sys_unlink: "owned C b \<Longrightarrow> kept b C M (sys_unlink path)"
  unfolding sys_unlink_def by (rule keeps | assumption)+

lemma kept_sys_mkdir: "owned C b \<Longrightarrow> kept b C M (sys_mkdir path perm)"
  unfolding sys_mkdir_def by (rule kept_create keeps | assumption)+

lemma kept_sys_mknod: "owned C b \<Longrightarrow> kept b C M (sys_mknod path m dev)"
  unfolding sys_mknod_def [abs_def] by (rule kept_read) (rule kept_create keeps | assumption)+

lemma kept_sys_rmdir: "owned C b \<Longrightarrow> kept b C M (sys_rmdir path)"
  unfolding sys_rmdir_def by (rule keeps | assumption)+

lemma kept_sys_chmod: "owned C b \<Longrightarrow> kept b C M (sys_chmod path m)"
  unfolding sys_chmod_def
  by (rule kept_path, assumption, rule triple_holding, rule kept_bind [OF triple_run_inode], rule kept_read) (rule keeps)+

lemma kept_sys_chown: "owned C b \<Longrightarrow> kept b C M (sys_chown path uid gid)"
  unfolding sys_chown_def [abs_def] by (rule kept_read) (rule keeps | assumption)+

lemma kept_sys_access: "owned C b \<Longrightarrow> kept b C M (sys_access path m)"
  unfolding sys_access_def
  by (rule kept_path, assumption, rule triple_holding, rule kept_read) (rule keeps)+

lemma kept_sys_utime: "owned C b \<Longrightarrow> kept b C M (sys_utime path stamps)"
  unfolding sys_utime_def by (rule keeps | assumption)+

lemma kept_refuse_descendant:
  "triple (bal (add cursor b) C M) (refuse_descendant n old cursor) (\<lambda>_. bal b C M) (bal b C M)"
proof (induction n arbitrary: cursor)
  case 0
  then show ?case by (auto simp: triple_def bal_drop)
next
  case (Suc n)
  let ?b = "add cursor b"
  have up: "triple (bal ?b C M) (bind_op (resolve_inode i) (\<lambda>i v. refuse_descendant n old i (drop_ref cursor v)))
      (\<lambda>_. bal b C M) (bal b C M)" for i
    by (rule triple_bind [OF triple_noerr [OF noerr_resolve_inode triple_resolve_inode]])
      (use triple_drop_then [OF Suc.IH, of cursor] in \<open>simp add: add_commute [of cursor]\<close>)
  have give_up: "triple (bal ?b C M) (\<lambda>v. (r, drop_ref cursor v)) (\<lambda>_. bal b C M) (bal b C M)" for r :: "unit outcome"
    by (cases r) (auto simp: triple_def bal_drop)
  have step: "triple (bal ?b C M) (\<lambda>v. case run_inode cursor (lookup [DOT, DOT]) v of
        (Ok p, v1) \<Rightarrow> (case p of None \<Rightarrow> (Err Errno_IO, drop_ref cursor v1)
          | Some p \<Rightarrow> if p = id_number cursor then (Ok (), drop_ref cursor v1)
          else bind_op (resolve_inode (inode_of_entry cursor p)) (\<lambda>i v. refuse_descendant n old i (drop_ref cursor v)) v1)
      | (Err e, v1) \<Rightarrow> (Err e, drop_ref cursor v1)
      | (Panic, v1) \<Rightarrow> (Panic, v1)) (\<lambda>_. bal b C M) (bal b C M)"
    by (rule triple_match [OF triple_run_inode _ give_up])
      (use up give_up in \<open>auto simp: triple_def bal_drop split: option.splits\<close>)
  have unfold: "refuse_descendant (Suc n) old cursor = (if cursor = old then (\<lambda>v. (Err Errno_INVAL, drop_ref cursor v)) else
      (\<lambda>v. case run_inode cursor (lookup [DOT, DOT]) v of
        (Ok p, v1) \<Rightarrow> (case p of None \<Rightarrow> (Err Errno_IO, drop_ref cursor v1)
          | Some p \<Rightarrow> if p = id_number cursor then (Ok (), drop_ref cursor v1)
          else bind_op (resolve_inode (inode_of_entry cursor p)) (\<lambda>i v. refuse_descendant n old i (drop_ref cursor v)) v1)
      | (Err e, v1) \<Rightarrow> (Err e, drop_ref cursor v1)
      | (Panic, v1) \<Rightarrow> (Panic, v1)))"
    by (auto simp: fun_eq_iff split: prod.splits outcome.splits option.splits)
  show ?case unfolding unfold by (rule kept_if) (rule give_up step)+
qed

lemma kept_clone_then:
  "0 < b i \<Longrightarrow> triple (bal (add i b) C M) m (\<lambda>_. bal b C M) (bal b C M) \<Longrightarrow> kept b C M (\<lambda>v. m (clone_ref i v))"
  using bal_clone bal_cached by (fastforce simp: triple_def)

lemma kept_displace: "kept b C M (displace new_dir new_base d n)"
  unfolding displace_def by (rule keeps)+

lemma kept_splice_entry: "kept b C M (splice_entry od ob nd nb old n d)"
  unfolding splice_entry_def by (rule keeps)+

lemma add_pos: "0 < add i b i" "0 < b j \<Longrightarrow> 0 < add i b j"
  by (auto simp: add_def)

lemma kept_sys_rename: "owned C b \<Longrightarrow> kept b C M (sys_rename old new)"
  unfolding sys_rename_def Let_def
  by (rule keeps owned_add kept_displace kept_splice_entry kept_clone_then kept_refuse_descendant add_pos | assumption)+

section \<open>Owners\<close>

text \<open>
  The owners of handles that the calls on names know: the two directories of the task and the
  mounts.  \<open>h\<close> counts the handles of everybody else: open files, executables, other tasks.
\<close>

definition held :: "InodeId option \<Rightarrow> InodeId \<Rightarrow> nat" where
  "held r i = (if r = Some i then 1 else 0)"

definition held_by_mount :: "InodeId \<Rightarrow> Mount option \<Rightarrow> nat" where
  "held_by_mount i s = (case s of None \<Rightarrow> 0 | Some m \<Rightarrow> held (Some (root_inode m)) i + held (mount_point_inode m) i)"

definition owners :: "(InodeId \<Rightarrow> nat) \<Rightarrow> task_context \<Rightarrow> Mount option list \<Rightarrow> InodeId \<Rightarrow> nat" where
  "owners h C M i = held (root_directory C) i + held (current_directory C) i + sum_list (map (held_by_mount i) M) + h i"

text \<open>A mount holds the root of its own device, and no root is a mount point.\<close>

definition mount_ok :: "Mount \<Rightarrow> bool" where
  "mount_ok m \<longleftrightarrow> root_inode m = \<lparr>id_device = mnt_device m, id_number = ROOT_INODE_NUMBER\<rparr>
     \<and> (case mount_point_inode m of None \<Rightarrow> True | Some p \<Rightarrow> id_number p \<noteq> ROOT_INODE_NUMBER)"

definition mounts_ok :: "Mount option list \<Rightarrow> bool" where
  "mounts_ok M \<longleftrightarrow> list_all (\<lambda>s. case s of None \<Rightarrow> True | Some m \<Rightarrow> mount_ok m) M"

definition accounted :: "(InodeId \<Rightarrow> nat) \<Rightarrow> vfs \<Rightarrow> bool" where
  "accounted h v \<longleftrightarrow> bal (owners h (ctx v) (mounts v)) (ctx v) (mounts v) v \<and> mounts_ok (mounts v)"

abbreviation accounts :: "(InodeId \<Rightarrow> nat) \<Rightarrow> (vfs, 'a) op \<Rightarrow> bool" where
  "accounts h m \<equiv> triple (accounted h) m (\<lambda>_. accounted h) (accounted h)"

lemma owned_owners: "owned C (owners h C M)"
  by (auto simp: owned_def owners_def held_def)

lemma bal_ctx: "bal b C M v \<Longrightarrow> ctx v = C \<and> mounts v = M"
  by (simp add: bal_def)

lemma accounted_intro: "bal (owners h C M) C M v \<Longrightarrow> mounts_ok M \<Longrightarrow> accounted h v"
  using bal_ctx by (fastforce simp: accounted_def)

lemma accounts_split:
  assumes "\<And>C M. mounts_ok M \<Longrightarrow> triple (bal (owners h C M) C M) m (\<lambda>_. accounted h) (accounted h)"
  shows "accounts h m"
proof (rule triple_state)
  fix v assume v: "accounted h v"
  then have ok: "mounts_ok (mounts v)" and b: "bal (owners h (ctx v) (mounts v)) (ctx v) (mounts v) v"
    by (simp_all add: accounted_def)
  from assms [OF ok, of "ctx v"] b show "triple (\<lambda>s. s = v) m (\<lambda>_. accounted h) (accounted h)"
    by (rule triple_at) simp
qed

lemma accounts_kept: "(\<And>C b M. owned C b \<Longrightarrow> kept b C M m) \<Longrightarrow> accounts h m"
  by (rule accounts_split, rule triple_conseq [where Q = "\<lambda>_. bal (owners h C M) C M" and E = "bal (owners h C M) C M" for C M])
    (auto intro: owned_owners accounted_intro)

lemma bal_set_ctx: "bal b C M v \<Longrightarrow> bal b C' M (v\<lparr>ctx := C'\<rparr>)"
  by (simp add: bal_def ids_def)

lemma drop_ref_ctx: "drop_ref i (v\<lparr>ctx := C\<rparr>) = (drop_ref i v)\<lparr>ctx := C\<rparr>"
  by (simp add: drop_ref_def)

text \<open>Changing a directory of the task: the new handle replaces the old one.\<close>

lemma bal_replace:
  assumes b: "bal (add i b) C M v"
    and o: "\<And>j. b' j + held old j = b j + held (Some i) j"
  shows "bal b' C' M ((case old of Some j \<Rightarrow> drop_ref j | None \<Rightarrow> id) (v\<lparr>ctx := C'\<rparr>))"
proof (cases old)
  case None
  then have "b' = add i b" using o by (auto simp: fun_eq_iff held_def add_def split: if_splits)
  then show ?thesis using bal_set_ctx [OF b, of C'] None by simp
next
  case (Some j)
  have "add j b' k = add i b k" for k
    using o [of k] Some by (auto simp: held_def add_def split: if_splits)
  then have "add j b' = add i b" by (rule ext)
  with b have "bal (add j b') C M v" by simp
  from bal_set_ctx [OF bal_drop [OF this], of C'] show ?thesis using Some by (simp add: drop_ref_ctx)
qed

lemma accounts_sys_chdir: "accounts h (sys_chdir path)"
proof (rule accounts_split)
  fix C :: task_context and M :: "Mount option list"
  assume ok: "mounts_ok M"
  let ?b = "owners h C M"
  have check: "kept (add i ?b) C M (bind_op (run_inode i inode_file_type) (\<lambda>t. bind_op (require (t = Directory) Errno_NOTDIR) (\<lambda>_.
      bind_op (check_permission i MAY_EXEC) (\<lambda>ok. require ok Errno_ACCESS))))" for i
    by (rule keeps)+
  have set: "triple (bal (add i ?b) C M) (\<lambda>v1. (Ok (), (case current_directory (ctx v1) of Some old \<Rightarrow> drop_ref old | None \<Rightarrow> id)
      (v1\<lparr>ctx := (ctx v1)\<lparr>current_directory := Some i\<rparr>\<rparr>))) (\<lambda>_. accounted h) E" for i E
  proof (rule triple_state)
    fix v assume v: "bal (add i ?b) C M v"
    let ?C = "C\<lparr>current_directory := Some i\<rparr>"
    have "bal (owners h ?C M) ?C M ((case current_directory C of Some j \<Rightarrow> drop_ref j | None \<Rightarrow> id) (v\<lparr>ctx := ?C\<rparr>))"
      by (rule bal_replace [OF v]) (simp add: owners_def)
    then show "triple (\<lambda>s. s = v) (\<lambda>v1. (Ok (), (case current_directory (ctx v1) of Some old \<Rightarrow> drop_ref old | None \<Rightarrow> id)
      (v1\<lparr>ctx := (ctx v1)\<lparr>current_directory := Some i\<rparr>\<rparr>))) (\<lambda>_. accounted h) E"
      using accounted_intro ok bal_ctx [OF v] by (auto simp: triple_def)
  qed
  have "triple (bal ?b C M) (sys_chdir path) (\<lambda>_. accounted h) (bal ?b C M)"
    unfolding sys_chdir_def
    by (rule kept_path [OF owned_owners], rule triple_match [OF check set]) (auto simp: triple_def bal_drop)
  then show "triple (bal ?b C M) (sys_chdir path) (\<lambda>_. accounted h) (accounted h)"
    by (rule triple_conseq) (auto intro: accounted_intro [OF _ ok])
qed

lemma accounts_sys_chroot: "accounts h (sys_chroot path)"
proof (rule accounts_split)
  fix C :: task_context and M :: "Mount option list"
  assume ok: "mounts_ok M"
  let ?b = "owners h C M"
  have check: "kept (add i ?b) C M (bind_op (run_inode i inode_file_type) (\<lambda>t. require (t = Directory) Errno_NOTDIR))" for i
    by (rule keeps)+
  have set: "triple (bal (add i ?b) C M) (\<lambda>v1. (Ok (), (case root_directory (ctx v1) of Some old \<Rightarrow> drop_ref old | None \<Rightarrow> id)
      (v1\<lparr>ctx := (ctx v1)\<lparr>root_directory := Some i\<rparr>\<rparr>))) (\<lambda>_. accounted h) E" for i E
  proof (rule triple_state)
    fix v assume v: "bal (add i ?b) C M v"
    let ?C = "C\<lparr>root_directory := Some i\<rparr>"
    have "bal (owners h ?C M) ?C M ((case root_directory C of Some j \<Rightarrow> drop_ref j | None \<Rightarrow> id) (v\<lparr>ctx := ?C\<rparr>))"
      by (rule bal_replace [OF v]) (simp add: owners_def)
    then show "triple (\<lambda>s. s = v) (\<lambda>v1. (Ok (), (case root_directory (ctx v1) of Some old \<Rightarrow> drop_ref old | None \<Rightarrow> id)
      (v1\<lparr>ctx := (ctx v1)\<lparr>root_directory := Some i\<rparr>\<rparr>))) (\<lambda>_. accounted h) E"
      using accounted_intro ok bal_ctx [OF v] by (auto simp: triple_def)
  qed
  have "triple (bal ?b C M) (sys_chroot path) (\<lambda>_. accounted h) (bal ?b C M)"
    unfolding sys_chroot_def
    by (rule kept_path [OF owned_owners], rule triple_match [OF check set]) (auto simp: triple_def bal_drop)
  then show "triple (bal ?b C M) (sys_chroot path) (\<lambda>_. accounted h) (accounted h)"
    by (rule triple_conseq) (auto intro: accounted_intro [OF _ ok])
qed

section \<open>Mounting\<close>

lemma owners_insert:
  assumes "k < length M" "M ! k = None"
  shows "owners h C (M[k := Some m]) i = owners h C M i + held_by_mount i (Some m)"
  using assms by (simp add: owners_def map_update sum_list_update held_by_mount_def)

text \<open>A new mount takes over the handles on its root and on its mount point.\<close>

lemma mount_insert_accounted:
  assumes b: "bal b C M v" and i: "mount_insert m v = Some v'" and o: "\<And>j. b j = owners h C M j + held_by_mount j (Some m)"
    and ok: "mounts_ok M" "mount_ok m"
  shows "accounted h v'"
proof -
  obtain k where k: "k < length (mounts v)" "mounts v ! k = None" and v': "v' = v\<lparr>mounts := (mounts v)[k := Some m]\<rparr>"
    using i by (auto simp: mount_insert_def find_Some_iff)
  have M: "mounts v = M" using b by (simp add: bal_def)
  have "b = owners h C (M[k := Some m])" using o owners_insert k M by (auto simp: fun_eq_iff)
  then have "bal (owners h C (M[k := Some m])) C (M[k := Some m]) v'"
    using b M by (simp add: bal_def v' ids_def)
  moreover have "mounts_ok (M[k := Some m])"
    using ok k M unfolding mounts_ok_def by (auto simp: list_all_iff dest!: set_update_subset_insert [THEN subsetD])
  ultimately show ?thesis by (rule accounted_intro)
qed

lemma bal_instances: "bal b C M (v\<lparr>instances := x\<rparr>) = bal b C M v"
  by (rule bal_cong) (simp_all add: ids_def)

lemma triple_require_then:
  "(c \<Longrightarrow> triple (bal b C M) (f ()) Q (bal b C M)) \<Longrightarrow> triple (bal b C M) (bind_op (require c e) f) Q (bal b C M)"
  by (auto simp: triple_def bind_op_def require_def)

lemma accounts_sys_mount: "accounts h (sys_mount dev_name dir_name)"
proof (rule accounts_split)
  fix C :: task_context and M :: "Mount option list"
  assume ok: "mounts_ok M"
  let ?b = "owners h C M"
  let ?root = "\<lambda>dev. \<lparr>id_device = dev, id_number = ROOT_INODE_NUMBER\<rparr>"
  let ?m = "\<lambda>dev n dir. \<lparr>mnt_device = dev, mnt_fs = n, root_inode = ?root dev, mount_point_inode = Some dir\<rparr>"
  have insert: "triple (bal (add (?root dev) (add dir ?b)) C M) (\<lambda>v. case mount_insert (?m dev n dir) v of
        Some v1 \<Rightarrow> (Ok (), v1)
      | None \<Rightarrow> (Err Errno_BUSY, drop_ref (?root dev) (v\<lparr>instances := (instances v)[n := None]\<rparr>)))
      (\<lambda>_. accounted h) (bal (add dir ?b) C M)" if dir: "id_number dir \<noteq> ROOT_INODE_NUMBER" for dev dir n
  proof (rule triple_state)
    fix v assume v: "bal (add (?root dev) (add dir ?b)) C M v"
    have "accounted h v1" if "mount_insert (?m dev n dir) v = Some v1" for v1
      by (rule mount_insert_accounted [OF v that _ ok]) (use dir in \<open>simp_all add: mount_ok_def held_by_mount_def held_def add_def\<close>)
    moreover have "bal (add dir ?b) C M (drop_ref (?root dev) (v\<lparr>instances := (instances v)[n := None]\<rparr>))"
      using v by (intro bal_drop) (simp add: bal_instances)
    ultimately show "triple (\<lambda>s. s = v) (\<lambda>v. case mount_insert (?m dev n dir) v of
        Some v1 \<Rightarrow> (Ok (), v1)
      | None \<Rightarrow> (Err Errno_BUSY, drop_ref (?root dev) (v\<lparr>instances := (instances v)[n := None]\<rparr>)))
      (\<lambda>_. accounted h) (bal (add dir ?b) C M)"
      by (simp add: triple_def split: option.splits)
  qed
  have load: "triple (bal (add dir ?b) C M) (\<lambda>v. let n = length (instances v); root = ?root dev in
      bind_op (acquire_raw root n) (\<lambda>_ v. case mount_insert \<lparr>mnt_device = dev, mnt_fs = n, root_inode = root, mount_point_inode = Some dir\<rparr> v of
        Some v1 \<Rightarrow> (Ok (), v1)
      | None \<Rightarrow> (Err Errno_BUSY, drop_ref root (v\<lparr>instances := (instances v)[n := None]\<rparr>))) (v\<lparr>instances := instances v @ [Some f]\<rparr>))
      (\<lambda>_. accounted h) (bal (add dir ?b) C M)" (is "triple _ ?load _ _") if dir: "id_number dir \<noteq> ROOT_INODE_NUMBER" for dev dir f
  proof (rule triple_state)
    fix v assume v: "bal (add dir ?b) C M v"
    then have "bal (add dir ?b) C M (v\<lparr>instances := instances v @ [Some f]\<rparr>)" by (simp add: bal_instances)
    moreover have "triple (bal (add dir ?b) C M) (bind_op (acquire_raw (?root dev) n) (\<lambda>_ v. case mount_insert (?m dev n dir) v of
        Some v1 \<Rightarrow> (Ok (), v1)
      | None \<Rightarrow> (Err Errno_BUSY, drop_ref (?root dev) (v\<lparr>instances := (instances v)[n := None]\<rparr>))))
      (\<lambda>_. accounted h) (bal (add dir ?b) C M)" for n
      by (rule triple_bind [OF triple_acquire_raw insert [OF dir]])
    ultimately show "triple (\<lambda>s. s = v) ?load (\<lambda>_. accounted h) (bal (add dir ?b) C M)"
      by (simp add: triple_def Let_def)
  qed
  have dev: "triple (bal (add di ?b) C M) (holding di (bind_op (run_inode di inode_file_type) (\<lambda>t.
       bind_op (require (t = BlockDevice) Errno_PERM) (\<lambda>_. run_inode di device_number)))) (\<lambda>_. bal ?b C M) (bal ?b C M)" for di
    by (rule keeps)+
  have guards: "triple (bal (add dir ?b) C M) (bind_op (run_inode dir inode_file_type) (\<lambda>t.
            bind_op (require (t = Directory) Errno_PERM) (\<lambda>_.
            bind_op (require (id_number dir \<noteq> ROOT_INODE_NUMBER) Errno_BUSY) (\<lambda>_ v.
            bind_op (require (find_fs dev v = None) Errno_BUSY) (\<lambda>_.
            bind_op (require (mounted_root_at dir v = None) Errno_PERM) (\<lambda>_.
            bind_op (ok_or (on_store dev (fs_open dev)) Errno_BUSY) (\<lambda>f v.
              let n = length (instances v); root = ?root dev in
              bind_op (acquire_raw root n) (\<lambda>_ v.
                case mount_insert \<lparr>mnt_device = dev, mnt_fs = n, root_inode = root, mount_point_inode = Some dir\<rparr> v of
                  Some v1 \<Rightarrow> (Ok (), v1)
                | None \<Rightarrow> (Err Errno_BUSY, drop_ref root (v\<lparr>instances := (instances v)[n := None]\<rparr>)))
                (v\<lparr>instances := instances v @ [Some f]\<rparr>)))) v)))) (\<lambda>_. accounted h) (bal (add dir ?b) C M)" for dev dir
    by (rule kept_bind [OF triple_run_inode], rule triple_require_then, rule triple_require_then, rule kept_read,
        rule triple_require_then, rule triple_require_then, rule kept_some [OF triple_on_store], rule load)
  have "triple (bal ?b C M) (sys_mount dev_name dir_name) (\<lambda>_. accounted h) (bal ?b C M)"
    unfolding sys_mount_def
    by (rule kept_path [OF owned_owners], rule triple_bind [OF dev], rule kept_path [OF owned_owners], rule triple_match [OF guards])
      (auto simp: triple_def bal_drop)
  then show "triple (bal ?b C M) (sys_mount dev_name dir_name) (\<lambda>_. accounted h) (accounted h)"
    by (rule triple_conseq) (auto intro: accounted_intro [OF _ ok])
qed

text \<open>A mounted device always has an active inode: the root that the mount itself holds.\<close>

lemma find_mount_Some: "find_mount g v = Some x \<Longrightarrow> \<exists>m. Some m \<in> set (mounts v) \<and> g m = Some x"
proof -
  assume "find_mount g v = Some x"
  then obtain rest where rest: "filter (\<lambda>x. x \<noteq> None) (map (\<lambda>slot. Option.bind slot g) (mounts v)) = Some x # rest"
    by (auto simp: find_mount_def split: list.splits)
  have "Some x \<in> set (filter (\<lambda>x. x \<noteq> None) (map (\<lambda>slot. Option.bind slot g) (mounts v)))"
    unfolding rest by simp
  then obtain slot where slot: "slot \<in> set (mounts v)" "Option.bind slot g = Some x" by (auto dest: sym)
  then obtain m where "slot = Some m" "g m = Some x" by (auto simp: bind_eq_Some_conv)
  with slot show ?thesis by blast
qed

lemma find_fs_mounted: "find_fs dev v \<noteq> None \<Longrightarrow> \<exists>m. Some m \<in> set (mounts v) \<and> mnt_device m = dev"
  unfolding find_fs_def by (force dest: find_mount_Some split: if_splits)

lemma mounted_is_active:
  assumes b: "bal (owners h C M) C M v" and ok: "mounts_ok M" and f: "find_fs dev v \<noteq> None"
  shows "has_active_inodes dev v"
proof -
  have M: "mounts v = M" "refs v = owners h C M" using b by (simp_all add: bal_def)
  obtain m where m: "Some m \<in> set M" "mnt_device m = dev" using find_fs_mounted [OF f] M by auto
  then have r: "id_device (root_inode m) = dev" using ok by (auto simp: mounts_ok_def list_all_iff mount_ok_def)
  have "held_by_mount (root_inode m) (Some m) \<le> sum_list (map (held_by_mount (root_inode m)) M)"
    using m(1) by (intro member_le_sum_list) auto
  then have pos: "0 < owners h C M (root_inode m)" by (simp add: owners_def held_by_mount_def held_def)
  then have "Some (root_inode m) \<in> set (ids v)" by (rule bal_cached [OF b])
  then obtain c where "Some c \<in> set (inode_slots v)" "cached_id c = root_inode m"
    by (auto simp: ids_def dest!: sym [where t = "map_option cached_id x" for x])
  then show ?thesis using r pos M by (auto simp: has_active_inodes_def list_ex_iff intro!: bexI [of _ "Some c"])
qed

lemma triple_sys_umount:
  assumes ok: "mounts_ok M"
  shows "triple (bal (owners h C M) C M) (sys_umount root_dev path) (\<lambda>_ _. False) (bal (owners h C M) C M)"
proof -
  let ?b = "owners h C M"
  have dev: "triple (bal (add di ?b) C M) (holding di (bind_op (run_inode di inode_file_type) (\<lambda>t.
       bind_op (require (t = BlockDevice) Errno_NOTBLK) (\<lambda>_. run_inode di device_number)))) (\<lambda>_. bal ?b C M) (bal ?b C M)" for di
    by (rule keeps)+
  have refuse: "triple (bal ?b C M) (\<lambda>v.
     bind_op (require (dev \<noteq> root_dev) Errno_BUSY) (\<lambda>_.
     bind_op (require (find_fs dev v \<noteq> None) Errno_NOENT) (\<lambda>_.
     bind_op (require (\<not> has_active_inodes dev v) Errno_BUSY) f)) v) (\<lambda>_ _. False) (bal ?b C M)"
    for dev and f :: "unit \<Rightarrow> (vfs, unit) op"
    using mounted_is_active [OF _ ok, of h C _ dev] by (auto simp: triple_def bind_op_def require_def)
  show ?thesis
    unfolding sys_umount_def
    by (rule kept_path [OF owned_owners], rule triple_bind [OF dev], rule refuse)
qed

lemma accounts_sys_umount: "accounts h (sys_umount root_dev path)"
  by (rule accounts_split, rule triple_conseq [OF triple_sys_umount]) (auto intro: accounted_intro)

lemma kept_sync: "kept b C M vfs_sync"
proof -
  have "kept b C M (for_op (\<lambda>k v. case inode_slots v ! k of
        None \<Rightarrow> (Ok (), v)
      | Some c \<Rightarrow> run_slot k (inode_sync (id_number (cached_id c))) v) ks)" for ks
  proof (induction ks)
    case (Cons k ks)
    have "kept b C M (\<lambda>v. case inode_slots v ! k of None \<Rightarrow> (Ok (), v)
      | Some c \<Rightarrow> run_slot k (inode_sync (id_number (cached_id c))) v)"
      by (rule triple_snd) (simp split: option.splits)
    from kept_bind [OF this Cons.IH] show ?case by (simp add: triple_def)
  qed (simp add: triple_def)
  then show ?thesis unfolding vfs_sync_def sync_inodes_def [abs_def] by (rule kept_read)
qed

lemma kept_sys_ustat: "kept b C M (sys_ustat dev)"
proof (rule triple_state)
  fix v assume v: "bal b C M v"
  let ?count = "\<lambda>f. bind_op (on_store (device f) (count_free (zone_bitmap f))) (\<lambda>bfree.
      bind_op (on_store (device f) (count_free (inode_bitmap f))) (\<lambda>ffree v.
        (Ok (ucast (zone_count (super_block f)) :: u32, word_of_nat bfree :: u32,
             ucast (inode_count (super_block f)) :: u32, word_of_nat ffree :: u32), v)))"
  have count_ok: "kept b C M (?count f)" for f by (rule keeps)+
  show "triple (\<lambda>s. s = v) (sys_ustat dev) (\<lambda>_. bal b C M) (bal b C M)"
  proof (cases "Option.bind (find_fs dev v) (\<lambda>n. upgrade n v)")
    case None
    with v show ?thesis by (auto simp: triple_def sys_ustat_def split: option.splits)
  next
    case (Some f)
    then have "sys_ustat dev v = ?count f v" by (auto simp: sys_ustat_def split: option.splits)
    with count_ok [of f] v show ?thesis by (rule triple_at)
  qed
qed

section \<open>Runs of calls\<close>

text \<open>A task's calls one after the other; a call that panics ends the kernel.\<close>

inductive fs_step :: "vfs \<Rightarrow> vfs \<Rightarrow> bool" where
  stat: "sys_stat path v = (r, v') \<Longrightarrow> r \<noteq> Panic \<Longrightarrow> fs_step v v'"
| link: "sys_link oldname newname v = (r, v') \<Longrightarrow> r \<noteq> Panic \<Longrightarrow> fs_step v v'"
| unlink: "sys_unlink path v = (r, v') \<Longrightarrow> r \<noteq> Panic \<Longrightarrow> fs_step v v'"
| rename: "sys_rename oldname newname v = (r, v') \<Longrightarrow> r \<noteq> Panic \<Longrightarrow> fs_step v v'"
| mkdir: "sys_mkdir path perm v = (r, v') \<Longrightarrow> r \<noteq> Panic \<Longrightarrow> fs_step v v'"
| rmdir: "sys_rmdir path v = (r, v') \<Longrightarrow> r \<noteq> Panic \<Longrightarrow> fs_step v v'"
| mknod: "sys_mknod path m dev v = (r, v') \<Longrightarrow> r \<noteq> Panic \<Longrightarrow> fs_step v v'"
| chdir: "sys_chdir path v = (r, v') \<Longrightarrow> r \<noteq> Panic \<Longrightarrow> fs_step v v'"
| chroot: "sys_chroot path v = (r, v') \<Longrightarrow> r \<noteq> Panic \<Longrightarrow> fs_step v v'"
| chmod: "sys_chmod path m v = (r, v') \<Longrightarrow> r \<noteq> Panic \<Longrightarrow> fs_step v v'"
| chown: "sys_chown path uid gid v = (r, v') \<Longrightarrow> r \<noteq> Panic \<Longrightarrow> fs_step v v'"
| access: "sys_access path m v = (r, v') \<Longrightarrow> r \<noteq> Panic \<Longrightarrow> fs_step v v'"
| utime: "sys_utime path stamps v = (r, v') \<Longrightarrow> r \<noteq> Panic \<Longrightarrow> fs_step v v'"
| mount: "sys_mount dev_name dir_name v = (r, v') \<Longrightarrow> r \<noteq> Panic \<Longrightarrow> fs_step v v'"
| umount: "sys_umount root_dev dev_name v = (r, v') \<Longrightarrow> r \<noteq> Panic \<Longrightarrow> fs_step v v'"
| ustat: "sys_ustat dev v = (r, v') \<Longrightarrow> r \<noteq> Panic \<Longrightarrow> fs_step v v'"
| sync: "vfs_sync v = (r, v') \<Longrightarrow> r \<noteq> Panic \<Longrightarrow> fs_step v v'"

lemma accounts_step: "accounts h m \<Longrightarrow> m v = (r, v') \<Longrightarrow> r \<noteq> Panic \<Longrightarrow> accounted h v \<Longrightarrow> accounted h v'"
proof (cases r)
  case (Ok a)
  assume "accounts h m" "m v = (r, v')" "accounted h v"
  with Ok show ?thesis using tripleD(1) [of "accounted h" m "\<lambda>_. accounted h" "accounted h" v a v'] by simp
next
  case (Err e)
  assume "accounts h m" "m v = (r, v')" "accounted h v"
  with Err show ?thesis using tripleD(2) [of "accounted h" m "\<lambda>_. accounted h" "accounted h" v e v'] by simp
qed simp

lemma accounts_calls:
  "accounts h (sys_stat path)" "accounts h (sys_link oldname newname)" "accounts h (sys_unlink path)"
  "accounts h (sys_rename oldname newname)" "accounts h (sys_mkdir path perm)" "accounts h (sys_rmdir path)"
  "accounts h (sys_mknod path m dev)" "accounts h (sys_chmod path m)" "accounts h (sys_chown path uid gid)"
  "accounts h (sys_access path m)" "accounts h (sys_utime path stamps)" "accounts h (sys_ustat dev)" "accounts h vfs_sync"
  by (rule accounts_kept, (erule kept_sys_stat kept_sys_link kept_sys_unlink kept_sys_rename kept_sys_mkdir kept_sys_rmdir
        kept_sys_mknod kept_sys_chmod kept_sys_chown kept_sys_access kept_sys_utime | rule kept_sys_ustat kept_sync))+

lemma fs_step_accounted: "fs_step v v' \<Longrightarrow> accounted h v \<Longrightarrow> accounted h v'"
  by (induction rule: fs_step.induct)
    (erule (2) accounts_step [rotated],
     rule accounts_calls accounts_sys_chdir accounts_sys_chroot accounts_sys_mount accounts_sys_umount)+

lemma fs_steps_accounted: "fs_step\<^sup>*\<^sup>* v v' \<Longrightarrow> accounted h v \<Longrightarrow> accounted h v'"
  by (induction rule: rtranclp_induct) (auto intro: fs_step_accounted)

section \<open>Fuel of the resolution\<close>

text \<open>No root is a mount point, so the loop of \<open>resolve_inode\<close> runs at most twice.\<close>

lemma mounted_root_at_root:
  assumes "mounts_ok (mounts v)"
  shows "mounted_root_at i v = Some r \<Longrightarrow> id_number r = ROOT_INODE_NUMBER \<and> id_number i \<noteq> ROOT_INODE_NUMBER"
  using assms unfolding mounted_root_at_def
  by (force dest: find_mount_Some split: if_splits simp: mounts_ok_def list_all_iff mount_ok_def)

lemma resolve_loop_fuel:
  assumes b: "bal b C M v" and ok: "mounts_ok M"
  shows "resolve_loop (Suc (Suc n)) i v = resolve_loop (Suc (Suc k)) i v"
proof -
  have last: "resolve_loop (Suc n) r w = resolve_loop (Suc k) r w"
    if w: "bal b C M w" and r: "id_number r = ROOT_INODE_NUMBER" for r w n k
  proof -
    have "mounted_root_at r u = None" if "acquire_raw r x w = (Ok (), u)" for x u
    proof -
      have "mounts u = M" using tripleD(1) [OF triple_acquire_raw w that] by (simp add: bal_def)
      then show ?thesis using mounted_root_at_root [of u r] ok r by (cases "mounted_root_at r u") auto
    qed
    then show ?thesis by (auto simp: bind_op_def split: option.splits prod.splits outcome.splits)
  qed
  have "resolve_loop (Suc n) r (drop_ref i u) = resolve_loop (Suc k) r (drop_ref i u)"
    if a: "acquire_raw i x v = (Ok (), u)" and m: "mounted_root_at i u = Some r" for x u r
  proof (rule last)
    have u: "bal (add i b) C M u" by (rule tripleD(1) [OF triple_acquire_raw b a])
    then show "bal b C M (drop_ref i u)" by (rule bal_drop)
    show "id_number r = ROOT_INODE_NUMBER" using mounted_root_at_root [OF _ m] u ok by (simp add: bal_def)
  qed
  then show ?thesis
    by (simp only: resolve_loop.simps(2) [of "Suc n"] resolve_loop.simps(2) [of "Suc k"])
      (auto simp: bind_op_def simp del: resolve_loop.simps split: option.splits prod.splits outcome.splits)
qed

section \<open>The root file system\<close>

text \<open>\<open>mount_root\<close> establishes the accounting: the task gets both directories, the mount its root.\<close>

lemma mount_root_accounted:
  assumes v: "accounted h v" and none: "root_directory (ctx v) = None" "current_directory (ctx v) = None"
    and r: "mount_root dev v = (Ok (), v')"
  shows "accounted h v'"
proof -
  let ?root = "\<lparr>id_device = dev, id_number = ROOT_INODE_NUMBER\<rparr>"
  let ?m = "\<lambda>n. \<lparr>mnt_device = dev, mnt_fs = n, root_inode = ?root, mount_point_inode = None\<rparr>"
  let ?C = "ctx v" and ?b = "owners h (ctx v) (mounts v)"
  have b: "bal ?b ?C (mounts v) v" and ok: "mounts_ok (mounts v)"
    using v by (simp_all add: accounted_def)
  obtain f v1 where f: "on_store dev (fs_open dev) v = (Ok (Some f), v1)"
    using r by (auto simp: mount_root_def bind_op_Ok_iff split: option.splits)
  let ?n = "length (instances v1)"
  obtain v2 v3 i v4 where v2: "acquire_raw ?root ?n (v1\<lparr>instances := instances v1 @ [Some f]\<rparr>) = (Ok (), v2)"
    and v3: "mount_insert (?m ?n) (clone_ref ?root v2) = Some v3" and v4: "resolve_inode ?root v3 = (Ok i, v4)"
    and v': "v' = drop_ref ?root (clone_ref i (v4\<lparr>ctx := (ctx v4)\<lparr>root_directory := Some i, current_directory := Some i\<rparr>\<rparr>))"
    using r f by (auto simp: mount_root_def bind_op_Ok_iff Let_def split: option.splits)
  have "bal ?b ?C (mounts v) v1" by (rule tripleD(1) [OF triple_on_store b f])
  then have "bal ?b ?C (mounts v) (v1\<lparr>instances := instances v1 @ [Some f]\<rparr>)" by (simp add: bal_instances)
  from tripleD(1) [OF triple_acquire_raw this v2] have b2: "bal (add ?root ?b) ?C (mounts v) v2" .
  then have "bal (add ?root (add ?root ?b)) ?C (mounts v) (clone_ref ?root v2)"
    by (intro bal_clone [OF b2] bal_cached [OF b2]) (simp add: add_def)
  from mount_insert_accounted [OF this v3 _ ok, of "add ?root h"] have acc: "accounted (add ?root h) v3"
    by (simp add: mount_ok_def owners_def held_by_mount_def held_def add_def)
  have C3: "ctx v3 = ?C" using v3 b2 by (auto simp: mount_insert_def clone_ref_def bal_def)
  let ?M = "mounts v3"
  have own: "owners (add ?root h) ?C ?M = add ?root (owners h ?C ?M)" by (auto simp: owners_def add_def fun_eq_iff)
  have "bal (add ?root (owners h ?C ?M)) ?C ?M v3" using acc C3 own by (simp add: accounted_def)
  from tripleD(1) [OF triple_resolve_inode this v4] have b4: "bal (add i (add ?root (owners h ?C ?M))) ?C ?M v4" .
  let ?D = "?C\<lparr>root_directory := Some i, current_directory := Some i\<rparr>"
  have b5: "bal (add i (add ?root (owners h ?C ?M))) ?D ?M (v4\<lparr>ctx := ?D\<rparr>)" by (rule bal_set_ctx [OF b4])
  have "bal (add i (add i (add ?root (owners h ?C ?M)))) ?D ?M (clone_ref i (v4\<lparr>ctx := ?D\<rparr>))"
    by (rule bal_clone [OF b5 bal_cached [OF b5]]) (simp add: add_def)
  moreover have "add i (add i (add ?root (owners h ?C ?M))) = add ?root (owners h ?D ?M)"
    using none by (auto simp: owners_def held_def add_def fun_eq_iff)
  ultimately have "bal (owners h ?D ?M) ?D ?M v'"
    using bal_drop bal_ctx [OF b4] by (simp add: v')
  then show ?thesis by (rule accounted_intro) (use acc in \<open>simp add: accounted_def\<close>)
qed

end
