(* ===== verification/Open_Refs.thy ===== *)
theory Open_Refs
  imports Open_Files Fs_Refs
begin

text \<open>
  Accounting of open files: an object lives as long as a descriptor refers to it, its inode is held as
  long as it lives, and the calls on descriptors keep the accounts of the file system.
\<close>

section \<open>Accounts\<close>

text \<open>The handle that an object holds on an inode.\<close>

definition file_handle :: "File \<Rightarrow> InodeId \<Rightarrow> nat" where
  "file_handle f i =
     (case f of InodeFile _ _ j _ \<Rightarrow> held (Some j) i | CharDeviceFile _ j \<Rightarrow> held (Some j) i
      | BlockDeviceFile _ j _ \<Rightarrow> held (Some j) i | PipeFile _ _ \<Rightarrow> 0)"

definition object_handle :: "InodeId \<Rightarrow> File option \<Rightarrow> nat" where
  "object_handle i x = (case x of None \<Rightarrow> 0 | Some f \<Rightarrow> file_handle f i)"

definition handles :: "File option list \<Rightarrow> InodeId \<Rightarrow> nat" where
  "handles xs i = sum_list (map (object_handle i) xs)"

text \<open>\<open>g\<close> counts the references to objects that other tasks hold, \<open>h\<close> the other handles on inodes.\<close>

definition files_ok :: "(InodeId \<Rightarrow> nat) \<Rightarrow> (nat \<Rightarrow> nat) \<Rightarrow> 'd files \<Rightarrow> bool" where
  "files_ok h g s \<longleftrightarrow>
     accounted (\<lambda>i. h i + handles (objects s) i) (fsys s)
     \<and> length (open_files s) = TASK_OPEN_FILES_LIMIT
     \<and> (\<forall>k. arcs s k = count_list (open_files s) (Some k) + g k)
     \<and> (\<forall>k. (k < length (objects s) \<and> objects s ! k \<noteq> None) = (0 < arcs s k))"

definition add_arc :: "nat \<Rightarrow> (nat \<Rightarrow> nat) \<Rightarrow> nat \<Rightarrow> nat" where
  "add_arc k g = g(k := Suc (g k))"

lemma files_okD:
  assumes "files_ok h g s"
  shows "accounted (\<lambda>i. h i + handles (objects s) i) (fsys s)" "length (open_files s) = TASK_OPEN_FILES_LIMIT"
    "arcs s k = count_list (open_files s) (Some k) + g k"
    "k < length (objects s) \<and> objects s ! k \<noteq> None \<longleftrightarrow> 0 < arcs s k"
  using assms by (simp_all add: files_ok_def)

lemma count_list_update:
  "fd < length xs \<Longrightarrow> count_list (xs[fd := y]) x + (if xs ! fd = x then 1 else 0) = count_list xs x + (if y = x then 1 else 0)"
proof (induction xs arbitrary: fd)
  case (Cons z xs)
  show ?case
  proof (cases fd)
    case (Suc n)
    with Cons.IH [of n] Cons.prems show ?thesis by (auto split: if_splits)
  qed simp
qed simp

lemma handles_append: "handles (xs @ [Some f]) i = handles xs i + file_handle f i"
  by (simp add: handles_def object_handle_def)

lemma handles_of_update:
  "k < length xs \<Longrightarrow> handles (xs[k := y]) i + object_handle i (xs ! k) = handles xs i + object_handle i y"
proof (induction xs arbitrary: k)
  case (Cons z xs)
  then show ?case by (cases k) (auto simp: handles_def)
qed simp

lemma accounted_files_cong: "(\<And>i. h i = h' i) \<Longrightarrow> accounted h v = accounted h' v"
  by (rule arg_cong [of h h' "\<lambda>h. accounted h v"]) auto

lemma owners_add: "owners (add i h) C M = add i (owners h C M)"
  by (auto simp: owners_def add_def fun_eq_iff)

lemma accounted_drop: "accounted (add i h) v \<Longrightarrow> accounted h (drop_ref i v)"
  unfolding accounted_def owners_add using bal_drop [of i "owners h (ctx v) (mounts v)" "ctx v" "mounts v" v]
  by (simp add: drop_ref_def)

section \<open>References to objects\<close>

lemma release_file_ok:
  assumes "accounted (\<lambda>i. h i + file_handle f i) (fsys s)"
  shows "accounted h (fsys (release D f s))"
    "objects (release D f s) = objects s" "arcs (release D f s) = arcs s" "open_files (release D f s) = open_files s"
proof -
  have d: "accounted h (drop_ref j (fsys s))" if "\<And>i. file_handle f i = held (Some j) i" for j
  proof (rule accounted_drop)
    have "add j h = (\<lambda>i. h i + file_handle f i)" by (rule ext) (auto simp: that held_def add_def)
    then show "accounted (add j h) (fsys s)" using assms by simp
  qed
  show "accounted h (fsys (release D f s))"
    using d assms by (cases f) (auto simp: release_def file_handle_def)
qed (cases f; simp add: release_def)+

lemma new_object_ok:
  assumes ok: "files_ok (\<lambda>i. h i + file_handle f i) g s" and n: "new_object f s = (k, s')"
  shows "files_ok h (add_arc k g) s'"
proof -
  note d = files_okD [OF ok]
  have k: "k = length (objects s)" and s': "s' = s\<lparr>objects := objects s @ [Some f], arcs := (arcs s)(k := 1)\<rparr>"
    using n by (auto simp: new_object_def)
  have "arcs s k = 0" using d(4) [of k] k by simp
  then have z: "count_list (open_files s) (Some k) = 0" "g k = 0" using d(3) [of k] by simp_all
  have "accounted (\<lambda>i. h i + handles (objects s @ [Some f]) i) (fsys s)"
    using d(1) accounted_files_cong [of "\<lambda>i. h i + handles (objects s @ [Some f]) i" "\<lambda>i. h i + file_handle f i + handles (objects s) i"]
    by (simp add: handles_append)
  moreover have "(j < Suc (length (objects s)) \<and> (objects s @ [Some f]) ! j \<noteq> None) = (0 < ((arcs s)(k := 1)) j)" for j
    using d(4) [of j] k by (auto simp: nth_append less_Suc_eq)
  ultimately show ?thesis using d(2,3) z by (auto simp: files_ok_def s' add_arc_def)
qed

lemma clone_arc_ok: "files_ok h g s \<Longrightarrow> 0 < arcs s k \<Longrightarrow> files_ok h (add_arc k g) (clone_arc k s)"
  by (auto simp: files_ok_def clone_arc_def add_arc_def)

lemma drop_arc_ok:
  assumes ok: "files_ok h (add_arc k g) s"
  shows "files_ok h g (drop_arc D k s)"
proof -
  note d = files_okD [OF ok]
  let ?s = "s\<lparr>arcs := (arcs s)(k := arcs s k - 1)\<rparr>"
  have a: "arcs ?s j = count_list (open_files s) (Some j) + g j" for j
    using d(3) [of j] by (cases "j = k") (simp_all add: add_arc_def)
  have live: "k < length (objects s)" "objects s ! k \<noteq> None" using d(3,4) [of k] by (auto simp: add_arc_def)
  then obtain f where f: "objects s ! k = Some f" by auto
  show ?thesis
  proof (cases "arcs ?s k = 0")
    case False
    then have e: "drop_arc D k s = ?s" by (simp add: drop_arc_def Let_def)
    have "(j < length (objects s) \<and> objects s ! j \<noteq> None) = (0 < arcs ?s j)" for j
      using d(4) [of j] live False by (cases "j = k") auto
    then show ?thesis unfolding e using d(1,2) a by (simp add: files_ok_def)
  next
    case True
    let ?t = "?s\<lparr>objects := (objects s)[k := None]\<rparr>"
    have e: "drop_arc D k s = release D f ?t" using True f by (simp add: drop_arc_def Let_def)
    have "handles ((objects s)[k := None]) i + file_handle f i = handles (objects s) i" for i
      using handles_of_update [OF live(1), of None i] f by (simp add: object_handle_def)
    then have "accounted (\<lambda>i. h i + handles ((objects s)[k := None]) i + file_handle f i) (fsys ?t)"
      using d(1) by (simp add: add.assoc)
    note r = release_file_ok [OF this, of D]
    have "(j < length ((objects s)[k := None]) \<and> (objects s)[k := None] ! j \<noteq> None) = (0 < arcs ?s j)" for j
      using d(4) [of j] live True by (cases "j = k") auto
    then show ?thesis unfolding e using r d(2) a by (simp add: files_ok_def)
  qed
qed

lemma put_slot_ok:
  assumes ok: "files_ok h (add_arc k g) s" and fd: "fd < length (open_files s)" "open_files s ! fd = None"
  shows "files_ok h g (s\<lparr>open_files := (open_files s)[fd := Some k]\<rparr>)"
proof -
  note d = files_okD [OF ok]
  have "arcs s j = count_list ((open_files s)[fd := Some k]) (Some j) + g j" for j
    using count_list_update [OF fd(1), of "Some k" "Some j"] d(3) [of j] fd(2) by (auto simp: add_arc_def split: if_splits)
  then show ?thesis using d(1,2,4) by (simp add: files_ok_def)
qed

lemma set_slot_ok:
  assumes ok: "files_ok h g s" and fd: "fd < length (open_files s)"
  shows "files_ok h g (set_slot D fd None s)"
proof (cases "open_files s ! fd")
  case None
  then have "(open_files s)[fd := None] = open_files s" by (metis list_update_id)
  with None ok show ?thesis by (simp add: set_slot_def)
next
  case (Some old)
  note d = files_okD [OF ok]
  have "arcs s j = count_list ((open_files s)[fd := None]) (Some j) + add_arc old g j" for j
    using count_list_update [OF fd, of None "Some j"] d(3) [of j] Some by (auto simp: add_arc_def split: if_splits)
  then have "files_ok h (add_arc old g) (s\<lparr>open_files := (open_files s)[fd := None]\<rparr>)" using d(1,2,4) by (simp add: files_ok_def)
  from drop_arc_ok [OF this] show ?thesis using Some by (simp add: set_slot_def)
qed

lemma replace_slot_ok:
  assumes ok: "files_ok h (add_arc k g) s" and fd: "fd < length (open_files s)"
  shows "files_ok h g (set_slot D fd (Some k) s)"
proof (cases "open_files s ! fd")
  case None
  with put_slot_ok [OF ok fd] show ?thesis by (simp add: set_slot_def)
next
  case (Some old)
  note d = files_okD [OF ok]
  have "arcs s j = count_list ((open_files s)[fd := Some k]) (Some j) + add_arc old g j" for j
    using count_list_update [OF fd, of "Some k" "Some j"] d(3) [of j] Some by (auto simp: add_arc_def split: if_splits)
  then have "files_ok h (add_arc old g) (s\<lparr>open_files := (open_files s)[fd := Some k]\<rparr>)" using d(1,2,4) by (simp add: files_ok_def)
  from drop_arc_ok [OF this] show ?thesis using Some by (simp add: set_slot_def)
qed

section \<open>The operations of a file\<close>

abbreviation keeps_files :: "(InodeId \<Rightarrow> nat) \<Rightarrow> (nat \<Rightarrow> nat) \<Rightarrow> ('d files, 'a) op \<Rightarrow> bool" where
  "keeps_files h g m \<equiv> triple (files_ok h g) m (\<lambda>_. files_ok h g) (files_ok h g)"

text \<open>The state in which the object \<open>k\<close> is the file \<open>f\<close>.\<close>

definition at_file :: "(InodeId \<Rightarrow> nat) \<Rightarrow> (nat \<Rightarrow> nat) \<Rightarrow> nat \<Rightarrow> File \<Rightarrow> 'd files \<Rightarrow> bool" where
  "at_file h g k f s \<longleftrightarrow> files_ok h g s \<and> k < length (objects s) \<and> objects s ! k = Some f"

lemma files_ok_fsys:
  "files_ok h g s \<Longrightarrow> accounted (\<lambda>i. h' i + handles (objects s) i) v \<Longrightarrow> files_ok h' g (s\<lparr>fsys := v\<rparr>)"
  by (simp add: files_ok_def)

lemma on_fsys_triple:
  assumes m: "\<And>H. triple (accounted H) m (\<lambda>a. accounted (\<lambda>i. H i + x a i)) (accounted H)"
  shows "triple (\<lambda>s. files_ok h g s \<and> objects s = xs) (on_fsys m)
    (\<lambda>a s. files_ok (\<lambda>i. h i + x a i) g s \<and> objects s = xs) (files_ok h g)"
proof (rule tripleI)
  fix s a s' assume s: "files_ok h g s \<and> objects s = xs" and r: "on_fsys m s = (Ok a, s')"
  obtain v where v: "m (fsys s) = (Ok a, v)" "s' = s\<lparr>fsys := v\<rparr>" using r by (auto simp: on_fsys_def split: prod.splits)
  have "accounted (\<lambda>i. h i + handles (objects s) i + x a i) v" by (rule tripleD(1) [OF m _ v(1)]) (use s in \<open>auto simp: files_ok_def\<close>)
  then have "accounted (\<lambda>i. h i + x a i + handles (objects s) i) v" by (simp add: ac_simps)
  then show "files_ok (\<lambda>i. h i + x a i) g s' \<and> objects s' = xs" using s files_ok_fsys v(2) by auto
next
  fix s e s' assume s: "files_ok h g s \<and> objects s = xs" and r: "on_fsys m s = (Err e, s')"
  obtain v where v: "m (fsys s) = (Err e, v)" "s' = s\<lparr>fsys := v\<rparr>" using r by (auto simp: on_fsys_def split: prod.splits)
  have "accounted (\<lambda>i. h i + handles (objects s) i) v" by (rule tripleD(2) [OF m _ v(1)]) (use s in \<open>auto simp: files_ok_def\<close>)
  then show "files_ok h g s'" using s files_ok_fsys v(2) by auto
qed

lemma on_fsys_keeps:
  assumes "\<And>H. accounts H m"
  shows "triple (\<lambda>s. files_ok h g s \<and> objects s = xs) (on_fsys m) (\<lambda>_ s. files_ok h g s \<and> objects s = xs) (files_ok h g)"
  using on_fsys_triple [of m "\<lambda>_ _. 0" h g xs] assms by simp

lemma keeps_on_fsys: "(\<And>H. accounts H m) \<Longrightarrow> keeps_files h g (on_fsys m)"
  by (rule triple_state, rule triple_conseq, rule triple_pre, rule on_fsys_keeps) auto

lemma at_file_fsys: "(\<And>H. accounts H m) \<Longrightarrow> triple (at_file h g k f) (on_fsys m) (\<lambda>_. at_file h g k f) (files_ok h g)"
  unfolding at_file_def [abs_def]
  by (rule triple_state, rule triple_conseq, rule triple_pre, rule on_fsys_keeps) auto

lemma set_object_ok:
  assumes "at_file h g k f s" "file_handle f' = file_handle f"
  shows "files_ok h g (set_object k f' s)"
proof -
  have s: "files_ok h g s" and k: "k < length (objects s)" "objects s ! k = Some f" using assms(1) by (simp_all add: at_file_def)
  note d = files_okD [OF s]
  have "handles ((objects s)[k := Some f']) i = handles (objects s) i" for i
    using handles_of_update [OF k(1), of "Some f'" i] k(2) assms(2) by (simp add: object_handle_def)
  moreover have "(j < length (objects s) \<and> (objects s)[k := Some f'] ! j \<noteq> None) = (0 < arcs s j)" for j
    using d(4) [of j] k by (cases "j = k") auto
  ultimately show ?thesis using d(1-3) by (simp add: files_ok_def set_object_def)
qed

lemma files_ok_simps [simp]:
  "files_ok h g (s\<lparr>devs := d\<rparr>) = files_ok h g s" "files_ok h g (s\<lparr>close_on_exec := c\<rparr>) = files_ok h g s"
  "files_ok h g (s\<lparr>task_tty := t\<rparr>) = files_ok h g s"
  by (simp_all add: files_ok_def)

lemma accounts_run: "accounts H (run_inode i f)"
  by (rule accounts_kept) (rule triple_run_inode)

lemma keeps_on_devs: "keeps_files h g (on_devs m)"
  by (rule tripleI) (auto simp: on_devs_def split: prod.splits)

abbreviation file_op_ok :: "(InodeId \<Rightarrow> nat) \<Rightarrow> (nat \<Rightarrow> nat) \<Rightarrow> nat \<Rightarrow> File \<Rightarrow> ('d files, 'a) op \<Rightarrow> bool" where
  "file_op_ok h g k f m \<equiv> triple (at_file h g k f) m (\<lambda>_. files_ok h g) (files_ok h g)"

lemma keeps_on_object:
  fixes m :: "File \<Rightarrow> ('d files, 'a) op"
  assumes "\<And>f. file_op_ok h g k f (m f)"
  shows "triple (\<lambda>s. files_ok h g s \<and> k < length (objects s)) (on_object k m) (\<lambda>_. files_ok h g) (files_ok h g)"
proof (rule triple_state)
  fix s :: "'d files" assume s: "files_ok h g s \<and> k < length (objects s)"
  show "triple (\<lambda>t. t = s) (on_object k m) (\<lambda>_. files_ok h g) (files_ok h g)"
  proof (cases "objects s ! k")
    case None
    then show ?thesis by (simp add: triple_def on_object_def)
  next
    case (Some f)
    show ?thesis by (rule triple_at [OF assms [of f]]) (use s Some in \<open>simp_all add: at_file_def on_object_def\<close>)
  qed
qed

lemma accounts_stores: "accounted H v \<Longrightarrow> accounted H (v\<lparr>stores := x\<rparr>)"
  by (simp add: accounted_def bal_def ids_def)

lemma at_file_then: "triple (at_file h g k f) m (\<lambda>_. at_file h g k f) (files_ok h g) \<Longrightarrow>
    (\<And>a. triple (at_file h g k f) (n a) Q (files_ok h g)) \<Longrightarrow> triple (at_file h g k f) (bind_op m n) Q (files_ok h g)"
  by (rule triple_bind)

lemma at_file_set:
  "file_handle f' = file_handle f \<Longrightarrow> triple (at_file h g k f) (\<lambda>s. (Ok a, set_object k f' s)) (\<lambda>_. files_ok h g) (files_ok h g)"
  by (rule triple_ok_upd) (rule set_object_ok)

lemma at_file_any: "keeps_files h g m \<Longrightarrow> triple (at_file h g k f) m (\<lambda>_. files_ok h g) (files_ok h g)"
  by (erule triple_pre) (simp add: at_file_def)

lemma at_file_ret: "triple (at_file h g k f) (\<lambda>s. (r, s)) (\<lambda>_. files_ok h g) (files_ok h g)"
  by (auto simp: triple_def at_file_def split: outcome.splits)

lemma at_file_ok: "triple (at_file h g k f) (\<lambda>s. (Ok a, s)) (\<lambda>_. at_file h g k f) (files_ok h g)"
  by (simp add: triple_def)

lemma keeps_tty: "(\<And>c. keeps_files h g (m c)) \<Longrightarrow> keeps_files h g (bind_op current_tty_channel m)"
proof (rule triple_bind)
  show "keeps_files h g current_tty_channel" by (auto simp: triple_def current_tty_channel_def)
qed

lemmas file_steps = kept_if at_file_then at_file_fsys [OF accounts_run] at_file_set at_file_ok at_file_ret
  at_file_any [OF keeps_on_devs] at_file_any [OF keeps_tty [OF keeps_on_devs]] at_file_any [OF keeps_on_fsys [OF accounts_run]]

lemma handle_offset: "file_handle (InodeFile m opts i off) = file_handle (InodeFile m opts i off')"
  "file_handle (BlockDeviceFile dev i off) = file_handle (BlockDeviceFile dev i off')"
  by (simp_all add: file_handle_def [abs_def])

lemma at_file_size: "triple (at_file h g k f) (inode_size i) (\<lambda>_. at_file h g k f) (files_ok h g)"
  unfolding inode_size_def by (rule at_file_fsys [OF accounts_run])

lemma keeps_file_read: "file_op_ok h g k f (case f of
        InodeFile m opts i off \<Rightarrow> InodeFile_read k m opts i off n
      | CharDeviceFile dev i \<Rightarrow> CharDeviceFile_read D dev n
      | BlockDeviceFile dev i off \<Rightarrow> BlockDeviceFile_read k dev i off n
      | PipeFile p w \<Rightarrow> on_devs (pipe_read D p n))"
proof (cases f)
  case (InodeFile m opts i off)
  show ?thesis unfolding InodeFile File.case InodeFile_read_def by (rule file_steps handle_offset)+
next
  case (CharDeviceFile dev i)
  show ?thesis unfolding CharDeviceFile File.case CharDeviceFile_read_def by (rule file_steps)+
next
  case (BlockDeviceFile dev i off)
  show ?thesis unfolding BlockDeviceFile File.case
    by (auto simp: triple_def BlockDeviceFile_read_def intro: set_object_ok handle_offset split: prod.splits outcome.splits)
next
  case (PipeFile p w)
  show ?thesis unfolding PipeFile File.case by (rule file_steps)
qed

lemma at_file_stores: "at_file h g k f s \<Longrightarrow> at_file h g k f (s\<lparr>fsys := (fsys s)\<lparr>stores := x\<rparr>\<rparr>)"
  by (auto simp: at_file_def intro: files_ok_fsys accounts_stores dest: files_okD(1))

lemma keeps_file_write: "file_op_ok h g k f (case f of
        InodeFile m opts i off \<Rightarrow> InodeFile_write k m opts i off bs
      | CharDeviceFile dev i \<Rightarrow> CharDeviceFile_write D dev bs
      | BlockDeviceFile dev i off \<Rightarrow> BlockDeviceFile_write k dev i off bs
      | PipeFile p w \<Rightarrow> on_devs (pipe_write D p bs))"
proof (cases f)
  case (InodeFile m opts i off)
  show ?thesis unfolding InodeFile File.case InodeFile_write_def by (rule file_steps at_file_size handle_offset)+
next
  case (CharDeviceFile dev i)
  show ?thesis unfolding CharDeviceFile File.case CharDeviceFile_write_def by (rule file_steps)+
next
  case (BlockDeviceFile dev i off)
  show ?thesis unfolding BlockDeviceFile File.case
    by (auto simp: triple_def BlockDeviceFile_write_def intro: set_object_ok at_file_stores handle_offset
        split: prod.splits outcome.splits)
next
  case (PipeFile p w)
  show ?thesis unfolding PipeFile File.case by (rule file_steps)
qed

lemma keeps_file_seek: "file_op_ok h g k f (case f of
        InodeFile m opts i off \<Rightarrow> InodeFile_seek k m opts i off delta whence
      | BlockDeviceFile dev i off \<Rightarrow> BlockDeviceFile_seek k dev i off delta whence
      | _ \<Rightarrow> (\<lambda>s. (Err Errno_SPIPE, s)))"
proof (cases f)
  case (InodeFile m opts i off)
  have "triple (at_file h g k f) (case whence of
         SeekSet \<Rightarrow> (\<lambda>s. (Ok delta, s))
       | SeekCurrent \<Rightarrow> (\<lambda>s. (Ok (off + delta), s))
       | SeekEnd \<Rightarrow> bind_op (inode_size i) (\<lambda>sz s. (Ok (sz + delta), s))) (\<lambda>_. at_file h g k f) (files_ok h g)" for f :: File
    by (cases whence; simp only: Whence.case) (rule at_file_ok at_file_then at_file_size)+
  then show ?thesis unfolding InodeFile File.case InodeFile_seek_def by (rule at_file_then) (rule file_steps handle_offset)+
next
  case (BlockDeviceFile dev i off)
  show ?thesis unfolding BlockDeviceFile File.case BlockDeviceFile_seek_def
    by (cases whence; simp only: Whence.case) (rule file_steps handle_offset)+
qed (simp only: File.case, rule at_file_ret)+

lemma keeps_file_stat: "file_op_ok h g k f (case f of
        InodeFile m opts i off \<Rightarrow> on_fsys (run_inode i (inode_stat i))
      | CharDeviceFile dev i \<Rightarrow> on_fsys (run_inode i (inode_stat i))
      | BlockDeviceFile dev i off \<Rightarrow> on_fsys (run_inode i (inode_stat i))
      | PipeFile p w \<Rightarrow> pipe_stat D p)"
  by (cases f; simp only: File.case) (rule file_steps | simp add: triple_def pipe_stat_def at_file_def)+

lemma keeps_file_ioctl: "file_op_ok h g k f (case f of
        CharDeviceFile dev i \<Rightarrow> CharDeviceFile_ioctl D dev cmd arg
      | _ \<Rightarrow> (\<lambda>s. (Err Errno_NOTTY, s)))"
  by (cases f; simp only: File.case CharDeviceFile_ioctl_def) (rule file_steps)+

section \<open>Calls on descriptors\<close>

lemma lookup_file_live:
  "triple (files_ok h g) (lookup_file fd)
     (\<lambda>k s. files_ok h g s \<and> k < length (objects s) \<and> unat fd < length (open_files s) \<and> open_files s ! unat fd = Some k) (files_ok h g)"
proof (rule tripleI)
  fix s k s' assume s: "files_ok h g s" and "lookup_file fd s = (Ok k, s')"
  then have k: "s' = s" "unat fd < length (open_files s)" "open_files s ! unat fd = Some k"
    by (auto simp: lookup_file_def split: option.splits if_splits)
  then have "count_list (open_files s) (Some k) \<noteq> 0" by (metis count_list_0_iff nth_mem)
  then have "k < length (objects s)" using files_okD(3,4) [OF s, of k] by simp
  with s k show "files_ok h g s' \<and> k < length (objects s') \<and> unat fd < length (open_files s') \<and> open_files s' ! unat fd = Some k" by simp
qed (auto simp: lookup_file_def split: option.splits if_splits)

lemma keeps_by_descriptor:
  assumes "\<And>f k. file_op_ok h g k f (m k f)"
  shows "keeps_files h g (bind_op (lookup_file fd) (\<lambda>k. on_object k (m k)))"
  by (rule triple_bind [OF lookup_file_live], rule triple_pre [OF keeps_on_object [OF assms]]) simp

lemma keeps_io:
  "keeps_files h g (sys_read D fd n)" "keeps_files h g (sys_write D fd bs)" "keeps_files h g (sys_fstat D fd)"
  "keeps_files h g (sys_ioctl D fd cmd arg)" "keeps_files h g (sys_lseek fd offset whence)"
proof -
  show "keeps_files h g (sys_read D fd n)" unfolding sys_read_def file_read_def by (rule keeps_by_descriptor, rule keeps_file_read)
  show "keeps_files h g (sys_write D fd bs)" unfolding sys_write_def file_write_def by (rule keeps_by_descriptor, rule keeps_file_write)
  show "keeps_files h g (sys_fstat D fd)" unfolding sys_fstat_def file_stat_def [abs_def] by (rule keeps_by_descriptor, rule keeps_file_stat)
  show "keeps_files h g (sys_ioctl D fd cmd arg)" unfolding sys_ioctl_def file_ioctl_def by (rule keeps_by_descriptor, rule keeps_file_ioctl)
  have "keeps_files h g (bind_op (lookup_file fd) (\<lambda>k. file_seek k offset w))" for w
    unfolding file_seek_def by (rule keeps_by_descriptor, rule keeps_file_seek)
  then show "keeps_files h g (sys_lseek fd offset whence)"
    by (cases "Whence_from_raw whence") (simp_all add: sys_lseek_def [abs_def] triple_def)
qed

lemma add_file_ok:
  "triple (files_ok h (add_arc k g)) (add_file D k) (\<lambda>r s. files_ok h g s \<and> (\<forall>fd. r = Some fd \<longrightarrow> fd < TASK_OPEN_FILES_LIMIT)) E"
proof (rule triple_state)
  fix s :: "'a files" assume s: "files_ok h (add_arc k g) s"
  show "triple (\<lambda>t. t = s) (add_file D k) (\<lambda>r s. files_ok h g s \<and> (\<forall>fd. r = Some fd \<longrightarrow> fd < TASK_OPEN_FILES_LIMIT)) E"
  proof (cases "find (\<lambda>fd. open_files s ! fd = None) [0..<length (open_files s)]")
    case None
    then show ?thesis using drop_arc_ok [OF s] by (simp add: triple_def add_file_def)
  next
    case (Some fd)
    then have "fd < length (open_files s)" "open_files s ! fd = None" by (auto simp: find_Some_iff)
    with Some put_slot_ok [OF s] files_okD(2) [OF s] show ?thesis by (simp add: triple_def add_file_def)
  qed
qed

lemma keeps_close: "keeps_files h g (sys_close D fd)"
  unfolding sys_close_def by (rule triple_bind [OF lookup_file_live], rule triple_ok_upd) (auto intro: set_slot_ok)

lemma keeps_add_file:
  "triple (files_ok h (add_arc k g)) (bind_op (add_file D k) (\<lambda>r s. case r of Some d \<Rightarrow> (Ok d, s) | None \<Rightarrow> (Err e, s)))
     (\<lambda>_. files_ok h g) (files_ok h g)"
  by (rule triple_bind [OF add_file_ok]) (auto simp: triple_def split: option.splits)

lemma live_arcs: "files_ok h g s \<Longrightarrow> fd < length (open_files s) \<Longrightarrow> open_files s ! fd = Some k \<Longrightarrow> 0 < arcs s k"
  using files_okD(3) [of h g s k] by (metis add_gr_0 count_list_0_iff gr0I nth_mem)

lemma triple_upd: "(\<And>s. P s \<Longrightarrow> R (u s)) \<Longrightarrow> triple R m Q E \<Longrightarrow> triple P (\<lambda>s. m (u s)) Q E"
  by (simp add: triple_def)

lemma keeps_dup: "keeps_files h g (sys_dup D fd)"
  unfolding sys_dup_def
  by (rule triple_bind [OF lookup_file_live], rule triple_upd [OF _ keeps_add_file]) (auto intro: clone_arc_ok live_arcs)

lemma keeps_dup2: "keeps_files h g (sys_dup2 D oldfd newfd)"
  unfolding sys_dup2_def
proof (rule triple_bind [OF lookup_file_live], rule tripleI)
  fix k and s :: "'a files" and a :: u32 and s'
  assume s: "files_ok h g s \<and> k < length (objects s) \<and> unat oldfd < length (open_files s) \<and> open_files s ! unat oldfd = Some k"
  then have "files_ok h (add_arc k g) (clone_arc k s)" by (auto intro: clone_arc_ok live_arcs)
  then have "unat newfd < length (open_files s) \<Longrightarrow> files_ok h g (set_slot D (unat newfd) (Some k) (clone_arc k s))"
    by (rule replace_slot_ok) (simp add: clone_arc_def)
  then show "(if oldfd = newfd then (Ok newfd, s)
       else if unat newfd < length (open_files s) then (Ok newfd, set_slot D (unat newfd) (Some k) (clone_arc k s))
       else (Err Errno_BADF, s)) = (Ok a, s') \<Longrightarrow> files_ok h g s'"
    using s by (auto split: if_splits)
qed (auto split: if_splits)

lemma keeps_fcntl: "keeps_files h g (sys_fcntl fd cmd arg)"
  unfolding sys_fcntl_def
proof (rule triple_bind [OF lookup_file_live], rule triple_state)
  fix k and s :: "'a files"
  assume s: "files_ok h g s \<and> k < length (objects s) \<and> unat fd < length (open_files s) \<and> open_files s ! unat fd = Some k"
  have "files_ok h (add_arc k g) (clone_arc k s)" using s by (auto intro: clone_arc_ok live_arcs)
  then have "files_ok h g ((clone_arc k s)\<lparr>open_files := (open_files s)[new_fd := Some k], close_on_exec := c\<rparr>)"
    if "find (\<lambda>i. open_files s ! i = None) [unat arg..<length (open_files s)] = Some new_fd" for new_fd c
    using put_slot_ok [of h k g "clone_arc k s" new_fd] that by (auto simp: find_Some_iff clone_arc_def)
  with s show "triple (\<lambda>t. t = s) (\<lambda>s. if cmd = 0 then
         (case find (\<lambda>i. open_files s ! i = None) [unat arg..<length (open_files s)] of
            None \<Rightarrow> (Err Errno_MFILE, s)
          | Some new_fd \<Rightarrow>
              (Ok (word_of_nat new_fd),
               (clone_arc k s)\<lparr>open_files := (open_files s)[new_fd := Some k],
                  close_on_exec := close_on_exec s AND NOT (push_bit new_fd 1)\<rparr>))
       else if cmd = 1 then (Ok (drop_bit (unat fd) (close_on_exec s) AND 1), s)
       else if cmd = 2 then
         (Ok 0, s\<lparr>close_on_exec :=
            (if arg AND 1 \<noteq> 0 then close_on_exec s OR push_bit (unat fd) 1 else close_on_exec s AND NOT (push_bit (unat fd) 1))\<rparr>)
       else if cmd = 3 \<or> cmd = 4 then (Ok 0, s)
       else (Err Errno_INVAL, s)) (\<lambda>_. files_ok h g) (files_ok h g)"
    by (auto simp: triple_def split: option.splits)
qed

text \<open>A new object of a pipe takes no handle.\<close>

lemma new_pipe_end_ok: "files_ok h g s \<Longrightarrow> new_object (PipeFile p w) s = (k, s') \<Longrightarrow> files_ok h (add_arc k g) s'"
  by (rule new_object_ok [where f = "PipeFile p w"]) (simp_all add: file_handle_def)

lemma add_arc_commute: "add_arc j (add_arc k g) = add_arc k (add_arc j g)"
  by (auto simp: add_arc_def fun_eq_iff)

lemma keeps_pipe: "keeps_files h g (sys_pipe D)"
  unfolding sys_pipe_def
proof (rule triple_bind [OF keeps_on_devs], rule triple_state)
  fix p and s :: "'a files" assume s: "files_ok h g s"
  obtain rd s1 where rd: "new_object (PipeFile p False) s = (rd, s1)" by fastforce
  obtain wr s2 where wr: "new_object (PipeFile p True) s1 = (wr, s2)" by fastforce
  let ?rest = "bind_op (add_file D rd) (\<lambda>r s.
           case r of
             None \<Rightarrow> (Err Errno_MFILE, drop_arc D wr s)
           | Some fd0 \<Rightarrow>
               bind_op (add_file D wr) (\<lambda>r s.
                 case r of
                   Some fd1 \<Rightarrow> (Ok (fd0, fd1), s)
                 | None \<Rightarrow> (Err Errno_MFILE, set_slot D fd0 None s)) s)"
  have "files_ok h (add_arc wr (add_arc rd g)) s2" by (rule new_pipe_end_ok [OF new_pipe_end_ok [OF s rd] wr])
  then have s2: "files_ok h (add_arc rd (add_arc wr g)) s2" by (simp add: add_arc_commute)
  have second: "triple (files_ok h (add_arc wr g)) (bind_op (add_file D wr) (\<lambda>r s.
       case r of Some fd1 \<Rightarrow> (Ok (fd0, fd1), s) | None \<Rightarrow> (Err Errno_MFILE, set_slot D fd0 None s))) (\<lambda>_. files_ok h g) (files_ok h g)"
    if "fd0 < TASK_OPEN_FILES_LIMIT" for fd0
    by (rule triple_bind [OF add_file_ok])
      (use that in \<open>auto simp: triple_def files_okD(2) intro!: set_slot_ok split: option.splits\<close>)
  have "triple (\<lambda>s. files_ok h (add_arc wr g) s \<and> (\<forall>fd. r = Some fd \<longrightarrow> fd < TASK_OPEN_FILES_LIMIT)) (\<lambda>s. case r of
             None \<Rightarrow> (Err Errno_MFILE, drop_arc D wr s)
           | Some fd0 \<Rightarrow>
               bind_op (add_file D wr) (\<lambda>r s.
                 case r of
                   Some fd1 \<Rightarrow> (Ok (fd0, fd1), s)
                 | None \<Rightarrow> (Err Errno_MFILE, set_slot D fd0 None s)) s) (\<lambda>_. files_ok h g) (files_ok h g)" for r
  proof (cases r)
    case None
    then show ?thesis by (simp add: triple_def drop_arc_ok)
  next
    case (Some fd0)
    then show ?thesis using second [of fd0] by (simp add: triple_def)
  qed
  with s2 have "triple (\<lambda>t. t = s2) ?rest (\<lambda>_. files_ok h g) (files_ok h g)"
    by (intro triple_pre [OF triple_bind [OF add_file_ok [where g = "add_arc wr g"]]]) auto
  then show "triple (\<lambda>t. t = s) (\<lambda>s. case new_object (PipeFile p False) s of (rd, s1) \<Rightarrow>
       case new_object (PipeFile p True) s1 of (wr, s2) \<Rightarrow>
         bind_op (add_file D rd) (\<lambda>r s.
           case r of
             None \<Rightarrow> (Err Errno_MFILE, drop_arc D wr s)
           | Some fd0 \<Rightarrow>
               bind_op (add_file D wr) (\<lambda>r s.
                 case r of
                   Some fd1 \<Rightarrow> (Ok (fd0, fd1), s)
                 | None \<Rightarrow> (Err Errno_MFILE, set_slot D fd0 None s)) s) s2) (\<lambda>_. files_ok h g) (files_ok h g)"
    by (simp add: triple_def rd wr)
qed

section \<open>Opening\<close>

lemma triple_holding_any:
  assumes "triple (bal (add dir b) C M) m (\<lambda>i. bal (add dir (add i b)) C M) (bal (add dir b) C M)"
  shows "triple (bal (add dir b) C M) (holding dir m) (\<lambda>i. bal (add i b) C M) (bal b C M)"
proof (rule tripleI)
  fix s a s' assume p: "bal (add dir b) C M s" and h: "holding dir m s = (Ok a, s')"
  then obtain s1 where "m s = (Ok a, s1)" "s' = drop_ref dir s1" by (auto simp: holding_def split: prod.splits outcome.splits)
  then show "bal (add a b) C M s'" using tripleD(1) [OF assms p] bal_drop by blast
next
  fix s e s' assume p: "bal (add dir b) C M s" and h: "holding dir m s = (Err e, s')"
  then obtain s1 where "m s = (Err e, s1)" "s' = drop_ref dir s1" by (auto simp: holding_def split: prod.splits outcome.splits)
  then show "bal b C M s'" using tripleD(2) [OF assms p] bal_drop by blast
qed

lemma kept_open_existing: "kept b C M (open_existing m opts i)"
  unfolding open_existing_def by (rule keeps)+

lemma triple_open_inode:
  assumes "owned C b"
  shows "triple (bal b C M) (open_inode path m opts perm) (\<lambda>i. bal (add i b) C M) (bal b C M)"
proof -
  have existing: "triple (bal (add i (add dir b)) C M) (\<lambda>v. case open_existing m opts i v of
        (Ok _, v1) \<Rightarrow> (Ok i, v1) | (Err e, v1) \<Rightarrow> (Err e, drop_ref i v1) | (Panic, v1) \<Rightarrow> (Panic, v1))
     (\<lambda>i. bal (add dir (add i b)) C M) (bal (add dir b) C M)" for i dir
    by (rule triple_match [OF kept_open_existing]) (auto simp: triple_def bal_drop add_commute)
  have create: "triple (bal (add dir b) C M) (create_file dir name perm) (\<lambda>i. bal (add dir (add i b)) C M) (bal (add dir b) C M)"
    for dir name
    unfolding create_file_def using triple_alloc_and_link [of "add dir b"] by (simp add: add_commute)
  have entry: "triple (bal (add dir b) C M) (case r of
             None \<Rightarrow>
               bind_op (require (has_option opts CREATE) Errno_NOENT) (\<lambda>_.
               bind_op (check_permission dir MAY_WRITE) (\<lambda>ok.
               bind_op (require ok Errno_ACCESS) (\<lambda>_. create_file dir name perm)))
           | Some n \<Rightarrow>
               bind_op (require (\<not> has_option opts EXCLUSIVE) Errno_EXIST) (\<lambda>_.
               bind_op (resolve_inode (inode_of_entry dir n)) (\<lambda>i v.
                 case open_existing m opts i v of
                   (Ok _, v1) \<Rightarrow> (Ok i, v1)
                 | (Err e, v1) \<Rightarrow> (Err e, drop_ref i v1)
                 | (Panic, v1) \<Rightarrow> (Panic, v1))))
     (\<lambda>i. bal (add dir (add i b)) C M) (bal (add dir b) C M)" for dir name r
    by (cases r; simp only: option.case)
      (rule kept_resolve [OF existing] create kept_bind triple_require triple_check_permission)+
  have top: "triple (bal (add dir b) C M) (\<lambda>v. if m \<noteq> ReadOnly \<or> opts AND (CREATE OR TRUNCATE) \<noteq> 0
      then (Err Errno_ISDIR, drop_ref dir v) else (Ok dir, v)) (\<lambda>i. bal (add i b) C M) (bal b C M)" for dir
    by (auto simp: triple_def bal_drop)
  show ?thesis
    unfolding open_inode_def
    by (rule kept_parent [OF assms], rule kept_if, rule top, rule triple_holding_any, rule kept_bind [OF triple_run_inode entry])
qed

lemma accounts_open_inode:
  "triple (accounted H) (open_inode path m opts perm) (\<lambda>i. accounted (\<lambda>j. H j + held (Some i) j)) (accounted H)"
proof (rule triple_state)
  fix v assume v: "accounted H v"
  let ?b = "owners H (ctx v) (mounts v)"
  have b: "bal ?b (ctx v) (mounts v) v" and ok: "mounts_ok (mounts v)" using v by (simp_all add: accounted_def)
  have "(\<lambda>j. H j + held (Some i) j) = add i H" for i by (auto simp: fun_eq_iff held_def add_def)
  then have "accounted (\<lambda>j. H j + held (Some i) j) w" if "bal (add i ?b) (ctx v) (mounts v) w" for i w
    using that by (auto intro: accounted_intro [OF _ ok] simp: owners_add)
  then show "triple (\<lambda>s. s = v) (open_inode path m opts perm) (\<lambda>i. accounted (\<lambda>j. H j + held (Some i) j)) (accounted H)"
    using b by (intro triple_conseq [OF triple_pre [OF triple_open_inode [OF owned_owners]]]) (auto intro: accounted_intro [OF _ ok])
qed

lemma triple_fail: "triple P (\<lambda>v. (Err e, v)) Q P"
  by (simp add: triple_def)

lemma accounts_file_of_inode: "accounts H (file_of_inode m opts i)"
  unfolding file_of_inode_def
  by (rule accounts_kept, rule kept_bind [OF triple_run_inode])
    (rule kept_if kept_bind [OF triple_run_inode] kept_skip triple_fail)+

lemma file_of_inode_handle: "file_of_inode m opts i v = (Ok f, v') \<Longrightarrow> file_handle f = held (Some i)"
  by (auto simp: file_of_inode_def bind_op_Ok_iff file_handle_def split: if_splits)

lemma drop_handle_ok: "files_ok (\<lambda>j. h j + held (Some i) j) g s \<Longrightarrow> files_ok h g (s\<lparr>fsys := drop_ref i (fsys s)\<rparr>)"
proof -
  assume s: "files_ok (\<lambda>j. h j + held (Some i) j) g s"
  have "(\<lambda>j. h j + held (Some i) j + handles (objects s) j) = add i (\<lambda>j. h j + handles (objects s) j)"
    by (auto simp: fun_eq_iff held_def add_def)
  with files_okD(1) [OF s] accounted_drop show ?thesis by (auto intro: files_ok_fsys [OF s])
qed

lemma keeps_open:
  fixes D :: "'d drivers"
  shows "keeps_files h g (sys_open D path raw_flags perm)"
proof -
  let ?h = "\<lambda>i j. h j + held (Some i) j"
  have mk: "triple (files_ok (?h i) g) (on_fsys (file_of_inode m opts i) :: ('d files, File) op)
      (\<lambda>f s. files_ok (\<lambda>j. h j + file_handle f j) g s) (files_ok (?h i) g)" for m opts i
  proof (rule tripleI)
    fix s :: "'d files" and f s' assume s: "files_ok (?h i) g s" and r: "on_fsys (file_of_inode m opts i) s = (Ok f, s')"
    then have "file_handle f = held (Some i)" by (auto simp: on_fsys_def dest: file_of_inode_handle split: prod.splits)
    with tripleD(1) [OF keeps_on_fsys [OF accounts_file_of_inode] s r] show "files_ok (\<lambda>j. h j + file_handle f j) g s'" by simp
  qed (erule (1) tripleD(2) [OF keeps_on_fsys [OF accounts_file_of_inode]])
  have put: "triple (files_ok (\<lambda>j. h j + file_handle f j) g) (\<lambda>s. case new_object f s of (k, s2) \<Rightarrow>
       bind_op (add_file D k) (\<lambda>r s. case r of Some fd \<Rightarrow> (Ok fd, s) | None \<Rightarrow> (Err Errno_MFILE, s)) s2) (\<lambda>_. files_ok h g) (files_ok h g)" for f
  proof (rule triple_state)
    fix s :: "'d files" assume "files_ok (\<lambda>j. h j + file_handle f j) g s"
    moreover obtain k s2 where k: "new_object f s = (k, s2)" by fastforce
    ultimately have "files_ok h (add_arc k g) s2" by (rule new_object_ok)
    then have "triple (\<lambda>t. t = s2) (bind_op (add_file D k) (\<lambda>r s. case r of Some fd \<Rightarrow> (Ok fd, s) | None \<Rightarrow> (Err Errno_MFILE, s)))
        (\<lambda>_. files_ok h g) (files_ok h g)"
      by (intro triple_pre [OF keeps_add_file]) simp
    then show "triple (\<lambda>t. t = s) (\<lambda>s. case new_object f s of (k, s2) \<Rightarrow>
       bind_op (add_file D k) (\<lambda>r s. case r of Some fd \<Rightarrow> (Ok fd, s) | None \<Rightarrow> (Err Errno_MFILE, s)) s2) (\<lambda>_. files_ok h g) (files_ok h g)"
      by (simp add: triple_def k)
  qed
  have get: "triple (files_ok h g) (on_fsys (open_inode path m opts perm)) (\<lambda>i. files_ok (?h i) g) (files_ok h g)" for m opts
    by (rule triple_state, rule triple_conseq, rule triple_pre, rule on_fsys_triple [OF accounts_open_inode]) auto
  have "keeps_files h g (open_with D path m opts perm)" for m opts
    unfolding open_with_def by (rule triple_bind [OF get], rule triple_match [OF mk put]) (simp add: triple_def drop_handle_ok)
  then show ?thesis
    by (cases "into_parts raw_flags") (auto simp: sys_open_def triple_fail split: prod.splits)
qed

lemma keeps_creat: "keeps_files h g (sys_creat D path perm)"
  unfolding sys_creat_def by (rule keeps_open)

section \<open>Processes\<close>

lemma close_fold_ok:
  "files_ok h g s \<Longrightarrow> set fds \<subseteq> {..<TASK_OPEN_FILES_LIMIT} \<Longrightarrow>
   files_ok h g (fold (\<lambda>fd t. if c fd then set_slot D fd None t else t) fds s)"
proof (induction fds arbitrary: s)
  case (Cons fd fds)
  then have "files_ok h g (set_slot D fd None s)" by (intro set_slot_ok) (auto simp: files_okD(2))
  with Cons show ?case by simp
qed simp

lemma close_marked_ok: "files_ok h g s \<Longrightarrow> files_ok h g (close_marked D s)"
  using close_fold_ok [of h g s "[0..<length (open_files s)]"] files_okD(2) [of h g s]
  by (simp add: close_marked_def atLeast0LessThan)

lemma drop_arc_slots: "open_files (drop_arc D k s) = open_files s"
  by (auto simp: drop_arc_def release_def Let_def split: option.splits File.splits)

lemma set_slot_slots: "open_files (set_slot D fd x s) = (open_files s)[fd := x]"
  by (simp add: set_slot_def drop_arc_slots Let_def split: option.splits)

lemma close_fold_slots:
  "open_files (fold (\<lambda>fd. set_slot D fd None) fds s) = fold (\<lambda>fd xs. xs[fd := None]) fds (open_files s)"
  by (induction fds arbitrary: s) (simp_all add: set_slot_slots)

lemma clear_fold: "n \<le> length xs \<Longrightarrow> fold (\<lambda>fd xs. xs[fd := None]) [0..<n] xs = replicate n None @ drop n xs"
proof (induction n)
  case (Suc n)
  have "drop n xs = xs ! n # drop (Suc n) xs" by (rule Cons_nth_drop_Suc [symmetric]) (use Suc.prems in simp)
  with Suc show ?case by (simp add: list_update_append replicate_app_Cons_same)
qed simp

lemma drop_dir_ok:
  assumes "bal (\<lambda>j. b j + held d j) C M v"
  shows "bal b C' M (drop_dir d (v\<lparr>ctx := C'\<rparr>))"
proof (cases d)
  case None
  with bal_set_ctx [OF assms, of C'] show ?thesis by (simp add: drop_dir_def held_def)
next
  case (Some i)
  then have "(\<lambda>j. b j + held d j) = add i b" by (auto simp: fun_eq_iff held_def add_def)
  with assms bal_set_ctx have "bal (add i b) C' M (v\<lparr>ctx := C'\<rparr>)" by metis
  with Some show ?thesis by (simp add: drop_dir_def bal_drop)
qed

lemma exit_dirs_ok:
  assumes v: "accounted h v"
  shows "accounted h (exit_dirs v)" "root_directory (ctx (exit_dirs v)) = None" "current_directory (ctx (exit_dirs v)) = None"
    "mounts (exit_dirs v) = mounts v"
proof -
  let ?C = "ctx v" and ?M = "mounts v"
  let ?C1 = "?C\<lparr>root_directory := None\<rparr>"
  let ?C2 = "?C1\<lparr>current_directory := None\<rparr>"
  have b: "bal (owners h ?C ?M) ?C ?M v" and ok: "mounts_ok ?M" using v by (simp_all add: accounted_def)
  have "owners h ?C ?M = (\<lambda>j. owners h ?C1 ?M j + held (root_directory ?C) j)" by (auto simp: owners_def held_def fun_eq_iff)
  with b have 1: "bal (owners h ?C1 ?M) ?C1 ?M (drop_dir (root_directory ?C) (v\<lparr>ctx := ?C1\<rparr>))" (is "bal _ _ _ ?v1")
    using drop_dir_ok [of "owners h ?C1 ?M" "root_directory ?C" ?C ?M v ?C1] by simp
  have "owners h ?C1 ?M = (\<lambda>j. owners h ?C2 ?M j + held (current_directory ?C) j)" by (auto simp: owners_def held_def fun_eq_iff)
  with 1 have "bal (owners h ?C2 ?M) ?C2 ?M (drop_dir (current_directory ?C) (?v1\<lparr>ctx := ?C2\<rparr>))"
    using drop_dir_ok [of "owners h ?C2 ?M" "current_directory ?C" ?C1 ?M ?v1 ?C2] by simp
  moreover have "ctx ?v1 = ?C1" using bal_ctx [OF 1] by simp
  ultimately have 2: "bal (owners h ?C2 ?M) ?C2 ?M (exit_dirs v)" by (simp add: exit_dirs_def Let_def)
  from accounted_intro [OF 2 ok] show "accounted h (exit_dirs v)" .
  from bal_ctx [OF 2] show "root_directory (ctx (exit_dirs v)) = None" "current_directory (ctx (exit_dirs v)) = None"
    "mounts (exit_dirs v) = ?M" by simp_all
qed

lemma handles_none: "(\<And>k. k < length xs \<Longrightarrow> xs ! k = None) \<Longrightarrow> handles xs i = 0"
  by (auto simp: handles_def object_handle_def in_set_conv_nth split: option.splits) 

lemma exit_files_ok:
  assumes s: "files_ok h (\<lambda>_. 0) s"
  shows "accounted h (fsys (exit_files D s))" "root_directory (ctx (fsys (exit_files D s))) = None"
    "current_directory (ctx (fsys (exit_files D s))) = None"
proof -
  let ?s = "fold (\<lambda>fd. set_slot D fd None) [0..<length (open_files s)] s"
  have ok: "files_ok h (\<lambda>_. 0) ?s"
    using close_fold_ok [OF s, of "[0..<length (open_files s)]" "\<lambda>_. True"] files_okD(2) [OF s]
    by (simp add: atLeast0LessThan)
  have "open_files ?s = replicate (length (open_files s)) None" by (simp add: close_fold_slots clear_fold)
  then have "arcs ?s k = 0" for k using files_okD(3) [OF ok, of k] by (simp add: count_list_0_iff)
  then have "k < length (objects ?s) \<Longrightarrow> objects ?s ! k = None" for k using files_okD(4) [OF ok, of k] by auto
  then have "accounted h (fsys ?s)" using files_okD(1) [OF ok] by (simp add: handles_none)
  from exit_dirs_ok [OF this] show "accounted h (fsys (exit_files D s))" "root_directory (ctx (fsys (exit_files D s))) = None"
    "current_directory (ctx (fsys (exit_files D s))) = None"
    by (simp_all add: exit_files_def Let_def)
qed

lemma mounts_drop_arc: "mounts (fsys (drop_arc D k s)) = mounts (fsys s)"
  by (auto simp: drop_arc_def release_def drop_ref_def Let_def split: option.splits File.splits)

lemma mounts_set_slot: "mounts (fsys (set_slot D fd x s)) = mounts (fsys s)"
  by (auto simp: set_slot_def mounts_drop_arc Let_def split: option.splits)

lemma exit_files_mounts: "mounts (fsys (exit_files D s)) = mounts (fsys s)"
proof -
  have "mounts (fsys (fold (\<lambda>fd. set_slot D fd None) fds s)) = mounts (fsys s)" for fds
    by (induction fds arbitrary: s) (simp_all add: mounts_set_slot)
  moreover have "mounts (exit_dirs v) = mounts v" for v
    by (simp add: exit_dirs_def drop_dir_def drop_ref_def Let_def split: option.splits)
  ultimately show ?thesis by (simp add: exit_files_def Let_def)
qed

text \<open>What the child holds after a \<open>fork\<close>.\<close>

definition dirs :: "task_context \<Rightarrow> InodeId \<Rightarrow> nat" where
  "dirs C i = held (root_directory C) i + held (current_directory C) i"

lemma clone_fold_ok:
  "files_ok h g s \<Longrightarrow> (\<And>k. Some k \<in> set xs \<Longrightarrow> 0 < arcs s k) \<Longrightarrow>
   files_ok h (\<lambda>k. g k + count_list xs (Some k)) (fold clone_file xs s) \<and> fsys (fold clone_file xs s) = fsys s"
proof (induction xs arbitrary: s g)
  case (Cons x xs)
  show ?case
  proof (cases x)
    case None
    with Cons show ?thesis by (simp add: clone_file_def)
  next
    case (Some k)
    have "files_ok h (add_arc k g) (clone_arc k s)" using Cons.prems Some by (intro clone_arc_ok) auto
    moreover have "0 < arcs (clone_arc k s) j" if "Some j \<in> set xs" for j using Cons.prems(2) [of j] that by (simp add: clone_arc_def)
    ultimately have "files_ok h (\<lambda>j. add_arc k g j + count_list xs (Some j)) (fold clone_file xs (clone_arc k s))
        \<and> fsys (fold clone_file xs (clone_arc k s)) = fsys (clone_arc k s)"
      by (rule Cons.IH)
    moreover have "(\<lambda>j. add_arc k g j + count_list xs (Some j)) = (\<lambda>j. g j + count_list (x # xs) (Some j))"
      using Some by (auto simp: fun_eq_iff add_arc_def)
    moreover have "clone_file x s = clone_arc k s" "fsys (clone_arc k s) = fsys s"
      using Some by (simp_all add: clone_file_def clone_arc_def)
    ultimately show ?thesis by simp
  qed
qed simp

lemma clone_dir_ok:
  assumes v: "accounted h v" and d: "d = root_directory (ctx v) \<or> d = current_directory (ctx v)"
  shows "accounted (\<lambda>i. h i + held d i) (clone_dir d v)" "ctx (clone_dir d v) = ctx v"
proof -
  show "ctx (clone_dir d v) = ctx v" by (simp add: clone_dir_def clone_ref_def split: option.splits)
  show "accounted (\<lambda>i. h i + held d i) (clone_dir d v)"
  proof (cases d)
    case None
    with v show ?thesis by (simp add: clone_dir_def held_def)
  next
    case (Some i)
    let ?C = "ctx v" and ?M = "mounts v"
    have b: "bal (owners h ?C ?M) ?C ?M v" and ok: "mounts_ok ?M" using v by (simp_all add: accounted_def)
    have "0 < owners h ?C ?M i" using d Some by (auto simp: owners_def held_def)
    from bal_clone [OF b bal_cached [OF b this]] have "bal (owners (add i h) ?C ?M) ?C ?M (clone_ref i v)" by (simp add: owners_add)
    from accounted_intro [OF this ok] have "accounted (add i h) (clone_ref i v)" .
    moreover have "add i h = (\<lambda>j. h j + held d j)" using Some by (auto simp: fun_eq_iff held_def add_def)
    ultimately show ?thesis using Some by (simp add: clone_dir_def)
  qed
qed

lemma fork_files_ok:
  assumes s: "files_ok h g s"
  shows "files_ok (\<lambda>i. h i + dirs (ctx (fsys s)) i) (\<lambda>k. g k + count_list (open_files s) (Some k)) (fork_files s)"
proof -
  let ?g = "\<lambda>k. g k + count_list (open_files s) (Some k)" and ?s = "fold clone_file (open_files s) s" and ?C = "ctx (fsys s)"
  let ?H = "\<lambda>i. h i + handles (objects ?s) i"
  have "0 < arcs s k" if "Some k \<in> set (open_files s)" for k
    using live_arcs [OF s] that by (auto simp: in_set_conv_nth)
  from clone_fold_ok [OF s this] have ok: "files_ok h ?g ?s" and e: "fsys ?s = fsys s" by auto
  have 0: "accounted ?H (fsys s)" using files_okD(1) [OF ok] e by simp
  note 1 = clone_dir_ok [OF 0, of "root_directory ?C", simplified]
  note 2 = clone_dir_ok(1) [OF 1(1), of "current_directory ?C", unfolded 1(2), simplified]
  have "(\<lambda>i. ?H i + held (root_directory ?C) i + held (current_directory ?C) i)
      = (\<lambda>i. h i + dirs ?C i + handles (objects ?s) i)" by (simp add: fun_eq_iff dirs_def)
  with 2 show ?thesis using e by (simp add: fork_files_def Let_def files_ok_fsys [OF ok])
qed

section \<open>Runs\<close>

text \<open>The calls of a task one after the other.  Beside its state a configuration has what the others hold: handles on inodes
  and references to open files.  A \<open>fork\<close> adds to it, and the others give back what they hold at any time.\<close>

inductive files_step :: "'d drivers \<Rightarrow> (InodeId \<Rightarrow> nat) \<times> (nat \<Rightarrow> nat) \<times> 'd files \<Rightarrow> (InodeId \<Rightarrow> nat) \<times> (nat \<Rightarrow> nat) \<times> 'd files \<Rightarrow> bool"
  for D where
  name: "fs_step (fsys s) v \<Longrightarrow> files_step D (h, g, s) (h, g, s\<lparr>fsys := v\<rparr>)"
| open_call: "sys_open D path raw_flags perm s = (r, s') \<Longrightarrow> r \<noteq> Panic \<Longrightarrow> files_step D (h, g, s) (h, g, s')"
| creat: "sys_creat D path perm s = (r, s') \<Longrightarrow> r \<noteq> Panic \<Longrightarrow> files_step D (h, g, s) (h, g, s')"
| read_call: "sys_read D fd n s = (r, s') \<Longrightarrow> r \<noteq> Panic \<Longrightarrow> files_step D (h, g, s) (h, g, s')"
| write_call: "sys_write D fd bs s = (r, s') \<Longrightarrow> r \<noteq> Panic \<Longrightarrow> files_step D (h, g, s) (h, g, s')"
| close_call: "sys_close D fd s = (r, s') \<Longrightarrow> r \<noteq> Panic \<Longrightarrow> files_step D (h, g, s) (h, g, s')"
| lseek: "sys_lseek fd delta whence s = (r, s') \<Longrightarrow> r \<noteq> Panic \<Longrightarrow> files_step D (h, g, s) (h, g, s')"
| dup: "sys_dup D fd s = (r, s') \<Longrightarrow> r \<noteq> Panic \<Longrightarrow> files_step D (h, g, s) (h, g, s')"
| dup2: "sys_dup2 D fd fd' s = (r, s') \<Longrightarrow> r \<noteq> Panic \<Longrightarrow> files_step D (h, g, s) (h, g, s')"
| fstat: "sys_fstat D fd s = (r, s') \<Longrightarrow> r \<noteq> Panic \<Longrightarrow> files_step D (h, g, s) (h, g, s')"
| ioctl: "sys_ioctl D fd cmd arg s = (r, s') \<Longrightarrow> r \<noteq> Panic \<Longrightarrow> files_step D (h, g, s) (h, g, s')"
| fcntl: "sys_fcntl fd cmd arg s = (r, s') \<Longrightarrow> r \<noteq> Panic \<Longrightarrow> files_step D (h, g, s) (h, g, s')"
| pipe: "sys_pipe D s = (r, s') \<Longrightarrow> r \<noteq> Panic \<Longrightarrow> files_step D (h, g, s) (h, g, s')"
| exec: "files_step D (h, g, s) (h, g, close_marked D s)"
| fork: "files_step D (h, g, s)
    (\<lambda>i. h i + dirs (ctx (fsys s)) i, \<lambda>k. g k + count_list (open_files s) (Some k), fork_files s)"
| other_close: "files_step D (h, add_arc k g, s) (h, g, drop_arc D k s)"
| other_drop: "files_step D (\<lambda>j. h j + held (Some i) j, g, s) (h, g, s\<lparr>fsys := drop_ref i (fsys s)\<rparr>)"

lemma keeps_files_step:
  assumes "keeps_files h g m" "m s = (r, s')" "r \<noteq> Panic" "files_ok h g s"
  shows "files_ok h g s'"
proof (cases r)
  case (Ok a)
  show ?thesis by (rule tripleD(1) [OF assms(1,4)]) (use assms(2) Ok in simp)
next
  case (Err e)
  show ?thesis by (rule tripleD(2) [OF assms(1,4)]) (use assms(2) Err in simp)
qed (use assms(3) in simp)

definition config_ok :: "(InodeId \<Rightarrow> nat) \<times> (nat \<Rightarrow> nat) \<times> 'd files \<Rightarrow> bool" where
  "config_ok c \<longleftrightarrow> (case c of (h, g, s) \<Rightarrow> files_ok h g s)"

lemmas keeps_calls = keeps_open keeps_creat keeps_io keeps_close keeps_dup keeps_dup2 keeps_fcntl keeps_pipe

lemma name_step_ok: "fs_step (fsys s) v \<Longrightarrow> files_ok h g s \<Longrightarrow> files_ok h g (s\<lparr>fsys := v\<rparr>)"
  by (rule files_ok_fsys) (auto intro: fs_step_accounted dest: files_okD(1))

lemma files_step_ok: "files_step D c c' \<Longrightarrow> config_ok c \<Longrightarrow> config_ok c'"
  by (induction rule: files_step.induct; unfold config_ok_def prod.case)
    (erule (1) name_step_ok | erule close_marked_ok fork_files_ok drop_arc_ok drop_handle_ok
     | erule (2) keeps_files_step [rotated], rule keeps_calls)+

lemma files_steps_ok: "(files_step D)\<^sup>*\<^sup>* c c' \<Longrightarrow> config_ok c \<Longrightarrow> config_ok c'"
  by (induction rule: rtranclp_induct) (blast intro: files_step_ok)+

end
