(* ===== verification/Path_Split.thy ===== *)
theory Path_Split
  imports Fs_Calls
begin

text \<open>
  Splitting a pathname (\<open>Pathname::parent_path\<close>) against its specification: the non-empty pieces between
  slashes, the last of them set apart.
\<close>

section \<open>Pieces\<close>

definition names :: "u8 list \<Rightarrow> u8 list list" where
  "names raw = filter (\<lambda>c. c \<noteq> []) (split_slash raw)"

lemma split_slash_nonempty [simp]: "split_slash bs \<noteq> []"
  by (cases bs) (auto split: list.splits)

lemma split_slash_append: "split_slash (a @ SLASH # b) = split_slash a @ split_slash b"
proof (induction a)
  case (Cons x a)
  then show ?case by (cases "split_slash a") (auto split: list.splits)
qed simp

lemma split_slash_piece: "SLASH \<notin> set b \<Longrightarrow> split_slash b = [b]"
  by (induction b) auto

lemma names_append: "names (a @ SLASH # b) = names a @ names b"
  by (simp add: names_def split_slash_append)

lemma names_piece: "SLASH \<notin> set b \<Longrightarrow> names b = (if b = [] then [] else [b])"
  by (simp add: names_def split_slash_piece)

lemma PathComponents_names: "PathComponents raw = map from_raw (names raw)"
  by (simp add: PathComponents_def names_def)

section \<open>Strings\<close>

lemma high_bit: "bit (b :: u8) 7 \<longleftrightarrow> \<not> b < 0x80"
proof -
  have "bit b 7 \<longleftrightarrow> bit (unat b) 7" by (simp add: bit_unsigned_iff)
  also have "\<dots> \<longleftrightarrow> odd (unat b div 128)" by (simp add: bit_iff_odd)
  also have "\<dots> \<longleftrightarrow> \<not> unat b < 128"
  proof (cases "unat b < 128")
    case False
    then have "unat b div 128 = 1" using unat_u8 [of b] by (intro div_nat_eqI) simp_all
    with False show ?thesis by simp
  qed simp
  finally show ?thesis by (simp add: word_less_nat_alt)
qed

lemma continuation_low: "b < 0x80 \<Longrightarrow> \<not> continuation b"
proof
  assume l: "b < 0x80" and c: "continuation b"
  then have "bit (b AND 0xC0) 7" by (simp add: continuation_def bit_simps)
  then have "bit b 7" by (simp add: bit_and_iff)
  then show False using l by (simp add: high_bit)
qed

lemma push_char_high:
  assumes "\<not> b < 0x80"
  shows "\<exists>x y. push_char b = [x, y] \<and> \<not> continuation x \<and> x \<noteq> SLASH \<and> continuation y \<and> y \<noteq> SLASH"
proof -
  let ?x = "0xC0 OR drop_bit 6 b :: u8" and ?y = "0x80 OR (b AND 0x3F) :: u8"
  have x6: "bit ?x 6" and x7: "bit ?x 7" by (simp_all add: bit_simps)
  have "\<not> continuation ?x"
  proof
    assume "continuation ?x"
    then have "\<not> bit (?x AND 0xC0) 6" by (simp only: continuation_def) simp
    then show False using x6 by (simp add: bit_and_iff)
  qed
  moreover have "?x \<noteq> SLASH" using x7 by (auto simp: high_bit)
  moreover have y: "continuation ?y" by (simp add: continuation_def bit.conj_disj_distrib2 and.assoc)
  moreover have "?y \<noteq> SLASH" using y continuation_low [of SLASH] by auto
  ultimately show ?thesis using assms by (simp add: push_char_def)
qed

lemma push_char_low: "b < 0x80 \<Longrightarrow> push_char b = [b]"
  by (simp add: push_char_def)

lemma str_snoc: "str (cs @ [c]) = str cs @ push_char c"
  by (simp add: str_def)

lemma hd_str: "str cs = [] \<or> \<not> continuation (hd (str cs))"
proof (cases cs)
  case (Cons c ds)
  show ?thesis
  proof (cases "c < 0x80")
    case True
    then show ?thesis using Cons continuation_low by (simp add: str_def push_char_low)
  next
    case False
    then show ?thesis using Cons push_char_high [OF False] by (auto simp: str_def)
  qed
qed (simp add: str_def)

text \<open>What follows a slash is again a string.\<close>

lemma str_after_slash: "str cs = a @ SLASH # b \<Longrightarrow> \<exists>ds. b = str ds"
proof (induction cs arbitrary: a)
  case Nil
  then show ?case by (simp add: str_def)
next
  case (Cons c cs)
  show ?case
  proof (cases "c < 0x80")
    case True
    then have "c # str cs = a @ SLASH # b" using Cons.prems by (simp add: str_def push_char_low)
    then show ?thesis using Cons.IH by (cases a) auto
  next
    case False
    then obtain x y where "push_char c = [x, y]" and ne: "x \<noteq> SLASH" "y \<noteq> SLASH" using push_char_high by blast
    then have e: "x # y # str cs = a @ SLASH # b" using Cons.prems by (simp add: str_def)
    then obtain a' where "a = x # y # a'" using ne by (cases a; cases "tl a") auto
    then show ?thesis using e Cons.IH by auto
  qed
qed

lemma rposition_append: "p x \<Longrightarrow> \<forall>y\<in>set b. \<not> p y \<Longrightarrow> rposition p (a @ x # b) = Some (length a)"
proof (induction a)
  case Nil
  then have "rposition p b = None" by (simp add: rposition_None_iff)
  with Nil show ?case by simp
qed simp

section \<open>The split\<close>

lemma parent_path_slash: "parent_path (s @ [SLASH]) = Ok (map from_raw (names s), [])"
proof -
  have "names (s @ [SLASH]) = names s" using names_append [of s "[]"] by (simp add: names_piece)
  then show ?thesis by (simp add: parent_path_def has_trailing_slash_def PathComponents_names)
qed

text \<open>The end is one byte after the start of the last character: within it, when it has two bytes.\<close>

lemma parent_path_high:
  assumes "\<not> continuation x" "x \<noteq> SLASH" "continuation y" "y \<noteq> SLASH"
  shows "parent_path (s @ [x, y]) = Panic"
proof -
  have "rfind (\<lambda>b. b \<noteq> SLASH) (s @ [x, y]) = Some (length s)"
    unfolding rfind_def using assms by (intro rposition_append) auto
  then show ?thesis
    using assms by (simp add: parent_path_def has_trailing_slash_def slice_to_def is_char_boundary_def nth_append)
qed

lemma parent_path_low:
  assumes c: "c < 0x80" "c \<noteq> SLASH" and s: "\<And>a b. s @ [c] = a @ SLASH # b \<Longrightarrow> b = [] \<or> \<not> continuation (hd b)"
  shows "parent_path (s @ [c]) = Ok (map from_raw (butlast (names (s @ [c]))), last (names (s @ [c])))"
proof -
  let ?raw = "s @ [c]"
  have "rfind (\<lambda>b. b \<noteq> SLASH) ?raw = Some (length s)"
    unfolding rfind_def using c continuation_low by (intro rposition_append) auto
  then have split: "parent_path ?raw = (let k = (case rfind (\<lambda>b. b = SLASH) ?raw of Some i \<Rightarrow> i + 1 | None \<Rightarrow> 0) in
      case slice_to ?raw k of Ok parent \<Rightarrow> Ok (PathComponents parent, drop k ?raw) | Err e \<Rightarrow> Err e | Panic \<Rightarrow> Panic)"
    using c by (simp add: parent_path_def has_trailing_slash_def slice_to_def is_char_boundary_def)
  show ?thesis
  proof (cases "SLASH \<in> set ?raw")
    case False
    then have "rfind (\<lambda>b. b = SLASH) ?raw = None" by (auto simp: rfind_def rposition_None_iff)
    moreover have "names ?raw = [?raw]" using False by (simp add: names_piece)
    ultimately show ?thesis
      by (simp add: split slice_to_def is_char_boundary_def PathComponents_names names_piece)
  next
    case True
    then obtain a b where raw: "?raw = a @ SLASH # b" and b: "SLASH \<notin> set b" using split_list_last by metis
    have ne: "b \<noteq> []" using raw c by (metis append_eq_append_conv2 last_ConsL last_appendR last_snoc list.distinct(1))
    have "rfind (\<lambda>b. b = SLASH) ?raw = Some (length a)"
      unfolding rfind_def raw using b continuation_low [of SLASH] by (intro rposition_append) auto
    moreover have "slice_to ?raw (length a + 1) = Ok (a @ [SLASH])"
      using s [OF raw] ne by (cases b) (auto simp: raw slice_to_def is_char_boundary_def nth_append)
    moreover have "names (a @ [SLASH]) = names a" using names_append [of a "[]"] by (simp add: names_piece)
    moreover have "names ?raw = names a @ [b]" using b ne by (simp add: raw names_append names_piece)
    ultimately show ?thesis unfolding split by (simp add: PathComponents_names raw)
  qed
qed

end
