(* ===== verification/Fs_Properties.thy ===== *)
theory Fs_Properties
  imports Fs_Refs Path_Split
begin

text \<open>
  Properties of pathnames, the inode table and the calls on names, with their witnesses.
\<close>

section \<open>Splitting a pathname\<close>

text \<open>
  (C37) The split of a pathname agrees with its specification, for every string that a user
  program can pass.  With the pieces between the slashes that are not empty: a path that ends in a
  slash has them all as components and an empty basename; any other path has the last piece as its
  basename and the rest as components.  The exception is a path whose last byte is 0x80 or more, on
  which the kernel panics: it becomes a character of two bytes and the slice ends between them.
\<close>

theorem parent_path_of_user_string:
  "cs \<noteq> [] \<Longrightarrow> parent_path (str cs) =
     (if last cs = SLASH then Ok (map from_raw (names (str cs)), [])
      else if 0x80 \<le> last cs then Panic
      else Ok (map from_raw (butlast (names (str cs))), last (names (str cs))))"
proof -
  assume "cs \<noteq> []"
  then obtain ds c where cs: "cs = ds @ [c]" by (cases cs rule: rev_cases) auto
  consider "c = SLASH" | "c < 0x80" "c \<noteq> SLASH" | "\<not> c < 0x80" by blast
  then show ?thesis
  proof cases
    case 1
    have "names (str ds @ [SLASH]) = names (str ds)" using names_append [of "str ds" "[]"] by (simp add: names_piece)
    then show ?thesis using 1 by (simp add: cs str_snoc push_char_low parent_path_slash)
  next
    case 2
    have raw: "str cs = str ds @ [c]" using 2 by (simp add: cs str_snoc push_char_low)
    have "b = [] \<or> \<not> continuation (hd b)" if "str ds @ [c] = a @ SLASH # b" for a b
      using str_after_slash [of cs a b] that hd_str by (auto simp: raw)
    then have "parent_path (str cs) = Ok (map from_raw (butlast (names (str cs))), last (names (str cs)))"
      unfolding raw by (intro parent_path_low [OF 2])
    then show ?thesis using 2 by (simp add: cs not_le)
  next
    case 3
    obtain x y where xy: "push_char c = [x, y]" "\<not> continuation x" "x \<noteq> SLASH" "continuation y" "y \<noteq> SLASH"
      using push_char_high [OF 3] by blast
    have "c \<noteq> SLASH" using 3 by auto
    then show ?thesis using 3 parent_path_high [OF xy(2-5)] by (simp add: cs str_snoc xy(1) not_less)
  qed
qed

text \<open>The path \<open>/a/bc\<close>, and the byte 0xE9 alone.\<close>

theorem parent_path_of_user_string_witness:
  "parent_path (str [0x2F, 0x61, 0x2F, 0x62, 0x63]) = Ok ([Name [0x61]], [0x62, 0x63]) \<and> parent_path (str [0xE9]) = Panic"
  using parent_path_of_user_string [of "[0x2F, 0x61, 0x2F, 0x62, 0x63]"] parent_path_of_user_string [of "[0xE9]"]
  by (simp add: str_def push_char_def names_def from_raw_def)

section \<open>Handles on inodes\<close>

definition demo_root :: InodeId where
  "demo_root = \<lparr>id_device = 0x301, id_number = 1\<rparr>"

definition demo_cached :: cached where
  "demo_cached = \<lparr>cached_id = demo_root, fs_ref = 0,
     cached_inner = \<lparr>disk_inode = \<lparr>mode = 0x41ED, user_id = 0, file_size = 32, modification_time = 0, group_id = 0,
        link_count = 2, direct_zones = replicate 7 0, single_indirect_zone = 0, double_indirect_zone = 0\<rparr>,
       is_dirty = False, access_time = 0, change_time = 0\<rparr>\<rparr>"

definition demo_vfs :: vfs where
  "demo_vfs = \<lparr>stores = (\<lambda>_. \<lparr>blocks = (\<lambda>_. replicate BLOCK_SIZE 0), readable = (\<lambda>_. True)\<rparr>), instances = [None],
     mounts = Some \<lparr>mnt_device = 0x301, mnt_fs = 0, root_inode = demo_root, mount_point_inode = None\<rparr> # replicate 7 None,
     inode_slots = Some demo_cached # replicate 31 None, clock = 0,
     refs = (\<lambda>i. if i = demo_root then 3 else 0),
     ctx = \<lparr>root_directory = Some demo_root, current_directory = Some demo_root, ctx_uid = 0, ctx_euid = 0,
       ctx_gid = 0, ctx_egid = 0, umask = 0\<rparr>, now = 7\<rparr>"

lemma demo_accounted: "accounted (\<lambda>_. 0) demo_vfs"
proof -
  have "owners (\<lambda>_. 0) (ctx demo_vfs) (mounts demo_vfs) = refs demo_vfs"
    by (auto simp: fun_eq_iff owners_def held_def held_by_mount_def demo_vfs_def sum_list_replicate)
  then show ?thesis
    by (auto simp: accounted_def bal_def ids_def list_all_iff mounts_ok_def mount_ok_def demo_vfs_def demo_cached_def demo_root_def
        INODE_TABLE_CAPACITY_def ROOT_INODE_NUMBER_def)
qed

lemma slot_of_first: "inode_slots v \<noteq> [] \<Longrightarrow> map_option cached_id (hd (inode_slots v)) = Some i \<Longrightarrow> slot_of i v = Some 0"
  by (cases "inode_slots v") (auto simp: slot_of_def upt_conv_Cons simp del: upt_Suc)

lemma demo_stat: "fst (sys_stat [SLASH] demo_vfs) = Ok \<lparr>st_dev = 0x301, st_ino = 1, st_mode = 0x41ED, st_nlink = 2, st_uid = 0,
    st_gid = 0, st_rdev = 0, st_size = 32, st_atime = 7, st_mtime = 0, st_ctime = 0\<rparr>"
proof -
  have p: "parent_path [SLASH] = Ok ([], [])"
    by (simp add: parent_path_def PathComponents_def has_trailing_slash_def)
  show ?thesis
    by (simp add: sys_stat_def ok_or_def resolve_path_def resolve_parent_def p is_absolute_def bind_op_def demo_vfs_def holding_def
        run_inode_def slot_of_first run_slot_def clone_ref_def slot_state_def set_inode_def touch_access_def mark_dirty_def
        inode_stat_def inode_file_type_def file_type_def TYPE_MASK_def demo_cached_def demo_root_def Let_def)
qed

lemma demo_step: "fs_step demo_vfs (snd (sys_stat [SLASH] demo_vfs))"
  by (rule fs_step.stat [of "[SLASH]" _ "fst (sys_stat [SLASH] demo_vfs)"]) (simp, simp add: demo_stat)

lemma demo_steps: "fs_step\<^sup>*\<^sup>* demo_vfs (snd (sys_stat [SLASH] demo_vfs))"
  using demo_step by blast

text \<open>
  (C35) Reference counts are exact along every run of the calls on names: after the calls, whatever they
  returned, the count of every inode is the number of its owners (the two directories of the task,
  the roots and the mount points of the mounts, and the handles \<open>h\<close> of everybody else), so no call
  leaks or loses a handle; and an inode with an owner still sits in the inode table, so no owner is
  left with an inode that a second copy could be loaded beside.
\<close>

theorem handles_accounted:
  assumes "accounted h v" "fs_step\<^sup>*\<^sup>* v v'"
  shows "refs v' i = owners h (ctx v') (mounts v') i \<and> (refs v' i = 0 \<or> slot_of i v' \<noteq> None)"
proof -
  have b: "bal (owners h (ctx v') (mounts v')) (ctx v') (mounts v') v'"
    using fs_steps_accounted [OF assms(2,1)] by (simp add: accounted_def)
  have "slot_of i v' \<noteq> None" if "Some i \<in> set (ids v')"
  proof -
    from that obtain k c where "k < length (inode_slots v')" "inode_slots v' ! k = Some c" "cached_id c = i"
      by (auto simp: ids_def in_set_conv_nth dest!: sym [where t = "map_option cached_id x" for x])
    then show ?thesis by (auto simp: slot_of_def find_None_iff split: option.splits intro!: bexI [of _ k])
  qed
  then show ?thesis using b by (auto simp: bal_def)
qed

text \<open>After a call the root is still held by the two directories and the mount.\<close>

theorem handles_accounted_witness: "refs (snd (sys_stat [SLASH] demo_vfs)) demo_root = 3"
proof -
  have "ctx (snd (sys_stat [SLASH] demo_vfs)) = ctx demo_vfs \<and> mounts (snd (sys_stat [SLASH] demo_vfs)) = mounts demo_vfs"
    using bal_ctx [OF tripleD(1) [OF kept_sys_stat [OF owned_owners] _ prod_eqI]] demo_stat demo_accounted
    unfolding accounted_def by fastforce
  then show ?thesis
    using handles_accounted [OF demo_accounted demo_steps, of demo_root]
    by (simp add: demo_vfs_def owners_def held_def held_by_mount_def sum_list_replicate)
qed

text \<open>
  (C36) \<open>umount\<close> never succeeds, whatever has happened before: the mount holds a handle on its own
  root inode, which the check for active inodes counts, so the call returns an error (\<open>EBUSY\<close> for a
  mounted device) and leaves the file system mounted.
\<close>

theorem umount_never_succeeds:
  assumes "accounted h v" "fs_step\<^sup>*\<^sup>* v v'" "sys_umount root_dev path v' = (r, v'')"
  shows "r \<noteq> Ok () \<and> (r = Panic \<or> mounts v'' = mounts v')"
proof -
  have v: "bal (owners h (ctx v') (mounts v')) (ctx v') (mounts v') v'" and ok: "mounts_ok (mounts v')"
    using fs_steps_accounted [OF assms(2,1)] by (simp_all add: accounted_def)
  note t = tripleD [OF triple_sys_umount [OF ok, of h "ctx v'" root_dev path] v]
  show ?thesis
  proof (cases r)
    case (Ok a)
    with t(1) assms(3) show ?thesis by simp
  next
    case (Err e)
    with t(2) assms(3) have "bal (owners h (ctx v') (mounts v')) (ctx v') (mounts v') v''" by simp
    with Err show ?thesis by (simp add: bal_def)
  qed simp
qed

theorem umount_never_succeeds_witness: "fst (sys_umount 0x301 [SLASH] (snd (sys_stat [SLASH] demo_vfs))) \<noteq> Ok ()"
proof -
  let ?w = "sys_umount 0x301 [SLASH] (snd (sys_stat [SLASH] demo_vfs))"
  have "?w = (fst ?w, snd ?w)" by simp
  from umount_never_succeeds [OF demo_accounted demo_steps this] show ?thesis by blast
qed

end
