(* ===== verification/Open_Properties.thy ===== *)
theory Open_Properties
  imports Open_Refs Fs_Properties
begin

text \<open>
  The property of open files and descriptors, with its witness.
\<close>

definition demo_drivers :: "unit drivers" where
  "demo_drivers = \<lparr>tty_read = \<lambda>_ _ d. (Ok [], d), tty_write = \<lambda>_ bs d. (Ok (length bs), d), tty_ioctl = \<lambda>_ _ _ d. (Ok 0, d),
     pipe_create = \<lambda>d. (Ok 0, d), pipe_read = \<lambda>_ _ d. (Ok [], d), pipe_write = \<lambda>_ bs d. (Ok (length bs), d),
     pipe_size = \<lambda>_ _. 0, pipe_drop = \<lambda>_ _ d. d\<rparr>"

text \<open>The root directory open as descriptor 0.\<close>

definition demo_files :: "unit files" where
  "demo_files = \<lparr>fsys = demo_vfs\<lparr>refs := \<lambda>i. if i = demo_root then 4 else 0\<rparr>, objects = [Some (InodeFile ReadOnly 0 demo_root 0)],
     arcs = \<lambda>k. if k = 0 then 1 else 0, open_files = Some 0 # replicate 19 None, close_on_exec = 0, task_tty = 0, devs = ()\<rparr>"

lemma demo_files_ok: "files_ok (\<lambda>_. 0) (\<lambda>_. 0) demo_files"
proof -
  have "owners (\<lambda>i. handles (objects demo_files) i) (ctx (fsys demo_files)) (mounts (fsys demo_files)) = refs (fsys demo_files)"
    by (auto simp: fun_eq_iff owners_def held_def held_by_mount_def demo_vfs_def sum_list_replicate demo_files_def handles_def
        object_handle_def file_handle_def)
  then have "accounted (\<lambda>i. handles (objects demo_files) i) (fsys demo_files)"
    by (auto simp: accounted_def bal_def ids_def list_all_iff mounts_ok_def mount_ok_def demo_vfs_def demo_files_def demo_cached_def
        demo_root_def INODE_TABLE_CAPACITY_def ROOT_INODE_NUMBER_def)
  then show ?thesis
    by (auto simp: files_ok_def demo_files_def TASK_OPEN_FILES_LIMIT_def count_list_0_iff)
qed

lemma demo_dup: "fst (sys_dup demo_drivers 0 demo_files) = Ok 1" "mounts (fsys (snd (sys_dup demo_drivers 0 demo_files))) = mounts demo_vfs"
proof -
  have "find (\<lambda>fd. (Some 0 # replicate 19 None) ! fd = (None :: nat option)) [0..<20] = Some 1"
    by (simp add: upt_rec)
  then show "fst (sys_dup demo_drivers 0 demo_files) = Ok 1" "mounts (fsys (snd (sys_dup demo_drivers 0 demo_files))) = mounts demo_vfs"
    by (simp_all add: sys_dup_def bind_op_def lookup_file_def add_file_def clone_arc_def demo_files_def)
qed

text \<open>
  (C38) References are exact along every run of calls of a task: the calls on names, opening, reading,
  writing, seeking, duplicating and closing descriptors, pipes, fork and exec, with other tasks giving
  back what they share at any time.  After the calls, whatever they returned, the count of every inode
  is the number of its owners, open files included; an open file exists as long as a descriptor of this
  or of another task refers to it and no longer; and when the task exits and nobody shares its files,
  what is left of every count is what the mounts and the others hold: no handle leaks.
\<close>

theorem descriptors_accounted:
  assumes "files_ok h g s" "(files_step D)\<^sup>*\<^sup>* (h, g, s) (h', g', s')"
  shows "refs (fsys s') i = owners (\<lambda>i. h' i + handles (objects s') i) (ctx (fsys s')) (mounts (fsys s')) i
    \<and> (k < length (objects s') \<and> objects s' ! k \<noteq> None \<longleftrightarrow> Some k \<in> set (open_files s') \<or> 0 < g' k)
    \<and> (g' = (\<lambda>_. 0) \<longrightarrow>
         refs (fsys (exit_files D s')) i = h' i + sum_list (map (held_by_mount i) (mounts (fsys s'))))"
proof (intro conjI impI)
  have ok: "files_ok h' g' s'" using files_steps_ok [OF assms(2)] assms(1) by (simp add: config_ok_def)
  show "refs (fsys s') i = owners (\<lambda>i. h' i + handles (objects s') i) (ctx (fsys s')) (mounts (fsys s')) i"
    using files_okD(1) [OF ok] by (simp add: accounted_def bal_def)
  have "0 < arcs s' k \<longleftrightarrow> Some k \<in> set (open_files s') \<or> 0 < g' k"
    using files_okD(3) [OF ok, of k] count_list_0_iff [of "open_files s'" "Some k"] by auto
  then show "k < length (objects s') \<and> objects s' ! k \<noteq> None \<longleftrightarrow> Some k \<in> set (open_files s') \<or> 0 < g' k"
    using files_okD(4) [OF ok, of k] by simp
  assume "g' = (\<lambda>_. 0)"
  with ok have "files_ok h' (\<lambda>_. 0) s'" by simp
  note e = exit_files_ok [OF this, of D]
  then show "refs (fsys (exit_files D s')) i = h' i + sum_list (map (held_by_mount i) (mounts (fsys s')))"
    using exit_files_mounts [of D s'] by (simp add: accounted_def bal_def owners_def held_def)
qed

theorem descriptors_accounted_witness:
  "fst (sys_dup demo_drivers 0 demo_files) = Ok 1 \<and>
   refs (fsys (exit_files demo_drivers (snd (sys_dup demo_drivers 0 demo_files)))) demo_root = 1"
proof -
  let ?s = "snd (sys_dup demo_drivers 0 demo_files)"
  have "files_step demo_drivers (\<lambda>_. 0, \<lambda>_. 0, demo_files) (\<lambda>_. 0, \<lambda>_. 0, ?s)"
    by (rule files_step.dup [of _ 0 _ "fst (sys_dup demo_drivers 0 demo_files)"]) (simp, simp add: demo_dup)
  then have "(files_step demo_drivers)\<^sup>*\<^sup>* (\<lambda>_. 0, \<lambda>_. 0, demo_files) (\<lambda>_. 0, \<lambda>_. 0, ?s)" by (rule r_into_rtranclp)
  from descriptors_accounted [OF demo_files_ok this, of demo_root 0]
  show ?thesis using demo_dup by (simp add: demo_vfs_def held_by_mount_def held_def sum_list_replicate)
qed

end
