(* ===== verification/Vga_Console.thy ===== *)
theory Vga_Console
  imports Kernel_Prelude
begin

text \<open>
  The text console (\<open>kernel/src/driver/character/console/vga.rs\<close>): the parser of VT102 escape
  sequences, the cursor, scrolling and editing on the cells of the video memory.

  Addresses are byte addresses as natural numbers; a cell is the 16-bit word at an even address.
  The counts of an escape sequence are 32-bit and sums with them wrap, as the code's do.
\<close>

section \<open>State\<close>

datatype DisplayType = Mda | Cga | EgaMonochrome | EgaColor

definition is_ega :: "DisplayType \<Rightarrow> bool" where
  "is_ega d \<longleftrightarrow> d = EgaMonochrome \<or> d = EgaColor"

datatype AnsiState = Normal | Escape | CsiEntry | CsiParam

record AnsiParser =
  ansi_state :: AnsiState
  params :: "u32 list"
  param_count :: nat

definition MAX_ANSI_PARAMS :: nat where "MAX_ANSI_PARAMS = 16"
definition CRTC_START_HIGH :: u8 where "CRTC_START_HIGH = 12"
definition CRTC_CURSOR_HIGH :: u8 where "CRTC_CURSOR_HIGH = 14"
definition ATTR_NORMAL :: u8 where "ATTR_NORMAL = 0x07"
definition ATTR_BOLD :: u8 where "ATTR_BOLD = 0x0F"
definition ATTR_INVERSE :: u8 where "ATTR_INVERSE = 0x70"
definition ERASE_CELL :: u16 where "ERASE_CELL = push_bit 8 (ucast ATTR_NORMAL) OR 0x20"
definition MONO_VIDEO_MODE :: u16 where "MONO_VIDEO_MODE = 7"
definition NO_EGA_SENTINEL :: u16 where "NO_EGA_SENTINEL = 0x10"
definition SCREEN_LINES :: nat where "SCREEN_LINES = 25"
definition SPEAKER_ENABLE :: u8 where "SPEAKER_ENABLE = 3"
definition BELL_DIVISOR :: u16 where "BELL_DIVISOR = 1591"

definition AnsiParser_new :: AnsiParser where
  "AnsiParser_new = \<lparr>ansi_state = Normal, params = replicate MAX_ANSI_PARAMS 0, param_count = 0\<rparr>"

definition reset_params :: "AnsiParser \<Rightarrow> AnsiParser" where
  "reset_params p = p\<lparr>params := replicate MAX_ANSI_PARAMS 0, param_count := 0\<rparr>"

definition param_or :: "nat \<Rightarrow> u32 \<Rightarrow> AnsiParser \<Rightarrow> u32" where
  "param_or i d p =
     (let v = (if i < length (params p) then params p ! i else 0) in if v = 0 then d else v)"

text \<open>The last three fields are the machine: video memory, the port writes so far, and the speaker port.\<close>

record VgaConsole =
  display_type :: DisplayType
  columns :: nat
  lines :: nat
  row_bytes :: nat
  mem_start :: nat
  mem_end :: nat
  port_reg :: u16
  port_val :: u16
  erase_cell :: u16
  origin :: nat
  screen_end :: nat
  cursor_pos :: nat
  cursor_x :: nat
  cursor_y :: nat
  scroll_top :: nat
  scroll_bottom :: nat
  attribute :: u8
  saved_x :: nat
  saved_y :: nat
  parser :: AnsiParser
  vmem :: "nat \<Rightarrow> u16"
  port_log :: "(u16 \<times> u8) list"
  port_b :: u8

definition usize_add :: "nat \<Rightarrow> nat \<Rightarrow> nat" where
  "usize_add a b = (a + b) mod 2 ^ 32"

definition write_cell :: "nat \<Rightarrow> u16 \<Rightarrow> VgaConsole \<Rightarrow> VgaConsole" where
  "write_cell a v s = s\<lparr>vmem := (vmem s)(a := v)\<rparr>"

text \<open>\<open>ptr::copy\<close> of \<open>n\<close> cells, which may overlap.\<close>

definition copy_cells :: "nat \<Rightarrow> nat \<Rightarrow> nat \<Rightarrow> VgaConsole \<Rightarrow> VgaConsole" where
  "copy_cells src dst n s =
     s\<lparr>vmem := (\<lambda>a. if dst \<le> a \<and> a < dst + 2 * n \<and> even (a - dst) then vmem s (src + (a - dst)) else vmem s a)\<rparr>"

definition outb :: "u8 \<Rightarrow> u16 \<Rightarrow> VgaConsole \<Rightarrow> VgaConsole" where
  "outb v p s = s\<lparr>port_log := port_log s @ [(p, v)]\<rparr>"

section \<open>Cursor and registers\<close>

definition write_crtc_word :: "u8 \<Rightarrow> nat \<Rightarrow> VgaConsole \<Rightarrow> VgaConsole" where
  "write_crtc_word i v s =
     outb (word_of_nat v) (port_val s) (outb (i + 1) (port_reg s)
       (outb (word_of_nat (v div 256)) (port_val s) (outb i (port_reg s) s)))"

definition set_origin :: "VgaConsole \<Rightarrow> VgaConsole" where
  "set_origin s = write_crtc_word CRTC_START_HIGH ((origin s - mem_start s) div 2) s"

definition sync_hardware_cursor :: "VgaConsole \<Rightarrow> VgaConsole" where
  "sync_hardware_cursor s = write_crtc_word CRTC_CURSOR_HIGH ((cursor_pos s - mem_start s) div 2) s"

definition move_cursor :: "nat \<Rightarrow> nat \<Rightarrow> VgaConsole \<Rightarrow> VgaConsole" where
  "move_cursor new_x new_y s =
     (if new_x > columns s \<or> new_y \<ge> lines s then s
      else s\<lparr>cursor_x := new_x, cursor_y := new_y, cursor_pos := origin s + new_y * row_bytes s + 2 * new_x\<rparr>)"

definition save_cursor :: "VgaConsole \<Rightarrow> VgaConsole" where
  "save_cursor s = s\<lparr>saved_x := cursor_x s, saved_y := cursor_y s\<rparr>"

definition restore_cursor :: "VgaConsole \<Rightarrow> VgaConsole" where
  "restore_cursor s = move_cursor (saved_x s) (saved_y s) s"

definition put_char :: "u8 \<Rightarrow> VgaConsole \<Rightarrow> VgaConsole" where
  "put_char b s = write_cell (cursor_pos s) (push_bit 8 (ucast (attribute s)) OR ucast b) s"

section \<open>Erasing and scrolling\<close>

fun fill_erase :: "nat \<Rightarrow> nat \<Rightarrow> VgaConsole \<Rightarrow> VgaConsole" where
  "fill_erase addr 0 s = s"
| "fill_erase addr (Suc n) s = fill_erase (addr + 2) n (write_cell addr (erase_cell s) s)"

definition erase_display :: "u32 \<Rightarrow> VgaConsole \<Rightarrow> VgaConsole" where
  "erase_display m s =
     (if m = 0 then fill_erase (cursor_pos s) ((screen_end s - cursor_pos s) div 2) s
      else if m = 1 then fill_erase (origin s) ((cursor_pos s - origin s) div 2) s
      else if m = 2 then fill_erase (origin s) (columns s * lines s) s
      else s)"

definition vga_erase_line :: "u32 \<Rightarrow> VgaConsole \<Rightarrow> VgaConsole" where
  "vga_erase_line m s =
     (if m = 0 then
        (if cursor_x s \<ge> columns s then s
         else fill_erase (cursor_pos s) (columns s - cursor_x s) s)
      else if m = 1 then
        fill_erase (cursor_pos s - 2 * cursor_x s) (if cursor_x s < columns s then cursor_x s else columns s) s
      else if m = 2 then fill_erase (cursor_pos s - 2 * cursor_x s) (columns s) s
      else s)"

text \<open>Scrolling up moves the origin on an EGA or VGA, and copies back when the memory is used up.\<close>

definition scroll_up :: "VgaConsole \<Rightarrow> VgaConsole" where
  "scroll_up s =
     (if is_ega (display_type s) \<and> scroll_top s = 0 \<and> scroll_bottom s = lines s then
        let s1 = s\<lparr>origin := origin s + row_bytes s, cursor_pos := cursor_pos s + row_bytes s,
                   screen_end := screen_end s + row_bytes s\<rparr> in
        set_origin
          (if screen_end s1 > mem_end s1 then
             let line_count = lines s1 - 1;
                 s2 = copy_cells (origin s1) (mem_start s1) (line_count * columns s1) s1;
                 s3 = fill_erase (mem_start s2 + line_count * row_bytes s2) (columns s2) s2
             in s3\<lparr>origin := mem_start s3, screen_end := screen_end s3 - (origin s3 - mem_start s3),
                   cursor_pos := cursor_pos s3 - (origin s3 - mem_start s3)\<rparr>
           else fill_erase (screen_end s1 - row_bytes s1) (columns s1) s1)
      else
        let dst = origin s + row_bytes s * scroll_top s;
            line_count = scroll_bottom s - scroll_top s - 1;
            s1 = copy_cells (dst + row_bytes s) dst (line_count * columns s) s
        in fill_erase (origin s1 + row_bytes s1 * (scroll_bottom s1 - 1)) (columns s1) s1)"

definition scroll_down :: "VgaConsole \<Rightarrow> VgaConsole" where
  "scroll_down s =
     (let line_count = scroll_bottom s - scroll_top s - 1;
          s1 = copy_cells (origin s + row_bytes s * scroll_top s) (origin s + row_bytes s * (scroll_top s + 1))
                 (line_count * columns s) s
      in fill_erase (origin s1 + row_bytes s1 * scroll_top s1) (columns s1) s1)"

section \<open>Lines and control characters\<close>

definition line_feed :: "VgaConsole \<Rightarrow> VgaConsole" where
  "line_feed s =
     (if cursor_y s + 1 < scroll_bottom s
      then s\<lparr>cursor_y := cursor_y s + 1, cursor_pos := cursor_pos s + row_bytes s\<rparr>
      else scroll_up s)"

definition reverse_index :: "VgaConsole \<Rightarrow> VgaConsole" where
  "reverse_index s =
     (if cursor_y s > scroll_top s
      then s\<lparr>cursor_y := cursor_y s - 1, cursor_pos := cursor_pos s - row_bytes s\<rparr>
      else scroll_down s)"

definition carriage_return :: "VgaConsole \<Rightarrow> VgaConsole" where
  "carriage_return s = s\<lparr>cursor_x := 0, cursor_pos := cursor_pos s - 2 * cursor_x s\<rparr>"

definition vga_delete :: "VgaConsole \<Rightarrow> VgaConsole" where
  "vga_delete s =
     (if cursor_x s > 0 then
        let s1 = s\<lparr>cursor_x := cursor_x s - 1, cursor_pos := cursor_pos s - 2\<rparr>
        in write_cell (cursor_pos s1) (erase_cell s1) s1
      else s)"

definition backspace :: "VgaConsole \<Rightarrow> VgaConsole" where
  "backspace s =
     (if cursor_x s > 0 then s\<lparr>cursor_x := cursor_x s - 1, cursor_pos := cursor_pos s - 2\<rparr> else s)"

definition tab :: "VgaConsole \<Rightarrow> VgaConsole" where
  "tab s =
     (let spaces = 8 - cursor_x s mod 8;
          s1 = s\<lparr>cursor_x := cursor_x s + spaces, cursor_pos := cursor_pos s + 2 * spaces\<rparr>
      in if cursor_x s1 > columns s1
         then line_feed (s1\<lparr>cursor_x := cursor_x s1 - columns s1, cursor_pos := cursor_pos s1 - row_bytes s1\<rparr>)
         else s1)"

definition bell :: "VgaConsole \<Rightarrow> VgaConsole" where
  "bell s =
     outb (ucast (drop_bit 8 BELL_DIVISOR)) 0x42 (outb (ucast BELL_DIVISOR) 0x42 (outb 0xB6 0x43
       (outb (port_b s OR SPEAKER_ENABLE) 0x61 s)))"

section \<open>Inserting and deleting\<close>

text \<open>The loops over the rest of the line, from the cursor on.\<close>

fun insert_loop :: "nat \<Rightarrow> nat \<Rightarrow> u16 \<Rightarrow> VgaConsole \<Rightarrow> VgaConsole" where
  "insert_loop 0 addr carry s = s"
| "insert_loop (Suc n) addr carry s = insert_loop n (addr + 2) (vmem s addr) (write_cell addr carry s)"

definition insert_char_at_cursor :: "VgaConsole \<Rightarrow> VgaConsole" where
  "insert_char_at_cursor s = insert_loop (columns s - cursor_x s) (cursor_pos s) (erase_cell s) s"

fun delete_loop :: "nat \<Rightarrow> nat \<Rightarrow> VgaConsole \<Rightarrow> VgaConsole" where
  "delete_loop 0 addr s = write_cell addr (erase_cell s) s"
| "delete_loop (Suc n) addr s = delete_loop n (addr + 2) (write_cell addr (vmem s (addr + 2)) s)"

definition delete_char_at_cursor :: "VgaConsole \<Rightarrow> VgaConsole" where
  "delete_char_at_cursor s =
     (if cursor_x s \<ge> columns s then s else delete_loop (columns s - cursor_x s - 1) (cursor_pos s) s)"

text \<open>\<open>count.clamp(1, max)\<close>, for a maximum of at least one.\<close>

definition clamp1 :: "nat \<Rightarrow> nat \<Rightarrow> nat" where
  "clamp1 n hi = (if n < 1 then 1 else if hi < n then hi else n)"

definition insert_chars :: "nat \<Rightarrow> VgaConsole \<Rightarrow> VgaConsole" where
  "insert_chars n s = (insert_char_at_cursor ^^ clamp1 n (columns s)) s"

definition delete_chars :: "nat \<Rightarrow> VgaConsole \<Rightarrow> VgaConsole" where
  "delete_chars n s = (delete_char_at_cursor ^^ clamp1 n (columns s)) s"

definition scroll_region_temporarily :: "(VgaConsole \<Rightarrow> VgaConsole) \<Rightarrow> VgaConsole \<Rightarrow> VgaConsole" where
  "scroll_region_temporarily body s =
     (body (s\<lparr>scroll_top := cursor_y s, scroll_bottom := lines s\<rparr>))
       \<lparr>scroll_top := scroll_top s, scroll_bottom := scroll_bottom s\<rparr>"

definition insert_lines :: "nat \<Rightarrow> VgaConsole \<Rightarrow> VgaConsole" where
  "insert_lines n s = scroll_region_temporarily (\<lambda>s. (scroll_down ^^ clamp1 n (lines s)) s) s"

definition delete_lines :: "nat \<Rightarrow> VgaConsole \<Rightarrow> VgaConsole" where
  "delete_lines n s = scroll_region_temporarily (\<lambda>s. (scroll_up ^^ clamp1 n (lines s)) s) s"

section \<open>Escape sequences\<close>

definition set_scroll_region :: "VgaConsole \<Rightarrow> VgaConsole" where
  "set_scroll_region s =
     (let top = unat (param_or 0 1 (parser s)) - 1;
          p = param_or 1 0 (parser s);
          bottom = (if p = 0 then lines s else unat p)
      in if top < bottom \<and> bottom \<le> lines s then s\<lparr>scroll_top := top, scroll_bottom := bottom\<rparr> else s)"

definition rendition :: "u32 \<Rightarrow> u8 \<Rightarrow> u8" where
  "rendition p a =
     (if p = 0 \<or> p = 27 then ATTR_NORMAL else if p = 1 \<or> p = 4 then ATTR_BOLD
      else if p = 7 then ATTR_INVERSE else a)"

definition set_graphic_rendition :: "VgaConsole \<Rightarrow> VgaConsole" where
  "set_graphic_rendition s =
     s\<lparr>attribute := fold (\<lambda>i. rendition (params (parser s) ! i)) [0..<Suc (param_count (parser s))] (attribute s)\<rparr>"

definition dispatch_csi :: "u8 \<Rightarrow> VgaConsole \<Rightarrow> VgaConsole" where
  "dispatch_csi c s =
     (let n = unat (param_or 0 1 (parser s)); col = n - 1; row = n - 1 in
      if c = 0x47 \<or> c = 0x60 then move_cursor col (cursor_y s) s
      else if c = 0x41 then move_cursor (cursor_x s) (cursor_y s - n) s
      else if c = 0x42 \<or> c = 0x65 then move_cursor (cursor_x s) (usize_add (cursor_y s) n) s
      else if c = 0x43 \<or> c = 0x61 then move_cursor (usize_add (cursor_x s) n) (cursor_y s) s
      else if c = 0x44 then move_cursor (cursor_x s - n) (cursor_y s) s
      else if c = 0x45 then move_cursor 0 (usize_add (cursor_y s) n) s
      else if c = 0x46 then move_cursor 0 (cursor_y s - n) s
      else if c = 0x64 then move_cursor (cursor_x s) row s
      else if c = 0x48 \<or> c = 0x66 then move_cursor (unat (param_or 1 1 (parser s)) - 1) row s
      else if c = 0x4A then erase_display (param_or 0 0 (parser s)) s
      else if c = 0x4B then vga_erase_line (param_or 0 0 (parser s)) s
      else if c = 0x4C then insert_lines n s
      else if c = 0x4D then delete_lines n s
      else if c = 0x50 then delete_chars n s
      else if c = 0x40 then insert_chars n s
      else if c = 0x6D then set_graphic_rendition s
      else if c = 0x72 then set_scroll_region s
      else if c = 0x73 then save_cursor s
      else if c = 0x75 then restore_cursor s
      else s)"

definition set_ansi :: "AnsiState \<Rightarrow> VgaConsole \<Rightarrow> VgaConsole" where
  "set_ansi a s = s\<lparr>parser := (parser s)\<lparr>ansi_state := a\<rparr>\<rparr>"

definition is_ascii_digit :: "u8 \<Rightarrow> bool" where
  "is_ascii_digit b \<longleftrightarrow> 0x30 \<le> b \<and> b \<le> 0x39"

definition handle_csi_param :: "u8 \<Rightarrow> VgaConsole \<Rightarrow> VgaConsole" where
  "handle_csi_param b s =
     (let p = parser s in
      if b = 0x3B \<and> param_count p < MAX_ANSI_PARAMS - 1 then s\<lparr>parser := p\<lparr>param_count := param_count p + 1\<rparr>\<rparr>
      else if is_ascii_digit b then
        s\<lparr>parser := p\<lparr>params := (params p)[param_count p := params p ! param_count p * 10 + ucast (b - 0x30)]\<rparr>\<rparr>
      else dispatch_csi b (set_ansi Normal s))"

definition handle_csi_entry :: "u8 \<Rightarrow> VgaConsole \<Rightarrow> VgaConsole" where
  "handle_csi_entry b s =
     (let s1 = set_ansi CsiParam s in if b \<noteq> 0x3F then handle_csi_param b s1 else s1)"

definition handle_escape :: "u8 \<Rightarrow> VgaConsole \<Rightarrow> VgaConsole" where
  "handle_escape b s =
     (let s1 = set_ansi Normal s in
      if b = 0x5B then set_ansi CsiEntry (s1\<lparr>parser := reset_params (parser s1)\<rparr>)
      else if b = 0x45 then move_cursor 0 (cursor_y s1 + 1) s1
      else if b = 0x4D then reverse_index s1
      else if b = 0x44 then line_feed s1
      else if b = 0x37 then save_cursor s1
      else if b = 0x38 then restore_cursor s1
      else s1)"

definition handle_normal :: "u8 \<Rightarrow> VgaConsole \<Rightarrow> VgaConsole" where
  "handle_normal b s =
     (if 0x20 \<le> b \<and> b \<le> 0x7E then
        let s1 = (if cursor_x s \<ge> columns s
                  then line_feed (s\<lparr>cursor_x := cursor_x s - columns s, cursor_pos := cursor_pos s - row_bytes s\<rparr>)
                  else s);
            s2 = put_char b s1
        in s2\<lparr>cursor_x := cursor_x s2 + 1, cursor_pos := cursor_pos s2 + 2\<rparr>
      else if b = 0x1B then set_ansi Escape s
      else if b = 0x0A \<or> b = 0x0B \<or> b = 0x0C then line_feed s
      else if b = 0x0D then carriage_return s
      else if b = 0x7F then vga_delete s
      else if b = 0x08 then backspace s
      else if b = 0x09 then tab s
      else if b = 0x07 then bell s
      else s)"

definition write_byte :: "u8 \<Rightarrow> VgaConsole \<Rightarrow> VgaConsole" where
  "write_byte b s =
     (case ansi_state (parser s) of
        Normal \<Rightarrow> handle_normal b s
      | Escape \<Rightarrow> handle_escape b s
      | CsiEntry \<Rightarrow> handle_csi_entry b s
      | CsiParam \<Rightarrow> handle_csi_param b s)"

section \<open>Initialisation\<close>

definition detect_and_init :: "u16 \<Rightarrow> u16 \<Rightarrow> nat \<times> nat \<Rightarrow> VgaConsole \<Rightarrow> VgaConsole" where
  "detect_and_init orig_mode ega_bx early s =
     (let mode = orig_mode AND 0xFF; cols = unat (drop_bit 8 orig_mode);
          s1 = s\<lparr>columns := cols, lines := SCREEN_LINES, row_bytes := cols * 2, erase_cell := ERASE_CELL\<rparr>;
          ega = ega_bx AND 0xFF \<noteq> NO_EGA_SENTINEL;
          s2 = (if mode = MONO_VIDEO_MODE
                then s1\<lparr>display_type := (if ega then EgaMonochrome else Mda), mem_start := 0xB0000,
                        mem_end := (if ega then 0xB8000 else 0xB2000), port_reg := 0x3B4, port_val := 0x3B5\<rparr>
                else s1\<lparr>display_type := (if ega then EgaColor else Cga), mem_start := 0xB8000,
                        mem_end := (if ega then 0xBC000 else 0xBA000), port_reg := 0x3D4, port_val := 0x3D5\<rparr>);
          s3 = s2\<lparr>origin := mem_start s2, screen_end := mem_start s2 + lines s2 * row_bytes s2, scroll_top := 0,
                  scroll_bottom := lines s2, attribute := ATTR_NORMAL, parser := AnsiParser_new\<rparr>
      in sync_hardware_cursor (erase_display 0 (move_cursor (fst early) (snd early) s3)))"

text \<open>\<open>ConsoleBackend::start_output\<close> on the bytes of one batch.\<close>

definition write_batch :: "u8 list \<Rightarrow> VgaConsole \<Rightarrow> VgaConsole" where
  "write_batch bytes s = sync_hardware_cursor (fold write_byte bytes s)"

end
