(* ===== verification/Vga_Properties.thy ===== *)
theory Vga_Properties
  imports Vga_Console
begin

text \<open>
  The console never leaves its video memory, and scrolling by moving the origin shows what scrolling
  by copying shows.
\<close>

section \<open>Invariant\<close>

definition console_ok :: "VgaConsole \<Rightarrow> bool" where
  "console_ok s \<longleftrightarrow>
     8 \<le> columns s \<and> 0 < lines s \<and> row_bytes s = 2 * columns s
     \<and> cursor_x s \<le> columns s \<and> cursor_y s < lines s
     \<and> cursor_pos s = origin s + cursor_y s * row_bytes s + 2 * cursor_x s
     \<and> scroll_top s < scroll_bottom s \<and> scroll_bottom s \<le> lines s
     \<and> mem_start s \<le> origin s \<and> screen_end s = origin s + lines s * row_bytes s \<and> screen_end s \<le> mem_end s
     \<and> param_count (parser s) < MAX_ANSI_PARAMS \<and> length (params (parser s)) = MAX_ANSI_PARAMS"

lemma console_okD:
  assumes "console_ok s"
  shows "8 \<le> columns s" "0 < lines s" "row_bytes s = 2 * columns s" "cursor_x s \<le> columns s" "cursor_y s < lines s"
    "cursor_pos s = origin s + cursor_y s * row_bytes s + 2 * cursor_x s"
    "scroll_top s < scroll_bottom s" "scroll_bottom s \<le> lines s" "mem_start s \<le> origin s"
    "screen_end s = origin s + lines s * row_bytes s" "screen_end s \<le> mem_end s"
    "param_count (parser s) < MAX_ANSI_PARAMS" "length (params (parser s)) = MAX_ANSI_PARAMS"
  using assms unfolding console_ok_def by blast+

text \<open>What an operation may change: the geometry stays, and so does memory outside the video memory.\<close>

definition confined :: "VgaConsole \<Rightarrow> VgaConsole \<Rightarrow> bool" where
  "confined s s' \<longleftrightarrow>
     display_type s' = display_type s \<and> columns s' = columns s \<and> lines s' = lines s \<and> row_bytes s' = row_bytes s
     \<and> mem_start s' = mem_start s \<and> mem_end s' = mem_end s \<and> erase_cell s' = erase_cell s
     \<and> (\<forall>a. a < mem_start s \<or> mem_end s < a + 2 \<longrightarrow> vmem s' a = vmem s a)"

definition safe :: "(VgaConsole \<Rightarrow> VgaConsole) \<Rightarrow> bool" where
  "safe f \<longleftrightarrow> (\<forall>s. console_ok s \<longrightarrow> console_ok (f s) \<and> confined s (f s))"

lemma confined_refl [simp]: "confined s s"
  by (simp add: confined_def)

lemma confined_trans: "confined s s1 \<Longrightarrow> confined s1 s2 \<Longrightarrow> confined s s2"
  by (auto simp: confined_def)

lemma safeI: "(\<And>s. console_ok s \<Longrightarrow> console_ok (f s) \<and> confined s (f s)) \<Longrightarrow> safe f"
  by (simp add: safe_def)

lemma safeD: "safe f \<Longrightarrow> console_ok s \<Longrightarrow> console_ok (f s)" "safe f \<Longrightarrow> console_ok s \<Longrightarrow> confined s (f s)"
  by (auto simp: safe_def)

named_theorems safes \<open>operations that keep the console in its memory\<close>

lemma safe_comp: "safe f \<Longrightarrow> safe g \<Longrightarrow> safe (\<lambda>s. g (f s))"
  unfolding safe_def using confined_trans by blast

lemma safe_power: "safe f \<Longrightarrow> safe (f ^^ n)"
proof (induction n)
  case (Suc n)
  from safe_comp [OF Suc.IH [OF Suc.prems] Suc.prems] show ?case by (simp add: comp_def)
qed (simp add: safe_def)

lemma safe_at: "(\<And>x. safe (f x)) \<Longrightarrow> safe (\<lambda>s. f (h s) s)"
  by (simp add: safe_def)

lemma safe_if: "(\<And>s. safe (f s)) \<Longrightarrow> (\<And>s. safe (g s)) \<Longrightarrow> safe (\<lambda>s. if b s then f s s else g s s)"
  by (simp add: safe_def)

section \<open>Cells\<close>

text \<open>Cells by their number from a base address.\<close>

lemma vmem_copy_cells:
  "vmem (copy_cells (A + 2 * p) (B + 2 * q) n s) (B + 2 * k) =
     (if q \<le> k \<and> k < q + n then vmem s (A + 2 * (p + (k - q))) else vmem s (B + 2 * k))"
proof -
  have "even (B + 2 * k - (B + 2 * q))" by simp
  moreover have "A + 2 * p + (B + 2 * k - (B + 2 * q)) = A + 2 * (p + (k - q))" if "q \<le> k"
    using that by simp
  ultimately show ?thesis by (auto simp: copy_cells_def)
qed

lemma cell_end: "dst \<le> a \<Longrightarrow> a < dst + 2 * n \<Longrightarrow> even (a - dst) \<Longrightarrow> a + 2 \<le> dst + 2 * (n :: nat)"
  by presburger

lemma copy_cells_frame: "a < dst \<or> dst + 2 * n < a + 2 \<Longrightarrow> vmem (copy_cells src dst n s) a = vmem s a"
  using cell_end [of dst a n] by (auto simp: copy_cells_def)

lemma between_cells: "addr \<le> a \<Longrightarrow> a \<noteq> addr \<Longrightarrow> \<not> Suc (Suc addr) \<le> a \<Longrightarrow> even a \<noteq> even (addr :: nat)"
  by presburger

lemma fill_erase_eq:
  "fill_erase addr n s =
     s\<lparr>vmem := (\<lambda>a. if addr \<le> a \<and> a < addr + 2 * n \<and> even (a - addr) then erase_cell s else vmem s a)\<rparr>"
proof (induction addr n s rule: fill_erase.induct)
  case (1 addr s)
  show ?case by (rule VgaConsole.equality) (auto simp: fun_eq_iff)
next
  case (2 addr n s)
  have r: "addr + 2 \<le> a \<Longrightarrow> even (a - (addr + 2)) = even (a - addr)" for a by (auto simp: even_diff_nat)
  show ?case
    unfolding fill_erase.simps 2
    by (rule VgaConsole.equality) (auto simp: write_cell_def fun_eq_iff r dest: between_cells)
qed

lemma fill_erase_fields [simp]:
  "display_type (fill_erase a n s) = display_type s"
  "columns (fill_erase a n s) = columns s"
  "lines (fill_erase a n s) = lines s"
  "row_bytes (fill_erase a n s) = row_bytes s"
  "mem_start (fill_erase a n s) = mem_start s"
  "mem_end (fill_erase a n s) = mem_end s"
  "erase_cell (fill_erase a n s) = erase_cell s"
  "origin (fill_erase a n s) = origin s"
  "screen_end (fill_erase a n s) = screen_end s"
  "cursor_pos (fill_erase a n s) = cursor_pos s"
  "cursor_x (fill_erase a n s) = cursor_x s"
  "cursor_y (fill_erase a n s) = cursor_y s"
  "scroll_top (fill_erase a n s) = scroll_top s"
  "scroll_bottom (fill_erase a n s) = scroll_bottom s"
  "attribute (fill_erase a n s) = attribute s"
  "saved_x (fill_erase a n s) = saved_x s"
  "saved_y (fill_erase a n s) = saved_y s"
  "parser (fill_erase a n s) = parser s"
  by (simp_all add: fill_erase_eq)

lemma copy_cells_fields [simp]:
  "display_type (copy_cells a b n s) = display_type s"
  "columns (copy_cells a b n s) = columns s"
  "lines (copy_cells a b n s) = lines s"
  "row_bytes (copy_cells a b n s) = row_bytes s"
  "mem_start (copy_cells a b n s) = mem_start s"
  "mem_end (copy_cells a b n s) = mem_end s"
  "erase_cell (copy_cells a b n s) = erase_cell s"
  "origin (copy_cells a b n s) = origin s"
  "screen_end (copy_cells a b n s) = screen_end s"
  "cursor_pos (copy_cells a b n s) = cursor_pos s"
  "cursor_x (copy_cells a b n s) = cursor_x s"
  "cursor_y (copy_cells a b n s) = cursor_y s"
  "scroll_top (copy_cells a b n s) = scroll_top s"
  "scroll_bottom (copy_cells a b n s) = scroll_bottom s"
  "attribute (copy_cells a b n s) = attribute s"
  "saved_x (copy_cells a b n s) = saved_x s"
  "saved_y (copy_cells a b n s) = saved_y s"
  "parser (copy_cells a b n s) = parser s"
  by (simp_all add: copy_cells_def)

lemma vmem_fill_erase:
  "vmem (fill_erase (B + 2 * q) n s) (B + 2 * k) = (if q \<le> k \<and> k < q + n then erase_cell s else vmem s (B + 2 * k))"
  by (auto simp: fill_erase_eq)

lemma fill_erase_frame: "a < addr \<or> addr + 2 * n < a + 2 \<Longrightarrow> vmem (fill_erase addr n s) a = vmem s a"
  using cell_end [of addr a n] by (auto simp: fill_erase_eq)

lemma insert_loop_eq:
  "insert_loop n addr carry s =
     s\<lparr>vmem := (\<lambda>a. if addr \<le> a \<and> a < addr + 2 * n \<and> even (a - addr) then (if a = addr then carry else vmem s (a - 2)) else vmem s a)\<rparr>"
proof (induction n addr carry s rule: insert_loop.induct)
  case (2 n addr carry s)
  have r: "addr + 2 \<le> a \<Longrightarrow> even (a - (addr + 2)) = even (a - addr)" for a by (auto simp: even_diff_nat)
  show ?case
    unfolding insert_loop.simps 2
    by (rule VgaConsole.equality) (auto simp: write_cell_def fun_eq_iff r dest: between_cells)
next
  case (1 addr carry s)
  show ?case by (rule VgaConsole.equality) (auto simp: fun_eq_iff)
qed

lemma delete_loop_eq:
  "delete_loop n addr s =
     s\<lparr>vmem := (\<lambda>a. if addr \<le> a \<and> a < addr + 2 * n \<and> even (a - addr) then vmem s (a + 2)
                   else if a = addr + 2 * n then erase_cell s else vmem s a)\<rparr>"
proof (induction n addr s rule: delete_loop.induct)
  case (1 addr s)
  show ?case by (rule VgaConsole.equality) (auto simp: write_cell_def fun_eq_iff)
next
  case (2 n addr s)
  have r: "addr + 2 \<le> a \<Longrightarrow> even (a - (addr + 2)) = even (a - addr)" for a by (auto simp: even_diff_nat)
  show ?case
    unfolding delete_loop.simps 2 by (rule VgaConsole.equality) (auto simp: write_cell_def fun_eq_iff r dest: between_cells)
qed

lemma loop_frames:
  "a < addr \<or> addr + 2 * n < a + 2 \<Longrightarrow> vmem (insert_loop n addr carry s) a = vmem s a"
  "a < addr \<or> addr + 2 * n + 2 < a + 2 \<Longrightarrow> vmem (delete_loop n addr s) a = vmem s a"
  using cell_end [of addr a n] by (auto simp: insert_loop_eq delete_loop_eq)

section \<open>Safety of the operations\<close>

lemma confined_vmem:
  "console_ok s \<Longrightarrow> (\<And>a. a < mem_start s \<or> mem_end s < a + 2 \<Longrightarrow> f a = vmem s a) \<Longrightarrow> confined s (s\<lparr>vmem := f\<rparr>)"
  by (simp add: confined_def)

lemma console_ok_vmem [simp]: "console_ok (s\<lparr>vmem := f\<rparr>) = console_ok s" "console_ok (outb v p s) = console_ok s"
  by (simp_all add: console_ok_def outb_def)

lemma confined_outb [simp]: "confined s (outb v p s') = confined s s'"
  by (simp add: confined_def outb_def)

lemma safe_crtc: "console_ok (write_crtc_word i v s) = console_ok s" "confined s' (write_crtc_word i v s) = confined s' s"
  by (simp_all add: write_crtc_word_def)

text \<open>The cells of the screen lie in the video memory.\<close>

lemma screen_cells:
  assumes ok: "console_ok s" and k: "k + n \<le> columns s * lines s"
  shows "mem_start s \<le> origin s + 2 * k" "origin s + 2 * k + 2 * n \<le> mem_end s"
proof -
  have "2 * (k + n) \<le> 2 * (columns s * lines s)" using k by simp
  also have "\<dots> = lines s * row_bytes s" using ok by (simp add: console_ok_def)
  finally have "2 * (k + n) \<le> lines s * row_bytes s" .
  moreover have "origin s + lines s * row_bytes s \<le> mem_end s" using console_okD(10,11) [OF ok] by simp
  ultimately show "origin s + 2 * k + 2 * n \<le> mem_end s" by simp
  show "mem_start s \<le> origin s + 2 * k" using ok by (simp add: console_ok_def)
qed

lemma safe_fill:
  assumes ok: "console_ok s" and k: "k + n \<le> columns s * lines s" and a: "addr = origin s + 2 * k"
  shows "console_ok (fill_erase addr n s) \<and> confined s (fill_erase addr n s)"
proof
  show "console_ok (fill_erase addr n s)" using ok by (simp add: fill_erase_eq)
  show "confined s (fill_erase addr n s)"
    unfolding fill_erase_eq a by (rule confined_vmem [OF ok]) (use screen_cells [OF ok k] cell_end in fastforce)
qed

lemma cursor_index:
  assumes "console_ok s"
  shows "cursor_pos s = origin s + 2 * (cursor_y s * columns s + cursor_x s)"
    "cursor_y s * columns s + cursor_x s \<le> columns s * lines s"
    "cursor_y s * columns s + columns s \<le> columns s * lines s"
proof -
  show "cursor_pos s = origin s + 2 * (cursor_y s * columns s + cursor_x s)"
    using assms by (simp add: console_ok_def algebra_simps)
  have "Suc (cursor_y s) * columns s \<le> lines s * columns s"
    using assms by (intro mult_le_mono1) (simp add: console_ok_def)
  then show r: "cursor_y s * columns s + columns s \<le> columns s * lines s" by (simp add: algebra_simps)
  show "cursor_y s * columns s + cursor_x s \<le> columns s * lines s"
    using r assms by (simp add: console_ok_def)
qed

lemma safe_move_cursor: "safe (move_cursor x y)"
  by (rule safeI) (auto simp: move_cursor_def console_ok_def confined_def)

lemma safe_save_cursor: "safe save_cursor"
  by (rule safeI) (auto simp: save_cursor_def console_ok_def confined_def)

lemma safe_restore_cursor: "safe restore_cursor"
  unfolding restore_cursor_def [abs_def] using safe_move_cursor by (simp add: safe_def)

lemma safe_erase_display: "safe (erase_display m)"
proof (rule safeI)
  fix s assume ok: "console_ok s"
  note i = cursor_index [OF ok]
  let ?k = "cursor_y s * columns s + cursor_x s"
  have e: "screen_end s = origin s + 2 * (columns s * lines s)" using ok by (simp add: console_ok_def)
  have to_end: "(screen_end s - cursor_pos s) div 2 = columns s * lines s - ?k" unfolding e i(1) by simp
  have from_start: "(cursor_pos s - origin s) div 2 = ?k" unfolding i(1) by simp
  have "console_ok (fill_erase (cursor_pos s) (columns s * lines s - ?k) s)
      \<and> confined s (fill_erase (cursor_pos s) (columns s * lines s - ?k) s)"
    by (rule safe_fill [OF ok _ i(1)]) (use i(2) in simp)
  moreover have "console_ok (fill_erase (origin s) n s) \<and> confined s (fill_erase (origin s) n s)"
    if "n \<le> columns s * lines s" for n
    by (rule safe_fill [OF ok, of 0]) (use that in simp_all)
  ultimately show "console_ok (erase_display m s) \<and> confined s (erase_display m s)"
    using i(2) ok by (simp add: erase_display_def to_end from_start)
qed

lemma safe_erase_line: "safe (vga_erase_line m)"
proof (rule safeI)
  fix s assume ok: "console_ok s"
  note i = cursor_index [OF ok]
  have x: "cursor_x s \<le> columns s" using ok by (simp add: console_ok_def)
  have start: "cursor_pos s - 2 * cursor_x s = origin s + 2 * (cursor_y s * columns s)" unfolding i(1) by simp
  have "console_ok (fill_erase (cursor_pos s) (columns s - cursor_x s) s)
      \<and> confined s (fill_erase (cursor_pos s) (columns s - cursor_x s) s)"
    by (rule safe_fill [OF ok _ i(1)]) (use i(3) x in simp)
  moreover have "console_ok (fill_erase (cursor_pos s - 2 * cursor_x s) n s)
      \<and> confined s (fill_erase (cursor_pos s - 2 * cursor_x s) n s)" if "n \<le> columns s" for n
    by (rule safe_fill [OF ok _ start]) (use i(3) that in simp)
  ultimately show "console_ok (vga_erase_line m s) \<and> confined s (vga_erase_line m s)"
    using x ok by (simp add: vga_erase_line_def)
qed

lemma safe_copy:
  assumes ok: "console_ok s" and a: "dst = origin s + 2 * k" and k: "k + n \<le> columns s * lines s"
  shows "console_ok (copy_cells src dst n s)" "confined s (copy_cells src dst n s)"
proof -
  show "console_ok (copy_cells src dst n s)" using ok by (simp add: copy_cells_def)
  show "confined s (copy_cells src dst n s)"
    unfolding copy_cells_def a by (rule confined_vmem [OF ok]) (use screen_cells [OF ok k] cell_end in fastforce)
qed

lemma region_cells:
  assumes "console_ok s" "b \<le> scroll_bottom s"
  shows "b * columns s \<le> columns s * lines s"
  using assms console_okD(8) [of s] by (simp add: mult.commute [of b])

lemma rows_split: "a \<le> b \<Longrightarrow> a * C + (b - a) * C = (b :: nat) * C"
  by (simp flip: distrib_right)

lemma safe_scroll_down: "safe scroll_down"
proof (rule safeI)
  fix s assume ok: "console_ok s"
  note d = console_okD [OF ok]
  let ?n = "scroll_bottom s - scroll_top s - 1"
  let ?s = "copy_cells (origin s + row_bytes s * scroll_top s) (origin s + row_bytes s * (scroll_top s + 1)) (?n * columns s) s"
  have "(scroll_top s + 1) * columns s + ?n * columns s = scroll_bottom s * columns s"
    using rows_split [of "scroll_top s + 1" "scroll_bottom s" "columns s"] d(7) by simp
  then have "(scroll_top s + 1) * columns s + ?n * columns s \<le> columns s * lines s" using region_cells [OF ok] by simp
  from safe_copy [OF ok _ this, of "origin s + row_bytes s * (scroll_top s + 1)"]
  have s: "console_ok ?s" "confined s ?s" using d(3) by (simp_all add: algebra_simps)
  have "scroll_top s * columns s + columns s = (scroll_top s + 1) * columns s" by simp
  also have "\<dots> \<le> columns s * lines s" using region_cells [OF ok, of "scroll_top s + 1"] d(7) by simp
  finally have "scroll_top s * columns s + columns s \<le> columns ?s * lines ?s" by (simp add: copy_cells_def)
  from safe_fill [OF s(1) this, of "origin ?s + row_bytes ?s * scroll_top ?s"]
  have "console_ok (fill_erase (origin ?s + row_bytes ?s * scroll_top ?s) (columns ?s) ?s)
      \<and> confined ?s (fill_erase (origin ?s + row_bytes ?s * scroll_top ?s) (columns ?s) ?s)"
    using d(3) by (simp add: copy_cells_def algebra_simps)
  with s(2) show "console_ok (scroll_down s) \<and> confined s (scroll_down s)"
    unfolding scroll_down_def Let_def using confined_trans by blast
qed

text \<open>The three ways of scrolling up.\<close>

abbreviation fast :: "VgaConsole \<Rightarrow> bool" where
  "fast s \<equiv> is_ega (display_type s) \<and> scroll_top s = 0 \<and> scroll_bottom s = lines s"

abbreviation shifted :: "VgaConsole \<Rightarrow> VgaConsole" where
  "shifted s \<equiv> s\<lparr>origin := origin s + row_bytes s, cursor_pos := cursor_pos s + row_bytes s,
     screen_end := screen_end s + row_bytes s\<rparr>"

definition scroll_copy :: "VgaConsole \<Rightarrow> VgaConsole" where
  "scroll_copy s = fill_erase (origin s + row_bytes s * (scroll_bottom s - 1)) (columns s)
     (copy_cells (origin s + row_bytes s * scroll_top s + row_bytes s) (origin s + row_bytes s * scroll_top s)
       ((scroll_bottom s - scroll_top s - 1) * columns s) s)"

definition scroll_shift :: "VgaConsole \<Rightarrow> VgaConsole" where
  "scroll_shift s = fill_erase (screen_end s) (columns s) (shifted s)"

definition scroll_wrap :: "VgaConsole \<Rightarrow> VgaConsole" where
  "scroll_wrap s =
     (fill_erase (mem_start s + (lines s - 1) * row_bytes s) (columns s)
       (copy_cells (origin s + row_bytes s) (mem_start s) ((lines s - 1) * columns s) s))
       \<lparr>origin := mem_start s, screen_end := screen_end s - (origin s - mem_start s),
         cursor_pos := cursor_pos s - (origin s - mem_start s)\<rparr>"

lemma fill_erase_upd: "fill_erase a n (s\<lparr>origin := x, cursor_pos := y, screen_end := z\<rparr>) =
    (fill_erase a n s)\<lparr>origin := x, cursor_pos := y, screen_end := z\<rparr>"
  by (rule VgaConsole.equality) (auto simp: fill_erase_eq fun_eq_iff)

lemma copy_cells_upd: "copy_cells a b n (s\<lparr>origin := x, cursor_pos := y, screen_end := z\<rparr>) =
    (copy_cells a b n s)\<lparr>origin := x, cursor_pos := y, screen_end := z\<rparr>"
  by (rule VgaConsole.equality) (auto simp: copy_cells_def fun_eq_iff)

lemma scroll_up_cases:
  assumes ok: "console_ok s"
  shows "scroll_up s =
    (if \<not> fast s then scroll_copy s
     else set_origin (if screen_end s + row_bytes s > mem_end s then scroll_wrap s else scroll_shift s))"
proof -
  note d = console_okD [OF ok]
  have plain: "scroll_up s = scroll_copy s" if "\<not> fast s"
    using that by (auto simp: scroll_up_def scroll_copy_def Let_def copy_cells_def)
  have pos: "screen_end s + row_bytes s - (origin s + row_bytes s - mem_start s) = screen_end s - (origin s - mem_start s)"
    "cursor_pos s + row_bytes s - (origin s + row_bytes s - mem_start s) = cursor_pos s - (origin s - mem_start s)"
    using d(9) by simp_all
  have "scroll_up s = set_origin (scroll_wrap s)" if "fast s" "screen_end s + row_bytes s > mem_end s"
  proof -
    have "scroll_up s = set_origin ((fill_erase (mem_start s + (lines s - 1) * row_bytes s) (columns s)
        (copy_cells (origin s + row_bytes s) (mem_start s) ((lines s - 1) * columns s) (shifted s)))
        \<lparr>origin := mem_start s, screen_end := screen_end s + row_bytes s - (origin s + row_bytes s - mem_start s),
         cursor_pos := cursor_pos s + row_bytes s - (origin s + row_bytes s - mem_start s)\<rparr>)"
      using that by (simp add: scroll_up_def Let_def fill_erase_eq copy_cells_def)
    also have "\<dots> = set_origin (scroll_wrap s)"
      unfolding pos by (simp add: scroll_wrap_def copy_cells_upd fill_erase_upd)
    finally show ?thesis .
  qed
  moreover have "scroll_up s = set_origin (scroll_shift s)" if "fast s" "\<not> screen_end s + row_bytes s > mem_end s"
    using that by (simp add: scroll_up_def Let_def scroll_shift_def)
  ultimately show ?thesis using plain by (cases "fast s") auto
qed

lemma safe_scroll_copy: "safe scroll_copy"
proof (rule safeI)
  fix s assume ok: "console_ok s"
  note d = console_okD [OF ok]
  let ?n = "scroll_bottom s - scroll_top s - 1"
  let ?s = "copy_cells (origin s + row_bytes s * scroll_top s + row_bytes s) (origin s + row_bytes s * scroll_top s) (?n * columns s) s"
  have "scroll_top s * columns s + ?n * columns s = (scroll_bottom s - 1) * columns s"
    using rows_split [of "scroll_top s" "scroll_bottom s - 1" "columns s"] d(7) by simp
  then have "scroll_top s * columns s + ?n * columns s \<le> columns s * lines s" using region_cells [OF ok, of "scroll_bottom s - 1"] by simp
  from safe_copy [OF ok _ this, of "origin s + row_bytes s * scroll_top s"]
  have s: "console_ok ?s" "confined s ?s" using d(3) by simp_all
  have "(scroll_bottom s - 1) * columns s + columns s = scroll_bottom s * columns s"
    using rows_split [of "scroll_bottom s - 1" "scroll_bottom s" "columns s"] d(7) by simp
  then have "(scroll_bottom s - 1) * columns s + columns s \<le> columns ?s * lines ?s"
    using region_cells [OF ok] by (simp add: copy_cells_def)
  from safe_fill [OF s(1) this, of "origin s + row_bytes s * (scroll_bottom s - 1)"]
  have "console_ok (scroll_copy s) \<and> confined ?s (scroll_copy s)"
    using d(3) by (simp add: scroll_copy_def copy_cells_def)
  with s(2) show "console_ok (scroll_copy s) \<and> confined s (scroll_copy s)" using confined_trans by blast
qed

lemma safe_scroll_shift:
  assumes ok: "console_ok s" and m: "screen_end s + row_bytes s \<le> mem_end s"
  shows "console_ok (scroll_shift s) \<and> confined s (scroll_shift s)"
proof -
  note d = console_okD [OF ok]
  have s: "console_ok (shifted s)" using d m by (simp add: console_ok_def)
  have "(lines s - 1) * columns s + columns s = lines s * columns s"
    using rows_split [of "lines s - 1" "lines s" "columns s"] d(2) by simp
  moreover from this have "screen_end s = origin (shifted s) + 2 * ((lines s - 1) * columns s)"
    using d(3,10) by (simp add: algebra_simps)
  ultimately have "console_ok (scroll_shift s) \<and> confined (shifted s) (scroll_shift s)"
    unfolding scroll_shift_def by (intro safe_fill [OF s]) (simp_all add: mult.commute)
  then show ?thesis by (simp add: confined_def)
qed

lemma safe_scroll_wrap:
  assumes ok: "console_ok s"
  shows "console_ok (scroll_wrap s) \<and> confined s (scroll_wrap s)"
proof
  note d = console_okD [OF ok]
  have "cursor_pos s - (origin s - mem_start s) = mem_start s + cursor_y s * row_bytes s + 2 * cursor_x s"
    "screen_end s - (origin s - mem_start s) = mem_start s + lines s * row_bytes s"
    using d(6,9,10) by simp_all
  then show "console_ok (scroll_wrap s)"
    using d by (simp add: console_ok_def scroll_wrap_def fill_erase_eq copy_cells_def)
  have r: "(lines s - 1) * columns s + columns s = lines s * columns s"
    using rows_split [of "lines s - 1" "lines s" "columns s"] d(2) by simp
  have e: "mem_start s + 2 * (lines s * columns s) \<le> mem_end s" using d(3,9,10,11) by (simp add: algebra_simps)
  have "mem_start s + 2 * ((lines s - 1) * columns s) \<le> mem_end s"
    "mem_start s + (lines s - 1) * row_bytes s + 2 * columns s \<le> mem_end s"
    using e r d(3) by (simp_all add: algebra_simps)
  then show "confined s (scroll_wrap s)"
    using d(3) by (auto simp: confined_def scroll_wrap_def fill_erase_frame copy_cells_frame)
qed

lemma safe_scroll_up: "safe scroll_up"
proof (rule safeI)
  fix s assume ok: "console_ok s"
  show "console_ok (scroll_up s) \<and> confined s (scroll_up s)"
    using safeD [OF safe_scroll_copy ok] safe_scroll_wrap [OF ok] safe_scroll_shift [OF ok]
    by (simp add: scroll_up_cases [OF ok] set_origin_def safe_crtc)
qed

lemma ok_next_row:
  assumes "console_ok s" "cursor_y s + 1 < lines s"
  shows "console_ok (s\<lparr>cursor_y := cursor_y s + 1, cursor_pos := cursor_pos s + row_bytes s\<rparr>)"
  using console_okD [OF assms(1)] assms(2) by (simp add: console_ok_def)

lemma safe_line_feed: "safe line_feed"
proof (rule safeI)
  fix s assume ok: "console_ok s"
  note d = console_okD [OF ok]
  show "console_ok (line_feed s) \<and> confined s (line_feed s)"
  proof (cases "cursor_y s + 1 < scroll_bottom s")
    case True
    then have "console_ok (line_feed s)" using ok_next_row [OF ok] d(8) by (simp add: line_feed_def)
    with True show ?thesis by (simp add: line_feed_def confined_def)
  qed (use safeD [OF safe_scroll_up ok] in \<open>simp add: line_feed_def\<close>)
qed

lemma safe_reverse_index: "safe reverse_index"
proof (rule safeI)
  fix s assume ok: "console_ok s"
  note d = console_okD [OF ok]
  show "console_ok (reverse_index s) \<and> confined s (reverse_index s)"
  proof (cases "cursor_y s > scroll_top s")
    case True
    then obtain y where y: "cursor_y s = Suc y" by (cases "cursor_y s") auto
    have "console_ok (reverse_index s)" using True d y by (simp add: reverse_index_def console_ok_def)
    with True show ?thesis by (simp add: reverse_index_def confined_def)
  qed (use safeD [OF safe_scroll_down ok] in \<open>simp add: reverse_index_def\<close>)
qed

lemma ok_set_x:
  assumes ok: "console_ok s" and x: "x \<le> columns s" and p: "p = origin s + cursor_y s * row_bytes s + 2 * x"
  shows "console_ok (s\<lparr>cursor_x := x, cursor_pos := p\<rparr>)"
  using console_okD [OF ok] x p by (simp add: console_ok_def)

lemma ok_left:
  assumes "console_ok s" "0 < cursor_x s"
  shows "console_ok (s\<lparr>cursor_x := cursor_x s - 1, cursor_pos := cursor_pos s - 2\<rparr>)"
  using console_okD(4,6) [OF assms(1)] assms(2) by (intro ok_set_x [OF assms(1)]) simp_all

lemma confined_set_x: "confined s (s\<lparr>cursor_x := x, cursor_pos := p\<rparr>)"
  by (simp add: confined_def)

lemma safe_carriage_return: "safe carriage_return"
proof (rule safeI)
  fix s assume ok: "console_ok s"
  show "console_ok (carriage_return s) \<and> confined s (carriage_return s)"
    unfolding carriage_return_def using ok_set_x [OF ok, of 0] console_okD(6) [OF ok] confined_set_x by simp
qed

lemma safe_backspace: "safe backspace"
proof (rule safeI)
  fix s assume ok: "console_ok s"
  note d = console_okD [OF ok]
  have "console_ok (backspace s)"
    using ok ok_left [OF ok] by (simp add: backspace_def)
  then show "console_ok (backspace s) \<and> confined s (backspace s)" by (simp add: backspace_def confined_set_x)
qed

text \<open>A write to the cell under the cursor, when it is on the line.\<close>

lemma safe_write_cursor:
  assumes ok: "console_ok s" and x: "cursor_x s < columns s"
  shows "console_ok (write_cell (cursor_pos s) v s) \<and> confined s (write_cell (cursor_pos s) v s)"
proof
  note i = cursor_index [OF ok]
  have "cursor_y s * columns s + cursor_x s + 1 \<le> columns s * lines s" using i(3) x by simp
  from screen_cells [OF ok this] show "confined s (write_cell (cursor_pos s) v s)"
    unfolding i(1) by (auto simp: write_cell_def confined_def)
  show "console_ok (write_cell (cursor_pos s) v s)" using ok by (simp add: write_cell_def)
qed

lemma safe_delete: "safe vga_delete"
proof (rule safeI)
  fix s assume ok: "console_ok s"
  note d = console_okD [OF ok]
  let ?s = "s\<lparr>cursor_x := cursor_x s - 1, cursor_pos := cursor_pos s - 2\<rparr>"
  show "console_ok (vga_delete s) \<and> confined s (vga_delete s)"
  proof (cases "cursor_x s > 0")
    case True
    then have s: "console_ok ?s" by (rule ok_left [OF ok])
    have "console_ok (vga_delete s) \<and> confined ?s (vga_delete s)"
      using safe_write_cursor [OF s, of "erase_cell s"] True d(4) by (simp add: vga_delete_def Let_def)
    then show ?thesis using confined_trans [OF confined_set_x] by blast
  qed (use ok in \<open>simp add: vga_delete_def\<close>)
qed

text \<open>Leaving the end of a line for the next one.\<close>

lemma safe_next_line:
  assumes ok: "console_ok s" and x: "x \<le> columns s" and p: "p = origin s + cursor_y s * row_bytes s + 2 * x"
  shows "console_ok (line_feed (s\<lparr>cursor_x := x, cursor_pos := p\<rparr>)) \<and> confined s (line_feed (s\<lparr>cursor_x := x, cursor_pos := p\<rparr>))"
  using safeD [OF safe_line_feed ok_set_x [OF assms]] confined_trans [OF confined_set_x] by blast

lemma safe_tab: "safe tab"
proof (rule safeI)
  fix s assume ok: "console_ok s"
  note d = console_okD [OF ok]
  let ?k = "8 - cursor_x s mod 8"
  show "console_ok (tab s) \<and> confined s (tab s)"
  proof (cases "cursor_x s + ?k > columns s")
    case True
    have "console_ok (line_feed (s\<lparr>cursor_x := cursor_x s + ?k - columns s, cursor_pos := cursor_pos s + 2 * ?k - row_bytes s\<rparr>))
        \<and> confined s (line_feed (s\<lparr>cursor_x := cursor_x s + ?k - columns s, cursor_pos := cursor_pos s + 2 * ?k - row_bytes s\<rparr>))"
      using True d by (intro safe_next_line [OF ok]) simp_all
    then show ?thesis using True by (simp add: tab_def Let_def)
  next
    case False
    then have "console_ok (s\<lparr>cursor_x := cursor_x s + ?k, cursor_pos := cursor_pos s + 2 * ?k\<rparr>)"
      using d(6) by (intro ok_set_x [OF ok]) simp_all
    then show ?thesis using False by (simp add: tab_def Let_def confined_set_x)
  qed
qed

lemma safe_bell: "safe bell"
  by (rule safeI) (simp add: bell_def)

lemma safe_insert_char: "safe insert_char_at_cursor"
proof (rule safeI)
  fix s assume ok: "console_ok s"
  note i = cursor_index [OF ok] and d = console_okD [OF ok]
  have "cursor_y s * columns s + cursor_x s + (columns s - cursor_x s) \<le> columns s * lines s" using i(3) d(4) by simp
  from screen_cells [OF ok this] have "confined s (insert_char_at_cursor s)"
    using loop_frames(1) [of _ "cursor_pos s" "columns s - cursor_x s" "erase_cell s" s] i(1)
    by (auto simp: insert_char_at_cursor_def confined_def insert_loop_eq)
  then show "console_ok (insert_char_at_cursor s) \<and> confined s (insert_char_at_cursor s)"
    using ok by (simp add: insert_char_at_cursor_def insert_loop_eq)
qed

lemma safe_delete_char: "safe delete_char_at_cursor"
proof (rule safeI)
  fix s assume ok: "console_ok s"
  note i = cursor_index [OF ok] and d = console_okD [OF ok]
  show "console_ok (delete_char_at_cursor s) \<and> confined s (delete_char_at_cursor s)"
  proof (cases "cursor_x s < columns s")
    case True
    have "cursor_y s * columns s + cursor_x s + (columns s - cursor_x s - 1 + 1) \<le> columns s * lines s" using i(3) True by simp
    from screen_cells [OF ok this] have "confined s (delete_char_at_cursor s)"
      unfolding delete_char_at_cursor_def delete_loop_eq i(1) by (auto simp: confined_def)
    then show ?thesis using ok by (simp add: delete_char_at_cursor_def delete_loop_eq)
  qed (use ok in \<open>simp add: delete_char_at_cursor_def\<close>)
qed

lemma safe_counted: "safe f \<Longrightarrow> safe (\<lambda>s. (f ^^ h s) s)"
  using safe_power unfolding safe_def by blast

lemma safe_region: "safe f \<Longrightarrow> safe (scroll_region_temporarily f)"
proof (rule safeI)
  fix s assume f: "safe f" and ok: "console_ok s"
  note d = console_okD [OF ok]
  let ?s = "s\<lparr>scroll_top := cursor_y s, scroll_bottom := lines s\<rparr>"
  have "console_ok ?s" using d by (simp add: console_ok_def)
  then have o: "console_ok (f ?s)" and c: "confined ?s (f ?s)" using safeD [OF f] by blast+
  have "lines (f ?s) = lines s" using c by (simp add: confined_def)
  then have "console_ok (scroll_region_temporarily f s)"
    unfolding scroll_region_temporarily_def using console_okD [OF o] d(7,8) by (simp add: console_ok_def)
  moreover have "confined s (scroll_region_temporarily f s)"
    using c by (simp add: confined_def scroll_region_temporarily_def)
  ultimately show "console_ok (scroll_region_temporarily f s) \<and> confined s (scroll_region_temporarily f s)" ..
qed

lemma safe_editing: "safe (insert_lines n)" "safe (delete_lines n)" "safe (insert_chars n)" "safe (delete_chars n)"
  unfolding insert_lines_def [abs_def] delete_lines_def [abs_def] insert_chars_def [abs_def] delete_chars_def [abs_def]
  by (rule safe_region safe_counted safe_scroll_down safe_scroll_up safe_insert_char safe_delete_char)+

lemma safe_modes: "safe set_scroll_region" "safe set_graphic_rendition" "safe (set_ansi a)"
proof -
  show "safe set_scroll_region"
  proof (rule safeI)
    fix s assume "console_ok s"
    note d = console_okD [OF this]
    from d show "console_ok (set_scroll_region s) \<and> confined s (set_scroll_region s)"
      by (simp add: set_scroll_region_def Let_def console_ok_def confined_def)
  qed
  show "safe set_graphic_rendition"
    by (rule safeI) (auto simp: set_graphic_rendition_def console_ok_def confined_def)
  show "safe (set_ansi a)"
    by (rule safeI) (auto simp: set_ansi_def console_ok_def confined_def)
qed

lemmas safe_primitives = safe_move_cursor safe_save_cursor safe_restore_cursor safe_erase_display safe_erase_line
  safe_line_feed safe_reverse_index safe_carriage_return safe_backspace safe_delete safe_tab safe_bell safe_editing safe_modes

lemma safe_id: "safe (\<lambda>s. s)"
  by (simp add: safe_def)

lemma safe_dispatch_csi: "safe (dispatch_csi c)"
proof (rule safeI)
  fix s assume ok: "console_ok s"
  have p: "console_ok (f s) \<and> confined s (f s)" if "safe f" for f using safeD [OF that ok] by blast
  show "console_ok (dispatch_csi c s) \<and> confined s (dispatch_csi c s)"
    unfolding dispatch_csi_def Let_def
    by (simp add: p [OF safe_move_cursor] p [OF safe_erase_display] p [OF safe_erase_line] p [OF safe_editing(1)]
        p [OF safe_editing(2)] p [OF safe_editing(3)] p [OF safe_editing(4)] p [OF safe_modes(1)] p [OF safe_modes(2)]
        p [OF safe_save_cursor] p [OF safe_restore_cursor] ok)
qed

lemma safe_parser: "console_ok s \<Longrightarrow> param_count p < MAX_ANSI_PARAMS \<Longrightarrow> length (params p) = MAX_ANSI_PARAMS \<Longrightarrow>
    console_ok (s\<lparr>parser := p\<rparr>) \<and> confined s (s\<lparr>parser := p\<rparr>)"
  by (auto simp: console_ok_def confined_def)

lemma safe_csi_param: "safe (handle_csi_param b)"
proof (rule safeI)
  fix s assume ok: "console_ok s"
  note d = console_okD [OF ok]
  have "console_ok (dispatch_csi b (set_ansi Normal s)) \<and> confined s (dispatch_csi b (set_ansi Normal s))"
    using safeD [OF safe_comp [OF safe_modes(3) safe_dispatch_csi] ok] by blast
  moreover have "console_ok (s\<lparr>parser := (parser s)\<lparr>param_count := n\<rparr>\<rparr>) \<and> confined s (s\<lparr>parser := (parser s)\<lparr>param_count := n\<rparr>\<rparr>)"
    if "n < MAX_ANSI_PARAMS" for n using that d by (intro safe_parser [OF ok]) simp_all
  moreover have "console_ok (s\<lparr>parser := (parser s)\<lparr>params := (params (parser s))[i := x]\<rparr>\<rparr>)
      \<and> confined s (s\<lparr>parser := (parser s)\<lparr>params := (params (parser s))[i := x]\<rparr>\<rparr>)" for i x
    using d by (intro safe_parser [OF ok]) simp_all
  ultimately show "console_ok (handle_csi_param b s) \<and> confined s (handle_csi_param b s)"
    by (simp add: handle_csi_param_def Let_def less_diff_conv)
qed

lemma safe_escape: "safe (handle_escape b)"
proof (rule safeI)
  fix s assume ok: "console_ok s"
  let ?s = "set_ansi Normal s"
  have s: "console_ok ?s" "confined s ?s" using safeD [OF safe_modes(3) ok] by blast+
  have p: "console_ok (f ?s) \<and> confined s (f ?s)" if "safe f" for f
    using safeD [OF that s(1)] confined_trans [OF s(2)] by blast
  have "console_ok (?s\<lparr>parser := reset_params (parser ?s)\<rparr>) \<and> confined ?s (?s\<lparr>parser := reset_params (parser ?s)\<rparr>)"
    by (intro safe_parser [OF s(1)]) (simp_all add: reset_params_def MAX_ANSI_PARAMS_def)
  then have "console_ok (set_ansi CsiEntry (?s\<lparr>parser := reset_params (parser ?s)\<rparr>))
      \<and> confined s (set_ansi CsiEntry (?s\<lparr>parser := reset_params (parser ?s)\<rparr>))"
    using safeD [OF safe_modes(3)] confined_trans [OF s(2)] confined_trans by blast
  then show "console_ok (handle_escape b s) \<and> confined s (handle_escape b s)"
    unfolding handle_escape_def Let_def
    using p [OF safe_move_cursor] p [OF safe_reverse_index] p [OF safe_line_feed] p [OF safe_save_cursor]
      p [OF safe_restore_cursor] s by simp
qed

lemma safe_normal: "safe (handle_normal b)"
proof (rule safeI)
  fix s assume ok: "console_ok s"
  note d = console_okD [OF ok]
  let ?t = "s\<lparr>cursor_x := cursor_x s - columns s, cursor_pos := cursor_pos s - row_bytes s\<rparr>"
  let ?s = "if cursor_x s \<ge> columns s then line_feed ?t else s"
  have x0: "cursor_x ?t = 0" "console_ok ?t" if "cursor_x s \<ge> columns s"
    using that d ok_set_x [OF ok, of 0 "cursor_pos s - row_bytes s"] by simp_all
  have lf: "cursor_x (line_feed u) = cursor_x u" "columns (line_feed u) = columns u" if "console_ok u" for u
    using safeD(2) [OF safe_line_feed that]
    by (auto simp: line_feed_def scroll_up_cases [OF that] scroll_copy_def scroll_shift_def scroll_wrap_def set_origin_def
        write_crtc_word_def outb_def confined_def)
  have s: "console_ok ?s" "confined s ?s" "cursor_x ?s < columns ?s"
    using ok d lf [OF x0(2)] x0(1) safeD [OF safe_line_feed x0(2)] confined_trans [OF confined_set_x] by auto
  have put: "console_ok (put_char b ?s)" "confined ?s (put_char b ?s)"
    using safe_write_cursor [OF s(1,3)] by (auto simp: put_char_def)
  have px: "cursor_x (put_char b ?s) < columns (put_char b ?s)" using s(3) by (simp add: put_char_def write_cell_def)
  have "console_ok ((put_char b ?s)\<lparr>cursor_x := cursor_x (put_char b ?s) + 1, cursor_pos := cursor_pos (put_char b ?s) + 2\<rparr>)"
    using px console_okD(6) [OF put(1)] by (intro ok_set_x [OF put(1)]) simp_all
  moreover have "confined s ((put_char b ?s)\<lparr>cursor_x := cursor_x (put_char b ?s) + 1, cursor_pos := cursor_pos (put_char b ?s) + 2\<rparr>)"
    using confined_trans [OF confined_trans [OF s(2) put(2)] confined_set_x] .
  moreover have p: "console_ok (f s) \<and> confined s (f s)" if "safe f" for f using safeD [OF that ok] by blast
  ultimately show "console_ok (handle_normal b s) \<and> confined s (handle_normal b s)"
    unfolding handle_normal_def Let_def
    using p [OF safe_line_feed] p [OF safe_carriage_return] p [OF safe_delete] p [OF safe_backspace] p [OF safe_tab]
      p [OF safe_bell] p [OF safe_modes(3)] ok by simp
qed

lemma safe_write_byte: "safe (write_byte b)"
proof (rule safeI)
  fix s assume ok: "console_ok s"
  have p: "console_ok (f s) \<and> confined s (f s)" if "safe f" for f using safeD [OF that ok] by blast
  have "safe (handle_csi_entry b)"
    using safe_comp [OF safe_modes(3) safe_csi_param] safe_modes(3)
    by (auto simp: handle_csi_entry_def [abs_def] Let_def safe_def)
  then show "console_ok (write_byte b s) \<and> confined s (write_byte b s)"
    using p [OF safe_normal] p [OF safe_escape] p [OF safe_csi_param] p
    by (auto simp: write_byte_def split: AnsiState.splits)
qed

lemma safe_bytes: "safe (fold write_byte bytes)"
proof (induction bytes)
  case Nil
  then show ?case by (simp add: safe_def)
next
  case (Cons b bytes)
  from safe_comp [OF safe_write_byte Cons.IH] show ?case by (simp add: comp_def)
qed

lemma safe_batch: "safe (write_batch bytes)"
  using safe_bytes by (simp add: safe_def write_batch_def sync_hardware_cursor_def safe_crtc)

section \<open>What the screen shows\<close>

definition cell :: "VgaConsole \<Rightarrow> nat \<Rightarrow> nat \<Rightarrow> u16" where
  "cell s r c = vmem s (origin s + 2 * (r * columns s + c))"

text \<open>Two consoles show the same: the same cells on the screen and the same state as far as a program can tell.\<close>

definition controls :: "VgaConsole \<Rightarrow> (nat \<times> nat \<times> u16) \<times> (nat \<times> nat) \<times> (nat \<times> nat) \<times> u8 \<times> (nat \<times> nat) \<times> AnsiParser" where
  "controls s = ((columns s, lines s, erase_cell s), (cursor_x s, cursor_y s), (scroll_top s, scroll_bottom s), attribute s,
     (saved_x s, saved_y s), parser s)"

definition same_screen :: "VgaConsole \<Rightarrow> VgaConsole \<Rightarrow> bool" where
  "same_screen s t \<longleftrightarrow> controls s = controls t \<and> (\<forall>r<lines s. \<forall>c<columns s. cell s r c = cell t r c)"

lemma row_index:
  assumes "c < (C :: nat)"
  shows "a * C \<le> r * C + c \<longleftrightarrow> a \<le> r" "r * C + c < b * C \<longleftrightarrow> r < b"
proof -
  have lt: "r * C + c < b * C" if "r < b" for b
  proof -
    have "Suc r * C \<le> b * C" using that by (intro mult_le_mono1) simp
    then show ?thesis using assms by simp
  qed
  have ge: "a * C \<le> r * C + c" if "a \<le> r" for a
    using mult_le_mono1 [OF that, of C] by (rule trans_le_add1)
  show "a * C \<le> r * C + c \<longleftrightarrow> a \<le> r" "r * C + c < b * C \<longleftrightarrow> r < b"
    using lt [of a] ge [of a] lt [of b] ge [of b] by (auto simp: not_le not_less) (meson leD leI)+
qed

lemma cell_fill:
  "cell (fill_erase (origin s + 2 * q) n s) r c =
     (if q \<le> r * columns s + c \<and> r * columns s + c < q + n then erase_cell s else cell s r c)"
  by (simp only: cell_def fill_erase_fields vmem_fill_erase)

lemma cell_fill_row:
  assumes "c < columns s"
  shows "cell (fill_erase (origin s + 2 * (q * columns s)) (columns s) s) r c = (if r = q then erase_cell s else cell s r c)"
proof -
  have "q * columns s + columns s = Suc q * columns s" by simp
  then show ?thesis using row_index(1) [OF assms, of q r] row_index(2) [OF assms, of r "Suc q"]
    by (auto simp: cell_fill simp del: mult_Suc)
qed

text \<open>The effect of scrolling on the cells, the same for each of its three ways.\<close>

definition up :: "nat \<Rightarrow> nat \<Rightarrow> u16 \<Rightarrow> (nat \<Rightarrow> nat \<Rightarrow> u16) \<Rightarrow> nat \<Rightarrow> nat \<Rightarrow> u16" where
  "up hi lo e g r c = (if r + 1 = lo then e else if hi \<le> r \<and> r + 1 < lo then g (r + 1) c else g r c)"

definition down :: "nat \<Rightarrow> nat \<Rightarrow> u16 \<Rightarrow> (nat \<Rightarrow> nat \<Rightarrow> u16) \<Rightarrow> nat \<Rightarrow> nat \<Rightarrow> u16" where
  "down hi lo e g r c = (if r = hi then e else if hi < r \<and> r < lo then g (r - 1) c else g r c)"

lemma cell_scroll_copy:
  assumes ok: "console_ok s" and c: "c < columns s"
  shows "cell (scroll_copy s) r c = up (scroll_top s) (scroll_bottom s) (erase_cell s) (cell s) r c"
proof -
  note d = console_okD [OF ok]
  let ?C = "columns s" and ?n = "(scroll_bottom s - scroll_top s - 1) * columns s"
  let ?s = "copy_cells (origin s + 2 * ((scroll_top s + 1) * ?C)) (origin s + 2 * (scroll_top s * ?C)) ?n s"
  have eq: "scroll_copy s = fill_erase (origin ?s + 2 * ((scroll_bottom s - 1) * columns ?s)) (columns ?s) ?s"
  proof -
    have rb: "row_bytes s * k = 2 * (k * ?C)" for k by (simp add: d(3))
    have "origin s + 2 * (scroll_top s * ?C) + row_bytes s = origin s + 2 * ((scroll_top s + 1) * ?C)" by (simp add: d(3))
    then show ?thesis by (simp only: scroll_copy_def rb copy_cells_fields)
  qed
  have n: "scroll_top s * ?C + ?n = (scroll_bottom s - 1) * ?C"
    using rows_split [of "scroll_top s" "scroll_bottom s - 1" ?C] d(7) by simp
  have "cell ?s r c = (if scroll_top s \<le> r \<and> r < scroll_bottom s - 1 then cell s (r + 1) c else cell s r c)"
  proof (cases "scroll_top s \<le> r \<and> r < scroll_bottom s - 1")
    case True
    then have "(scroll_top s + 1) * ?C + (r * ?C + c - scroll_top s * ?C) = (r + 1) * ?C + c"
      using row_index(1) [OF c, of "scroll_top s" r] by simp
    with True show ?thesis
      by (simp only: cell_def copy_cells_fields vmem_copy_cells n row_index [OF c] simp_thms if_True)
  next
    case False
    then show ?thesis
      by (simp only: cell_def copy_cells_fields vmem_copy_cells n row_index [OF c] if_False)
  qed
  then show ?thesis
    using c d(7) unfolding eq by (subst cell_fill_row) (auto simp: up_def)
qed

lemma cell_scroll_shift:
  assumes ok: "console_ok s" and f: "fast s" and c: "c < columns s" and r: "r < lines s"
  shows "cell (scroll_shift s) r c = up (scroll_top s) (scroll_bottom s) (erase_cell s) (cell s) r c"
proof -
  note d = console_okD [OF ok]
  have "(lines s - 1) * columns s + columns s = lines s * columns s"
    using rows_split [of "lines s - 1" "lines s" "columns s"] d(2) by simp
  then have "screen_end s = origin (shifted s) + 2 * ((lines s - 1) * columns (shifted s))"
    using d(3,10) by simp
  then have eq: "scroll_shift s =
      fill_erase (origin (shifted s) + 2 * ((lines s - 1) * columns (shifted s))) (columns (shifted s)) (shifted s)"
    unfolding scroll_shift_def by (rule arg_cong2 [of _ _ _ _ "\<lambda>a b. fill_erase a b (shifted s)"]) simp
  have "cell (shifted s) r c = cell s (r + 1) c" using d(3) by (simp add: cell_def algebra_simps)
  then show ?thesis
    using f c r cell_fill_row [of c "shifted s" "lines s - 1" r] unfolding eq by (auto simp: up_def)
qed

lemma cell_scroll_wrap:
  assumes ok: "console_ok s" and f: "fast s" and c: "c < columns s" and r: "r < lines s"
  shows "cell (scroll_wrap s) r c = up (scroll_top s) (scroll_bottom s) (erase_cell s) (cell s) r c"
proof -
  note d = console_okD [OF ok]
  let ?C = "columns s"
  let ?s = "copy_cells (origin s + 2 * (1 * ?C)) (mem_start s + 2 * 0) ((lines s - 1) * ?C) s"
  have last: "(lines s - 1) * ?C + ?C = lines s * ?C"
    using rows_split [of "lines s - 1" "lines s" ?C] d(2) by simp
  have "cell (scroll_wrap s) r c = vmem (fill_erase (mem_start s + 2 * ((lines s - 1) * ?C)) ?C ?s) (mem_start s + 2 * (r * ?C + c))"
  proof -
    have "(lines s - 1) * row_bytes s = 2 * ((lines s - 1) * ?C)" "origin s + row_bytes s = origin s + 2 * (1 * ?C)"
      by (simp_all add: d(3))
    then have "scroll_wrap s = (fill_erase (mem_start s + 2 * ((lines s - 1) * ?C)) ?C ?s)
       \<lparr>origin := mem_start s, screen_end := screen_end s - (origin s - mem_start s),
         cursor_pos := cursor_pos s - (origin s - mem_start s)\<rparr>"
      unfolding scroll_wrap_def by (simp only: mult_0_right add_0_right)
    then show ?thesis by (simp add: cell_def)
  qed
  also have "\<dots> = (if lines s - 1 \<le> r then erase_cell s else vmem ?s (mem_start s + 2 * (r * ?C + c)))"
    unfolding vmem_fill_erase last row_index [OF c] using r by simp
  finally have "cell (scroll_wrap s) r c = (if lines s - 1 \<le> r then erase_cell s else vmem ?s (mem_start s + 2 * (r * ?C + c)))" .
  moreover have "vmem ?s (mem_start s + 2 * (r * ?C + c)) = cell s (r + 1) c" if "r < lines s - 1"
    using that unfolding vmem_copy_cells add_0 row_index [OF c] cell_def by (simp add: add.assoc)
  ultimately show ?thesis using f r by (auto simp: up_def)
qed

lemma cell_scroll_up:
  assumes ok: "console_ok s" and c: "c < columns s" and r: "r < lines s"
  shows "cell (scroll_up s) r c = up (scroll_top s) (scroll_bottom s) (erase_cell s) (cell s) r c"
proof -
  have o: "cell (set_origin u) r c = cell u r c" for u by (simp add: cell_def set_origin_def write_crtc_word_def outb_def)
  show ?thesis
    unfolding scroll_up_cases [OF ok]
    using cell_scroll_copy [OF ok c] cell_scroll_wrap [OF ok _ c r] cell_scroll_shift [OF ok _ c r] by (auto simp: o)
qed

lemma cell_scroll_down:
  assumes ok: "console_ok s" and c: "c < columns s"
  shows "cell (scroll_down s) r c = down (scroll_top s) (scroll_bottom s) (erase_cell s) (cell s) r c"
proof -
  note d = console_okD [OF ok]
  let ?C = "columns s" and ?n = "(scroll_bottom s - scroll_top s - 1) * columns s"
  let ?s = "copy_cells (origin s + 2 * (scroll_top s * ?C)) (origin s + 2 * ((scroll_top s + 1) * ?C)) ?n s"
  have eq: "scroll_down s = fill_erase (origin ?s + 2 * (scroll_top s * columns ?s)) (columns ?s) ?s"
  proof -
    have rb: "row_bytes s * k = 2 * (k * ?C)" for k by (simp add: d(3))
    then show ?thesis by (simp only: scroll_down_def Let_def rb copy_cells_fields)
  qed
  have n: "(scroll_top s + 1) * ?C + ?n = scroll_bottom s * ?C"
    using rows_split [of "scroll_top s + 1" "scroll_bottom s" ?C] d(7) by simp
  have "cell ?s r c = (if scroll_top s + 1 \<le> r \<and> r < scroll_bottom s then cell s (r - 1) c else cell s r c)"
  proof (cases "scroll_top s + 1 \<le> r \<and> r < scroll_bottom s")
    case True
    then obtain q where q: "r = Suc q" by (cases r) auto
    then have "scroll_top s * ?C \<le> q * ?C + c" using row_index(1) [OF c, of "scroll_top s" q] True by simp
    then have "scroll_top s * ?C + (r * ?C + c - (scroll_top s + 1) * ?C) = (r - 1) * ?C + c" using q by simp
    with True show ?thesis
      by (simp only: cell_def copy_cells_fields vmem_copy_cells n row_index [OF c] simp_thms if_True)
  next
    case False
    then show ?thesis
      by (simp only: cell_def copy_cells_fields vmem_copy_cells n row_index [OF c] if_False)
  qed
  then show ?thesis
    using c unfolding eq by (subst cell_fill_row) (auto simp: down_def)
qed

section \<open>Operations that agree\<close>

definition agrees :: "(VgaConsole \<Rightarrow> VgaConsole) \<Rightarrow> bool" where
  "agrees f \<longleftrightarrow> (\<forall>s t. console_ok s \<and> console_ok t \<and> same_screen s t \<longrightarrow> same_screen (f s) (f t))"

lemma agreesI: "(\<And>s t. console_ok s \<Longrightarrow> console_ok t \<Longrightarrow> same_screen s t \<Longrightarrow> same_screen (f s) (f t)) \<Longrightarrow> agrees f"
  by (simp add: agrees_def)

lemma agreesD: "agrees f \<Longrightarrow> console_ok s \<Longrightarrow> console_ok t \<Longrightarrow> same_screen s t \<Longrightarrow> same_screen (f s) (f t)"
  by (simp add: agrees_def)

lemma sameD:
  assumes "same_screen s t"
  shows "columns t = columns s" "lines t = lines s" "erase_cell t = erase_cell s" "cursor_x t = cursor_x s"
    "cursor_y t = cursor_y s" "scroll_top t = scroll_top s" "scroll_bottom t = scroll_bottom s" "attribute t = attribute s"
    "saved_x t = saved_x s" "saved_y t = saved_y s" "parser t = parser s"
    "r < lines s \<Longrightarrow> c < columns s \<Longrightarrow> cell t r c = cell s r c"
  using assms by (auto simp: same_screen_def controls_def)

text \<open>Operations that only change the controls, and operations that only change cells.\<close>

lemma same_controls:
  assumes "same_screen s t" "controls u = controls w" "columns u = columns s" "lines u = lines s" "columns w = columns t"
    "vmem u = vmem s" "vmem w = vmem t" "origin u = origin s" "origin w = origin t"
  shows "same_screen u w"
  using assms by (simp add: same_screen_def cell_def)

lemma same_cells:
  assumes "same_screen s t" "controls u = controls s" "controls w = controls t"
    "\<And>r c. r < lines s \<Longrightarrow> c < columns s \<Longrightarrow> cell u r c = cell w r c"
  shows "same_screen u w"
  using assms by (simp add: same_screen_def) (simp add: controls_def)

lemma agrees_comp: "agrees f \<Longrightarrow> safe f \<Longrightarrow> agrees g \<Longrightarrow> agrees (\<lambda>s. g (f s))"
  unfolding agrees_def safe_def by blast

lemma agrees_power: "agrees f \<Longrightarrow> safe f \<Longrightarrow> agrees (f ^^ n)"
proof (induction n)
  case (Suc n)
  from agrees_comp [OF Suc.IH [OF Suc.prems] safe_power [OF Suc.prems(2)] Suc.prems(1)] show ?case by (simp add: comp_def)
qed (simp add: agrees_def)

lemma controls_fill: "controls (fill_erase a n s) = controls s" "controls (copy_cells a b n s) = controls s"
  by (simp_all add: controls_def)

lemma controls_crtc: "controls (write_crtc_word i v s) = controls s"
  by (simp add: controls_def write_crtc_word_def outb_def)

lemma controls_scroll: "console_ok s \<Longrightarrow> controls (scroll_up s) = controls s" "controls (scroll_down s) = controls s"
proof -
  show "controls (scroll_up s) = controls s" if "console_ok s"
    using scroll_up_cases [OF that]
    by (simp add: scroll_copy_def set_origin_def controls_crtc) (simp add: controls_def scroll_wrap_def scroll_shift_def)
  show "controls (scroll_down s) = controls s" by (simp add: scroll_down_def Let_def controls_fill)
qed

lemma agrees_scroll_up: "agrees scroll_up"
proof (rule agreesI)
  fix s t assume o: "console_ok s" "console_ok t" and same: "same_screen s t"
  note d = sameD [OF same]
  show "same_screen (scroll_up s) (scroll_up t)"
  proof (rule same_cells [OF same])
    fix r c assume rc: "r < lines s" "c < columns s"
    then have "cell t r c = cell s r c" "r + 1 < scroll_bottom s \<Longrightarrow> cell t (r + 1) c = cell s (r + 1) c"
      using d(12) console_okD(8) [OF o(1)] by auto
    then show "cell (scroll_up s) r c = cell (scroll_up t) r c"
      using rc d by (simp add: cell_scroll_up o up_def)
  qed (simp_all add: controls_scroll o)
qed

lemma agrees_scroll_down: "agrees scroll_down"
proof (rule agreesI)
  fix s t assume o: "console_ok s" "console_ok t" and same: "same_screen s t"
  note d = sameD [OF same]
  show "same_screen (scroll_down s) (scroll_down t)"
  proof (rule same_cells [OF same])
    fix r c assume rc: "r < lines s" "c < columns s"
    then have "cell t r c = cell s r c" "cell t (r - 1) c = cell s (r - 1) c" using d(12) by simp_all
    then show "cell (scroll_down s) r c = cell (scroll_down t) r c"
      using rc d by (simp add: cell_scroll_down o down_def)
  qed (simp_all add: controls_scroll)
qed

lemma agrees_move_cursor: "agrees (move_cursor x y)"
  by (rule agreesI, rule same_controls, assumption) (auto simp: move_cursor_def same_screen_def controls_def)

lemma agrees_save_restore: "agrees save_cursor" "agrees restore_cursor"
proof -
  show "agrees save_cursor"
    by (rule agreesI, rule same_controls, assumption) (auto simp: save_cursor_def same_screen_def controls_def)
  show "agrees restore_cursor"
    by (rule agreesI, rule same_controls, assumption) (auto simp: restore_cursor_def move_cursor_def same_screen_def controls_def)
qed

text \<open>Filling the same range of cells of both screens.\<close>

lemma same_fill:
  assumes same: "same_screen s t" and a: "a = origin s + 2 * k" "b = origin t + 2 * k"
  shows "same_screen (fill_erase a n s) (fill_erase b n t)"
  by (rule same_cells [OF same]) (use sameD [OF same] in \<open>simp_all add: controls_fill a cell_fill\<close>)

lemma agrees_erase: "agrees (erase_display m)" "agrees (vga_erase_line m)"
proof -
  show "agrees (erase_display m)"
  proof (rule agreesI)
    fix s t assume o: "console_ok s" "console_ok t" and same: "same_screen s t"
    note d = sameD [OF same] and i = cursor_index(1) [OF o(1)] and j = cursor_index(1) [OF o(2)]
    have "screen_end s = origin s + 2 * (columns s * lines s)" "screen_end t = origin t + 2 * (columns s * lines s)"
      using console_okD(3,10) [OF o(1)] console_okD(3,10) [OF o(2)] d by simp_all
    then have n: "(screen_end t - cursor_pos t) div 2 = (screen_end s - cursor_pos s) div 2"
      "(cursor_pos t - origin t) div 2 = (cursor_pos s - origin s) div 2"
      unfolding i j d by simp_all
    have "same_screen (fill_erase (cursor_pos s) n s) (fill_erase (cursor_pos t) n t)"
      "same_screen (fill_erase (origin s) n s) (fill_erase (origin t) n t)" for n
      by (rule same_fill [OF same i], use j d in simp) (rule same_fill [OF same, of _ 0], simp_all)
    then show "same_screen (erase_display m s) (erase_display m t)"
      using same d by (simp add: erase_display_def n)
  qed
  show "agrees (vga_erase_line m)"
  proof (rule agreesI)
    fix s t assume o: "console_ok s" "console_ok t" and same: "same_screen s t"
    note d = sameD [OF same] and i = cursor_index(1) [OF o(1)] and j = cursor_index(1) [OF o(2)]
    have "cursor_pos s - 2 * cursor_x s = origin s + 2 * (cursor_y s * columns s)"
      "cursor_pos t - 2 * cursor_x t = origin t + 2 * (cursor_y s * columns s)"
      unfolding i j d by simp_all
    then have "same_screen (fill_erase (cursor_pos s - 2 * cursor_x s) n s) (fill_erase (cursor_pos t - 2 * cursor_x t) n t)"
      "same_screen (fill_erase (cursor_pos s) n s) (fill_erase (cursor_pos t) n t)" for n
      by (rule same_fill [OF same]) (rule same_fill [OF same i], use j d in simp)
    then show "same_screen (vga_erase_line m s) (vga_erase_line m t)"
      using same d by (simp add: vga_erase_line_def)
  qed
qed

lemma agrees_rows: "agrees line_feed" "agrees reverse_index"
proof -
  show "agrees line_feed"
  proof (rule agreesI)
    fix s t assume o: "console_ok s" "console_ok t" and same: "same_screen s t"
    note d = sameD [OF same]
    show "same_screen (line_feed s) (line_feed t)"
    proof (cases "cursor_y s + 1 < scroll_bottom s")
      case True
      then show ?thesis using d by (intro same_controls [OF same]) (simp_all add: line_feed_def controls_def)
    qed (use agreesD [OF agrees_scroll_up o same] d in \<open>simp add: line_feed_def\<close>)
  qed
  show "agrees reverse_index"
  proof (rule agreesI)
    fix s t assume o: "console_ok s" "console_ok t" and same: "same_screen s t"
    note d = sameD [OF same]
    show "same_screen (reverse_index s) (reverse_index t)"
    proof (cases "cursor_y s > scroll_top s")
      case True
      then show ?thesis using d by (intro same_controls [OF same]) (simp_all add: reverse_index_def controls_def)
    qed (use agreesD [OF agrees_scroll_down o same] d in \<open>simp add: reverse_index_def\<close>)
  qed
qed

lemma same_set_x:
  assumes "same_screen s t"
  shows "same_screen (s\<lparr>cursor_x := x, cursor_pos := p\<rparr>) (t\<lparr>cursor_x := x, cursor_pos := q\<rparr>)"
  using sameD [OF assms] by (intro same_controls [OF assms]) (simp_all add: controls_def)

lemma agrees_columns: "agrees carriage_return" "agrees backspace" "agrees bell"
proof -
  show "agrees carriage_return" by (rule agreesI) (simp add: carriage_return_def same_set_x)
  show "agrees backspace"
    by (rule agreesI) (auto simp: backspace_def sameD(4) intro: same_set_x)
  show "agrees bell"
  proof (rule agreesI)
    fix s t assume "same_screen s t"
    from same_controls [OF this] sameD [OF this] show "same_screen (bell s) (bell t)"
      by (simp add: bell_def outb_def controls_def)
  qed
qed

lemma same_write:
  assumes o: "console_ok s" "console_ok t" and same: "same_screen s t"
  shows "same_screen (write_cell (cursor_pos s) v s) (write_cell (cursor_pos t) v t)"
proof (rule same_cells [OF same])
  fix r c assume rc: "r < lines s" "c < columns s"
  note d = sameD [OF same]
  have w: "cell (write_cell (cursor_pos u) v u) r c = (if cursor_y u * columns u + cursor_x u = r * columns u + c then v else cell u r c)"
    if "console_ok u" for u
    using cursor_index(1) [OF that] by (auto simp: cell_def write_cell_def)
  show "cell (write_cell (cursor_pos s) v s) r c = cell (write_cell (cursor_pos t) v t) r c"
    using d d(12) [OF rc] by (simp add: w o)
qed (simp_all add: write_cell_def controls_def)

lemma agrees_delete: "agrees vga_delete"
proof (rule agreesI)
  fix s t assume o: "console_ok s" "console_ok t" and same: "same_screen s t"
  note d = sameD [OF same]
  show "same_screen (vga_delete s) (vga_delete t)"
  proof (cases "cursor_x s > 0")
    case True
    let ?f = "\<lambda>s. s\<lparr>cursor_x := cursor_x s - 1, cursor_pos := cursor_pos s - 2\<rparr>"
    have "same_screen (?f s) (?f t)" using same_set_x [OF same] d by simp
    moreover have "console_ok (?f s)" "console_ok (?f t)" using ok_left [OF o(1)] ok_left [OF o(2)] True d(4) by simp_all
    ultimately show ?thesis using same_write [of "?f s" "?f t" "erase_cell s"] True d by (simp add: vga_delete_def Let_def)
  qed (use same d in \<open>simp add: vga_delete_def\<close>)
qed

lemma same_next_line:
  assumes o: "console_ok s" "console_ok t" and same: "same_screen s t" and x: "x \<le> columns s"
    and p: "p = origin s + cursor_y s * row_bytes s + 2 * x" "q = origin t + cursor_y t * row_bytes t + 2 * x"
  shows "same_screen (line_feed (s\<lparr>cursor_x := x, cursor_pos := p\<rparr>)) (line_feed (t\<lparr>cursor_x := x, cursor_pos := q\<rparr>))"
  by (rule agreesD [OF agrees_rows(1) _ _ same_set_x [OF same]])
    (use ok_set_x [OF o(1) x p(1)] ok_set_x [OF o(2) _ p(2)] x sameD(1) [OF same] in simp_all)

lemma agrees_tab: "agrees tab"
proof (rule agreesI)
  fix s t assume o: "console_ok s" "console_ok t" and same: "same_screen s t"
  note d = sameD [OF same] and e = console_okD [OF o(1)] and f = console_okD [OF o(2)]
  let ?k = "8 - cursor_x s mod 8"
  show "same_screen (tab s) (tab t)"
  proof (cases "cursor_x s + ?k > columns s")
    case True
    have "same_screen (line_feed (s\<lparr>cursor_x := cursor_x s + ?k - columns s, cursor_pos := cursor_pos s + 2 * ?k - row_bytes s\<rparr>))
        (line_feed (t\<lparr>cursor_x := cursor_x s + ?k - columns s, cursor_pos := cursor_pos t + 2 * ?k - row_bytes t\<rparr>))"
      using True e f d by (intro same_next_line [OF o same]) simp_all
    then show ?thesis using True d by (simp add: tab_def Let_def)
  next
    case False
    then show ?thesis using d(1,4) by (simp add: tab_def Let_def same_set_x [OF same])
  qed
qed

text \<open>The loops over the rest of a line, in terms of cells.\<close>

lemma rest_of_line:
  assumes "c < (C :: nat)" "x \<le> C"
  shows "y * C + x \<le> r * C + c \<and> r * C + c < y * C + C \<longleftrightarrow> r = y \<and> x \<le> c"
proof -
  have "y * C + C = Suc y * C" by simp
  then have "r * C + c < y * C + C \<longleftrightarrow> r \<le> y" using row_index(2) [OF assms(1), of r "Suc y"] by (simp add: add.commute less_Suc_eq_le)
  moreover have "y \<le> r" if "y * C + x \<le> r * C + c" using that row_index(1) [OF assms(1), of y r] by simp
  ultimately show ?thesis by auto
qed

lemma cell_insert_char:
  assumes ok: "console_ok s" and c: "c < columns s"
  shows "cell (insert_char_at_cursor s) r c =
    (if r = cursor_y s \<and> cursor_x s \<le> c then (if c = cursor_x s then erase_cell s else cell s r (c - 1)) else cell s r c)"
proof -
  note i = cursor_index(1) [OF ok] and x = console_okD(4) [OF ok]
  let ?q = "cursor_y s * columns s + cursor_x s" and ?k = "r * columns s + c"
  have "cell (insert_char_at_cursor s) r c =
      (if ?q \<le> ?k \<and> ?k < ?q + (columns s - cursor_x s) then (if ?k = ?q then erase_cell s else vmem s (origin s + 2 * ?k - 2)) else cell s r c)"
    unfolding insert_char_at_cursor_def insert_loop_eq i by (auto simp: cell_def)
  moreover have "?q + (columns s - cursor_x s) = cursor_y s * columns s + columns s" using x by simp
  moreover have "vmem s (origin s + 2 * ?k - 2) = cell s r (c - 1)" if "0 < c"
  proof -
    have "origin s + 2 * ?k - 2 = origin s + 2 * (r * columns s + (c - 1))" using that by simp
    then show ?thesis by (simp only: cell_def)
  qed
  ultimately show ?thesis using rest_of_line [OF c x, of "cursor_y s" r] by auto
qed

lemma cell_delete_char:
  assumes ok: "console_ok s" and x: "cursor_x s < columns s" and c: "c < columns s"
  shows "cell (delete_char_at_cursor s) r c =
    (if r = cursor_y s \<and> cursor_x s \<le> c then (if c + 1 = columns s then erase_cell s else cell s r (c + 1)) else cell s r c)"
proof -
  note i = cursor_index(1) [OF ok]
  let ?q = "cursor_y s * columns s + cursor_x s" and ?k = "r * columns s + c" and ?n = "columns s - cursor_x s - 1"
  have a: "cell (delete_char_at_cursor s) r c =
      (if ?q \<le> ?k \<and> ?k < ?q + ?n then vmem s (origin s + 2 * ?k + 2) else if ?k = ?q + ?n then erase_cell s else cell s r c)"
    using x unfolding delete_char_at_cursor_def delete_loop_eq i by (auto simp: cell_def)
  have v: "vmem s (origin s + 2 * ?k + 2) = cell s r (c + 1)" by (simp add: cell_def)
  have "?q + ?n + 1 = cursor_y s * columns s + columns s" using x by simp
  then have "?q \<le> ?k \<and> ?k \<le> ?q + ?n \<longleftrightarrow> r = cursor_y s \<and> cursor_x s \<le> c"
    using rest_of_line [OF c less_imp_le [OF x], of "cursor_y s" r] by auto
  moreover have "?k = ?q + ?n \<longleftrightarrow> c + 1 = columns s" if "r = cursor_y s" using that x by auto
  ultimately show ?thesis unfolding a v using x c by (auto split: if_splits)
qed

lemma agrees_chars: "agrees insert_char_at_cursor" "agrees delete_char_at_cursor"
proof -
  show "agrees insert_char_at_cursor"
  proof (rule agreesI)
    fix s t assume o: "console_ok s" "console_ok t" and same: "same_screen s t"
    note d = sameD [OF same]
    show "same_screen (insert_char_at_cursor s) (insert_char_at_cursor t)"
    proof (rule same_cells [OF same])
      fix r c assume rc: "r < lines s" "c < columns s"
      then have "cell t r c = cell s r c" "cell t r (c - 1) = cell s r (c - 1)" using d(12) by simp_all
      then show "cell (insert_char_at_cursor s) r c = cell (insert_char_at_cursor t) r c"
        using rc(2) d(1,3-5) by (auto simp: cell_insert_char o)
    qed (simp_all add: insert_char_at_cursor_def insert_loop_eq controls_def)
  qed
  show "agrees delete_char_at_cursor"
  proof (rule agreesI)
    fix s t assume o: "console_ok s" "console_ok t" and same: "same_screen s t"
    note d = sameD [OF same]
    show "same_screen (delete_char_at_cursor s) (delete_char_at_cursor t)"
    proof (cases "cursor_x s < columns s")
      case x: True
      show ?thesis
      proof (rule same_cells [OF same])
        fix r c assume rc: "r < lines s" "c < columns s"
        have "cell t r c = cell s r c" "c + 1 \<noteq> columns s \<Longrightarrow> cell t r (c + 1) = cell s r (c + 1)" using d(12) rc by simp_all
        then show "cell (delete_char_at_cursor s) r c = cell (delete_char_at_cursor t) r c"
          using rc(2) d(1,3-5) x by (auto simp: cell_delete_char o)
      qed (simp_all add: delete_char_at_cursor_def delete_loop_eq controls_def)
    qed (use same d in \<open>simp add: delete_char_at_cursor_def\<close>)
  qed
qed

lemma agrees_region:
  assumes f: "agrees f" "safe f"
  shows "agrees (scroll_region_temporarily f)"
proof (rule agreesI)
  fix s t assume o: "console_ok s" "console_ok t" and same: "same_screen s t"
  note d = sameD [OF same]
  let ?g = "\<lambda>s. s\<lparr>scroll_top := cursor_y s, scroll_bottom := lines s\<rparr>"
  have ok: "console_ok (?g u)" if "console_ok u" for u using console_okD [OF that] by (simp add: console_ok_def)
  have "same_screen (?g s) (?g t)" using d by (intro same_controls [OF same]) (simp_all add: controls_def)
  from agreesD [OF f(1) ok [OF o(1)] ok [OF o(2)] this] have e: "same_screen (f (?g s)) (f (?g t))" .
  show "same_screen (scroll_region_temporarily f s) (scroll_region_temporarily f t)"
    unfolding scroll_region_temporarily_def
    using sameD [OF e] d by (intro same_controls [OF e]) (simp_all add: controls_def)
qed

lemma agrees_counted:
  assumes "agrees f" "safe f" "\<And>s t. same_screen s t \<Longrightarrow> h s = h t"
  shows "agrees (\<lambda>s. (f ^^ h s) s)"
  using agreesD [OF agrees_power [OF assms(1,2)]] assms(3) by (auto simp: agrees_def)

lemma agrees_editing: "agrees (insert_lines n)" "agrees (delete_lines n)" "agrees (insert_chars n)" "agrees (delete_chars n)"
  unfolding insert_lines_def [abs_def] delete_lines_def [abs_def] insert_chars_def [abs_def] delete_chars_def [abs_def]
  by ((rule agrees_region safe_counted agrees_counted agrees_scroll_down agrees_scroll_up agrees_chars
        safe_scroll_down safe_scroll_up safe_insert_char safe_delete_char) | simp add: sameD)+

lemma agrees_modes: "agrees set_scroll_region" "agrees set_graphic_rendition" "agrees (set_ansi a)"
proof -
  show "agrees set_scroll_region"
  proof (rule agreesI)
    fix s t assume same: "same_screen s t"
    show "same_screen (set_scroll_region s) (set_scroll_region t)"
      using sameD [OF same] by (intro same_controls [OF same]) (simp_all add: set_scroll_region_def Let_def controls_def)
  qed
  show "agrees set_graphic_rendition"
  proof (rule agreesI)
    fix s t assume same: "same_screen s t"
    show "same_screen (set_graphic_rendition s) (set_graphic_rendition t)"
      using sameD [OF same] by (intro same_controls [OF same]) (simp_all add: set_graphic_rendition_def controls_def)
  qed
  show "agrees (set_ansi a)"
  proof (rule agreesI)
    fix s t assume same: "same_screen s t"
    show "same_screen (set_ansi a s) (set_ansi a t)"
      using sameD [OF same] by (intro same_controls [OF same]) (simp_all add: set_ansi_def controls_def)
  qed
qed

lemma agrees_dispatch_csi: "agrees (dispatch_csi c)"
proof (rule agreesI)
  fix s t assume o: "console_ok s" "console_ok t" and same: "same_screen s t"
  note d = sameD [OF same]
  have p: "same_screen (f s) (f t)" if "agrees f" for f using agreesD [OF that o same] .
  show "same_screen (dispatch_csi c s) (dispatch_csi c t)"
    unfolding dispatch_csi_def Let_def
    by (simp add: d p [OF agrees_move_cursor] p [OF agrees_erase(1)] p [OF agrees_erase(2)] p [OF agrees_editing(1)]
        p [OF agrees_editing(2)] p [OF agrees_editing(3)] p [OF agrees_editing(4)] p [OF agrees_modes(1)] p [OF agrees_modes(2)]
        p [OF agrees_save_restore(1)] p [OF agrees_save_restore(2)] same)
qed

lemma same_parser: "same_screen s t \<Longrightarrow> same_screen (s\<lparr>parser := p\<rparr>) (t\<lparr>parser := p\<rparr>)"
  by (rule same_controls, assumption) (auto simp: same_screen_def controls_def)

lemma agrees_csi_param: "agrees (handle_csi_param b)"
proof (rule agreesI)
  fix s t assume o: "console_ok s" "console_ok t" and same: "same_screen s t"
  have "same_screen (dispatch_csi b (set_ansi Normal s)) (dispatch_csi b (set_ansi Normal t))"
    using agreesD [OF agrees_comp [OF agrees_modes(3) safe_modes(3) agrees_dispatch_csi] o same] .
  then show "same_screen (handle_csi_param b s) (handle_csi_param b t)"
    using same_parser [OF same] by (simp add: handle_csi_param_def Let_def sameD(11) [OF same])
qed

lemma agrees_csi_entry: "agrees (handle_csi_entry b)"
proof (cases "b = 0x3F")
  case True
  then show ?thesis using agrees_modes(3) by (simp add: handle_csi_entry_def [abs_def] Let_def)
next
  case False
  then show ?thesis
    using agrees_comp [OF agrees_modes(3) safe_modes(3) agrees_csi_param] by (simp add: handle_csi_entry_def [abs_def] Let_def)
qed

lemma agrees_escape: "agrees (handle_escape b)"
proof (rule agreesI)
  fix s t assume o: "console_ok s" "console_ok t" and same: "same_screen s t"
  let ?s = "set_ansi Normal s" and ?t = "set_ansi Normal t"
  have p: "same_screen (f ?s) (f ?t)" if "agrees f" for f
    using agreesD [OF agrees_comp [OF agrees_modes(3) safe_modes(3) that] o same] .
  have n: "same_screen ?s ?t" using agreesD [OF agrees_modes(3) o same] .
  have "same_screen (set_ansi CsiEntry (?s\<lparr>parser := reset_params (parser ?s)\<rparr>)) (set_ansi CsiEntry (?t\<lparr>parser := reset_params (parser ?t)\<rparr>))"
    using same_parser [OF n] sameD(11) [OF n] by (simp add: set_ansi_def)
  then show "same_screen (handle_escape b s) (handle_escape b t)"
    unfolding handle_escape_def Let_def
    using p [OF agrees_move_cursor] p [OF agrees_rows(1)] p [OF agrees_rows(2)] p [OF agrees_save_restore(1)]
      p [OF agrees_save_restore(2)] n sameD(5) [OF n] by simp
qed

lemma same_advance:
  assumes "same_screen s t"
  shows "same_screen (s\<lparr>cursor_x := cursor_x s + 1, cursor_pos := p\<rparr>) (t\<lparr>cursor_x := cursor_x t + 1, cursor_pos := q\<rparr>)"
  using same_set_x [OF assms] sameD(4) [OF assms] by simp

lemma agrees_normal: "agrees (handle_normal b)"
proof (rule agreesI)
  fix s t assume o: "console_ok s" "console_ok t" and same: "same_screen s t"
  note d = sameD [OF same]
  let ?f = "\<lambda>s. if cursor_x s \<ge> columns s
      then line_feed (s\<lparr>cursor_x := cursor_x s - columns s, cursor_pos := cursor_pos s - row_bytes s\<rparr>) else s"
  have ok: "console_ok (?f u)" if "console_ok u" for u
    using safe_next_line [OF that, of "cursor_x u - columns u"] console_okD [OF that] that by auto
  have f: "same_screen (?f s) (?f t)"
    using same_next_line [OF o same, of "cursor_x s - columns s"] console_okD [OF o(1)] console_okD [OF o(2)] d same by auto
  have "same_screen (put_char b (?f s)) (put_char b (?f t))" (is "same_screen ?u ?w")
    using same_write [OF ok [OF o(1)] ok [OF o(2)] f] sameD(8) [OF f] unfolding put_char_def by simp
  from same_advance [OF this]
  have "same_screen (?u\<lparr>cursor_x := cursor_x ?u + 1, cursor_pos := cursor_pos ?u + 2\<rparr>)
      (?w\<lparr>cursor_x := cursor_x ?w + 1, cursor_pos := cursor_pos ?w + 2\<rparr>)" .
  moreover have p: "same_screen (g s) (g t)" if "agrees g" for g using agreesD [OF that o same] .
  ultimately show "same_screen (handle_normal b s) (handle_normal b t)"
    unfolding handle_normal_def Let_def
    using p [OF agrees_rows(1)] p [OF agrees_columns(1)] p [OF agrees_columns(2)] p [OF agrees_columns(3)] p [OF agrees_delete]
      p [OF agrees_tab] p [OF agrees_modes(3)] same by simp
qed

lemma agrees_write_byte: "agrees (write_byte b)"
proof (rule agreesI)
  fix s t assume o: "console_ok s" "console_ok t" and same: "same_screen s t"
  have p: "same_screen (g s) (g t)" if "agrees g" for g using agreesD [OF that o same] .
  show "same_screen (write_byte b s) (write_byte b t)"
    using p [OF agrees_normal] p [OF agrees_escape] p [OF agrees_csi_entry] p [OF agrees_csi_param] sameD(11) [OF same]
    by (simp add: write_byte_def split: AnsiState.splits)
qed

lemma agrees_bytes: "agrees (fold write_byte bytes)"
proof (induction bytes)
  case Nil
  then show ?case by (simp add: agrees_def)
next
  case (Cons b bytes)
  from agrees_comp [OF agrees_write_byte safe_write_byte Cons.IH] show ?case by (simp add: comp_def)
qed

section \<open>Start-up\<close>

text \<open>Detection establishes the invariant when the text screen fits into the memory of the adapter.\<close>

lemma detect_and_init_ok:
  assumes c: "8 \<le> unat (drop_bit 8 orig_mode)" and e: "fst early \<le> unat (drop_bit 8 orig_mode)" "snd early < SCREEN_LINES"
    and fits: "50 * unat (drop_bit 8 orig_mode) \<le> 0x2000"
  shows "console_ok (detect_and_init orig_mode ega_bx early s)"
proof -
  have sync: "console_ok (sync_hardware_cursor u) = console_ok u" for u by (simp add: sync_hardware_cursor_def safe_crtc)
  let ?cols = "unat (drop_bit 8 orig_mode)"
  have moved: "console_ok (move_cursor (fst early) (snd early) u)"
    if "columns u = ?cols" "lines u = SCREEN_LINES" "row_bytes u = 2 * ?cols" "origin u = mem_start u"
      "screen_end u = mem_start u + SCREEN_LINES * (2 * ?cols)" "mem_start u + 0x2000 \<le> mem_end u" "scroll_top u = 0"
      "scroll_bottom u = SCREEN_LINES" "parser u = AnsiParser_new" for u
    using that c e fits
    by (simp add: move_cursor_def console_ok_def SCREEN_LINES_def AnsiParser_new_def MAX_ANSI_PARAMS_def)
  have erased: "console_ok (erase_display 0 u)" if "console_ok u" for u using safeD(1) [OF safe_erase_display that] .
  show ?thesis
    unfolding detect_and_init_def Let_def sync
    by (rule erased, rule moved) (simp_all add: mult.commute)
qed

section \<open>Properties\<close>

text \<open>A small EGA screen whose memory holds three lines, and the same screen on a CGA.\<close>

definition demo_console :: VgaConsole where
  "demo_console = \<lparr>display_type = EgaColor, columns = 8, lines = 2, row_bytes = 16, mem_start = 0xB8000, mem_end = 0xB8030,
     port_reg = 0x3D4, port_val = 0x3D5, erase_cell = ERASE_CELL, origin = 0xB8000, screen_end = 0xB8020,
     cursor_pos = 0xB8010, cursor_x = 0, cursor_y = 1, scroll_top = 0, scroll_bottom = 2, attribute = ATTR_NORMAL,
     saved_x = 0, saved_y = 0, parser = AnsiParser_new, vmem = (\<lambda>_. ERASE_CELL), port_log = [], port_b = 0\<rparr>"

lemma demo_console_ok: "console_ok demo_console" "console_ok (demo_console\<lparr>display_type := Cga\<rparr>)"
  by (simp_all add: console_ok_def demo_console_def AnsiParser_new_def MAX_ANSI_PARAMS_def)

lemma demo_console_same: "same_screen demo_console (demo_console\<lparr>display_type := Cga\<rparr>)"
  by (simp add: same_screen_def controls_def cell_def demo_console_def)

text \<open>
  (C40) Whatever bytes a program writes to the console, escape sequences with arbitrary parameters
  included, the cursor stays on the screen, the screen in the video memory, and no cell that does
  not lie in the video memory of the adapter as a whole is written.
\<close>

theorem console_stays_in_video_memory:
  "console_ok s \<Longrightarrow> console_ok (write_batch bytes s)
     \<and> (\<forall>a. mem_start s \<le> a \<and> a + 2 \<le> mem_end s \<or> vmem (write_batch bytes s) a = vmem s a)"
proof -
  assume ok: "console_ok s"
  have "vmem (write_batch bytes s) a = vmem s a" if "\<not> (mem_start s \<le> a \<and> a + 2 \<le> mem_end s)" for a
    using safeD(2) [OF safe_batch ok, of bytes] that by (auto simp: confined_def not_le)
  then show ?thesis using safeD(1) [OF safe_batch ok] by blast
qed

theorem console_stays_in_video_memory_witness:
  "cursor_y (write_batch [0x41, 0x0A, 0x1B, 0x5B, 0x39, 0x41] demo_console) < 2
     \<and> vmem (write_batch [0x41, 0x0A, 0x1B, 0x5B, 0x39, 0x41] demo_console) 0xB8030 = ERASE_CELL"
proof -
  let ?s = "write_batch [0x41, 0x0A, 0x1B, 0x5B, 0x39, 0x41] demo_console"
  have "lines ?s = 2" using safeD(2) [OF safe_batch demo_console_ok(1)] by (simp add: confined_def demo_console_def)
  then show ?thesis
    using console_stays_in_video_memory [OF demo_console_ok(1), of "[0x41, 0x0A, 0x1B, 0x5B, 0x39, 0x41]"]
    by (auto simp: console_ok_def demo_console_def dest!: spec [of _ "0xB8030"])
qed

text \<open>
  (C39) Scrolling by moving the origin of the display, with the copy back when the memory is used up,
  is invisible: two consoles that show the same screen, on adapters of any type, with their screens
  anywhere in their memories, show the same screen after the same bytes, with the same cursor,
  scroll region, attribute and parser state.
\<close>

theorem fast_scroll_invisible:
  assumes "console_ok s" "console_ok t" "same_screen s t"
  shows "same_screen (write_batch bytes s) (write_batch bytes t)"
proof -
  have b: "same_screen (fold write_byte bytes s) (fold write_byte bytes t)" (is "same_screen ?u ?w")
    by (rule agreesD [OF agrees_bytes assms])
  have "vmem (write_batch bytes v) = vmem (fold write_byte bytes v)" "origin (write_batch bytes v) = origin (fold write_byte bytes v)"
    "controls (write_batch bytes v) = controls (fold write_byte bytes v)" for v
    by (simp_all add: write_batch_def sync_hardware_cursor_def controls_crtc) (simp_all add: write_crtc_word_def outb_def)
  then show ?thesis using b by (intro same_controls [OF b]) (simp_all add: same_screen_def controls_def)
qed

theorem fast_scroll_invisible_witness:
  "same_screen (write_batch [0x41, 0x0A, 0x42, 0x0A] demo_console) (write_batch [0x41, 0x0A, 0x42, 0x0A] (demo_console\<lparr>display_type := Cga\<rparr>))"
  by (rule fast_scroll_invisible [OF demo_console_ok demo_console_same])

end
