(* ===== verification/Console_Output.thy ===== *)
theory Console_Output
  imports Tty_Properties Vga_Properties
begin

text \<open>
  The console as the output device of a terminal (\<open>ConsoleBackend::start_output\<close> of
  \<open>kernel/src/driver/character/console/mod.rs\<close>): the output queue is drained in batches.
\<close>

definition OUTPUT_BATCH :: nat where "OUTPUT_BATCH = 256"

text \<open>The fuel bounds the number of batches; one more than the length of the queue is enough, as shown below.\<close>

fun console_start_output :: "nat \<Rightarrow> TtyState \<Rightarrow> VgaConsole \<Rightarrow> (TtyState \<times> VgaConsole) option" where
  "console_start_output 0 st s = None"
| "console_start_output (Suc n) st s =
     (case take_output OUTPUT_BATCH st of (bytes, st1) \<Rightarrow>
        if bytes = [] then Some (st1, s) else console_start_output n st1 (write_batch bytes s))"

lemma take_output_stopped: "stopped (snd (take_output n st)) = stopped st"
  by (induction n st rule: take_output.induct) (auto simp: Let_def split: prod.splits option.splits)

text \<open>
  The loop ends.  A terminal that is not stopped has its whole queue shown, and the console stays in
  its video memory.
\<close>

lemma console_start_output_drains:
  assumes "tty_ok st" "console_ok s" "length (out_bytes st) < n"
  shows "\<exists>st' s'. console_start_output n st s = Some (st', s') \<and> console_ok s' \<and> (stopped st \<or> out_bytes st' = [])"
  using assms
proof (induction n arbitrary: st s)
  case (Suc n)
  obtain bs st1 where t: "take_output OUTPUT_BATCH st = (bs, st1)" by (cases "take_output OUTPUT_BATCH st")
  note e = take_output_effect [OF Suc.prems(1) t]
  show ?case
  proof (cases "bs = []")
    case True
    with e have "stopped st \<or> out_bytes st1 = []" by (auto simp: OUTPUT_BATCH_def split: if_splits)
    with True t Suc.prems(2) show ?thesis by simp
  next
    case False
    with e have "length (out_bytes st1) < length (out_bytes st)" by simp
    then have "length (out_bytes st1) < n" using Suc.prems(3) by simp
    moreover have "console_ok (write_batch bs s)" using safeD(1) [OF safe_batch Suc.prems(2)] .
    moreover have "stopped st1 = stopped st" using take_output_stopped [of OUTPUT_BATCH st] t by simp
    ultimately show ?thesis using Suc.IH [of st1 "write_batch bs s"] e t False by simp
  qed
qed simp

end
