(* ===== verification/Spec2Isabelle.thy ===== *)
theory Spec2Isabelle
  imports Mm_Properties Tty_Ioctl Process_Properties Sleep_Lock Pipe_Properties Minix_Properties Buffer_Acquire Hd_Properties Open_Properties Console_Output
begin

text \<open>
  Verification of linux-0.11-rs, a rewrite of the Linux 0.11 kernel in Rust (\<open>src/kernel\<close>), with the
  user library, programs and host tools of the same repository beside it.

  \<^bold>\<open>The program.\<close>  The kernel runs on one i386 processor and is not preempted: a system call runs
  until it returns or sleeps, interrupts only set flags, move characters and count ticks.  Memory
  management (\<open>mm/\<close>) gives each process a private 64 MB window of one page directory, shares pages
  between parent and child after \<open>fork\<close> and copies them on the first write.  The task layer
  (\<open>task/\<close>, \<open>signal.rs\<close>, \<open>syscall/handler/process/\<close>) keeps a table of 64 tasks, chooses the next one
  to run, and implements exit, wait, signals and identities.  Tasks wait on single-slot queues, on
  which the sleeping locks of \<open>sync/\<close>, the pipes of \<open>fs/file/pipe.rs\<close> and the terminals of
  \<open>driver/character/tty/\<close> are built.  The file system (\<open>fs/\<close>) is Minix version 1 over a cache of
  blocks.

  \<^bold>\<open>Conventions\<close> (\<open>Kernel_Prelude\<close>).  Machine integers are words of their width; \<open>usize\<close> quantities that
  are bounded by the code far below \<open>2 ^ 32\<close> are natural numbers.  Arithmetic wraps and
  \<^verbatim>\<open>debug_assert!\<close> is not compiled, as in the release profile that the Makefile builds.  An operation
  takes the state and returns \<open>Ok\<close>, \<open>Err\<close> or \<open>Panic\<close> with the state it leaves; \<open>Panic\<close> is a failed
  assertion, \<open>expect\<close> or bounds check.  Code between two calls of the scheduler is one step.

  \<^bold>\<open>Memory management\<close> (\<open>mm/address.rs\<close>, \<open>page.rs\<close>, \<open>frame.rs\<close>, \<open>space.rs\<close>, \<open>page_fault.rs\<close>).
  \<open>Mm_Address\<close>, \<open>Mm_Page\<close>: address arithmetic and page entries on 32-bit words.  \<open>Mm_Frame\<close>: the
  reference counts of physical frames and physical memory.  \<open>Mm_Space\<close>: page tables, mapping,
  copy-on-write sharing, release.  \<open>Mm_Fault\<close>: the fault handlers.  \<open>Mm_Invariant\<close>, \<open>Mm_Cow\<close> and
  \<open>Mm_Fork\<close> prove that reference counts equal the number of mappings and how forking and writing
  change what each process reads; the properties are in \<open>Mm_Properties\<close>.

  \<^bold>\<open>Terminals\<close> (\<open>driver/character/tty/\<close>).  \<open>Ring_Buffer\<close>: the masked ring buffer as a bounded queue
  (locale \<open>bounded_queue\<close>).  \<open>Tty\<close>, \<open>Tty_Line\<close>, \<open>Tty_Properties\<close>: settings, line discipline, reads and
  writes.  The loops that drain a queue get as fuel the length of the raw queue, and erasing a line
  the length of the cooked line plus one; both are proved to be enough.  \<open>Le_Bytes\<close>, \<open>User_Access\<close>,
  \<open>Tty_Ioctl\<close>: byte images of C structures, user memory, control requests.  The count of complete lines
  is exact over every sequence of received bytes, reads, writes, flushes and requests, provided no
  request changes the end-of-file character while the old or the new one is queued; a theorem shows what
  happens otherwise.

  \<^bold>\<open>Processes\<close> (\<open>task/\<close>, \<open>signal.rs\<close>, \<open>syscall/handler/process/\<close>).  \<open>Task\<close>: control blocks and the
  table.  \<open>Scheduler\<close>: selection, time slices, process identifiers; the two searches that could run
  for ever are partial functions proved to return.  \<open>Process\<close>, \<open>Process_Family\<close>, \<open>Process_Steps\<close>,
  \<open>Process_Properties\<close>: the calls, the family tree as an invariant of every sequence of steps.  Process 1
  may exit like any other; from then on its orphans have a father that does not exist.

  \<^bold>\<open>Waiting\<close> (\<open>task/wait_queue.rs\<close>, \<open>sync/\<close>, \<open>fs/file/pipe.rs\<close>).  \<open>Wait_Queue\<close>: the hand-off of the
  single-slot queue, with sleeping tasks as a step relation; \<open>Sleep_Lock\<close>: \<open>BusyLock\<close> and \<open>Mutex\<close> over
  it; \<open>Pipe\<close>, \<open>Pipe_Properties\<close>: pipes under every interleaving of readers, writers and closes.

  \<^bold>\<open>File system\<close> (\<open>fs/layout.rs\<close>, \<open>bitmap.rs\<close>, \<open>minix.rs\<close>).  \<open>Fs_Layout\<close>: structures on disk and typed
  views of a block (locale \<open>block_view\<close>).  \<open>Block_Store\<close>: the blocks as the buffer cache presents
  them.  \<open>Fs_Bitmap\<close>: allocation bitmaps as sets.  \<open>Minix_File\<close>: mapping, reading, writing and
  truncating; \<open>Minix_Zones\<close>, \<open>Minix_Data\<close>, \<open>Minix_Truncate\<close> prove that a file is a size and a function
  from positions to bytes, that no zone is used twice and that other files are left alone.  Truncating
  skips an indirect block that cannot be read, and the zones below it stay allocated.
  \<open>Minix_Dir\<close>: directories as finite maps.  The properties are in \<open>Minix_Properties\<close>.

  \<^bold>\<open>Block cache and requests\<close> (\<open>fs/buffer.rs\<close>, \<open>driver/block/mod.rs\<close>).  \<open>Buffer_Cache\<close>: the slots, index and
  replacement order, pinning, rebinding and write-back.  \<open>Buffer_Properties\<close> states the contract of
  a block layer as a locale, interprets it on the plain store of \<open>Block_Store\<close> and on the cache, and
  derives that both present the same blocks.  \<open>Buffer_Acquire\<close> cuts the acquisition of a slot at the
  points where its task sleeps, and shows the interleaving in which a pinned slot is rebound.
  The cache reads and writes a device at the block number it is given; that the sector number, twice the
  block number, wraps from block \<open>2 ^ 31\<close> on is left out, as zones have 16 bits.  \<open>Block_Store\<close> takes a
  block that was zeroed as readable from then on, also after the cache has evicted it.
  \<open>Block_Queue\<close>: the request pool, the elevator queues threaded through it, submission
  and completion; the walk along a queue gets the pool size as fuel, which is enough because a queue
  has no duplicates.

  \<^bold>\<open>Hard disk\<close> (\<open>driver/block/hd/\<close>).  \<open>Hd_Driver\<close>: geometry, partitions, the translation of a request into
  controller registers, the kick loop and the interrupt continuations, with the controller as an
  arbitrary sequence of answers.  \<open>Hd_Properties\<close>: the kick loop, a partial function, is proved to return,
  no queued request is left without an interrupt to come, and a request reaches the sector it means.
  Geometry and partition tables are those found at start-up, and the kick loop is one step.

  \<^bold>\<open>Names\<close> (\<open>fs/minix.rs\<close>, \<open>mount.rs\<close>, \<open>path.rs\<close>, \<open>syscall/handler/fs/path.rs\<close> and \<open>mount.rs\<close>).  \<open>Vfs\<close>: opening a file
  system, the table of cached inodes with clock eviction, the mounts, creation of inodes.
  \<open>Fs_Path\<close>: pathnames, permissions, resolution.  \<open>Fs_Calls\<close>: the calls on names and on mounts.
  \<open>Path_Split\<close> proves the split of a pathname against its specification.  \<open>Fs_Triples\<close> is a small Hoare
  logic for operations that may fail; with it \<open>Vfs_Refs\<close> and \<open>Fs_Refs\<close> prove, for resolution and then
  for every call, that handles on inodes are neither leaked nor lost on any path, errors included.
  Resolution follows mount points with the size of the mount table as fuel; two rounds are
  proved to be enough, as no root is a mount point.  The properties are in \<open>Fs_Properties\<close>.

  \<^bold>\<open>Open files\<close> (\<open>fs/file/\<close>, \<open>syscall/handler/fs/fd.rs\<close>).  \<open>Open_Files\<close>: file objects shared by counted
  descriptors, their operations on regular files, character and block devices, the calls on
  descriptors, and what exec, fork and exit do to them.  Terminals and pipes are a parameter there, a
  record of operations.  \<open>Open_Refs\<close> extends the accounting of \<open>Fs_Refs\<close> to file objects: they hold
  their inodes and live as long as a descriptor refers to them.  The property is in \<open>Open_Properties\<close>.

  \<^bold>\<open>Text console\<close> (\<open>driver/character/console/vga.rs\<close>, \<open>mod.rs\<close>).  \<open>Vga_Console\<close>: escape sequences, cursor,
  scrolling and editing on the cells of the video memory.  \<open>Vga_Properties\<close>: every operation keeps the
  cursor on the screen and its writes in the video memory, and works on the visible cells the same way
  on every adapter, although EGA and VGA scroll by moving the origin of the display.  The visible cells are
  those from the field \<open>origin\<close> on; that the start register of the controller follows it is not stated.
  \<open>Console_Output\<close>: draining a terminal's output queue to the console; the length of the queue is
  enough fuel.

  \<^bold>\<open>Not modelled.\<close>  Code whose effect is on the machine: boot, traps, descriptor tables, port I/O, the
  assembly stubs, keyboard and serial line.  The kernel heap is a third-party crate.
  Masking interrupts makes a critical section atomic, which is how the model treats it.  Within a
  call the clock is taken as constant.  File system calls are modelled for one task at a time; the
  locks that serialise them are verified on their own.  The loader of programs with its handle on the
  running executable, the user library and programs and the host tools are left out.
\<close>

end
